(* ===== verification/Prelude.thy ===== *)
theory Prelude
  imports Main "HOL-Library.Word" "HOL-Library.Monad_Syntax"
begin

text \<open>
  Shared material of the PennOS development: the machine types of the C sources, the
  conversions between C integer types, byte-level encodings, and the generic facts on lists
  and options that the component theories use.

  Conventions used in every theory.
  \<^item> An unsigned C integer of width \<open>w\<close> is a \<^typ>\<open>nat\<close> below \<open>2 ^ w\<close>; each conversion or
    assignment that can lose bits is written as one of the casts \<open>u8\<close>, \<open>u16\<close>, \<open>u32\<close>. A C
    \<open>int\<close> is an \<^typ>\<open>int\<close>; \<open>u32_of_int\<close> is the conversion a mixed signed and unsigned
    comparison applies. A stored byte is an \<^typ>\<open>8 word\<close>.
  \<^item> A pointer is an address (\<^typ>\<open>nat\<close>), a pointer that may be \<open>NULL\<close> an address option.
  \<^item> A C function that can dereference \<open>NULL\<close>, index an array out of range or loop forever is
    a function into an option type; \<^term>\<open>None\<close> says that the call does not return. Error
    codes that the C function returns are ordinary values and never \<^term>\<open>None\<close>.
\<close>

named_theorems heap_simps \<open>separation facts of the intrusive lists\<close>
named_theorems cast_simps \<open>values of the C integer conversions\<close>

type_synonym byte = "8 word"
type_synonym addr = nat

section \<open>C integer conversions\<close>

definition u8 :: "nat \<Rightarrow> nat" where
  "u8 n = n mod 256"

definition u16 :: "nat \<Rightarrow> nat" where
  "u16 n = n mod 65536"

definition u32 :: "nat \<Rightarrow> nat" where
  "u32 n = n mod 4294967296"

definition u32_of_int :: "int \<Rightarrow> nat" where
  "u32_of_int i = nat (i mod 4294967296)"

definition s32 :: "nat \<Rightarrow> int" where
  "s32 n = (if n mod 4294967296 < 2147483648 then int (n mod 4294967296)
            else int (n mod 4294967296) - 4294967296)"

section \<open>Byte-level helpers\<close>

fun le_bytes :: "nat \<Rightarrow> nat \<Rightarrow> byte list" where
  "le_bytes 0 n = []"
| "le_bytes (Suc k) n = word_of_nat (n mod 256) # le_bytes k (n div 256)"

fun le_nat :: "byte list \<Rightarrow> nat" where
  "le_nat [] = 0"
| "le_nat (b # bs) = unat b + 256 * le_nat bs"

definition chunk :: "nat \<Rightarrow> nat \<Rightarrow> 'a list \<Rightarrow> 'a list" where
  "chunk off n xs = take n (drop off xs)"

text \<open>\<open>memcpy (buf + off, ys, length ys)\<close> on a buffer held as a list.\<close>

definition overlay :: "nat \<Rightarrow> 'a list \<Rightarrow> 'a list \<Rightarrow> 'a list" where
  "overlay off ys xs = take off xs @ ys @ drop (off + length ys) xs"

fun hd_opt :: "'a list \<Rightarrow> 'a option \<Rightarrow> 'a option" where
  "hd_opt [] d = d"
| "hd_opt (x # xs) d = Some x"

fun last_opt :: "'a list \<Rightarrow> 'a option \<Rightarrow> 'a option" where
  "last_opt [] d = d"
| "last_opt (x # xs) d = last_opt xs (Some x)"

section \<open>Decimal output\<close>

text \<open>The bytes that the conversion \<open>%d\<close> produces, and the bytes of a string literal.\<close>

fun digits :: "nat \<Rightarrow> byte list" where
  "digits n = (if n < 10 then [word_of_nat (48 + n)]
               else digits (n div 10) @ [word_of_nat (48 + n mod 10)])"

declare digits.simps [simp del]

definition decimal :: "int \<Rightarrow> byte list" where
  "decimal i = (if i < 0 then 45 # digits (nat (- i)) else digits (nat i))"

definition ascii :: "string \<Rightarrow> byte list" where
  "ascii str = map of_char str"

section \<open>Facts on conversions\<close>

lemma u8_bound [simp]: "u8 n < 256"
  by (simp add: u8_def)

lemma u16_bound [simp]: "u16 n < 65536"
  by (simp add: u16_def)

lemma u32_bound [simp]: "u32 n < 4294967296"
  by (simp add: u32_def)

lemma u8_id [simp, cast_simps]: "n < 256 \<Longrightarrow> u8 n = n"
  by (simp add: u8_def)

lemma u16_id [simp, cast_simps]: "n < 65536 \<Longrightarrow> u16 n = n"
  by (simp add: u16_def)

lemma u32_id [simp, cast_simps]: "n < 4294967296 \<Longrightarrow> u32 n = n"
  by (simp add: u32_def)

lemma u16_le: "u16 n \<le> n"
  by (simp add: u16_def)

lemma u32_of_int_nonneg [cast_simps]: "0 \<le> i \<Longrightarrow> i < 4294967296 \<Longrightarrow> u32_of_int i = nat i"
  by (simp add: u32_of_int_def)

lemma u32_of_int_neg [cast_simps]:
  assumes "i < 0" and "-4294967296 \<le> i"
  shows "u32_of_int i = nat (4294967296 + i)"
proof -
  have "i mod 4294967296 = (4294967296 + i) mod 4294967296" by simp
  also have "\<dots> = 4294967296 + i" using assms by (intro mod_pos_pos_trivial) auto
  finally show ?thesis by (simp add: u32_of_int_def)
qed

lemma u32_of_int_int [simp]: "n < 4294967296 \<Longrightarrow> u32_of_int (int n) = n"
  by (simp add: u32_of_int_nonneg)

lemma u32_of_int_add [simp]: "a + b < 4294967296 \<Longrightarrow> u32_of_int (int a + int b) = a + b"
  using u32_of_int_int [of "a + b"] by simp

section \<open>Facts on byte encodings\<close>

lemma length_le_bytes [simp]: "length (le_bytes k n) = k"
  by (induction k arbitrary: n) auto

lemma unat_byte_bound: "unat (b :: byte) < 256"
  using unsigned_less [of b, where ?'a = nat] by simp

lemma unat_of_nat_mod256 [simp]: "unat (word_of_nat (n mod 256) :: byte) = n mod 256"
  by (simp add: unat_of_nat)

lemma le_nat_le_bytes: "n < 256 ^ k \<Longrightarrow> le_nat (le_bytes k n) = n"
proof (induction k arbitrary: n)
  case 0
  then show ?case by simp
next
  case (Suc k)
  then have "n div 256 < 256 ^ k" by (simp add: less_mult_imp_div_less mult.commute)
  then have "le_nat (le_bytes k (n div 256)) = n div 256" by (rule Suc.IH)
  then show ?case by simp
qed

lemma le_nat_bound: "le_nat bs < 256 ^ length bs"
proof (induction bs)
  case Nil
  then show ?case by simp
next
  case (Cons b bs)
  have "unat b < 256" by (rule unat_byte_bound)
  with Cons show ?case by simp
qed

lemma le_bytes_le_nat: "le_bytes (length bs) (le_nat bs) = bs"
proof (induction bs)
  case Nil
  then show ?case by simp
next
  case (Cons b bs)
  have b: "unat b < 256" by (rule unat_byte_bound)
  then have "(unat b + 256 * le_nat bs) mod 256 = unat b" by simp
  moreover have "(unat b + 256 * le_nat bs) div 256 = le_nat bs" using b by simp
  ultimately show ?case using Cons.IH by simp
qed

section \<open>Facts on chunks\<close>

lemma length_chunk [simp]: "length (chunk off n xs) = min n (length xs - off)"
  by (simp add: chunk_def)

lemma length_chunk_eq: "off + n \<le> length xs \<Longrightarrow> length (chunk off n xs) = n"
  by simp

lemma nth_chunk: "i < n \<Longrightarrow> off + i < length xs \<Longrightarrow> chunk off n xs ! i = xs ! (off + i)"
  by (simp add: chunk_def)

lemma length_overlay [simp]:
  "off + length ys \<le> length xs \<Longrightarrow> length (overlay off ys xs) = length xs"
  by (simp add: overlay_def)

lemma nth_overlay:
  assumes "off + length ys \<le> length xs" and "i < length xs"
  shows "overlay off ys xs ! i =
    (if off \<le> i \<and> i < off + length ys then ys ! (i - off) else xs ! i)"
  using assms by (auto simp: overlay_def nth_append min_def)

lemma chunk_overlay_same:
  "off + length ys \<le> length xs \<Longrightarrow> chunk off (length ys) (overlay off ys xs) = ys"
  by (simp add: chunk_def overlay_def min_def)

lemma chunk_overlay_disjoint:
  assumes "off + length ys \<le> length xs" and "k + n \<le> length xs"
    and "k + n \<le> off \<or> off + length ys \<le> k"
  shows "chunk k n (overlay off ys xs) = chunk k n xs"
proof (rule nth_equalityI)
  show "length (chunk k n (overlay off ys xs)) = length (chunk k n xs)"
    using assms by simp
next
  fix i
  assume i: "i < length (chunk k n (overlay off ys xs))"
  then have "i < n" and ki: "k + i < length xs" using assms by auto
  then have "chunk k n (overlay off ys xs) ! i = overlay off ys xs ! (k + i)"
    using assms by (simp add: nth_chunk)
  also have "\<dots> = xs ! (k + i)" using assms ki \<open>i < n\<close> by (auto simp: nth_overlay)
  also have "\<dots> = chunk k n xs ! i" using \<open>i < n\<close> ki by (simp add: nth_chunk)
  finally show "chunk k n (overlay off ys xs) ! i = chunk k n xs ! i" .
qed

lemma take_overlay: "off \<le> length xs \<Longrightarrow> take (off + length ys) (overlay off ys xs) = take off xs @ ys"
  by (simp add: overlay_def)

section \<open>Facts on ends of lists\<close>

lemma last_opt_append [simp]: "last_opt (xs @ ys) d = last_opt ys (last_opt xs d)"
  by (induction xs arbitrary: d) auto

lemma hd_opt_append [simp]: "hd_opt (xs @ ys) d = hd_opt xs (hd_opt ys d)"
  by (cases xs) auto

lemma last_opt_in: "last_opt xs None = Some a \<Longrightarrow> a \<in> set xs"
  by (induction xs rule: rev_induct) auto

lemma hd_opt_in: "hd_opt xs None = Some a \<Longrightarrow> a \<in> set xs"
  by (cases xs) auto

lemma hd_opt_None [simp]: "hd_opt xs None = None \<longleftrightarrow> xs = []"
  by (cases xs) auto

lemma find_SomeD: "find P xs = Some x \<Longrightarrow> x \<in> set xs \<and> P x"
  by (auto simp: find_Some_iff)

lemma hd_opt_Some_neq [simp]: "hd_opt xs (Some a) \<noteq> None"
  by (cases xs) auto

lemma last_opt_Some_neq [simp]: "last_opt xs (Some a) \<noteq> None"
  by (induction xs arbitrary: a) auto

lemma last_opt_None [simp]: "last_opt xs None = None \<longleftrightarrow> xs = []"
  by (induction xs rule: rev_induct) auto

section \<open>Strings in memory\<close>

text \<open>\<open>isspace\<close> of the C locale.\<close>

definition isspace :: "byte \<Rightarrow> bool" where
  "isspace c \<longleftrightarrow> c = 32 \<or> 9 \<le> c \<and> c \<le> 13"

text \<open>
  A write into an array, and the string that starts at the head of a region of memory in which an
  element that was never written is \<^term>\<open>None\<close>.
\<close>

definition set_at :: "nat \<Rightarrow> 'a \<Rightarrow> 'a list \<Rightarrow> 'a list option" where
  "set_at i v xs = (if i < length xs then Some (xs[i := v]) else None)"

fun c_string :: "byte option list \<Rightarrow> byte list option" where
  "c_string [] = None"
| "c_string (None # xs) = None"
| "c_string (Some b # xs) = (if b = 0 then Some [] else map_option (Cons b) (c_string xs))"

lemma c_string_update:
  "c_string xs = Some w \<Longrightarrow> length w < j \<Longrightarrow> c_string (xs[j := v]) = Some w"
proof (induction xs arbitrary: w j rule: c_string.induct)
  case (3 b xs)
  then obtain k where "j = Suc k" by (cases j) auto
  then show ?case using 3 by (auto split: if_split_asm)
qed auto

lemma c_string_terminated:
  "take (length w) xs = map Some w \<Longrightarrow> length w < length xs \<Longrightarrow> 0 \<notin> set w \<Longrightarrow>
    c_string (xs[length w := Some 0]) = Some w"
proof (induction w arbitrary: xs)
  case Nil
  then show ?case by (cases xs) auto
next
  case (Cons b w)
  then obtain ys where "xs = Some b # ys" by (cases xs) auto
  then show ?case using Cons by auto
qed

text \<open>The string \<open>w\<close> is at \<open>off\<close> and ends, with its terminator, at or before \<open>lim\<close>.\<close>

definition stored :: "byte option list \<Rightarrow> nat \<Rightarrow> nat \<Rightarrow> byte list \<Rightarrow> bool" where
  "stored str lim off w \<longleftrightarrow> c_string (drop off str) = Some w \<and> off + length w \<le> lim"

lemma stored_update:
  "stored str lim off w \<Longrightarrow> lim < j \<Longrightarrow> stored (str[j := v]) j off w"
  using c_string_update [of "drop off str" w "j - off" v]
  by (auto simp: stored_def drop_update_swap)

lemma stored_mono: "stored str lim off w \<Longrightarrow> lim \<le> lim' \<Longrightarrow> stored str lim' off w"
  by (auto simp: stored_def)

lemma stored_new:
  assumes "take (length w) (drop off str) = map Some w" "off + length w < length str" "0 \<notin> set w"
  shows "stored (str[off + length w := Some 0]) (off + length w) off w"
  using c_string_terminated [OF assms(1) _ assms(3)] assms(2)
  by (simp add: stored_def drop_update_swap)

lemma take_set_at:
  assumes "set_at i v xs = Some ys" shows "take (Suc i) ys = take i xs @ [v]" "length ys = length xs"
  using assms by (auto simp: set_at_def take_Suc_conv_app_nth split: if_split_asm)

end
