(* ===== verification/Fat_Format.thy ===== *)
theory Fat_Format
  imports Prelude
begin

unbundle bit_operations_syntax

text \<open>
  The on-disk format of PennFAT: the first FAT entry and the block size table
  (\<^verbatim>\<open>src/src/pennfat/fat_utils.c\<close>), the creation of an empty image
  (\<^verbatim>\<open>src/src/pennfat/mkfs.c\<close>), and the 64-byte directory entry of
  \<^verbatim>\<open>src/src/pennfat/fat.h\<close> with its little-endian memory layout.

  The host calls of \<open>mkfs\<close> (\<open>open\<close>, \<open>calloc\<close>, \<open>write\<close>, \<open>lseek\<close>, \<open>close\<close>) are the fields of
  \<open>mkfs_host\<close>; \<open>mkfs\<close> returns its code and the bytes of the host file, if one was created.
\<close>

section \<open>Block sizes and the first FAT entry\<close>

definition block_size_of_config :: "nat \<Rightarrow> nat" where
  "block_size_of_config block_size_config =
     (if block_size_config = 0 then 256
      else if block_size_config = 1 then 512
      else if block_size_config = 2 then 1024
      else if block_size_config = 3 then 2048
      else if block_size_config = 4 then 4096
      else 0)"

text \<open>
  Result code, block size and number of FAT blocks. The C code compares the pointer
  \<open>block_size_ptr\<close> with 0, not the value it points to; the pointer is the address of a local
  variable of the caller, so that test never succeeds and the code is always 0.
\<close>

definition parse_first_fat_entry :: "nat \<Rightarrow> int \<times> nat \<times> nat" where
  "parse_first_fat_entry first_entry =
     (0, block_size_of_config (u8 first_entry), u8 (drop_bit 8 first_entry))"

section \<open>mkfs\<close>

abbreviation BAD_BLOCKS_IN_FAT_VAL :: int where "BAD_BLOCKS_IN_FAT_VAL \<equiv> 1"
abbreviation BAD_BLOCK_SIZE_CONFIG_VAL :: int where "BAD_BLOCK_SIZE_CONFIG_VAL \<equiv> 2"
abbreviation MKFS_UNKNOWN_ERROR :: int where "MKFS_UNKNOWN_ERROR \<equiv> 4"
abbreviation EMKFS_OPEN_FAILED :: int where "EMKFS_OPEN_FAILED \<equiv> 5"
abbreviation EMKFS_WRITE_FAILED :: int where "EMKFS_WRITE_FAILED \<equiv> 6"
abbreviation EMKFS_WRITE_LESS :: int where "EMKFS_WRITE_LESS \<equiv> 7"
abbreviation EMKFS_LSEEK_FAILED :: int where "EMKFS_LSEEK_FAILED \<equiv> 8"
abbreviation EMKFS_CALLOC_FAILED :: int where "EMKFS_CALLOC_FAILED \<equiv> 9"
abbreviation EMKFS_CLOSE_FAILED :: int where "EMKFS_CLOSE_FAILED \<equiv> 10"

text \<open>
  \<open>mh_write i\<close> is what the host accepts of the \<open>i\<close>-th \<open>write\<close> call: \<^term>\<open>None\<close> for an error,
  otherwise the largest number of bytes it takes.
\<close>

record mkfs_host =
  mh_open :: bool
  mh_calloc :: bool
  mh_write :: "nat \<Rightarrow> nat option"
  mh_lseek :: bool
  mh_close :: bool

fun write_empty_blocks :: "mkfs_host \<Rightarrow> nat \<Rightarrow> nat \<Rightarrow> nat \<Rightarrow> byte list \<Rightarrow> int \<times> byte list" where
  "write_empty_blocks mh block_size i 0 file = (0, file)"
| "write_empty_blocks mh block_size i (Suc n) file =
     (case mh_write mh i of
        None \<Rightarrow> (EMKFS_WRITE_FAILED, file)
      | Some k \<Rightarrow>
          (if k < block_size then (EMKFS_WRITE_LESS, file @ replicate k 0)
           else write_empty_blocks mh block_size (Suc i) n (file @ replicate block_size 0)))"

definition mkfs_blocks_in_data_region :: "nat \<Rightarrow> nat \<Rightarrow> nat" where
  "mkfs_blocks_in_data_region fat_size block_size_config =
     (if block_size_config = 4 then fat_size div 2 - 2 else fat_size div 2 - 1)"

definition mkfs :: "mkfs_host \<Rightarrow> nat \<Rightarrow> nat \<Rightarrow> int \<times> byte list option" where
  "mkfs mh blocks_in_fat block_size_config =
     (if blocks_in_fat < 1 \<or> blocks_in_fat > 32 then (BAD_BLOCKS_IN_FAT_VAL, None)
      else
        let block_size = block_size_of_config block_size_config in
        if block_size = 0 then (BAD_BLOCK_SIZE_CONFIG_VAL, None)
        else
          let fat_size = u32 (block_size * blocks_in_fat);
              blocks_in_data_region = mkfs_blocks_in_data_region fat_size block_size_config in
          if blocks_in_data_region \<ge> 65536 then (MKFS_UNKNOWN_ERROR, None)
          else if \<not> mh_open mh then (EMKFS_OPEN_FAILED, None)
          else if \<not> mh_calloc mh then (EMKFS_CALLOC_FAILED, Some [])
          else
            let n = blocks_in_data_region + blocks_in_fat;
                (code, file) = write_empty_blocks mh block_size 0 n [] in
            if code \<noteq> 0 then (code, Some file)
            else if \<not> mh_lseek mh then (EMKFS_LSEEK_FAILED, Some file)
            else
              let entries = le_bytes 2 (u16 (push_bit 8 blocks_in_fat OR block_size_config))
                              @ le_bytes 2 0xFFFF in
              case mh_write mh n of
                None \<Rightarrow> (EMKFS_WRITE_FAILED, Some file)
              | Some k \<Rightarrow>
                  (if k < 4 then (EMKFS_WRITE_LESS, Some (overlay 0 (take k entries) file))
                   else (if mh_close mh then 0 else EMKFS_CLOSE_FAILED,
                         Some (overlay 0 entries file))))"

definition mkfs_host_ok :: "mkfs_host \<Rightarrow> bool" where
  "mkfs_host_ok mh \<longleftrightarrow> mh_open mh \<and> mh_calloc mh \<and> mh_lseek mh \<and> mh_close mh \<and>
     (\<forall>i. case mh_write mh i of None \<Rightarrow> False | Some k \<Rightarrow> 4096 \<le> k)"

section \<open>Directory entries\<close>

record directory_entry =
  de_name :: "byte list"
  de_size :: nat
  de_first_block :: nat
  de_type :: nat
  de_perm :: nat
  de_mtime :: nat
  de_padding :: "byte list"

definition encode_entry :: "directory_entry \<Rightarrow> byte list" where
  "encode_entry e = de_name e @ le_bytes 4 (de_size e) @ le_bytes 2 (de_first_block e) @
     le_bytes 1 (de_type e) @ le_bytes 1 (de_perm e) @ le_bytes 8 (de_mtime e) @ de_padding e"

definition decode_entry :: "byte list \<Rightarrow> directory_entry" where
  "decode_entry bs =
     \<lparr>de_name = chunk 0 32 bs, de_size = le_nat (chunk 32 4 bs),
      de_first_block = le_nat (chunk 36 2 bs), de_type = le_nat (chunk 38 1 bs),
      de_perm = le_nat (chunk 39 1 bs), de_mtime = le_nat (chunk 40 8 bs),
      de_padding = chunk 48 16 bs\<rparr>"

text \<open>The values a C \<open>directory_entry\<close> can hold.\<close>

definition entry_ok :: "directory_entry \<Rightarrow> bool" where
  "entry_ok e \<longleftrightarrow> length (de_name e) = 32 \<and> de_size e < 2 ^ 32 \<and> de_first_block e < 65536 \<and>
     de_type e < 256 \<and> de_perm e < 256 \<and> de_mtime e < 2 ^ 64 \<and> length (de_padding e) = 16"

section \<open>Facts on the first FAT entry\<close>

lemma block_size_of_config_cases:
  "c \<le> 4 \<Longrightarrow> block_size_of_config c \<in> {256, 512, 1024, 2048, 4096}"
  by (simp add: block_size_of_config_def)

lemma block_size_of_config_power: "c \<le> 4 \<Longrightarrow> block_size_of_config c = 2 ^ (8 + c)"
proof -
  assume "c \<le> 4"
  then have "c \<in> {0, 1, 2, 3, 4}" by auto
  then show ?thesis by (auto simp: block_size_of_config_def)
qed

lemma first_entry_value:
  fixes b c :: nat
  assumes "b \<le> 32" and "c < 256"
  shows "push_bit 8 b OR c = 256 * b + c"
proof -
  have "push_bit 8 b OR c = push_bit 8 b OR take_bit 8 c"
    using assms by (simp add: take_bit_nat_eq_self)
  also have "\<dots> = push_bit 8 b + take_bit 8 c"
    by (rule disjunctive_add_eq_or [symmetric]) (auto simp: bit_eq_iff bit_simps)
  finally show ?thesis
    using assms by (simp add: push_bit_eq_mult take_bit_nat_eq_self)
qed

lemma parse_first_entry_value:
  assumes "b \<le> 32" and "c \<le> 4"
  shows "parse_first_fat_entry (256 * b + c) = (0, block_size_of_config c, b)"
proof -
  have "(256 * b + c) mod 256 = c" "(256 * b + c) div 256 = b" using assms by simp_all
  then show ?thesis using assms by (simp add: parse_first_fat_entry_def u8_def drop_bit_eq_div)
qed

section \<open>Facts on mkfs\<close>

lemma write_empty_blocks_ok:
  assumes "\<And>i. case mh_write mh i of None \<Rightarrow> False | Some k \<Rightarrow> 4096 \<le> k" and "bs \<le> 4096"
  shows "write_empty_blocks mh bs i n img = (0, img @ replicate (n * bs) 0)"
proof (induction n arbitrary: i img)
  case 0
  then show ?case by simp
next
  case (Suc n)
  obtain k where "mh_write mh i = Some k" "4096 \<le> k"
    using assms(1) [of i] by (auto split: option.splits)
  then show ?case using Suc assms(2) by (simp add: replicate_add [symmetric] add.commute)
qed

lemma mkfs_region_bound:
  assumes "1 \<le> b" "b \<le> 32" "c \<le> 4"
  shows "block_size_of_config c * b < 4294967296"
    and "mkfs_blocks_in_data_region (block_size_of_config c * b) c < 65536"
    and "4 \<le> block_size_of_config c * b"
proof -
  have "c \<in> {0, 1, 2, 3, 4}" using assms by auto
  then show "block_size_of_config c * b < 4294967296"
    and "mkfs_blocks_in_data_region (block_size_of_config c * b) c < 65536"
    and "4 \<le> block_size_of_config c * b"
    using assms by (auto simp: block_size_of_config_def mkfs_blocks_in_data_region_def)
qed

definition empty_image :: "nat \<Rightarrow> nat \<Rightarrow> byte list" where
  "empty_image b c =
     (let bs = block_size_of_config c;
          n = mkfs_blocks_in_data_region (bs * b) c + b
      in le_bytes 2 (256 * b + c) @ le_bytes 2 0xFFFF @ replicate (n * bs - 4) 0)"

lemma mkfs_creates:
  assumes ok: "mkfs_host_ok mh" and b: "1 \<le> b" "b \<le> 32" and c: "c \<le> 4"
  shows "mkfs mh b c = (0, Some (empty_image b c))"
proof -
  let ?bs = "block_size_of_config c"
  let ?n = "mkfs_blocks_in_data_region (?bs * b) c + b"
  let ?entries = "le_bytes 2 (256 * b + c) @ le_bytes 2 0xFFFF"
  have bs: "?bs \<le> 4096" "?bs \<noteq> 0"
    using block_size_of_config_cases [OF c] by auto
  have writes: "\<And>i. case mh_write mh i of None \<Rightarrow> False | Some k \<Rightarrow> 4096 \<le> k"
    and host: "mh_open mh" "mh_calloc mh" "mh_lseek mh" "mh_close mh"
    using ok by (auto simp: mkfs_host_ok_def)
  obtain k where k: "mh_write mh ?n = Some k" "4096 \<le> k"
    using writes [of ?n] by (auto split: option.splits)
  have e: "u16 (push_bit 8 b OR c) = 256 * b + c"
    using b c by (simp add: first_entry_value)
  have "4 \<le> ?n * ?bs"
    using mkfs_region_bound(3) [OF b c] by (simp add: add_mult_distrib2 mult.commute)
  then have img: "overlay 0 ?entries (replicate (?n * ?bs) 0) = empty_image b c"
    by (simp add: overlay_def empty_image_def Let_def)
  show ?thesis
    using b bs host k mkfs_region_bound(1,2) [OF b c] img
    by (simp add: mkfs_def Let_def e write_empty_blocks_ok [OF writes bs(1)])
qed

section \<open>Facts on directory entries\<close>

lemma length_encode_entry: "entry_ok e \<Longrightarrow> length (encode_entry e) = 64"
  by (simp add: encode_entry_def entry_ok_def)

lemma decode_encode_entry:
  assumes "entry_ok e"
  shows "decode_entry (encode_entry e) = e"
proof -
  have "length (de_name e) = 32" using assms by (simp add: entry_ok_def)
  then show ?thesis
    using assms le_nat_le_bytes [of "de_size e" 4] le_nat_le_bytes [of "de_first_block e" 2]
      le_nat_le_bytes [of "de_type e" 1] le_nat_le_bytes [of "de_perm e" 1]
      le_nat_le_bytes [of "de_mtime e" 8]
    by (simp add: decode_entry_def encode_entry_def chunk_def entry_ok_def)
qed

lemma entry_ok_decode:
  assumes "length bs = 64"
  shows "entry_ok (decode_entry bs)"
proof -
  have "le_nat (chunk off n bs) < 256 ^ n" if "off + n \<le> 64" for off n
    using le_nat_bound [of "chunk off n bs"] assms that by (simp only: length_chunk_eq)
  from this [of 32 4] this [of 36 2] this [of 38 1] this [of 39 1] this [of 40 8]
  show ?thesis using assms by (simp add: entry_ok_def decode_entry_def)
qed

lemma chunk_append_chunk: "chunk off m xs @ chunk (off + m) n xs = chunk off (m + n) xs"
  by (simp add: chunk_def take_add add.commute)

lemma encode_decode_entry:
  assumes "length bs = 64"
  shows "encode_entry (decode_entry bs) = bs"
proof -
  have le: "le_bytes n (le_nat (chunk off n bs)) = chunk off n bs" if "off + n \<le> 64" for off n
    using le_bytes_le_nat [of "chunk off n bs"] assms that by (simp only: length_chunk_eq)
  have "encode_entry (decode_entry bs) =
      chunk 0 32 bs @ chunk 32 4 bs @ chunk 36 2 bs @ chunk 38 1 bs @ chunk 39 1 bs @
      chunk 40 8 bs @ chunk 48 16 bs"
    by (simp add: encode_entry_def decode_entry_def le del: le_bytes.simps One_nat_def)
  also have "\<dots> = chunk 0 64 bs"
    using chunk_append_chunk [of 0 32 bs 32] chunk_append_chunk [of 32 4 bs 28]
      chunk_append_chunk [of 36 2 bs 26] chunk_append_chunk [of 38 1 bs 25]
      chunk_append_chunk [of 39 1 bs 24] chunk_append_chunk [of 40 8 bs 16] by simp
  also have "\<dots> = bs" using assms by (simp add: chunk_def)
  finally show ?thesis .
qed

section \<open>Properties\<close>

text \<open>
  On a host whose calls succeed, \<open>mkfs\<close> with a valid number of FAT blocks and a valid
  block size configuration returns 0 and leaves an image that holds the first FAT entry, the
  end-of-chain mark of the root directory in entry 1, and zeros; reading the first entry back
  with \<open>parse_first_fat_entry\<close> gives the parameters \<open>mkfs\<close> was called with.
\<close>

theorem mkfs_parse_roundtrip:
  assumes "mkfs_host_ok mh" and "1 \<le> b" and "b \<le> 32" and "c \<le> 4"
  shows "\<exists>file. mkfs mh b c = (0, Some file) \<and>
    length file = (mkfs_blocks_in_data_region (block_size_of_config c * b) c + b)
                    * block_size_of_config c \<and>
    parse_first_fat_entry (le_nat (chunk 0 2 file)) = (0, block_size_of_config c, b) \<and>
    le_nat (chunk 2 2 file) = 0xFFFF \<and>
    (\<forall>x\<in>set (drop 4 file). x = 0)"
proof (intro exI conjI)
  let ?bs = "block_size_of_config c"
  let ?n = "mkfs_blocks_in_data_region (?bs * b) c + b"
  show "mkfs mh b c = (0, Some (empty_image b c))" using assms by (rule mkfs_creates)
  have "4 \<le> ?n * ?bs"
    using mkfs_region_bound(3) [OF assms(2,3,4)] by (simp add: add_mult_distrib2 mult.commute)
  then show "length (empty_image b c) = ?n * ?bs" by (simp add: empty_image_def Let_def)
  have "le_nat (chunk 0 2 (empty_image b c)) = 256 * b + c"
    using assms le_nat_le_bytes [of "256 * b + c" 2]
    by (simp add: empty_image_def Let_def chunk_def)
  then show "parse_first_fat_entry (le_nat (chunk 0 2 (empty_image b c))) = (0, ?bs, b)"
    using assms by (simp add: parse_first_entry_value)
  show "le_nat (chunk 2 2 (empty_image b c)) = 0xFFFF"
    using le_nat_le_bytes [of "0xFFFF" 2] by (simp add: empty_image_def Let_def chunk_def)
  show "\<forall>x\<in>set (drop 4 (empty_image b c)). x = 0"
    by (simp add: empty_image_def Let_def)
qed

text \<open>A host that accepts every call.\<close>

definition mkfs_host_example :: mkfs_host where
  "mkfs_host_example = \<lparr>mh_open = True, mh_calloc = True, mh_write = (\<lambda>_. Some 4096),
     mh_lseek = True, mh_close = True\<rparr>"

theorem mkfs_parse_roundtrip_witness:
  "\<exists>file. mkfs mkfs_host_example 1 0 = (0, Some file) \<and> length file = 32768 \<and>
     parse_first_fat_entry (le_nat (chunk 0 2 file)) = (0, 256, 1)"
proof -
  have "mkfs_host_ok mkfs_host_example" by (simp add: mkfs_host_ok_def mkfs_host_example_def)
  from mkfs_parse_roundtrip [OF this, of 1 0] show ?thesis
    by (auto simp: mkfs_blocks_in_data_region_def block_size_of_config_def)
qed

text \<open>
  The 64-byte encoding of directory entries is a bijection between the entries that the
  C struct can hold and the byte strings of length 64.
\<close>

theorem entry_encoding_bijective:
  "bij_betw encode_entry {e. entry_ok e} {bs. length bs = 64}"
  by (rule bij_betw_byWitness [where f' = decode_entry])
     (auto simp: decode_encode_entry encode_decode_entry length_encode_entry entry_ok_decode)

end
