(* ===== verification/Fat_Blocks.thy ===== *)
theory Fat_Blocks
  imports Fat_Format
begin

text \<open>
  The mounted file system and its block layer (\<^verbatim>\<open>src/src/pennfat/fat.c\<close>, lines 1 to 337):
  the globals \<open>fs\<close> and \<open>global_fd_table\<close>, \<open>mount\<close>, the FAT walk of \<open>clear_fat_file\<close>, the
  allocator \<open>first_empty_block\<close>, and \<open>get_block\<close>, \<open>next_block_num\<close>, \<open>write_block\<close>.

  \<^item> The memory-mapped FAT is the function \<open>fat\<close>, defined on the indices below
    \<open>fat_size div 2\<close>; \<open>fat_get\<close> and \<open>fat_set\<close> return \<^term>\<open>None\<close> outside the mapping.
  \<^item> The data region of the host file is the function \<open>blocks\<close> from block numbers to the bytes
    the host file holds at \<open>get_byte_offset_of_block\<close>: a block past the end of the file is
    \<open>[]\<close>, a partial last block is short. That blocks do not overlap each other or the FAT is
    the theorem on \<open>get_byte_offset_of_block\<close> below.
  \<^item> \<open>block_buf\<close> is the one-block scratch buffer that all operations share.
  \<^item> A host call on a block can fail: \<open>host\<close> says for which block \<open>lseek\<close>, \<open>read\<close> and
    \<open>write\<close> succeed, whether \<open>malloc\<close> does, and what \<open>time\<close> returns.
\<close>

section \<open>State\<close>

record global_fd_entry =
  ref_count :: nat
  ptr_to_dir_entry :: "directory_entry option"
  dir_entry_block_num :: nat
  dir_entry_idx :: nat
  write_locked :: nat
  fd_offset :: nat

record fatfs =
  fat :: "nat \<Rightarrow> nat"
  fat_size :: nat
  block_size :: nat
  blocks_in_fat :: nat
  fs_fd :: int
  block_buf :: "byte list"
  blocks :: "nat \<Rightarrow> byte list"
  global_fd_table :: "nat \<Rightarrow> global_fd_entry"
  console :: "(int \<times> byte list) list"

record host =
  h_malloc :: bool
  h_time :: "nat option"
  h_lseek :: "nat \<Rightarrow> bool"
  h_read :: "nat \<Rightarrow> bool"
  h_write :: "nat \<Rightarrow> nat option"
  h_terminal_in :: "int \<Rightarrow> byte list option"
  h_terminal_out :: "int \<Rightarrow> nat option"

abbreviation GLOBAL_FD_TABLE_SIZE :: nat where "GLOBAL_FD_TABLE_SIZE \<equiv> 4096"
abbreviation FAT_END_OF_FILE :: nat where "FAT_END_OF_FILE \<equiv> 0xFFFF"

definition empty_fd_entry :: global_fd_entry where
  "empty_fd_entry = \<lparr>ref_count = 0, ptr_to_dir_entry = None, dir_entry_block_num = 0,
     dir_entry_idx = 0, write_locked = 0, fd_offset = 0\<rparr>"

text \<open>The statically initialised globals.\<close>

definition initial_fs :: fatfs where
  "initial_fs = \<lparr>fat = (\<lambda>_. 0), fat_size = 0, block_size = 0, blocks_in_fat = 0, fs_fd = -1,
     block_buf = [], blocks = (\<lambda>_. []), global_fd_table = (\<lambda>_. empty_fd_entry), console = []\<rparr>"

definition min_int :: "int \<Rightarrow> int \<Rightarrow> int" where
  "min_int a b = (if a < b then a else b)"

definition is_mounted :: "fatfs \<Rightarrow> bool" where
  "is_mounted fs \<longleftrightarrow> fs_fd fs \<noteq> -1"

section \<open>mount\<close>

abbreviation EFS_NOT_MOUNTED :: int where "EFS_NOT_MOUNTED \<equiv> 99"
abbreviation EMOUNT_BAD_FAT_FIRST_ENTRY :: int where "EMOUNT_BAD_FAT_FIRST_ENTRY \<equiv> 1"
abbreviation EMOUNT_ALREADY_MOUNTED :: int where "EMOUNT_ALREADY_MOUNTED \<equiv> 2"
abbreviation EMOUNT_MALLOC_FAILED :: int where "EMOUNT_MALLOC_FAILED \<equiv> 4"
abbreviation EMOUNT_OPEN_FAILED :: int where "EMOUNT_OPEN_FAILED \<equiv> 5"
abbreviation EMOUNT_MMAP_FAILED :: int where "EMOUNT_MMAP_FAILED \<equiv> 6"
abbreviation EMOUNT_READ_FAILED :: int where "EMOUNT_READ_FAILED \<equiv> 8"

text \<open>
  The host calls of \<open>mount\<close>: the file that \<open>open\<close> finds, the descriptor it returns, whether
  \<open>read\<close>, \<open>mmap\<close> and \<open>malloc\<close> succeed, and the bytes of the fresh buffer.
\<close>

record mount_host =
  mo_file :: "byte list option"
  mo_fd :: int
  mo_read :: bool
  mo_mmap :: bool
  mo_malloc :: bool
  mo_heap :: "nat \<Rightarrow> byte"

definition stdio_entry :: "global_fd_entry \<Rightarrow> global_fd_entry" where
  "stdio_entry e = e\<lparr>ref_count := 1, ptr_to_dir_entry := None, dir_entry_block_num := 0,
     dir_entry_idx := 0, write_locked := 0, fd_offset := 0\<rparr>"

definition mount :: "mount_host \<Rightarrow> fatfs \<Rightarrow> (int \<times> fatfs) option" where
  "mount mh fs =
     (if is_mounted fs then Some (EMOUNT_ALREADY_MOUNTED, fs)
      else case mo_file mh of
        None \<Rightarrow> Some (EMOUNT_OPEN_FAILED, fs)
      | Some img \<Rightarrow>
          if \<not> mo_read mh then Some (EMOUNT_READ_FAILED, fs)
          else if length img < 2 then None
          else
            let (status, bs, nf) = parse_first_fat_entry (le_nat (take 2 img)) in
            if status = -1 then Some (EMOUNT_BAD_FAT_FIRST_ENTRY, fs)
            else
              let fsz = nf * bs in
              if fsz = 0 \<or> \<not> mo_mmap mh then Some (EMOUNT_MMAP_FAILED, fs)
              else if \<not> mo_malloc mh then Some (EMOUNT_MALLOC_FAILED, fs)
              else
                Some (0, fs\<lparr>fat := (\<lambda>i. le_nat (chunk (2 * i) 2 img)),
                            fat_size := fsz, block_size := bs, blocks_in_fat := nf,
                            fs_fd := mo_fd mh, block_buf := map (mo_heap mh) [0..<bs],
                            blocks := (\<lambda>b. chunk (fsz + (b - 1) * bs) bs img),
                            global_fd_table := (\<lambda>i. if i < 3 then stdio_entry (global_fd_table fs i)
                                                    else global_fd_table fs i)\<rparr>))"

section \<open>The FAT\<close>

definition fat_get :: "fatfs \<Rightarrow> nat \<Rightarrow> nat option" where
  "fat_get fs i = (if i < fat_size fs div 2 then Some (fat fs i) else None)"

definition fat_set :: "fatfs \<Rightarrow> nat \<Rightarrow> nat \<Rightarrow> fatfs option" where
  "fat_set fs i v =
     (if i < fat_size fs div 2 then Some (fs\<lparr>fat := (fat fs)(i := v)\<rparr>) else None)"

partial_function (option) clear_fat_file :: "nat \<Rightarrow> fatfs \<Rightarrow> fatfs option" where
  "clear_fat_file block fs =
     (if block = FAT_END_OF_FILE then Some fs
      else do {
        next_block \<leftarrow> fat_get fs block;
        fs \<leftarrow> fat_set fs block 0;
        clear_fat_file next_block fs
      })"

function first_empty_from :: "fatfs \<Rightarrow> nat \<Rightarrow> nat \<Rightarrow> nat option" where
  "first_empty_from fs n_fat_entries i =
     (if i < n_fat_entries then
        (case fat_get fs i of
           None \<Rightarrow> None
         | Some v \<Rightarrow> if v = 0 then Some i else first_empty_from fs n_fat_entries (Suc i))
      else Some 0)"
  by pat_completeness auto
termination
  by (relation "measure (\<lambda>(fs, n, i). n - i)") auto

definition n_fat_entries :: "fatfs \<Rightarrow> nat" where
  "n_fat_entries fs =
     (let n = (if fat_size fs = 65536 then fat_size fs div 2 else 65535)
      in if n \<ge> 65536 then FAT_END_OF_FILE else n)"

definition first_empty_block :: "fatfs \<Rightarrow> nat option" where
  "first_empty_block fs = first_empty_from fs (n_fat_entries fs) 1"

section \<open>Blocks\<close>

definition get_blocks_in_data_region :: "fatfs \<Rightarrow> nat" where
  "get_blocks_in_data_region fs = u32_of_int (int (fat_size fs div 2) - 1)"

definition get_byte_offset_of_block :: "fatfs \<Rightarrow> nat \<Rightarrow> nat" where
  "get_byte_offset_of_block fs block_num = u32 (fat_size fs + (block_num - 1) * block_size fs)"

abbreviation EGET_BLOCK_BLOCK_NUM_0 :: int where "EGET_BLOCK_BLOCK_NUM_0 \<equiv> 1"
abbreviation EGET_BLOCK_BLOCK_NUM_TOO_HIGH :: int where "EGET_BLOCK_BLOCK_NUM_TOO_HIGH \<equiv> 2"
abbreviation EGET_BLOCK_LSEEK_FAILED :: int where "EGET_BLOCK_LSEEK_FAILED \<equiv> 4"
abbreviation EGET_BLOCK_READ_FAILED :: int where "EGET_BLOCK_READ_FAILED \<equiv> 5"
abbreviation EGET_BLOCK_TOO_FEW_BYTES_READ :: int where "EGET_BLOCK_TOO_FEW_BYTES_READ \<equiv> 6"

text \<open>Code and contents of the target buffer after the call.\<close>

definition get_block :: "host \<Rightarrow> fatfs \<Rightarrow> nat \<Rightarrow> byte list \<Rightarrow> int \<times> byte list" where
  "get_block h fs block_num data =
     (if block_num < 1 then (EGET_BLOCK_BLOCK_NUM_0, data)
      else if block_num > get_blocks_in_data_region fs then (EGET_BLOCK_BLOCK_NUM_TOO_HIGH, data)
      else if \<not> is_mounted fs \<or> \<not> h_lseek h block_num then (EGET_BLOCK_LSEEK_FAILED, data)
      else if \<not> h_read h block_num then (EGET_BLOCK_READ_FAILED, data)
      else
        let bytes = blocks fs block_num; data = overlay 0 bytes data in
        if length bytes < block_size fs then (EGET_BLOCK_TOO_FEW_BYTES_READ, data)
        else (0, data))"

text \<open>\<open>get_block (block, fs.block_buf)\<close>, the usual call.\<close>

definition load_block :: "host \<Rightarrow> nat \<Rightarrow> fatfs \<Rightarrow> int \<times> fatfs" where
  "load_block h block_num fs =
     (case get_block h fs block_num (block_buf fs) of
        (code, data) \<Rightarrow> (code, fs\<lparr>block_buf := data\<rparr>))"

abbreviation ENEXT_BLOCK_NUM_BLOCK_NUM_0 :: int where "ENEXT_BLOCK_NUM_BLOCK_NUM_0 \<equiv> 1"
abbreviation ENEXT_BLOCK_NUM_BLOCK_NUM_TOO_HIGH :: int where "ENEXT_BLOCK_NUM_BLOCK_NUM_TOO_HIGH \<equiv> 2"

text \<open>Code and the value of \<open>*next_block_num\<close>, which keeps its old value on an error.\<close>

definition next_block_num :: "fatfs \<Rightarrow> nat \<Rightarrow> nat \<Rightarrow> int \<times> nat" where
  "next_block_num fs block_num old =
     (if block_num < 1 then (ENEXT_BLOCK_NUM_BLOCK_NUM_0, old)
      else if block_num > get_blocks_in_data_region fs
      then (ENEXT_BLOCK_NUM_BLOCK_NUM_TOO_HIGH, old)
      else (0, fat fs block_num))"

abbreviation EWRITE_BLOCK_BLOCK_NUM_0 :: int where "EWRITE_BLOCK_BLOCK_NUM_0 \<equiv> 1"
abbreviation EWRITE_BLOCK_BLOCK_NUM_TOO_HIGH :: int where "EWRITE_BLOCK_BLOCK_NUM_TOO_HIGH \<equiv> 2"
abbreviation EWRITE_BLOCK_LSEEK_FAILED :: int where "EWRITE_BLOCK_LSEEK_FAILED \<equiv> 4"
abbreviation EWRITE_BLOCK_WRITE_FAILED :: int where "EWRITE_BLOCK_WRITE_FAILED \<equiv> 5"
abbreviation EWRITE_BLOCK_TOO_FEW_BYTES_WRITTEN :: int where "EWRITE_BLOCK_TOO_FEW_BYTES_WRITTEN \<equiv> 6"

text \<open>
  A write at block \<open>b\<close> of the host file. Writing past the end of the file extends it, and the
  bytes between the old end and the written ones read as zeros.
\<close>

definition host_write :: "nat \<Rightarrow> byte list \<Rightarrow> fatfs \<Rightarrow> fatfs" where
  "host_write b data fs =
     fs\<lparr>blocks := (\<lambda>i. if i = b then overlay 0 data (blocks fs b)
                       else if 1 \<le> i \<and> i < b \<and> length (blocks fs i) < block_size fs
                       then blocks fs i @ replicate (block_size fs - length (blocks fs i)) 0
                       else blocks fs i)\<rparr>"

definition write_block :: "host \<Rightarrow> nat \<Rightarrow> byte list \<Rightarrow> fatfs \<Rightarrow> int \<times> fatfs" where
  "write_block h block_num data fs =
     (if block_num < 1 then (EWRITE_BLOCK_BLOCK_NUM_0, fs)
      else if block_num > get_blocks_in_data_region fs then (EWRITE_BLOCK_BLOCK_NUM_TOO_HIGH, fs)
      else if \<not> is_mounted fs \<or> \<not> h_lseek h block_num then (EWRITE_BLOCK_LSEEK_FAILED, fs)
      else case h_write h block_num of
        None \<Rightarrow> (EWRITE_BLOCK_WRITE_FAILED, fs)
      | Some k \<Rightarrow>
          if k < block_size fs
          then (EWRITE_BLOCK_TOO_FEW_BYTES_WRITTEN, host_write block_num (take k data) fs)
          else (0, host_write block_num (take (block_size fs) data) fs))"

section \<open>Well-formed file systems\<close>

definition geometry_ok :: "fatfs \<Rightarrow> bool" where
  "geometry_ok fs \<longleftrightarrow> is_mounted fs \<and> block_size fs \<in> {256, 512, 1024, 2048, 4096} \<and>
     1 \<le> blocks_in_fat fs \<and> blocks_in_fat fs \<le> 32 \<and>
     fat_size fs = blocks_in_fat fs * block_size fs \<and> length (block_buf fs) = block_size fs"

text \<open>The largest block number: entry 0 of the FAT describes the file system itself.\<close>

definition max_block :: "fatfs \<Rightarrow> nat" where
  "max_block fs = fat_size fs div 2 - 1"

text \<open>Every block that \<open>get_block\<close> accepts is present in the host file.\<close>

definition blocks_complete :: "fatfs \<Rightarrow> bool" where
  "blocks_complete fs \<longleftrightarrow>
     (\<forall>b. 1 \<le> b \<and> b \<le> max_block fs \<longrightarrow> length (blocks fs b) = block_size fs)"

definition host_ok :: "host \<Rightarrow> bool" where
  "host_ok h \<longleftrightarrow> h_malloc h \<and> (case h_time h of None \<Rightarrow> False | Some t \<Rightarrow> t < 2 ^ 64) \<and>
     (\<forall>b. h_lseek h b \<and> h_read h b \<and> (case h_write h b of None \<Rightarrow> False | Some k \<Rightarrow> 4096 \<le> k))"

text \<open>\<open>is_chain f b bs\<close>: following the FAT from \<open>b\<close> visits \<open>bs\<close> and then the end mark.\<close>

fun is_chain :: "(nat \<Rightarrow> nat) \<Rightarrow> nat \<Rightarrow> nat list \<Rightarrow> bool" where
  "is_chain f b [] \<longleftrightarrow> b = FAT_END_OF_FILE"
| "is_chain f b (x # xs) \<longleftrightarrow> b = x \<and> x \<noteq> FAT_END_OF_FILE \<and> is_chain f (f x) xs"

definition in_region :: "fatfs \<Rightarrow> nat list \<Rightarrow> bool" where
  "in_region fs bs \<longleftrightarrow> (\<forall>b\<in>set bs. 1 \<le> b \<and> b \<le> max_block fs)"

section \<open>Facts on the geometry\<close>

lemma geometry_bounds:
  assumes "geometry_ok fs"
  shows "256 \<le> block_size fs" "block_size fs \<le> 4096" "fat_size fs \<le> 131072" "256 \<le> fat_size fs"
    "1 \<le> max_block fs" "max_block fs \<le> 65535" "max_block fs < fat_size fs div 2"
proof -
  show bs: "256 \<le> block_size fs" "block_size fs \<le> 4096"
    using assms by (auto simp: geometry_ok_def)
  have "fat_size fs \<le> 32 * 4096" using assms bs mult_le_mono [of "blocks_in_fat fs" 32 "block_size fs" 4096]
    by (simp add: geometry_ok_def)
  moreover have "1 * 256 \<le> fat_size fs" using assms bs mult_le_mono [of 1 "blocks_in_fat fs" 256 "block_size fs"]
    by (simp add: geometry_ok_def)
  ultimately show "fat_size fs \<le> 131072" "256 \<le> fat_size fs"
    "1 \<le> max_block fs" "max_block fs \<le> 65535" "max_block fs < fat_size fs div 2"
    by (simp_all add: max_block_def)
qed

lemma data_region_value: "geometry_ok fs \<Longrightarrow> get_blocks_in_data_region fs = max_block fs"
  using geometry_bounds [of fs]
  by (simp add: get_blocks_in_data_region_def max_block_def u32_of_int_nonneg nat_diff_distrib)

lemma host_okD:
  assumes "host_ok h"
  shows "h_malloc h" "\<exists>t. h_time h = Some t \<and> t < 2 ^ 64" "h_lseek h b" "h_read h b"
    "\<exists>k. h_write h b = Some k \<and> 4096 \<le> k"
  using assms by (auto simp: host_ok_def split: option.splits)

text \<open>Updates of the other fields leave the geometry alone.\<close>

lemma geometry_update [simp]:
  "geometry_ok (fs\<lparr>fat := f\<rparr>) = geometry_ok fs"
  "geometry_ok (fs\<lparr>blocks := bl\<rparr>) = geometry_ok fs"
  "geometry_ok (fs\<lparr>global_fd_table := t\<rparr>) = geometry_ok fs"
  "geometry_ok (fs\<lparr>console := c\<rparr>) = geometry_ok fs"
  "max_block (fs\<lparr>fat := f\<rparr>) = max_block fs"
  "max_block (fs\<lparr>blocks := bl\<rparr>) = max_block fs"
  "max_block (fs\<lparr>global_fd_table := t\<rparr>) = max_block fs"
  "max_block (fs\<lparr>console := c\<rparr>) = max_block fs"
  "max_block (fs\<lparr>block_buf := buf\<rparr>) = max_block fs"
  "is_mounted (fs\<lparr>fat := f\<rparr>) = is_mounted fs"
  "is_mounted (fs\<lparr>blocks := bl\<rparr>) = is_mounted fs"
  "is_mounted (fs\<lparr>global_fd_table := t\<rparr>) = is_mounted fs"
  "is_mounted (fs\<lparr>console := c\<rparr>) = is_mounted fs"
  "is_mounted (fs\<lparr>block_buf := buf\<rparr>) = is_mounted fs"
  by (simp_all add: geometry_ok_def max_block_def is_mounted_def)

lemma geometry_update_buf [simp]:
  "geometry_ok fs \<Longrightarrow> geometry_ok (fs\<lparr>block_buf := buf\<rparr>) \<longleftrightarrow> length buf = block_size fs"
  by (simp add: geometry_ok_def)

lemma blocks_complete_update [simp]:
  "blocks_complete (fs\<lparr>fat := f\<rparr>) = blocks_complete fs"
  "blocks_complete (fs\<lparr>block_buf := buf\<rparr>) = blocks_complete fs"
  "blocks_complete (fs\<lparr>global_fd_table := t\<rparr>) = blocks_complete fs"
  "blocks_complete (fs\<lparr>console := c\<rparr>) = blocks_complete fs"
  "blocks_complete fs \<Longrightarrow> length data = block_size fs \<Longrightarrow>
     blocks_complete (fs\<lparr>blocks := (blocks fs)(b := data)\<rparr>)"
  by (simp_all add: blocks_complete_def)

lemma in_region_Nil [simp]: "in_region fs []"
  by (simp add: in_region_def)

lemma in_region_Cons [simp]:
  "in_region fs (b # bs) \<longleftrightarrow> 1 \<le> b \<and> b \<le> max_block fs \<and> in_region fs bs"
  by (auto simp: in_region_def)

lemma in_region_append [simp]: "in_region fs (bs @ cs) \<longleftrightarrow> in_region fs bs \<and> in_region fs cs"
  by (auto simp: in_region_def)

lemma in_region_update [simp]:
  "in_region (fs\<lparr>fat := f\<rparr>) bs = in_region fs bs"
  "in_region (fs\<lparr>blocks := bl\<rparr>) bs = in_region fs bs"
  "in_region (fs\<lparr>block_buf := buf\<rparr>) bs = in_region fs bs"
  "in_region (fs\<lparr>global_fd_table := t\<rparr>) bs = in_region fs bs"
  by (simp_all add: in_region_def)

section \<open>Facts on blocks\<close>

lemma overlay_0_full: "length data = length ys \<Longrightarrow> overlay 0 ys data = ys"
  by (simp add: overlay_def)

lemma get_block_ok:
  assumes "geometry_ok fs" "host_ok h" "1 \<le> b" "b \<le> max_block fs"
    and "length (blocks fs b) = block_size fs" "length data = block_size fs"
  shows "get_block h fs b data = (0, blocks fs b)"
  using assms host_okD [OF assms(2)]
  by (simp add: get_block_def data_region_value geometry_ok_def overlay_0_full)

lemma load_block_ok:
  assumes "geometry_ok fs" "host_ok h" "blocks_complete fs" "1 \<le> b" "b \<le> max_block fs"
  shows "load_block h b fs = (0, fs\<lparr>block_buf := blocks fs b\<rparr>)"
  using assms get_block_ok [of fs h b "block_buf fs"]
  by (simp add: load_block_def blocks_complete_def geometry_ok_def)

lemma host_write_complete:
  assumes "blocks_complete fs" "1 \<le> b" "b \<le> max_block fs" "length data = block_size fs"
  shows "host_write b data fs = fs\<lparr>blocks := (blocks fs)(b := data)\<rparr>"
proof -
  have "(\<lambda>i. if i = b then overlay 0 data (blocks fs b)
             else if 1 \<le> i \<and> i < b \<and> length (blocks fs i) < block_size fs
             then blocks fs i @ replicate (block_size fs - length (blocks fs i)) 0
             else blocks fs i) = (blocks fs)(b := data)"
    using assms by (auto simp: fun_eq_iff blocks_complete_def overlay_0_full)
  then show ?thesis by (simp add: host_write_def)
qed

lemma write_block_ok:
  assumes "geometry_ok fs" "host_ok h" "blocks_complete fs" "1 \<le> b" "b \<le> max_block fs"
    and "length data = block_size fs"
  shows "write_block h b data fs = (0, fs\<lparr>blocks := (blocks fs)(b := data)\<rparr>)"
proof -
  obtain k where "h_write h b = Some k" "4096 \<le> k" using host_okD(5) [OF assms(2)] by blast
  then show ?thesis
    using assms geometry_bounds(2) [OF assms(1)] host_okD(3) [OF assms(2)]
    by (simp add: write_block_def data_region_value host_write_complete geometry_ok_def)
qed

lemma next_block_ok:
  "geometry_ok fs \<Longrightarrow> 1 \<le> b \<Longrightarrow> b \<le> max_block fs \<Longrightarrow> next_block_num fs b old = (0, fat fs b)"
  by (simp add: next_block_num_def data_region_value)

lemma fat_get_region:
  "geometry_ok fs \<Longrightarrow> b \<le> max_block fs \<Longrightarrow> fat_get fs b = Some (fat fs b)"
  using geometry_bounds [of fs] by (simp add: fat_get_def)

lemma fat_set_region:
  "geometry_ok fs \<Longrightarrow> b \<le> max_block fs \<Longrightarrow> fat_set fs b v = Some (fs\<lparr>fat := (fat fs)(b := v)\<rparr>)"
  using geometry_bounds [of fs] by (simp add: fat_set_def)

section \<open>Facts on chains\<close>

lemma is_chain_upd [simp]: "c \<notin> set bs \<Longrightarrow> is_chain (f(c := v)) b bs = is_chain f b bs"
  by (induction bs arbitrary: b) auto

lemma is_chain_cong: "(\<And>x. x \<in> set bs \<Longrightarrow> f x = g x) \<Longrightarrow> is_chain f b bs = is_chain g b bs"
  by (induction bs arbitrary: b) auto

lemma is_chain_unique: "is_chain f b xs \<Longrightarrow> is_chain f b ys \<Longrightarrow> xs = ys"
proof (induction xs arbitrary: b ys)
  case Nil
  then show ?case by (cases ys) auto
next
  case (Cons x xs)
  then show ?case by (cases ys) auto
qed

lemma is_chain_suffix: "is_chain f b (xs @ y # ys) \<Longrightarrow> is_chain f y (y # ys)"
  by (induction xs arbitrary: b) auto

lemma is_chain_distinct: "is_chain f b xs \<Longrightarrow> distinct xs"
proof (induction xs arbitrary: b)
  case Nil
  then show ?case by simp
next
  case (Cons x xs)
  have "x \<notin> set xs"
  proof
    assume "x \<in> set xs"
    then obtain us vs where xs: "xs = us @ x # vs" by (auto simp: in_set_conv_decomp)
    have "is_chain f b ((x # us) @ x # vs)" using Cons.prems xs by simp
    then have "is_chain f x (x # vs)" by (rule is_chain_suffix)
    moreover have "is_chain f x (x # xs)" using Cons.prems by auto
    ultimately have "x # vs = x # xs" by (rule is_chain_unique)
    then show False using xs by simp
  qed
  with Cons show ?case by auto
qed

lemma clear_fat_file_chain:
  assumes "geometry_ok fs" "is_chain (fat fs) b bs" "in_region fs bs"
  shows "clear_fat_file b fs = Some (fs\<lparr>fat := (\<lambda>i. if i \<in> set bs then 0 else fat fs i)\<rparr>)"
  using assms
proof (induction bs arbitrary: b fs)
  case Nil
  then show ?case by (simp add: clear_fat_file.simps [of FAT_END_OF_FILE])
next
  case (Cons x xs)
  let ?fs = "fs\<lparr>fat := (fat fs)(x := 0)\<rparr>"
  have x: "b = x" "x \<noteq> FAT_END_OF_FILE" "x \<le> max_block fs" "x \<notin> set xs"
    using Cons.prems is_chain_distinct [OF Cons.prems(2)] by (auto simp: in_region_def)
  have "clear_fat_file (fat fs x) ?fs
      = Some (?fs\<lparr>fat := (\<lambda>i. if i \<in> set xs then 0 else fat ?fs i)\<rparr>)"
    using Cons.prems x by (intro Cons.IH) (simp_all del: fun_upd_apply add: in_region_def)
  moreover have "(\<lambda>i. if i \<in> set xs then 0 else fat ?fs i)
      = (\<lambda>i. if i \<in> set (x # xs) then 0 else fat fs i)"
    by (auto simp: fun_eq_iff)
  ultimately show ?case
    using x Cons.prems by (simp add: clear_fat_file.simps [of x] fat_get_region fat_set_region del: fun_upd_apply)
qed

section \<open>Facts on the allocator\<close>

declare first_empty_from.simps [simp del]

lemma first_empty_from_least:
  assumes "i \<le> k" "k < n" "k < fat_size fs div 2" "fat fs k = 0" "\<forall>j. i \<le> j \<and> j < k \<longrightarrow> fat fs j \<noteq> 0"
  shows "first_empty_from fs n i = Some k"
  using assms
proof (induction fs n i rule: first_empty_from.induct)
  case (1 fs n i)
  show ?case
  proof (cases "i = k")
    case True
    then show ?thesis using "1.prems" by (subst first_empty_from.simps) (simp add: fat_get_def)
  next
    case False
    then have "Suc i \<le> k" "fat fs i \<noteq> 0" "i < n" using "1.prems" by auto
    moreover have "fat_get fs i = Some (fat fs i)" using "1.prems" by (simp add: fat_get_def)
    ultimately have "first_empty_from fs n (Suc i) = Some k"
      using "1.prems" by (intro "1.IH") auto
    then show ?thesis
      using \<open>fat fs i \<noteq> 0\<close> \<open>i < n\<close> \<open>fat_get fs i = _\<close> by (subst first_empty_from.simps) simp
  qed
qed

lemma first_empty_from_full:
  assumes "i \<le> m" "m < n" "m = fat_size fs div 2" "\<forall>j. i \<le> j \<and> j < m \<longrightarrow> fat fs j \<noteq> 0"
  shows "first_empty_from fs n i = None"
  using assms
proof (induction fs n i rule: first_empty_from.induct)
  case (1 fs n i)
  show ?case
  proof (cases "i = m")
    case True
    then show ?thesis using "1.prems" by (subst first_empty_from.simps) (simp add: fat_get_def)
  next
    case False
    then have "Suc i \<le> m" "fat fs i \<noteq> 0" "i < n" using "1.prems" by auto
    moreover have "fat_get fs i = Some (fat fs i)"
      using "1.prems" False by (simp add: fat_get_def)
    ultimately have "first_empty_from fs n (Suc i) = None"
      using "1.prems" by (intro "1.IH") auto
    then show ?thesis
      using \<open>fat fs i \<noteq> 0\<close> \<open>i < n\<close> \<open>fat_get fs i = _\<close> by (subst first_empty_from.simps) simp
  qed
qed

lemma first_empty_from_none:
  assumes "n \<le> fat_size fs div 2" "\<forall>j. i \<le> j \<and> j < n \<longrightarrow> fat fs j \<noteq> 0"
  shows "first_empty_from fs n i = Some 0"
  using assms
proof (induction fs n i rule: first_empty_from.induct)
  case (1 fs n i)
  then show ?case by (subst first_empty_from.simps) (auto simp: fat_get_def)
qed

text \<open>The number of FAT entries is a multiple of 128, so it is never 65535.\<close>

lemma fat_size_half:
  assumes "geometry_ok fs" "fat_size fs \<noteq> 131072"
  shows "fat_size fs div 2 < 65535"
proof -
  have "256 dvd fat_size fs" using assms by (auto simp: geometry_ok_def)
  then obtain k where k: "fat_size fs = 256 * k" by (rule dvdE)
  then have "k \<le> 511" using geometry_bounds(3) [OF assms(1)] assms(2) by simp
  then show ?thesis using k by simp
qed

lemma first_empty_from_Some:
  assumes "first_empty_from fs n i = Some k" "k \<noteq> 0"
  shows "i \<le> k \<and> k < n \<and> k < fat_size fs div 2 \<and> fat fs k = 0 \<and> (\<forall>j. i \<le> j \<and> j < k \<longrightarrow> fat fs j \<noteq> 0)"
  using assms
proof (induction fs n i rule: first_empty_from.induct)
  case (1 fs n i)
  note unfolded = "1.prems"(1) [unfolded first_empty_from.simps [of fs n i]]
  have i: "i < n" "fat_get fs i \<noteq> None"
    using unfolded "1.prems"(2) by (auto split: if_splits option.splits)
  then have get: "fat_get fs i = Some (fat fs i)" "i < fat_size fs div 2"
    by (auto simp: fat_get_def split: if_splits)
  show ?case
  proof (cases "fat fs i = 0")
    case True
    then show ?thesis
      using unfolded i get by auto
  next
    case False
    then have "first_empty_from fs n (Suc i) = Some k"
      using unfolded i get by auto
    then have "Suc i \<le> k \<and> k < n \<and> k < fat_size fs div 2 \<and> fat fs k = 0 \<and>
        (\<forall>j. Suc i \<le> j \<and> j < k \<longrightarrow> fat fs j \<noteq> 0)"
      using "1.IH" [OF i(1) get(1) False] "1.prems" by blast
    then show ?thesis using False by (metis Suc_leD Suc_leI le_neq_implies_less)
  qed
qed

section \<open>The block device as an interface\<close>

text \<open>
  What the directory and file layers rely on: a store of equal-sized blocks in which a
  successful write changes the block that is read back and no other one. \<open>patch\<close> is the
  read, modify, write sequence of every caller.
\<close>

locale block_store =
  fixes usable :: "'s \<Rightarrow> bool"
    and size_of :: "'s \<Rightarrow> nat"
    and valid :: "'s \<Rightarrow> nat \<Rightarrow> bool"
    and fetch :: "'s \<Rightarrow> nat \<Rightarrow> byte list option"
    and store :: "nat \<Rightarrow> byte list \<Rightarrow> 's \<Rightarrow> 's option"
  assumes fetch_law: "usable s \<Longrightarrow> valid s b \<Longrightarrow> \<exists>d. fetch s b = Some d \<and> length d = size_of s"
    and store_law: "usable s \<Longrightarrow> valid s b \<Longrightarrow> length d = size_of s \<Longrightarrow>
      \<exists>t. store b d s = Some t \<and> usable t \<and> size_of t = size_of s \<and> valid t = valid s \<and>
          fetch t b = Some d \<and> (\<forall>c. valid s c \<and> c \<noteq> b \<longrightarrow> fetch t c = fetch s c)"
begin

definition patch :: "nat \<Rightarrow> nat \<Rightarrow> byte list \<Rightarrow> 's \<Rightarrow> 's option" where
  "patch b off ys s = do { d \<leftarrow> fetch s b; store b (overlay off ys d) s }"

lemma patch_law:
  assumes "usable s" "valid s b" "off + length ys \<le> size_of s"
  obtains t d where "patch b off ys s = Some t" "usable t" "size_of t = size_of s"
    "valid t = valid s" "fetch s b = Some d" "fetch t b = Some (overlay off ys d)"
    "\<And>c. valid s c \<Longrightarrow> c \<noteq> b \<Longrightarrow> fetch t c = fetch s c"
proof -
  obtain d where d: "fetch s b = Some d" "length d = size_of s"
    using fetch_law [OF assms(1,2)] by blast
  then have len: "length (overlay off ys d) = size_of s" using assms(3) by simp
  obtain t where t: "store b (overlay off ys d) s = Some t" "usable t" "size_of t = size_of s"
    "valid t = valid s" "fetch t b = Some (overlay off ys d)"
    "\<forall>c. valid s c \<and> c \<noteq> b \<longrightarrow> fetch t c = fetch s c"
    using store_law [OF assms(1,2) len] by auto
  show thesis
    by (rule that [of t d]) (use t d in \<open>auto simp: patch_def\<close>)
qed

text \<open>After a patch, the patched range reads as written and every other range is untouched.\<close>

lemma patch_reads:
  assumes "usable s" "valid s b" "off + length ys \<le> size_of s"
  shows "\<exists>t. patch b off ys s = Some t \<and> usable t \<and>
    map_option (chunk off (length ys)) (fetch t b) = Some ys \<and>
    (\<forall>k n. k + n \<le> size_of s \<and> (k + n \<le> off \<or> off + length ys \<le> k) \<longrightarrow>
       map_option (chunk k n) (fetch t b) = map_option (chunk k n) (fetch s b)) \<and>
    (\<forall>c. valid s c \<and> c \<noteq> b \<longrightarrow> fetch t c = fetch s c)"
proof -
  obtain t d where t: "patch b off ys s = Some t" "usable t" "fetch s b = Some d"
    "fetch t b = Some (overlay off ys d)" "\<And>c. valid s c \<Longrightarrow> c \<noteq> b \<Longrightarrow> fetch t c = fetch s c"
    by (rule patch_law [OF assms]) blast
  have "length d = size_of s" using fetch_law [OF assms(1,2)] t(3) by simp
  with t assms(3) show ?thesis
    by (intro exI [of _ t]) (auto simp: chunk_overlay_same chunk_overlay_disjoint)
qed

end

text \<open>\<open>get_block\<close> and \<open>write_block\<close> of a mounted image on a working host are such a store.\<close>

definition device_ok :: "host \<times> fatfs \<Rightarrow> bool" where
  "device_ok s \<longleftrightarrow> host_ok (fst s) \<and> geometry_ok (snd s) \<and> blocks_complete (snd s)"

definition device_fetch :: "host \<times> fatfs \<Rightarrow> nat \<Rightarrow> byte list option" where
  "device_fetch s b =
     (case get_block (fst s) (snd s) b (block_buf (snd s)) of
        (code, data) \<Rightarrow> if code = 0 then Some data else None)"

definition device_store :: "nat \<Rightarrow> byte list \<Rightarrow> host \<times> fatfs \<Rightarrow> (host \<times> fatfs) option" where
  "device_store b d s =
     (case write_block (fst s) b d (snd s) of
        (code, fs) \<Rightarrow> if code = 0 then Some (fst s, fs) else None)"

definition device_valid :: "host \<times> fatfs \<Rightarrow> nat \<Rightarrow> bool" where
  "device_valid s b \<longleftrightarrow> 1 \<le> b \<and> b \<le> max_block (snd s)"

lemma device_fetch_ok:
  assumes "device_ok s" "device_valid s b"
  shows "device_fetch s b = Some (blocks (snd s) b)"
proof -
  have "length (blocks (snd s) b) = block_size (snd s)" "length (block_buf (snd s)) = block_size (snd s)"
    using assms by (auto simp: device_ok_def device_valid_def blocks_complete_def geometry_ok_def)
  with assms show ?thesis
    by (simp add: device_fetch_def device_ok_def device_valid_def get_block_ok)
qed

lemma device_store_ok:
  assumes "device_ok s" "device_valid s b" "length d = block_size (snd s)"
  shows "device_store b d s = Some (fst s, (snd s)\<lparr>blocks := (blocks (snd s))(b := d)\<rparr>)"
  using assms by (simp add: device_store_def device_ok_def device_valid_def write_block_ok)

interpretation device: block_store device_ok "\<lambda>s. block_size (snd s)" device_valid
    device_fetch device_store
proof
  fix s b
  assume "device_ok s" "device_valid s b"
  then show "\<exists>d. device_fetch s b = Some d \<and> length d = block_size (snd s)"
    by (auto simp: device_fetch_ok device_ok_def device_valid_def blocks_complete_def)
next
  fix s and b and d :: "byte list"
  assume a: "device_ok s" "device_valid s b" "length d = block_size (snd s)"
  let ?t = "(fst s, (snd s)\<lparr>blocks := (blocks (snd s))(b := d)\<rparr>)"
  have t: "device_ok ?t" using a by (simp add: device_ok_def del: fun_upd_apply)
  have v: "device_valid ?t = device_valid s" by (simp add: device_valid_def fun_eq_iff)
  have "device_fetch ?t c = Some (blocks (snd ?t) c)" if "device_valid s c" for c
    using device_fetch_ok [OF t] that v by simp
  with a t v show "\<exists>t. device_store b d s = Some t \<and> device_ok t \<and>
      block_size (snd t) = block_size (snd s) \<and> device_valid t = device_valid s \<and>
      device_fetch t b = Some d \<and>
      (\<forall>c. device_valid s c \<and> c \<noteq> b \<longrightarrow> device_fetch t c = device_fetch s c)"
    by (intro exI [of _ ?t]) (simp add: device_store_ok device_fetch_ok)
qed

section \<open>Facts on a fresh image\<close>

lemma length_empty_image:
  assumes "1 \<le> b" "b \<le> 32" "c \<le> 4"
  shows "length (empty_image b c) =
    (mkfs_blocks_in_data_region (block_size_of_config c * b) c + b) * block_size_of_config c"
proof -
  have "4 \<le> (mkfs_blocks_in_data_region (block_size_of_config c * b) c + b) * block_size_of_config c"
    using mkfs_region_bound(3) [OF assms] by (simp add: add_mult_distrib2 mult.commute)
  then show ?thesis by (simp add: empty_image_def Let_def)
qed

lemma le_nat_zeros [simp]: "le_nat (replicate n 0) = 0"
  by (induction n) auto

lemma chunk_empty_image:
  "4 \<le> off \<Longrightarrow> chunk off n (empty_image b c) = replicate (min n (length (empty_image b c) - off)) 0"
  by (simp add: chunk_def empty_image_def Let_def)

lemma empty_image_heads:
  assumes "b \<le> 32" "c \<le> 4"
  shows "le_nat (take 2 (empty_image b c)) = 256 * b + c" "le_nat (chunk 2 2 (empty_image b c)) = 0xFFFF"
  using assms le_nat_le_bytes [of "256 * b + c" 2] le_nat_le_bytes [of "0xFFFF" 2]
  by (simp_all add: empty_image_def Let_def chunk_def)

lemma empty_image_block:
  fixes b c i
  defines "bs \<equiv> block_size_of_config c"
  assumes b: "1 \<le> b" "b \<le> 32" and c: "c \<le> 4" and i: "1 \<le> i" "i \<le> b * bs div 2 - 1"
  shows "chunk (b * bs + (i - 1) * bs) bs (empty_image b c)
      = (if c = 4 \<and> i = b * bs div 2 - 1 then [] else replicate bs 0)"
proof -
  define d where "d = mkfs_blocks_in_data_region (bs * b) c"
  have d: "d = (if c = 4 then b * bs div 2 - 2 else b * bs div 2 - 1)"
    by (simp add: d_def mkfs_blocks_in_data_region_def mult.commute)
  have "256 \<le> bs" using block_size_of_config_cases [OF c] by (auto simp: bs_def)
  then have ge: "256 \<le> b * bs" using mult_le_mono [OF b(1), of 256 bs] by simp
  have len: "length (empty_image b c) = (d + b) * bs"
    using length_empty_image [OF b c] by (simp add: bs_def d_def)
  have off: "b * bs + (i - 1) * bs = (b + i - 1) * bs"
    using i by (simp add: add_mult_distrib [symmetric])
  have rest: "min bs ((d + b) * bs - (b + i - 1) * bs) = (if i \<le> d then bs else 0)"
  proof (cases "i \<le> d")
    case True
    then have "1 * bs \<le> (d + b - (b + i - 1)) * bs" using i by (intro mult_le_mono) auto
    with True show ?thesis by (simp add: diff_mult_distrib)
  next
    case False
    then have "(d + b) * bs \<le> (b + i - 1) * bs" by (intro mult_le_mono) auto
    with False show ?thesis by simp
  qed
  have "4 \<le> b * bs + (i - 1) * bs" using ge by simp
  then have "chunk (b * bs + (i - 1) * bs) bs (empty_image b c)
      = replicate (if i \<le> d then bs else 0) 0"
    using rest by (simp only: chunk_empty_image len off)
  then show ?thesis using i ge by (auto simp: d)
qed

definition mount_ok :: "mount_host \<Rightarrow> byte list \<Rightarrow> bool" where
  "mount_ok mh img \<longleftrightarrow> mo_file mh = Some img \<and> mo_fd mh \<noteq> -1 \<and> mo_read mh \<and> mo_mmap mh \<and> mo_malloc mh"

lemma mount_empty_image:
  assumes img: "mount_ok mh (empty_image b c)" and fresh: "\<not> is_mounted fs"
    and b: "1 \<le> b" "b \<le> 32" and c: "c \<le> 4"
  shows "mount mh fs = Some (0, fs\<lparr>
     fat := (\<lambda>i. le_nat (chunk (2 * i) 2 (empty_image b c))),
     fat_size := b * block_size_of_config c, block_size := block_size_of_config c,
     blocks_in_fat := b, fs_fd := mo_fd mh,
     block_buf := map (mo_heap mh) [0..<block_size_of_config c],
     blocks := (\<lambda>i. chunk (b * block_size_of_config c + (i - 1) * block_size_of_config c)
                          (block_size_of_config c) (empty_image b c)),
     global_fd_table := (\<lambda>i. if i < 3 then stdio_entry (global_fd_table fs i)
                             else global_fd_table fs i)\<rparr>)"
proof -
  have "2 \<le> length (empty_image b c)"
    by (simp add: empty_image_def Let_def)
  moreover have "b * block_size_of_config c \<noteq> 0"
    using b block_size_of_config_cases [OF c] by auto
  ultimately show ?thesis
    using img fresh b c by (simp add: mount_def mount_ok_def empty_image_heads parse_first_entry_value Let_def)
qed

text \<open>The state after mounting a fresh image.\<close>

lemma mounted_image:
  assumes "mkfs_host_ok h" and "1 \<le> b" and "b \<le> 32" and "c \<le> 4"
    and "mkfs h b c = (code, Some img)" and "mount_ok mh img" and "\<not> is_mounted fs"
  shows "\<exists>fs'. mount mh fs = Some (0, fs') \<and> geometry_ok fs' \<and>
    block_size fs' = block_size_of_config c \<and> fat_size fs' = b * block_size_of_config c \<and>
    is_chain (fat fs') 1 [1] \<and> (\<forall>i. 2 \<le> i \<and> i \<le> max_block fs' \<longrightarrow> fat fs' i = 0) \<and>
    (\<forall>i. 1 \<le> i \<and> i \<le> max_block fs' \<longrightarrow>
       blocks fs' i = (if c = 4 \<and> i = max_block fs' then [] else replicate (block_size fs') 0)) \<and>
    (\<forall>i\<ge>3. global_fd_table fs' i = global_fd_table fs i)"
proof -
  let ?bs = "block_size_of_config c"
  have img: "img = empty_image b c" using assms mkfs_creates [of h b c] by simp
  note m = mount_empty_image [OF assms(6) [unfolded img] assms(7,2,3,4)]
  have bs: "?bs \<in> {256, 512, 1024, 2048, 4096}" by (rule block_size_of_config_cases [OF assms(4)])
  have blk: "chunk (b * ?bs + (i - 1) * ?bs) ?bs (empty_image b c)
      = (if c = 4 \<and> i = b * ?bs div 2 - 1 then [] else replicate ?bs 0)"
    if "1 \<le> i" "i \<le> b * ?bs div 2 - 1" for i
    using empty_image_block [OF assms(2-4)] that by simp
  have fat0: "le_nat (chunk (2 * i) 2 (empty_image b c)) = 0" if "2 \<le> i" for i
    using that by (simp add: chunk_empty_image)
  show ?thesis
    using m blk fat0 bs assms(2,3,6) empty_image_heads(2) [OF assms(3,4)]
    by (auto simp: geometry_ok_def is_mounted_def max_block_def mount_ok_def)
qed

section \<open>Properties\<close>

text \<open>
  Formatting and mounting. Mounting the image that \<open>mkfs\<close> creates succeeds, recovers the
  geometry, and gives a FAT in which the root directory is the one-block chain of block 1 and
  every other entry is free. Every data block that \<open>get_block\<close> accepts is present and zero,
  except that with block size configuration 4 the image lacks the highest one: \<open>mkfs\<close> leaves out
  block \<open>fat_size div 2 - 1\<close> there, while \<open>get_blocks_in_data_region\<close> always counts it.
\<close>

theorem mount_mkfs:
  assumes "mkfs_host_ok h" and "1 \<le> b" and "b \<le> 32" and "c \<le> 4"
    and "mkfs h b c = (code, Some img)" and "mount_ok mh img" and "\<not> is_mounted fs"
  shows "\<exists>fs'. mount mh fs = Some (0, fs') \<and> geometry_ok fs' \<and>
    block_size fs' = block_size_of_config c \<and> fat_size fs' = b * block_size_of_config c \<and>
    is_chain (fat fs') 1 [1] \<and> (\<forall>i. 2 \<le> i \<and> i \<le> max_block fs' \<longrightarrow> fat fs' i = 0) \<and>
    (\<forall>i. 1 \<le> i \<and> i \<le> max_block fs' \<longrightarrow>
       blocks fs' i = (if c = 4 \<and> i = max_block fs' then [] else replicate (block_size fs') 0))"
  using mounted_image [OF assms] by blast

text \<open>A host that finds the image and accepts every call.\<close>

definition mount_host_example :: "byte list \<Rightarrow> mount_host" where
  "mount_host_example img = \<lparr>mo_file = Some img, mo_fd = 3, mo_read = True, mo_mmap = True,
     mo_malloc = True, mo_heap = (\<lambda>_. 0)\<rparr>"

theorem mount_mkfs_witness:
  "\<exists>fs'. mount (mount_host_example (empty_image 1 0)) initial_fs = Some (0, fs') \<and>
     geometry_ok fs' \<and> block_size fs' = 256 \<and> is_chain (fat fs') 1 [1] \<and> fat fs' 2 = 0"
proof -
  have h: "mkfs_host_ok mkfs_host_example" by (simp add: mkfs_host_ok_def mkfs_host_example_def)
  have img: "mkfs mkfs_host_example 1 0 = (0, Some (empty_image 1 0))"
    by (rule mkfs_creates [OF h]) simp_all
  have m: "mount_ok (mount_host_example (empty_image 1 0)) (empty_image 1 0)"
    by (simp add: mount_ok_def mount_host_example_def)
  have "\<not> is_mounted initial_fs" by (simp add: is_mounted_def initial_fs_def)
  from mount_mkfs [OF h _ _ _ img m this] show ?thesis
    by (auto simp: block_size_of_config_def max_block_def)
qed

text \<open>
  Block addressing. In a mounted file system the byte range of every data block starts
  after the FAT, the ranges of different blocks are disjoint and in order, and all of them fit
  the 32-bit offset that \<open>get_byte_offset_of_block\<close> computes.
\<close>

theorem block_layout:
  assumes "geometry_ok fs" and "1 \<le> b" and "b \<le> max_block fs"
  shows "fat_size fs \<le> get_byte_offset_of_block fs b \<and>
    get_byte_offset_of_block fs b + block_size fs < 2 ^ 32 \<and>
    (\<forall>c. b < c \<and> c \<le> max_block fs \<longrightarrow>
      get_byte_offset_of_block fs b + block_size fs \<le> get_byte_offset_of_block fs c)"
proof (intro conjI)
  note g = geometry_bounds [OF assms(1)]
  have exact: "get_byte_offset_of_block fs c = fat_size fs + (c - 1) * block_size fs"
    if "c \<le> max_block fs" for c
  proof -
    have "(c - 1) * block_size fs \<le> 65535 * 4096" using that g by (intro mult_le_mono) auto
    then show ?thesis using g by (simp add: get_byte_offset_of_block_def)
  qed
  show "fat_size fs \<le> get_byte_offset_of_block fs b" using exact assms by simp
  have "(b - 1) * block_size fs \<le> 65535 * 4096" using assms g by (intro mult_le_mono) auto
  then show "get_byte_offset_of_block fs b + block_size fs < 2 ^ 32" using exact assms g by simp
  have "(b - 1) * block_size fs + block_size fs \<le> (c - 1) * block_size fs" if "b < c" for c
  proof -
    have "Suc (b - 1) * block_size fs \<le> (c - 1) * block_size fs"
      using that assms(2) by (intro mult_le_mono1) auto
    then show ?thesis by (simp only: mult_Suc add.commute)
  qed
  then show "\<forall>c. b < c \<and> c \<le> max_block fs \<longrightarrow>
      get_byte_offset_of_block fs b + block_size fs \<le> get_byte_offset_of_block fs c"
    using exact assms by simp
qed

text \<open>A mounted image of 256-byte blocks with one FAT block: 127 data blocks.\<close>

definition fs_example :: fatfs where
  "fs_example = \<lparr>fat = (\<lambda>i. if i = 0 then 256 else if i = 1 then 0xFFFF else 0),
     fat_size = 256, block_size = 256, blocks_in_fat = 1, fs_fd = 3,
     block_buf = replicate 256 0, blocks = (\<lambda>_. replicate 256 0),
     global_fd_table = (\<lambda>i. if i < 3 then stdio_entry empty_fd_entry else empty_fd_entry),
     console = []\<rparr>"

lemma fs_example_ok [simp]:
  "geometry_ok fs_example" "max_block fs_example = 127" "blocks_complete fs_example"
  by (simp_all add: geometry_ok_def fs_example_def is_mounted_def max_block_def blocks_complete_def)

theorem block_layout_witness:
  "fat_size fs_example \<le> get_byte_offset_of_block fs_example 3 \<and>
   get_byte_offset_of_block fs_example 3 + 256 \<le> get_byte_offset_of_block fs_example 4"
proof -
  have "block_size fs_example = 256" by (simp add: fs_example_def)
  then show ?thesis using block_layout [of fs_example 3] by simp
qed

text \<open>
  \<open>clear_fat_file\<close> on the first block of a well-formed chain terminates and frees the
  blocks of that chain and no other FAT entry. Chains of other files, which share no block with
  it, are unchanged.
\<close>

theorem clear_fat_file_frees_chain:
  assumes "geometry_ok fs" and "is_chain (fat fs) b bs" and "in_region fs bs"
  shows "\<exists>f. clear_fat_file b fs = Some (fs\<lparr>fat := f\<rparr>) \<and>
    (\<forall>i. f i = (if i \<in> set bs then 0 else fat fs i)) \<and>
    (\<forall>c cs. is_chain (fat fs) c cs \<and> set cs \<inter> set bs = {} \<longrightarrow> is_chain f c cs)"
proof (intro exI conjI allI impI)
  let ?f = "\<lambda>i. if i \<in> set bs then 0 else fat fs i"
  show "clear_fat_file b fs = Some (fs\<lparr>fat := ?f\<rparr>)" by (rule clear_fat_file_chain [OF assms])
  show "?f i = ?f i" for i ..
  fix c cs
  assume cs: "is_chain (fat fs) c cs \<and> set cs \<inter> set bs = {}"
  then have "is_chain ?f c cs = is_chain (fat fs) c cs" by (intro is_chain_cong) auto
  then show "is_chain ?f c cs" using cs by simp
qed

theorem clear_fat_file_frees_chain_witness:
  "\<exists>f. clear_fat_file 5 (fs_example\<lparr>fat := (fat fs_example)(5 := 9, 9 := 0xFFFF)\<rparr>)
       = Some (fs_example\<lparr>fat := f\<rparr>) \<and> f 5 = 0 \<and> f 9 = 0 \<and> f 1 = 0xFFFF"
proof -
  let ?fs = "fs_example\<lparr>fat := (fat fs_example)(5 := 9, 9 := 0xFFFF)\<rparr>"
  have "geometry_ok ?fs" "is_chain (fat ?fs) 5 [5, 9]" "in_region ?fs [5, 9]" by simp_all
  from clear_fat_file_frees_chain [OF this] obtain f
    where "clear_fat_file 5 ?fs = Some (?fs\<lparr>fat := f\<rparr>)"
      and "\<forall>i. f i = (if i \<in> set [5, 9] then 0 else fat ?fs i)" by blast
  then show ?thesis by (auto simp: fs_example_def)
qed

text \<open>
  The allocator. While a block is free, \<open>first_empty_block\<close> returns the lowest free block
  number. When none is free it returns 0 for the two FAT sizes 65536 and 131072 (its loop bound
  is the number of FAT entries there, or one less); for every other size the loop bound 65535
  exceeds the number of FAT entries, and the search runs past the end of the mapped FAT.
\<close>

theorem first_empty_block_spec:
  assumes "geometry_ok fs"
  shows "(\<forall>k. 1 \<le> k \<and> k \<le> max_block fs \<and> k < 65535 \<and> fat fs k = 0 \<and>
          (\<forall>j. 1 \<le> j \<and> j < k \<longrightarrow> fat fs j \<noteq> 0) \<longrightarrow> first_empty_block fs = Some k) \<and>
    ((\<forall>j. 1 \<le> j \<and> j \<le> max_block fs \<longrightarrow> fat fs j \<noteq> 0) \<longrightarrow>
      first_empty_block fs = (if fat_size fs \<in> {65536, 131072} then Some 0 else None))"
proof (intro conjI impI)
  note g = geometry_bounds [OF assms]
  have n: "n_fat_entries fs = (if fat_size fs = 65536 then 32768 else 65535)"
    by (simp add: n_fat_entries_def)
  have lt: "k < n_fat_entries fs" if "k \<le> max_block fs" "k < 65535" for k
    using that g by (auto simp: n max_block_def)
  then show "\<forall>k. 1 \<le> k \<and> k \<le> max_block fs \<and> k < 65535 \<and> fat fs k = 0 \<and>
          (\<forall>j. 1 \<le> j \<and> j < k \<longrightarrow> fat fs j \<noteq> 0) \<longrightarrow> first_empty_block fs = Some k"
    using g unfolding first_empty_block_def by (auto intro!: first_empty_from_least)
  assume full: "\<forall>j. 1 \<le> j \<and> j \<le> max_block fs \<longrightarrow> fat fs j \<noteq> 0"
  show "first_empty_block fs = (if fat_size fs \<in> {65536, 131072} then Some 0 else None)"
  proof (cases "fat_size fs \<in> {65536, 131072}")
    case True
    then have "first_empty_from fs (n_fat_entries fs) 1 = Some 0"
      using full by (intro first_empty_from_none) (auto simp: n max_block_def)
    then show ?thesis using True by (simp add: first_empty_block_def)
  next
    case False
    then have "first_empty_from fs (n_fat_entries fs) 1 = None"
      using full g fat_size_half [OF assms] by (intro first_empty_from_full) (auto simp: n max_block_def)
    then show ?thesis using False by (simp add: first_empty_block_def)
  qed
qed

theorem first_empty_block_spec_witness:
  "first_empty_block fs_example = Some 2 \<and>
   first_empty_block (fs_example\<lparr>fat := (\<lambda>_. 0xFFFF)\<rparr>) = None"
proof
  have "fat fs_example 2 = 0" "\<forall>j. 1 \<le> j \<and> j < 2 \<longrightarrow> fat fs_example j \<noteq> 0"
    by (auto simp: fs_example_def)
  then show "first_empty_block fs_example = Some 2"
    using first_empty_block_spec [of fs_example] by simp
  have "fat_size fs_example = 256" by (simp add: fs_example_def)
  then show "first_empty_block (fs_example\<lparr>fat := (\<lambda>_. 0xFFFF)\<rparr>) = None"
    using first_empty_block_spec [of "fs_example\<lparr>fat := (\<lambda>_. 0xFFFF)\<rparr>"] by simp
qed

end
