(* ===== verification/Fat_Dir.thy ===== *)
theory Fat_Dir
  imports Fat_Blocks
begin

text \<open>
  The root directory and the search of the global descriptor table
  (\<^verbatim>\<open>src/src/pennfat/fat.c\<close>, lines 198 to 218 and 339 to 586).

  The root directory is the chain of blocks that starts at block 1; each block is an array of
  64-byte directory entries. The first byte of a name is 0 for the end mark, 1 for a deleted
  entry, 2 for a deleted entry that is still open. A C string argument is the list of its bytes
  before the terminating \<open>NUL\<close>. Out-parameters are returned with the code; \<open>(0, 0)\<close> stands for a
  slot the C function leaves unset, which no caller reads.

  The abstract directory \<open>dir_find\<close> is a finite map from names to an entry and its slot; the
  operations are shown to look up, extend and update that map.
\<close>

section \<open>Names\<close>

abbreviation MAX_FILENAME_SIZE :: nat where "MAX_FILENAME_SIZE \<equiv> 31"

abbreviation name0 :: "directory_entry \<Rightarrow> byte" where
  "name0 e \<equiv> de_name e ! 0"

definition filename_char :: "byte \<Rightarrow> bool" where
  "filename_char c \<longleftrightarrow>
     (97 \<le> sint c \<and> sint c \<le> 122) \<or> (65 \<le> sint c \<and> sint c \<le> 90) \<or>
     (48 \<le> sint c \<and> sint c \<le> 57) \<or> sint c = 46 \<or> sint c = 95 \<or> sint c = 45"

definition check_filename_charset :: "byte list \<Rightarrow> nat \<Rightarrow> bool" where
  "check_filename_charset str n \<longleftrightarrow> list_all filename_char (take n str)"

definition is_valid_filename :: "byte list \<Rightarrow> bool" where
  "is_valid_filename fname =
     (let n = u8 (min (length fname) MAX_FILENAME_SIZE) in
      if n < 1 then False
      else if n < length fname then False
      else check_filename_charset fname n)"

text \<open>
  \<open>strcmp (s, a) == 0\<close> for the string \<open>s\<close> and the character array \<open>a\<close>; \<^term>\<open>None\<close> when the
  comparison runs off the array.
\<close>

fun strcmp_eq :: "byte list \<Rightarrow> byte list \<Rightarrow> bool option" where
  "strcmp_eq s [] = None"
| "strcmp_eq [] (b # bs) = Some (b = 0)"
| "strcmp_eq (c # cs) (b # bs) = (if c = b then strcmp_eq cs bs else Some False)"

section \<open>Searching the root directory\<close>

abbreviation EFIND_FILE_IN_ROOT_DIR_GET_BLOCK_FAILED :: int
  where "EFIND_FILE_IN_ROOT_DIR_GET_BLOCK_FAILED \<equiv> -1"
abbreviation RFIND_FILE_IN_ROOT_DIR_FILE_NOT_FOUND :: int
  where "RFIND_FILE_IN_ROOT_DIR_FILE_NOT_FOUND \<equiv> 1"
abbreviation RFIND_FILE_IN_ROOT_DIR_FILE_FOUND :: int
  where "RFIND_FILE_IN_ROOT_DIR_FILE_FOUND \<equiv> 0"
abbreviation RFIND_FILE_IN_ROOT_DIR_FILE_DELETED :: int
  where "RFIND_FILE_IN_ROOT_DIR_FILE_DELETED \<equiv> 2"

definition dir_entry_at :: "byte list \<Rightarrow> nat \<Rightarrow> directory_entry" where
  "dir_entry_at buf i = decode_entry (chunk (64 * i) 64 buf)"

definition n_dir_entry_per_block :: "fatfs \<Rightarrow> nat" where
  "n_dir_entry_per_block fs = u8 (block_size fs div 64)"

datatype scan = Scan_end | Scan_hit nat directory_entry | Scan_next

text \<open>The \<open>for\<close> loop over the entries \<open>i, i + 1, ...\<close> of one block, \<open>k\<close> of them left.\<close>

fun scan_for_file :: "byte list \<Rightarrow> byte list \<Rightarrow> nat \<Rightarrow> nat \<Rightarrow> scan option" where
  "scan_for_file fname buf i 0 = Some Scan_next"
| "scan_for_file fname buf i (Suc k) =
     (let e = dir_entry_at buf i in
      if name0 e = 0 then Some Scan_end
      else do {
        eq \<leftarrow> strcmp_eq fname (de_name e);
        if eq then Some (Scan_hit i e) else scan_for_file fname buf (Suc i) k
      })"

type_synonym dir_hit = "directory_entry \<times> nat \<times> nat"

partial_function (option) find_file_loop ::
  "host \<Rightarrow> byte list \<Rightarrow> nat \<Rightarrow> fatfs \<Rightarrow> ((int \<times> dir_hit option) \<times> fatfs) option" where
  "find_file_loop h fname block fs =
     (case load_block h block fs of
        (code, fs) \<Rightarrow>
          if code \<noteq> 0 then Some ((EFIND_FILE_IN_ROOT_DIR_GET_BLOCK_FAILED, None), fs)
          else
            (case scan_for_file fname (block_buf fs) 0 (n_dir_entry_per_block fs) of
               None \<Rightarrow> None
             | Some Scan_end \<Rightarrow> Some ((RFIND_FILE_IN_ROOT_DIR_FILE_NOT_FOUND, None), fs)
             | Some (Scan_hit i e) \<Rightarrow>
                 Some ((if name0 e = 1 \<or> name0 e = 2 then RFIND_FILE_IN_ROOT_DIR_FILE_DELETED
                        else RFIND_FILE_IN_ROOT_DIR_FILE_FOUND, Some (e, block, i)), fs)
             | Some Scan_next \<Rightarrow>
                 (case next_block_num fs block block of
                    (code, block) \<Rightarrow>
                      if code \<noteq> 0 then Some ((EFIND_FILE_IN_ROOT_DIR_GET_BLOCK_FAILED, None), fs)
                      else find_file_loop h fname block fs)))"

definition find_file_in_root_dir ::
  "host \<Rightarrow> byte list \<Rightarrow> fatfs \<Rightarrow> ((int \<times> dir_hit option) \<times> fatfs) option" where
  "find_file_in_root_dir h fname fs = find_file_loop h fname 1 fs"

section \<open>Searching the descriptor table\<close>

text \<open>
  Index of the first entry from \<open>i\<close> on that is in use and has the given name; \<open>Some None\<close> when
  there is none. An entry in use whose directory entry pointer is \<open>NULL\<close> is dereferenced.
\<close>

function find_fd_from :: "byte list \<Rightarrow> fatfs \<Rightarrow> nat \<Rightarrow> nat option option" where
  "find_fd_from fname fs i =
     (if i < GLOBAL_FD_TABLE_SIZE then
        if ref_count (global_fd_table fs i) = 0 then find_fd_from fname fs (Suc i)
        else (case ptr_to_dir_entry (global_fd_table fs i) of
                None \<Rightarrow> None
              | Some d \<Rightarrow>
                  if sint (name0 d) < 3 then find_fd_from fname fs (Suc i)
                  else (case strcmp_eq fname (de_name d) of
                          None \<Rightarrow> None
                        | Some eq \<Rightarrow> if eq then Some (Some i) else find_fd_from fname fs (Suc i)))
      else Some None)"
  by pat_completeness auto
termination
  by (relation "measure (\<lambda>(fname, fs, i). GLOBAL_FD_TABLE_SIZE - i)") auto

definition find_file_in_global_fd_table :: "byte list \<Rightarrow> fatfs \<Rightarrow> nat option option" where
  "find_file_in_global_fd_table fname fs = find_fd_from fname fs 3"

function find_empty_fd_from :: "fatfs \<Rightarrow> nat \<Rightarrow> nat" where
  "find_empty_fd_from fs i =
     (if i < GLOBAL_FD_TABLE_SIZE then
        if ref_count (global_fd_table fs i) = 0 then i else find_empty_fd_from fs (Suc i)
      else 0xFFFF)"
  by pat_completeness auto
termination
  by (relation "measure (\<lambda>(fs, i). GLOBAL_FD_TABLE_SIZE - i)") auto

definition find_empty_fd :: "fatfs \<Rightarrow> nat" where
  "find_empty_fd fs = find_empty_fd_from fs 3"

declare find_fd_from.simps [simp del] find_empty_fd_from.simps [simp del]

section \<open>Writing the root directory\<close>

abbreviation EFIND_EMPTY_SPOT_IN_ROOT_DIR_GET_BLOCK_FAILED :: int
  where "EFIND_EMPTY_SPOT_IN_ROOT_DIR_GET_BLOCK_FAILED \<equiv> -1"
abbreviation EFIND_EMPTY_SPOT_IN_ROOT_DIR_NEXT_BLOCK_FAILED :: int
  where "EFIND_EMPTY_SPOT_IN_ROOT_DIR_NEXT_BLOCK_FAILED \<equiv> -2"
abbreviation RFIND_EMPTY_SPOT_IN_ROOT_DIR_DELETED :: int
  where "RFIND_EMPTY_SPOT_IN_ROOT_DIR_DELETED \<equiv> 0"
abbreviation RFIND_EMPTY_SPOT_IN_ROOT_DIR_END_ENTRY :: int
  where "RFIND_EMPTY_SPOT_IN_ROOT_DIR_END_ENTRY \<equiv> 1"

text \<open>
  The first entry of a block that is the end mark or deleted, with the code for it. A name whose
  first byte is negative as a \<open>char\<close> is neither greater than 2 nor one of 0, 1, 2: the loop
  goes on after it.
\<close>

fun scan_for_spot :: "byte list \<Rightarrow> nat \<Rightarrow> nat \<Rightarrow> (int \<times> nat) option" where
  "scan_for_spot buf i 0 = None"
| "scan_for_spot buf i (Suc k) =
     (let c = name0 (dir_entry_at buf i) in
      if sint c > 2 then scan_for_spot buf (Suc i) k
      else if c = 0 then Some (RFIND_EMPTY_SPOT_IN_ROOT_DIR_END_ENTRY, i)
      else if c = 1 \<or> c = 2 then Some (RFIND_EMPTY_SPOT_IN_ROOT_DIR_DELETED, i)
      else scan_for_spot buf (Suc i) k)"

partial_function (option) find_spot_loop ::
  "host \<Rightarrow> nat \<Rightarrow> fatfs \<Rightarrow> ((int \<times> (nat \<times> nat)) \<times> fatfs) option" where
  "find_spot_loop h block fs =
     (case load_block h block fs of
        (code, fs) \<Rightarrow>
          if code \<noteq> 0 then Some ((EFIND_EMPTY_SPOT_IN_ROOT_DIR_GET_BLOCK_FAILED, (0, 0)), fs)
          else
            (case scan_for_spot (block_buf fs) 0 (n_dir_entry_per_block fs) of
               Some (status, i) \<Rightarrow> Some ((status, (block, i)), fs)
             | None \<Rightarrow>
                 (case next_block_num fs block block of
                    (code, block) \<Rightarrow>
                      if code \<noteq> 0
                      then Some ((EFIND_EMPTY_SPOT_IN_ROOT_DIR_NEXT_BLOCK_FAILED, (0, 0)), fs)
                      else find_spot_loop h block fs)))"

definition find_empty_spot_in_root_dir ::
  "host \<Rightarrow> fatfs \<Rightarrow> ((int \<times> (nat \<times> nat)) \<times> fatfs) option" where
  "find_empty_spot_in_root_dir h fs = find_spot_loop h 1 fs"

abbreviation EWRITE_ROOT_DIR_ENTRY_GET_BLOCK_FAILED :: int
  where "EWRITE_ROOT_DIR_ENTRY_GET_BLOCK_FAILED \<equiv> 1"
abbreviation EWRITE_ROOT_DIR_ENTRY_NO_EMPTY_BLOCKS :: int
  where "EWRITE_ROOT_DIR_ENTRY_NO_EMPTY_BLOCKS \<equiv> 2"
abbreviation EWRITE_ROOT_DIR_ENTRY_WRITE_BLOCK_FAILED :: int
  where "EWRITE_ROOT_DIR_ENTRY_WRITE_BLOCK_FAILED \<equiv> 3"

definition write_root_dir_entry ::
  "host \<Rightarrow> directory_entry \<Rightarrow> nat \<Rightarrow> nat \<Rightarrow> fatfs \<Rightarrow> (int \<times> fatfs) option" where
  "write_root_dir_entry h e block idx fs =
     (case load_block h block fs of
        (code, fs) \<Rightarrow>
          if code \<noteq> 0 then Some (EWRITE_ROOT_DIR_ENTRY_GET_BLOCK_FAILED, fs)
          else if 64 * idx + 64 > length (block_buf fs) then None
          else
            let fs = fs\<lparr>block_buf := overlay (64 * idx) (encode_entry e) (block_buf fs)\<rparr> in
            case write_block h block (block_buf fs) fs of
              (code, fs) \<Rightarrow>
                Some (if code \<noteq> 0 then EWRITE_ROOT_DIR_ENTRY_WRITE_BLOCK_FAILED else 0, fs))"

definition zero_entry :: directory_entry where
  "zero_entry = \<lparr>de_name = replicate 32 0, de_size = 0, de_first_block = 0, de_type = 0,
     de_perm = 0, de_mtime = 0, de_padding = replicate 16 0\<rparr>"

abbreviation EWRITE_NEW_ROOT_DIR_ENTRY_FIND_EMPTY_SPOT_IN_ROOT_DIR_FAILED :: int
  where "EWRITE_NEW_ROOT_DIR_ENTRY_FIND_EMPTY_SPOT_IN_ROOT_DIR_FAILED \<equiv> 1"
abbreviation EWRITE_NEW_ROOT_DIR_ENTRY_WRITE_ROOT_DIR_ENTRY_FAILED :: int
  where "EWRITE_NEW_ROOT_DIR_ENTRY_WRITE_ROOT_DIR_ENTRY_FAILED \<equiv> 2"

text \<open>
  The case in which the end mark is the last entry of its block: a zeroed block is appended to
  the directory. The code is 0 when it was.
\<close>

definition extend_root_dir :: "host \<Rightarrow> nat \<Rightarrow> fatfs \<Rightarrow> (int \<times> fatfs) option" where
  "extend_root_dir h block fs = do {
     empty_block \<leftarrow> first_empty_block fs;
     if empty_block = 0 then Some (EWRITE_ROOT_DIR_ENTRY_NO_EMPTY_BLOCKS, fs)
     else
       let fs = fs\<lparr>block_buf := replicate (block_size fs) 0\<rparr> in
       case write_block h empty_block (block_buf fs) fs of
         (code, fs) \<Rightarrow>
           if code \<noteq> 0 then Some (EWRITE_ROOT_DIR_ENTRY_WRITE_BLOCK_FAILED, fs)
           else do {
             fs \<leftarrow> fat_set fs block empty_block;
             fs \<leftarrow> fat_set fs empty_block FAT_END_OF_FILE;
             Some (0, fs)
           }
   }"

text \<open>The preparation of the slot: move the end mark behind it, or extend the directory.\<close>

definition prepare_spot :: "host \<Rightarrow> int \<Rightarrow> nat \<Rightarrow> nat \<Rightarrow> fatfs \<Rightarrow> (int \<times> fatfs) option" where
  "prepare_spot h status block idx fs =
     (let is_last_in_block = (int idx = int (block_size fs div 64) - 1) in
      if status = RFIND_EMPTY_SPOT_IN_ROOT_DIR_END_ENTRY \<and> \<not> is_last_in_block then do {
        (_, fs) \<leftarrow> write_root_dir_entry h zero_entry block (u8 (idx + 1)) fs;
        Some (0, fs)
      }
      else if status = RFIND_EMPTY_SPOT_IN_ROOT_DIR_END_ENTRY then extend_root_dir h block fs
      else Some (0, fs))"

definition write_new_root_dir_entry ::
  "host \<Rightarrow> directory_entry \<Rightarrow> fatfs \<Rightarrow> ((int \<times> (nat \<times> nat)) \<times> fatfs) option" where
  "write_new_root_dir_entry h e fs = do {
     ((status, block, idx), fs) \<leftarrow> find_empty_spot_in_root_dir h fs;
     if status < 0
     then Some ((EWRITE_NEW_ROOT_DIR_ENTRY_FIND_EMPTY_SPOT_IN_ROOT_DIR_FAILED, (0, 0)), fs)
     else do {
       (code, fs) \<leftarrow> prepare_spot h status block idx fs;
       if code \<noteq> 0 then Some ((code, (0, 0)), fs)
       else do {
         (code, fs) \<leftarrow> write_root_dir_entry h e block idx fs;
         if code \<noteq> 0
         then Some ((EWRITE_NEW_ROOT_DIR_ENTRY_WRITE_ROOT_DIR_ENTRY_FAILED, (0, 0)), fs)
         else Some ((0, (block, idx)), fs)
       }
     }
   }"

section \<open>The abstract directory\<close>

definition cname :: "directory_entry \<Rightarrow> byte list" where
  "cname e = takeWhile (\<lambda>b. b \<noteq> 0) (de_name e)"

definition terminated :: "directory_entry \<Rightarrow> bool" where
  "terminated e \<longleftrightarrow> 0 \<in> set (de_name e)"

definition entries_per_block :: "fatfs \<Rightarrow> nat" where
  "entries_per_block fs = block_size fs div 64"

definition block_slots :: "fatfs \<Rightarrow> nat \<Rightarrow> ((nat \<times> nat) \<times> directory_entry) list" where
  "block_slots fs b = map (\<lambda>i. ((b, i), dir_entry_at (blocks fs b) i)) [0..<entries_per_block fs]"

definition dir_slots :: "fatfs \<Rightarrow> nat list \<Rightarrow> ((nat \<times> nat) \<times> directory_entry) list" where
  "dir_slots fs bs = concat (map (block_slots fs) bs)"

text \<open>The slots before the end mark, and the look-up among them.\<close>

definition live :: "((nat \<times> nat) \<times> directory_entry) list \<Rightarrow> ((nat \<times> nat) \<times> directory_entry) list" where
  "live ds = takeWhile (\<lambda>d. name0 (snd d) \<noteq> 0) ds"

definition dir_find ::
  "byte list \<Rightarrow> ((nat \<times> nat) \<times> directory_entry) list \<Rightarrow> ((nat \<times> nat) \<times> directory_entry) option" where
  "dir_find f ds = find (\<lambda>d. cname (snd d) = f) (live ds)"

definition slot_ok :: "directory_entry \<Rightarrow> bool" where
  "slot_ok e \<longleftrightarrow> terminated e \<and> (name0 e = 1 \<or> name0 e = 2 \<or> is_valid_filename (cname e))"

definition names_unique :: "((nat \<times> nat) \<times> directory_entry) list \<Rightarrow> bool" where
  "names_unique ds \<longleftrightarrow> (\<forall>d\<in>set ds. \<forall>d'\<in>set ds.
     is_valid_filename (cname (snd d)) \<and> cname (snd d) = cname (snd d') \<longrightarrow> d = d')"

text \<open>
  The invariant of the root directory: \<open>bs\<close> is its chain, the end mark is in the last block
  and nowhere before, and the names before it are terminated, valid or deleted, and unique.
\<close>

definition dir_ok :: "fatfs \<Rightarrow> nat list \<Rightarrow> bool" where
  "dir_ok fs bs \<longleftrightarrow> bs \<noteq> [] \<and> is_chain (fat fs) 1 bs \<and> in_region fs bs \<and>
     (\<forall>d\<in>set (dir_slots fs (butlast bs)). name0 (snd d) \<noteq> 0) \<and>
     (\<exists>d\<in>set (block_slots fs (last bs)). name0 (snd d) = 0) \<and>
     (\<forall>d\<in>set (live (dir_slots fs bs)). slot_ok (snd d)) \<and>
     names_unique (live (dir_slots fs bs))"

section \<open>Facts on names\<close>

lemma strcmp_eq_terminated:
  assumes "0 \<in> set a" "0 \<notin> set s"
  shows "strcmp_eq s a = Some (s = takeWhile (\<lambda>b. b \<noteq> 0) a)"
  using assms by (induction s a rule: strcmp_eq.induct) auto

lemma filename_char_positive: "filename_char c \<Longrightarrow> 2 < sint c"
  by (auto simp: filename_char_def)

lemma filename_char_special: "\<not> filename_char 0" "\<not> filename_char 1" "\<not> filename_char 2"
  by (simp_all add: filename_char_def)

lemma valid_filename_iff:
  "is_valid_filename f \<longleftrightarrow> 1 \<le> length f \<and> length f \<le> 31 \<and> list_all filename_char f"
  by (cases f) (auto simp: is_valid_filename_def check_filename_charset_def Let_def min_def)

lemma valid_filename_nonzero: "is_valid_filename f \<Longrightarrow> 0 \<notin> set f"
  using filename_char_special by (auto simp: valid_filename_iff list_all_iff)

lemma valid_filename_head: "is_valid_filename f \<Longrightarrow> \<exists>c cs. f = c # cs \<and> filename_char c"
  by (cases f) (auto simp: valid_filename_iff)

lemma cname_valid_name0:
  assumes "is_valid_filename (cname e)"
  shows "filename_char (name0 e)"
proof -
  obtain c cs where c: "cname e = c # cs" "filename_char c" using valid_filename_head [OF assms] by blast
  then have "de_name e \<noteq> []" by (auto simp: cname_def)
  then obtain x xs where "de_name e = x # xs" by (cases "de_name e") auto
  with c show ?thesis by (auto simp: cname_def split: if_splits)
qed

lemma cname_valid_not_deleted: "is_valid_filename (cname e) \<Longrightarrow> name0 e \<noteq> 0 \<and> name0 e \<noteq> 1 \<and> name0 e \<noteq> 2"
  using cname_valid_name0 filename_char_special by metis

section \<open>Facts on slots\<close>

lemma n_dir_entry_per_block_eq: "geometry_ok fs \<Longrightarrow> n_dir_entry_per_block fs = entries_per_block fs"
  using geometry_bounds(2) [of fs] by (simp add: n_dir_entry_per_block_def entries_per_block_def)

lemma entries_per_block_bounds:
  assumes "geometry_ok fs"
  shows "4 \<le> entries_per_block fs" "entries_per_block fs \<le> 64" "64 * entries_per_block fs = block_size fs"
  using assms by (auto simp: entries_per_block_def geometry_ok_def)

lemma dir_slots_simps [simp]:
  "dir_slots fs [] = []"
  "dir_slots fs (b # bs) = block_slots fs b @ dir_slots fs bs"
  "dir_slots fs (bs @ cs) = dir_slots fs bs @ dir_slots fs cs"
  by (simp_all add: dir_slots_def)

lemma slots_update [simp]:
  "block_slots (fs\<lparr>block_buf := buf\<rparr>) b = block_slots fs b"
  "block_slots (fs\<lparr>fat := f\<rparr>) b = block_slots fs b"
  "block_slots (fs\<lparr>global_fd_table := t\<rparr>) b = block_slots fs b"
  "entries_per_block (fs\<lparr>block_buf := buf\<rparr>) = entries_per_block fs"
  "entries_per_block (fs\<lparr>fat := f\<rparr>) = entries_per_block fs"
  "entries_per_block (fs\<lparr>blocks := bl\<rparr>) = entries_per_block fs"
  by (simp_all add: block_slots_def entries_per_block_def)

lemma dir_slots_cong: "(\<And>b. b \<in> set bs \<Longrightarrow> block_slots fs b = block_slots fs' b) \<Longrightarrow> dir_slots fs bs = dir_slots fs' bs"
  by (simp add: dir_slots_def cong: map_cong)

lemma dir_slots_update [simp]:
  "dir_slots (fs\<lparr>block_buf := buf\<rparr>) bs = dir_slots fs bs"
  "dir_slots (fs\<lparr>fat := f\<rparr>) bs = dir_slots fs bs"
  "dir_slots (fs\<lparr>global_fd_table := t\<rparr>) bs = dir_slots fs bs"
  by (rule dir_slots_cong, simp)+

lemma live_append:
  "live (ds @ es) = (if \<forall>d\<in>set ds. name0 (snd d) \<noteq> 0 then ds @ live es else live ds)"
  by (auto simp: live_def takeWhile_append)

lemma find_append_option: "find P (xs @ ys) = (case find P xs of None \<Rightarrow> find P ys | Some x \<Rightarrow> Some x)"
  by (induction xs) auto

lemma set_live_subset: "d \<in> set (live ds) \<Longrightarrow> d \<in> set ds \<and> name0 (snd d) \<noteq> 0"
  by (auto simp: live_def dest: set_takeWhileD)

text \<open>The inner loop of the search is the look-up in the slots of the block.\<close>

definition slots_from :: "nat \<Rightarrow> byte list \<Rightarrow> nat \<Rightarrow> nat \<Rightarrow> ((nat \<times> nat) \<times> directory_entry) list" where
  "slots_from b buf i k = map (\<lambda>j. ((b, j), dir_entry_at buf j)) [i..<i + k]"

lemma slots_from_simps [simp]:
  "slots_from b buf i 0 = []"
  "slots_from b buf i (Suc k) = ((b, i), dir_entry_at buf i) # slots_from b buf (Suc i) k"
proof -
  show "slots_from b buf i 0 = []" by (simp add: slots_from_def)
  have "[i..<i + Suc k] = i # [Suc i..<Suc i + k]" by (simp add: upt_conv_Cons del: upt_Suc)
  then show "slots_from b buf i (Suc k) = ((b, i), dir_entry_at buf i) # slots_from b buf (Suc i) k"
    by (simp only: slots_from_def list.map)
qed

lemma block_slots_from: "block_slots fs b = slots_from b (blocks fs b) 0 (entries_per_block fs)"
  by (simp add: block_slots_def slots_from_def)

lemma live_simps [simp]:
  "live [] = []"
  "live (d # ds) = (if name0 (snd d) = 0 then [] else d # live ds)"
  by (simp_all add: live_def)

lemma dir_find_simps [simp]:
  "dir_find f [] = None"
  "dir_find f (d # ds) =
     (if name0 (snd d) = 0 then None else if cname (snd d) = f then Some d else dir_find f ds)"
  by (simp_all add: dir_find_def)

lemma scan_for_file_spec:
  assumes "0 \<notin> set f" and "\<forall>d\<in>set (live (slots_from b buf i k)). terminated (snd d)"
  shows "scan_for_file f buf i k = Some
    (case dir_find f (slots_from b buf i k) of
       Some (p, e) \<Rightarrow> Scan_hit (snd p) e
     | None \<Rightarrow> if \<exists>d\<in>set (slots_from b buf i k). name0 (snd d) = 0 then Scan_end else Scan_next)"
  using assms(2)
proof (induction k arbitrary: i)
  case 0
  then show ?case by simp
next
  case (Suc k)
  show ?case
  proof (cases "name0 (dir_entry_at buf i) = 0")
    case True
    then show ?thesis by simp
  next
    case False
    then have t: "0 \<in> set (de_name (dir_entry_at buf i))" using Suc.prems by (simp add: terminated_def)
    show ?thesis
      using False Suc.IH [of "Suc i"] Suc.prems strcmp_eq_terminated [OF t assms(1)]
      by (auto simp: cname_def)
  qed
qed

section \<open>Facts on the search\<close>

text \<open>A mounted file system on a working host, without the host fixed.\<close>

lemma device_okD:
  assumes "device_ok (h, fs)"
  shows "host_ok h" "geometry_ok fs" "blocks_complete fs"
  using assms by (simp_all add: device_ok_def)

lemma device_ok_load:
  assumes "device_ok (h, fs)" "1 \<le> b" "b \<le> max_block fs"
  shows "load_block h b fs = (0, fs\<lparr>block_buf := blocks fs b\<rparr>)"
  using assms load_block_ok [of fs h b] by (simp add: device_ok_def)

lemma device_ok_buf:
  assumes "device_ok (h, fs)" "1 \<le> b" "b \<le> max_block fs"
  shows "device_ok (h, fs\<lparr>block_buf := blocks fs b\<rparr>)"
  using assms by (auto simp: device_ok_def blocks_complete_def max_block_def)

lemma device_ok_update [simp]:
  "device_ok (h, fs\<lparr>fat := f\<rparr>) = device_ok (h, fs)"
  "device_ok (h, fs\<lparr>global_fd_table := t\<rparr>) = device_ok (h, fs)"
  "device_ok (h, fs) \<Longrightarrow> length buf = block_size fs \<Longrightarrow> device_ok (h, fs\<lparr>block_buf := buf\<rparr>)"
  "device_ok (h, fs) \<Longrightarrow> length d = block_size fs \<Longrightarrow>
     device_ok (h, fs\<lparr>blocks := (blocks fs)(b := d)\<rparr>)"
  by (simp_all add: device_ok_def del: fun_upd_apply)

text \<open>The code and slot that a look-up result stands for.\<close>

fun found :: "((nat \<times> nat) \<times> directory_entry) option \<Rightarrow> int \<times> dir_hit option" where
  "found None = (RFIND_FILE_IN_ROOT_DIR_FILE_NOT_FOUND, None)"
| "found (Some ((b, i), e)) =
     (if name0 e = 1 \<or> name0 e = 2 then RFIND_FILE_IN_ROOT_DIR_FILE_DELETED
      else RFIND_FILE_IN_ROOT_DIR_FILE_FOUND, Some (e, b, i))"

lemma dir_find_append:
  "dir_find f (ds @ es) = (if \<forall>d\<in>set ds. name0 (snd d) \<noteq> 0
     then (case dir_find f ds of None \<Rightarrow> dir_find f es | Some d \<Rightarrow> Some d) else dir_find f ds)"
  by (induction ds) auto

lemma dir_find_slot: "dir_find f (slots_from b buf i k) = Some (p, e) \<Longrightarrow> fst p = b"
  by (induction k arbitrary: i) (auto split: if_splits)

lemma find_file_loop_spec:
  assumes "device_ok (h, fs)" "bs \<noteq> []" "is_chain (fat fs) b bs" "in_region fs bs" "0 \<notin> set f"
    and "\<forall>d\<in>set (live (dir_slots fs bs)). terminated (snd d)"
    and "\<exists>d\<in>set (dir_slots fs bs). name0 (snd d) = 0"
  shows "\<exists>c\<in>set bs. find_file_loop h f b fs =
    Some (found (dir_find f (dir_slots fs bs)), fs\<lparr>block_buf := blocks fs c\<rparr>)"
  using assms(1-4,6,7)
proof (induction bs arbitrary: b fs)
  case Nil
  then show ?case by simp
next
  case (Cons x bs)
  let ?n = "entries_per_block fs"
  let ?S = "slots_from x (blocks fs x) 0 ?n"
  let ?fs = "fs\<lparr>block_buf := blocks fs x\<rparr>"
  have x: "b = x" "1 \<le> x" "x \<le> max_block fs" "geometry_ok fs" "is_chain (fat fs) (fat fs x) bs"
    using Cons.prems by (auto simp: device_ok_def)
  have n: "n_dir_entry_per_block ?fs = ?n"
    using n_dir_entry_per_block_eq [OF x(4)] by (simp add: n_dir_entry_per_block_def entries_per_block_def)
  have "\<forall>d\<in>set (live ?S). terminated (snd d)"
    using Cons.prems(5) by (auto simp: block_slots_from live_append split: if_splits dest: set_live_subset)
  note scan = scan_for_file_spec [OF assms(5) this]
  note step = find_file_loop.simps [of h f x fs] x(2-) n scan block_slots_from
  have load: "load_block h x fs = (0, ?fs)" using device_ok_load [OF Cons.prems(1) x(2,3)] by simp
  show ?case
  proof (cases "dir_find f ?S = None \<and> \<not> (\<exists>d\<in>set ?S. name0 (snd d) = 0)")
    case False
    then have "find_file_loop h f x fs = Some (found (dir_find f (dir_slots fs (x # bs))), ?fs)"
      using load by (auto simp: step dir_find_append split: option.splits dest: dir_find_slot)
    then show ?thesis using x(1) by auto
  next
    case True
    then have bs: "bs \<noteq> []" "\<forall>d\<in>set (live (dir_slots fs bs)). terminated (snd d)"
      "\<exists>d\<in>set (dir_slots fs bs). name0 (snd d) = 0"
      using Cons.prems(5,6) by (auto simp: block_slots_from live_append)
    have "\<exists>c\<in>set bs. find_file_loop h f (fat ?fs x) ?fs =
        Some (found (dir_find f (dir_slots ?fs bs)), ?fs\<lparr>block_buf := blocks ?fs c\<rparr>)"
      using Cons.prems x bs device_ok_buf by (intro Cons.IH) auto
    moreover have "next_block_num ?fs x x = (0, fat fs x)"
      using x by (simp add: next_block_num_def get_blocks_in_data_region_def)
         (use data_region_value [OF x(4)] in \<open>simp add: get_blocks_in_data_region_def\<close>)
    moreover have "dir_find f (dir_slots fs (x # bs)) = dir_find f (dir_slots fs bs)"
      using True by (simp add: block_slots_from dir_find_append)
    ultimately show ?thesis
      using True load x(1) by (simp add: step)
  qed
qed

lemma dir_ok_end: "dir_ok fs bs \<Longrightarrow> \<exists>d\<in>set (dir_slots fs bs). name0 (snd d) = 0"
  by (cases bs rule: rev_cases) (auto simp: dir_ok_def)

lemma find_file_spec:
  assumes "device_ok (h, fs)" "dir_ok fs bs" "0 \<notin> set f"
  shows "\<exists>c\<in>set bs. find_file_in_root_dir h f fs =
    Some (found (dir_find f (dir_slots fs bs)), fs\<lparr>block_buf := blocks fs c\<rparr>)"
  unfolding find_file_in_root_dir_def
  using assms dir_ok_end [OF assms(2)]
  by (intro find_file_loop_spec) (auto simp: dir_ok_def slot_ok_def)

lemma dir_find_Some_iff:
  assumes "names_unique (live ds)" "is_valid_filename f"
  shows "dir_find f ds = Some d \<longleftrightarrow> d \<in> set (live ds) \<and> cname (snd d) = f"
proof
  show "dir_find f ds = Some d \<Longrightarrow> d \<in> set (live ds) \<and> cname (snd d) = f"
    unfolding dir_find_def find_Some_iff by auto
next
  assume d: "d \<in> set (live ds) \<and> cname (snd d) = f"
  then obtain d' where d': "dir_find f ds = Some d'"
    unfolding dir_find_def by (metis (mono_tags, lifting) find_None_iff not_None_eq)
  then have "d' \<in> set (live ds) \<and> cname (snd d') = f"
    unfolding dir_find_def find_Some_iff by auto
  then have "d = d'" using assms d unfolding names_unique_def by metis
  with d' show "dir_find f ds = Some d" by simp
qed

lemma dir_find_None_iff: "dir_find f ds = None \<longleftrightarrow> (\<forall>d\<in>set (live ds). cname (snd d) \<noteq> f)"
  unfolding dir_find_def find_None_iff by blast

lemma dir_find_SomeD: "dir_find f ds = Some d \<Longrightarrow> d \<in> set (live ds) \<and> cname (snd d) = f"
  unfolding dir_find_def find_Some_iff by auto

lemma found_valid:
  assumes "is_valid_filename f" "dir_find f ds = Some ((b, i), e)"
  shows "found (dir_find f ds) = (RFIND_FILE_IN_ROOT_DIR_FILE_FOUND, Some (e, b, i))"
proof -
  have "cname e = f" using dir_find_SomeD [OF assms(2)] by simp
  then show ?thesis using assms cname_valid_not_deleted [of e] by simp
qed

section \<open>Facts on writing a slot\<close>

definition put_entry :: "nat \<Rightarrow> nat \<Rightarrow> directory_entry \<Rightarrow> fatfs \<Rightarrow> fatfs" where
  "put_entry b i e fs =
     (let d = overlay (64 * i) (encode_entry e) (blocks fs b)
      in fs\<lparr>block_buf := d, blocks := (blocks fs)(b := d)\<rparr>)"

lemma slot_range: "geometry_ok fs \<Longrightarrow> i < entries_per_block fs \<Longrightarrow> 64 * i + 64 \<le> block_size fs"
  using entries_per_block_bounds(3) [of fs] by simp

lemma write_root_dir_entry_ok:
  assumes "device_ok (h, fs)" "1 \<le> b" "b \<le> max_block fs" "i < entries_per_block fs" "entry_ok e"
  shows "write_root_dir_entry h e b i fs = Some (0, put_entry b i e fs)"
proof -
  let ?fs = "fs\<lparr>block_buf := blocks fs b\<rparr>"
  let ?d = "overlay (64 * i) (encode_entry e) (blocks fs b)"
  have geo: "geometry_ok fs" "blocks_complete fs" using assms(1) by (auto simp: device_ok_def)
  have len: "length (blocks fs b) = block_size fs"
    using geo(2) assms(2,3) by (simp add: blocks_complete_def)
  have r: "64 * i + 64 \<le> block_size fs" using slot_range [OF geo(1) assms(4)] .
  have d: "length ?d = block_size fs" using r len assms(5) by (simp add: length_encode_entry)
  have "device_ok (h, fs\<lparr>block_buf := ?d\<rparr>)" using assms(1) d by simp
  then have "write_block h b ?d (fs\<lparr>block_buf := ?d\<rparr>) = (0, put_entry b i e fs)"
    using assms(2,3) d by (subst write_block_ok) (auto simp: device_ok_def put_entry_def Let_def)
  then show ?thesis
    using assms r len by (simp add: write_root_dir_entry_def device_ok_load Let_def)
qed

lemma put_entry_device:
  assumes "device_ok (h, fs)" "1 \<le> b" "b \<le> max_block fs" "i < entries_per_block fs" "entry_ok e"
  shows "device_ok (h, put_entry b i e fs)"
proof -
  have "64 * i + 64 \<le> block_size fs" using assms slot_range by (auto simp: device_ok_def)
  moreover have "length (blocks fs b) = block_size fs"
    using assms(1-3) by (auto simp: device_ok_def blocks_complete_def)
  ultimately have d: "length (overlay (64 * i) (encode_entry e) (blocks fs b)) = block_size fs"
    using assms(5) by (simp add: length_encode_entry)
  with assms(1) show ?thesis
    by (simp add: put_entry_def Let_def device_ok_def blocks_complete_def max_block_def)
qed

text \<open>
  The slot write is the \<open>patch\<close> of the block device, so its reads follow from the laws of the
  interface.
\<close>

lemma put_entry_patch:
  assumes "device_ok (h, fs)" "1 \<le> b" "b \<le> max_block fs" "i < entries_per_block fs" "entry_ok e"
  shows "device.patch b (64 * i) (encode_entry e) (h, fs)
    = Some (h, (put_entry b i e fs)\<lparr>block_buf := block_buf fs\<rparr>)"
proof -
  have v: "device_valid (h, fs) b" using assms by (simp add: device_valid_def)
  have "64 * i + 64 \<le> block_size fs" using assms slot_range by (auto simp: device_ok_def)
  moreover have "length (blocks fs b) = block_size fs"
    using assms(1-3) by (auto simp: device_ok_def blocks_complete_def)
  ultimately have d: "length (overlay (64 * i) (encode_entry e) (blocks fs b)) = block_size fs"
    using assms(5) by (simp add: length_encode_entry)
  with assms(1) v show ?thesis
    by (simp add: device.patch_def device_fetch_ok device_store_ok put_entry_def Let_def)
qed

lemma put_entry_slots:
  assumes "device_ok (h, fs)" "1 \<le> b" "b \<le> max_block fs" "i < entries_per_block fs" "entry_ok e"
    and "j < entries_per_block fs" "1 \<le> c" "c \<le> max_block fs"
  shows "dir_entry_at (blocks (put_entry b i e fs) c) j =
    (if (c, j) = (b, i) then e else dir_entry_at (blocks fs c) j)"
proof -
  let ?t = "(h, (put_entry b i e fs)\<lparr>block_buf := block_buf fs\<rparr>)"
  have v: "device_valid (h, fs) b" "device_valid (h, fs) c" using assms by (simp_all add: device_valid_def)
  have t: "device_ok ?t" "device_valid ?t = device_valid (h, fs)"
    using assms(1) put_entry_device [OF assms(1-5)]
    by (auto simp: device_ok_def geometry_ok_def device_valid_def put_entry_def Let_def fun_eq_iff max_block_def)
  have r: "64 * i + 64 \<le> block_size fs" "64 * j + 64 \<le> block_size fs"
    using assms slot_range by (auto simp: device_ok_def)
  note reads = device.patch_reads [OF assms(1) v(1), of "64 * i" "encode_entry e", simplified snd_conv]
  have "64 * i + length (encode_entry e) \<le> block_size fs" using r assms(5) by (simp add: length_encode_entry)
  from reads [OF this] put_entry_patch [OF assms(1-5)]
  have own: "chunk (64 * i) 64 (blocks (put_entry b i e fs) b) = encode_entry e"
    and ranges: "\<forall>k n. k + n \<le> block_size fs \<and> (k + n \<le> 64 * i \<or> 64 * i + 64 \<le> k) \<longrightarrow>
        chunk k n (blocks (put_entry b i e fs) b) = chunk k n (blocks fs b)"
    and frame: "c \<noteq> b \<Longrightarrow> blocks (put_entry b i e fs) c = blocks fs c"
    using v t assms(1,5) by (auto simp: device_fetch_ok length_encode_entry)
  have other: "chunk (64 * j) 64 (blocks (put_entry b i e fs) b) = chunk (64 * j) 64 (blocks fs b)"
    if "j \<noteq> i"
  proof -
    have "64 * j + 64 \<le> 64 * i \<or> 64 * i + 64 \<le> 64 * j" using that by linarith
    then show ?thesis using ranges r(2) by blast
  qed
  show ?thesis
    using own other frame assms(5) by (cases "c = b") (auto simp: dir_entry_at_def decode_encode_entry)
qed

definition upd_slot ::
  "nat \<times> nat \<Rightarrow> directory_entry \<Rightarrow> ((nat \<times> nat) \<times> directory_entry) list \<Rightarrow> ((nat \<times> nat) \<times> directory_entry) list" where
  "upd_slot p e ds = map (\<lambda>(q, x). (q, if q = p then e else x)) ds"

lemma upd_slot_simps [simp]:
  "upd_slot p e [] = []"
  "upd_slot p e (d # ds) = (fst d, if fst d = p then e else snd d) # upd_slot p e ds"
  "upd_slot p e (ds @ es) = upd_slot p e ds @ upd_slot p e es"
  by (simp_all add: upd_slot_def split: prod.splits)

lemma upd_slot_notin: "p \<notin> fst ` set ds \<Longrightarrow> upd_slot p e ds = ds"
  by (induction ds) auto

lemma put_entry_dir_slots:
  assumes "device_ok (h, fs)" "1 \<le> b" "b \<le> max_block fs" "i < entries_per_block fs" "entry_ok e"
    and "in_region fs bs"
  shows "dir_slots (put_entry b i e fs) bs = upd_slot (b, i) e (dir_slots fs bs)"
  using assms(6)
proof (induction bs)
  case Nil
  then show ?case by simp
next
  case (Cons c bs)
  have n: "entries_per_block (put_entry b i e fs) = entries_per_block fs"
    by (simp add: put_entry_def Let_def entries_per_block_def)
  have "block_slots (put_entry b i e fs) c = upd_slot (b, i) e (block_slots fs c)"
    using put_entry_slots [OF assms(1-5)] Cons.prems
    by (simp add: block_slots_def upd_slot_def n)
  then show ?case using Cons by simp
qed

lemma fst_dir_slots: "fst ` set (dir_slots fs bs) = set bs \<times> {0..<entries_per_block fs}"
  by (auto simp: dir_slots_def block_slots_def image_iff)

lemma distinct_dir_slots: "distinct bs \<Longrightarrow> distinct (map fst (dir_slots fs bs))"
proof (induction bs)
  case Nil
  then show ?case by simp
next
  case (Cons b bs)
  have "distinct (map fst (block_slots fs b))" by (simp add: block_slots_def distinct_map inj_on_def comp_def)
  moreover have "fst ` set (block_slots fs b) \<inter> fst ` set (dir_slots fs bs) = {}"
    using Cons.prems by (auto simp: block_slots_def dir_slots_def)
  ultimately show ?case using Cons by simp
qed

text \<open>Overwriting a slot before the end mark with another such entry.\<close>

lemma live_upd_slot:
  assumes "(p, x) \<in> set (live ds)" "name0 e \<noteq> 0" "distinct (map fst ds)"
  shows "live (upd_slot p e ds) = upd_slot p e (live ds)"
  using assms(1,3)
proof (induction ds)
  case Nil
  then show ?case by simp
next
  case (Cons d ds)
  show ?case
  proof (cases "fst d = p")
    case True
    have "p \<notin> fst ` set ds" using True Cons.prems(2) by auto
    moreover from this have "p \<notin> fst ` set (live ds)" using set_live_subset by fastforce
    ultimately show ?thesis
      using True Cons.prems assms(2) by (auto simp: upd_slot_notin split: if_splits)
  next
    case False
    then show ?thesis using Cons by (auto split: if_splits)
  qed
qed

lemma set_upd_slot:
  assumes "distinct (map fst ds)" "(p, x) \<in> set ds"
  shows "set (upd_slot p e ds) = insert (p, e) (set ds - {(p, x)})"
  using assms
proof (induction ds)
  case Nil
  then show ?case by simp
next
  case (Cons d ds)
  show ?case
  proof (cases "fst d = p")
    case True
    have "p \<notin> fst ` set ds" using True Cons.prems(1) by auto
    then have "d = (p, x)" "upd_slot p e ds = ds" "(p, x) \<notin> set ds"
      using True Cons.prems(2) by (auto simp: upd_slot_notin image_iff)
    then show ?thesis by auto
  next
    case False
    then have "(p, x) \<in> set ds" "d \<noteq> (p, x)" using Cons.prems(2) by auto
    then show ?thesis using False Cons by (auto simp: prod_eq_iff)
  qed
qed

lemma live_distinct: "distinct (map fst ds) \<Longrightarrow> distinct (map fst (live ds))"
  unfolding live_def by (metis distinct_take map_append distinct_append takeWhile_dropWhile_id)

section \<open>Facts on the free slot\<close>

definition free_slot :: "(nat \<times> nat) \<times> directory_entry \<Rightarrow> bool" where
  "free_slot d \<longleftrightarrow> name0 (snd d) = 0 \<or> name0 (snd d) = 1 \<or> name0 (snd d) = 2"

fun spot :: "(nat \<times> nat) \<times> directory_entry \<Rightarrow> int \<times> (nat \<times> nat)" where
  "spot (p, e) = (if name0 e = 0 then RFIND_EMPTY_SPOT_IN_ROOT_DIR_END_ENTRY
                  else RFIND_EMPTY_SPOT_IN_ROOT_DIR_DELETED, p)"

lemma free_slot_small: "free_slot d \<Longrightarrow> \<not> 2 < sint (name0 (snd d))"
  by (auto simp: free_slot_def)

lemma slot_ok_not_free: "slot_ok (snd d) \<Longrightarrow> \<not> free_slot d \<Longrightarrow> 2 < sint (name0 (snd d))"
  by (auto simp: slot_ok_def free_slot_def dest: cname_valid_name0 filename_char_positive)

lemma scan_for_spot_spec:
  assumes "\<forall>d\<in>set (live (slots_from b buf i k)). slot_ok (snd d)"
  shows "scan_for_spot buf i k =
    map_option (\<lambda>d. (fst (spot d), snd (fst d))) (find free_slot (slots_from b buf i k))"
  using assms
proof (induction k arbitrary: i)
  case 0
  then show ?case by simp
next
  case (Suc k)
  let ?d = "((b, i), dir_entry_at buf i)"
  show ?case
  proof (cases "free_slot ?d")
    case True
    with free_slot_small [OF True] show ?thesis by (auto simp: free_slot_def Let_def)
  next
    case False
    then have "name0 (dir_entry_at buf i) \<noteq> 0" by (simp add: free_slot_def)
    moreover from this have "2 < sint (name0 (dir_entry_at buf i))"
      using Suc.prems slot_ok_not_free [OF _ False] by simp
    ultimately show ?thesis using False Suc.IH [of "Suc i"] Suc.prems by simp
  qed
qed

lemma find_spot_loop_spec:
  assumes "device_ok (h, fs)" "bs \<noteq> []" "is_chain (fat fs) b bs" "in_region fs bs"
    and "\<forall>d\<in>set (live (dir_slots fs bs)). slot_ok (snd d)"
    and "\<exists>d\<in>set (dir_slots fs bs). name0 (snd d) = 0"
  shows "\<exists>d. find free_slot (dir_slots fs bs) = Some d \<and>
    find_spot_loop h b fs = Some (spot d, fs\<lparr>block_buf := blocks fs (fst (fst d))\<rparr>)"
  using assms
proof (induction bs arbitrary: b fs)
  case Nil
  then show ?case by simp
next
  case (Cons x bs)
  let ?n = "entries_per_block fs"
  let ?S = "slots_from x (blocks fs x) 0 ?n"
  let ?fs = "fs\<lparr>block_buf := blocks fs x\<rparr>"
  have x: "b = x" "1 \<le> x" "x \<le> max_block fs" "geometry_ok fs" "is_chain (fat fs) (fat fs x) bs"
    using Cons.prems by (auto simp: device_ok_def)
  have n: "n_dir_entry_per_block ?fs = ?n"
    using n_dir_entry_per_block_eq [OF x(4)] by (simp add: n_dir_entry_per_block_def entries_per_block_def)
  have "\<forall>d\<in>set (live ?S). slot_ok (snd d)"
    using Cons.prems(5) by (auto simp: block_slots_from live_append split: if_splits dest: set_live_subset)
  note scan = scan_for_spot_spec [OF this]
  note step = find_spot_loop.simps [of h x fs] x(2-) n scan block_slots_from find_append_option
  have load: "load_block h x fs = (0, ?fs)" using device_ok_load [OF Cons.prems(1) x(2,3)] by simp
  show ?case
  proof (cases "find free_slot ?S")
    case (Some d)
    then have "d \<in> set ?S" by (auto simp: find_Some_iff in_set_conv_nth)
    then have "fst (fst d) = x" by (auto simp: slots_from_def)
    with Some have "find_spot_loop h x fs = Some (spot d, ?fs)"
      using load by (cases d) (auto simp: step)
    then show ?thesis using Some x(1) \<open>fst (fst d) = x\<close> by (simp add: block_slots_from find_append_option)
  next
    case None
    then have "\<forall>d\<in>set ?S. name0 (snd d) \<noteq> 0" by (auto simp: find_None_iff free_slot_def)
    then have bs: "bs \<noteq> []" "\<forall>d\<in>set (live (dir_slots fs bs)). slot_ok (snd d)"
      "\<exists>d\<in>set (dir_slots fs bs). name0 (snd d) = 0"
      using Cons.prems(5,6) by (auto simp: block_slots_from live_append)
    have "\<exists>d. find free_slot (dir_slots ?fs bs) = Some d \<and>
        find_spot_loop h (fat ?fs x) ?fs = Some (spot d, ?fs\<lparr>block_buf := blocks ?fs (fst (fst d))\<rparr>)"
      using Cons.prems x bs device_ok_buf by (intro Cons.IH) auto
    moreover have "next_block_num ?fs x x = (0, fat fs x)"
      using x by (simp add: next_block_num_def get_blocks_in_data_region_def)
         (use data_region_value [OF x(4)] in \<open>simp add: get_blocks_in_data_region_def\<close>)
    ultimately show ?thesis
      using None load x(1) by (simp add: step)
  qed
qed

lemma find_spot_spec:
  assumes "device_ok (h, fs)" "dir_ok fs bs"
  shows "\<exists>d. find free_slot (dir_slots fs bs) = Some d \<and>
    find_empty_spot_in_root_dir h fs = Some (spot d, fs\<lparr>block_buf := blocks fs (fst (fst d))\<rparr>)"
  unfolding find_empty_spot_in_root_dir_def
  using assms dir_ok_end [OF assms(2)]
  by (intro find_spot_loop_spec) (auto simp: dir_ok_def)

text \<open>The slots are the live ones, the end mark, and the rest of the last block.\<close>

lemma slots_from_split:
  assumes "\<exists>d\<in>set (slots_from b buf i k). name0 (snd d) = 0"
  shows "\<exists>j. j < k \<and> name0 (dir_entry_at buf (i + j)) = 0 \<and>
    live (slots_from b buf i k) = slots_from b buf i j \<and>
    slots_from b buf i k =
      slots_from b buf i j @ ((b, i + j), dir_entry_at buf (i + j)) # slots_from b buf (Suc (i + j)) (k - Suc j)"
  using assms
proof (induction k arbitrary: i)
  case 0
  then show ?case by simp
next
  case (Suc k)
  show ?case
  proof (cases "name0 (dir_entry_at buf i) = 0")
    case True
    then show ?thesis by (intro exI [of _ 0]) simp
  next
    case False
    then obtain j where "j < k" "name0 (dir_entry_at buf (Suc i + j)) = 0"
      "live (slots_from b buf (Suc i) k) = slots_from b buf (Suc i) j"
      "slots_from b buf (Suc i) k = slots_from b buf (Suc i) j @
        ((b, Suc i + j), dir_entry_at buf (Suc i + j)) # slots_from b buf (Suc (Suc i + j)) (k - Suc j)"
      using Suc by fastforce
    then show ?thesis using False by (intro exI [of _ "Suc j"]) simp
  qed
qed

lemma dir_ok_split:
  assumes "dir_ok fs bs"
  shows "\<exists>i. i < entries_per_block fs \<and> name0 (dir_entry_at (blocks fs (last bs)) i) = 0 \<and>
    dir_slots fs bs = live (dir_slots fs bs) @ ((last bs, i), dir_entry_at (blocks fs (last bs)) i) #
      slots_from (last bs) (blocks fs (last bs)) (Suc i) (entries_per_block fs - Suc i)"
proof -
  let ?b = "last bs"
  let ?buf = "blocks fs ?b"
  have bs: "bs = butlast bs @ [?b]" using assms by (simp add: dir_ok_def)
  then have ds: "dir_slots fs bs = dir_slots fs (butlast bs) @ slots_from ?b ?buf 0 (entries_per_block fs)"
    by (metis block_slots_from dir_slots_simps append_Nil2)
  have "\<exists>d\<in>set (slots_from ?b ?buf 0 (entries_per_block fs)). name0 (snd d) = 0"
    using assms by (simp add: dir_ok_def block_slots_from)
  from slots_from_split [OF this] obtain i where i: "i < entries_per_block fs"
    "name0 (dir_entry_at ?buf i) = 0"
    "live (slots_from ?b ?buf 0 (entries_per_block fs)) = slots_from ?b ?buf 0 i"
    "slots_from ?b ?buf 0 (entries_per_block fs) = slots_from ?b ?buf 0 i @ ((?b, i), dir_entry_at ?buf i) #
      slots_from ?b ?buf (Suc i) (entries_per_block fs - Suc i)" by auto
  have "live (dir_slots fs bs) = dir_slots fs (butlast bs) @ slots_from ?b ?buf 0 i"
    using assms i(3) unfolding ds live_append by (simp add: dir_ok_def)
  then show ?thesis using i unfolding ds by auto
qed

section \<open>The directory as a map\<close>

lemma dir_slots_block: "d \<in> set (dir_slots fs bs) \<Longrightarrow> fst (fst d) \<in> set bs"
  by (auto simp: dir_slots_def block_slots_def)

lemma live_prefix: "\<forall>d\<in>set ls. name0 (snd d) \<noteq> 0 \<Longrightarrow> name0 (snd x) = 0 \<Longrightarrow> live (ls @ x # rs) = ls"
  by (induction ls) auto

text \<open>The invariant from a decomposition of the slots at the end mark.\<close>

lemma dir_okI:
  assumes "bs \<noteq> []" "is_chain (fat fs) 1 bs" "in_region fs bs"
    and slots: "dir_slots fs bs = ls @ ((last bs, i), x) # rs" and "name0 x = 0"
    and "\<forall>d\<in>set ls. name0 (snd d) \<noteq> 0 \<and> slot_ok (snd d)" "names_unique ls"
  shows "dir_ok fs bs \<and> live (dir_slots fs bs) = ls"
proof -
  let ?b = "last bs"
  have live: "live (dir_slots fs bs) = ls" using assms live_prefix [of ls "((?b, i), x)"] by simp
  have bs: "bs = butlast bs @ [?b]" using assms by simp
  then have "distinct (butlast bs @ [?b])" using is_chain_distinct [OF assms(2)] by metis
  then have fresh: "?b \<notin> set (butlast bs)" by simp
  have eq: "dir_slots fs (butlast bs) @ block_slots fs ?b = ls @ ((?b, i), x) # rs"
    using slots bs by (metis dir_slots_simps append_Nil2)
  have "\<exists>us. ls = dir_slots fs (butlast bs) @ us \<and> block_slots fs ?b = us @ ((?b, i), x) # rs"
  proof -
    obtain us where "dir_slots fs (butlast bs) = ls @ us \<and> us @ block_slots fs ?b = ((?b, i), x) # rs \<or>
        dir_slots fs (butlast bs) @ us = ls \<and> block_slots fs ?b = us @ ((?b, i), x) # rs"
      using eq by (auto simp: append_eq_append_conv2)
    then show ?thesis
    proof
      assume a: "dir_slots fs (butlast bs) = ls @ us \<and> us @ block_slots fs ?b = ((?b, i), x) # rs"
      have "us = []"
      proof (rule ccontr)
        assume "us \<noteq> []"
        with a have "((?b, i), x) \<in> set (dir_slots fs (butlast bs))" by (cases us) auto
        from dir_slots_block [OF this] fresh show False by simp
      qed
      then show ?thesis using a by auto
    qed auto
  qed
  then obtain us where "ls = dir_slots fs (butlast bs) @ us" "block_slots fs ?b = us @ ((?b, i), x) # rs" by blast
  then show ?thesis using assms live unfolding dir_ok_def by auto
qed

lemma dir_ok_distinct: "dir_ok fs bs \<Longrightarrow> distinct bs \<and> distinct (map fst (dir_slots fs bs))"
  using is_chain_distinct distinct_dir_slots by (auto simp: dir_ok_def)

lemma names_unique_upd:
  assumes "names_unique ls" "distinct (map fst ls)" "(p, x) \<in> set ls"
    and "\<forall>d\<in>set ls. is_valid_filename (cname e) \<and> cname (snd d) = cname e \<longrightarrow> fst d = p"
  shows "names_unique (upd_slot p e ls)"
proof -
  have uniq: "d = (p, x)" if "d \<in> set ls" "fst d = p" for d
    using that assms(2,3) by (metis eq_key_imp_eq_value prod.collapse)
  show ?thesis
    unfolding names_unique_def set_upd_slot [OF assms(2,3)]
    using assms(1,4) uniq unfolding names_unique_def by (metis Diff_iff insert_iff singletonI snd_conv)
qed

lemma dir_ok_upd:
  assumes dev: "device_ok (h, fs)" and ok: "dir_ok fs bs"
    and x: "((b, i), x) \<in> set (live (dir_slots fs bs))"
    and e: "entry_ok e" "slot_ok e" "name0 e \<noteq> 0"
    and fresh: "\<forall>d\<in>set (live (dir_slots fs bs)).
      is_valid_filename (cname e) \<and> cname (snd d) = cname e \<longrightarrow> fst d = (b, i)"
  shows "dir_ok (put_entry b i e fs) bs \<and>
    live (dir_slots (put_entry b i e fs) bs) = upd_slot (b, i) e (live (dir_slots fs bs))"
proof -
  let ?ls = "live (dir_slots fs bs)"
  let ?fs = "put_entry b i e fs"
  have bi: "b \<in> set bs" "i < entries_per_block fs"
    using set_live_subset [OF x] fst_dir_slots [of fs bs] by (auto simp: image_iff set_eq_iff) force+
  then have b: "1 \<le> b" "b \<le> max_block fs" using ok by (auto simp: dir_ok_def in_region_def)
  obtain j y rs where j: "dir_slots fs bs = ?ls @ ((last bs, j), y) # rs" "name0 y = 0"
    using dir_ok_split [OF ok] by blast
  have dist: "distinct (map fst (?ls @ ((last bs, j), y) # rs))" using dir_ok_distinct [OF ok] j by metis
  then have "(last bs, j) \<notin> fst ` set ?ls" by simp
  then have "(b, i) \<noteq> (last bs, j)" using imageI [OF x, of fst] by (metis fst_conv)
  have "dir_slots ?fs bs = upd_slot (b, i) e (dir_slots fs bs)"
    using ok by (intro put_entry_dir_slots [OF dev b bi(2) e(1)]) (simp add: dir_ok_def)
  also have "\<dots> = upd_slot (b, i) e (?ls @ ((last bs, j), y) # rs)" using j(1) by (rule arg_cong)
  finally have ds: "dir_slots ?fs bs = upd_slot (b, i) e ?ls @ ((last bs, j), y) # upd_slot (b, i) e rs"
    using \<open>(b, i) \<noteq> (last bs, j)\<close> by auto
  have dl: "distinct (map fst ?ls)" using dist by simp
  have all: "\<forall>d\<in>set (upd_slot (b, i) e ?ls). name0 (snd d) \<noteq> 0 \<and> slot_ok (snd d)"
    using set_upd_slot [OF dl x, of e] e ok set_live_subset by (auto simp: dir_ok_def)
  have uniq: "names_unique (upd_slot (b, i) e ?ls)"
    using ok fresh by (intro names_unique_upd [OF _ dl x]) (auto simp: dir_ok_def)
  have "fat ?fs = fat fs" "in_region ?fs bs = in_region fs bs"
    by (simp_all add: put_entry_def Let_def)
  then show ?thesis
    using dir_okI [OF _ _ _ ds j(2) all uniq] ok by (auto simp: dir_ok_def)
qed

lemma option_eqI: "(\<And>d. a = Some d \<longleftrightarrow> b = Some d) \<Longrightarrow> a = b"
  by (cases a; cases b) auto

lemma dir_find_upd:
  assumes "dir_ok fs bs" "dir_ok fs' bs'" "is_valid_filename f"
    and "live (dir_slots fs' bs') = upd_slot p e (live (dir_slots fs bs))"
    and x: "(p, x) \<in> set (live (dir_slots fs bs))"
  shows "dir_find f (dir_slots fs' bs') =
    (if cname e = f then Some (p, e)
     else if cname x = f then None else dir_find f (dir_slots fs bs))"
proof (rule option_eqI)
  fix d
  have dl: "distinct (map fst (live (dir_slots fs bs)))"
    using dir_ok_distinct [OF assms(1)] live_distinct by blast
  have u: "names_unique (live (dir_slots fs bs))" "names_unique (live (dir_slots fs' bs'))"
    using assms(1,2) by (auto simp: dir_ok_def)
  have s: "set (live (dir_slots fs' bs')) = insert (p, e) (set (live (dir_slots fs bs)) - {(p, x)})"
    using set_upd_slot [OF dl x] assms(4) by simp
  have k: "d \<in> set (live (dir_slots fs' bs')) \<and> cname (snd d) = f \<longleftrightarrow>
      d = (p, e) \<and> cname e = f \<or> d \<in> set (live (dir_slots fs bs)) \<and> d \<noteq> (p, x) \<and> cname (snd d) = f"
    unfolding s by auto
  have only: "d' = (p, x)" if "d' \<in> set (live (dir_slots fs bs))" "cname (snd d') = f" "cname x = f" for d'
    using that u(1) x assms(3) unfolding names_unique_def by (metis snd_conv)
  have one: "d = (p, e)" if "d \<in> set (live (dir_slots fs' bs'))" "cname (snd d) = f" "cname e = f"
    using that u(2) assms(3) s unfolding names_unique_def by (metis insertI1 snd_conv)
  have fs': "dir_find f (dir_slots fs' bs') = Some d \<longleftrightarrow>
      d \<in> set (live (dir_slots fs' bs')) \<and> cname (snd d) = f"
    by (rule dir_find_Some_iff [OF u(2) assms(3)])
  have fs: "dir_find f (dir_slots fs bs) = Some d \<longleftrightarrow>
      d \<in> set (live (dir_slots fs bs)) \<and> cname (snd d) = f"
    by (rule dir_find_Some_iff [OF u(1) assms(3)])
  show "dir_find f (dir_slots fs' bs') = Some d \<longleftrightarrow>
    (if cname e = f then Some (p, e)
     else if cname x = f then None else dir_find f (dir_slots fs bs)) = Some d"
    using k only [of d] one fs fs' by (cases "cname e = f"; cases "cname x = f") (auto simp del: split_paired_All)
qed

lemma first_free_live:
  assumes "dir_ok fs bs" "find free_slot (dir_slots fs bs) = Some d"
  shows "d \<in> set (live (dir_slots fs bs)) \<or> name0 (snd d) = 0 \<and> fst (fst d) = last bs \<and>
    dir_slots fs bs = live (dir_slots fs bs) @ d #
      slots_from (last bs) (blocks fs (last bs)) (Suc (snd (fst d))) (entries_per_block fs - Suc (snd (fst d)))"
proof -
  let ?ls = "live (dir_slots fs bs)"
  obtain i x where i: "name0 x = 0" "dir_slots fs bs = ?ls @ ((last bs, i), x) #
      slots_from (last bs) (blocks fs (last bs)) (Suc i) (entries_per_block fs - Suc i)"
    using dir_ok_split [OF assms(1)] by blast
  have "find free_slot (?ls @ ((last bs, i), x) #
      slots_from (last bs) (blocks fs (last bs)) (Suc i) (entries_per_block fs - Suc i)) = Some d"
    using assms(2) i(2) by metis
  then have "find free_slot ?ls = Some d \<or> d = ((last bs, i), x)"
    using i(1) by (auto simp: find_append_option free_slot_def split: option.splits)
  then show ?thesis
    using i by (auto simp: find_Some_iff in_set_conv_nth)
qed

lemma names_unique_snoc:
  "names_unique ls \<Longrightarrow> \<forall>d\<in>set ls. cname (snd d) \<noteq> cname e \<Longrightarrow> names_unique (ls @ [(p, e)])"
  by (auto simp: names_unique_def)

lemma dir_find_snoc:
  assumes "live (dir_slots fs' bs') = live (dir_slots fs bs) @ [(p, e)]"
    and "dir_find (cname e) (dir_slots fs bs) = None"
  shows "dir_find f (dir_slots fs' bs') = (if f = cname e then Some (p, e) else dir_find f (dir_slots fs bs))"
  using assms by (auto simp: dir_find_def find_append_option split: option.splits)

lemma entry_ok_zero [simp]: "entry_ok zero_entry" "name0 zero_entry = 0"
  by (simp_all add: entry_ok_def zero_entry_def)

text \<open>The end mark moves to the next slot of its block.\<close>

lemma put_entry_frame [simp]:
  "fat (put_entry b i e fs) = fat fs"
  "in_region (put_entry b i e fs) bs = in_region fs bs"
  "max_block (put_entry b i e fs) = max_block fs"
  "entries_per_block (put_entry b i e fs) = entries_per_block fs"
  "global_fd_table (put_entry b i e fs) = global_fd_table fs"
  "c \<noteq> b \<Longrightarrow> blocks (put_entry b i e fs) c = blocks fs c"
  by (simp_all add: put_entry_def Let_def entries_per_block_def)

lemma append_entry_inner:
  assumes dev: "device_ok (h, fs)" and ok: "dir_ok fs bs" and i: "Suc i < entries_per_block fs"
    and slots: "dir_slots fs bs = live (dir_slots fs bs) @ ((last bs, i), x) #
      slots_from (last bs) (blocks fs (last bs)) (Suc i) (entries_per_block fs - Suc i)"
    and e: "entry_ok e" "slot_ok e" "name0 e \<noteq> 0"
    and fresh: "dir_find (cname e) (dir_slots fs bs) = None"
  defines "fs' \<equiv> put_entry (last bs) i e (put_entry (last bs) (Suc i) zero_entry fs)"
  shows "dir_ok fs' bs \<and> device_ok (h, fs') \<and>
    live (dir_slots fs' bs) = live (dir_slots fs bs) @ [((last bs, i), e)]"
proof -
  let ?b = "last bs"
  let ?ls = "live (dir_slots fs bs)"
  let ?y = "dir_entry_at (blocks fs ?b) (Suc i)"
  define rs where "rs = slots_from ?b (blocks fs ?b) (Suc (Suc i)) (entries_per_block fs - Suc (Suc i))"
  have b: "1 \<le> ?b" "?b \<le> max_block fs" "in_region fs bs"
    using ok last_in_set [of bs] by (auto simp: dir_ok_def in_region_def)
  have "entries_per_block fs - Suc i = Suc (entries_per_block fs - Suc (Suc i))" using i by simp
  then have ds: "dir_slots fs bs = ?ls @ ((?b, i), x) # ((?b, Suc i), ?y) # rs"
    using slots by (simp add: rs_def)
  have dist: "distinct (map fst (?ls @ ((?b, i), x) # ((?b, Suc i), ?y) # rs))"
    using dir_ok_distinct [OF ok] ds by metis
  let ?fs1 = "put_entry ?b (Suc i) zero_entry fs"
  have dev1: "device_ok (h, ?fs1)" by (rule put_entry_device [OF dev b(1,2) i entry_ok_zero(1)])
  have i1: "i < entries_per_block ?fs1" "?b \<le> max_block ?fs1" "in_region ?fs1 bs" using i b by simp_all
  have "dir_slots fs' bs = upd_slot (?b, i) e (upd_slot (?b, Suc i) zero_entry (dir_slots fs bs))"
    unfolding fs'_def put_entry_dir_slots [OF dev1 b(1) i1(2,1) e(1) i1(3)]
    by (simp add: put_entry_dir_slots [OF dev b(1,2) i entry_ok_zero(1) b(3)])
  also have "\<dots> = upd_slot (?b, i) e (upd_slot (?b, Suc i) zero_entry (?ls @ ((?b, i), x) # ((?b, Suc i), ?y) # rs))"
    using ds by (rule arg_cong)
  also have "\<dots> = (?ls @ [((?b, i), e)]) @ ((?b, Suc i), zero_entry) # rs"
    using dist by (simp add: upd_slot_notin)
  finally have ds': "dir_slots fs' bs = (?ls @ [((?b, i), e)]) @ ((?b, Suc i), zero_entry) # rs" .
  have all: "\<forall>d\<in>set (?ls @ [((?b, i), e)]). name0 (snd d) \<noteq> 0 \<and> slot_ok (snd d)"
    using ok e set_live_subset by (auto simp: dir_ok_def)
  have uniq: "names_unique (?ls @ [((?b, i), e)])"
    using ok fresh by (intro names_unique_snoc) (auto simp: dir_ok_def dir_find_None_iff)
  have "device_ok (h, fs')" unfolding fs'_def by (rule put_entry_device [OF dev1 b(1) i1(2,1) e(1)])
  moreover have "is_chain (fat fs') 1 bs" "in_region fs' bs" "bs \<noteq> []"
    using ok b by (auto simp: fs'_def dir_ok_def)
  ultimately show ?thesis using dir_okI [OF _ _ _ ds' entry_ok_zero(2) all uniq] by blast
qed

text \<open>The end mark was the last slot of the last block: the directory grows by a zeroed block.\<close>

lemma is_chain_snoc:
  assumes "is_chain f b (bs @ [l])" "n \<notin> set (bs @ [l])" "n \<noteq> FAT_END_OF_FILE"
  shows "is_chain (f(l := n, n := FAT_END_OF_FILE)) b (bs @ [l, n])"
  using assms
proof (induction bs arbitrary: b)
  case Nil
  then show ?case by auto
next
  case (Cons c cs)
  then have "c \<noteq> l" using is_chain_distinct [OF Cons.prems(1)] by auto
  then show ?case using Cons by auto
qed

lemma dir_entry_at_zeros: "64 * i + 64 \<le> n \<Longrightarrow> dir_entry_at (replicate n 0) i = zero_entry"
  by (simp add: dir_entry_at_def chunk_def decode_entry_def zero_entry_def min_def)

lemma first_empty_from_buf: "first_empty_from (fs\<lparr>block_buf := buf\<rparr>) n i = first_empty_from fs n i"
  by (induction fs n i rule: first_empty_from.induct)
    (subst (1 2) first_empty_from.simps, simp add: fat_get_def)

lemma chain_nonzero: "is_chain f b bs \<Longrightarrow> \<forall>x\<in>set bs. 1 \<le> x \<Longrightarrow> c \<in> set bs \<Longrightarrow> f c \<noteq> 0"
proof (induction bs arbitrary: b)
  case Nil
  then show ?case by simp
next
  case (Cons x xs)
  then show ?case by (cases xs) auto
qed

lemma first_empty_block_free:
  assumes "geometry_ok fs" "first_empty_block fs = Some nb" "nb \<noteq> 0"
  shows "1 \<le> nb" "nb \<le> max_block fs" "nb < 65535" "fat fs nb = 0"
  using first_empty_from_Some [OF assms(2) [unfolded first_empty_block_def] assms(3)]
  by (auto simp: max_block_def n_fat_entries_def split: if_splits)

lemma first_empty_block_exists:
  assumes "geometry_ok fs" "\<exists>k. 1 \<le> k \<and> k \<le> max_block fs \<and> k < 65535 \<and> fat fs k = 0"
  shows "\<exists>nb. first_empty_block fs = Some nb \<and> nb \<noteq> 0"
proof -
  let ?P = "\<lambda>k. 1 \<le> k \<and> k \<le> max_block fs \<and> k < 65535 \<and> fat fs k = 0"
  define m where "m = (LEAST k. ?P k)"
  have m: "?P m" using assms(2) unfolding m_def by (rule LeastI_ex)
  have "fat fs j \<noteq> 0" if "1 \<le> j" "j < m" for j
    using that m not_less_Least [of j ?P] unfolding m_def by fastforce
  then have "first_empty_from fs (n_fat_entries fs) 1 = Some m"
    using m geometry_bounds [OF assms(1)]
    by (intro first_empty_from_least) (auto simp: n_fat_entries_def max_block_def)
  then show ?thesis using m by (auto simp: first_empty_block_def)
qed

definition grown :: "nat \<Rightarrow> nat \<Rightarrow> fatfs \<Rightarrow> fatfs" where
  "grown l nb fs = fs\<lparr>block_buf := replicate (block_size fs) 0,
     blocks := (blocks fs)(nb := replicate (block_size fs) 0),
     fat := (fat fs)(l := nb, nb := FAT_END_OF_FILE)\<rparr>"

lemma grown_frame [simp]:
  "max_block (grown l nb fs) = max_block fs"
  "in_region (grown l nb fs) bs = in_region fs bs"
  "entries_per_block (grown l nb fs) = entries_per_block fs"
  "global_fd_table (grown l nb fs) = global_fd_table fs"
  "block_size (grown l nb fs) = block_size fs"
  by (simp_all add: grown_def max_block_def in_region_def entries_per_block_def)

lemma grown_device: "device_ok (h, fs) \<Longrightarrow> device_ok (h, grown l nb fs)"
  by (simp add: grown_def device_ok_def blocks_complete_def max_block_def)

lemma extend_root_dir_ok:
  assumes "device_ok (h, fs)" "l \<le> max_block fs" "first_empty_block fs = Some nb" "nb \<noteq> 0"
  shows "extend_root_dir h l fs = Some (0, grown l nb fs)"
proof -
  let ?z = "replicate (block_size fs) (0 :: byte)"
  have geo: "geometry_ok fs" using assms(1) by (simp add: device_ok_def)
  note nb = first_empty_block_free [OF geo assms(3,4)]
  have "device_ok (h, fs\<lparr>block_buf := ?z\<rparr>)" using assms(1) by simp
  then have "write_block h nb ?z (fs\<lparr>block_buf := ?z\<rparr>) =
      (0, fs\<lparr>block_buf := ?z, blocks := (blocks fs)(nb := ?z)\<rparr>)"
    using nb by (subst write_block_ok) (auto simp: device_ok_def)
  moreover have "l < fat_size fs div 2" "nb < fat_size fs div 2"
    using assms(2) nb geometry_bounds [OF geo] by simp_all
  ultimately show ?thesis
    using assms(3,4) by (simp add: extend_root_dir_def fat_set_def grown_def del: fun_upd_apply)
qed

lemma append_entry_extend:
  assumes dev: "device_ok (h, fs)" and ok: "dir_ok fs bs" and i: "Suc i = entries_per_block fs"
    and slots: "dir_slots fs bs = live (dir_slots fs bs) @ [((last bs, i), x)]"
    and e: "entry_ok e" "slot_ok e" "name0 e \<noteq> 0"
    and fresh: "dir_find (cname e) (dir_slots fs bs) = None"
    and nb: "1 \<le> nb" "nb \<le> max_block fs" "nb < 65535" "fat fs nb = 0"
  defines "fs' \<equiv> put_entry (last bs) i e (grown (last bs) nb fs)"
  shows "dir_ok fs' (bs @ [nb]) \<and> device_ok (h, fs') \<and>
    live (dir_slots fs' (bs @ [nb])) = live (dir_slots fs bs) @ [((last bs, i), e)]"
proof -
  let ?b = "last bs"
  let ?ls = "live (dir_slots fs bs)"
  let ?g = "grown ?b nb fs"
  let ?rest = "slots_from nb (replicate (block_size fs) 0) 1 (entries_per_block fs - 1)"
  have bs: "bs \<noteq> []" "is_chain (fat fs) 1 bs" "in_region fs bs" using ok by (auto simp: dir_ok_def)
  have b: "1 \<le> ?b" "?b \<le> max_block fs" using bs last_in_set [of bs] by (auto simp: in_region_def)
  have nbs: "nb \<notin> set bs" using chain_nonzero [OF bs(2), of nb] bs(3) nb(4) by (auto simp: in_region_def)
  have devg: "device_ok (h, ?g)" by (rule grown_device [OF dev])
  have ig: "i < entries_per_block ?g" "?b \<le> max_block ?g" "in_region ?g (bs @ [nb])"
    using i b bs nb by simp_all
  have old: "dir_slots ?g bs = dir_slots fs bs"
    using nbs by (intro dir_slots_cong) (auto simp: block_slots_def grown_def entries_per_block_def)
  have "64 * 0 + 64 \<le> block_size fs" using dev geometry_bounds(1) [of fs] by (simp add: device_ok_def)
  then have z: "dir_entry_at (replicate (block_size fs) 0) 0 = zero_entry" by (rule dir_entry_at_zeros)
  have new: "block_slots ?g nb = ((nb, 0), zero_entry) # ?rest"
    by (simp only: block_slots_from grown_frame i [symmetric])
      (simp add: z grown_def)
  have "dir_slots fs' (bs @ [nb]) = upd_slot (?b, i) e (dir_slots ?g (bs @ [nb]))"
    unfolding fs'_def by (rule put_entry_dir_slots [OF devg b(1) ig(2,1) e(1) ig(3)])
  also have "dir_slots ?g (bs @ [nb]) = ?ls @ ((?b, i), x) # ((nb, 0), zero_entry) # ?rest"
    using old new slots by simp
  finally have eq: "dir_slots fs' (bs @ [nb]) =
      upd_slot (?b, i) e (?ls @ ((?b, i), x) # ((nb, 0), zero_entry) # ?rest)" .
  have "distinct (map fst (?ls @ [((?b, i), x)]))" using dir_ok_distinct [OF ok] slots by metis
  then have "(?b, i) \<notin> fst ` set ?ls" by simp
  moreover have "nb \<noteq> ?b" using nbs bs(1) last_in_set by metis
  moreover from this have "(?b, i) \<notin> fst ` set ?rest" by (auto simp: slots_from_def)
  ultimately have ds': "dir_slots fs' (bs @ [nb]) =
      (?ls @ [((?b, i), e)]) @ ((last (bs @ [nb]), 0), zero_entry) # ?rest"
    unfolding eq by (auto simp: upd_slot_notin)
  have all: "\<forall>d\<in>set (?ls @ [((?b, i), e)]). name0 (snd d) \<noteq> 0 \<and> slot_ok (snd d)"
    using ok e set_live_subset by (auto simp: dir_ok_def)
  have uniq: "names_unique (?ls @ [((?b, i), e)])"
    using ok fresh by (intro names_unique_snoc) (auto simp: dir_ok_def dir_find_None_iff)
  have "is_chain (fat fs') 1 (butlast bs @ [?b, nb])"
    unfolding fs'_def put_entry_frame grown_def using bs nbs nb(3)
    by (simp del: fun_upd_apply) (intro is_chain_snoc, auto)
  then have "is_chain (fat fs') 1 (bs @ [nb])" using bs(1) by (metis append.assoc append_butlast_last_id append_Cons append_Nil)
  moreover have "in_region fs' (bs @ [nb])" using ig by (simp add: fs'_def)
  moreover have "device_ok (h, fs')" unfolding fs'_def by (rule put_entry_device [OF devg b(1) ig(2,1) e(1)])
  ultimately show ?thesis using dir_okI [OF _ _ _ ds' entry_ok_zero(2) all uniq] by blast
qed

text \<open>What a new entry leaves alone: all of the FAT but the link of a new directory block.\<close>

definition dir_grows :: "fatfs \<Rightarrow> nat list \<Rightarrow> fatfs \<Rightarrow> nat list \<Rightarrow> bool" where
  "dir_grows fs bs fs' bs' \<longleftrightarrow>
     (bs' = bs \<and> fat fs' = fat fs \<or>
      (\<exists>nb. fat fs nb = 0 \<and> bs' = bs @ [nb] \<and>
            fat fs' = (fat fs)(last bs := nb, nb := FAT_END_OF_FILE))) \<and>
     (\<forall>c. c \<notin> set bs' \<longrightarrow> blocks fs' c = blocks fs c) \<and>
     global_fd_table fs' = global_fd_table fs \<and> max_block fs' = max_block fs \<and> block_size fs' = block_size fs"

text \<open>The free slot that the search returns, and the state it leaves.\<close>

lemma free_spot:
  assumes dev: "device_ok (h, fs)" and ok: "dir_ok fs bs"
  obtains b i x where "find free_slot (dir_slots fs bs) = Some ((b, i), x)"
    "find_empty_spot_in_root_dir h fs = Some (spot ((b, i), x), fs\<lparr>block_buf := blocks fs b\<rparr>)"
    "free_slot ((b, i), x)" "1 \<le> b" "b \<le> max_block fs" "i < entries_per_block fs" "b \<in> set bs"
    "device_ok (h, fs\<lparr>block_buf := blocks fs b\<rparr>)" "dir_ok (fs\<lparr>block_buf := blocks fs b\<rparr>) bs"
proof -
  obtain d where d: "find free_slot (dir_slots fs bs) = Some d"
    "find_empty_spot_in_root_dir h fs = Some (spot d, fs\<lparr>block_buf := blocks fs (fst (fst d))\<rparr>)"
    using find_spot_spec [OF dev ok] by blast
  obtain b i x where dd: "d = ((b, i), x)" by (metis surj_pair)
  note mem = find_SomeD [OF d(1), unfolded dd]
  then have bi: "b \<in> set bs" "i < entries_per_block fs"
    using fst_dir_slots [of fs bs] by (metis SigmaD1 SigmaD2 atLeastLessThan_iff fst_conv imageI)+
  then have b: "1 \<le> b" "b \<le> max_block fs" using ok by (auto simp: dir_ok_def in_region_def)
  show thesis
    by (rule that [of b i x]) (use d mem bi b device_ok_buf [OF dev b] ok in \<open>auto simp: dd dir_ok_def\<close>)
qed

text \<open>The new entry has been written to slot \<open>p\<close> and the map is extended by it.\<close>

definition entry_added ::
  "host \<Rightarrow> directory_entry \<Rightarrow> fatfs \<Rightarrow> nat list \<Rightarrow> nat \<times> nat \<Rightarrow> fatfs \<Rightarrow> nat list \<Rightarrow> bool" where
  "entry_added h e fs bs p fs' bs' \<longleftrightarrow>
     write_new_root_dir_entry h e fs = Some ((0, p), fs') \<and>
     device_ok (h, fs') \<and> dir_ok fs' bs' \<and> dir_grows fs bs fs' bs' \<and>
     (\<forall>f. is_valid_filename f \<longrightarrow> dir_find f (dir_slots fs' bs') =
       (if f = cname e then Some (p, e) else dir_find f (dir_slots fs bs)))"

lemma write_new_deleted:
  assumes dev: "device_ok (h, fs)" and ok: "dir_ok fs bs"
    and e: "entry_ok e" "slot_ok e" "is_valid_filename (cname e)"
    and fresh: "dir_find (cname e) (dir_slots fs bs) = None"
    and b: "find_empty_spot_in_root_dir h fs = Some (spot ((b, i), x), fs\<lparr>block_buf := blocks fs b\<rparr>)"
      "free_slot ((b, i), x)" "1 \<le> b" "b \<le> max_block fs" "i < entries_per_block fs" "b \<in> set bs"
    and x: "((b, i), x) \<in> set (live (dir_slots fs bs))"
  shows "entry_added h e fs bs (b, i) (put_entry b i e (fs\<lparr>block_buf := blocks fs b\<rparr>)) bs"
proof -
  let ?fs = "fs\<lparr>block_buf := blocks fs b\<rparr>"
  let ?fs' = "put_entry b i e ?fs"
  have dev': "device_ok (h, ?fs)" by (rule device_ok_buf [OF dev b(3,4)])
  have ok': "dir_ok ?fs bs" using ok by (simp add: dir_ok_def)
  have x0: "name0 x \<noteq> 0" using set_live_subset [OF x] by simp
  have fresh': "\<forall>d\<in>set (live (dir_slots ?fs bs)).
      is_valid_filename (cname e) \<and> cname (snd d) = cname e \<longrightarrow> fst d = (b, i)"
    using fresh by (simp add: dir_find_None_iff)
  have new: "dir_ok ?fs' bs" "live (dir_slots ?fs' bs) = upd_slot (b, i) e (live (dir_slots ?fs bs))"
    using dir_ok_upd [OF dev' ok' _ e(1,2) _ fresh'] x cname_valid_not_deleted [OF e(3)] by simp_all
  have "cname x \<noteq> f" if "is_valid_filename f" for f
    using that b(2) x0 cname_valid_not_deleted [of x] by (auto simp: free_slot_def)
  then have finds: "\<forall>f. is_valid_filename f \<longrightarrow> dir_find f (dir_slots ?fs' bs) =
      (if f = cname e then Some ((b, i), e) else dir_find f (dir_slots fs bs))"
    using dir_find_upd [OF ok' new(1) _ new(2)] x by auto
  have "write_root_dir_entry h e b i ?fs = Some (0, ?fs')"
    using dev' b(3-5) e(1) by (intro write_root_dir_entry_ok) simp_all
  then have "write_new_root_dir_entry h e fs = Some ((0, (b, i)), ?fs')"
    using b(1) x0 by (simp add: write_new_root_dir_entry_def prepare_spot_def)
  moreover have "device_ok (h, ?fs')"
    using dev' b(3-5) e(1) by (intro put_entry_device) simp_all
  moreover have "dir_grows fs bs ?fs' bs" using b(6) by (auto simp: dir_grows_def put_entry_def Let_def)
  ultimately show ?thesis using new(1) finds by (simp add: entry_added_def)
qed

lemma write_new_end:
  assumes dev: "device_ok (h, fs)" and ok: "dir_ok fs bs"
    and e: "entry_ok e" "slot_ok e" "is_valid_filename (cname e)"
    and fresh: "dir_find (cname e) (dir_slots fs bs) = None"
    and b: "find_empty_spot_in_root_dir h fs = Some (spot ((b, i), x), fs\<lparr>block_buf := blocks fs b\<rparr>)"
      "1 \<le> b" "b \<le> max_block fs" "i < entries_per_block fs" "b = last bs" "name0 x = 0"
    and slots: "dir_slots fs bs = live (dir_slots fs bs) @ ((b, i), x) #
      slots_from b (blocks fs b) (Suc i) (entries_per_block fs - Suc i)"
    and nb: "first_empty_block fs = Some nb" "nb \<noteq> 0"
  shows "\<exists>fs' bs'. entry_added h e fs bs (b, i) fs' bs'"
proof -
  let ?fs = "fs\<lparr>block_buf := blocks fs b\<rparr>"
  have dev': "device_ok (h, ?fs)" by (rule device_ok_buf [OF dev b(2,3)])
  have ok': "dir_ok ?fs bs" using ok by (simp add: dir_ok_def)
  have e0: "name0 e \<noteq> 0" using cname_valid_not_deleted [OF e(3)] by simp
  have bs: "b \<in> set bs" using ok b(5) by (simp add: dir_ok_def)
  have last: "int i = int (block_size fs div 64) - 1 \<longleftrightarrow> Suc i = entries_per_block fs"
    by (auto simp: entries_per_block_def)
  have geo: "geometry_ok ?fs" using dev' by (simp add: device_ok_def)
  have added: "entry_added h e fs bs (b, i) fs' bs'"
    if fs': "fs' = put_entry b i e fs1" and fs1: "prepare_spot h 1 b i ?fs = Some (0, fs1)"
      "device_ok (h, fs1)" "max_block fs1 = max_block fs" "entries_per_block fs1 = entries_per_block fs"
      and new: "dir_ok fs' bs' \<and> device_ok (h, fs') \<and>
        live (dir_slots fs' bs') = live (dir_slots fs bs) @ [((b, i), e)]"
      and grows: "dir_grows fs bs fs' bs'" for fs1 fs' bs'
  proof -
    have "write_root_dir_entry h e b i fs1 = Some (0, fs')"
      unfolding fs' using fs1 b e(1) by (intro write_root_dir_entry_ok) simp_all
    then have "write_new_root_dir_entry h e fs = Some ((0, (b, i)), fs')"
      using b(1,6) fs1(1) by (simp add: write_new_root_dir_entry_def)
    then show ?thesis using new grows dir_find_snoc [OF _ fresh] by (auto simp: entry_added_def)
  qed
  show ?thesis
  proof (cases "Suc i = entries_per_block fs")
    case False
    let ?fs1 = "put_entry b (Suc i) zero_entry ?fs"
    have i: "Suc i < entries_per_block ?fs" using False b(4) by simp
    have "u8 (i + 1) = Suc i" using i entries_per_block_bounds(2) [OF geo] by simp
    then have "prepare_spot h 1 b i ?fs = Some (0, ?fs1)"
      using False last write_root_dir_entry_ok [OF dev' b(2) _ i entry_ok_zero(1)] b(3)
      by (simp add: prepare_spot_def Let_def)
    moreover have "device_ok (h, ?fs1)" using dev' b i by (intro put_entry_device) simp_all
    moreover have "dir_ok (put_entry b i e ?fs1) bs \<and> device_ok (h, put_entry b i e ?fs1) \<and>
        live (dir_slots (put_entry b i e ?fs1) bs) = live (dir_slots ?fs bs) @ [((b, i), e)]"
      using append_entry_inner [OF dev' ok' i _ e(1,2) e0] slots fresh b(5) by simp
    moreover have "dir_grows fs bs (put_entry b i e ?fs1) bs" using bs by (auto simp: dir_grows_def put_entry_def Let_def)
    ultimately show ?thesis using added [OF refl] by fastforce
  next
    case True
    let ?fs1 = "grown b nb ?fs"
    have "n_fat_entries ?fs = n_fat_entries fs" by (simp add: n_fat_entries_def)
    then have fe: "first_empty_block ?fs = Some nb"
      using nb(1) by (simp add: first_empty_block_def first_empty_from_buf)
    note free = first_empty_block_free [OF geo fe nb(2)]
    have "prepare_spot h 1 b i ?fs = Some (0, ?fs1)"
      using True last extend_root_dir_ok [OF dev' _ fe nb(2)] b(3) by (simp add: prepare_spot_def)
    moreover have "device_ok (h, ?fs1)" by (rule grown_device [OF dev'])
    moreover have "dir_ok (put_entry b i e ?fs1) (bs @ [nb]) \<and> device_ok (h, put_entry b i e ?fs1) \<and>
        live (dir_slots (put_entry b i e ?fs1) (bs @ [nb])) = live (dir_slots ?fs bs) @ [((b, i), e)]"
      using append_entry_extend [OF dev' ok' _ _ e(1,2) e0 _ free] True slots fresh b(5) by simp
    moreover have "dir_grows fs bs (put_entry b i e ?fs1) (bs @ [nb])"
      using bs free b(5) by (auto simp: dir_grows_def grown_def put_entry_def Let_def max_block_def)
    ultimately show ?thesis using added [OF refl] by fastforce
  qed
qed

section \<open>Properties\<close>

text \<open>
  C33: searching the root directory. On a working host and a well-formed directory,
  \<open>find_file_in_root_dir\<close> terminates for every valid file name; it returns the entry, its block
  and its index when some slot before the end mark has that name, and the code for \<open>not found\<close>
  otherwise. It changes nothing but the scratch buffer.
\<close>

theorem find_file_in_root_dir_correct:
  assumes "device_ok (h, fs)" and "dir_ok fs bs" and "is_valid_filename f"
  shows "\<exists>c. find_file_in_root_dir h f fs = Some
      (case dir_find f (dir_slots fs bs) of
         None \<Rightarrow> (RFIND_FILE_IN_ROOT_DIR_FILE_NOT_FOUND, None)
       | Some ((b, i), e) \<Rightarrow> (RFIND_FILE_IN_ROOT_DIR_FILE_FOUND, Some (e, b, i)),
       fs\<lparr>block_buf := blocks fs c\<rparr>)"
proof -
  obtain c where c: "find_file_in_root_dir h f fs =
      Some (found (dir_find f (dir_slots fs bs)), fs\<lparr>block_buf := blocks fs c\<rparr>)"
    using find_file_spec [OF assms(1,2) valid_filename_nonzero [OF assms(3)]] by blast
  show ?thesis
  proof (cases "dir_find f (dir_slots fs bs)")
    case None
    with c show ?thesis by auto
  next
    case (Some d)
    obtain b i e where "d = ((b, i), e)" by (metis surj_pair)
    with c Some found_valid [OF assms(3)] show ?thesis by auto
  qed
qed

text \<open>A working host, the empty directory, and an entry for a file named \<open>a\<close>.\<close>

definition host_example :: host where
  "host_example = \<lparr>h_malloc = True, h_time = Some 7, h_lseek = (\<lambda>_. True), h_read = (\<lambda>_. True),
     h_write = (\<lambda>_. Some 4096), h_terminal_in = (\<lambda>_. None), h_terminal_out = (\<lambda>_. Some 4096)\<rparr>"

definition entry_example :: directory_entry where
  "entry_example = zero_entry\<lparr>de_name := 97 # replicate 31 0, de_type := 1, de_perm := 6, de_mtime := 7\<rparr>"

lemma device_example: "device_ok (host_example, fs_example)"
  by (simp add: device_ok_def) (simp add: host_ok_def host_example_def)

lemma slots_example: "dir_slots fs_example [1] = map (\<lambda>i. ((1, i), zero_entry)) [0..<4]"
proof -
  have "dir_entry_at (replicate 256 0) i = zero_entry" if "i < 4" for i
    using that by (intro dir_entry_at_zeros) simp
  then show ?thesis by (simp add: block_slots_def entries_per_block_def fs_example_def)
qed

lemma dir_example: "dir_ok fs_example [1]"
proof -
  have ds: "dir_slots fs_example [1] = [] @ ((last [1], 0), zero_entry) # map (\<lambda>i. ((1, i), zero_entry)) [1..<4]"
    unfolding slots_example by (simp add: upt_rec)
  have "is_chain (fat fs_example) 1 [1]" by (simp add: fs_example_def)
  moreover have "in_region fs_example [1]" by simp
  ultimately show ?thesis
    using dir_okI [OF _ _ _ ds entry_ok_zero(2)] by (simp add: names_unique_def)
qed

theorem find_file_in_root_dir_correct_witness:
  "\<exists>c. find_file_in_root_dir host_example [97] fs_example = Some
     ((RFIND_FILE_IN_ROOT_DIR_FILE_NOT_FOUND, None), fs_example\<lparr>block_buf := blocks fs_example c\<rparr>)"
proof -
  have "is_valid_filename [97]" by (simp add: valid_filename_iff filename_char_def)
  moreover have "dir_find [97] (dir_slots fs_example [1]) = None"
    unfolding slots_example by (simp add: upt_rec)
  ultimately show ?thesis
    using find_file_in_root_dir_correct [OF device_example dir_example, of "[97]"] by simp
qed

text \<open>
  C34: creating a directory entry. With a free block left, \<open>write_new_root_dir_entry\<close> succeeds
  for a name that is not in the directory, whether it reuses a deleted slot, moves the end mark
  within its block, or appends a block to the directory. Afterwards the directory is
  well-formed again and holds the old names with their entries and slots, and the new one; the
  FAT changes only by the new directory block, and no block outside the directory is touched.
\<close>

theorem write_new_root_dir_entry_correct:
  assumes dev: "device_ok (h, fs)" and ok: "dir_ok fs bs"
    and e: "entry_ok e" and "terminated e" and "is_valid_filename (cname e)"
    and fresh: "dir_find (cname e) (dir_slots fs bs) = None"
    and room: "\<exists>k. 1 \<le> k \<and> k \<le> max_block fs \<and> k < 65535 \<and> fat fs k = 0"
  shows "\<exists>p fs' bs'. write_new_root_dir_entry h e fs = Some ((0, p), fs') \<and>
    device_ok (h, fs') \<and> dir_ok fs' bs' \<and> dir_grows fs bs fs' bs' \<and>
    (\<forall>f. is_valid_filename f \<longrightarrow> dir_find f (dir_slots fs' bs') =
       (if f = cname e then Some (p, e) else dir_find f (dir_slots fs bs)))"
proof -
  have e': "slot_ok e" using assms(4,5) by (simp add: slot_ok_def)
  obtain nb where nb: "first_empty_block fs = Some nb" "nb \<noteq> 0"
    using first_empty_block_exists [OF _ room] dev by (auto simp: device_ok_def)
  obtain b i x where b: "find free_slot (dir_slots fs bs) = Some ((b, i), x)"
    "find_empty_spot_in_root_dir h fs = Some (spot ((b, i), x), fs\<lparr>block_buf := blocks fs b\<rparr>)"
    "free_slot ((b, i), x)" "1 \<le> b" "b \<le> max_block fs" "i < entries_per_block fs" "b \<in> set bs"
    using free_spot [OF dev ok] by metis
  have "\<exists>fs' bs'. entry_added h e fs bs (b, i) fs' bs'"
  proof (cases "((b, i), x) \<in> set (live (dir_slots fs bs))")
    case True
    from write_new_deleted [OF dev ok e e' assms(5) fresh b(2-7) this] show ?thesis by blast
  next
    case False
    with first_free_live [OF ok b(1)] have x: "name0 x = 0" "b = last bs"
      "dir_slots fs bs = live (dir_slots fs bs) @ ((b, i), x) #
        slots_from b (blocks fs b) (Suc i) (entries_per_block fs - Suc i)" by auto
    show ?thesis by (rule write_new_end [OF dev ok e e' assms(5) fresh b(2,4-6) x(2,1,3) nb])
  qed
  then show ?thesis unfolding entry_added_def by blast
qed

theorem write_new_root_dir_entry_correct_witness:
  "\<exists>p fs' bs'. write_new_root_dir_entry host_example entry_example fs_example = Some ((0, p), fs') \<and>
     dir_ok fs' bs' \<and> dir_find [97] (dir_slots fs' bs') = Some (p, entry_example)"
proof -
  have name: "cname entry_example = [97]" by (simp add: entry_example_def cname_def takeWhile_replicate)
  have e: "entry_ok entry_example" "terminated entry_example"
    by (simp_all add: entry_example_def entry_ok_def zero_entry_def terminated_def)
  have valid: "is_valid_filename (cname entry_example)"
    unfolding name by (simp add: valid_filename_iff filename_char_def)
  have fresh: "dir_find (cname entry_example) (dir_slots fs_example [1]) = None"
    unfolding name slots_example by (simp add: upt_rec)
  have "\<exists>k. 1 \<le> k \<and> k \<le> max_block fs_example \<and> k < 65535 \<and> fat fs_example k = 0"
    by (intro exI [of _ 2]) (simp, simp add: fs_example_def)
  from write_new_root_dir_entry_correct [OF device_example dir_example e valid fresh this] valid
  show ?thesis unfolding name by metis
qed

end
