(* ===== verification/Error_Codes.thy ===== *)
theory Error_Codes
  imports Prelude
begin

text \<open>
  The error codes shared by kernel and shell (\<^verbatim>\<open>src/src/utils/error_codes.h\<close>) and the message
  table of \<^verbatim>\<open>src/src/utils/errno.c\<close>. A code is an abbreviation for its value, so that the
  component theories compute with it; \<open>error_codes\<close> lists all of them. The switch of
  \<open>u_strerror\<close> is the association list \<open>strerror_table\<close>, its default branch the
  \<^term>\<open>None\<close> case of the lookup.
\<close>

section \<open>The codes\<close>

abbreviation E_NO_INIT_PROCESS :: int where
  "E_NO_INIT_PROCESS \<equiv> -1"

abbreviation E_INIT_ALREADY_EXISTS :: int where
  "E_INIT_ALREADY_EXISTS \<equiv> -2"

abbreviation E_FAILED_TO_ALLOCATE :: int where
  "E_FAILED_TO_ALLOCATE \<equiv> -3"

abbreviation E_BAD_ARGV :: int where
  "E_BAD_ARGV \<equiv> -4"

abbreviation E_STR_FORMAT_FAILED :: int where
  "E_STR_FORMAT_FAILED \<equiv> -5"

abbreviation E_STR_TOO_LONG_FOR_FPRINTF_BUF :: int where
  "E_STR_TOO_LONG_FOR_FPRINTF_BUF \<equiv> -6"

abbreviation E_INVALID_PCB :: int where
  "E_INVALID_PCB \<equiv> -7"

abbreviation E_INVALID_SCHEDULER_STATE :: int where
  "E_INVALID_SCHEDULER_STATE \<equiv> -8"

abbreviation E_NO_SUCH_PROCESS :: int where
  "E_NO_SUCH_PROCESS \<equiv> -9"

abbreviation E_INVALID_ARGUMENT :: int where
  "E_INVALID_ARGUMENT \<equiv> -10"

abbreviation E_TRIED_TO_KILL_INIT :: int where
  "E_TRIED_TO_KILL_INIT \<equiv> -11"

abbreviation E_TCSET_NO_TERMINAL_CONTROL :: int where
  "E_TCSET_NO_TERMINAL_CONTROL \<equiv> -12"

abbreviation E_CONTINUE_NON_STOPPED_PROCESS :: int where
  "E_CONTINUE_NON_STOPPED_PROCESS \<equiv> -13"

abbreviation E_STOP_STOPPED_PROCESS :: int where
  "E_STOP_STOPPED_PROCESS \<equiv> -14"

abbreviation E_STOP_NON_ACTIVE_QUEUE_PROCESS :: int where
  "E_STOP_NON_ACTIVE_QUEUE_PROCESS \<equiv> -15"

abbreviation E_PID_NOT_FOUND :: int where
  "E_PID_NOT_FOUND \<equiv> -16"

abbreviation E_NO_CURRENT_PROCESS :: int where
  "E_NO_CURRENT_PROCESS \<equiv> -17"

abbreviation E_RUNNING_PROCESS_NOT_IN_READY_QUEUE :: int where
  "E_RUNNING_PROCESS_NOT_IN_READY_QUEUE \<equiv> -18"

abbreviation EK_OPEN_INVALID_FILENAME :: int where
  "EK_OPEN_INVALID_FILENAME \<equiv> -19"

abbreviation EK_OPEN_FIND_FILE_IN_ROOT_DIR_FAILED :: int where
  "EK_OPEN_FIND_FILE_IN_ROOT_DIR_FAILED \<equiv> -20"

abbreviation EK_OPEN_GLOBAL_FD_TABLE_FULL :: int where
  "EK_OPEN_GLOBAL_FD_TABLE_FULL \<equiv> -21"

abbreviation EK_OPEN_FILE_DOES_NOT_EXIST :: int where
  "EK_OPEN_FILE_DOES_NOT_EXIST \<equiv> -22"

abbreviation EK_OPEN_MALLOC_FAILED :: int where
  "EK_OPEN_MALLOC_FAILED \<equiv> -23"

abbreviation EK_OPEN_TIME_FAILED :: int where
  "EK_OPEN_TIME_FAILED \<equiv> -24"

abbreviation EK_OPEN_ALREADY_WRITE_LOCKED :: int where
  "EK_OPEN_ALREADY_WRITE_LOCKED \<equiv> -25"

abbreviation EK_OPEN_WRITE_NEW_ROOT_DIR_ENTRY_FAILED :: int where
  "EK_OPEN_WRITE_NEW_ROOT_DIR_ENTRY_FAILED \<equiv> -26"

abbreviation EK_OPEN_NO_EMPTY_BLOCKS :: int where
  "EK_OPEN_NO_EMPTY_BLOCKS \<equiv> -27"

abbreviation EK_OPEN_WRONG_PERMISSIONS :: int where
  "EK_OPEN_WRONG_PERMISSIONS \<equiv> -28"

abbreviation EK_OPEN_WRITE_ROOT_DIR_ENTRY_FAILED :: int where
  "EK_OPEN_WRITE_ROOT_DIR_ENTRY_FAILED \<equiv> -29"

abbreviation EK_CLOSE_FD_OUT_OF_RANGE :: int where
  "EK_CLOSE_FD_OUT_OF_RANGE \<equiv> -30"

abbreviation EK_CLOSE_SPECIAL_FD :: int where
  "EK_CLOSE_SPECIAL_FD \<equiv> -31"

abbreviation EK_CLOSE_WRITE_ROOT_DIR_ENTRY_FAILED :: int where
  "EK_CLOSE_WRITE_ROOT_DIR_ENTRY_FAILED \<equiv> -32"

abbreviation EK_READ_FD_OUT_OF_RANGE :: int where
  "EK_READ_FD_OUT_OF_RANGE \<equiv> -33"

abbreviation EK_READ_FD_NOT_IN_TABLE :: int where
  "EK_READ_FD_NOT_IN_TABLE \<equiv> -34"

abbreviation EK_READ_COULD_NOT_JUMP_TO_BLOCK_FOR_OFFSET :: int where
  "EK_READ_COULD_NOT_JUMP_TO_BLOCK_FOR_OFFSET \<equiv> -35"

abbreviation EK_READ_WRONG_PERMISSIONS :: int where
  "EK_READ_WRONG_PERMISSIONS \<equiv> -36"

abbreviation EK_READ_READ_FAILED :: int where
  "EK_READ_READ_FAILED \<equiv> -37"

abbreviation EK_LSEEK_BAD_WHENCE :: int where
  "EK_LSEEK_BAD_WHENCE \<equiv> -38"

abbreviation EK_LSEEK_NEGATIVE_OFFSET :: int where
  "EK_LSEEK_NEGATIVE_OFFSET \<equiv> -39"

abbreviation EK_LSEEK_OFFSET_OVERFLOW :: int where
  "EK_LSEEK_OFFSET_OVERFLOW \<equiv> -40"

abbreviation EK_LSEEK_FD_OUT_OF_RANGE :: int where
  "EK_LSEEK_FD_OUT_OF_RANGE \<equiv> -41"

abbreviation EK_LSEEK_FD_NOT_IN_TABLE :: int where
  "EK_LSEEK_FD_NOT_IN_TABLE \<equiv> -42"

abbreviation EK_LSEEK_WRONG_PERMISSIONS :: int where
  "EK_LSEEK_WRONG_PERMISSIONS \<equiv> -43"

abbreviation EK_LSEEK_SPECIAL_FD :: int where
  "EK_LSEEK_SPECIAL_FD \<equiv> -44"

abbreviation EK_WRITE_WRONG_PERMISSIONS :: int where
  "EK_WRITE_WRONG_PERMISSIONS \<equiv> -45"

abbreviation EK_WRITE_FD_NOT_IN_TABLE :: int where
  "EK_WRITE_FD_NOT_IN_TABLE \<equiv> -46"

abbreviation EK_WRITE_FD_OUT_OF_RANGE :: int where
  "EK_WRITE_FD_OUT_OF_RANGE \<equiv> -47"

abbreviation EK_WRITE_GET_BLOCK_FAILED :: int where
  "EK_WRITE_GET_BLOCK_FAILED \<equiv> -48"

abbreviation EK_WRITE_NEXT_BLOCK_NUM_FAILED :: int where
  "EK_WRITE_NEXT_BLOCK_NUM_FAILED \<equiv> -49"

abbreviation EK_WRITE_WRITE_BLOCK_FAILED :: int where
  "EK_WRITE_WRITE_BLOCK_FAILED \<equiv> -50"

abbreviation EK_WRITE_WRITE_ROOT_DIR_ENTRY_FAILED :: int where
  "EK_WRITE_WRITE_ROOT_DIR_ENTRY_FAILED \<equiv> -51"

abbreviation EK_WRITE_NO_EMPTY_BLOCKS :: int where
  "EK_WRITE_NO_EMPTY_BLOCKS \<equiv> -52"

abbreviation EK_WRITE_TIME_FAILED :: int where
  "EK_WRITE_TIME_FAILED \<equiv> -53"

abbreviation EK_WRITE_WRITE_FAILED :: int where
  "EK_WRITE_WRITE_FAILED \<equiv> -54"

abbreviation EK_UNLINK_FILE_NOT_FOUND :: int where
  "EK_UNLINK_FILE_NOT_FOUND \<equiv> -55"

abbreviation EK_UNLINK_FIND_FILE_IN_ROOT_DIR_FAILED :: int where
  "EK_UNLINK_FIND_FILE_IN_ROOT_DIR_FAILED \<equiv> -56"

abbreviation EK_UNLINK_WRITE_ROOT_DIR_ENTRY_FAILED :: int where
  "EK_UNLINK_WRITE_ROOT_DIR_ENTRY_FAILED \<equiv> -57"

abbreviation EK_UNLINK_INVALID_FILENAME :: int where
  "EK_UNLINK_INVALID_FILENAME \<equiv> -58"

abbreviation EK_LS_WRITE_FAILED :: int where
  "EK_LS_WRITE_FAILED \<equiv> -59"

abbreviation EK_LS_FIND_FILE_IN_ROOT_DIR_FAILED :: int where
  "EK_LS_FIND_FILE_IN_ROOT_DIR_FAILED \<equiv> -60"

abbreviation EK_LS_NOT_IMPLEMENTED :: int where
  "EK_LS_NOT_IMPLEMENTED \<equiv> -61"

abbreviation EK_LS_MALLOC_FAILED :: int where
  "EK_LS_MALLOC_FAILED \<equiv> -62"

abbreviation EK_LS_GET_BLOCK_FAILED :: int where
  "EK_LS_GET_BLOCK_FAILED \<equiv> -63"

abbreviation EK_LS_NEXT_BLOCK_NUM_FAILED :: int where
  "EK_LS_NEXT_BLOCK_NUM_FAILED \<equiv> -64"

abbreviation EK_CHMOD_FILE_NOT_FOUND :: int where
  "EK_CHMOD_FILE_NOT_FOUND \<equiv> -65"

abbreviation EK_CHMOD_WRITE_ROOT_DIR_ENTRY_FAILED :: int where
  "EK_CHMOD_WRITE_ROOT_DIR_ENTRY_FAILED \<equiv> -66"

abbreviation EK_CHMOD_WRONG_PERMISSIONS :: int where
  "EK_CHMOD_WRONG_PERMISSIONS \<equiv> -67"

abbreviation EK_CHMOD_INVALID_FILENAME :: int where
  "EK_CHMOD_INVALID_FILENAME \<equiv> -68"

abbreviation EK_CHMOD_INVALID_MODE :: int where
  "EK_CHMOD_INVALID_MODE \<equiv> -69"

abbreviation EK_MV_FILE_NOT_FOUND :: int where
  "EK_MV_FILE_NOT_FOUND \<equiv> -70"

abbreviation EK_MV_WRONG_PERMISSIONS :: int where
  "EK_MV_WRONG_PERMISSIONS \<equiv> -71"

abbreviation EK_MV_UNLINK_FAILED :: int where
  "EK_MV_UNLINK_FAILED \<equiv> -72"

abbreviation EK_MV_INVALID_FILENAME :: int where
  "EK_MV_INVALID_FILENAME \<equiv> -73"

abbreviation EK_MV_OPEN_FAILED :: int where
  "EK_MV_OPEN_FAILED \<equiv> -74"

abbreviation EK_MV_WRITE_ROOT_DIR_ENTRY_FAILED :: int where
  "EK_MV_WRITE_ROOT_DIR_ENTRY_FAILED \<equiv> -75"

abbreviation EK_MV_CLOSE_FAILED :: int where
  "EK_MV_CLOSE_FAILED \<equiv> -76"

abbreviation EK_SETMODE_FD_OUT_OF_RANGE :: int where
  "EK_SETMODE_FD_OUT_OF_RANGE \<equiv> -77"

abbreviation EK_SETMODE_BAD_MODE :: int where
  "EK_SETMODE_BAD_MODE \<equiv> -78"

abbreviation EK_SETMODE_FD_NOT_IN_USE :: int where
  "EK_SETMODE_FD_NOT_IN_USE \<equiv> -79"

abbreviation EK_GETMODE_FD_OUT_OF_RANGE :: int where
  "EK_GETMODE_FD_OUT_OF_RANGE \<equiv> -80"

abbreviation EK_GETMODE_FD_NOT_IN_USE :: int where
  "EK_GETMODE_FD_NOT_IN_USE \<equiv> -81"

abbreviation E_UNKNOWN_FD :: int where
  "E_UNKNOWN_FD \<equiv> -103"

abbreviation E_PROCESS_FILE_TABLE_FULL :: int where
  "E_PROCESS_FILE_TABLE_FULL \<equiv> -100"

abbreviation E_READ_UNKNOWN_FD :: int where
  "E_READ_UNKNOWN_FD \<equiv> -101"

abbreviation E_STRING_FORMAT_FAILED :: int where
  "E_STRING_FORMAT_FAILED \<equiv> -104"

abbreviation E_STRING_TOO_LONG_FOR_PRINTF_BUF :: int where
  "E_STRING_TOO_LONG_FOR_PRINTF_BUF \<equiv> -105"

text \<open>All codes, in the order of the header file.\<close>

definition error_codes :: "int list" where
  "error_codes =
    [E_NO_INIT_PROCESS, E_INIT_ALREADY_EXISTS, E_FAILED_TO_ALLOCATE,
     E_BAD_ARGV, E_STR_FORMAT_FAILED, E_STR_TOO_LONG_FOR_FPRINTF_BUF,
     E_INVALID_PCB, E_INVALID_SCHEDULER_STATE, E_NO_SUCH_PROCESS,
     E_INVALID_ARGUMENT, E_TRIED_TO_KILL_INIT, E_TCSET_NO_TERMINAL_CONTROL,
     E_CONTINUE_NON_STOPPED_PROCESS, E_STOP_STOPPED_PROCESS, E_STOP_NON_ACTIVE_QUEUE_PROCESS,
     E_PID_NOT_FOUND, E_NO_CURRENT_PROCESS, E_RUNNING_PROCESS_NOT_IN_READY_QUEUE,
     EK_OPEN_INVALID_FILENAME, EK_OPEN_FIND_FILE_IN_ROOT_DIR_FAILED, EK_OPEN_GLOBAL_FD_TABLE_FULL,
     EK_OPEN_FILE_DOES_NOT_EXIST, EK_OPEN_MALLOC_FAILED, EK_OPEN_TIME_FAILED,
     EK_OPEN_ALREADY_WRITE_LOCKED, EK_OPEN_WRITE_NEW_ROOT_DIR_ENTRY_FAILED, EK_OPEN_NO_EMPTY_BLOCKS,
     EK_OPEN_WRONG_PERMISSIONS, EK_OPEN_WRITE_ROOT_DIR_ENTRY_FAILED, EK_CLOSE_FD_OUT_OF_RANGE,
     EK_CLOSE_SPECIAL_FD, EK_CLOSE_WRITE_ROOT_DIR_ENTRY_FAILED, EK_READ_FD_OUT_OF_RANGE,
     EK_READ_FD_NOT_IN_TABLE, EK_READ_COULD_NOT_JUMP_TO_BLOCK_FOR_OFFSET, EK_READ_WRONG_PERMISSIONS,
     EK_READ_READ_FAILED, EK_LSEEK_BAD_WHENCE, EK_LSEEK_NEGATIVE_OFFSET,
     EK_LSEEK_OFFSET_OVERFLOW, EK_LSEEK_FD_OUT_OF_RANGE, EK_LSEEK_FD_NOT_IN_TABLE,
     EK_LSEEK_WRONG_PERMISSIONS, EK_LSEEK_SPECIAL_FD, EK_WRITE_WRONG_PERMISSIONS,
     EK_WRITE_FD_NOT_IN_TABLE, EK_WRITE_FD_OUT_OF_RANGE, EK_WRITE_GET_BLOCK_FAILED,
     EK_WRITE_NEXT_BLOCK_NUM_FAILED, EK_WRITE_WRITE_BLOCK_FAILED, EK_WRITE_WRITE_ROOT_DIR_ENTRY_FAILED,
     EK_WRITE_NO_EMPTY_BLOCKS, EK_WRITE_TIME_FAILED, EK_WRITE_WRITE_FAILED,
     EK_UNLINK_FILE_NOT_FOUND, EK_UNLINK_FIND_FILE_IN_ROOT_DIR_FAILED, EK_UNLINK_WRITE_ROOT_DIR_ENTRY_FAILED,
     EK_UNLINK_INVALID_FILENAME, EK_LS_WRITE_FAILED, EK_LS_FIND_FILE_IN_ROOT_DIR_FAILED,
     EK_LS_NOT_IMPLEMENTED, EK_LS_MALLOC_FAILED, EK_LS_GET_BLOCK_FAILED,
     EK_LS_NEXT_BLOCK_NUM_FAILED, EK_CHMOD_FILE_NOT_FOUND, EK_CHMOD_WRITE_ROOT_DIR_ENTRY_FAILED,
     EK_CHMOD_WRONG_PERMISSIONS, EK_CHMOD_INVALID_FILENAME, EK_CHMOD_INVALID_MODE,
     EK_MV_FILE_NOT_FOUND, EK_MV_WRONG_PERMISSIONS, EK_MV_UNLINK_FAILED,
     EK_MV_INVALID_FILENAME, EK_MV_OPEN_FAILED, EK_MV_WRITE_ROOT_DIR_ENTRY_FAILED,
     EK_MV_CLOSE_FAILED, EK_SETMODE_FD_OUT_OF_RANGE, EK_SETMODE_BAD_MODE,
     EK_SETMODE_FD_NOT_IN_USE, EK_GETMODE_FD_OUT_OF_RANGE, EK_GETMODE_FD_NOT_IN_USE,
     E_UNKNOWN_FD, E_PROCESS_FILE_TABLE_FULL, E_READ_UNKNOWN_FD,
     E_STRING_FORMAT_FAILED, E_STRING_TOO_LONG_FOR_PRINTF_BUF]"

section \<open>Messages\<close>

definition strerror_table :: "(int \<times> string) list" where
  "strerror_table =
    [(E_NO_INIT_PROCESS, ''No init process''),
     (E_INIT_ALREADY_EXISTS, ''Init already exists''),
     (E_FAILED_TO_ALLOCATE, ''Failed to allocate''),
     (E_BAD_ARGV, ''Bad argv''),
     (E_STR_FORMAT_FAILED, ''Str format failed''),
     (E_STR_TOO_LONG_FOR_FPRINTF_BUF, ''Str too long for fprintf buf''),
     (E_INVALID_PCB, ''Invalid pcb''),
     (E_INVALID_SCHEDULER_STATE, ''Invalid scheduler state''),
     (E_NO_SUCH_PROCESS, ''No such process''),
     (E_INVALID_ARGUMENT, ''Invalid argument''),
     (E_TRIED_TO_KILL_INIT, ''Tried to kill init''),
     (E_TCSET_NO_TERMINAL_CONTROL, ''No terminal control''),
     (E_CONTINUE_NON_STOPPED_PROCESS, ''Continue non-stopped process''),
     (E_STOP_STOPPED_PROCESS, ''Stop stopped process''),
     (E_STOP_NON_ACTIVE_QUEUE_PROCESS, ''Stop non-active queue process''),
     (E_PID_NOT_FOUND, ''PID not found''),
     (E_NO_CURRENT_PROCESS, ''No current process''),
     (E_RUNNING_PROCESS_NOT_IN_READY_QUEUE, ''Running process not in ready queue''),
     (EK_OPEN_INVALID_FILENAME, ''Invalid filename''),
     (EK_OPEN_FIND_FILE_IN_ROOT_DIR_FAILED, ''Find file in root dir failed''),
     (EK_OPEN_GLOBAL_FD_TABLE_FULL, ''Global fd table full''),
     (EK_OPEN_FILE_DOES_NOT_EXIST, ''File does not exist''),
     (EK_OPEN_MALLOC_FAILED, ''Malloc failed''),
     (EK_OPEN_TIME_FAILED, ''Time failed''),
     (EK_OPEN_ALREADY_WRITE_LOCKED, ''Already write locked''),
     (EK_OPEN_WRITE_NEW_ROOT_DIR_ENTRY_FAILED, ''Write new root dir entry failed''),
     (EK_OPEN_NO_EMPTY_BLOCKS, ''No empty blocks''),
     (EK_OPEN_WRONG_PERMISSIONS, ''Wrong permissions''),
     (EK_OPEN_WRITE_ROOT_DIR_ENTRY_FAILED, ''Write root dir entry failed''),
     (EK_CLOSE_FD_OUT_OF_RANGE, ''FD out of range''),
     (EK_CLOSE_SPECIAL_FD, ''Special FD''),
     (EK_CLOSE_WRITE_ROOT_DIR_ENTRY_FAILED, ''Write root dir entry failed''),
     (EK_READ_FD_OUT_OF_RANGE, ''FD out of range''),
     (EK_READ_FD_NOT_IN_TABLE, ''FD not in table''),
     (EK_READ_COULD_NOT_JUMP_TO_BLOCK_FOR_OFFSET, ''Could not jump to block for offset''),
     (EK_READ_WRONG_PERMISSIONS, ''Wrong permissions''),
     (EK_READ_READ_FAILED, ''Read failed''),
     (EK_LSEEK_BAD_WHENCE, ''Lseek: Bad whence''),
     (EK_LSEEK_NEGATIVE_OFFSET, ''Lseek: Negative offset''),
     (EK_LSEEK_OFFSET_OVERFLOW, ''Offset overflow''),
     (EK_LSEEK_FD_OUT_OF_RANGE, ''FD out of range''),
     (EK_LSEEK_FD_NOT_IN_TABLE, ''FD not in table''),
     (EK_LSEEK_WRONG_PERMISSIONS, ''Lseek: Wrong permissions''),
     (EK_LSEEK_SPECIAL_FD, ''Special FD''),
     (EK_WRITE_WRONG_PERMISSIONS, ''Wrong permissions''),
     (EK_WRITE_FD_NOT_IN_TABLE, ''FD not in table''),
     (EK_WRITE_FD_OUT_OF_RANGE, ''FD out of range''),
     (EK_WRITE_GET_BLOCK_FAILED, ''Get block failed''),
     (EK_WRITE_NEXT_BLOCK_NUM_FAILED, ''Next block num failed''),
     (EK_WRITE_WRITE_BLOCK_FAILED, ''Write block failed''),
     (EK_WRITE_WRITE_ROOT_DIR_ENTRY_FAILED, ''Write root dir entry failed''),
     (EK_WRITE_NO_EMPTY_BLOCKS, ''No empty blocks''),
     (EK_WRITE_TIME_FAILED, ''Time failed''),
     (EK_WRITE_WRITE_FAILED, ''Write failed''),
     (EK_UNLINK_FILE_NOT_FOUND, ''Unlink: File not found''),
     (EK_UNLINK_FIND_FILE_IN_ROOT_DIR_FAILED, ''Unlink: Find file in root dir failed''),
     (EK_UNLINK_WRITE_ROOT_DIR_ENTRY_FAILED, ''Unlink: Write root dir entry failed''),
     (EK_UNLINK_INVALID_FILENAME, ''Unlink: Invalid filename''),
     (EK_LS_WRITE_FAILED, ''Write failed''),
     (EK_LS_FIND_FILE_IN_ROOT_DIR_FAILED, ''Find file in root dir failed''),
     (EK_LS_NOT_IMPLEMENTED, ''Not implemented''),
     (EK_LS_MALLOC_FAILED, ''Malloc failed''),
     (EK_LS_GET_BLOCK_FAILED, ''Get block failed''),
     (EK_LS_NEXT_BLOCK_NUM_FAILED, ''Next block num failed''),
     (EK_CHMOD_FILE_NOT_FOUND, ''File not found''),
     (EK_CHMOD_WRITE_ROOT_DIR_ENTRY_FAILED, ''Write root dir entry failed''),
     (EK_CHMOD_WRONG_PERMISSIONS, ''Wrong permissions''),
     (EK_CHMOD_INVALID_FILENAME, ''Invalid filename''),
     (EK_CHMOD_INVALID_MODE, ''Invalid mode''),
     (EK_MV_FILE_NOT_FOUND, ''File not found''),
     (EK_MV_WRONG_PERMISSIONS, ''Wrong permissions''),
     (EK_MV_UNLINK_FAILED, ''Unlink failed''),
     (EK_MV_INVALID_FILENAME, ''Invalid filename''),
     (EK_MV_OPEN_FAILED, ''Open failed''),
     (EK_MV_WRITE_ROOT_DIR_ENTRY_FAILED, ''Write root dir entry failed''),
     (EK_MV_CLOSE_FAILED, ''Close failed''),
     (EK_SETMODE_FD_OUT_OF_RANGE, ''FD out of range''),
     (EK_SETMODE_BAD_MODE, ''Bad mode''),
     (EK_SETMODE_FD_NOT_IN_USE, ''FD not in use''),
     (EK_GETMODE_FD_OUT_OF_RANGE, ''FD out of range''),
     (EK_GETMODE_FD_NOT_IN_USE, ''FD not in use''),
     (E_UNKNOWN_FD, ''Unknown FD''),
     (E_PROCESS_FILE_TABLE_FULL, ''Process file table full''),
     (E_READ_UNKNOWN_FD, ''Read: Unknown FD''),
     (E_STRING_FORMAT_FAILED, ''String format failed''),
     (E_STRING_TOO_LONG_FOR_PRINTF_BUF, ''String too long for printf buf'')]"

definition u_strerror :: "int \<Rightarrow> string" where
  "u_strerror e =
     (case map_of strerror_table e of Some m \<Rightarrow> m | None \<Rightarrow> ''Unknown error'')"

text \<open>
  The size of the static buffer \<open>err_message\<close> into which \<open>u_strerror\<close> copies with \<open>strcpy\<close>.
\<close>

definition err_message_size :: nat where
  "err_message_size = 101"

section \<open>Facts\<close>

lemma strerror_table_fits: "\<forall>(c, m)\<in>set strerror_table. length m < err_message_size"
  unfolding strerror_table_def err_message_size_def by simp

lemma strerror_table_codes: "map fst strerror_table = error_codes"
  unfolding strerror_table_def error_codes_def by simp

text \<open>
  Every message that \<open>u_strerror\<close> copies into the 101-byte buffer \<open>err_message\<close> fits
  together with its terminating zero byte, whatever the error number.
\<close>

lemma u_strerror_fits: "length (u_strerror e) + 1 \<le> err_message_size"
proof (cases "map_of strerror_table e")
  case None
  then show ?thesis by (simp add: u_strerror_def err_message_size_def)
next
  case (Some m)
  then have "(e, m) \<in> set strerror_table" by (rule map_of_SomeD)
  then show ?thesis using Some strerror_table_fits by (auto simp: u_strerror_def)
qed

text \<open>
  The codes are negative and pairwise different, and \<open>u_strerror\<close> has a message of its
  own for each of them, so a defined code is never reported as unknown; no message overflows
  the buffer \<open>err_message\<close>, whatever the error number.
\<close>

theorem error_codes_sound:
  "distinct error_codes \<and> (\<forall>e\<in>set error_codes. e < 0 \<and> u_strerror e \<noteq> ''Unknown error'') \<and>
   (\<forall>e. length (u_strerror e) + 1 \<le> err_message_size)"
proof -
  have "distinct error_codes" and neg: "\<forall>e\<in>set error_codes. e < 0"
    unfolding error_codes_def by simp_all
  moreover have "\<forall>(c, m)\<in>set strerror_table. m \<noteq> ''Unknown error''"
    unfolding strerror_table_def by simp
  then have "u_strerror e \<noteq> ''Unknown error''" if "e \<in> set error_codes" for e
  proof -
    have "e \<in> fst ` set strerror_table" using that strerror_table_codes by (metis image_set)
    then obtain m where m: "map_of strerror_table e = Some m" by (metis map_of_eq_None_iff not_None_eq)
    then have "(e, m) \<in> set strerror_table" by (rule map_of_SomeD)
    then show ?thesis using m \<open>\<forall>(c, m)\<in>set strerror_table. m \<noteq> ''Unknown error''\<close>
      by (auto simp: u_strerror_def)
  qed
  ultimately show ?thesis using u_strerror_fits by blast
qed

text \<open>The quantified claim above, applied at one code.\<close>

theorem error_codes_sound_witness:
  "EK_OPEN_ALREADY_WRITE_LOCKED \<in> set error_codes \<and>
   u_strerror EK_OPEN_ALREADY_WRITE_LOCKED \<noteq> ''Unknown error''"
proof -
  have "EK_OPEN_ALREADY_WRITE_LOCKED \<in> set error_codes" unfolding error_codes_def by simp
  then show ?thesis using error_codes_sound by blast
qed

end
