(* ===== verification/Fat_Open.thy ===== *)
theory Fat_Open
  imports Fat_Dir Error_Codes
begin

text \<open>
  Opening and closing files (\<^verbatim>\<open>src/src/pennfat/fat.c\<close>, lines 590 to 793): the global descriptor
  table with its reference counts, write locks and cached directory entries.

  \<open>mode\<close> is the C \<open>int\<close> argument; stored in the \<open>uint8_t\<close> field \<open>write_locked\<close> it is reduced
  modulo 256. The cached directory entry is a heap object that only its table entry points to,
  so it is the value \<open>ptr_to_dir_entry\<close> of that entry; \<^term>\<open>None\<close> is the null pointer.
\<close>

abbreviation F_READ :: int where "F_READ \<equiv> 0"
abbreviation F_WRITE :: int where "F_WRITE \<equiv> 1"
abbreviation F_APPEND :: int where "F_APPEND \<equiv> 2"

abbreviation P_NO_FILE_PERMISSION :: nat where "P_NO_FILE_PERMISSION \<equiv> 0"
abbreviation P_WRITE_ONLY_FILE_PERMISSION :: nat where "P_WRITE_ONLY_FILE_PERMISSION \<equiv> 2"
abbreviation P_READ_ONLY_FILE_PERMISSION :: nat where "P_READ_ONLY_FILE_PERMISSION \<equiv> 4"
abbreviation P_READ_AND_EXECUTABLE_FILE_PERMISSION :: nat
  where "P_READ_AND_EXECUTABLE_FILE_PERMISSION \<equiv> 5"
abbreviation P_READ_WRITE_FILE_PERMISSION :: nat where "P_READ_WRITE_FILE_PERMISSION \<equiv> 6"
abbreviation P_READ_WRITE_AND_EXECUTABLE_FILE_PERMISSION :: nat
  where "P_READ_WRITE_AND_EXECUTABLE_FILE_PERMISSION \<equiv> 5"

abbreviation GLOBAL_FD_TABLE_ENTRY_NOT_FOUND_SENTINEL :: nat
  where "GLOBAL_FD_TABLE_ENTRY_NOT_FOUND_SENTINEL \<equiv> 0xFFFF"

definition u8_of_int :: "int \<Rightarrow> nat" where
  "u8_of_int i = nat (i mod 256)"

definition fd_upd :: "nat \<Rightarrow> (global_fd_entry \<Rightarrow> global_fd_entry) \<Rightarrow> fatfs \<Rightarrow> fatfs" where
  "fd_upd fd g fs = fs\<lparr>global_fd_table := (global_fd_table fs)(fd := g (global_fd_table fs fd))\<rparr>"

section \<open>k_open\<close>

definition new_dir_entry :: "byte list \<Rightarrow> nat \<Rightarrow> directory_entry" where
  "new_dir_entry fname mtime =
     \<lparr>de_name = fname @ replicate (32 - length fname) 0, de_size = 0, de_first_block = 0,
      de_type = 1, de_perm = P_READ_WRITE_FILE_PERMISSION, de_mtime = mtime,
      de_padding = replicate 16 0\<rparr>"

text \<open>
  The branch for a file that is not in the descriptor table: find its directory entry, or create
  one unless the mode is \<open>F_READ\<close>. The result is an error code or the entry and its slot.
\<close>

definition find_or_create ::
  "host \<Rightarrow> byte list \<Rightarrow> int \<Rightarrow> fatfs \<Rightarrow> ((int + dir_hit) \<times> fatfs) option" where
  "find_or_create h fname mode fs = do {
     ((status, hit), fs) \<leftarrow> find_file_in_root_dir h fname fs;
     if status < 0 then Some (Inl EK_OPEN_FIND_FILE_IN_ROOT_DIR_FAILED, fs)
     else if status \<noteq> RFIND_FILE_IN_ROOT_DIR_FILE_FOUND then
       if mode = F_READ then Some (Inl EK_OPEN_FILE_DOES_NOT_EXIST, fs)
       else (case h_time h of
               None \<Rightarrow> Some (Inl EK_OPEN_TIME_FAILED, fs)
             | Some mtime \<Rightarrow> do {
                 ((code, block, idx), fs) \<leftarrow> write_new_root_dir_entry h (new_dir_entry fname mtime) fs;
                 if code \<noteq> 0 then Some (Inl EK_OPEN_WRITE_NEW_ROOT_DIR_ENTRY_FAILED, fs)
                 else Some (Inr (new_dir_entry fname mtime, block, idx), fs)
               })
     else (case hit of None \<Rightarrow> None | Some hit \<Rightarrow> Some (Inr hit, fs))
   }"

definition open_new ::
  "host \<Rightarrow> byte list \<Rightarrow> int \<Rightarrow> fatfs \<Rightarrow> ((int + nat) \<times> fatfs) option" where
  "open_new h fname mode fs =
     (let fd_idx = find_empty_fd fs in
      if fd_idx = GLOBAL_FD_TABLE_ENTRY_NOT_FOUND_SENTINEL
      then Some (Inl EK_OPEN_GLOBAL_FD_TABLE_FULL, fs)
      else if \<not> h_malloc h then Some (Inl EK_OPEN_MALLOC_FAILED, fs)
      else do {
        (res, fs) \<leftarrow> find_or_create h fname mode fs;
        case res of
          Inl code \<Rightarrow> Some (Inl code, fs)
        | Inr (e, block, idx) \<Rightarrow>
            Some (Inr fd_idx, fd_upd fd_idx (\<lambda>_.
              \<lparr>ref_count = 0, ptr_to_dir_entry = Some e, dir_entry_block_num = block,
               dir_entry_idx = idx, write_locked = u8_of_int mode, fd_offset = 0\<rparr>) fs)
      })"

definition open_slot ::
  "host \<Rightarrow> byte list \<Rightarrow> int \<Rightarrow> fatfs \<Rightarrow> ((int + nat) \<times> fatfs) option" where
  "open_slot h fname mode fs = do {
     found \<leftarrow> find_file_in_global_fd_table fname fs;
     case found of
       Some fd_idx \<Rightarrow>
         if write_locked (global_fd_table fs fd_idx) \<noteq> 0 \<and> (mode = F_WRITE \<or> mode = F_APPEND)
         then Some (Inl EK_OPEN_ALREADY_WRITE_LOCKED, fs)
         else Some (Inr fd_idx, fs)
     | None \<Rightarrow> open_new h fname mode fs
   }"

definition open_denied :: "nat \<Rightarrow> int \<Rightarrow> bool" where
  "open_denied perm mode \<longleftrightarrow>
     perm = P_NO_FILE_PERMISSION \<or>
     (perm = P_WRITE_ONLY_FILE_PERMISSION \<and> mode = F_READ) \<or>
     ((perm = P_READ_ONLY_FILE_PERMISSION \<or> perm = P_READ_AND_EXECUTABLE_FILE_PERMISSION) \<and>
      (mode = F_WRITE \<or> mode = F_APPEND))"

text \<open>Truncation on \<open>F_WRITE\<close>; the code is 0 or the error that \<open>k_open\<close> returns.\<close>

definition open_truncate :: "host \<Rightarrow> nat \<Rightarrow> directory_entry \<Rightarrow> fatfs \<Rightarrow> (int \<times> fatfs) option" where
  "open_truncate h fd e fs =
     (case h_time h of
        None \<Rightarrow> Some (EK_OPEN_TIME_FAILED, fs)
      | Some mtime \<Rightarrow> do {
          fs \<leftarrow> (if de_first_block e \<noteq> 0 then clear_fat_file (de_first_block e) fs else Some fs);
          let e = e\<lparr>de_size := 0, de_mtime := mtime, de_first_block := 0\<rparr>;
          let fs = fd_upd fd (\<lambda>g. g\<lparr>ptr_to_dir_entry := Some e\<rparr>) fs;
          let g = global_fd_table fs fd;
          (code, fs) \<leftarrow> write_root_dir_entry h e (dir_entry_block_num g) (dir_entry_idx g) fs;
          Some (if code \<noteq> 0 then EK_OPEN_WRITE_ROOT_DIR_ENTRY_FAILED else 0, fs)
        })"

definition open_offset :: "int \<Rightarrow> global_fd_entry \<Rightarrow> directory_entry \<Rightarrow> nat" where
  "open_offset mode g e =
     (if mode = F_APPEND then de_size e
      else if mode = F_WRITE then 0
      else if mode = F_READ then fd_offset g
      else 0)"

definition k_open :: "host \<Rightarrow> byte list \<Rightarrow> int \<Rightarrow> fatfs \<Rightarrow> (int \<times> fatfs) option" where
  "k_open h fname mode fs =
     (if \<not> is_mounted fs then Some (EFS_NOT_MOUNTED, fs)
      else if \<not> is_valid_filename fname then Some (EK_OPEN_INVALID_FILENAME, fs)
      else do {
        (res, fs) \<leftarrow> open_slot h fname mode fs;
        case res of
          Inl code \<Rightarrow> Some (code, fs)
        | Inr fd \<Rightarrow> do {
            e \<leftarrow> ptr_to_dir_entry (global_fd_table fs fd);
            if open_denied (de_perm e) mode then Some (EK_OPEN_WRONG_PERMISSIONS, fs)
            else do {
              let fs = fd_upd fd (\<lambda>g. g\<lparr>ref_count := ref_count g + 1\<rparr>) fs;
              (code, fs) \<leftarrow> (if mode = F_WRITE \<and> de_size e > 0 then open_truncate h fd e fs
                            else Some (0, fs));
              if code \<noteq> 0 then Some (code, fs)
              else do {
                e \<leftarrow> ptr_to_dir_entry (global_fd_table fs fd);
                Some (int fd, fd_upd fd (\<lambda>g. g\<lparr>write_locked := u8_of_int mode,
                                              fd_offset := open_offset mode g e\<rparr>) fs)
              }
            }
          }
      })"

section \<open>k_close\<close>

text \<open>The part of \<open>k_close\<close> that runs when the reference count is 0.\<close>

definition close_last :: "host \<Rightarrow> nat \<Rightarrow> fatfs \<Rightarrow> (int \<times> fatfs) option" where
  "close_last h fd fs = do {
     e \<leftarrow> ptr_to_dir_entry (global_fd_table fs fd);
     (code, fs) \<leftarrow>
       (if name0 e = 2 then do {
          fs \<leftarrow> (if de_first_block e \<noteq> 0 then clear_fat_file (de_first_block e) fs else Some fs);
          let e = e\<lparr>de_name := (de_name e)[0 := 1], de_first_block := 0\<rparr>;
          let fs = fd_upd fd (\<lambda>g. g\<lparr>ptr_to_dir_entry := Some e\<rparr>) fs;
          let g = global_fd_table fs fd;
          write_root_dir_entry h e (dir_entry_block_num g) (dir_entry_idx g) fs
        } else Some (0, fs));
     if code \<noteq> 0 then Some (EK_CLOSE_WRITE_ROOT_DIR_ENTRY_FAILED, fs)
     else Some (0, fd_upd fd (\<lambda>g. g\<lparr>ptr_to_dir_entry := None, write_locked := 0\<rparr>) fs)
   }"

definition k_close :: "host \<Rightarrow> int \<Rightarrow> fatfs \<Rightarrow> (int \<times> fatfs) option" where
  "k_close h fd fs =
     (if \<not> is_mounted fs then Some (EFS_NOT_MOUNTED, fs)
      else if fd \<ge> int GLOBAL_FD_TABLE_SIZE \<or> fd < 0 then Some (EK_CLOSE_FD_OUT_OF_RANGE, fs)
      else if fd = 0 \<or> fd = 1 \<or> fd = 2 then Some (EK_CLOSE_SPECIAL_FD, fs)
      else
        let i = nat fd;
            fs = (if ref_count (global_fd_table fs i) > 0
                  then fd_upd i (\<lambda>g. g\<lparr>ref_count := ref_count g - 1\<rparr>) fs else fs)
        in if ref_count (global_fd_table fs i) = 0 then close_last h i fs else Some (0, fs))"

end
