(* ===== verification/Fat_IO.thy ===== *)
theory Fat_IO
  imports Fat_Open
begin

text \<open>
  Reading, seeking and writing (\<^verbatim>\<open>src/src/pennfat/fat.c\<close>, lines 795 to 1180). The loops of
  \<open>k_read\<close> and \<open>k_write\<close> are definitions of their own; a loop that the C text leaves with
  \<open>return code\<close> yields \<open>Inl code\<close>, otherwise \<open>Inr\<close> of the variables that live on.

  \<open>k_read\<close> returns its code and the bytes it stores at the start of the caller's buffer. The
  terminal calls for descriptors 0 to 2 are fields of the host; bytes written there are
  appended to \<open>console\<close>.
\<close>

definition size_t_of_int :: "int \<Rightarrow> nat" where
  "size_t_of_int i = nat (i mod 2 ^ 64)"

section \<open>k_read\<close>

fun skip_blocks :: "fatfs \<Rightarrow> nat \<Rightarrow> nat \<Rightarrow> int + nat" where
  "skip_blocks fs 0 block = Inr block"
| "skip_blocks fs (Suc k) block =
     (case next_block_num fs block block of
        (code, block) \<Rightarrow>
          if code \<noteq> 0 then Inl EK_READ_COULD_NOT_JUMP_TO_BLOCK_FOR_OFFSET
          else skip_blocks fs k block)"

partial_function (option) read_loop ::
  "host \<Rightarrow> int \<Rightarrow> int \<Rightarrow> nat \<Rightarrow> nat \<Rightarrow> byte list \<Rightarrow> fatfs \<Rightarrow> ((int \<times> byte list) \<times> fatfs) option" where
  "read_loop h n n_copied offset_in_block block buf fs =
     (if n > n_copied \<and> block \<noteq> FAT_END_OF_FILE then
        let fs = snd (load_block h block fs);
            n_to_copy = u16 (nat (min_int (n - n_copied) (int (block_size fs) - int offset_in_block)));
            buf = buf @ chunk offset_in_block n_to_copy (block_buf fs)
        in read_loop h n (n_copied + int n_to_copy) 0 (snd (next_block_num fs block block)) buf fs
      else Some ((n_copied, buf), fs))"

definition k_read :: "host \<Rightarrow> int \<Rightarrow> int \<Rightarrow> fatfs \<Rightarrow> ((int \<times> byte list) \<times> fatfs) option" where
  "k_read h fd n fs =
     (if fd = 0 \<or> fd = 1 \<or> fd = 2 then
        (case h_terminal_in h fd of
           None \<Rightarrow> Some ((EK_READ_READ_FAILED, []), fs)
         | Some avail \<Rightarrow>
             let bytes = take (size_t_of_int n) avail in Some ((int (length bytes), bytes), fs))
      else if \<not> is_mounted fs then Some ((EFS_NOT_MOUNTED, []), fs)
      else if fd \<ge> int GLOBAL_FD_TABLE_SIZE \<or> fd < 0 then Some ((EK_READ_FD_OUT_OF_RANGE, []), fs)
      else
        let fd = nat fd; g = global_fd_table fs fd in
        if ref_count g = 0 then Some ((EK_READ_FD_NOT_IN_TABLE, []), fs)
        else do {
          e \<leftarrow> ptr_to_dir_entry g;
          if de_perm e < P_READ_ONLY_FILE_PERMISSION
          then Some ((EK_READ_WRONG_PERMISSIONS, []), fs)
          else if fd_offset g \<ge> de_size e then Some ((0, []), fs)
          else if n = 0 then Some ((0, []), fs)
          else
            case skip_blocks fs (u16 (fd_offset g div block_size fs)) (de_first_block e) of
              Inl code \<Rightarrow> Some ((code, []), fs)
            | Inr block \<Rightarrow> do {
                ((n_copied, buf), fs) \<leftarrow>
                  read_loop h (min_int n (s32 (de_size e - fd_offset g))) 0
                    (u16 (fd_offset g mod block_size fs)) block [] fs;
                Some ((n_copied, buf),
                      fd_upd fd (\<lambda>g. g\<lparr>fd_offset := u32_of_int (int (fd_offset g) + n_copied)\<rparr>) fs)
              }
        })"

section \<open>k_lseek\<close>

abbreviation F_SEEK_SET :: int where "F_SEEK_SET \<equiv> 1"
abbreviation F_SEEK_CUR :: int where "F_SEEK_CUR \<equiv> 2"
abbreviation F_SEEK_END :: int where "F_SEEK_END \<equiv> 3"
abbreviation UINT32_MAX :: nat where "UINT32_MAX \<equiv> 4294967295"

text \<open>
  The new offset relative to \<open>base\<close>, or an error. The comparisons of the \<open>int\<close> offset with
  \<open>uint32_t\<close> values convert it to \<open>uint32_t\<close>. The negation of the least \<open>int\<close> overflows; with the
  wrap-around of the target its value, converted to \<open>uint32_t\<close>, is \<open>2 ^ 31\<close>, as here.
\<close>

definition lseek_from :: "nat \<Rightarrow> int \<Rightarrow> int + nat" where
  "lseek_from base offset =
     (if offset < 0 \<and> u32_of_int (- offset) > base then Inl EK_LSEEK_NEGATIVE_OFFSET
      else if UINT32_MAX - base < u32_of_int offset then Inl EK_LSEEK_OFFSET_OVERFLOW
      else Inr (u32 (base + u32_of_int offset)))"

definition k_lseek :: "int \<Rightarrow> int \<Rightarrow> int \<Rightarrow> fatfs \<Rightarrow> (int \<times> fatfs) option" where
  "k_lseek fd offset whence fs =
     (if \<not> is_mounted fs then Some (EFS_NOT_MOUNTED, fs)
      else if fd \<ge> int GLOBAL_FD_TABLE_SIZE \<or> fd < 0 then Some (EK_LSEEK_FD_OUT_OF_RANGE, fs)
      else if fd = 0 \<or> fd = 1 \<or> fd = 2 then Some (EK_LSEEK_SPECIAL_FD, fs)
      else
        let fd = nat fd; g = global_fd_table fs fd in
        if ref_count g = 0 then Some (EK_LSEEK_FD_NOT_IN_TABLE, fs)
        else if whence \<noteq> F_SEEK_SET \<and> whence \<noteq> F_SEEK_CUR \<and> whence \<noteq> F_SEEK_END
        then Some (EK_LSEEK_BAD_WHENCE, fs)
        else do {
          e \<leftarrow> ptr_to_dir_entry g;
          if de_perm e < P_READ_ONLY_FILE_PERMISSION then Some (EK_LSEEK_WRONG_PERMISSIONS, fs)
          else
            case (if whence = F_SEEK_SET then
                    if offset < 0 then Inl EK_LSEEK_NEGATIVE_OFFSET else Inr (u32_of_int offset)
                  else if whence = F_SEEK_CUR then lseek_from (fd_offset g) offset
                  else lseek_from (de_size e) offset) of
              Inl code \<Rightarrow> Some (code, fs)
            | Inr new_offset \<Rightarrow>
                Some (int new_offset, fd_upd fd (\<lambda>g. g\<lparr>fd_offset := new_offset\<rparr>) fs)
        })"

section \<open>k_write\<close>

text \<open>
  Zeroing the rest of the last block of the file. When the file has more blocks than its size
  needs, the byte count can exceed the block size and the \<open>memset\<close> leaves the buffer.
\<close>

definition zero_tail :: "host \<Rightarrow> nat \<Rightarrow> nat \<Rightarrow> nat \<Rightarrow> fatfs \<Rightarrow> (int \<times> fatfs) option" where
  "zero_tail h file_size n_blocks_deep block fs =
     (let n_file_bytes_in_block =
            u16 (u32_of_int (int file_size - (int n_blocks_deep - 1) * int (block_size fs))) in
      case load_block h block fs of
        (code, fs) \<Rightarrow>
          if code \<noteq> 0 then Some (EK_WRITE_GET_BLOCK_FAILED, fs)
          else if n_file_bytes_in_block > block_size fs then None
          else
            let fs = fs\<lparr>block_buf := overlay n_file_bytes_in_block
                          (replicate (block_size fs - n_file_bytes_in_block) 0) (block_buf fs)\<rparr> in
            case write_block h block (block_buf fs) fs of
              (code, fs) \<Rightarrow> Some (if code \<noteq> 0 then EK_WRITE_WRITE_BLOCK_FAILED else 0, fs))"

text \<open>The walk along the blocks of the file, \<open>k\<close> steps left.\<close>

fun write_walk :: "host \<Rightarrow> nat \<Rightarrow> nat \<Rightarrow> nat \<Rightarrow> nat \<Rightarrow> fatfs \<Rightarrow> ((int + nat \<times> nat) \<times> fatfs) option" where
  "write_walk h file_size 0 n_blocks_deep block fs = Some (Inr (block, n_blocks_deep), fs)"
| "write_walk h file_size (Suc k) n_blocks_deep block fs =
     (case next_block_num fs block 0 of
        (code, next_block) \<Rightarrow>
          if code \<noteq> 0 then Some (Inl EK_WRITE_NEXT_BLOCK_NUM_FAILED, fs)
          else if next_block = FAT_END_OF_FILE then do {
            (code, fs) \<leftarrow> zero_tail h file_size (n_blocks_deep + 1) block fs;
            Some (if code \<noteq> 0 then Inl code else Inr (block, n_blocks_deep + 1), fs)
          }
          else write_walk h file_size k (n_blocks_deep + 1) next_block fs)"

text \<open>Appending \<open>k\<close> empty blocks up to the block of the offset.\<close>

fun write_fill :: "host \<Rightarrow> nat \<Rightarrow> nat \<Rightarrow> fatfs \<Rightarrow> ((int + nat) \<times> fatfs) option" where
  "write_fill h 0 block fs = Some (Inr block, fs)"
| "write_fill h (Suc k) prev_block fs = do {
     block \<leftarrow> first_empty_block fs;
     if block = 0 then do {
       fs \<leftarrow> fat_set fs prev_block FAT_END_OF_FILE;
       Some (Inl 0, fs)
     }
     else do {
       fs \<leftarrow> fat_set fs prev_block block;
       let fs = fs\<lparr>block_buf := replicate (block_size fs) 0\<rparr>;
       case write_block h block (block_buf fs) fs of
         (code, fs) \<Rightarrow>
           if code \<noteq> 0 then Some (Inl EK_WRITE_WRITE_BLOCK_FAILED, fs)
           else write_fill h k block fs
     }
   }"

text \<open>The next block of the copy loop; \<open>Inr None\<close> when the disk is full.\<close>

definition write_advance ::
  "nat \<Rightarrow> nat \<Rightarrow> nat \<Rightarrow> fatfs \<Rightarrow> ((int + nat option) \<times> fatfs) option" where
  "write_advance curr_block_idx origin_file_max_block_idx block fs =
     (if curr_block_idx + 1 < origin_file_max_block_idx then
        (case next_block_num fs block 0 of
           (code, next_block) \<Rightarrow>
             if code \<noteq> 0 then Some (Inl EK_WRITE_NEXT_BLOCK_NUM_FAILED, fs)
             else do { fs \<leftarrow> fat_set fs block next_block; Some (Inr (Some next_block), fs) })
      else do {
        fs \<leftarrow> fat_set fs block FAT_END_OF_FILE;
        next_block \<leftarrow> first_empty_block fs;
        if next_block = 0 then Some (Inr None, fs)
        else do { fs \<leftarrow> fat_set fs block next_block; Some (Inr (Some next_block), fs) }
      })"

text \<open>One block of the copy loop: fill the buffer, copy into it, write it back.\<close>

definition write_one ::
  "host \<Rightarrow> bool \<Rightarrow> nat \<Rightarrow> byte list \<Rightarrow> nat \<Rightarrow> fatfs \<Rightarrow> int \<times> fatfs" where
  "write_one h is_writing_new_blocks offset_in_block data block fs =
     (let (code, fs) = (if is_writing_new_blocks
                        then (0, fs\<lparr>block_buf := replicate (block_size fs) 0\<rparr>)
                        else load_block h block fs) in
      if code \<noteq> 0 then (EK_WRITE_GET_BLOCK_FAILED, fs)
      else
        let fs = fs\<lparr>block_buf := overlay offset_in_block data (block_buf fs)\<rparr>;
            (code, fs) = write_block h block (block_buf fs) fs
        in (if code \<noteq> 0 then EK_WRITE_WRITE_BLOCK_FAILED else 0, fs))"

partial_function (option) write_loop ::
  "host \<Rightarrow> byte list \<Rightarrow> int \<Rightarrow> nat \<Rightarrow> nat \<Rightarrow> int \<Rightarrow> nat \<Rightarrow> nat \<Rightarrow> fatfs \<Rightarrow>
     ((int + nat \<times> int) \<times> fatfs) option" where
  "write_loop h str n offset file_size n_copied offset_in_block block fs =
     (if n > n_copied then
        let bs = block_size fs;
            curr_block_idx = u16 (u32_of_int (int offset + n_copied) div bs);
            origin_file_max_block_idx = u16 (u32 (file_size + bs - 1) div bs);
            n_to_copy = u16 (nat (min_int (n - n_copied) (int bs - int offset_in_block)));
            data = chunk (nat n_copied) n_to_copy str
        in if nat n_copied + n_to_copy > length str then None
        else
          case write_one h (curr_block_idx > origin_file_max_block_idx) offset_in_block data block fs of
            (code, fs) \<Rightarrow>
              if code \<noteq> 0 then Some (Inl code, fs)
              else if n_copied + int n_to_copy \<ge> n
              then Some (Inr (block, n_copied + int n_to_copy), fs)
              else do {
                (res, fs) \<leftarrow> write_advance curr_block_idx origin_file_max_block_idx block fs;
                case res of
                  Inl code \<Rightarrow> Some (Inl code, fs)
                | Inr None \<Rightarrow> Some (Inr (block, n_copied + int n_to_copy), fs)
                | Inr (Some next_block) \<Rightarrow>
                    write_loop h str n offset file_size (n_copied + int n_to_copy) 0 next_block fs
              }
      else Some (Inr (block, n_copied), fs))"

text \<open>The first block of the file, allocated when there is none; \<^term>\<open>None\<close> inside: disk full.\<close>

definition write_first_block ::
  "nat \<Rightarrow> directory_entry \<Rightarrow> fatfs \<Rightarrow> (directory_entry option \<times> fatfs) option" where
  "write_first_block fd e fs =
     (if de_first_block e = 0 then do {
        new_block \<leftarrow> first_empty_block fs;
        if new_block = 0 then Some (None, fs)
        else do {
          fs \<leftarrow> fat_set fs new_block FAT_END_OF_FILE;
          let e = e\<lparr>de_first_block := new_block\<rparr>;
          Some (Some e, fd_upd fd (\<lambda>g. g\<lparr>ptr_to_dir_entry := Some e\<rparr>) fs)
        }
      } else Some (Some e, fs))"

text \<open>The end of \<open>k_write\<close>: close the chain, update offset, size and time, write the entry.\<close>

definition write_finish ::
  "host \<Rightarrow> nat \<Rightarrow> directory_entry \<Rightarrow> nat \<Rightarrow> nat \<Rightarrow> int \<Rightarrow> fatfs \<Rightarrow> (int \<times> fatfs) option" where
  "write_finish h fd e offset block n_copied fs = do {
     fs \<leftarrow> fat_set fs block FAT_END_OF_FILE;
     let new_offset = u32_of_int (int offset + n_copied);
     let fs = fd_upd fd (\<lambda>g. g\<lparr>fd_offset := new_offset\<rparr>) fs;
     case h_time h of
       None \<Rightarrow> Some (EK_WRITE_TIME_FAILED, fs)
     | Some mtime \<Rightarrow> do {
         let e = e\<lparr>de_mtime := mtime, de_size := new_offset\<rparr>;
         let fs = fd_upd fd (\<lambda>g. g\<lparr>ptr_to_dir_entry := Some e\<rparr>) fs;
         let g = global_fd_table fs fd;
         (code, fs) \<leftarrow> write_root_dir_entry h e (dir_entry_block_num g) (dir_entry_idx g) fs;
         Some (if code \<noteq> 0 then EK_WRITE_WRITE_ROOT_DIR_ENTRY_FAILED else n_copied, fs)
       }
   }"

definition write_body ::
  "host \<Rightarrow> nat \<Rightarrow> byte list \<Rightarrow> int \<Rightarrow> directory_entry \<Rightarrow> nat \<Rightarrow> fatfs \<Rightarrow> (int \<times> fatfs) option" where
  "write_body h fd str n e offset fs =
     (let offset_block_idx = u16 (u32 (offset + block_size fs) div block_size fs);
          offset_in_block = u16 (offset mod block_size fs) in
      do {
        (res, fs) \<leftarrow> write_walk h (de_size e) offset_block_idx 0 (de_first_block e) fs;
        case res of
          Inl code \<Rightarrow> Some (code, fs)
        | Inr (block, n_blocks_deep) \<Rightarrow> do {
            (res, fs) \<leftarrow> write_fill h (offset_block_idx - n_blocks_deep) block fs;
            case res of
              Inl code \<Rightarrow> Some (code, fs)
            | Inr block \<Rightarrow> do {
                (res, fs) \<leftarrow> write_loop h str n offset (de_size e) 0 offset_in_block block fs;
                case res of
                  Inl code \<Rightarrow> Some (code, fs)
                | Inr (block, n_copied) \<Rightarrow> write_finish h fd e offset block n_copied fs
              }
          }
      })"

definition k_write :: "host \<Rightarrow> int \<Rightarrow> byte list \<Rightarrow> int \<Rightarrow> fatfs \<Rightarrow> (int \<times> fatfs) option" where
  "k_write h fd str n fs =
     (if fd = 0 \<or> fd = 1 \<or> fd = 2 then
        if size_t_of_int n > length str then None
        else (case h_terminal_out h fd of
                None \<Rightarrow> Some (EK_WRITE_WRITE_FAILED, fs)
              | Some k \<Rightarrow>
                  let bytes = take (min k (size_t_of_int n)) str
                  in Some (int (length bytes), fs\<lparr>console := console fs @ [(fd, bytes)]\<rparr>))
      else if \<not> is_mounted fs then Some (EFS_NOT_MOUNTED, fs)
      else if fd \<ge> int GLOBAL_FD_TABLE_SIZE \<or> fd < 0 then Some (EK_WRITE_FD_OUT_OF_RANGE, fs)
      else
        let fd = nat fd; g = global_fd_table fs fd in
        if ref_count g = 0 then Some (EK_WRITE_FD_NOT_IN_TABLE, fs)
        else do {
          e \<leftarrow> ptr_to_dir_entry g;
          if de_perm e \<noteq> P_WRITE_ONLY_FILE_PERMISSION \<and>
             de_perm e < P_READ_WRITE_AND_EXECUTABLE_FILE_PERMISSION
          then Some (EK_WRITE_WRONG_PERMISSIONS, fs)
          else if n = 0 then Some (0, fs)
          else do {
            let offset = (if write_locked g = 2 then de_size e else fd_offset g);
            (res, fs) \<leftarrow> write_first_block fd e fs;
            case res of
              None \<Rightarrow> Some (0, fs)
            | Some e \<Rightarrow> write_body h fd str n e offset fs
          }
        })"

section \<open>File contents\<close>

text \<open>
  A file with no block has first block 0; otherwise its blocks are the FAT chain from the first
  one. Its content is the first \<open>de_size\<close> bytes of those blocks.
\<close>

definition file_chain :: "(nat \<Rightarrow> nat) \<Rightarrow> nat \<Rightarrow> nat list \<Rightarrow> bool" where
  "file_chain f b cs \<longleftrightarrow> (if b = 0 then cs = [] else cs \<noteq> [] \<and> is_chain f b cs)"

definition file_bytes :: "fatfs \<Rightarrow> nat list \<Rightarrow> byte list" where
  "file_bytes fs cs = concat (map (blocks fs) cs)"

definition content :: "fatfs \<Rightarrow> directory_entry \<Rightarrow> nat list \<Rightarrow> byte list" where
  "content fs e cs = take (de_size e) (file_bytes fs cs)"

definition file_ok :: "fatfs \<Rightarrow> directory_entry \<Rightarrow> nat list \<Rightarrow> bool" where
  "file_ok fs e cs \<longleftrightarrow> file_chain (fat fs) (de_first_block e) cs \<and> in_region fs cs \<and>
     length cs = (de_size e + block_size fs - 1) div block_size fs"

lemma file_bytes_simps [simp]:
  "file_bytes fs [] = []"
  "file_bytes fs (c # cs) = blocks fs c @ file_bytes fs cs"
  "file_bytes fs (cs @ ds) = file_bytes fs cs @ file_bytes fs ds"
  by (simp_all add: file_bytes_def)

lemma file_bytes_buf [simp]:
  "file_bytes (fs\<lparr>block_buf := buf\<rparr>) cs = file_bytes fs cs"
  "file_bytes (fs\<lparr>fat := f\<rparr>) cs = file_bytes fs cs"
  "file_bytes (fs\<lparr>global_fd_table := t\<rparr>) cs = file_bytes fs cs"
  by (simp_all add: file_bytes_def)

lemma file_bytes_cong: "(\<And>c. c \<in> set cs \<Longrightarrow> blocks fs c = blocks fs' c) \<Longrightarrow> file_bytes fs cs = file_bytes fs' cs"
  by (induction cs) auto

lemma length_file_bytes:
  assumes "blocks_complete fs" "in_region fs cs"
  shows "length (file_bytes fs cs) = length cs * block_size fs"
  using assms(2) by (induction cs) (use assms(1) in \<open>auto simp: blocks_complete_def\<close>)

lemma ceil_div_bounds:
  fixes s k :: nat
  assumes "0 < k"
  shows "s \<le> (s + k - 1) div k * k" "(s + k - 1) div k * k < s + k"
proof -
  have "(s + k - 1) div k * k + (s + k - 1) mod k = s + k - 1" by (rule div_mult_mod_eq)
  moreover have "(s + k - 1) mod k < k" using assms by simp
  ultimately show "s \<le> (s + k - 1) div k * k" "(s + k - 1) div k * k < s + k"
    using assms by linarith+
qed

lemma file_ok_size: "geometry_ok fs \<Longrightarrow> file_ok fs e cs \<Longrightarrow> de_size e \<le> length cs * block_size fs"
  using ceil_div_bounds(1) [of "block_size fs" "de_size e"] geometry_bounds(1) [of fs]
  by (simp add: file_ok_def)

lemma chain_length:
  assumes "is_chain (fat fs) b cs" "in_region fs cs"
  shows "length cs \<le> max_block fs"
proof -
  have "set cs \<subseteq> {1..max_block fs}" using assms(2) by (auto simp: in_region_def)
  then have "card (set cs) \<le> card {1..max_block fs}" by (intro card_mono) auto
  then show ?thesis using distinct_card [OF is_chain_distinct [OF assms(1)]] by simp
qed

lemma file_size_bound:
  assumes "geometry_ok fs" "file_ok fs e cs"
  shows "de_size e \<le> 268431360"
proof -
  have "length cs \<le> max_block fs"
    using assms(2) chain_length [of fs "de_first_block e" cs]
    unfolding file_ok_def file_chain_def by (cases "de_first_block e = 0") simp_all
  then have "length cs * block_size fs \<le> 65535 * 4096"
    using geometry_bounds [OF assms(1)] by (intro mult_le_mono) auto
  then show ?thesis using file_ok_size [OF assms] by simp
qed

section \<open>Facts on k_read\<close>

lemma skip_blocks_chain:
  assumes "geometry_ok fs" "is_chain (fat fs) b cs" "in_region fs cs" "k \<le> length cs"
  shows "\<exists>b'. skip_blocks fs k b = Inr b' \<and> is_chain (fat fs) b' (drop k cs)"
  using assms(2-)
proof (induction k arbitrary: b cs)
  case 0
  then show ?case by simp
next
  case (Suc k)
  then obtain c ds where cs: "cs = c # ds" by (cases cs) auto
  then show ?case
    using Suc.IH [of "fat fs c" ds] Suc.prems next_block_ok [OF assms(1), of c] by simp
qed

lemma min_int_min: "min_int a b = min a b"
  by (simp add: min_int_def min_def)

lemma read_loop_chain:
  assumes "device_ok (h, fs)" "is_chain (fat fs) b cs" "in_region fs cs" "off < block_size fs"
    and "c \<le> n" "off + (n - c) \<le> length cs * block_size fs"
  shows "\<exists>buf. length buf = block_size fs \<and> read_loop h (int n) (int c) off b acc fs =
    Some ((int n, acc @ take (n - c) (drop off (file_bytes fs cs))), fs\<lparr>block_buf := buf\<rparr>)"
  using assms
proof (induction cs arbitrary: c off b acc fs)
  case Nil
  then have "n = c" by simp
  moreover have "length (block_buf fs) = block_size fs"
    using Nil.prems(1) by (simp add: device_ok_def geometry_ok_def)
  ultimately show ?case by (intro exI [of _ "block_buf fs"]) (simp add: read_loop.simps [of h])
next
  case (Cons x xs)
  let ?bs = "block_size fs"
  have geo: "geometry_ok fs" "blocks_complete fs" using Cons.prems(1) by (auto simp: device_ok_def)
  have x: "b = x" "x \<noteq> FAT_END_OF_FILE" "1 \<le> x" "x \<le> max_block fs" "is_chain (fat fs) (fat fs x) xs"
    "in_region fs xs" using Cons.prems by auto
  have len: "length (blocks fs x) = ?bs" using geo(2) x by (simp add: blocks_complete_def)
  show ?case
  proof (cases "n = c")
    case True
    have "length (block_buf fs) = ?bs" using geo by (simp add: geometry_ok_def)
    with True show ?thesis by (intro exI [of _ "block_buf fs"]) (simp add: read_loop.simps [of h])
  next
    case False
    define k where "k = min (n - c) (?bs - off)"
    let ?fs = "fs\<lparr>block_buf := blocks fs x\<rparr>"
    have k: "u16 (nat (min_int (int n - int c) (int ?bs - int off))) = k"
      using Cons.prems(4,5) geometry_bounds(2) [OF geo(1)]
      by (simp add: k_def min_int_min flip: of_nat_diff of_nat_min)
    have load: "load_block h x fs = (0, ?fs)" by (rule device_ok_load [OF Cons.prems(1) x(3,4)])
    have "next_block_num ?fs x x = (0, fat fs x)"
      using x by (simp add: next_block_num_def get_blocks_in_data_region_def)
         (use data_region_value [OF geo(1)] in \<open>simp add: get_blocks_in_data_region_def\<close>)
    then have step: "read_loop h (int n) (int c) off b acc fs =
        read_loop h (int n) (int (c + k)) 0 (fat fs x) (acc @ chunk off k (blocks fs x)) ?fs"
      using False Cons.prems(5) x load k by (simp add: read_loop.simps [of h _ _ _ x])
    have "\<exists>buf. length buf = block_size ?fs \<and>
        read_loop h (int n) (int (c + k)) 0 (fat fs x) (acc @ chunk off k (blocks fs x)) ?fs =
        Some ((int n, (acc @ chunk off k (blocks fs x)) @ take (n - (c + k)) (drop 0 (file_bytes ?fs xs))),
              ?fs\<lparr>block_buf := buf\<rparr>)"
      using Cons.prems(1,4-6) x geo geometry_bounds(1) [OF geo(1)] device_ok_buf
      by (intro Cons.IH) (auto simp: k_def min_def)
    moreover have "take (n - c) (drop off (file_bytes fs (x # xs))) =
        chunk off k (blocks fs x) @ take (n - (c + k)) (file_bytes fs xs)"
      using Cons.prems(4) len by (auto simp: k_def chunk_def min_def)
    ultimately show ?thesis using step by simp
  qed
qed

lemma file_bytes_drop:
  assumes "blocks_complete fs" "in_region fs cs" "q \<le> length cs"
  shows "drop (q * block_size fs + r) (file_bytes fs cs) = drop r (file_bytes fs (drop q cs))"
proof -
  have "length (file_bytes fs (take q cs)) = q * block_size fs"
    using assms by (subst length_file_bytes) (auto simp: in_region_def dest: in_set_takeD)
  moreover have "file_bytes fs cs = file_bytes fs (take q cs) @ file_bytes fs (drop q cs)"
    by (metis append_take_drop_id file_bytes_simps(3))
  ultimately show ?thesis by simp
qed

lemma fd_upd_frame [simp]:
  "fat (fd_upd fd g fs) = fat fs" "blocks (fd_upd fd g fs) = blocks fs"
  "block_buf (fd_upd fd g fs) = block_buf fs" "block_size (fd_upd fd g fs) = block_size fs"
  "fat_size (fd_upd fd g fs) = fat_size fs" "console (fd_upd fd g fs) = console fs"
  "max_block (fd_upd fd g fs) = max_block fs" "is_mounted (fd_upd fd g fs) = is_mounted fs"
  "geometry_ok (fd_upd fd g fs) = geometry_ok fs" "in_region (fd_upd fd g fs) cs = in_region fs cs"
  "blocks_complete (fd_upd fd g fs) = blocks_complete fs"
  "device_ok (h, fd_upd fd g fs) = device_ok (h, fs)"
  "file_bytes (fd_upd fd g fs) cs = file_bytes fs cs"
  "dir_slots (fd_upd fd g fs) bs = dir_slots fs bs"
  "entries_per_block (fd_upd fd g fs) = entries_per_block fs"
  by (simp_all add: fd_upd_def entries_per_block_def)

lemma fd_upd_table [simp]:
  "global_fd_table (fd_upd fd g fs) i = (if i = fd then g (global_fd_table fs fd) else global_fd_table fs i)"
  by (simp add: fd_upd_def)

text \<open>The bytes that a read of at most \<open>n\<close> bytes at the current offset gives.\<close>

lemma k_read_spec:
  fixes n :: nat
  assumes dev: "device_ok (h, fs)" and fd: "3 \<le> fd" "fd < GLOBAL_FD_TABLE_SIZE"
    and g: "ref_count (global_fd_table fs fd) > 0" "ptr_to_dir_entry (global_fd_table fs fd) = Some e"
    and perm: "P_READ_ONLY_FILE_PERMISSION \<le> de_perm e" and ok: "file_ok fs e cs"
  defines "off \<equiv> fd_offset (global_fd_table fs fd)"
  defines "d \<equiv> take n (drop off (content fs e cs))"
  shows "\<exists>buf. length buf = block_size fs \<and> k_read h (int fd) (int n) fs = Some ((int (length d), d),
    fd_upd fd (\<lambda>g. g\<lparr>fd_offset := off + length d\<rparr>) (fs\<lparr>block_buf := buf\<rparr>))"
proof -
  let ?bs = "block_size fs"
  have geo: "geometry_ok fs" "blocks_complete fs" "is_mounted fs" "length (block_buf fs) = ?bs"
    using dev by (auto simp: device_ok_def geometry_ok_def)
  have bs: "256 \<le> ?bs" "?bs \<le> 4096" using geometry_bounds [OF geo(1)] by auto
  have size: "de_size e \<le> length cs * ?bs" "de_size e \<le> 268431360"
    by (rule file_ok_size [OF geo(1) ok], rule file_size_bound [OF geo(1) ok])
  have len: "length (content fs e cs) = de_size e"
    using size(1) length_file_bytes [OF geo(2)] ok by (simp add: content_def file_ok_def)
  have id: "fd_upd fd (\<lambda>g. g\<lparr>fd_offset := off\<rparr>) (fs\<lparr>block_buf := block_buf fs\<rparr>) = fs"
    by (simp add: fd_upd_def off_def)
  show ?thesis
  proof (cases "off < de_size e \<and> n \<noteq> 0")
    case False
    then have "d = []" using len by (auto simp: d_def)
    then show ?thesis
      using False fd g perm geo id by (intro exI [of _ "block_buf fs"]) (auto simp: k_read_def off_def Let_def)
  next
    case True
    let ?q = "off div ?bs"
    let ?r = "off mod ?bs"
    have cs: "is_chain (fat fs) (de_first_block e) cs" "in_region fs cs"
      using ok True size by (auto simp: file_ok_def file_chain_def split: if_splits)
    have q: "?q < length cs" using True size(1) bs by (intro less_mult_imp_div_less) simp
    have "length cs \<le> 65535" using chain_length [OF cs] geometry_bounds(6) [OF geo(1)] by simp
    then have q16: "u16 ?q = ?q" using q by simp
    obtain b where b: "skip_blocks fs ?q (de_first_block e) = Inr b" "is_chain (fat fs) b (drop ?q cs)"
      using skip_blocks_chain [OF geo(1) cs] q by (meson less_imp_le)
    have r: "?r < ?bs" using bs by simp
    then have r16: "u16 ?r = ?r" using bs(2) by (intro u16_id) linarith
    define m where "m = min n (de_size e - off)"
    have m: "min_int (int n) (s32 (de_size e - off)) = int m"
      using size(2) by (simp add: m_def s32_def min_int_min of_nat_min)
    have off: "?q * ?bs + ?r = off" by simp
    have fits: "?r + (m - 0) \<le> length (drop ?q cs) * ?bs"
    proof -
      have "m + off \<le> de_size e" using True unfolding m_def by linarith
      moreover have "length (drop ?q cs) * ?bs = length cs * ?bs - ?q * ?bs" by (simp add: diff_mult_distrib)
      ultimately show ?thesis using size(1) off by linarith
    qed
    have "in_region fs (drop ?q cs)" using cs(2) by (auto simp: in_region_def dest: in_set_dropD)
    then obtain buf where buf: "length buf = ?bs"
      "read_loop h (int m) 0 ?r b [] fs =
        Some ((int m, take m (drop ?r (file_bytes fs (drop ?q cs)))), fs\<lparr>block_buf := buf\<rparr>)"
      using read_loop_chain [OF dev b(2) _ r _ fits, of "[]"] by auto
    have drop: "drop off (file_bytes fs cs) = drop ?r (file_bytes fs (drop ?q cs))"
      using file_bytes_drop [OF geo(2) cs(2), of ?q ?r] q off by simp
    have d: "d = take m (drop ?r (file_bytes fs (drop ?q cs)))" "length d = m"
      using len True by (auto simp: d_def m_def content_def drop_take min.commute simp flip: drop)
    have "off + m \<le> de_size e" using True unfolding m_def by linarith
    then have new: "u32_of_int (int off + int m) = off + m" using size(2) by (intro u32_of_int_add) simp
    have "k_read h (int fd) (int n) fs = Some ((int m, d),
        fd_upd fd (\<lambda>g. g\<lparr>fd_offset := u32_of_int (int (fd_offset g) + int m)\<rparr>) (fs\<lparr>block_buf := buf\<rparr>))"
      using fd g perm geo(3) True q16 r16 m b(1) buf(2) d(1)
      by (simp add: k_read_def Let_def off_def [symmetric])
    moreover have "fd_upd fd (\<lambda>g. g\<lparr>fd_offset := u32_of_int (int (fd_offset g) + int m)\<rparr>) (fs\<lparr>block_buf := buf\<rparr>) =
        fd_upd fd (\<lambda>g. g\<lparr>fd_offset := off + m\<rparr>) (fs\<lparr>block_buf := buf\<rparr>)"
      using new by (simp add: fd_upd_def off_def)
    ultimately show ?thesis using buf(1) d(2) by auto
  qed
qed

end
