(* ===== verification/Fat_Append.thy ===== *)
theory Fat_Append
  imports Fat_IO
begin

text \<open>
  The write path of \<open>k_write\<close> at the end of a file, the case of \<open>F_APPEND\<close> and of sequential
  writing: each stage of the call (the first block, the walk to the last block, the extra block
  when the file ends on a block boundary, the copy loop, the directory update) is shown to
  extend the chain of the file by free blocks and its content by the written bytes.

  Between two steps of the copy loop the FAT entry of the current block is not yet the end
  mark; the invariant of the loop therefore speaks about the FAT with that entry set.
\<close>

section \<open>Free blocks\<close>

definition free_blocks :: "fatfs \<Rightarrow> nat set" where
  "free_blocks fs = {k. 1 \<le> k \<and> k \<le> max_block fs \<and> k < 65535 \<and> fat fs k = 0}"

lemma finite_free_blocks [simp]: "finite (free_blocks fs)"
  by (rule finite_subset [of _ "{..max_block fs}"]) (auto simp: free_blocks_def)

lemma free_blocks_update [simp]:
  "free_blocks (fs\<lparr>block_buf := buf\<rparr>) = free_blocks fs"
  "free_blocks (fs\<lparr>blocks := bl\<rparr>) = free_blocks fs"
  "free_blocks (fd_upd fd g fs) = free_blocks fs"
  by (simp_all add: free_blocks_def)

lemma free_blocks_set: "v \<noteq> 0 \<Longrightarrow> free_blocks (fs\<lparr>fat := (fat fs)(b := v)\<rparr>) = free_blocks fs - {b}"
  by (auto simp: free_blocks_def)

lemma first_empty_block_in_free:
  assumes "geometry_ok fs" "free_blocks fs \<noteq> {}"
  shows "\<exists>nb. first_empty_block fs = Some nb \<and> nb \<noteq> 0 \<and> nb \<in> free_blocks fs"
proof -
  obtain nb where nb: "first_empty_block fs = Some nb" "nb \<noteq> 0"
    using first_empty_block_exists [OF assms(1)] assms(2) by (auto simp: free_blocks_def)
  then show ?thesis using first_empty_block_free [OF assms(1) nb] by (auto simp: free_blocks_def)
qed

section \<open>Stage results\<close>

text \<open>
  \<open>extends fs cs fs' cs'\<close>: the chain grew from \<open>cs\<close> to \<open>cs'\<close> by blocks that were free, and
  nothing outside of \<open>cs'\<close> changed.
\<close>

definition extends :: "fatfs \<Rightarrow> nat list \<Rightarrow> fatfs \<Rightarrow> nat list \<Rightarrow> bool" where
  "extends fs cs fs' cs' \<longleftrightarrow> (\<exists>ns. cs' = cs @ ns \<and> set ns \<subseteq> free_blocks fs) \<and>
     (\<forall>k. k \<notin> set cs' \<longrightarrow> fat fs' k = fat fs k \<and> blocks fs' k = blocks fs k) \<and>
     global_fd_table fs' = global_fd_table fs \<and> block_size fs' = block_size fs \<and>
     max_block fs' = max_block fs"

section \<open>The walk to the last block\<close>

lemma zero_tail_ok:
  assumes "device_ok (h, fs)" "1 \<le> b" "b \<le> max_block fs"
    and "(d - 1) * block_size fs \<le> s" "s \<le> d * block_size fs" "1 \<le> d" "s < 4294967296"
  defines "bl \<equiv> overlay (s - (d - 1) * block_size fs) (replicate (d * block_size fs - s) 0) (blocks fs b)"
  shows "zero_tail h s d b fs = Some (0, fs\<lparr>block_buf := bl, blocks := (blocks fs)(b := bl)\<rparr>)"
proof -
  let ?bs = "block_size fs"
  let ?r = "s - (d - 1) * ?bs"
  have geo: "geometry_ok fs" "length (blocks fs b) = ?bs"
    using assms(1-3) by (auto simp: device_ok_def blocks_complete_def)
  have bs: "?bs \<le> 4096" by (rule geometry_bounds(2) [OF geo(1)])
  have dd: "d * ?bs = (d - 1) * ?bs + ?bs" using assms(6) by (cases d) auto
  have r: "?r \<le> ?bs" "?bs - ?r = d * ?bs - s" using assms(4,5) dd by simp_all
  have "int s - (int d - 1) * int ?bs = int ?r" using assms(4,6) by (simp add: of_nat_diff)
  then have nfb: "u16 (u32_of_int (int s - (int d - 1) * int ?bs)) = ?r"
    using r(1) bs assms(7) by (simp add: u32_of_int_nonneg)
  have len: "length bl = ?bs" unfolding bl_def using r geo(2) by simp
  have "device_ok (h, fs\<lparr>block_buf := bl\<rparr>)" using assms(1) len by simp
  then have "write_block h b bl (fs\<lparr>block_buf := bl\<rparr>) = (0, fs\<lparr>block_buf := bl, blocks := (blocks fs)(b := bl)\<rparr>)"
    using assms(2,3) len by (subst write_block_ok) (auto simp: device_ok_def)
  then show ?thesis
    using device_ok_load [OF assms(1-3)] r nfb
    by (simp add: zero_tail_def Let_def bl_def)
qed

lemma write_walk_chain:
  assumes "device_ok (h, fs)" "is_chain (fat fs) b (cs @ [l])" "in_region fs (cs @ [l])"
    and "Suc (length cs) \<le> k"
    and "(d + length cs) * block_size fs \<le> s" "s \<le> (d + Suc (length cs)) * block_size fs" "s < 4294967296"
  defines "bl \<equiv> overlay (s - (d + length cs) * block_size fs)
    (replicate ((d + Suc (length cs)) * block_size fs - s) 0) (blocks fs l)"
  shows "write_walk h s k d b fs =
    Some (Inr (l, d + Suc (length cs)), fs\<lparr>block_buf := bl, blocks := (blocks fs)(l := bl)\<rparr>)"
  using assms(2-6) unfolding bl_def
proof (induction cs arbitrary: b k d)
  case Nil
  then obtain k' where k: "k = Suc k'" by (cases k) auto
  have l: "b = l" "1 \<le> l" "l \<le> max_block fs" "fat fs l = FAT_END_OF_FILE"
    using Nil.prems by auto
  define bl where "bl = overlay (s - d * block_size fs) (replicate ((d + 1) * block_size fs - s) 0) (blocks fs l)"
  have "zero_tail h s (d + 1) l fs = Some (0, fs\<lparr>block_buf := bl, blocks := (blocks fs)(l := bl)\<rparr>)"
    using zero_tail_ok [OF assms(1) l(2,3), of "d + 1" s] Nil.prems assms(7) by (simp add: bl_def)
  then show ?case
    using k l next_block_ok [of fs l 0] assms(1) by (simp add: device_ok_def bl_def fun_upd_def)
next
  case (Cons c cs)
  then obtain k' where k: "k = Suc k'" by (cases k) auto
  have c: "b = c" "1 \<le> c" "c \<le> max_block fs" "is_chain (fat fs) (fat fs c) (cs @ [l])"
    using Cons.prems by auto
  then have "fat fs c \<noteq> FAT_END_OF_FILE" by (cases cs) auto
  moreover have "next_block_num fs c 0 = (0, fat fs c)"
    using c assms(1) next_block_ok [of fs c 0] by (simp add: device_ok_def)
  ultimately show ?case
    using Cons.IH [of "fat fs c" k' "d + 1"] Cons.prems k c by simp
qed

section \<open>The copy loop\<close>

text \<open>The state in which the loop writes block \<open>b\<close>, the last of the chain \<open>cs @ [b]\<close> from \<open>a\<close>.\<close>

definition open_end :: "fatfs \<Rightarrow> nat \<Rightarrow> nat list \<Rightarrow> nat \<Rightarrow> bool" where
  "open_end fs a cs b \<longleftrightarrow> is_chain ((fat fs)(b := FAT_END_OF_FILE)) a (cs @ [b]) \<and> in_region fs (cs @ [b])"

lemma open_end_update [simp]:
  "open_end (fs\<lparr>block_buf := buf\<rparr>) a cs b = open_end fs a cs b"
  "open_end (fs\<lparr>blocks := bl\<rparr>) a cs b = open_end fs a cs b"
  by (simp_all add: open_end_def)

lemma write_one_ok:
  assumes "device_ok (h, fs)" "1 \<le> b" "b \<le> max_block fs" "off + length data \<le> block_size fs"
    and "new \<longrightarrow> off = 0"
  shows "\<exists>bl. write_one h new off data b fs = (0, fs\<lparr>block_buf := bl, blocks := (blocks fs)(b := bl)\<rparr>) \<and>
    length bl = block_size fs \<and> take (off + length data) bl = take off (blocks fs b) @ data"
proof -
  let ?old = "if new then replicate (block_size fs) 0 else blocks fs b"
  let ?bl = "overlay off data ?old"
  have len: "length ?old = block_size fs" "length (blocks fs b) = block_size fs"
    using assms(1-3) by (auto simp: device_ok_def blocks_complete_def)
  then have bl: "length ?bl = block_size fs" using assms(4) by simp
  have "device_ok (h, fs\<lparr>block_buf := ?bl\<rparr>)" using assms(1) bl by simp
  then have "write_block h b ?bl (fs\<lparr>block_buf := ?bl\<rparr>) = (0, fs\<lparr>block_buf := ?bl, blocks := (blocks fs)(b := ?bl)\<rparr>)"
    using assms(2,3) bl by (subst write_block_ok) (auto simp: device_ok_def)
  then have "write_one h new off data b fs = (0, fs\<lparr>block_buf := ?bl, blocks := (blocks fs)(b := ?bl)\<rparr>)"
    using device_ok_load [OF assms(1-3)] by (cases new) (simp_all add: write_one_def)
  moreover have "take (off + length data) ?bl = take off (blocks fs b) @ data"
    using len assms(4,5) take_overlay [of off ?old data] by auto
  ultimately show ?thesis using bl by blast
qed

lemma write_advance_ok:
  assumes dev: "device_ok (h, fs)" and oe: "open_end fs a cs b" and idx: "\<not> i + 1 < m"
    and free: "free_blocks fs - {b} \<noteq> {}"
  shows "\<exists>nb fs'. write_advance i m b fs = Some (Inr (Some nb), fs') \<and> nb \<in> free_blocks fs - {b} \<and>
    fs' = fs\<lparr>fat := (fat fs)(b := nb)\<rparr> \<and> open_end fs' a (cs @ [b]) nb \<and>
    free_blocks fs' - {nb} = free_blocks fs - {b, nb}"
proof -
  let ?fs1 = "fs\<lparr>fat := (fat fs)(b := FAT_END_OF_FILE)\<rparr>"
  have geo: "geometry_ok fs" using dev by (simp add: device_ok_def)
  have b: "1 \<le> b" "b \<le> max_block fs" "in_region fs cs" using oe by (auto simp: open_end_def)
  have f1: "free_blocks ?fs1 = free_blocks fs - {b}" by (rule free_blocks_set) simp
  then obtain nb where nb: "first_empty_block ?fs1 = Some nb" "nb \<noteq> 0" "nb \<in> free_blocks fs - {b}"
    using first_empty_block_in_free [of ?fs1] geo free by auto
  let ?fs' = "fs\<lparr>fat := (fat fs)(b := nb)\<rparr>"
  have "\<forall>c\<in>set (cs @ [b]). 1 \<le> c" using b by (auto simp: in_region_def)
  then have "\<forall>c\<in>set (cs @ [b]). (fat ?fs1) c \<noteq> 0"
    using oe chain_nonzero [of "(fat fs)(b := FAT_END_OF_FILE)" a "cs @ [b]"] by (auto simp: open_end_def)
  then have new: "nb \<notin> set (cs @ [b])" using nb(3) by (auto simp: free_blocks_def)
  have nb': "nb < 65535" "1 \<le> nb" "nb \<le> max_block fs" using nb(3) by (auto simp: free_blocks_def)
  have "is_chain ((fat ?fs1)(b := nb, nb := FAT_END_OF_FILE)) a (cs @ [b, nb])"
    using oe new nb'(1) by (intro is_chain_snoc) (simp_all add: open_end_def)
  then have oe': "open_end ?fs' a (cs @ [b]) nb"
    using b nb' by (simp add: open_end_def)
  have "write_advance i m b fs = Some (Inr (Some nb), ?fs')"
    using idx nb(1,2) geo b(2) fat_set_region [OF geo b(2)] fat_set_region [of ?fs1 b nb]
    by (simp add: write_advance_def)
  moreover have "free_blocks ?fs' - {nb} = free_blocks fs - {b, nb}"
    using nb(2) by (subst free_blocks_set) auto
  ultimately show ?thesis using oe' nb(3) by blast
qed

text \<open>
  \<open>tail_written fs b fs' ns\<close>: only block \<open>b\<close> and the blocks \<open>ns\<close>, free before, were changed.
\<close>

definition tail_written :: "fatfs \<Rightarrow> nat \<Rightarrow> fatfs \<Rightarrow> nat list \<Rightarrow> bool" where
  "tail_written fs b fs' ns \<longleftrightarrow> set ns \<subseteq> free_blocks fs - {b} \<and>
     (\<forall>k. k \<notin> set (b # ns) \<longrightarrow> fat fs' k = fat fs k \<and> blocks fs' k = blocks fs k) \<and>
     global_fd_table fs' = global_fd_table fs \<and> block_size fs' = block_size fs \<and>
     max_block fs' = max_block fs"

text \<open>The bytes up to position \<open>p\<close> of the chain, which ends in the block of \<open>p\<close>.\<close>

lemma take_position:
  assumes "blocks_complete fs" "in_region fs cs" "p = length cs * block_size fs + off"
  shows "take p (file_bytes fs (cs @ [b])) = file_bytes fs cs @ take off (blocks fs b)"
  using length_file_bytes [OF assms(1,2)] assms(3) by simp

lemma open_end_facts:
  assumes "device_ok (h, fs)" "open_end fs a cs b"
  shows "b \<notin> set cs" "1 \<le> b" "b \<le> max_block fs" "in_region fs cs" "length cs < 65535"
proof -
  have geo: "geometry_ok fs" using assms(1) by (simp add: device_ok_def)
  show "b \<notin> set cs" using is_chain_distinct assms(2) by (fastforce simp: open_end_def)
  show "1 \<le> b" "b \<le> max_block fs" "in_region fs cs" using assms(2) by (auto simp: open_end_def)
  have "length (cs @ [b]) \<le> max_block (fs\<lparr>fat := (fat fs)(b := FAT_END_OF_FILE)\<rparr>)"
    using assms(2) by (intro chain_length [where b = a]) (auto simp: open_end_def)
  then show "length cs < 65535" using geometry_bounds(6) [OF geo] by simp
qed

text \<open>The numbers the loop computes at position \<open>s + c\<close>.\<close>

lemma write_loop_numbers:
  assumes "geometry_ok fs" "s + c = len * block_size fs + off" "off < block_size fs" "len < 65535"
    and "c < n" "(s + block_size fs - 1) div block_size fs \<le> Suc len"
  shows "u16 (u32_of_int (int s + int c) div block_size fs) = len"
    and "u16 (u32 (s + block_size fs - 1) div block_size fs) = (s + block_size fs - 1) div block_size fs"
    and "u16 (nat (min_int (int n - int c) (int (block_size fs) - int off))) = min (n - c) (block_size fs - off)"
proof -
  let ?bs = "block_size fs"
  have bs: "256 \<le> ?bs" "?bs \<le> 4096" using geometry_bounds [OF assms(1)] by auto
  have "len * ?bs \<le> 65535 * 4096" using assms(4) bs by (intro mult_le_mono) auto
  then have small: "s + c < 4294967296" "s + ?bs - 1 < 4294967296" using assms(2,3) bs by simp_all
  have "(len * ?bs + off) div ?bs = len" using assms(3) by simp
  then show "u16 (u32_of_int (int s + int c) div ?bs) = len" using small assms(2,4) by simp
  show "u16 (u32 (s + ?bs - 1) div ?bs) = (s + ?bs - 1) div ?bs" using small assms(4,6) by simp
  have "min_int (int n - int c) (int ?bs - int off) = int (min (n - c) (?bs - off))"
    using assms(3,5) by (simp add: min_int_min of_nat_min of_nat_diff)
  then show "u16 (nat (min_int (int n - int c) (int ?bs - int off))) = min (n - c) (?bs - off)"
    using bs by simp
qed

lemma write_loop_last:
  assumes dev: "device_ok (h, fs)" and oe: "open_end fs a cs b" and c: "c < n" "n \<le> length str"
    and pos: "s + c = length cs * block_size fs + off" "off < block_size fs" "off + (n - c) \<le> block_size fs"
    and idx: "(s + block_size fs - 1) div block_size fs \<le> Suc (length cs)"
      "off = 0 \<or> length cs \<le> (s + block_size fs - 1) div block_size fs"
  shows "\<exists>fs'. write_loop h str (int n) s s (int c) off b fs = Some (Inr (b, int n), fs') \<and>
    device_ok (h, fs') \<and> open_end fs' a cs b \<and> tail_written fs b fs' [] \<and>
    take (s + n) (file_bytes fs' (cs @ [b])) = take (s + c) (file_bytes fs (cs @ [b])) @ chunk c (n - c) str"
proof -
  let ?bs = "block_size fs"
  let ?new = "length cs > (s + ?bs - 1) div ?bs"
  have geo: "geometry_ok fs" "blocks_complete fs" using dev by (auto simp: device_ok_def)
  note b = open_end_facts [OF dev oe]
  note nums = write_loop_numbers [OF geo(1) pos(1,2) b(5) c(1) idx(1)]
  have k: "min (n - c) (?bs - off) = n - c" using pos by simp
  have len: "length (chunk c (n - c) str) = n - c" using c by simp
  obtain bl where bl: "write_one h ?new off (chunk c (n - c) str) b fs =
      (0, fs\<lparr>block_buf := bl, blocks := (blocks fs)(b := bl)\<rparr>)" "length bl = ?bs"
      "take (off + (n - c)) bl = take off (blocks fs b) @ chunk c (n - c) str"
    using write_one_ok [OF dev b(2,3), of off "chunk c (n - c) str" ?new] pos(3) idx(2) len by auto
  let ?fs' = "fs\<lparr>block_buf := bl, blocks := (blocks fs)(b := bl)\<rparr>"
  have "write_loop h str (int n) s s (int c) off b fs = Some (Inr (b, int n), ?fs')"
    by (subst write_loop.simps) (use c bl(1) in \<open>simp only: Let_def nums k nat_int\<close>, use len c in simp)
  moreover have dev': "device_ok (h, ?fs')" using dev bl(2) by (simp add: device_ok_def blocks_complete_def max_block_def)
  moreover have "take (s + n) (file_bytes ?fs' (cs @ [b])) =
      take (s + c) (file_bytes fs (cs @ [b])) @ chunk c (n - c) str"
  proof -
    have eq: "file_bytes ?fs' cs = file_bytes fs cs" using b(1) by (intro file_bytes_cong) auto
    have "s + n = length cs * block_size ?fs' + (off + (n - c))" using pos(1) c(1) by simp
    then have "take (s + n) (file_bytes ?fs' (cs @ [b])) = file_bytes ?fs' cs @ take (off + (n - c)) (blocks ?fs' b)"
      using dev' b(4) by (intro take_position) (auto simp: device_ok_def)
    moreover have "take (s + c) (file_bytes fs (cs @ [b])) = file_bytes fs cs @ take off (blocks fs b)"
      using geo(2) b(4) pos(1) by (intro take_position)
    ultimately show ?thesis using eq bl(3) by simp
  qed
  moreover have "open_end ?fs' a cs b" using oe by simp
  moreover have "tail_written fs b ?fs' []" by (simp add: tail_written_def)
  ultimately show ?thesis by blast
qed

text \<open>One full block, after which the loop goes on with a fresh one.\<close>

lemma write_loop_step:
  assumes dev: "device_ok (h, fs)" and oe: "open_end fs a cs b" and c: "c < n" "n \<le> length str"
    and pos: "s + c = length cs * block_size fs + off" "off < block_size fs" "block_size fs < off + (n - c)"
    and idx: "(s + block_size fs - 1) div block_size fs \<le> Suc (length cs)"
      "off = 0 \<or> length cs \<le> (s + block_size fs - 1) div block_size fs"
    and free: "free_blocks fs - {b} \<noteq> {}"
  defines "c' \<equiv> c + (block_size fs - off)"
  shows "\<exists>nb fs'. write_loop h str (int n) s s (int c) off b fs =
      write_loop h str (int n) s s (int c') 0 nb fs' \<and>
    device_ok (h, fs') \<and> open_end fs' a (cs @ [b]) nb \<and> tail_written fs b fs' [nb] \<and>
    free_blocks fs' - {nb} = free_blocks fs - {b, nb} \<and>
    file_bytes fs' (cs @ [b]) = take (s + c) (file_bytes fs (cs @ [b])) @ chunk c (block_size fs - off) str"
proof -
  let ?bs = "block_size fs"
  let ?k = "?bs - off"
  let ?m = "(s + ?bs - 1) div ?bs"
  let ?new = "length cs > ?m"
  have geo: "geometry_ok fs" "blocks_complete fs" using dev by (auto simp: device_ok_def)
  note b = open_end_facts [OF dev oe]
  note nums = write_loop_numbers [OF geo(1) pos(1,2) b(5) c(1) idx(1)]
  have k: "min (n - c) ?k = ?k" "c + ?k < n" using pos by simp_all
  have len: "length (chunk c ?k str) = ?k" using c k by simp
  obtain bl where bl: "write_one h ?new off (chunk c ?k str) b fs =
      (0, fs\<lparr>block_buf := bl, blocks := (blocks fs)(b := bl)\<rparr>)" "length bl = ?bs"
      "take (off + ?k) bl = take off (blocks fs b) @ chunk c ?k str"
    using write_one_ok [OF dev b(2,3), of off "chunk c ?k str" ?new] pos(2) idx(2) len by auto
  let ?fs1 = "fs\<lparr>block_buf := bl, blocks := (blocks fs)(b := bl)\<rparr>"
  have dev1: "device_ok (h, ?fs1)" using dev bl(2) by (simp add: device_ok_def blocks_complete_def max_block_def)
  obtain nb where nb: "write_advance (length cs) ?m b ?fs1 = Some (Inr (Some nb), ?fs1\<lparr>fat := (fat ?fs1)(b := nb)\<rparr>)"
    "nb \<in> free_blocks ?fs1 - {b}" "open_end (?fs1\<lparr>fat := (fat ?fs1)(b := nb)\<rparr>) a (cs @ [b]) nb"
    "free_blocks (?fs1\<lparr>fat := (fat ?fs1)(b := nb)\<rparr>) - {nb} = free_blocks ?fs1 - {b, nb}"
    using write_advance_ok [OF dev1, of a cs b "length cs" ?m] oe idx(1) free by auto
  let ?fs' = "?fs1\<lparr>fat := (fat ?fs1)(b := nb)\<rparr>"
  have "write_loop h str (int n) s s (int c) off b fs = write_loop h str (int n) s s (int c') 0 nb ?fs'"
    by (subst write_loop.simps)
      (use c bl(1) nb(1) in \<open>simp only: Let_def nums k nat_int\<close>, use len c k in \<open>simp add: c'_def\<close>)
  moreover have "file_bytes ?fs' (cs @ [b]) = take (s + c) (file_bytes fs (cs @ [b])) @ chunk c ?k str"
  proof -
    have "file_bytes ?fs' cs = file_bytes fs cs" using b(1) by (intro file_bytes_cong) auto
    moreover have "take (s + c) (file_bytes fs (cs @ [b])) = file_bytes fs cs @ take off (blocks fs b)"
      using geo(2) b(4) pos(1) by (intro take_position)
    ultimately show ?thesis using bl(2,3) pos(2) by simp
  qed
  moreover have "tail_written fs b ?fs' [nb]" using nb(2) by (auto simp: tail_written_def)
  moreover have "device_ok (h, ?fs')" using dev1 by simp
  ultimately show ?thesis using nb(3,4) by (metis free_blocks_update(1,2))
qed

lemma tail_written_trans:
  assumes "tail_written fs b fs' [nb]" "tail_written fs' nb fs'' ns" "free_blocks fs' - {nb} = free_blocks fs - {b, nb}"
  shows "tail_written fs b fs'' (nb # ns)"
  using assms by (auto simp: tail_written_def)

lemma chunk_split: "k \<le> m \<Longrightarrow> chunk c m xs = chunk c k xs @ chunk (c + k) (m - k) xs"
  by (metis chunk_append_chunk le_add_diff_inverse)

lemma write_loop_append:
  assumes "device_ok (h, fs)" "open_end fs a cs b" "c < n" "n \<le> length str"
    and "s + c = length cs * block_size fs + off" "off < block_size fs"
    and "(s + block_size fs - 1) div block_size fs \<le> Suc (length cs)"
    and "off = 0 \<or> length cs \<le> (s + block_size fs - 1) div block_size fs"
    and "off + (n - c) \<le> Suc (card (free_blocks fs - {b})) * block_size fs"
  shows "\<exists>ns ds l fs'. write_loop h str (int n) s s (int c) off b fs = Some (Inr (l, int n), fs') \<and>
    cs @ b # ns = ds @ [l] \<and> device_ok (h, fs') \<and> open_end fs' a ds l \<and> tail_written fs b fs' ns \<and>
    length ds * block_size fs < s + n \<and> s + n \<le> Suc (length ds) * block_size fs \<and>
    take (s + n) (file_bytes fs' (ds @ [l])) = take (s + c) (file_bytes fs (cs @ [b])) @ chunk c (n - c) str"
  using assms
proof (induction "n - c" arbitrary: c fs cs b off rule: less_induct)
  case less
  let ?bs = "block_size fs"
  note prems = less.prems
  show ?case
  proof (cases "off + (n - c) \<le> ?bs")
    case True
    obtain fs' where fs': "write_loop h str (int n) s s (int c) off b fs = Some (Inr (b, int n), fs')"
      "device_ok (h, fs')" "open_end fs' a cs b" "tail_written fs b fs' []"
      "take (s + n) (file_bytes fs' (cs @ [b])) = take (s + c) (file_bytes fs (cs @ [b])) @ chunk c (n - c) str"
      using write_loop_last [OF prems(1-6) True prems(7,8)] by blast
    moreover have "length cs * ?bs < s + n" "s + n \<le> Suc (length cs) * ?bs"
      using prems(3,5) True by simp_all
    ultimately show ?thesis
      by (intro exI [of _ "[]"] exI [of _ cs] exI [of _ b] exI [of _ fs']) auto
  next
    case False
    let ?c = "c + (?bs - off)"
    have "card (free_blocks fs - {b}) \<noteq> 0" using False prems(9) by (intro notI) simp
    then have "free_blocks fs - {b} \<noteq> {}" by auto
    then obtain nb fs1 where fs1: "write_loop h str (int n) s s (int c) off b fs =
        write_loop h str (int n) s s (int ?c) 0 nb fs1"
      "device_ok (h, fs1)" "open_end fs1 a (cs @ [b]) nb" "tail_written fs b fs1 [nb]"
      "free_blocks fs1 - {nb} = free_blocks fs - {b, nb}"
      "file_bytes fs1 (cs @ [b]) = take (s + c) (file_bytes fs (cs @ [b])) @ chunk c (?bs - off) str"
      using write_loop_step [OF prems(1-6) _ prems(7,8)] False by (metis not_le)
    have bs: "block_size fs1 = ?bs" using fs1(4) by (simp add: tail_written_def)
    have nb: "nb \<in> free_blocks fs - {b}" using fs1(4) by (simp add: tail_written_def)
    have "free_blocks fs - {b, nb} = (free_blocks fs - {b}) - {nb}" by auto
    then have card: "Suc (card (free_blocks fs1 - {nb})) = card (free_blocks fs - {b})"
      unfolding fs1(5) using nb by (metis card_Suc_Diff1 finite_Diff finite_free_blocks)
    have c: "n - ?c < n - c" "?c < n" using False prems(3,6) by simp_all
    have pos: "s + ?c = length (cs @ [b]) * block_size fs1 + 0" using prems(5,6) bs by simp
    have room: "0 + (n - ?c) \<le> Suc (card (free_blocks fs1 - {nb})) * block_size fs1"
      using prems(6,9) False unfolding card bs by simp
    have len: "(s + block_size fs1 - 1) div block_size fs1 \<le> Suc (length (cs @ [b]))"
      "0 < block_size fs1" using prems(6,7) bs by simp_all
    obtain ns ds l fs' where r: "write_loop h str (int n) s s (int ?c) 0 nb fs1 = Some (Inr (l, int n), fs')"
      "(cs @ [b]) @ nb # ns = ds @ [l]" "device_ok (h, fs')" "open_end fs' a ds l" "tail_written fs1 nb fs' ns"
      "length ds * block_size fs1 < s + n" "s + n \<le> Suc (length ds) * block_size fs1"
      "take (s + n) (file_bytes fs' (ds @ [l])) = take (s + ?c) (file_bytes fs1 ((cs @ [b]) @ [nb])) @ chunk ?c (n - ?c) str"
      using less.hyps [OF c(1) fs1(2,3) c(2) prems(4) pos len(2,1) _ room] by auto
    have "take (s + ?c) (file_bytes fs1 ((cs @ [b]) @ [nb])) = file_bytes fs1 (cs @ [b]) @ take 0 (blocks fs1 nb)"
      using fs1(2,3) pos by (intro take_position) (auto simp: device_ok_def open_end_def)
    moreover have "chunk c (n - c) str = chunk c (?bs - off) str @ chunk ?c (n - ?c) str"
      using chunk_split [of "?bs - off" "n - c" c str] False prems(6) by simp
    ultimately have "take (s + n) (file_bytes fs' (ds @ [l])) =
        take (s + c) (file_bytes fs (cs @ [b])) @ chunk c (n - c) str"
      using r(8) fs1(6) by simp
    moreover have "tail_written fs b fs' (nb # ns)" by (rule tail_written_trans [OF fs1(4) r(5) fs1(5)])
    ultimately show ?thesis
      using fs1(1) r bs by (intro exI [of _ "nb # ns"] exI [of _ ds] exI [of _ l] exI [of _ fs']) auto
  qed
qed

lemma chain_free_bound:
  assumes "geometry_ok fs" "is_chain (fat fs) a cs" "in_region fs cs"
  shows "length cs + card (free_blocks fs) \<le> 65535"
proof -
  have "\<forall>c\<in>set cs. fat fs c \<noteq> 0"
    using chain_nonzero [OF assms(2)] assms(3) by (simp add: in_region_def)
  then have "set cs \<inter> free_blocks fs = {}" by (auto simp: free_blocks_def)
  then have "card (set cs \<union> free_blocks fs) = length cs + card (free_blocks fs)"
    using distinct_card [OF is_chain_distinct [OF assms(2)]] by (simp add: card_Un_disjoint)
  moreover have "set cs \<union> free_blocks fs \<subseteq> {1..max_block fs}"
    using assms(3) by (auto simp: free_blocks_def in_region_def)
  then have "card (set cs \<union> free_blocks fs) \<le> max_block fs"
    using card_mono [of "{1..max_block fs}"] by fastforce
  ultimately show ?thesis using geometry_bounds(6) [OF assms(1)] by simp
qed

section \<open>From the end of the file to the directory update\<close>

text \<open>What the stages before the loop keep: all blocks but those of \<open>cs\<close>, and the table.\<close>

definition only_blocks :: "fatfs \<Rightarrow> nat list \<Rightarrow> fatfs \<Rightarrow> bool" where
  "only_blocks fs cs fs' \<longleftrightarrow>
     (\<forall>k. k \<notin> set cs \<longrightarrow> fat fs' k = fat fs k \<and> blocks fs' k = blocks fs k) \<and>
     global_fd_table fs' = global_fd_table fs \<and> block_size fs' = block_size fs \<and>
     max_block fs' = max_block fs"

lemma write_walk_end:
  assumes dev: "device_ok (h, fs)" and ch: "is_chain (fat fs) a (ds @ [l])" "in_region fs (ds @ [l])"
    and s: "length ds * block_size fs \<le> s" "s \<le> Suc (length ds) * block_size fs" "s < 4294967296"
    and k: "Suc (length ds) \<le> k"
  shows "\<exists>fs1. write_walk h s k 0 a fs = Some (Inr (l, Suc (length ds)), fs1) \<and>
    device_ok (h, fs1) \<and> fat fs1 = fat fs \<and> open_end fs1 a ds l \<and> only_blocks fs (ds @ [l]) fs1 \<and>
    take s (file_bytes fs1 (ds @ [l])) = take s (file_bytes fs (ds @ [l]))"
proof -
  let ?bs = "block_size fs"
  let ?r = "s - length ds * ?bs"
  define bl where "bl = overlay ?r (replicate (Suc (length ds) * ?bs - s) 0) (blocks fs l)"
  let ?fs1 = "fs\<lparr>block_buf := bl, blocks := (blocks fs)(l := bl)\<rparr>"
  have geo: "blocks_complete fs" using dev by (simp add: device_ok_def)
  have lb: "length (blocks fs l) = ?bs" "l \<notin> set ds" "fat fs l = FAT_END_OF_FILE"
    using geo ch is_chain_distinct [OF ch(1)] is_chain_suffix [OF ch(1)] by (auto simp: blocks_complete_def)
  have bl: "length bl = ?bs" "take ?r bl = take ?r (blocks fs l)"
    unfolding bl_def using lb(1) s by (auto simp: overlay_def)
  have dev1: "device_ok (h, ?fs1)" using dev bl(1) by (simp add: device_ok_def blocks_complete_def max_block_def)
  have "(fat fs)(l := FAT_END_OF_FILE) = fat fs" using lb(3) by (auto simp: fun_eq_iff)
  then have oe: "open_end ?fs1 a ds l" using ch by (simp add: open_end_def)
  have "take s (file_bytes ?fs1 (ds @ [l])) = take s (file_bytes fs (ds @ [l]))"
  proof -
    have "file_bytes ?fs1 ds = file_bytes fs ds" using lb(2) by (intro file_bytes_cong) auto
    moreover have "take s (file_bytes fs (ds @ [l])) = file_bytes fs ds @ take ?r (blocks fs l)"
      using geo ch(2) s(1) by (intro take_position) auto
    moreover have "take s (file_bytes ?fs1 (ds @ [l])) = file_bytes ?fs1 ds @ take ?r (blocks ?fs1 l)"
      using dev1 ch(2) s(1) by (intro take_position) (auto simp: device_ok_def)
    ultimately show ?thesis using bl(2) by simp
  qed
  moreover have "write_walk h s k 0 a fs = Some (Inr (l, Suc (length ds)), ?fs1)"
    using write_walk_chain [OF dev ch k, of 0 s] s by (simp add: bl_def)
  moreover have "only_blocks fs (ds @ [l]) ?fs1" by (auto simp: only_blocks_def)
  ultimately show ?thesis using dev1 oe by auto
qed

lemma write_fill_one:
  assumes dev: "device_ok (h, fs)" and oe: "open_end fs a ds l" and free: "free_blocks fs - {l} \<noteq> {}"
    and l: "fat fs l = FAT_END_OF_FILE"
  shows "\<exists>nb fs'. write_fill h (Suc 0) l fs = Some (Inr nb, fs') \<and> nb \<in> free_blocks fs \<and>
    device_ok (h, fs') \<and> open_end fs' a (ds @ [l]) nb \<and> only_blocks fs (ds @ [l, nb]) fs' \<and>
    free_blocks fs' - {nb} = free_blocks fs - {nb} \<and> file_bytes fs' (ds @ [l]) = file_bytes fs (ds @ [l])"
proof -
  let ?z = "replicate (block_size fs) (0 :: byte)"
  have geo: "geometry_ok fs" using dev by (simp add: device_ok_def)
  note b = open_end_facts [OF dev oe]
  have same: "fs\<lparr>fat := (fat fs)(l := FAT_END_OF_FILE)\<rparr> = fs" using l by (simp add: fun_upd_idem)
  obtain nb where nb: "write_advance 0 0 l fs = Some (Inr (Some nb), fs\<lparr>fat := (fat fs)(l := nb)\<rparr>)"
    "nb \<in> free_blocks fs - {l}" "open_end (fs\<lparr>fat := (fat fs)(l := nb)\<rparr>) a (ds @ [l]) nb"
    "free_blocks (fs\<lparr>fat := (fat fs)(l := nb)\<rparr>) - {nb} = free_blocks fs - {l, nb}"
    using write_advance_ok [OF dev oe _ free, of 0 0] by auto
  have fe: "first_empty_block fs = Some nb" "nb \<noteq> 0"
    using nb(1,2) fat_set_region [OF geo b(3)] same
    by (auto simp: write_advance_def free_blocks_def split: option.splits bind_splits if_splits)
  let ?fs1 = "fs\<lparr>fat := (fat fs)(l := nb), block_buf := ?z\<rparr>"
  let ?fs' = "?fs1\<lparr>blocks := (blocks fs)(nb := ?z)\<rparr>"
  have in_r: "1 \<le> nb" "nb \<le> max_block fs" using nb(2) by (auto simp: free_blocks_def)
  have dev1: "device_ok (h, ?fs1)" using dev by (simp add: device_ok_def)
  have "write_block h nb ?z ?fs1 = (0, ?fs')"
    using dev1 in_r by (subst write_block_ok) (auto simp: device_ok_def)
  then have "write_fill h (Suc 0) l fs = Some (Inr nb, ?fs')"
    using fe fat_set_region [OF geo b(3), of nb] by simp
  moreover have "device_ok (h, ?fs')" using dev by (simp add: device_ok_def blocks_complete_def max_block_def)
  moreover have "free_blocks ?fs' - {nb} = free_blocks fs - {nb}"
    using nb(4) l by (auto simp: free_blocks_def)
  moreover have "nb \<notin> set (ds @ [l])"
    using is_chain_distinct nb(3) unfolding open_end_def by fastforce
  then have "file_bytes ?fs' (ds @ [l]) = file_bytes fs (ds @ [l])" by (intro file_bytes_cong) auto
  moreover have "only_blocks fs (ds @ [l, nb]) ?fs'" by (auto simp: only_blocks_def max_block_def)
  moreover have "open_end ?fs' a (ds @ [l]) nb" using nb(3) by (simp add: open_end_def)
  ultimately show ?thesis using nb(2) by blast
qed

text \<open>The block that the loop starts with, and its place in the chain.\<close>

lemma write_start:
  fixes fs ds
  defines "bs \<equiv> block_size fs" and "len \<equiv> Suc (length ds)"
  assumes dev: "device_ok (h, fs)" and ch: "is_chain (fat fs) a (ds @ [l])" "in_region fs (ds @ [l])"
    and s: "length ds * bs \<le> s" "s \<le> len * bs" and room: "s < (len + card (free_blocks fs)) * bs"
  shows "\<exists>fs1 fs2 cs b ns.
    write_walk h s (u16 (u32 (s + bs) div bs)) 0 a fs = Some (Inr (l, len), fs1) \<and>
    write_fill h (u16 (u32 (s + bs) div bs) - len) l fs1 = Some (Inr b, fs2) \<and>
    device_ok (h, fs2) \<and> open_end fs2 a cs b \<and> s = length cs * bs + s mod bs \<and>
    cs @ [b] = ds @ l # ns \<and> set ns \<subseteq> free_blocks fs \<and>
    len + card (free_blocks fs) = Suc (length cs) + card (free_blocks fs2 - {b}) \<and>
    free_blocks fs2 - {b} \<subseteq> free_blocks fs \<and> only_blocks fs (ds @ l # ns) fs2 \<and>
    take s (file_bytes fs2 (cs @ [b])) = take s (file_bytes fs (ds @ [l]))"
proof -
  have geo: "geometry_ok fs" using dev by (auto simp: device_ok_def)
  have bs: "256 \<le> bs" "bs \<le> 4096" using geometry_bounds [OF geo] by (auto simp: bs_def)
  have le: "len + card (free_blocks fs) \<le> 65535" using chain_free_bound [OF geo ch] by (simp add: len_def)
  then have "len * bs \<le> 65535 * 4096" using bs by (intro mult_le_mono) auto
  then have small: "s + bs < 4294967296" "s < 4294967296" using s(2) bs by simp_all
  have lfree: "l \<notin> free_blocks fs" and leof: "fat fs l = FAT_END_OF_FILE"
    using is_chain_suffix [OF ch(1)] by (auto simp: free_blocks_def)
  define idx where "idx = u16 (u32 (s + bs) div bs)"
  have q: "idx = Suc (s div bs)" "len \<le> idx"
  proof -
    have "length ds \<le> s div bs" using div_le_mono [OF s(1), of bs] bs by simp
    moreover have "s div bs < len + card (free_blocks fs)" using room bs by (intro less_mult_imp_div_less) simp
    moreover have "(s + bs) div bs = Suc (s div bs)" using bs div_add_self2 [of bs s] by simp
    ultimately show "idx = Suc (s div bs)" "len \<le> idx" unfolding idx_def using small le by (simp_all add: len_def)
  qed
  obtain fs1 where fs1: "write_walk h s idx 0 a fs = Some (Inr (l, len), fs1)" "device_ok (h, fs1)"
    "fat fs1 = fat fs" "open_end fs1 a ds l" "only_blocks fs (ds @ [l]) fs1"
    "take s (file_bytes fs1 (ds @ [l])) = take s (file_bytes fs (ds @ [l]))"
    using write_walk_end [OF dev ch _ _ small(2), of idx] s q(2) by (auto simp: bs_def len_def)
  have free1: "free_blocks fs1 = free_blocks fs" using fs1(3,5) by (simp add: free_blocks_def only_blocks_def)
  show ?thesis
  proof (cases "s < len * bs")
    case True
    have "s div bs = length ds" using True s(1) by (intro div_nat_eqI) (auto simp: len_def mult.commute)
    then have sq: "idx = len" "s = length ds * bs + s mod bs"
      using q(1) div_mult_mod_eq [of s bs] by (simp_all add: len_def)
    have "write_fill h (idx - len) l fs1 = Some (Inr l, fs1)" using sq(1) by simp
    moreover have "len + card (free_blocks fs) = Suc (length ds) + card (free_blocks fs1 - {l})"
      "free_blocks fs1 - {l} \<subseteq> free_blocks fs" using free1 lfree by (simp_all add: len_def)
    moreover have "ds @ [l] = ds @ l # []" "set [] \<subseteq> free_blocks fs" by simp_all
    ultimately show ?thesis unfolding idx_def [symmetric] using fs1 sq(2) by blast
  next
    case False
    then have seq: "s = len * bs" using s(2) by simp
    then have sq: "s div bs = len" "s mod bs = 0" using bs by auto
    have "free_blocks fs \<noteq> {}" using room seq by auto
    then obtain nb fs2 where fs2: "write_fill h (Suc 0) l fs1 = Some (Inr nb, fs2)" "nb \<in> free_blocks fs1"
      "device_ok (h, fs2)" "open_end fs2 a (ds @ [l]) nb" "only_blocks fs1 (ds @ [l, nb]) fs2"
      "free_blocks fs2 - {nb} = free_blocks fs1 - {nb}" "file_bytes fs2 (ds @ [l]) = file_bytes fs1 (ds @ [l])"
      using write_fill_one [OF fs1(2,4)] fs1(3) leof lfree free1 by auto
    have card: "Suc (card (free_blocks fs2 - {nb})) = card (free_blocks fs)"
      using fs2(2,6) free1 by (metis card_Suc_Diff1 finite_free_blocks)
    have full: "length (file_bytes fs1 (ds @ [l])) = s" "length (file_bytes fs (ds @ [l])) = s"
      using length_file_bytes [of fs1 "ds @ [l]"] length_file_bytes [of fs "ds @ [l]"] fs1(2,4,5) dev ch(2) seq
      by (auto simp: device_ok_def open_end_def only_blocks_def len_def bs_def)
    have "file_bytes fs2 ((ds @ [l]) @ [nb]) = file_bytes fs1 (ds @ [l]) @ file_bytes fs2 [nb]"
      by (simp only: file_bytes_simps(3) [of fs2 "ds @ [l]"] fs2(7))
    then have "take s (file_bytes fs2 ((ds @ [l]) @ [nb])) = file_bytes fs1 (ds @ [l])"
      using full(1) by (metis append_eq_conv_conj)
    then have bytes: "take s (file_bytes fs2 ((ds @ [l]) @ [nb])) = take s (file_bytes fs (ds @ [l]))"
      using fs1(6) full by simp
    have "only_blocks fs (ds @ l # [nb]) fs2" using fs1(5) fs2(5) by (auto simp: only_blocks_def)
    moreover have "write_fill h (idx - len) l fs1 = Some (Inr nb, fs2)" using fs2(1) q(1) sq(1) by simp
    moreover have "s = length (ds @ [l]) * bs + s mod bs" using seq sq(2) by (simp add: len_def)
    moreover have "(ds @ [l]) @ [nb] = ds @ l # [nb]" "set [nb] \<subseteq> free_blocks fs" "free_blocks fs2 - {nb} \<subseteq> free_blocks fs"
      "len + card (free_blocks fs) = Suc (length (ds @ [l])) + card (free_blocks fs2 - {nb})"
      using fs2(2,6) free1 card by (auto simp: len_def)
    ultimately show ?thesis unfolding idx_def [symmetric] using fs1(1) fs2(3,4) bytes by blast
  qed
qed

text \<open>
  The end of the call: the chain is closed, the entry written to its slot in the directory.
\<close>

definition written_entry :: "directory_entry \<Rightarrow> nat \<Rightarrow> nat \<Rightarrow> directory_entry" where
  "written_entry e t m = e\<lparr>de_mtime := t, de_size := m\<rparr>"

definition written_fs :: "nat \<Rightarrow> directory_entry \<Rightarrow> fatfs \<Rightarrow> fatfs" where
  "written_fs fd e' fs =
     (let g = global_fd_table fs fd in
      put_entry (dir_entry_block_num g) (dir_entry_idx g) e'
        (fd_upd fd (\<lambda>g. g\<lparr>fd_offset := de_size e', ptr_to_dir_entry := Some e'\<rparr>) fs))"

lemma write_finish_ok:
  assumes dev: "device_ok (h, fs)" and t: "h_time h = Some t" and l: "l \<le> max_block fs"
    and n: "s + n < 4294967296" and e: "entry_ok (written_entry e t (s + n))"
    and slot: "1 \<le> dir_entry_block_num (global_fd_table fs fd)" "dir_entry_block_num (global_fd_table fs fd) \<le> max_block fs"
      "dir_entry_idx (global_fd_table fs fd) < entries_per_block fs"
  shows "write_finish h fd e s l (int n) fs =
    Some (int n, written_fs fd (written_entry e t (s + n)) (fs\<lparr>fat := (fat fs)(l := FAT_END_OF_FILE)\<rparr>))"
proof -
  let ?g = "global_fd_table fs fd"
  let ?e = "written_entry e t (s + n)"
  let ?fs1 = "fs\<lparr>fat := (fat fs)(l := FAT_END_OF_FILE)\<rparr>"
  let ?fs2 = "fd_upd fd (\<lambda>g. g\<lparr>fd_offset := s + n, ptr_to_dir_entry := Some ?e\<rparr>) ?fs1"
  have geo: "geometry_ok fs" using dev by (simp add: device_ok_def)
  have dev2: "device_ok (h, ?fs2)" using dev by simp
  have "write_root_dir_entry h ?e (dir_entry_block_num ?g) (dir_entry_idx ?g) ?fs2 =
      Some (0, put_entry (dir_entry_block_num ?g) (dir_entry_idx ?g) ?e ?fs2)"
    using slot by (intro write_root_dir_entry_ok [OF dev2]) (simp_all add: e)
  then show ?thesis
    using t n fat_set_region [OF geo l, of FAT_END_OF_FILE]
    by (simp add: write_finish_def written_fs_def written_entry_def fd_upd_def comp_def Let_def)
qed

text \<open>The whole write, from the first block on.\<close>

lemma write_body_append:
  fixes fs ds
  defines "bs \<equiv> block_size fs" and "len \<equiv> Suc (length ds)"
  assumes dev: "device_ok (h, fs)" and ch: "is_chain (fat fs) (de_first_block e) (ds @ [l])" "in_region fs (ds @ [l])"
    and s: "length ds * bs \<le> de_size e" "de_size e \<le> len * bs"
    and n: "0 < n" "n \<le> length str" and room: "de_size e + n \<le> (len + card (free_blocks fs)) * bs"
    and t: "h_time h = Some t" and e: "entry_ok (written_entry e t (de_size e + n))"
    and slot: "1 \<le> dir_entry_block_num (global_fd_table fs fd)" "dir_entry_block_num (global_fd_table fs fd) \<le> max_block fs"
      "dir_entry_idx (global_fd_table fs fd) < entries_per_block fs"
  shows "\<exists>fs' ns. write_body h fd str (int n) e (de_size e) fs =
      Some (int n, written_fs fd (written_entry e t (de_size e + n)) fs') \<and>
    device_ok (h, fs') \<and> is_chain (fat fs') (de_first_block e) (ds @ l # ns) \<and> in_region fs' (ds @ l # ns) \<and>
    set ns \<subseteq> free_blocks fs \<and> only_blocks fs (ds @ l # ns) fs' \<and>
    length (ds @ l # ns) = (de_size e + n + bs - 1) div bs \<and>
    take (de_size e + n) (file_bytes fs' (ds @ l # ns)) = take (de_size e) (file_bytes fs (ds @ [l])) @ take n str"
proof -
  let ?s = "de_size e"
  let ?a = "de_first_block e"
  have geo: "geometry_ok fs" using dev by (auto simp: device_ok_def)
  have bs: "256 \<le> bs" "bs \<le> 4096" using geometry_bounds [OF geo] by (auto simp: bs_def)
  have room': "?s < (len + card (free_blocks fs)) * bs" using room n(1) by linarith
  obtain fs1 fs2 cs b ns1 where st:
    "write_walk h ?s (u16 (u32 (?s + bs) div bs)) 0 ?a fs = Some (Inr (l, len), fs1)"
    "write_fill h (u16 (u32 (?s + bs) div bs) - len) l fs1 = Some (Inr b, fs2)"
    "device_ok (h, fs2)" "open_end fs2 ?a cs b" "?s = length cs * bs + ?s mod bs"
    "cs @ [b] = ds @ l # ns1" "set ns1 \<subseteq> free_blocks fs"
    "len + card (free_blocks fs) = Suc (length cs) + card (free_blocks fs2 - {b})"
    "free_blocks fs2 - {b} \<subseteq> free_blocks fs" "only_blocks fs (ds @ l # ns1) fs2"
    "take ?s (file_bytes fs2 (cs @ [b])) = take ?s (file_bytes fs (ds @ [l]))"
    using write_start [OF dev ch, of ?s, folded bs_def len_def, OF s room'] by blast
  have bs2: "block_size fs2 = bs" "max_block fs2 = max_block fs" "global_fd_table fs2 = global_fd_table fs"
    using st(10) by (simp_all add: only_blocks_def bs_def)
  have mod: "?s mod bs < bs" using bs by simp
  then have mod16: "u16 (?s mod bs) = ?s mod bs" using bs(2) by (intro u16_id) linarith
  have ceil: "(?s + bs - 1) div bs \<le> Suc (length cs)" "length cs \<le> (?s + bs - 1) div bs"
  proof -
    have "?s + bs - 1 < Suc (Suc (length cs)) * bs" using st(5) mod by simp
    then show "(?s + bs - 1) div bs \<le> Suc (length cs)" using less_mult_imp_div_less less_Suc_eq_le by blast
    have "length cs * bs \<le> ?s + bs - 1" using st(5) bs by linarith
    then show "length cs \<le> (?s + bs - 1) div bs" using bs by (simp add: less_eq_div_iff_mult_less_eq)
  qed
  have room2: "?s mod bs + (n - 0) \<le> Suc (card (free_blocks fs2 - {b})) * bs"
    using room st(5) unfolding st(8) by (simp add: algebra_simps)
  obtain ns2 ds2 l2 fs3 where lp: "write_loop h str (int n) ?s ?s (int 0) (?s mod bs) b fs2 = Some (Inr (l2, int n), fs3)"
    "cs @ b # ns2 = ds2 @ [l2]" "device_ok (h, fs3)" "open_end fs3 ?a ds2 l2" "tail_written fs2 b fs3 ns2"
    "length ds2 * bs < ?s + n" "?s + n \<le> Suc (length ds2) * bs"
    "take (?s + n) (file_bytes fs3 (ds2 @ [l2])) = take (?s + 0) (file_bytes fs2 (cs @ [b])) @ chunk 0 (n - 0) str"
    using write_loop_append [OF st(3,4) n, of ?s "?s mod bs"] st(5) mod ceil room2 unfolding bs2 by auto
  let ?cs = "ds @ l # ns1 @ ns2"
  let ?fs' = "fs3\<lparr>fat := (fat fs3)(l2 := FAT_END_OF_FILE)\<rparr>"
  have cs: "ds2 @ [l2] = ?cs" using lp(2) st(6) by (metis append.assoc append_Cons append_Nil)
  note l2 = open_end_facts [OF lp(3,4)]
  have bs3: "block_size fs3 = bs" "max_block fs3 = max_block fs" "global_fd_table fs3 = global_fd_table fs"
    using lp(5) bs2 by (auto simp: tail_written_def)
  have small: "?s + n < 4294967296"
  proof -
    have "Suc (length ds2) * bs \<le> 65535 * 4096" using l2(5) bs by (intro mult_le_mono) auto
    then show ?thesis using lp(7) by simp
  qed
  have "write_finish h fd e ?s l2 (int n) fs3 = Some (int n, written_fs fd (written_entry e t (?s + n)) ?fs')"
    using slot l2(3) bs3 by (intro write_finish_ok [OF lp(3) t _ small e]) (auto simp: entries_per_block_def bs_def)
  then have "write_body h fd str (int n) e ?s fs = Some (int n, written_fs fd (written_entry e t (?s + n)) ?fs')"
    using st(1,2) lp(1) mod16 unfolding write_body_def Let_def bs_def [symmetric] by simp
  moreover have "is_chain (fat ?fs') ?a ?cs" "in_region ?fs' ?cs"
    using lp(4) unfolding open_end_def cs by simp_all
  moreover have "set (ns1 @ ns2) \<subseteq> free_blocks fs"
    using st(7,9) lp(5) by (auto simp: tail_written_def)
  moreover have "only_blocks fs ?cs ?fs'"
  proof -
    have "b \<in> set ?cs" "l2 \<in> set ?cs" using st(6) cs by (metis in_set_conv_decomp append.assoc append_Cons append_Nil)+
    then show ?thesis using st(10) lp(5) by (auto simp: only_blocks_def tail_written_def)
  qed
  moreover have "length ?cs = (?s + n + bs - 1) div bs"
  proof -
    have "(?s + n + bs - 1) div bs = Suc (length ds2)"
      using lp(6,7) by (intro div_nat_eqI) (auto simp: mult.commute)
    then show ?thesis using cs by (metis length_append_singleton)
  qed
  moreover have "take (?s + n) (file_bytes ?fs' ?cs) = take ?s (file_bytes fs (ds @ [l])) @ take n str"
    using lp(8) st(11) cs by (simp add: chunk_def)
  ultimately show ?thesis
    using lp(3) by (intro exI [of _ ?fs'] exI [of _ "ns1 @ ns2"]) simp
qed

section \<open>k_write at the end of a file\<close>

text \<open>A descriptor in use, its cached entry and the slot of that entry in the directory.\<close>

definition fd_slot :: "fatfs \<Rightarrow> nat \<Rightarrow> nat \<times> nat" where
  "fd_slot fs fd = (dir_entry_block_num (global_fd_table fs fd), dir_entry_idx (global_fd_table fs fd))"

definition open_file :: "fatfs \<Rightarrow> nat \<Rightarrow> directory_entry \<Rightarrow> bool" where
  "open_file fs fd e \<longleftrightarrow> 3 \<le> fd \<and> fd < GLOBAL_FD_TABLE_SIZE \<and> 0 < ref_count (global_fd_table fs fd) \<and>
     ptr_to_dir_entry (global_fd_table fs fd) = Some e \<and> entry_ok e \<and>
     (case fd_slot fs fd of (b, i) \<Rightarrow>
        1 \<le> b \<and> b \<le> max_block fs \<and> i < entries_per_block fs \<and> fat fs b \<noteq> 0)"

text \<open>The offset at which \<open>k_write\<close> writes.\<close>

definition write_offset :: "fatfs \<Rightarrow> nat \<Rightarrow> directory_entry \<Rightarrow> nat" where
  "write_offset fs fd e =
     (if write_locked (global_fd_table fs fd) = 2 then de_size e else fd_offset (global_fd_table fs fd))"

definition may_write :: "directory_entry \<Rightarrow> bool" where
  "may_write e \<longleftrightarrow> de_perm e = P_WRITE_ONLY_FILE_PERMISSION \<or>
     P_READ_WRITE_AND_EXECUTABLE_FILE_PERMISSION \<le> de_perm e"

lemma k_write_body:
  assumes "device_ok (h, fs)" "open_file fs fd e" "may_write e" "0 < n"
  shows "k_write h (int fd) str (int n) fs = do {
    (res, fs1) \<leftarrow> write_first_block fd e fs;
    case res of None \<Rightarrow> Some (0, fs1) | Some e1 \<Rightarrow> write_body h fd str (int n) e1 (write_offset fs fd e) fs1 }"
proof -
  have fd: "\<not> (int fd = 0 \<or> int fd = 1 \<or> int fd = 2)" "\<not> (int GLOBAL_FD_TABLE_SIZE \<le> int fd \<or> int fd < 0)"
    "ref_count (global_fd_table fs fd) \<noteq> 0" "ptr_to_dir_entry (global_fd_table fs fd) = Some e"
    "is_mounted fs" "int n \<noteq> 0"
    "\<not> (de_perm e \<noteq> P_WRITE_ONLY_FILE_PERMISSION \<and> de_perm e < P_READ_WRITE_AND_EXECUTABLE_FILE_PERMISSION)"
    using assms by (auto simp: open_file_def may_write_def device_ok_def geometry_ok_def)
  show ?thesis
    unfolding k_write_def Let_def nat_int if_not_P [OF fd(1)] if_not_P [OF fd(2)] if_not_P [OF fd(3)]
      if_not_P [OF fd(7)] write_offset_def fd(4)
    using fd(5-7) by auto
qed

text \<open>
  The first block of the file, allocated if there is none: \<open>ds @ [l]\<close> is the chain after it.
\<close>

definition first_block_set ::
  "fatfs \<Rightarrow> nat \<Rightarrow> directory_entry \<Rightarrow> nat list \<Rightarrow> fatfs \<Rightarrow> directory_entry \<Rightarrow> nat list \<Rightarrow> nat \<Rightarrow> bool" where
  "first_block_set fs fd e cs fs1 e1 ds l \<longleftrightarrow>
     is_chain (fat fs1) (de_first_block e1) (ds @ [l]) \<and> in_region fs1 (ds @ [l]) \<and>
     (ds @ [l] = cs \<or> cs = [] \<and> ds = [] \<and> l \<in> free_blocks fs) \<and>
     (\<exists>b. e1 = e\<lparr>de_first_block := b\<rparr>) \<and> de_first_block e1 < 65536 \<and> de_first_block e1 \<noteq> 0 \<and>
     Suc (length ds) + card (free_blocks fs1) = length cs + card (free_blocks fs) \<and>
     free_blocks fs1 \<subseteq> free_blocks fs \<and>
     (\<forall>k. k \<notin> set (ds @ [l]) \<longrightarrow> fat fs1 k = fat fs k) \<and> blocks fs1 = blocks fs \<and>
     block_size fs1 = block_size fs \<and> max_block fs1 = max_block fs \<and>
     (\<exists>p. global_fd_table fs1 = (global_fd_table fs)(fd := (global_fd_table fs fd)\<lparr>ptr_to_dir_entry := p\<rparr>))"

lemma write_first_block_ok:
  assumes dev: "device_ok (h, fs)" and f: "file_ok fs e cs" and room: "0 < length cs + card (free_blocks fs)"
  shows "\<exists>e1 fs1 ds l. write_first_block fd e fs = Some (Some e1, fs1) \<and> device_ok (h, fs1) \<and>
    first_block_set fs fd e cs fs1 e1 ds l"
proof (cases "de_first_block e = 0")
  case False
  then have ch: "is_chain (fat fs) (de_first_block e) cs" "in_region fs cs" "cs \<noteq> []"
    using f by (auto simp: file_ok_def file_chain_def)
  then obtain ds l where cs: "cs = ds @ [l]" by (metis rev_exhaust)
  have "de_first_block e \<le> 65535"
    using ch geometry_bounds(6) [of fs] dev by (cases cs) (auto simp: device_ok_def)
  moreover have "\<exists>p. global_fd_table fs = (global_fd_table fs)(fd := (global_fd_table fs fd)\<lparr>ptr_to_dir_entry := p\<rparr>)"
    by (intro exI [of _ "ptr_to_dir_entry (global_fd_table fs fd)"]) simp
  moreover have "\<exists>b. e = e\<lparr>de_first_block := b\<rparr>" by (intro exI [of _ "de_first_block e"]) simp
  ultimately have "first_block_set fs fd e cs fs e ds l"
    unfolding first_block_set_def using False ch cs by auto
  moreover have "write_first_block fd e fs = Some (Some e, fs)" using False by (simp add: write_first_block_def)
  ultimately show ?thesis using dev by blast
next
  case True
  then have cs: "cs = []" using f by (simp add: file_ok_def file_chain_def)
  have geo: "geometry_ok fs" using dev by (simp add: device_ok_def)
  obtain nb where nb: "first_empty_block fs = Some nb" "nb \<noteq> 0" "nb \<in> free_blocks fs"
    using first_empty_block_in_free [OF geo] room cs by fastforce
  then have r: "1 \<le> nb" "nb \<le> max_block fs" "nb < 65535" by (auto simp: free_blocks_def)
  let ?e = "e\<lparr>de_first_block := nb\<rparr>"
  let ?fs1 = "fd_upd fd (\<lambda>g. g\<lparr>ptr_to_dir_entry := Some ?e\<rparr>) (fs\<lparr>fat := (fat fs)(nb := FAT_END_OF_FILE)\<rparr>)"
  have free: "free_blocks ?fs1 = free_blocks fs - {nb}"
    by (simp only: free_blocks_update) (rule free_blocks_set, simp)
  then have "Suc (card (free_blocks ?fs1)) = card (free_blocks fs)"
    using nb(3) by (metis card_Suc_Diff1 finite_free_blocks)
  moreover have "global_fd_table ?fs1 = (global_fd_table fs)(fd := (global_fd_table fs fd)\<lparr>ptr_to_dir_entry := Some ?e\<rparr>)"
    by (auto simp: fun_eq_iff)
  ultimately have "first_block_set fs fd e cs ?fs1 ?e [] nb"
    unfolding first_block_set_def using cs nb r free by auto
  moreover have "write_first_block fd e fs = Some (Some ?e, ?fs1)"
    using True nb(1,2) fat_set_region [OF geo r(2)] by (simp add: write_first_block_def Let_def)
  moreover have "device_ok (h, ?fs1)" using dev by simp
  ultimately show ?thesis by blast
qed

text \<open>
  \<open>appended fs fd e cs str fs' e' cs'\<close>: the file of descriptor \<open>fd\<close>, with cached entry \<open>e\<close> and
  blocks \<open>cs\<close> in \<open>fs\<close>, has in \<open>fs'\<close> the entry \<open>e'\<close>, in the table and in its directory slot, and
  the blocks \<open>cs'\<close>, which hold the old content followed by \<open>str\<close>; no other block or FAT entry
  changed but the directory block of the slot.
\<close>

definition appended ::
  "fatfs \<Rightarrow> nat \<Rightarrow> directory_entry \<Rightarrow> nat list \<Rightarrow> byte list \<Rightarrow> fatfs \<Rightarrow> directory_entry \<Rightarrow> nat list \<Rightarrow> bool" where
  "appended fs fd e cs str fs' e' cs' \<longleftrightarrow>
     file_ok fs' e' cs' \<and> content fs' e' cs' = content fs e cs @ str \<and>
     (\<exists>ns. cs' = cs @ ns \<and> set ns \<subseteq> free_blocks fs) \<and>
     de_name e' = de_name e \<and> de_perm e' = de_perm e \<and> de_size e' = de_size e + length str \<and>
     global_fd_table fs' = (global_fd_table fs)(fd := (global_fd_table fs fd)
       \<lparr>ptr_to_dir_entry := Some e', fd_offset := de_size e + length str\<rparr>) \<and>
     entry_ok e' \<and> block_size fs' = block_size fs \<and> max_block fs' = max_block fs \<and>
     dir_entry_at (blocks fs' (fst (fd_slot fs fd))) (snd (fd_slot fs fd)) = e' \<and>
     blocks fs' (fst (fd_slot fs fd)) = overlay (64 * snd (fd_slot fs fd)) (encode_entry e') (blocks fs (fst (fd_slot fs fd))) \<and>
     (\<forall>k. k \<notin> set cs' \<longrightarrow> fat fs' k = fat fs k \<and> (k \<noteq> fst (fd_slot fs fd) \<longrightarrow> blocks fs' k = blocks fs k))"

lemma room_bound:
  assumes "device_ok (h, fs)" "file_ok fs e cs" "m \<le> (length cs + card (free_blocks fs)) * block_size fs"
  shows "m < 4294967296"
proof -
  have geo: "geometry_ok fs" using assms(1) by (simp add: device_ok_def)
  have "length cs + card (free_blocks fs) \<le> 65535"
  proof (cases "cs = []")
    case True
    have "free_blocks fs \<subseteq> {1..max_block fs}" by (auto simp: free_blocks_def)
    from card_mono [OF _ this] show ?thesis using True geometry_bounds(6) [OF geo] by simp
  next
    case False
    then have "is_chain (fat fs) (de_first_block e) cs" "in_region fs cs"
      using assms(2) by (simp_all add: file_ok_def file_chain_def split: if_splits)
    then show ?thesis by (rule chain_free_bound [OF geo])
  qed
  then have "(length cs + card (free_blocks fs)) * block_size fs \<le> 65535 * 4096"
    using geometry_bounds(2) [OF geo] by (intro mult_le_mono)
  then show ?thesis using assms(3) by simp
qed

text \<open>The state after the directory update, given the state after the copy loop.\<close>

lemma written_appended:
  assumes dev: "device_ok (h, fs2)" and o: "open_file fs fd e"
    and fb: "first_block_set fs fd e cs fs1 e1 ds l"
    and db: "fst (fd_slot fs fd) \<notin> set (ds @ l # ns)" and ns: "set ns \<subseteq> free_blocks fs1"
    and old: "take (de_size e) (file_bytes fs1 (ds @ [l])) = content fs e cs"
    and ch: "is_chain (fat fs2) (de_first_block e1) (ds @ l # ns)" "in_region fs2 (ds @ l # ns)"
      "only_blocks fs1 (ds @ l # ns) fs2"
      "length (ds @ l # ns) = (de_size e + n + block_size fs - 1) div block_size fs"
      "take (de_size e + n) (file_bytes fs2 (ds @ l # ns)) = take (de_size e) (file_bytes fs1 (ds @ [l])) @ take n str"
    and e': "entry_ok (written_entry e1 t (de_size e + n))" and n: "n \<le> length str"
  defines "fs' \<equiv> written_fs fd (written_entry e1 t (de_size e + n)) fs2"
  shows "device_ok (h, fs') \<and>
    appended fs fd e cs (take n str) fs' (written_entry e1 t (de_size e + n)) (ds @ l # ns)"
proof -
  let ?e' = "written_entry e1 t (de_size e + n)"
  let ?cs' = "ds @ l # ns"
  obtain b i where bi: "fd_slot fs fd = (b, i)" by (metis surj_pair)
  let ?fs3 = "fd_upd fd (\<lambda>g. g\<lparr>fd_offset := de_size ?e', ptr_to_dir_entry := Some ?e'\<rparr>) fs2"
  have sz: "block_size fs2 = block_size fs" "max_block fs2 = max_block fs" "de_size ?e' = de_size e + n"
    using fb ch(3) by (auto simp: first_block_set_def only_blocks_def written_entry_def)
  obtain p where tab: "global_fd_table fs2 = (global_fd_table fs)(fd := (global_fd_table fs fd)\<lparr>ptr_to_dir_entry := p\<rparr>)"
    using fb ch(3) by (auto simp: first_block_set_def only_blocks_def)
  have slot: "dir_entry_block_num (global_fd_table fs2 fd) = b" "dir_entry_idx (global_fd_table fs2 fd) = i"
    using bi by (auto simp: tab fd_slot_def)
  have b: "1 \<le> b" "b \<le> max_block ?fs3" "i < entries_per_block ?fs3"
    using o bi sz by (auto simp: open_file_def entries_per_block_def)
  have fs': "fs' = put_entry b i ?e' ?fs3" by (simp add: fs'_def written_fs_def Let_def slot)
  have dev3: "device_ok (h, ?fs3)" using dev by simp
  have "file_bytes fs' ?cs' = file_bytes fs2 ?cs'"
    unfolding fs' using db bi by (intro file_bytes_cong) (auto simp: put_entry_def Let_def)
  then have "content fs' ?e' ?cs' = content fs e cs @ take n str"
    using ch(5) old by (simp add: content_def written_entry_def)
  moreover have "file_ok fs' ?e' ?cs'"
    using ch fb sz by (auto simp: file_ok_def file_chain_def fs' written_entry_def first_block_set_def put_entry_def Let_def)
  moreover have "\<exists>ms. ?cs' = cs @ ms \<and> set ms \<subseteq> free_blocks fs"
    using fb ns by (auto simp: first_block_set_def)
  moreover have "de_name ?e' = de_name e" "de_perm ?e' = de_perm e"
    using fb by (auto simp: first_block_set_def written_entry_def)
  moreover have "global_fd_table fs' = (global_fd_table fs)(fd := (global_fd_table fs fd)
       \<lparr>ptr_to_dir_entry := Some ?e', fd_offset := de_size e + length (take n str)\<rparr>)"
    using n sz(3) by (cases "global_fd_table fs fd") (simp add: fs' fd_upd_def tab)
  moreover have "blocks fs' b = overlay (64 * i) (encode_entry ?e') (blocks fs b)"
    using fb ch(3) db bi by (simp add: fs' put_entry_def Let_def first_block_set_def only_blocks_def)
  moreover have "dir_entry_at (blocks fs' b) i = ?e'"
    unfolding fs' using put_entry_slots [OF dev3 b e' b(3,1,2)] by simp
  moreover have "\<forall>k. k \<notin> set ?cs' \<longrightarrow> fat fs' k = fat fs k \<and> (k \<noteq> b \<longrightarrow> blocks fs' k = blocks fs k)"
    using fb ch(3) by (auto simp: fs' first_block_set_def only_blocks_def)
  moreover have "device_ok (h, fs')" unfolding fs' by (rule put_entry_device [OF dev3 b e'])
  moreover have "block_size fs' = block_size fs" "max_block fs' = max_block fs"
    using sz by (simp_all add: fs' put_entry_def Let_def)
  ultimately show ?thesis using n sz(3) bi e' unfolding appended_def by simp
qed

lemma first_block_sizes:
  assumes "geometry_ok fs" "file_ok fs e cs" "first_block_set fs fd e cs fs1 e1 ds l"
  shows "length ds * block_size fs \<le> de_size e" "de_size e \<le> Suc (length ds) * block_size fs"
    "take (de_size e) (file_bytes fs1 (ds @ [l])) = content fs e cs" "de_size e1 = de_size e"
proof -
  let ?bs = "block_size fs"
  have bs: "0 < ?bs" using geometry_bounds(1) [OF assms(1)] by simp
  have len: "length cs = (de_size e + ?bs - 1) div ?bs" using assms(2) by (simp add: file_ok_def)
  note ceil = ceil_div_bounds [OF bs, of "de_size e", folded len]
  have c: "ds @ [l] = cs \<or> cs = [] \<and> ds = []" "blocks fs1 = blocks fs"
    "\<exists>b. e1 = e\<lparr>de_first_block := b\<rparr>" using assms(3) by (auto simp: first_block_set_def)
  have cs: "ds @ [l] = cs \<and> length cs = Suc (length ds) \<or> cs = [] \<and> ds = []" using c(1) by auto
  then show "length ds * ?bs \<le> de_size e" "de_size e \<le> Suc (length ds) * ?bs" using ceil by auto
  show "de_size e1 = de_size e" using c(3) by auto
  have "file_bytes fs1 (ds @ [l]) = file_bytes fs (ds @ [l])" by (intro file_bytes_cong) (simp add: c(2))
  moreover have "cs = [] \<Longrightarrow> de_size e = 0" using ceil by simp
  ultimately show "take (de_size e) (file_bytes fs1 (ds @ [l])) = content fs e cs"
    using c(1) unfolding content_def by (cases "cs = []") auto
qed

lemma k_write_append:
  assumes dev: "device_ok (h, fs)" and o: "open_file fs fd e" and w: "may_write e"
    and off: "write_offset fs fd e = de_size e" and f: "file_ok fs e cs" and n: "0 < n" "n \<le> length str"
    and room: "de_size e + n \<le> (length cs + card (free_blocks fs)) * block_size fs"
    and dir: "fst (fd_slot fs fd) \<notin> set cs"
  shows "\<exists>fs' e' cs'. k_write h (int fd) str (int n) fs = Some (int n, fs') \<and> device_ok (h, fs') \<and>
    appended fs fd e cs (take n str) fs' e' cs'"
proof -
  have geo: "geometry_ok fs" using dev by (simp add: device_ok_def)
  obtain t where t: "h_time h = Some t" "t < 2 ^ 64" using dev host_okD(2) by (auto simp: device_ok_def)
  have "0 < length cs + card (free_blocks fs)" using room n(1) by (cases "length cs + card (free_blocks fs)") auto
  from write_first_block_ok [OF dev f this, of fd] obtain e1 fs1 ds l
    where fb: "write_first_block fd e fs = Some (Some e1, fs1)" "device_ok (h, fs1)"
      "first_block_set fs fd e cs fs1 e1 ds l" by blast
  note sizes = first_block_sizes [OF geo f fb(3)]
  have set: "is_chain (fat fs1) (de_first_block e1) (ds @ [l])" "in_region fs1 (ds @ [l])"
    "Suc (length ds) + card (free_blocks fs1) = length cs + card (free_blocks fs)"
    "block_size fs1 = block_size fs" "max_block fs1 = max_block fs" "free_blocks fs1 \<subseteq> free_blocks fs"
    "fd_slot fs1 fd = fd_slot fs fd" "ds @ [l] = cs \<or> cs = [] \<and> ds = [] \<and> l \<in> free_blocks fs"
    "\<exists>b. e1 = e\<lparr>de_first_block := b\<rparr>" "de_first_block e1 < 65536"
    using fb(3) by (auto simp: first_block_set_def fd_slot_def)
  have e': "entry_ok (written_entry e1 t (de_size e1 + n))"
    using o room_bound [OF dev f room] t(2) set(9,10) sizes(4)
    by (auto simp: open_file_def entry_ok_def written_entry_def)
  have slot: "1 \<le> dir_entry_block_num (global_fd_table fs1 fd)"
    "dir_entry_block_num (global_fd_table fs1 fd) \<le> max_block fs1"
    "dir_entry_idx (global_fd_table fs1 fd) < entries_per_block fs1"
    using o set(4,5,7) by (auto simp: open_file_def fd_slot_def entries_per_block_def)
  obtain fs2 ns where b: "write_body h fd str (int n) e1 (de_size e1) fs1 =
      Some (int n, written_fs fd (written_entry e1 t (de_size e1 + n)) fs2)"
    "device_ok (h, fs2)" "is_chain (fat fs2) (de_first_block e1) (ds @ l # ns)" "in_region fs2 (ds @ l # ns)"
    "set ns \<subseteq> free_blocks fs1" "only_blocks fs1 (ds @ l # ns) fs2"
    "length (ds @ l # ns) = (de_size e1 + n + block_size fs1 - 1) div block_size fs1"
    "take (de_size e1 + n) (file_bytes fs2 (ds @ l # ns)) = take (de_size e1) (file_bytes fs1 (ds @ [l])) @ take n str"
    using write_body_append [OF fb(2) set(1,2) _ _ n _ t(1) e' slot] sizes room unfolding set(3,4) by auto
  have "fst (fd_slot fs fd) \<notin> free_blocks fs" using o by (auto simp: open_file_def free_blocks_def)
  then have db: "fst (fd_slot fs fd) \<notin> set (ds @ l # ns)" using dir b(5) set(6,8) by auto
  have "k_write h (int fd) str (int n) fs = Some (int n, written_fs fd (written_entry e1 t (de_size e + n)) fs2)"
    using k_write_body [OF dev o w n(1), of str] fb(1) b(1) off sizes(4) by simp
  moreover have "device_ok (h, written_fs fd (written_entry e1 t (de_size e + n)) fs2) \<and>
      appended fs fd e cs (take n str) (written_fs fd (written_entry e1 t (de_size e + n)) fs2)
        (written_entry e1 t (de_size e + n)) (ds @ l # ns)"
    using b e' n(2) unfolding sizes(4) set(4) by (intro written_appended [OF b(2) o fb(3) db b(5) sizes(3)]) auto
  ultimately show ?thesis by blast
qed

section \<open>Facts on k_lseek\<close>

lemma lseek_from_spec:
  assumes "base < 4294967296" "-2147483648 \<le> offset" "offset < 2147483648"
  shows "lseek_from base offset =
    (if offset < 0 then Inl (if base < nat (- offset) then EK_LSEEK_NEGATIVE_OFFSET else EK_LSEEK_OFFSET_OVERFLOW)
     else if base + nat offset \<le> UINT32_MAX then Inr (base + nat offset) else Inl EK_LSEEK_OFFSET_OVERFLOW)"
proof (cases "offset < 0")
  case True
  then have "u32_of_int (- offset) = nat (- offset)" "u32_of_int offset = nat (4294967296 + offset)"
    using assms by (simp_all add: u32_of_int_nonneg u32_of_int_neg)
  moreover have "base < nat (- offset) \<or> UINT32_MAX - base < nat (4294967296 + offset)"
    using True assms by linarith
  ultimately show ?thesis using True by (auto simp: lseek_from_def)
next
  case False
  then have "u32_of_int offset = nat offset" using assms by (simp add: u32_of_int_nonneg)
  moreover have "UINT32_MAX - base < nat offset \<longleftrightarrow> \<not> base + nat offset \<le> UINT32_MAX" using assms(1) by linarith
  ultimately show ?thesis using False by (auto simp: lseek_from_def)
qed

lemma k_lseek_spec:
  assumes "is_mounted fs" "3 \<le> fd" "fd < GLOBAL_FD_TABLE_SIZE" "0 < ref_count (global_fd_table fs fd)"
    and "ptr_to_dir_entry (global_fd_table fs fd) = Some e" "P_READ_ONLY_FILE_PERMISSION \<le> de_perm e"
    and "whence \<in> {F_SEEK_SET, F_SEEK_CUR, F_SEEK_END}" "-2147483648 \<le> offset" "offset < 2147483648"
    and "fd_offset (global_fd_table fs fd) < 4294967296" "de_size e < 4294967296"
  defines "base \<equiv> (if whence = F_SEEK_SET then 0 else if whence = F_SEEK_CUR
                    then fd_offset (global_fd_table fs fd) else de_size e)"
  shows "k_lseek (int fd) offset whence fs =
    (if offset < 0 then Some (if whence = F_SEEK_SET \<or> base < nat (- offset)
                              then EK_LSEEK_NEGATIVE_OFFSET else EK_LSEEK_OFFSET_OVERFLOW, fs)
     else if base + nat offset \<le> UINT32_MAX
     then Some (int (base + nat offset), fd_upd fd (\<lambda>g. g\<lparr>fd_offset := base + nat offset\<rparr>) fs)
     else Some (EK_LSEEK_OFFSET_OVERFLOW, fs))"
proof -
  have "u32_of_int offset = nat offset" if "0 \<le> offset" using that assms by (simp add: u32_of_int_nonneg)
  then show ?thesis
    using assms lseek_from_spec [of "fd_offset (global_fd_table fs fd)" offset] lseek_from_spec [of "de_size e" offset]
    by (auto simp: k_lseek_def Let_def)
qed

section \<open>Properties\<close>

text \<open>A file open for writing at its end, on a fresh image with 256-byte blocks.\<close>

definition fs_open_example :: fatfs where
  "fs_open_example = fs_example\<lparr>global_fd_table := (global_fd_table fs_example)(3 :=
     \<lparr>ref_count = 1, ptr_to_dir_entry = Some entry_example, dir_entry_block_num = 1,
      dir_entry_idx = 0, write_locked = 1, fd_offset = 0\<rparr>)\<rparr>"

lemma open_example:
  "device_ok (host_example, fs_open_example)" "open_file fs_open_example 3 entry_example"
  "file_ok fs_open_example entry_example []" "may_write entry_example"
  "write_offset fs_open_example 3 entry_example = 0" "block_size fs_open_example = 256"
  "fd_slot fs_open_example 3 = (1, 0)" "2 \<in> free_blocks fs_open_example"
proof -
  show "device_ok (host_example, fs_open_example)" using device_example by (simp add: fs_open_example_def)
  show "open_file fs_open_example 3 entry_example"
    by (simp add: open_file_def fs_open_example_def fd_slot_def max_block_def entries_per_block_def
        fs_example_def entry_example_def entry_ok_def zero_entry_def)
  show "file_ok fs_open_example entry_example []" "may_write entry_example"
    by (simp_all add: file_ok_def file_chain_def entry_example_def zero_entry_def may_write_def
        fs_open_example_def fs_example_def)
  show "write_offset fs_open_example 3 entry_example = 0" "fd_slot fs_open_example 3 = (1, 0)"
    "block_size fs_open_example = 256" "2 \<in> free_blocks fs_open_example"
    by (simp_all add: write_offset_def fd_slot_def fs_open_example_def fs_example_def free_blocks_def max_block_def)
qed

lemma room_example: "n \<le> 256 \<Longrightarrow> n \<le> card (free_blocks fs_open_example) * 256"
proof -
  assume "n \<le> 256"
  moreover have "card {2::nat} \<le> card (free_blocks fs_open_example)"
    by (rule card_mono) (use open_example(8) in auto)
  ultimately show ?thesis by (metis card_1_singleton_iff is_singletonI le_trans mult_le_mono1 nat_mult_1 is_singleton_altdef)
qed

text \<open>
  C30: \<open>k_write\<close> at the end of a file (in append mode, or with the offset at the end) writes
  all \<open>n\<close> bytes when enough blocks are free: it returns \<open>n\<close>, the content of the file is the old
  content followed by the bytes, the blocks added were free, the directory slot on disk holds
  the updated entry, and no other block and no other FAT entry changes.
\<close>

theorem k_write_appends:
  assumes "device_ok (h, fs)" and "open_file fs fd e" and "may_write e"
    and "write_offset fs fd e = de_size e" and "file_ok fs e cs" and "fst (fd_slot fs fd) \<notin> set cs"
    and "0 < n" and "n \<le> length str"
    and "de_size e + n \<le> (length cs + card (free_blocks fs)) * block_size fs"
  shows "\<exists>fs' e' cs'. k_write h (int fd) str (int n) fs = Some (int n, fs') \<and>
    device_ok (h, fs') \<and> file_ok fs' e' cs' \<and> content fs' e' cs' = content fs e cs @ take n str \<and>
    (\<exists>ns. cs' = cs @ ns \<and> set ns \<subseteq> free_blocks fs) \<and>
    ptr_to_dir_entry (global_fd_table fs' fd) = Some e' \<and>
    fd_offset (global_fd_table fs' fd) = de_size e + n \<and>
    dir_entry_at (blocks fs' (fst (fd_slot fs fd))) (snd (fd_slot fs fd)) = e' \<and>
    (\<forall>k. k \<notin> set cs' \<longrightarrow> fat fs' k = fat fs k \<and> (k \<noteq> fst (fd_slot fs fd) \<longrightarrow> blocks fs' k = blocks fs k))"
proof -
  obtain fs' e' cs' where "k_write h (int fd) str (int n) fs = Some (int n, fs')" "device_ok (h, fs')"
    "appended fs fd e cs (take n str) fs' e' cs'"
    using k_write_append [OF assms(1-5,7-9,6)] by blast
  then show ?thesis using assms(8) by (intro exI [of _ fs'] exI [of _ e'] exI [of _ cs']) (auto simp: appended_def)
qed

theorem k_write_appends_witness:
  "\<exists>fs' e' cs'. k_write host_example 3 [104, 105] 2 fs_open_example = Some (2, fs') \<and>
     content fs' e' cs' = [104, 105] \<and> ptr_to_dir_entry (global_fd_table fs' 3) = Some e'"
proof -
  have "content fs_open_example entry_example [] = []" by (simp add: content_def)
  moreover have "de_size entry_example = 0" by (simp add: entry_example_def zero_entry_def)
  ultimately show ?thesis
    using k_write_appends [OF open_example(1,2,4) _ open_example(3), of 2 "[104, 105]"]
      open_example room_example [of 2] by auto
qed

text \<open>
  C31: \<open>k_read\<close> on an open readable file returns the bytes of the file from the current offset
  on, at most \<open>n\<close> and never past the end; it advances the offset by the number of bytes read
  and changes nothing else but the scratch buffer.
\<close>

theorem k_read_correct:
  assumes "device_ok (h, fs)" and "open_file fs fd e" and "P_READ_ONLY_FILE_PERMISSION \<le> de_perm e"
    and "file_ok fs e cs"
  shows "\<exists>d buf. d = take n (drop (fd_offset (global_fd_table fs fd)) (content fs e cs)) \<and>
    k_read h (int fd) (int n) fs = Some ((int (length d), d),
      fd_upd fd (\<lambda>g. g\<lparr>fd_offset := fd_offset (global_fd_table fs fd) + length d\<rparr>) (fs\<lparr>block_buf := buf\<rparr>))"
  using k_read_spec [OF assms(1) _ _ _ _ assms(3,4), of fd n] assms(2) by (auto simp: open_file_def)

theorem k_read_correct_witness:
  "\<exists>buf. k_read host_example 3 5 fs_open_example = Some ((0, []),
     fd_upd 3 (\<lambda>g. g\<lparr>fd_offset := 0\<rparr>) (fs_open_example\<lparr>block_buf := buf\<rparr>))"
proof -
  have "P_READ_ONLY_FILE_PERMISSION \<le> de_perm entry_example" by (simp add: entry_example_def)
  moreover have "content fs_open_example entry_example [] = []" by (simp add: content_def)
  moreover have "fd_offset (global_fd_table fs_open_example 3) = 0" by (simp add: fs_open_example_def)
  ultimately show ?thesis using k_read_correct [OF open_example(1,2) _ open_example(3), of 5] by simp
qed

text \<open>
  C32: \<open>k_lseek\<close>. For every \<open>whence\<close> a non-negative offset moves the descriptor to the base
  plus the offset, unless that exceeds \<open>UINT32_MAX\<close>. A negative offset never succeeds: relative to
  the current position or the end of the file it is rejected either as negative, or, when the
  resulting position would be valid, as an overflow, because the comparison with \<open>UINT32_MAX - base\<close>
  converts the offset to an unsigned integer.
\<close>

theorem k_lseek_correct:
  assumes "is_mounted fs" and "open_file fs fd e" and "P_READ_ONLY_FILE_PERMISSION \<le> de_perm e"
    and "whence \<in> {F_SEEK_SET, F_SEEK_CUR, F_SEEK_END}"
    and "-2147483648 \<le> offset" and "offset < 2147483648" and "fd_offset (global_fd_table fs fd) < 2 ^ 32"
  shows "k_lseek (int fd) offset whence fs =
    (let base = (if whence = F_SEEK_SET then 0 else if whence = F_SEEK_CUR
                 then fd_offset (global_fd_table fs fd) else de_size e) in
     if offset < 0 then Some (if whence = F_SEEK_SET \<or> base < nat (- offset)
                              then EK_LSEEK_NEGATIVE_OFFSET else EK_LSEEK_OFFSET_OVERFLOW, fs)
     else if base + nat offset \<le> UINT32_MAX
     then Some (int (base + nat offset), fd_upd fd (\<lambda>g. g\<lparr>fd_offset := base + nat offset\<rparr>) fs)
     else Some (EK_LSEEK_OFFSET_OVERFLOW, fs))"
  unfolding Let_def by (rule k_lseek_spec) (use assms in \<open>auto simp: open_file_def entry_ok_def\<close>)

theorem k_lseek_correct_witness:
  "k_lseek 3 (-1) F_SEEK_CUR (fd_upd 3 (\<lambda>g. g\<lparr>fd_offset := 5\<rparr>) fs_open_example) =
     Some (EK_LSEEK_OFFSET_OVERFLOW, fd_upd 3 (\<lambda>g. g\<lparr>fd_offset := 5\<rparr>) fs_open_example)"
proof -
  let ?fs = "fd_upd 3 (\<lambda>g. g\<lparr>fd_offset := 5\<rparr>) fs_open_example"
  have "is_mounted ?fs" using open_example(1) by (simp add: device_ok_def geometry_ok_def)
  moreover have "open_file ?fs 3 entry_example"
    using open_example(2) by (simp add: open_file_def fd_slot_def)
  moreover have "P_READ_ONLY_FILE_PERMISSION \<le> de_perm entry_example" by (simp add: entry_example_def)
  ultimately show ?thesis
    using k_lseek_correct [of ?fs 3 entry_example F_SEEK_CUR "-1"] by simp
qed

text \<open>
  Write, seek, read. Bytes appended to a readable file are read back: after \<open>k_write\<close> of
  \<open>n\<close> bytes at the end, \<open>k_lseek\<close> to the old size and \<open>k_read\<close> of \<open>n\<close> bytes return them.
\<close>

theorem write_seek_read_roundtrip:
  assumes dev: "device_ok (h, fs)" and o: "open_file fs fd e" and w: "may_write e"
    and r: "P_READ_ONLY_FILE_PERMISSION \<le> de_perm e"
    and off: "write_offset fs fd e = de_size e" and f: "file_ok fs e cs" and d: "fst (fd_slot fs fd) \<notin> set cs"
    and n: "0 < n" "n \<le> length str"
    and room: "de_size e + n \<le> (length cs + card (free_blocks fs)) * block_size fs"
  shows "\<exists>fs1 fs2 fs3. k_write h (int fd) str (int n) fs = Some (int n, fs1) \<and>
    k_lseek (int fd) (int (de_size e)) F_SEEK_SET fs1 = Some (int (de_size e), fs2) \<and>
    k_read h (int fd) (int n) fs2 = Some ((int n, take n str), fs3)"
proof -
  obtain fs1 e1 cs1 where w1: "k_write h (int fd) str (int n) fs = Some (int n, fs1)" "device_ok (h, fs1)"
    "appended fs fd e cs (take n str) fs1 e1 cs1"
    using k_write_append [OF dev o w off f n room d] by blast
  have geo: "geometry_ok fs" "geometry_ok fs1" "is_mounted fs1" "blocks_complete fs" 
    using dev w1(2) by (auto simp: device_ok_def geometry_ok_def)
  have a: "file_ok fs1 e1 cs1" "content fs1 e1 cs1 = content fs e cs @ take n str" "de_perm e1 = de_perm e"
    "global_fd_table fs1 fd = (global_fd_table fs fd)\<lparr>ptr_to_dir_entry := Some e1, fd_offset := de_size e + n\<rparr>"
    using w1(3) n(2) by (auto simp: appended_def)
  have size: "de_size e \<le> 268431360" "de_size e1 \<le> 268431360" "length (content fs e cs) = de_size e"
    using file_size_bound [OF geo(1) f] file_size_bound [OF geo(2) a(1)] file_ok_size [OF geo(1) f]
      length_file_bytes [OF geo(4), of cs] f by (auto simp: content_def file_ok_def)
  have fd: "3 \<le> fd" "fd < GLOBAL_FD_TABLE_SIZE" "0 < ref_count (global_fd_table fs1 fd)"
    "ptr_to_dir_entry (global_fd_table fs1 fd) = Some e1"
    using o a(4) by (auto simp: open_file_def)
  let ?fs2 = "fd_upd fd (\<lambda>g. g\<lparr>fd_offset := de_size e\<rparr>) fs1"
  have "de_size e + n < 4294967296" using room_bound [OF dev f room] .
  then have seek: "k_lseek (int fd) (int (de_size e)) F_SEEK_SET fs1 = Some (int (de_size e), ?fs2)"
    using k_lseek_spec [OF geo(3) fd, of F_SEEK_SET "int (de_size e)"] r size a(3,4) by simp
  have "content ?fs2 e1 cs1 = content fs e cs @ take n str" using a(2) by (simp add: content_def)
  then have tail: "take n (drop (fd_offset (global_fd_table ?fs2 fd)) (content ?fs2 e1 cs1)) = take n str"
    using size(3) n(2) by simp
  have pre: "device_ok (h, ?fs2)" "0 < ref_count (global_fd_table ?fs2 fd)"
    "ptr_to_dir_entry (global_fd_table ?fs2 fd) = Some e1" "P_READ_ONLY_FILE_PERMISSION \<le> de_perm e1"
    "file_ok ?fs2 e1 cs1" using w1(2) a fd r by (simp_all add: file_ok_def)
  obtain buf where "k_read h (int fd) (int n) ?fs2 = Some ((int (length (take n str)), take n str),
      fd_upd fd (\<lambda>g. g\<lparr>fd_offset := fd_offset (global_fd_table ?fs2 fd) + length (take n str)\<rparr>) (?fs2\<lparr>block_buf := buf\<rparr>))"
    using k_read_spec [OF pre(1) fd(1,2) pre(2-), of n, unfolded tail] by blast
  then show ?thesis using w1(1) seek n(2) by auto
qed

theorem write_seek_read_roundtrip_witness:
  "\<exists>fs1 fs2 fs3. k_write host_example 3 [104, 105] 2 fs_open_example = Some (2, fs1) \<and>
     k_lseek 3 0 F_SEEK_SET fs1 = Some (0, fs2) \<and> k_read host_example 3 2 fs2 = Some ((2, [104, 105]), fs3)"
proof -
  have "P_READ_ONLY_FILE_PERMISSION \<le> de_perm entry_example" "de_size entry_example = 0"
    by (simp_all add: entry_example_def zero_entry_def)
  then show ?thesis
    using write_seek_read_roundtrip [OF open_example(1,2,4) _ _ open_example(3), of 2 "[104, 105]"]
      open_example room_example [of 2] by simp
qed

end
