(* ===== verification/Fat_Ops.thy ===== *)
theory Fat_Ops
  imports Fat_IO
begin

unbundle bit_operations_syntax

text \<open>
  The remaining kernel calls of the file system (\<^verbatim>\<open>src/src/pennfat/fat.c\<close>, lines 108 to 155 and
  1182 to 1524): \<open>k_unlink\<close>, \<open>k_ls\<close>, \<open>k_chmod\<close>, \<open>k_mv\<close>, \<open>k_setmode\<close>, \<open>k_getmode\<close>,
  \<open>k_fprintf_short\<close> and \<open>unmount\<close>.

  The text that \<open>strftime\<close> makes of a time stamp depends on the time zone of the host; it is the
  parameter \<open>ft\<close> of \<open>ls_dir_entry\<close> and \<open>k_ls\<close>. \<open>k_fprintf_short\<close> takes the string that
  \<open>vsnprintf\<close> produces for its format, or \<^term>\<open>None\<close> when formatting fails.
\<close>

section \<open>k_unlink\<close>

definition mark_name :: "byte \<Rightarrow> directory_entry \<Rightarrow> directory_entry" where
  "mark_name c e = e\<lparr>de_name := (de_name e)[0 := c]\<rparr>"

definition clear_chain :: "nat \<Rightarrow> fatfs \<Rightarrow> fatfs option" where
  "clear_chain first_block fs = (if first_block \<noteq> 0 then clear_fat_file first_block fs else Some fs)"

text \<open>The branch for a file in the descriptor table: the cached entry is changed in place.\<close>

definition unlink_open :: "host \<Rightarrow> nat \<Rightarrow> fatfs \<Rightarrow> (int \<times> fatfs) option" where
  "unlink_open h fd fs = do {
     let g = global_fd_table fs fd;
     e \<leftarrow> ptr_to_dir_entry g;
     let e' = mark_name (if ref_count g > 0 then 2 else 1) e;
     fs \<leftarrow> (if ref_count g > 0 then Some fs else clear_chain (de_first_block e) fs);
     let fs = fd_upd fd (\<lambda>g. g\<lparr>ptr_to_dir_entry := Some e'\<rparr>) fs;
     (code, fs) \<leftarrow> write_root_dir_entry h e' (dir_entry_block_num g) (dir_entry_idx g) fs;
     Some (if code \<noteq> 0 then EK_UNLINK_WRITE_ROOT_DIR_ENTRY_FAILED else 0, fs)
   }"

definition unlink_closed :: "host \<Rightarrow> byte list \<Rightarrow> fatfs \<Rightarrow> (int \<times> fatfs) option" where
  "unlink_closed h fname fs = do {
     ((status, hit), fs) \<leftarrow> find_file_in_root_dir h fname fs;
     if status < 0 then Some (EK_UNLINK_FIND_FILE_IN_ROOT_DIR_FAILED, fs)
     else if status = RFIND_FILE_IN_ROOT_DIR_FILE_NOT_FOUND \<or>
             status = RFIND_FILE_IN_ROOT_DIR_FILE_DELETED
     then Some (EK_UNLINK_FILE_NOT_FOUND, fs)
     else do {
       (e, block, idx) \<leftarrow> hit;
       fs \<leftarrow> clear_chain (de_first_block e) fs;
       (code, fs) \<leftarrow> write_root_dir_entry h (mark_name 1 e) block idx fs;
       Some (if code \<noteq> 0 then EK_UNLINK_WRITE_ROOT_DIR_ENTRY_FAILED else 0, fs)
     }
   }"

definition k_unlink :: "host \<Rightarrow> byte list \<Rightarrow> fatfs \<Rightarrow> (int \<times> fatfs) option" where
  "k_unlink h fname fs =
     (if \<not> is_mounted fs then Some (EFS_NOT_MOUNTED, fs)
      else if \<not> is_valid_filename fname then Some (EK_UNLINK_INVALID_FILENAME, fs)
      else do {
        found \<leftarrow> find_file_in_global_fd_table fname fs;
        case found of
          Some fd \<Rightarrow> unlink_open h fd fs
        | None \<Rightarrow> unlink_closed h fname fs
      })"

section \<open>k_ls\<close>

definition pad3 :: "byte list \<Rightarrow> byte list" where
  "pad3 s = replicate (3 - length s) 32 @ s"

definition perm_str :: "nat \<Rightarrow> nat \<Rightarrow> byte list" where
  "perm_str ty perm =
     [if ty = 2 then 100 else 45, if perm AND 4 \<noteq> 0 then 114 else 45,
      if perm AND 2 \<noteq> 0 then 119 else 45, if perm AND 1 \<noteq> 0 then 120 else 45]"

definition ls_line :: "(nat \<Rightarrow> byte list) \<Rightarrow> directory_entry \<Rightarrow> byte list" where
  "ls_line ft e =
     (if de_first_block e \<noteq> 0 then pad3 (digits (de_first_block e)) else replicate 4 32) @
     32 # perm_str (de_type e) (de_perm e) @ 32 # decimal (s32 (de_size e)) @
     ft (de_mtime e) @ 32 # cname e @ [10]"

definition ls_dir_entry ::
  "host \<Rightarrow> (nat \<Rightarrow> byte list) \<Rightarrow> directory_entry \<Rightarrow> fatfs \<Rightarrow> (int \<times> fatfs) option" where
  "ls_dir_entry h ft e fs =
     (let line = ls_line ft e in
      if \<not> terminated e \<or> length line + 1 > length (block_buf fs) then None
      else do {
        let fs = fs\<lparr>block_buf := overlay 0 (line @ [0]) (block_buf fs)\<rparr>;
        (_, fs) \<leftarrow> k_write h 1 (block_buf fs) (int (length line)) fs;
        Some (0, fs)
      })"

text \<open>The entries of one block from index \<open>i\<close>, \<open>k\<close> of them left; \<open>True\<close>: the end mark was met.\<close>

fun ls_entries ::
  "host \<Rightarrow> (nat \<Rightarrow> byte list) \<Rightarrow> byte list \<Rightarrow> nat \<Rightarrow> nat \<Rightarrow> fatfs \<Rightarrow> (bool \<times> fatfs) option" where
  "ls_entries h ft buf i 0 fs = Some (False, fs)"
| "ls_entries h ft buf i (Suc k) fs =
     (let e = dir_entry_at buf i in
      if name0 e = 0 then Some (True, fs)
      else if name0 e = 1 \<or> name0 e = 2 then ls_entries h ft buf (Suc i) k fs
      else do {
        (_, fs) \<leftarrow> ls_dir_entry h ft e fs;
        ls_entries h ft buf (Suc i) k fs
      })"

partial_function (option) ls_loop ::
  "host \<Rightarrow> (nat \<Rightarrow> byte list) \<Rightarrow> nat \<Rightarrow> byte list \<Rightarrow> fatfs \<Rightarrow> (int \<times> fatfs) option" where
  "ls_loop h ft block buf fs =
     (case get_block h fs block buf of
        (code, buf) \<Rightarrow>
          if code \<noteq> 0 then Some (EK_LS_GET_BLOCK_FAILED, fs)
          else do {
            (at_end, fs) \<leftarrow> ls_entries h ft buf 0 (n_dir_entry_per_block fs) fs;
            if at_end then Some (0, fs)
            else
              case next_block_num fs block block of
                (code, block) \<Rightarrow>
                  if code \<noteq> 0 then Some (EK_LS_NEXT_BLOCK_NUM_FAILED, fs)
                  else ls_loop h ft block buf fs
          })"

text \<open>
  The second buffer of \<open>k_ls\<close> comes from \<open>malloc\<close>; its initial bytes are overwritten by the
  first successful \<open>get_block\<close> and never read before.
\<close>

definition k_ls ::
  "host \<Rightarrow> (nat \<Rightarrow> byte list) \<Rightarrow> byte list option \<Rightarrow> fatfs \<Rightarrow> (int \<times> fatfs) option" where
  "k_ls h ft filename fs =
     (case filename of
        Some fname \<Rightarrow> do {
          ((status, hit), fs) \<leftarrow> find_file_in_root_dir h fname fs;
          if status \<noteq> 0 then Some (EK_LS_FIND_FILE_IN_ROOT_DIR_FAILED, fs)
          else do { (e, _) \<leftarrow> hit; ls_dir_entry h ft e fs }
        }
      | None \<Rightarrow>
          if \<not> h_malloc h then Some (EK_LS_MALLOC_FAILED, fs)
          else ls_loop h ft 1 (replicate (block_size fs) 0) fs)"

section \<open>k_chmod\<close>

abbreviation F_CHMOD_SET :: int where "F_CHMOD_SET \<equiv> 0"
abbreviation F_CHMOD_ADD :: int where "F_CHMOD_ADD \<equiv> 1"
abbreviation F_CHMOD_REMOVE :: int where "F_CHMOD_REMOVE \<equiv> 2"

definition chmod_perm :: "nat \<Rightarrow> nat \<Rightarrow> int \<Rightarrow> nat option" where
  "chmod_perm old perm mode =
     (if mode = F_CHMOD_SET then Some perm
      else if mode = F_CHMOD_ADD then Some (old OR perm)
      else if mode = F_CHMOD_REMOVE then Some (unat ((word_of_nat old :: byte) AND NOT (word_of_nat perm)))
      else None)"

definition k_chmod :: "host \<Rightarrow> byte list \<Rightarrow> nat \<Rightarrow> int \<Rightarrow> fatfs \<Rightarrow> (int \<times> fatfs) option" where
  "k_chmod h fname perm mode fs =
     (if \<not> is_mounted fs then Some (EFS_NOT_MOUNTED, fs)
      else if \<not> is_valid_filename fname then Some (EK_CHMOD_INVALID_FILENAME, fs)
      else do {
        ((status, hit), fs) \<leftarrow> find_file_in_root_dir h fname fs;
        if status \<noteq> 0 then Some (EK_CHMOD_FILE_NOT_FOUND, fs)
        else do {
          (e, block, idx) \<leftarrow> hit;
          if perm > 7 then Some (EK_CHMOD_WRONG_PERMISSIONS, fs)
          else
            case chmod_perm (de_perm e) perm mode of
              None \<Rightarrow> Some (EK_CHMOD_INVALID_MODE, fs)
            | Some p \<Rightarrow> do {
                (code, fs) \<leftarrow> write_root_dir_entry h (e\<lparr>de_perm := p\<rparr>) block idx fs;
                Some (if code \<noteq> 0 then EK_CHMOD_WRITE_ROOT_DIR_ENTRY_FAILED else 0, fs)
              }
        }
      })"

section \<open>k_mv\<close>

text \<open>\<open>strcpy\<close> of a valid name into the 32-byte name field.\<close>

definition rename_entry :: "byte list \<Rightarrow> directory_entry \<Rightarrow> directory_entry" where
  "rename_entry dest e = e\<lparr>de_name := overlay 0 (dest @ [0]) (de_name e)\<rparr>"

definition k_mv :: "host \<Rightarrow> byte list \<Rightarrow> byte list \<Rightarrow> fatfs \<Rightarrow> (int \<times> fatfs) option" where
  "k_mv h src dest fs =
     (if \<not> is_mounted fs then Some (EFS_NOT_MOUNTED, fs)
      else if \<not> is_valid_filename dest then Some (EK_MV_INVALID_FILENAME, fs)
      else do {
        (unlink_status, fs) \<leftarrow> k_unlink h dest fs;
        if unlink_status \<noteq> 0 \<and> unlink_status \<noteq> EK_UNLINK_FILE_NOT_FOUND
        then Some (EK_MV_UNLINK_FAILED, fs)
        else do {
          (src_fd, fs) \<leftarrow> k_open h src F_READ fs;
          if src_fd = EK_OPEN_FILE_DOES_NOT_EXIST then Some (EK_MV_FILE_NOT_FOUND, fs)
          else if src_fd < 0 then Some (EK_MV_OPEN_FAILED, fs)
          else do {
            let fd = nat src_fd;
            e \<leftarrow> ptr_to_dir_entry (global_fd_table fs fd);
            let e = rename_entry dest e;
            let fs = fd_upd fd (\<lambda>g. g\<lparr>ptr_to_dir_entry := Some e\<rparr>) fs;
            let g = global_fd_table fs fd;
            (code, fs) \<leftarrow> write_root_dir_entry h e (dir_entry_block_num g) (dir_entry_idx g) fs;
            (close_status, fs) \<leftarrow> k_close h src_fd fs;
            Some (if close_status \<noteq> 0 then EK_MV_CLOSE_FAILED
                  else if code \<noteq> 0 then EK_MV_WRITE_ROOT_DIR_ENTRY_FAILED else 0, fs)
          }
        }
      })"

section \<open>Modes, formatted output, unmount\<close>

definition k_setmode :: "int \<Rightarrow> int \<Rightarrow> fatfs \<Rightarrow> (int \<times> fatfs) option" where
  "k_setmode fd mode fs =
     (if fd \<ge> int GLOBAL_FD_TABLE_SIZE then Some (EK_SETMODE_FD_OUT_OF_RANGE, fs)
      else if fd < 0 then None
      else if ref_count (global_fd_table fs (nat fd)) = 0 then Some (EK_SETMODE_FD_NOT_IN_USE, fs)
      else if mode \<noteq> F_READ \<and> mode \<noteq> F_WRITE \<and> mode \<noteq> F_APPEND then Some (EK_SETMODE_BAD_MODE, fs)
      else Some (0, fd_upd (nat fd) (\<lambda>g. g\<lparr>write_locked := u8_of_int mode\<rparr>) fs))"

definition k_getmode :: "int \<Rightarrow> fatfs \<Rightarrow> int option" where
  "k_getmode fd fs =
     (if fd \<ge> int GLOBAL_FD_TABLE_SIZE then Some EK_GETMODE_FD_OUT_OF_RANGE
      else if fd < 0 then None
      else if ref_count (global_fd_table fs (nat fd)) = 0 then Some EK_GETMODE_FD_NOT_IN_USE
      else Some (int (write_locked (global_fd_table fs (nat fd)))))"

definition k_fprintf_short :: "host \<Rightarrow> int \<Rightarrow> byte list option \<Rightarrow> fatfs \<Rightarrow> (int \<times> fatfs) option" where
  "k_fprintf_short h fd formatted fs =
     (case formatted of
        None \<Rightarrow> Some (E_STR_FORMAT_FAILED, fs)
      | Some s \<Rightarrow>
          if length s \<ge> 1024 then Some (E_STR_TOO_LONG_FOR_FPRINTF_BUF, fs)
          else
            let s = takeWhile (\<lambda>b. b \<noteq> 0) s in k_write h fd s (int (length s)) fs)"

abbreviation EUNMOUNT_MUNMAP_FAILED :: int where "EUNMOUNT_MUNMAP_FAILED \<equiv> 1"
abbreviation EUNMOUNT_CLOSE_FAILED :: int where "EUNMOUNT_CLOSE_FAILED \<equiv> 2"

text \<open>Closing the open files from index \<open>i\<close>, \<open>k\<close> table entries left.\<close>

fun close_all :: "host \<Rightarrow> nat \<Rightarrow> nat \<Rightarrow> fatfs \<Rightarrow> fatfs option" where
  "close_all h i 0 fs = Some fs"
| "close_all h i (Suc k) fs =
     (if ref_count (global_fd_table fs i) > 0 then do {
        (_, fs) \<leftarrow> k_close h (int i) (fd_upd i (\<lambda>g. g\<lparr>ref_count := 1\<rparr>) fs);
        close_all h (Suc i) k fs
      }
      else close_all h (Suc i) k fs)"

text \<open>\<open>munmap_ok\<close> and \<open>close_ok\<close> say whether the host calls succeed.\<close>

definition unmount :: "host \<Rightarrow> bool \<Rightarrow> bool \<Rightarrow> fatfs \<Rightarrow> (int \<times> fatfs) option" where
  "unmount h munmap_ok close_ok fs =
     (if \<not> is_mounted fs then Some (EFS_NOT_MOUNTED, fs)
      else do {
        fs \<leftarrow> close_all h 0 GLOBAL_FD_TABLE_SIZE fs;
        let fs = fs\<lparr>block_buf := []\<rparr>;
        if \<not> munmap_ok then Some (EUNMOUNT_MUNMAP_FAILED, fs)
        else if \<not> close_ok then Some (EUNMOUNT_CLOSE_FAILED, fs)
        else Some (0, fs\<lparr>fat := (\<lambda>_. 0), fat_size := 0, block_size := 0, blocks_in_fat := 0,
                         fs_fd := -1\<rparr>)
      })"

end
