(* ===== verification/Fat_Volume.thy ===== *)
theory Fat_Volume
  imports Fat_Append Fat_Ops
begin

text \<open>
  The whole volume as a map from file names to permissions and contents. \<open>volume\<close> is the invariant
  that ties directory, FAT and data blocks together: every name in the directory has a chain of
  blocks of the right length, and the chains are apart from each other and from the directory.
  Opening, closing, writing at the end, truncating, unlinking, renaming and changing permissions
  are shown to keep it and to act on the map.
\<close>

section \<open>Appending to one file leaves the others alone\<close>

lemma chain_not_free:
  assumes "file_ok fs e cs" shows "set cs \<inter> free_blocks fs = {}" "distinct cs"
proof -
  have "c \<in> set cs \<Longrightarrow> fat fs c \<noteq> 0" for c
    using assms chain_nonzero [of "fat fs" "de_first_block e" cs c]
    by (auto simp: file_ok_def file_chain_def in_region_def split: if_split_asm)
  then show "set cs \<inter> free_blocks fs = {}" by (fastforce simp: free_blocks_def)
  show "distinct cs"
    using assms is_chain_distinct by (auto simp: file_ok_def file_chain_def split: if_split_asm)
qed

lemma chain_used:
  assumes "file_ok fs e cs" "c \<in> set cs" shows "fat fs c \<noteq> 0"
  using assms chain_nonzero [of "fat fs" "de_first_block e" cs c]
  by (auto simp: file_ok_def file_chain_def in_region_def split: if_split_asm)

lemma appended_room:
  assumes a: "appended fs fd e cs str fs' e' cs'" and f: "file_ok fs e cs"
  shows "length cs' + card (free_blocks fs') = length cs + card (free_blocks fs)"
proof -
  obtain ns where ns: "cs' = cs @ ns" "set ns \<subseteq> free_blocks fs" using a by (auto simp: appended_def)
  have f': "file_ok fs' e' cs'" using a by (simp add: appended_def)
  have "free_blocks fs' = free_blocks fs - set ns"
  proof (intro set_eqI)
    fix k
    have m: "max_block fs' = max_block fs" "k \<notin> set cs' \<Longrightarrow> fat fs' k = fat fs k"
      using a by (auto simp: appended_def)
    show "k \<in> free_blocks fs' \<longleftrightarrow> k \<in> free_blocks fs - set ns"
    proof (cases "k \<in> set cs'")
      case True
      then show ?thesis using chain_not_free(1) [OF f'] chain_not_free(1) [OF f] ns(1) by auto
    next
      case False
      then show ?thesis using m ns(1) by (auto simp: free_blocks_def)
    qed
  qed
  moreover have "card (set ns) = length ns" using chain_not_free(2) [OF f'] ns(1) by (simp add: distinct_card)
  moreover have "card (set ns) \<le> card (free_blocks fs)" using ns(2) by (intro card_mono) auto
  ultimately show ?thesis using ns by (simp add: card_Diff_subset)
qed

text \<open>Another file, whose blocks are apart from the one written and from its directory block.\<close>

lemma appended_other:
  assumes a: "appended fs fd e cs str fs' e' cs'" and o: "file_ok fs e1 cs1"
    and d: "set cs1 \<inter> set cs = {}" "fst (fd_slot fs fd) \<notin> set cs1"
  shows "file_ok fs' e1 cs1" "content fs' e1 cs1 = content fs e1 cs1" "set cs1 \<inter> set cs' = {}"
proof -
  obtain ns where ns: "cs' = cs @ ns" "set ns \<subseteq> free_blocks fs" using a by (auto simp: appended_def)
  show d': "set cs1 \<inter> set cs' = {}" using ns d(1) chain_not_free(1) [OF o] by auto
  have k: "fat fs' k = fat fs k" "blocks fs' k = blocks fs k" if "k \<in> set cs1" for k
    using a that d' d(2) by (auto simp: appended_def)
  have m: "block_size fs' = block_size fs" "max_block fs' = max_block fs" using a by (auto simp: appended_def)
  have "is_chain (fat fs') b cs1 = is_chain (fat fs) b cs1" for b using k(1) by (intro is_chain_cong) auto
  then show "file_ok fs' e1 cs1" using o m by (simp add: file_ok_def file_chain_def in_region_def)
  have "file_bytes fs' cs1 = file_bytes fs cs1" using k(2) by (intro file_bytes_cong) auto
  then show "content fs' e1 cs1 = content fs e1 cs1" by (simp add: content_def)
qed

lemma appended_open:
  assumes a: "appended fs fd e cs str fs' e' cs'"
  shows "open_file fs fd e \<Longrightarrow> open_file fs' fd e'"
    "open_file fs fd1 e1 \<Longrightarrow> fd1 \<noteq> fd \<Longrightarrow> open_file fs' fd1 e1"
    "write_offset fs' fd e' = de_size e'"
proof -
  have t: "global_fd_table fs' = (global_fd_table fs)(fd := (global_fd_table fs fd)
       \<lparr>ptr_to_dir_entry := Some e', fd_offset := de_size e + length str\<rparr>)"
    "entry_ok e'" "max_block fs' = max_block fs" "entries_per_block fs' = entries_per_block fs"
    "de_size e' = de_size e + length str"
    using a by (auto simp: appended_def entries_per_block_def)
  have nz: "fat fs' b \<noteq> 0" if "fat fs b \<noteq> 0" for b
    using a that chain_used [of fs' e' cs' b] by (cases "b \<in> set cs'") (auto simp: appended_def)
  show "open_file fs fd e \<Longrightarrow> open_file fs' fd e'" using t nz by (auto simp: open_file_def fd_slot_def)
  show "open_file fs fd1 e1 \<Longrightarrow> fd1 \<noteq> fd \<Longrightarrow> open_file fs' fd1 e1" using t nz by (auto simp: open_file_def fd_slot_def)
  show "write_offset fs' fd e' = de_size e'" using t by (simp add: write_offset_def)
qed

text \<open>The state after a read of descriptor \<open>sd\<close>: a new offset, another scratch buffer.\<close>

definition after_read :: "nat \<Rightarrow> nat \<Rightarrow> byte list \<Rightarrow> fatfs \<Rightarrow> fatfs" where
  "after_read sd off buf fs = fd_upd sd (\<lambda>g. g\<lparr>fd_offset := off\<rparr>) (fs\<lparr>block_buf := buf\<rparr>)"

lemma after_read_simps [simp]:
  "fat (after_read sd off buf fs) = fat fs" "blocks (after_read sd off buf fs) = blocks fs"
  "block_size (after_read sd off buf fs) = block_size fs" "max_block (after_read sd off buf fs) = max_block fs"
  "free_blocks (after_read sd off buf fs) = free_blocks fs"
  "entries_per_block (after_read sd off buf fs) = entries_per_block fs"
  "fd_slot (after_read sd off buf fs) d = fd_slot fs d" "content (after_read sd off buf fs) e cs = content fs e cs"
  "in_region (after_read sd off buf fs) cs = in_region fs cs"
  "global_fd_table (after_read sd off buf fs) d =
     (if d = sd then (global_fd_table fs sd)\<lparr>fd_offset := off\<rparr> else global_fd_table fs d)"
  by (simp_all add: after_read_def fd_slot_def content_def entries_per_block_def)

lemma after_read_open [simp]: "open_file (after_read sd off buf fs) d e = open_file fs d e"
  by (auto simp: open_file_def)

lemma after_read_file [simp]: "file_ok (after_read sd off buf fs) e cs = file_ok fs e cs"
  by (simp add: file_ok_def)

lemma after_read_device:
  "device_ok (h, fs) \<Longrightarrow> length buf = block_size fs \<Longrightarrow> device_ok (h, after_read sd off buf fs)"
  by (simp add: after_read_def device_ok_def)

section \<open>The invariant and the abstract volume\<close>

definition named :: "fatfs \<Rightarrow> nat list \<Rightarrow> byte list \<Rightarrow> ((nat \<times> nat) \<times> directory_entry) option" where
  "named fs bs f = (if is_valid_filename f then dir_find f (dir_slots fs bs) else None)"

definition volume :: "fatfs \<Rightarrow> nat list \<Rightarrow> (byte list \<Rightarrow> nat list) \<Rightarrow> bool" where
  "volume fs bs cf \<longleftrightarrow> dir_ok fs bs \<and>
     (\<forall>f p e. named fs bs f = Some (p, e) \<longrightarrow> file_ok fs e (cf f) \<and> set (cf f) \<inter> set bs = {}) \<and>
     (\<forall>f g. f \<noteq> g \<and> named fs bs f \<noteq> None \<and> named fs bs g \<noteq> None \<longrightarrow> set (cf f) \<inter> set (cf g) = {})"

definition files :: "fatfs \<Rightarrow> nat list \<Rightarrow> (byte list \<Rightarrow> nat list) \<Rightarrow> byte list \<rightharpoonup> nat \<times> byte list" where
  "files fs bs cf f = map_option (\<lambda>(p, e). (de_perm e, content fs e (cf f))) (named fs bs f)"

text \<open>\<open>holds h fs F\<close>: the mounted file system \<open>fs\<close> stores exactly the files \<open>F\<close>.\<close>

definition holds :: "host \<Rightarrow> fatfs \<Rightarrow> (byte list \<rightharpoonup> nat \<times> byte list) \<Rightarrow> bool" where
  "holds h fs F \<longleftrightarrow> device_ok (h, fs) \<and> (\<exists>bs cf. volume fs bs cf \<and> files fs bs cf = F)"

lemma volumeD:
  assumes "volume fs bs cf"
  shows "dir_ok fs bs" "named fs bs f = Some (p, e) \<Longrightarrow> file_ok fs e (cf f) \<and> set (cf f) \<inter> set bs = {}"
    "f \<noteq> g \<Longrightarrow> named fs bs f \<noteq> None \<Longrightarrow> named fs bs g \<noteq> None \<Longrightarrow> set (cf f) \<inter> set (cf g) = {}"
  using assms unfolding volume_def by blast+

lemma namedD:
  assumes "named fs bs f = Some (p, e)"
  shows "is_valid_filename f" "cname e = f" "(p, e) \<in> set (live (dir_slots fs bs))"
  using assms dir_find_SomeD [of f "dir_slots fs bs" "(p, e)"] by (auto simp: named_def split: if_splits)

section \<open>Frames\<close>

text \<open>The blocks \<open>A\<close> and their FAT entries are the same in both states.\<close>

definition same_on :: "fatfs \<Rightarrow> fatfs \<Rightarrow> nat set \<Rightarrow> bool" where
  "same_on fs fs' A \<longleftrightarrow> block_size fs' = block_size fs \<and> max_block fs' = max_block fs \<and>
     (\<forall>b\<in>A. fat fs' b = fat fs b \<and> blocks fs' b = blocks fs b)"

lemma file_same:
  assumes "same_on fs fs' (set cs)"
  shows "file_ok fs' e cs = file_ok fs e cs" "content fs' e cs = content fs e cs"
proof -
  have "is_chain (fat fs') b cs = is_chain (fat fs) b cs" for b
    using assms by (intro is_chain_cong) (auto simp: same_on_def)
  then show "file_ok fs' e cs = file_ok fs e cs"
    using assms by (simp add: file_ok_def file_chain_def in_region_def same_on_def)
  have "file_bytes fs' cs = file_bytes fs cs"
    using assms by (intro file_bytes_cong) (auto simp: same_on_def)
  then show "content fs' e cs = content fs e cs" by (simp add: content_def)
qed

lemma dir_same:
  assumes "same_on fs fs' (set bs)"
  shows "dir_slots fs' bs = dir_slots fs bs" "dir_ok fs' bs = dir_ok fs bs" "named fs' bs = named fs bs"
proof -
  have b: "block_slots fs' b = block_slots fs b" if "b \<in> set bs" for b
    using assms that by (simp add: block_slots_def entries_per_block_def same_on_def)
  show s: "dir_slots fs' bs = dir_slots fs bs" using b by (intro dir_slots_cong) auto
  have "dir_slots fs' (butlast bs) = dir_slots fs (butlast bs)"
    using b by (intro dir_slots_cong) (auto dest: in_set_butlastD)
  moreover have "is_chain (fat fs') 1 bs = is_chain (fat fs) 1 bs"
    using assms by (intro is_chain_cong) (auto simp: same_on_def)
  ultimately show "dir_ok fs' bs = dir_ok fs bs"
    using assms s b [OF last_in_set] by (auto simp: dir_ok_def in_region_def same_on_def)
  show "named fs' bs = named fs bs" by (simp add: named_def fun_eq_iff s)
qed

text \<open>States with the same disk hold the same files.\<close>

lemma volume_same:
  assumes "same_on fs fs' UNIV"
  shows "volume fs' bs cf = volume fs bs cf" "files fs' bs cf = files fs bs cf"
proof -
  have s: "same_on fs fs' A" for A using assms by (auto simp: same_on_def)
  show "volume fs' bs cf = volume fs bs cf" "files fs' bs cf = files fs bs cf"
    by (simp_all add: volume_def files_def fun_eq_iff dir_same [OF s] file_same [OF s])
qed

lemma holds_same: "holds h fs F \<Longrightarrow> same_on fs fs' UNIV \<Longrightarrow> device_ok (h, fs') \<Longrightarrow> holds h fs' F"
  by (auto simp: holds_def volume_same)

lemma same_on_table [simp]: "same_on fs (fs\<lparr>global_fd_table := t\<rparr>) A" "same_on fs (fs\<lparr>block_buf := buf\<rparr>) A"
  by (auto simp: same_on_def)

lemma named_slot:
  assumes "volume fs bs cf" "named fs bs f = Some (p, e)"
  shows "1 \<le> fst p" "fst p \<le> max_block fs" "snd p < entries_per_block fs" "fst p \<in> set bs" "fat fs (fst p) \<noteq> 0"
proof -
  have "(p, e) \<in> set (dir_slots fs bs)" using namedD(3) [OF assms(2)] set_live_subset by auto
  then have "p \<in> set bs \<times> {0..<entries_per_block fs}" unfolding fst_dir_slots [symmetric] by force
  then show p: "snd p < entries_per_block fs" "fst p \<in> set bs" by (cases p; simp)+
  have ok: "dir_ok fs bs" by (rule volumeD(1) [OF assms(1)])
  then show "1 \<le> fst p" "fst p \<le> max_block fs" using p(2) by (auto simp: dir_ok_def in_region_def)
  show "fat fs (fst p) \<noteq> 0"
    using ok p(2) by (intro chain_nonzero [of "fat fs" 1 bs]) (auto simp: dir_ok_def in_region_def)
qed

lemma named_entry_ok:
  assumes "device_ok (h, fs)" "volume fs bs cf" "named fs bs f = Some (p, e)"
  shows "entry_ok e" "slot_ok e" "name0 e \<noteq> 0" "2 < sint (name0 e)"
proof -
  have l: "(p, e) \<in> set (live (dir_slots fs bs))" by (rule namedD(3) [OF assms(3)])
  then have e: "e = dir_entry_at (blocks fs (fst p)) (snd p)" "name0 e \<noteq> 0"
    using set_live_subset [OF l] by (auto simp: dir_slots_def block_slots_def)
  show "name0 e \<noteq> 0" by (rule e(2))
  have g: "geometry_ok fs" "blocks_complete fs" using assms(1) device_okD by auto
  have "length (blocks fs (fst p)) = block_size fs"
    using g(2) named_slot [OF assms(2,3)] by (auto simp: blocks_complete_def)
  then show "entry_ok e"
    using slot_range [OF g(1) named_slot(3) [OF assms(2,3)]]
    by (auto simp: e(1) dir_entry_at_def intro!: entry_ok_decode)
  show "slot_ok e" using l volumeD(1) [OF assms(2)] by (auto simp: dir_ok_def)
  show "2 < sint (name0 e)"
    using cname_valid_name0 [of e] namedD(1,2) [OF assms(3)] filename_char_positive by simp
qed

section \<open>Replacing an entry\<close>

text \<open>
  The entry of \<open>f\<close> is overwritten by \<open>e\<close> in the directory, the blocks of the other files and the
  chain of the directory stay, and if \<open>e\<close> names a file its blocks are \<open>cs\<close>.
\<close>

lemma named_replace:
  assumes dev: "device_ok (h, fs)" and v: "volume fs bs cf" and x: "named fs bs f = Some (p, x)"
    and e: "entry_ok e" "slot_ok e" "name0 e \<noteq> 0" and fresh: "cname e = f \<or> named fs bs (cname e) = None"
    and dir: "same_on (put_entry (fst p) (snd p) e fs) fs' (set bs)"
  shows "dir_ok fs' bs"
    "named fs' bs = (named fs bs)(f := None, cname e := (if is_valid_filename (cname e) then Some (p, e) else None))"
proof -
  let ?fs = "put_entry (fst p) (snd p) e fs"
  have ok: "dir_ok fs bs" by (rule volumeD(1) [OF v])
  have uniq: "names_unique (live (dir_slots fs bs))" using ok by (simp add: dir_ok_def)
  have l: "((fst p, snd p), x) \<in> set (live (dir_slots fs bs))" using namedD(3) [OF x] by simp
  have "\<forall>d\<in>set (live (dir_slots fs bs)).
      is_valid_filename (cname e) \<and> cname (snd d) = cname e \<longrightarrow> fst d = (fst p, snd p)"
  proof (intro ballI impI)
    fix d assume d: "d \<in> set (live (dir_slots fs bs))" "is_valid_filename (cname e) \<and> cname (snd d) = cname e"
    then have "named fs bs (cname e) = Some d" using dir_find_Some_iff [OF uniq] by (simp add: named_def)
    then show "fst d = (fst p, snd p)" using fresh x by auto
  qed
  from dir_ok_upd [OF dev ok l e this]
  have u: "dir_ok ?fs bs" "live (dir_slots ?fs bs) = upd_slot p e (live (dir_slots fs bs))" by auto
  then show ok': "dir_ok fs' bs" using dir_same(2) [OF dir] by simp
  have "named ?fs bs g = (if is_valid_filename g then if cname e = g then Some (p, e)
      else if f = g then None else dir_find g (dir_slots fs bs) else None)" for g
    using dir_find_upd [OF ok u(1) _ u(2) namedD(3) [OF x], of g] namedD(2) [OF x] by (simp add: named_def)
  then show "named fs' bs = (named fs bs)(f := None, cname e := (if is_valid_filename (cname e) then Some (p, e) else None))"
    unfolding dir_same(3) [OF dir] by (auto simp: fun_eq_iff named_def)
qed

lemma volume_replace:
  assumes dev: "device_ok (h, fs)" and v: "volume fs bs cf" and x: "named fs bs f = Some (p, x)"
    and e: "entry_ok e" "slot_ok e" "name0 e \<noteq> 0" and fresh: "cname e = f \<or> named fs bs (cname e) = None"
    and dir: "same_on (put_entry (fst p) (snd p) e fs) fs' (set bs)"
    and others: "\<And>g. g \<noteq> f \<Longrightarrow> named fs bs g \<noteq> None \<Longrightarrow> same_on fs fs' (set (cf g))"
    and fl: "is_valid_filename (cname e) \<Longrightarrow> file_ok fs' e cs \<and> set cs \<inter> set bs = {}"
    and apart: "\<And>g. is_valid_filename (cname e) \<Longrightarrow> g \<noteq> f \<Longrightarrow> named fs bs g \<noteq> None \<Longrightarrow> set cs \<inter> set (cf g) = {}"
  shows "volume fs' bs (cf(cname e := cs))"
    "files fs' bs (cf(cname e := cs)) = (files fs bs cf)(f := None,
       cname e := (if is_valid_filename (cname e) then Some (de_perm e, content fs' e cs) else None))"
proof -
  note n = named_replace [OF dev v x e fresh dir]
  have other: "same_on fs fs' (set (cf g))" "named fs bs g = Some (q, y)"
    if "named fs' bs g = Some (q, y)" "g \<noteq> cname e" for g q y
    using that n(2) others [of g] by (auto split: if_splits)
  show "volume fs' bs (cf(cname e := cs))"
    unfolding volume_def
  proof (intro conjI allI impI)
    show "dir_ok fs' bs" by (rule n(1))
  next
    fix g q y assume g: "named fs' bs g = Some (q, y)"
    show "file_ok fs' y ((cf(cname e := cs)) g)" "set ((cf(cname e := cs)) g) \<inter> set bs = {}"
      using g n(2) fl other [OF g] volumeD(2) [OF v, of g q y] file_same(1)
      by (cases "g = cname e"; fastforce split: if_splits)+
  next
    fix g k assume "g \<noteq> k \<and> named fs' bs g \<noteq> None \<and> named fs' bs k \<noteq> None"
    then show "set ((cf(cname e := cs)) g) \<inter> set ((cf(cname e := cs)) k) = {}"
      using n(2) volumeD(3) [OF v, of g k] apart [of g] apart [of k] by (auto split: if_splits)
  qed
  show "files fs' bs (cf(cname e := cs)) = (files fs bs cf)(f := None,
       cname e := (if is_valid_filename (cname e) then Some (de_perm e, content fs' e cs) else None))"
  proof
    fix g
    show "files fs' bs (cf(cname e := cs)) g = ((files fs bs cf)(f := None,
       cname e := (if is_valid_filename (cname e) then Some (de_perm e, content fs' e cs) else None))) g"
    proof (cases "g = cname e \<or> g = f \<or> named fs bs g = None")
      case True
      then show ?thesis using n(2) by (auto simp: files_def)
    next
      case False
      then show ?thesis using n(2) file_same(2) [OF others [of g]] by (auto simp: files_def)
    qed
  qed
qed

section \<open>Adding an entry\<close>

lemma dir_grows_same:
  assumes g: "dir_grows fs bs fs' bs'" and bs: "bs \<noteq> []"
    and c: "set cs \<inter> set bs = {}" "\<And>c. c \<in> set cs \<Longrightarrow> fat fs c \<noteq> 0"
  shows "same_on fs fs' (set cs)" "set cs \<inter> set bs' = {}"
proof -
  have "last bs \<in> set bs" using bs by simp
  then have "set cs \<inter> set bs' = {} \<and> (\<forall>b\<in>set cs. fat fs' b = fat fs b)"
    using g c unfolding dir_grows_def by (auto dest: c(2))
  then show "same_on fs fs' (set cs)" "set cs \<inter> set bs' = {}"
    using g unfolding dir_grows_def same_on_def by auto
qed

lemma volume_add:
  assumes v: "volume fs bs cf" and a: "entry_added h e fs bs p fs' bs'"
    and e: "is_valid_filename (cname e)" "named fs bs (cname e) = None" "de_size e = 0" "de_first_block e = 0"
    and sz: "geometry_ok fs'"
  shows "volume fs' bs' (cf(cname e := []))" "named fs' bs' = (named fs bs)(cname e \<mapsto> (p, e))"
    "files fs' bs' (cf(cname e := [])) = (files fs bs cf)(cname e \<mapsto> (de_perm e, []))"
proof -
  have g: "dir_grows fs bs fs' bs'" "dir_ok fs' bs'" using a by (auto simp: entry_added_def)
  have bs: "bs \<noteq> []" using volumeD(1) [OF v] by (simp add: dir_ok_def)
  show n: "named fs' bs' = (named fs bs)(cname e \<mapsto> (p, e))"
    using a e(1) by (auto simp: entry_added_def named_def fun_eq_iff)
  have other: "same_on fs fs' (set (cf k)) \<and> set (cf k) \<inter> set bs' = {}" if "named fs bs k = Some (q, y)" for k q y
    using volumeD(2) [OF v that] dir_grows_same [OF g(1) bs, of "cf k"] chain_used by blast
  have new: "file_ok fs' e []" "content fs' e [] = []"
    using e(3,4) geometry_bounds(1) [OF sz] by (simp_all add: file_ok_def file_chain_def in_region_def content_def)
  show "volume fs' bs' (cf(cname e := []))"
    unfolding volume_def
  proof (intro conjI allI impI)
    show "dir_ok fs' bs'" by (rule g(2))
  next
    fix k q y assume "named fs' bs' k = Some (q, y)"
    then show "file_ok fs' y ((cf(cname e := [])) k)" "set ((cf(cname e := [])) k) \<inter> set bs' = {}"
      using n new other [of k q y] volumeD(2) [OF v, of k q y] file_same(1) by (auto split: if_splits)
  next
    fix k l assume "k \<noteq> l \<and> named fs' bs' k \<noteq> None \<and> named fs' bs' l \<noteq> None"
    then show "set ((cf(cname e := [])) k) \<inter> set ((cf(cname e := [])) l) = {}"
      using n volumeD(3) [OF v, of k l] by (auto split: if_splits)
  qed
  show "files fs' bs' (cf(cname e := [])) = (files fs bs cf)(cname e \<mapsto> (de_perm e, []))"
  proof
    fix k
    show "files fs' bs' (cf(cname e := [])) k = ((files fs bs cf)(cname e \<mapsto> (de_perm e, []))) k"
      using n new other [of k] file_same(2) [of fs fs' "cf k"]
      by (cases "named fs bs k") (auto simp: files_def)
  qed
qed

section \<open>The descriptor table\<close>

text \<open>No descriptor is open on \<open>f\<close>; the names of the open files are terminated.\<close>

definition unopened :: "byte list \<Rightarrow> fatfs \<Rightarrow> bool" where
  "unopened f fs \<longleftrightarrow> (\<forall>i. 3 \<le> i \<and> i < GLOBAL_FD_TABLE_SIZE \<and> 0 < ref_count (global_fd_table fs i) \<longrightarrow>
     (\<exists>d. ptr_to_dir_entry (global_fd_table fs i) = Some d \<and> terminated d \<and> cname d \<noteq> f))"

definition free_fd :: "fatfs \<Rightarrow> nat \<Rightarrow> bool" where
  "free_fd fs i \<longleftrightarrow> 3 \<le> i \<and> i < GLOBAL_FD_TABLE_SIZE \<and> ref_count (global_fd_table fs i) = 0"

lemma find_fd_unopened:
  assumes "unopened f fs" "0 \<notin> set f" "3 \<le> i"
  shows "find_fd_from f fs i = Some None"
  using assms
proof (induction f fs i rule: find_fd_from.induct)
  case (1 f fs i)
  show ?case
  proof (cases "i < GLOBAL_FD_TABLE_SIZE \<and> 0 < ref_count (global_fd_table fs i)")
    case True
    then obtain d where d: "ptr_to_dir_entry (global_fd_table fs i) = Some d" "terminated d" "cname d \<noteq> f"
      using "1.prems"(1,3) by (auto simp: unopened_def)
    then have "strcmp_eq f (de_name d) = Some False"
      using strcmp_eq_terminated [of "de_name d" f] "1.prems"(2) by (auto simp: terminated_def cname_def)
    then show ?thesis using "1.IH"(2,3) "1.prems" True d by (subst find_fd_from.simps) auto
  next
    case False
    then show ?thesis using "1.IH"(1) "1.prems" by (subst find_fd_from.simps) auto
  qed
qed

lemma find_file_unopened:
  "unopened f fs \<Longrightarrow> is_valid_filename f \<Longrightarrow> find_file_in_global_fd_table f fs = Some None"
  by (simp add: find_file_in_global_fd_table_def find_fd_unopened valid_filename_nonzero)

lemma find_empty_fd_from_free:
  assumes "free_fd fs j" "i \<le> j" "3 \<le> i"
  shows "free_fd fs (find_empty_fd_from fs i)"
  using assms
proof (induction fs i rule: find_empty_fd_from.induct)
  case (1 fs i)
  show ?case
  proof (cases "ref_count (global_fd_table fs i) = 0")
    case True
    then show ?thesis using "1.prems" by (subst find_empty_fd_from.simps) (auto simp: free_fd_def)
  next
    case False
    then have "i \<noteq> j" using "1.prems"(1) by (auto simp: free_fd_def)
    then have "i < GLOBAL_FD_TABLE_SIZE" "Suc i \<le> j" using "1.prems" by (simp_all add: free_fd_def)
    then show ?thesis using "1.IH" [OF _ False] "1.prems" False by (subst find_empty_fd_from.simps) auto
  qed
qed

lemma find_empty_fd_free:
  assumes "free_fd fs j" shows "free_fd fs (find_empty_fd fs)" "find_empty_fd fs \<noteq> 0xFFFF"
  using find_empty_fd_from_free [OF assms, of 3] assms by (auto simp: find_empty_fd_def free_fd_def)

section \<open>Opening\<close>

definition opened :: "nat \<Rightarrow> directory_entry \<Rightarrow> nat \<times> nat \<Rightarrow> int \<Rightarrow> nat \<Rightarrow> fatfs \<Rightarrow> fatfs" where
  "opened fd e p mode off fs = fs\<lparr>global_fd_table := (global_fd_table fs)(fd :=
     \<lparr>ref_count = 1, ptr_to_dir_entry = Some e, dir_entry_block_num = fst p, dir_entry_idx = snd p,
      write_locked = u8_of_int mode, fd_offset = off\<rparr>)\<rparr>"

lemma opened_simps [simp]:
  "fat (opened fd e p mode off fs) = fat fs" "blocks (opened fd e p mode off fs) = blocks fs"
  "block_size (opened fd e p mode off fs) = block_size fs" "max_block (opened fd e p mode off fs) = max_block fs"
  "free_blocks (opened fd e p mode off fs) = free_blocks fs" "is_mounted (opened fd e p mode off fs) = is_mounted fs"
  "entries_per_block (opened fd e p mode off fs) = entries_per_block fs"
  "device_ok (h, opened fd e p mode off fs) = device_ok (h, fs)" "fd_slot (opened fd e p mode off fs) fd = p"
  "same_on fs (opened fd e p mode off fs) A"
  "global_fd_table (opened fd e p mode off fs) i = (if i = fd then
     \<lparr>ref_count = 1, ptr_to_dir_entry = Some e, dir_entry_block_num = fst p, dir_entry_idx = snd p,
      write_locked = u8_of_int mode, fd_offset = off\<rparr> else global_fd_table fs i)"
  by (simp_all add: opened_def free_blocks_def is_mounted_def entries_per_block_def fd_slot_def same_on_def)

text \<open>The part of \<open>k_open\<close> after the entry and its slot are known, unless the file is truncated.\<close>

lemma k_open_new:
  assumes m: "is_mounted fs" and f: "is_valid_filename f" "unopened f fs" and fd: "free_fd fs j" and h: "h_malloc h"
    and r: "find_or_create h f mode fs = Some (Inr (e, p), fs1)"
    and perm: "\<not> open_denied (de_perm e) mode" and notr: "mode \<noteq> F_WRITE \<or> de_size e = 0"
    and mode: "mode = F_READ \<or> mode = F_WRITE \<or> mode = F_APPEND"
  shows "k_open h f mode fs = Some (int (find_empty_fd fs),
    opened (find_empty_fd fs) e p mode (if mode = F_APPEND then de_size e else 0) fs1)"
proof -
  obtain b i where p: "p = (b, i)" by (cases p)
  have "open_new h f mode fs = Some (Inr (find_empty_fd fs), fd_upd (find_empty_fd fs) (\<lambda>_.
      \<lparr>ref_count = 0, ptr_to_dir_entry = Some e, dir_entry_block_num = b,
       dir_entry_idx = i, write_locked = u8_of_int mode, fd_offset = 0\<rparr>) fs1)"
    using r find_empty_fd_free [OF fd] h p by (simp add: open_new_def Let_def)
  then show ?thesis
    using m f find_file_unopened [OF f(2,1)] perm notr mode p
    by (auto simp: k_open_def open_slot_def opened_def fd_upd_def open_offset_def)
qed

lemma named_found:
  assumes dev: "device_ok (h, fs)" and v: "volume fs bs cf" and f: "is_valid_filename f"
  shows "\<exists>c\<in>set bs. find_file_in_root_dir h f fs = Some
    (case named fs bs f of None \<Rightarrow> (RFIND_FILE_IN_ROOT_DIR_FILE_NOT_FOUND, None)
     | Some ((b, i), e) \<Rightarrow> (RFIND_FILE_IN_ROOT_DIR_FILE_FOUND, Some (e, b, i)), fs\<lparr>block_buf := blocks fs c\<rparr>)"
proof -
  have "named fs bs f = dir_find f (dir_slots fs bs)" using f by (simp add: named_def)
  then show ?thesis
    using find_file_spec [OF dev volumeD(1) [OF v] valid_filename_nonzero [OF f]] found_valid [OF f, of "dir_slots fs bs"]
    by (cases "dir_find f (dir_slots fs bs)") (fastforce split: prod.splits)+
qed

lemma dir_block_buf:
  assumes "device_ok (h, fs)" "volume fs bs cf" "c \<in> set bs"
  shows "device_ok (h, fs\<lparr>block_buf := blocks fs c\<rparr>)"
  using assms device_ok_buf [OF assms(1), of c] volumeD(1) [OF assms(2)] by (auto simp: dir_ok_def in_region_def)

text \<open>An existing file, opened without truncation.\<close>

lemma k_open_existing:
  assumes dev: "device_ok (h, fs)" and v: "volume fs bs cf" and f: "named fs bs f = Some (p, e)" "unopened f fs"
    and fd: "free_fd fs j" and perm: "\<not> open_denied (de_perm e) mode" and notr: "mode \<noteq> F_WRITE \<or> de_size e = 0"
    and mode: "mode = F_READ \<or> mode = F_WRITE \<or> mode = F_APPEND"
  shows "\<exists>c\<in>set bs. k_open h f mode fs = Some (int (find_empty_fd fs),
    opened (find_empty_fd fs) e p mode (if mode = F_APPEND then de_size e else 0) (fs\<lparr>block_buf := blocks fs c\<rparr>))"
proof -
  have h: "h_malloc h" "is_mounted fs" using device_okD [OF dev] by (auto simp: host_ok_def geometry_ok_def)
  obtain c where c: "c \<in> set bs" "find_or_create h f mode fs = Some (Inr (e, p), fs\<lparr>block_buf := blocks fs c\<rparr>)"
    using named_found [OF dev v namedD(1) [OF f(1)]] f(1) by (cases p) (auto simp: find_or_create_def)
  from k_open_new [OF h(2) namedD(1) [OF f(1)] f(2) fd h(1) c(2) perm notr mode] c(1) show ?thesis by blast
qed

text \<open>A missing file: an error when it is opened for reading, a new entry otherwise.\<close>

lemma k_open_missing:
  assumes dev: "device_ok (h, fs)" and v: "volume fs bs cf" and f: "is_valid_filename f" "named fs bs f = None" "unopened f fs"
    and fd: "free_fd fs j"
  shows "\<exists>c\<in>set bs. k_open h f F_READ fs = Some (EK_OPEN_FILE_DOES_NOT_EXIST, fs\<lparr>block_buf := blocks fs c\<rparr>)"
proof -
  have h: "h_malloc h" "is_mounted fs" using device_okD [OF dev] by (auto simp: host_ok_def geometry_ok_def)
  obtain c where "c \<in> set bs" "find_or_create h f F_READ fs = Some (Inl EK_OPEN_FILE_DOES_NOT_EXIST, fs\<lparr>block_buf := blocks fs c\<rparr>)"
    using named_found [OF dev v f(1)] f(2) by (auto simp: find_or_create_def)
  then show ?thesis
    using h f(1) find_file_unopened [OF f(3,1)] find_empty_fd_free [OF fd]
    by (auto simp: k_open_def open_slot_def open_new_def Let_def)
qed

lemma new_entry:
  assumes "is_valid_filename f" "t < 2 ^ 64"
  shows "entry_ok (new_dir_entry f t)" "terminated (new_dir_entry f t)" "cname (new_dir_entry f t) = f"
    "slot_ok (new_dir_entry f t)"
proof -
  have l: "length f \<le> 31" "0 \<notin> set f" using assms(1) valid_filename_nonzero by (auto simp: valid_filename_iff)
  show c: "cname (new_dir_entry f t) = f"
    using l by (simp add: cname_def new_dir_entry_def takeWhile_append takeWhile_replicate)
  show "entry_ok (new_dir_entry f t)" using assms(2) l by (simp add: entry_ok_def new_dir_entry_def)
  show t: "terminated (new_dir_entry f t)" using l by (simp add: terminated_def new_dir_entry_def)
  show "slot_ok (new_dir_entry f t)" using t c assms(1) by (simp add: slot_ok_def)
qed

lemma entry_add:
  assumes dev: "device_ok (h, fs)" and ok: "dir_ok fs bs" and e: "entry_ok e" "slot_ok e" "is_valid_filename (cname e)"
    and fresh: "dir_find (cname e) (dir_slots fs bs) = None" and room: "free_blocks fs \<noteq> {}"
  shows "\<exists>p fs' bs'. entry_added h e fs bs p fs' bs'"
proof -
  have "\<exists>k. 1 \<le> k \<and> k \<le> max_block fs \<and> k < 65535 \<and> fat fs k = 0" using room by (auto simp: free_blocks_def)
  then obtain nb where nb: "first_empty_block fs = Some nb" "nb \<noteq> 0"
    using first_empty_block_exists device_okD(2) [OF dev] by blast
  obtain b i x where b: "find free_slot (dir_slots fs bs) = Some ((b, i), x)"
    "find_empty_spot_in_root_dir h fs = Some (spot ((b, i), x), fs\<lparr>block_buf := blocks fs b\<rparr>)"
    "free_slot ((b, i), x)" "1 \<le> b" "b \<le> max_block fs" "i < entries_per_block fs" "b \<in> set bs"
    using free_spot [OF dev ok] by metis
  show ?thesis
  proof (cases "((b, i), x) \<in> set (live (dir_slots fs bs))")
    case True
    from write_new_deleted [OF dev ok e fresh b(2-7) this] show ?thesis by blast
  next
    case False
    with first_free_live [OF ok b(1)] have x: "name0 x = 0" "b = last bs"
      "dir_slots fs bs = live (dir_slots fs bs) @ ((b, i), x) #
        slots_from b (blocks fs b) (Suc i) (entries_per_block fs - Suc i)" by auto
    from write_new_end [OF dev ok e fresh b(2,4-6) x(2,1,3) nb] show ?thesis by blast
  qed
qed

lemma k_open_create:
  assumes dev: "device_ok (h, fs)" and v: "volume fs bs cf" and f: "is_valid_filename f" "named fs bs f = None" "unopened f fs"
    and fd: "free_fd fs j" and room: "free_blocks fs \<noteq> {}" and mode: "mode = F_WRITE \<or> mode = F_APPEND"
  shows "\<exists>t c p fs1 bs1. h_time h = Some t \<and> c \<in> set bs \<and>
    entry_added h (new_dir_entry f t) (fs\<lparr>block_buf := blocks fs c\<rparr>) bs p fs1 bs1 \<and>
    k_open h f mode fs = Some (int (find_empty_fd fs), opened (find_empty_fd fs) (new_dir_entry f t) p mode 0 fs1)"
proof -
  have h: "h_malloc h" "is_mounted fs" "geometry_ok fs" using device_okD [OF dev] by (auto simp: host_ok_def geometry_ok_def)
  obtain t where t: "h_time h = Some t" "t < 2 ^ 64" using device_okD(1) [OF dev] by (auto simp: host_ok_def split: option.splits)
  note e = new_entry [OF f(1) t(2)]
  obtain c where c: "c \<in> set bs" "find_file_in_root_dir h f fs =
      Some ((RFIND_FILE_IN_ROOT_DIR_FILE_NOT_FOUND, None), fs\<lparr>block_buf := blocks fs c\<rparr>)"
    using named_found [OF dev v f(1)] f(2) by auto
  let ?fs = "fs\<lparr>block_buf := blocks fs c\<rparr>"
  have "dir_ok ?fs bs" "dir_find f (dir_slots ?fs bs) = None"
    using volumeD(1) [OF v] dir_same(2) [of fs ?fs bs] f(1,2) by (auto simp: named_def)
  then obtain p fs1 bs1 where a: "entry_added h (new_dir_entry f t) ?fs bs p fs1 bs1"
    using entry_add [OF dir_block_buf [OF dev v c(1)], of bs "new_dir_entry f t"] e f(1) room
    by (auto simp: free_blocks_def)
  then have "find_or_create h f mode fs = Some (Inr (new_dir_entry f t, p), fs1)"
    using c(2) t(1) mode by (cases p) (auto simp: find_or_create_def entry_added_def)
  moreover have "\<not> open_denied (de_perm (new_dir_entry f t)) mode" "de_size (new_dir_entry f t) = 0"
    by (simp_all add: new_dir_entry_def open_denied_def)
  ultimately have "k_open h f mode fs = Some (int (find_empty_fd fs), opened (find_empty_fd fs) (new_dir_entry f t) p mode 0 fs1)"
    using k_open_new [OF h(2) f(1,3) fd h(1), of mode "new_dir_entry f t" p fs1] mode by auto
  then show ?thesis using a c(1) t(1) by blast
qed

section \<open>Closing\<close>

definition closed :: "nat \<Rightarrow> fatfs \<Rightarrow> fatfs" where
  "closed fd fs = fd_upd fd (\<lambda>g. g\<lparr>ref_count := 0, ptr_to_dir_entry := None, write_locked := 0\<rparr>) fs"

lemma closed_same [simp]: "same_on fs (closed fd fs) A" "device_ok (h, closed fd fs) = device_ok (h, fs)"
  by (simp_all add: closed_def fd_upd_def same_on_def)

lemma k_close_last:
  assumes "is_mounted fs" "3 \<le> fd" "fd < GLOBAL_FD_TABLE_SIZE" "ref_count (global_fd_table fs fd) = 1"
    "ptr_to_dir_entry (global_fd_table fs fd) = Some e" "name0 e \<noteq> 2"
  shows "k_close h (int fd) fs = Some (0, closed fd fs)"
  using assms by (auto simp: k_close_def close_last_def Let_def fd_upd_def closed_def)

section \<open>Truncating\<close>

definition freed :: "nat list \<Rightarrow> fatfs \<Rightarrow> fatfs" where
  "freed cs fs = fs\<lparr>fat := (\<lambda>i. if i \<in> set cs then 0 else fat fs i)\<rparr>"

lemma freed_simps [simp]:
  "blocks (freed cs fs) = blocks fs" "block_size (freed cs fs) = block_size fs"
  "max_block (freed cs fs) = max_block fs" "entries_per_block (freed cs fs) = entries_per_block fs"
  "global_fd_table (freed cs fs) = global_fd_table fs" "device_ok (h, freed cs fs) = device_ok (h, fs)"
  "fat (freed cs fs) i = (if i \<in> set cs then 0 else fat fs i)"
  by (simp_all add: freed_def)

lemma clear_chain_file:
  assumes "geometry_ok fs" "file_ok fs e cs"
  shows "clear_chain (de_first_block e) fs = Some (freed cs fs)"
  using assms clear_fat_file_chain [of fs "de_first_block e" cs]
  by (auto simp: clear_chain_def freed_def file_ok_def file_chain_def split: if_splits)

lemma put_entry_table: "put_entry b i e (fs\<lparr>global_fd_table := t\<rparr>) = (put_entry b i e fs)\<lparr>global_fd_table := t\<rparr>"
  by (simp add: put_entry_def Let_def)

definition truncated :: "nat \<Rightarrow> directory_entry \<Rightarrow> directory_entry" where
  "truncated t e = e\<lparr>de_size := 0, de_mtime := t, de_first_block := 0\<rparr>"

lemma k_open_truncate:
  assumes dev: "device_ok (h, fs)" and v: "volume fs bs cf" and f: "named fs bs f = Some (p, e)" "unopened f fs"
    and fd: "free_fd fs j" and perm: "\<not> open_denied (de_perm e) F_WRITE" and sz: "0 < de_size e"
  shows "\<exists>t c. t < 2 ^ 64 \<and> c \<in> set bs \<and> k_open h f F_WRITE fs = Some (int (find_empty_fd fs),
    opened (find_empty_fd fs) (truncated t e) p F_WRITE 0
      (put_entry (fst p) (snd p) (truncated t e) (freed (cf f) (fs\<lparr>block_buf := blocks fs c\<rparr>))))"
proof -
  obtain b i where p: "p = (b, i)" by (cases p)
  have h: "h_malloc h" "is_mounted fs" using device_okD [OF dev] by (auto simp: host_ok_def geometry_ok_def)
  obtain t where t: "h_time h = Some t" "t < 2 ^ 64" using device_okD(1) [OF dev] by (auto simp: host_ok_def split: option.splits)
  obtain c where c: "c \<in> set bs" "find_or_create h f F_WRITE fs = Some (Inr (e, p), fs\<lparr>block_buf := blocks fs c\<rparr>)"
    using named_found [OF dev v namedD(1) [OF f(1)]] f(1) by (cases p) (auto simp: find_or_create_def)
  let ?fd = "find_empty_fd fs" and ?fs = "fs\<lparr>block_buf := blocks fs c\<rparr>"
  let ?fs1 = "opened ?fd e p F_WRITE 0 ?fs"
  have "open_new h f F_WRITE fs = Some (Inr ?fd, fd_upd ?fd (\<lambda>_.
      \<lparr>ref_count = 0, ptr_to_dir_entry = Some e, dir_entry_block_num = b,
       dir_entry_idx = i, write_locked = u8_of_int F_WRITE, fd_offset = 0\<rparr>) ?fs)"
    using c find_empty_fd_free [OF fd] h p by (simp add: open_new_def Let_def)
  then have k: "k_open h f F_WRITE fs = do {
      (code, fs2) \<leftarrow> open_truncate h ?fd e ?fs1;
      if code \<noteq> 0 then Some (code, fs2)
      else do {
        e \<leftarrow> ptr_to_dir_entry (global_fd_table fs2 ?fd);
        Some (int ?fd, fd_upd ?fd (\<lambda>g. g\<lparr>write_locked := u8_of_int F_WRITE, fd_offset := open_offset F_WRITE g e\<rparr>) fs2)
      } }"
    using h namedD(1) [OF f(1)] find_file_unopened [OF f(2) namedD(1) [OF f(1)]] perm sz p
    by (simp add: k_open_def open_slot_def opened_def fd_upd_def)
  have g: "device_ok (h, ?fs1)" using dir_block_buf [OF dev v c(1)] by simp
  have fo: "file_ok ?fs1 e (cf f)" using volumeD(2) [OF v f(1)] file_same(1) [of fs ?fs1 "cf f" e] by (simp add: opened_def same_on_def)
  let ?e = "truncated t e"
  have clr: "(if de_first_block e \<noteq> 0 then clear_fat_file (de_first_block e) ?fs1 else Some ?fs1) = Some (freed (cf f) ?fs1)"
    using clear_chain_file [OF device_okD(2) [OF g] fo] by (simp add: clear_chain_def)
  let ?fs2 = "opened ?fd ?e p F_WRITE 0 (freed (cf f) ?fs)"
  have eq: "fd_upd ?fd (\<lambda>g. g\<lparr>ptr_to_dir_entry := Some ?e\<rparr>) (freed (cf f) ?fs1) = ?fs2"
    by (simp add: fd_upd_def opened_def freed_def cong: if_cong)
  have "entry_ok ?e" using named_entry_ok(1) [OF dev v f(1)] t(2) by (simp add: entry_ok_def truncated_def)
  then have "write_root_dir_entry h ?e b i ?fs2 = Some (0, put_entry b i ?e ?fs2)"
    using named_slot [OF v f(1)] dir_block_buf [OF dev v c(1)] p
    by (intro write_root_dir_entry_ok) auto
  moreover have "put_entry b i ?e ?fs2 = opened ?fd ?e p F_WRITE 0 (put_entry b i ?e (freed (cf f) ?fs))"
    by (simp add: opened_def put_entry_table)
  ultimately have tr: "open_truncate h ?fd e ?fs1 = Some (0, opened ?fd ?e p F_WRITE 0 (put_entry b i ?e (freed (cf f) ?fs)))"
    unfolding open_truncate_def truncated_def [symmetric] t(1) option.case clr Let_def using eq p by simp
  have "fd_upd ?fd (\<lambda>g. g\<lparr>write_locked := u8_of_int F_WRITE, fd_offset := open_offset F_WRITE g e'\<rparr>)
      (opened ?fd ?e p F_WRITE 0 fs') = opened ?fd ?e p F_WRITE 0 fs'" for fs' e'
    by (simp add: fd_upd_def opened_def open_offset_def)
  moreover have "ptr_to_dir_entry (global_fd_table (opened ?fd ?e p F_WRITE 0 fs') ?fd) = Some ?e" for fs'
    by (simp add: opened_def)
  ultimately have "k_open h f F_WRITE fs = Some (int ?fd, opened ?fd ?e p F_WRITE 0 (put_entry b i ?e (freed (cf f) ?fs)))"
    unfolding k tr by simp
  then show ?thesis using t(2) c(1) p by auto
qed

end
