(* ===== verification/Fat_Session.thy ===== *)
theory Fat_Session
  imports Fat_Volume
begin

text \<open>
  Sessions on a volume: open a file, read or write it, close it. \<open>on_file\<close> is the state in between:
  the volume holds the files \<open>F\<close>, and one descriptor is open on the file \<open>f\<close> with the entry that is
  also in the directory. Each call is described by its effect on \<open>F\<close>; the calls of the kernel
  that take a name follow: \<open>k_unlink\<close>, \<open>k_mv\<close>, \<open>k_chmod\<close>.
\<close>

section \<open>A descriptor on a file of the volume\<close>

text \<open>\<open>cap\<close> bounds the size the file can reach: its own blocks and the free ones.\<close>

definition on_file :: "host \<Rightarrow> fatfs \<Rightarrow> (byte list \<rightharpoonup> nat \<times> byte list) \<Rightarrow> nat \<Rightarrow> byte list \<Rightarrow> nat \<Rightarrow> bool" where
  "on_file h fs F fd f cap \<longleftrightarrow> device_ok (h, fs) \<and> 3 \<le> fd \<and> fd < GLOBAL_FD_TABLE_SIZE \<and>
     ref_count (global_fd_table fs fd) = 1 \<and>
     (\<exists>bs cf e. volume fs bs cf \<and> files fs bs cf = F \<and> named fs bs f = Some (fd_slot fs fd, e) \<and>
        ptr_to_dir_entry (global_fd_table fs fd) = Some e \<and>
        cap \<le> (length (cf f) + card (free_blocks fs)) * block_size fs)"

text \<open>What a step on the file \<open>f\<close> leaves alone: the entries of other names and other descriptors.\<close>

definition keeps :: "byte list \<Rightarrow> fatfs \<Rightarrow> fatfs \<Rightarrow> bool" where
  "keeps f fs fs' \<longleftrightarrow> (\<forall>bs. dir_ok fs bs \<longrightarrow>
     (\<exists>bs'. dir_ok fs' bs' \<and> (\<forall>g. g \<noteq> f \<longrightarrow> named fs' bs' g = named fs bs g)))"

definition others :: "nat \<Rightarrow> byte list \<Rightarrow> fatfs \<Rightarrow> fatfs \<Rightarrow> bool" where
  "others fd f fs fs' \<longleftrightarrow> keeps f fs fs' \<and> (\<forall>i. i \<noteq> fd \<longrightarrow> global_fd_table fs' i = global_fd_table fs i)"

lemma dir_chain_unique: "dir_ok fs bs \<Longrightarrow> dir_ok fs bs' \<Longrightarrow> bs = bs'"
  unfolding dir_ok_def using is_chain_unique by blast

lemma keepsI: "dir_ok fs bs \<Longrightarrow> dir_ok fs' bs' \<Longrightarrow> (\<And>g. g \<noteq> f \<Longrightarrow> named fs' bs' g = named fs bs g) \<Longrightarrow> keeps f fs fs'"
  unfolding keeps_def using dir_chain_unique by blast

lemma keeps_same:
  assumes "same_on fs fs' UNIV" shows "keeps f fs fs'"
proof -
  have "same_on fs fs' A" for A using assms by (auto simp: same_on_def)
  then show ?thesis unfolding keeps_def using dir_same(2,3) by metis
qed

lemma keeps_trans: "keeps f a b \<Longrightarrow> keeps f b c \<Longrightarrow> keeps f a c"
  unfolding keeps_def by metis

lemma keeps_refl [simp]: "keeps f fs fs"
  by (rule keeps_same) (simp add: same_on_def)

lemma length_content:
  assumes "device_ok (h, fs)" "file_ok fs e cs"
  shows "length (content fs e cs) = de_size e"
proof -
  have "in_region fs cs" using assms(2) by (simp add: file_ok_def)
  then show ?thesis
    using length_file_bytes [of fs cs] file_ok_size [of fs e cs] device_okD(2,3) [OF assms(1)] assms(2)
    by (simp add: content_def)
qed

lemma filesD:
  assumes "files fs bs cf f = Some (perm, d)"
  shows "\<exists>p e. named fs bs f = Some (p, e) \<and> de_perm e = perm \<and> content fs e (cf f) = d"
  using assms by (auto simp: files_def)

lemma files_None: "files fs bs cf f = None \<longleftrightarrow> named fs bs f = None"
  by (simp add: files_def)

section \<open>Opening\<close>

lemma open_keep:
  assumes H: "holds h fs F" and f: "F f = Some (perm, d)" "\<not> open_denied perm mode" "unopened f fs" and fd: "free_fd fs j"
    and mode: "mode = F_READ \<or> mode = F_APPEND"
  shows "\<exists>fs'. k_open h f mode fs = Some (int (find_empty_fd fs), fs') \<and> on_file h fs' F (find_empty_fd fs) f 0 \<and>
    others (find_empty_fd fs) f fs fs' \<and> (mode = F_READ \<longrightarrow> fd_offset (global_fd_table fs' (find_empty_fd fs)) = 0) \<and>
    (mode = F_APPEND \<longrightarrow> write_locked (global_fd_table fs' (find_empty_fd fs)) = 2) \<and> same_on fs fs' UNIV \<and>
    console fs' = console fs"
proof -
  obtain bs cf where v: "device_ok (h, fs)" "volume fs bs cf" "files fs bs cf = F" using H by (auto simp: holds_def)
  obtain p e where e: "named fs bs f = Some (p, e)" "de_perm e = perm" using filesD [of fs bs cf f] f(1) v(3) by auto
  let ?off = "if mode = F_APPEND then de_size e else 0"
  obtain c where c: "c \<in> set bs" "k_open h f mode fs = Some (int (find_empty_fd fs),
      opened (find_empty_fd fs) e p mode ?off (fs\<lparr>block_buf := blocks fs c\<rparr>))"
    using k_open_existing [OF v(1,2) e(1) f(3) fd, of mode] f(2) e(2) mode by auto
  let ?fs = "opened (find_empty_fd fs) e p mode ?off (fs\<lparr>block_buf := blocks fs c\<rparr>)"
  have s: "same_on fs ?fs A" for A by (simp add: opened_def same_on_def)
  have "on_file h ?fs F (find_empty_fd fs) f 0"
    unfolding on_file_def
    using dir_block_buf [OF v(1,2) c(1)] v(2,3) e(1) find_empty_fd_free(1) [OF fd] volume_same [OF s] dir_same(3) [OF s]
    by (auto simp: free_fd_def intro!: exI [of _ bs] exI [of _ cf])
  then show ?thesis using c(2) s keeps_same [OF s] by (auto simp: others_def u8_of_int_def opened_def)
qed

lemmas open_read = open_keep [where mode = F_READ, simplified]

lemma open_missing:
  assumes H: "holds h fs F" and f: "is_valid_filename f" "F f = None" "unopened f fs" and fd: "free_fd fs j"
  shows "\<exists>fs'. k_open h f F_READ fs = Some (EK_OPEN_FILE_DOES_NOT_EXIST, fs') \<and> holds h fs' F \<and>
    global_fd_table fs' = global_fd_table fs"
proof -
  obtain bs cf where v: "device_ok (h, fs)" "volume fs bs cf" "files fs bs cf = F" using H by (auto simp: holds_def)
  have "named fs bs f = None" using f(2) v(3) files_None by metis
  then obtain c where c: "c \<in> set bs" "k_open h f F_READ fs = Some (EK_OPEN_FILE_DOES_NOT_EXIST, fs\<lparr>block_buf := blocks fs c\<rparr>)"
    using k_open_missing [OF v(1,2) f(1) _ f(3) fd] by blast
  then show ?thesis using holds_same [OF H _ dir_block_buf [OF v(1,2) c(1)]] by auto
qed

text \<open>The permission of a file opened for writing: a new file is readable and writable.\<close>

definition perm_of :: "(byte list \<rightharpoonup> nat \<times> byte list) \<Rightarrow> byte list \<Rightarrow> nat" where
  "perm_of F f = (case F f of None \<Rightarrow> P_READ_WRITE_FILE_PERMISSION | Some (perm, _) \<Rightarrow> perm)"

lemma on_file_opened:
  assumes "device_ok (h, fs)" "free_fd fs0 fd" "volume fs bs cf" "named fs bs f = Some (p, e)"
    "cap \<le> (length (cf f) + card (free_blocks fs)) * block_size fs"
  shows "on_file h (opened fd e p mode off fs) (files fs bs cf) fd f cap"
proof -
  have s: "same_on fs (opened fd e p mode off fs) A" for A by simp
  show ?thesis
    unfolding on_file_def using assms volume_same [OF s] dir_same(3) [OF s]
    by (auto simp: free_fd_def intro!: exI [of _ bs] exI [of _ cf])
qed

lemma dir_grows_free:
  assumes "dir_grows fs bs fs' bs'" "fat fs (last bs) \<noteq> 0"
  shows "card (free_blocks fs) - 1 \<le> card (free_blocks fs')"
proof -
  have "free_blocks fs - {last bs'} \<subseteq> free_blocks fs'"
    using assms by (auto simp: dir_grows_def free_blocks_def)
  then have "card (free_blocks fs - {last bs'}) \<le> card (free_blocks fs')" by (intro card_mono) auto
  then show ?thesis by (cases "last bs' \<in> free_blocks fs") (auto simp: card_Diff_singleton)
qed

lemma open_create:
  assumes H: "holds h fs F" and f: "is_valid_filename f" "F f = None" "unopened f fs" and fd: "free_fd fs j"
    and room: "free_blocks fs \<noteq> {}" and mode: "mode = F_WRITE \<or> mode = F_APPEND"
  shows "\<exists>fs'. k_open h f mode fs = Some (int (find_empty_fd fs), fs') \<and>
    on_file h fs' (F(f \<mapsto> (P_READ_WRITE_FILE_PERMISSION, []))) (find_empty_fd fs) f ((card (free_blocks fs) - 1) * block_size fs) \<and>
    others (find_empty_fd fs) f fs fs' \<and> fd_offset (global_fd_table fs' (find_empty_fd fs)) = 0 \<and>
    write_locked (global_fd_table fs' (find_empty_fd fs)) \<le> 2"
proof -
  obtain bs cf where v: "device_ok (h, fs)" "volume fs bs cf" "files fs bs cf = F" using H by (auto simp: holds_def)
  have nf: "named fs bs f = None" using f(2) v(3) files_None by metis
  obtain t c p fs1 bs1 where k: "h_time h = Some t" "c \<in> set bs"
    "entry_added h (new_dir_entry f t) (fs\<lparr>block_buf := blocks fs c\<rparr>) bs p fs1 bs1"
    "k_open h f mode fs = Some (int (find_empty_fd fs), opened (find_empty_fd fs) (new_dir_entry f t) p mode 0 fs1)"
    using k_open_create [OF v(1,2) f(1) nf f(3) fd room mode] by blast
  let ?fs = "fs\<lparr>block_buf := blocks fs c\<rparr>" and ?e = "new_dir_entry f t"
  have t: "t < 2 ^ 64" using device_okD(1) [OF v(1)] k(1) by (simp add: host_ok_def)
  have e: "cname ?e = f" "de_size ?e = 0" "de_first_block ?e = 0" "de_perm ?e = P_READ_WRITE_FILE_PERMISSION"
    using new_entry(3) [OF f(1) t] by (simp_all add: new_dir_entry_def)
  have d1: "device_ok (h, fs1)" "dir_grows ?fs bs fs1 bs1" using k(3) by (auto simp: entry_added_def)
  have s: "same_on fs ?fs A" for A by simp
  have v0: "volume ?fs bs cf" "named ?fs bs f = None" "files ?fs bs cf = F"
    using v(2,3) nf volume_same [OF s] dir_same(3) [OF s] by auto
  have a: "volume fs1 bs1 (cf(f := []))" "named fs1 bs1 f = Some (p, ?e)"
    "files fs1 bs1 (cf(f := [])) = F(f \<mapsto> (P_READ_WRITE_FILE_PERMISSION, []))"
    "named fs1 bs1 = (named ?fs bs)(f \<mapsto> (p, ?e))"
    using volume_add [OF v0(1) k(3), unfolded e, OF f(1) v0(2) refl refl device_okD(2) [OF d1(1)]] v0(3) by simp_all
  have "fat fs (last bs) \<noteq> 0"
    using volumeD(1) [OF v(2)] by (intro chain_nonzero [of "fat fs" 1 bs]) (auto simp: dir_ok_def in_region_def)
  then have "card (free_blocks fs) - 1 \<le> card (free_blocks fs1)"
    using dir_grows_free [OF d1(2)] by (simp add: free_blocks_def)
  moreover have "block_size fs1 = block_size fs" using d1(2) by (simp add: dir_grows_def)
  ultimately have "(card (free_blocks fs) - 1) * block_size fs \<le> (length ((cf(f := [])) f) + card (free_blocks fs1)) * block_size fs1"
    by simp
  note on = on_file_opened [OF d1(1) find_empty_fd_free(1) [OF fd] a(1,2) this, of mode 0, unfolded a(3)]
  have "global_fd_table fs1 = global_fd_table fs" using d1(2) by (simp add: dir_grows_def)
  moreover have "keeps f fs (opened (find_empty_fd fs) ?e p mode 0 fs1)"
    using keepsI [OF volumeD(1) [OF v(2)] volumeD(1) [OF a(1)]] a(4) dir_same(3) [OF s]
      keeps_trans [OF _ keeps_same [of fs1]] by simp
  ultimately show ?thesis
    using on mode by (intro exI [of _ "opened (find_empty_fd fs) ?e p mode 0 fs1"]) (auto simp: k(4) others_def u8_of_int_def)
qed

lemma put_entry_same: "b \<in> set bs \<Longrightarrow> set cs \<inter> set bs = {} \<Longrightarrow> same_on fs (put_entry b i e fs) (set cs)"
  by (auto simp: same_on_def put_entry_def Let_def)

lemma put_entry_cong:
  assumes "blocks fs' b = blocks fs b" "same_on fs fs' A"
  shows "same_on (put_entry b i e fs) (put_entry b i e fs') A"
  using assms by (auto simp: same_on_def put_entry_def Let_def)

lemma same_on_trans: "same_on a b A \<Longrightarrow> same_on b c A \<Longrightarrow> same_on a c A"
  by (auto simp: same_on_def)

text \<open>Overwriting the entry of \<open>f\<close> and freeing its blocks.\<close>

lemma volume_rewrite:
  fixes buf
  assumes dev: "device_ok (h, fs)" and v: "volume fs bs cf" and x: "named fs bs f = Some (p, x)"
    and e: "entry_ok e" "slot_ok e" "name0 e \<noteq> 0" "cname e = f \<or> \<not> is_valid_filename (cname e)"
    and sz: "is_valid_filename (cname e) \<Longrightarrow> de_size e = 0 \<and> de_first_block e = 0"
  defines "fs' \<equiv> put_entry (fst p) (snd p) e (freed (cf f) (fs\<lparr>block_buf := buf\<rparr>))"
  shows "volume fs' bs (cf(cname e := []))" "length buf = block_size fs \<Longrightarrow> device_ok (h, fs')"
    "files fs' bs (cf(cname e := [])) = (files fs bs cf)(f := (if is_valid_filename (cname e) then Some (de_perm e, []) else None))"
proof -
  let ?fs = "freed (cf f) (fs\<lparr>block_buf := buf\<rparr>)"
  note p = named_slot [OF v x]
  have d: "same_on fs ?fs (set bs)" using volumeD(2) [OF v x] by (auto simp: same_on_def)
  have dir: "same_on (put_entry (fst p) (snd p) e fs) fs' (set bs)"
    unfolding fs'_def by (rule put_entry_cong [OF _ d]) simp
  have oth: "same_on fs fs' (set (cf g))" if g: "g \<noteq> f" "named fs bs g \<noteq> None" for g
  proof -
    obtain q y where y: "named fs bs g = Some (q, y)" using g(2) by auto
    have "same_on fs ?fs (set (cf g))" using volumeD(3) [OF v g(1,2)] x by (auto simp: same_on_def)
    then show ?thesis
      unfolding fs'_def using put_entry_same [OF p(4), of "cf g"] volumeD(2) [OF v y] by (blast intro: same_on_trans)
  qed
  have m: "block_size fs' = block_size fs" "max_block fs' = max_block fs"
    by (simp_all add: fs'_def put_entry_def Let_def)
  have fl: "is_valid_filename (cname e) \<Longrightarrow> file_ok fs' e [] \<and> set [] \<inter> set bs = {}"
    using sz m geometry_bounds(1) [OF device_okD(2) [OF dev]] by (simp add: file_ok_def file_chain_def in_region_def)
  have fresh: "cname e = f \<or> named fs bs (cname e) = None" using e(4) by (auto simp: named_def)
  note r = volume_replace [OF dev v x e(1,2,3) fresh dir oth fl]
  show "volume fs' bs (cf(cname e := []))" by (rule r(1)) auto
  have "files fs bs cf (cname e) = None" if "\<not> is_valid_filename (cname e)" using that by (simp add: files_def named_def)
  then show "files fs' bs (cf(cname e := [])) = (files fs bs cf)(f := (if is_valid_filename (cname e) then Some (de_perm e, []) else None))"
    using r(2) e(4) sz by (auto simp: content_def fun_eq_iff)
  show "length buf = block_size fs \<Longrightarrow> device_ok (h, fs')"
    unfolding fs'_def using dev p e(1) by (intro put_entry_device) auto
qed

lemma truncated_entry:
  assumes "t < 2 ^ 64" "entry_ok e" "slot_ok e"
  shows "entry_ok (truncated t e)" "slot_ok (truncated t e)" "de_name (truncated t e) = de_name e"
    "cname (truncated t e) = cname e" "de_perm (truncated t e) = de_perm e"
    "de_size (truncated t e) = 0" "de_first_block (truncated t e) = 0"
  using assms by (simp_all add: truncated_def entry_ok_def slot_ok_def terminated_def cname_def)

lemma open_existing_write:
  assumes H: "holds h fs F" and f: "F f = Some (perm, d)" "\<not> open_denied perm F_WRITE" "unopened f fs" and fd: "free_fd fs j"
  shows "\<exists>fs'. k_open h f F_WRITE fs = Some (int (find_empty_fd fs), fs') \<and>
    on_file h fs' (F(f \<mapsto> (perm, []))) (find_empty_fd fs) f (card (free_blocks fs) * block_size fs) \<and>
    others (find_empty_fd fs) f fs fs' \<and> fd_offset (global_fd_table fs' (find_empty_fd fs)) = 0 \<and>
    write_locked (global_fd_table fs' (find_empty_fd fs)) \<le> 2"
proof -
  obtain bs cf where v: "device_ok (h, fs)" "volume fs bs cf" "files fs bs cf = F" using H by (auto simp: holds_def)
  obtain p e where e: "named fs bs f = Some (p, e)" "de_perm e = perm" "content fs e (cf f) = d"
    using filesD [of fs bs cf f] f(1) v(3) by auto
  let ?fd = "find_empty_fd fs"
  show ?thesis
  proof (cases "de_size e = 0")
    case True
    then have d: "d = []" using e(3) by (auto simp: content_def)
    obtain c where c: "c \<in> set bs" "k_open h f F_WRITE fs = Some (int ?fd, opened ?fd e p F_WRITE 0 (fs\<lparr>block_buf := blocks fs c\<rparr>))"
      using k_open_existing [OF v(1,2) e(1) f(3) fd, of F_WRITE] f(2) e(2) True by auto
    let ?fs = "fs\<lparr>block_buf := blocks fs c\<rparr>"
    have s: "same_on fs ?fs A" for A by simp
    have "on_file h (opened ?fd e p F_WRITE 0 ?fs) (files ?fs bs cf) ?fd f (card (free_blocks fs) * block_size fs)"
      using dir_block_buf [OF v(1,2) c(1)] find_empty_fd_free(1) [OF fd] v(2) e(1) volume_same [OF s] dir_same(3) [OF s]
      by (intro on_file_opened) (auto simp: free_blocks_def)
    moreover have "F(f \<mapsto> (perm, [])) = F" using f(1) d by (simp add: fun_upd_idem)
    moreover have "keeps f fs (opened ?fd e p F_WRITE 0 ?fs)"
      by (rule keeps_same) (simp add: opened_def same_on_def)
    ultimately show ?thesis using c(2) v(3) volume_same(2) [OF s] by (auto simp: others_def u8_of_int_def)
  next
    case False
    then obtain t c where k: "t < 2 ^ 64" "c \<in> set bs" "k_open h f F_WRITE fs = Some (int ?fd,
        opened ?fd (truncated t e) p F_WRITE 0
          (put_entry (fst p) (snd p) (truncated t e) (freed (cf f) (fs\<lparr>block_buf := blocks fs c\<rparr>))))"
      using k_open_truncate [OF v(1,2) e(1) f(3) fd] f(2) e(2) by auto
    note ok = named_entry_ok [OF v(1,2) e(1)]
    note t = truncated_entry [OF k(1) ok(1,2)]
    let ?fs = "put_entry (fst p) (snd p) (truncated t e) (freed (cf f) (fs\<lparr>block_buf := blocks fs c\<rparr>))"
    have cn: "cname (truncated t e) = f" "name0 (truncated t e) \<noteq> 0" using t(3,4) namedD(2) [OF e(1)] ok(3) by auto
    note w = volume_rewrite [OF v(1,2) e(1) t(1,2) cn(2), unfolded cn(1) t, of "blocks fs c"]
    have d: "volume ?fs bs (cf(f := []))" "device_ok (h, ?fs)" "files ?fs bs (cf(f := [])) = F(f \<mapsto> (perm, []))"
      using w v(3) e(2) namedD(1) [OF e(1)] device_okD(2) [OF dir_block_buf [OF v(1,2) k(2)]]
      by (simp_all add: geometry_ok_def)
    have s: "same_on (put_entry (fst p) (snd p) (truncated t e) fs) ?fs (set bs)"
      using volumeD(2) [OF v(2) e(1)] by (intro put_entry_cong) (auto simp: same_on_def)
    have n: "named ?fs bs f = Some (p, truncated t e)"
      using named_replace(2) [OF v(1,2) e(1) t(1,2) cn(2) _ s] cn(1) namedD(1) [OF e(1)] by simp
    have "card (free_blocks fs) \<le> card (free_blocks ?fs)"
      by (intro card_mono) (auto simp: free_blocks_def put_entry_def Let_def)
    then have "card (free_blocks fs) * block_size fs \<le> (length ((cf(f := [])) f) + card (free_blocks ?fs)) * block_size ?fs"
      by (simp add: put_entry_def Let_def)
    note on = on_file_opened [OF d(2) find_empty_fd_free(1) [OF fd] d(1) n this, of F_WRITE 0, unfolded d(3)]
    moreover have "keeps f fs (opened ?fd (truncated t e) p F_WRITE 0 ?fs)"
      using keepsI [OF volumeD(1) [OF v(2)] volumeD(1) [OF d(1)]]
        named_replace(2) [OF v(1,2) e(1) t(1,2) cn(2) _ s] cn(1) keeps_trans [OF _ keeps_same [of ?fs]] by simp
    ultimately show ?thesis
      by (intro exI [of _ "opened ?fd (truncated t e) p F_WRITE 0 ?fs"]) (simp add: k(3) others_def u8_of_int_def)
  qed
qed

lemma on_file_less: "on_file h fs F fd f cap \<Longrightarrow> n \<le> cap \<Longrightarrow> on_file h fs F fd f n"
  unfolding on_file_def using le_trans by blast

lemma open_write:
  assumes H: "holds h fs F" and f: "is_valid_filename f" "\<not> open_denied (perm_of F f) F_WRITE" "unopened f fs"
    and fd: "free_fd fs j" and room: "free_blocks fs \<noteq> {}"
  shows "\<exists>fs'. k_open h f F_WRITE fs = Some (int (find_empty_fd fs), fs') \<and>
    on_file h fs' (F(f \<mapsto> (perm_of F f, []))) (find_empty_fd fs) f ((card (free_blocks fs) - 1) * block_size fs) \<and>
    others (find_empty_fd fs) f fs fs' \<and> fd_offset (global_fd_table fs' (find_empty_fd fs)) = 0 \<and>
    write_locked (global_fd_table fs' (find_empty_fd fs)) \<le> 2"
proof (cases "F f")
  case None
  then show ?thesis using open_create [OF H f(1) None f(3) fd room, of F_WRITE] by (simp add: perm_of_def)
next
  case (Some a)
  obtain perm d where a: "a = (perm, d)" by (cases a)
  have "(card (free_blocks fs) - 1) * block_size fs \<le> card (free_blocks fs) * block_size fs" by simp
  with open_existing_write [OF H _ _ f(3) fd, of perm d] Some a f(2) show ?thesis
    using on_file_less by (fastforce simp: perm_of_def)
qed

section \<open>Reading, writing, closing\<close>

lemma read_on:
  assumes on: "on_file h fs F fd f cap" and f: "F f = Some (perm, d)" and perm: "P_READ_ONLY_FILE_PERMISSION \<le> perm"
  shows "\<exists>buf. length buf = block_size fs \<and> k_read h (int fd) (int n) fs =
    Some ((int (length (take n (drop (fd_offset (global_fd_table fs fd)) d))), take n (drop (fd_offset (global_fd_table fs fd)) d)),
      after_read fd (fd_offset (global_fd_table fs fd) + length (take n (drop (fd_offset (global_fd_table fs fd)) d))) buf fs)"
proof -
  obtain bs cf e where v: "device_ok (h, fs)" "3 \<le> fd" "fd < GLOBAL_FD_TABLE_SIZE" "ref_count (global_fd_table fs fd) = 1"
    "volume fs bs cf" "files fs bs cf = F" "named fs bs f = Some (fd_slot fs fd, e)"
    "ptr_to_dir_entry (global_fd_table fs fd) = Some e"
    using on unfolding on_file_def by blast
  have "de_perm e = perm" "content fs e (cf f) = d" using filesD [of fs bs cf f] f v(6,7) by auto
  then show ?thesis
    using k_read_spec [OF v(1,2,3) _ v(8), of "cf f" n] v(4) perm volumeD(2) [OF v(5,7)] by (simp add: after_read_def)
qed

lemma on_file_same:
  assumes on: "on_file h fs F fd f cap" and s: "same_on fs fs' UNIV" and dev: "device_ok (h, fs')"
    and t: "ref_count (global_fd_table fs' fd) = 1" "ptr_to_dir_entry (global_fd_table fs' fd) = ptr_to_dir_entry (global_fd_table fs fd)"
      "fd_slot fs' fd = fd_slot fs fd"
  shows "on_file h fs' F fd f cap"
proof -
  have "same_on fs fs' A" for A using s by (auto simp: same_on_def)
  moreover have "free_blocks fs' = free_blocks fs" "block_size fs' = block_size fs"
    using s by (auto simp: same_on_def free_blocks_def)
  ultimately show ?thesis
    using on t dev volume_same [OF s] dir_same(3) unfolding on_file_def by metis
qed

lemma on_file_after_read:
  assumes on: "on_file h fs F fd f cap" and l: "length buf = block_size fs"
  shows "on_file h (after_read fd off buf fs) F fd f cap"
proof -
  have "same_on fs (after_read fd off buf fs) UNIV" by (simp add: same_on_def)
  moreover have "device_ok (h, fs)" "ref_count (global_fd_table fs fd) = 1" using on by (auto simp: on_file_def)
  ultimately show ?thesis using on_file_same [OF on] after_read_device [OF _ l] by simp
qed

text \<open>The permissions with which \<open>k_write\<close> writes.\<close>

definition write_perm :: "nat \<Rightarrow> bool" where
  "write_perm perm \<longleftrightarrow> perm = P_WRITE_ONLY_FILE_PERMISSION \<or> P_READ_WRITE_AND_EXECUTABLE_FILE_PERMISSION \<le> perm"

definition at_end :: "nat \<Rightarrow> fatfs \<Rightarrow> nat \<Rightarrow> bool" where
  "at_end fd fs n \<longleftrightarrow> write_locked (global_fd_table fs fd) = 2 \<or> fd_offset (global_fd_table fs fd) = n"

lemma appended_volume:
  assumes dev: "device_ok (h, fs)" "device_ok (h, fs')" and v: "volume fs bs cf" and x: "named fs bs f = Some (fd_slot fs fd, e)"
    and a: "appended fs fd e (cf f) str fs' e' cs'"
  shows "volume fs' bs (cf(f := cs'))" "named fs' bs f = Some (fd_slot fs fd, e')"
    "files fs' bs (cf(f := cs')) = (files fs bs cf)(f \<mapsto> (de_perm e, content fs e (cf f) @ str))"
    "keeps f fs fs'"
proof -
  obtain ns where ns: "cs' = cf f @ ns" "set ns \<subseteq> free_blocks fs" using a by (auto simp: appended_def)
  obtain b i where p: "fd_slot fs fd = (b, i)" by (cases "fd_slot fs fd")
  have a': "file_ok fs' e' cs'" "content fs' e' cs' = content fs e (cf f) @ str" "de_name e' = de_name e" "de_perm e' = de_perm e"
    "entry_ok e'" "block_size fs' = block_size fs" "max_block fs' = max_block fs"
    "blocks fs' b = overlay (64 * i) (encode_entry e') (blocks fs b)"
    "\<And>k. k \<notin> set cs' \<Longrightarrow> fat fs' k = fat fs k" "\<And>k. k \<notin> set cs' \<Longrightarrow> k \<noteq> b \<Longrightarrow> blocks fs' k = blocks fs k"
    using a p by (auto simp: appended_def)
  note x' = volumeD(2) [OF v x]
  have dirnz: "fat fs c \<noteq> 0" if "c \<in> set bs" for c
    using volumeD(1) [OF v] that by (intro chain_nonzero [of "fat fs" 1 bs]) (auto simp: dir_ok_def in_region_def)
  then have bs: "set cs' \<inter> set bs = {}" using ns x' by (fastforce simp: free_blocks_def)
  have b: "b \<in> set bs" using named_slot(4) [OF v x] p by simp
  have apart: "set cs' \<inter> set (cf g) = {}" if "g \<noteq> f" "named fs bs g \<noteq> None" for g
  proof -
    obtain q y where "named fs bs g = Some (q, y)" using \<open>named fs bs g \<noteq> None\<close> by auto
    then show ?thesis
      using volumeD(3) [OF v that(1)] volumeD(2) [OF v, of g] x chain_not_free(1) [of fs y "cf g"] ns \<open>g \<noteq> f\<close> by auto
  qed
  have dir: "same_on (put_entry (fst (fd_slot fs fd)) (snd (fd_slot fs fd)) e' fs) fs' (set bs)"
    using a' bs p b by (auto simp: same_on_def put_entry_def Let_def)
  have oth: "same_on fs fs' (set (cf g))" if g: "g \<noteq> f" "named fs bs g \<noteq> None" for g
  proof -
    obtain q y where "named fs bs g = Some (q, y)" using g(2) by auto
    then have "b \<notin> set (cf g)" using volumeD(2) [OF v, of g] b by auto
    then show ?thesis using apart [OF g] a' by (auto simp: same_on_def)
  qed
  have cn: "cname e' = f" using a'(3) namedD(2) [OF x] by (simp add: cname_def)
  have ok: "slot_ok e'" "name0 e' \<noteq> 0" using named_entry_ok [OF dev(1) v x] a'(3) by (auto simp: slot_ok_def terminated_def cname_def)
  have fl: "file_ok fs' e' cs' \<and> set cs' \<inter> set bs = {}" using a'(1) bs by simp
  note r = volume_replace [OF dev(1) v x a'(5) ok _ dir oth fl apart, unfolded cn]
  show "volume fs' bs (cf(f := cs'))" using r(1) by simp
  show "files fs' bs (cf(f := cs')) = (files fs bs cf)(f \<mapsto> (de_perm e, content fs e (cf f) @ str))"
    using r(2) namedD(1) [OF x] a'(2,4) by simp
  note nr = named_replace [OF dev(1) v x a'(5) ok _ dir, unfolded cn]
  show "named fs' bs f = Some (fd_slot fs fd, e')" "keeps f fs fs'"
    using nr namedD(1) [OF x] keepsI [OF volumeD(1) [OF v]] by simp_all
qed

lemma write_on:
  assumes on: "on_file h fs F fd f cap" and f: "F f = Some (perm, d)" and perm: "write_perm perm"
    and e: "at_end fd fs (length d)" and room: "length d + length str \<le> cap"
  shows "\<exists>fs'. k_write h (int fd) str (int (length str)) fs = Some (int (length str), fs') \<and>
    on_file h fs' (F(f \<mapsto> (perm, d @ str))) fd f cap \<and> others fd f fs fs' \<and> at_end fd fs' (length (d @ str))"
proof -
  obtain bs cf x where v: "device_ok (h, fs)" "3 \<le> fd" "fd < GLOBAL_FD_TABLE_SIZE" "ref_count (global_fd_table fs fd) = 1"
    "volume fs bs cf" "files fs bs cf = F" "named fs bs f = Some (fd_slot fs fd, x)"
    "ptr_to_dir_entry (global_fd_table fs fd) = Some x"
    "cap \<le> (length (cf f) + card (free_blocks fs)) * block_size fs"
    using on unfolding on_file_def by blast
  have x: "de_perm x = perm" "content fs x (cf f) = d" using filesD [of fs bs cf f] f v(6,7) by auto
  have fx: "file_ok fs x (cf f)" "set (cf f) \<inter> set bs = {}" using volumeD(2) [OF v(5,7)] by auto
  have sz: "de_size x = length d" using length_content [OF v(1) fx(1)] x(2) by simp
  note p = named_slot [OF v(5,7)]
  show ?thesis
  proof (cases "str = []")
    case True
    have "is_mounted fs" using device_okD(2) [OF v(1)] by (simp add: geometry_ok_def)
    then have "k_write h (int fd) str (int (length str)) fs = Some (int (length str), fs)"
      using v x perm True by (auto simp: k_write_def Let_def write_perm_def)
    moreover have "F(f \<mapsto> (perm, d)) = F" using f by (simp add: fun_upd_idem)
    ultimately show ?thesis using on e True by (auto simp: others_def)
  next
    case False
    have o: "open_file fs fd x"
      using v named_entry_ok(1) [OF v(1,5,7)] p by (auto simp: open_file_def split: prod.splits)
    have w: "may_write x" "write_offset fs fd x = de_size x" "fst (fd_slot fs fd) \<notin> set (cf f)"
      using perm x(1) e sz fx(2) p(4) by (auto simp: may_write_def write_perm_def at_end_def write_offset_def)
    have "de_size x + length str \<le> (length (cf f) + card (free_blocks fs)) * block_size fs" using room sz v(9) by simp
    then obtain fs' e' cs' where k: "k_write h (int fd) str (int (length str)) fs = Some (int (length str), fs')"
      "device_ok (h, fs')" "appended fs fd x (cf f) (take (length str) str) fs' e' cs'"
      using k_write_append [OF v(1) o w(1,2) fx(1) _ _ _ w(3), of "length str" str] False by auto
    have a: "appended fs fd x (cf f) str fs' e' cs'" using k(3) by simp
    note av = appended_volume [OF v(1) k(2) v(5,7) a]
    have t: "global_fd_table fs' = (global_fd_table fs)(fd := (global_fd_table fs fd)
        \<lparr>ptr_to_dir_entry := Some e', fd_offset := de_size x + length str\<rparr>)" "block_size fs' = block_size fs"
      using a by (auto simp: appended_def)
    have cap: "cap \<le> (length ((cf(f := cs')) f) + card (free_blocks fs')) * block_size fs'"
      using appended_room [OF a fx(1)] v(9) t(2) by simp
    have "fd_slot fs' fd = fd_slot fs fd" using t(1) by (simp add: fd_slot_def)
    then have "on_file h fs' (F(f \<mapsto> (perm, d @ str))) fd f cap"
      using k(2) v(2,3,4,6) av x cap t(1) unfolding on_file_def
      by (auto intro!: exI [of _ bs] exI [of _ "cf(f := cs')"])
    moreover have "at_end fd fs' (length (d @ str))" using t(1) sz by (simp add: at_end_def)
    ultimately show ?thesis using k(1) t(1) av(4) by (auto simp: others_def)
  qed
qed

lemma closed_table: "global_fd_table (closed fd fs) i = (if i = fd
    then (global_fd_table fs fd)\<lparr>ref_count := 0, ptr_to_dir_entry := None, write_locked := 0\<rparr> else global_fd_table fs i)"
  by (simp add: closed_def)

lemma close_on:
  assumes on: "on_file h fs F fd f cap"
  shows "k_close h (int fd) fs = Some (0, closed fd fs)" "holds h (closed fd fs) F" "free_fd (closed fd fs) fd"
    "others fd f fs (closed fd fs)"
proof -
  obtain bs cf x where v: "device_ok (h, fs)" "3 \<le> fd" "fd < GLOBAL_FD_TABLE_SIZE" "ref_count (global_fd_table fs fd) = 1"
    "volume fs bs cf" "files fs bs cf = F" "named fs bs f = Some (fd_slot fs fd, x)"
    "ptr_to_dir_entry (global_fd_table fs fd) = Some x"
    using on unfolding on_file_def by blast
  have "is_mounted fs" "name0 x \<noteq> 2"
    using device_okD(2) [OF v(1)] named_entry_ok(4) [OF v(1,5,7)] by (auto simp: geometry_ok_def)
  then show "k_close h (int fd) fs = Some (0, closed fd fs)" using k_close_last v by blast
  show "holds h (closed fd fs) F" using v volume_same [of fs "closed fd fs"] by (auto simp: holds_def)
  show "free_fd (closed fd fs) fd" "others fd f fs (closed fd fs)"
    using v keeps_same [OF closed_same(1), of f fs fd] by (auto simp: free_fd_def closed_table others_def)
qed

text \<open>What a session with one descriptor means for the others.\<close>

lemma others_trans: "others fd f a b \<Longrightarrow> others fd f b c \<Longrightarrow> others fd f a c"
  using keeps_trans by (auto simp: others_def)

lemma on_file_entry:
  assumes "on_file h fs F fd f cap"
  shows "\<exists>x. ptr_to_dir_entry (global_fd_table fs fd) = Some x \<and> terminated x \<and> cname x = f"
proof -
  obtain bs cf x where v: "device_ok (h, fs)" "volume fs bs cf" "named fs bs f = Some (fd_slot fs fd, x)"
    "ptr_to_dir_entry (global_fd_table fs fd) = Some x"
    using assms unfolding on_file_def by blast
  then show ?thesis using named_entry_ok(2) [OF v(1,2,3)] namedD(2) [OF v(3)] by (auto simp: slot_ok_def)
qed

lemma unopened_other: "unopened g fs \<Longrightarrow> others fd f fs fs' \<Longrightarrow> on_file h fs' F fd f cap \<Longrightarrow> g \<noteq> f \<Longrightarrow> unopened g fs'"
  using on_file_entry [of h fs' F fd f cap] unfolding unopened_def others_def by metis

lemma unopened_closed: "unopened g fs \<Longrightarrow> others fd f fs fs' \<Longrightarrow> free_fd fs' fd \<Longrightarrow> unopened g fs'"
  unfolding unopened_def others_def free_fd_def by (metis less_numeral_extra(3))

lemma on_file_holds: "on_file h fs F fd f cap \<Longrightarrow> holds h fs F"
  by (auto simp: on_file_def holds_def)

text \<open>A descriptor on another file is not affected.\<close>

lemma on_file_other:
  assumes on: "on_file h fs G sd g cap" and o: "others fd f fs fs'" and H: "holds h fs' F" and ne: "sd \<noteq> fd" "g \<noteq> f"
  shows "on_file h fs' F sd g 0"
proof -
  obtain bs cf e where v: "3 \<le> sd" "sd < GLOBAL_FD_TABLE_SIZE" "ref_count (global_fd_table fs sd) = 1"
    "volume fs bs cf" "named fs bs g = Some (fd_slot fs sd, e)" "ptr_to_dir_entry (global_fd_table fs sd) = Some e"
    using on unfolding on_file_def by blast
  obtain bs' where bs': "dir_ok fs' bs'" "named fs' bs' g = Some (fd_slot fs sd, e)"
    using o volumeD(1) [OF v(4)] ne(2) v(5) by (auto simp: others_def keeps_def)
  obtain c cf' where c: "volume fs' c cf'" "files fs' c cf' = F" "device_ok (h, fs')" using H by (auto simp: holds_def)
  have "c = bs'" by (rule dir_chain_unique [OF volumeD(1) [OF c(1)] bs'(1)])
  then have "volume fs' bs' cf'" "files fs' bs' cf' = F" "device_ok (h, fs')" using c by auto
  moreover have "global_fd_table fs' sd = global_fd_table fs sd" "fd_slot fs' sd = fd_slot fs sd"
    using o ne(1) by (auto simp: others_def fd_slot_def)
  ultimately show ?thesis using v(1,2,3,6) bs'(2) unfolding on_file_def by auto
qed

text \<open>Two descriptors, opened one after the other: the source and the destination of a copy.\<close>

lemma open_two:
  fixes fs
  defines "sd \<equiv> find_empty_fd fs" and "cap \<equiv> (card (free_blocks fs) - 1) * block_size fs"
  assumes H: "holds h fs G" and src: "G src = Some (perm, d)" "\<not> open_denied perm F_READ" "unopened src fs"
    and dst: "is_valid_filename dst" "dst \<noteq> src" "\<not> open_denied (perm_of G dst) F_WRITE" "unopened dst fs"
    and fd: "free_fd fs i" "free_fd fs j" "i \<noteq> j" and room: "free_blocks fs \<noteq> {}"
  shows "\<exists>fs1 dd fs2. k_open h src F_READ fs = Some (int sd, fs1) \<and> k_open h dst F_WRITE fs1 = Some (int dd, fs2) \<and>
    sd \<noteq> dd \<and> on_file h fs2 (G(dst \<mapsto> (perm_of G dst, []))) sd src 0 \<and> on_file h fs2 (G(dst \<mapsto> (perm_of G dst, []))) dd dst cap \<and>
    fd_offset (global_fd_table fs2 sd) = 0 \<and> fd_offset (global_fd_table fs2 dd) = 0 \<and> write_locked (global_fd_table fs2 dd) \<le> 2 \<and>
    (\<forall>i. i \<noteq> sd \<and> i \<noteq> dd \<longrightarrow> global_fd_table fs2 i = global_fd_table fs i) \<and>
    ref_count (global_fd_table fs sd) = 0 \<and> ref_count (global_fd_table fs dd) = 0"
proof -
  obtain fs1 where o: "k_open h src F_READ fs = Some (int sd, fs1)" "on_file h fs1 G sd src 0" "others sd src fs fs1"
    "fd_offset (global_fd_table fs1 sd) = 0" "same_on fs fs1 UNIV"
    using open_read [OF H src fd(1)] unfolding sd_def by blast
  let ?dd = "find_empty_fd fs1"
  obtain k where k: "free_fd fs k" "k \<noteq> sd" using fd by (cases "i = sd") auto
  then have free: "free_fd fs1 k" using o(3) by (simp add: free_fd_def others_def)
  have un: "unopened dst fs1" by (rule unopened_other [OF dst(4) o(3,2) dst(2)])
  have fb: "free_blocks fs1 = free_blocks fs" "block_size fs1 = block_size fs" using o(5) by (auto simp: same_on_def free_blocks_def)
  obtain fs2 where w: "k_open h dst F_WRITE fs1 = Some (int ?dd, fs2)" "on_file h fs2 (G(dst \<mapsto> (perm_of G dst, []))) ?dd dst cap"
    "others ?dd dst fs1 fs2" "fd_offset (global_fd_table fs2 ?dd) = 0" "write_locked (global_fd_table fs2 ?dd) \<le> 2"
    using open_write [OF on_file_holds [OF o(2)] dst(1,3) un free] room unfolding fb cap_def by blast
  note e = find_empty_fd_free(1) [OF free] find_empty_fd_free(1) [OF fd(1)]
  have ne: "sd \<noteq> ?dd" using e(1) o(2) by (auto simp: free_fd_def on_file_def)
  have "on_file h fs2 (G(dst \<mapsto> (perm_of G dst, []))) sd src 0"
    by (rule on_file_other [OF o(2) w(3) on_file_holds [OF w(2)] ne]) (use dst(2) in simp)
  moreover have "fd_offset (global_fd_table fs2 sd) = 0" using w(3) ne o(4) by (simp add: others_def)
  moreover have "\<forall>i. i \<noteq> sd \<and> i \<noteq> ?dd \<longrightarrow> global_fd_table fs2 i = global_fd_table fs i"
    using o(3) w(3) by (auto simp: others_def)
  moreover have "ref_count (global_fd_table fs sd) = 0" "ref_count (global_fd_table fs ?dd) = 0"
    using e o(3) ne by (auto simp: free_fd_def others_def sd_def)
  ultimately show ?thesis using o(1) w(1,2,4,5) ne by blast
qed

section \<open>Calls that take a name\<close>

lemma marked_entry:
  assumes "entry_ok e" "slot_ok e" "name0 e \<noteq> 0"
  shows "entry_ok (mark_name 1 e)" "slot_ok (mark_name 1 e)" "name0 (mark_name 1 e) = 1"
    "\<not> is_valid_filename (cname (mark_name 1 e))"
proof -
  have l: "length (de_name e) = 32" "0 \<in> set (de_name e)" using assms by (auto simp: entry_ok_def slot_ok_def terminated_def)
  then obtain k where k: "k < 32" "de_name e ! k = 0" by (metis in_set_conv_nth)
  have m: "de_name (mark_name 1 e) = (de_name e)[0 := 1]" by (simp add: mark_name_def)
  have "(de_name e)[0 := 1] ! k = 0" using k assms(3) l by (cases k) (auto simp: nth_list_update)
  then have z: "0 \<in> set ((de_name e)[0 := 1])" using k(1) l(1) by (metis length_list_update nth_mem)
  show n: "name0 (mark_name 1 e) = 1" using l by (simp add: m)
  show "entry_ok (mark_name 1 e)" using assms(1) by (simp add: entry_ok_def mark_name_def)
  show "slot_ok (mark_name 1 e)" using n z m by (simp add: slot_ok_def terminated_def)
  show "\<not> is_valid_filename (cname (mark_name 1 e))" using n cname_valid_not_deleted [of "mark_name 1 e"] by auto
qed

lemma chain_no_end: "is_chain f b cs \<Longrightarrow> FAT_END_OF_FILE \<notin> set cs"
  by (induction cs arbitrary: b) auto

lemma card_freed:
  assumes "geometry_ok fs" "file_ok fs e cs"
  shows "card (free_blocks (freed cs fs)) = card (free_blocks fs) + length cs"
proof -
  have "FAT_END_OF_FILE \<notin> set cs" "\<forall>c\<in>set cs. 1 \<le> c \<and> c \<le> max_block fs \<and> c \<le> 65535"
    using assms chain_no_end [of "fat fs" "de_first_block e" cs] geometry_bounds(6) [OF assms(1)]
    by (auto simp: file_ok_def file_chain_def in_region_def split: if_splits)
  then have "free_blocks (freed cs fs) = free_blocks fs \<union> set cs"
    by (auto simp: free_blocks_def le_less)
  then show ?thesis using chain_not_free [OF assms(2)] by (simp add: card_Un_disjoint Int_commute distinct_card)
qed

lemma k_unlink_files:
  assumes H: "holds h fs F" and f: "is_valid_filename f" "unopened f fs"
  shows "\<exists>fs'. k_unlink h f fs = Some (if F f = None then EK_UNLINK_FILE_NOT_FOUND else 0, fs') \<and>
    holds h fs' (F(f := None)) \<and> global_fd_table fs' = global_fd_table fs \<and>
    card (free_blocks fs') = card (free_blocks fs) +
      (case F f of None \<Rightarrow> 0 | Some (perm, d) \<Rightarrow> (length d + block_size fs - 1) div block_size fs)"
proof -
  obtain bs cf where v: "device_ok (h, fs)" "volume fs bs cf" "files fs bs cf = F" using H by (auto simp: holds_def)
  have m: "is_mounted fs" using device_okD(2) [OF v(1)] by (simp add: geometry_ok_def)
  obtain c where c: "c \<in> set bs" "find_file_in_root_dir h f fs = Some
      (case named fs bs f of None \<Rightarrow> (RFIND_FILE_IN_ROOT_DIR_FILE_NOT_FOUND, None)
       | Some ((b, i), e) \<Rightarrow> (RFIND_FILE_IN_ROOT_DIR_FILE_FOUND, Some (e, b, i)), fs\<lparr>block_buf := blocks fs c\<rparr>)"
    using named_found [OF v(1,2) f(1)] by blast
  let ?fs = "fs\<lparr>block_buf := blocks fs c\<rparr>"
  have k: "k_unlink h f fs = unlink_closed h f fs"
    using m f find_file_unopened [OF f(2,1)] by (simp add: k_unlink_def)
  note b = dir_block_buf [OF v(1,2) c(1)]
  show ?thesis
  proof (cases "named fs bs f")
    case None
    then have n: "F f = None" using v(3) files_None by metis
    then have "F(f := None) = F" by (simp add: fun_upd_idem)
    then show ?thesis
      using k c(2) None n holds_same [OF H _ b] by (auto simp: unlink_closed_def free_blocks_def)
  next
    case (Some a)
    obtain p e where a: "a = (p, e)" by (cases a)
    then have x: "named fs bs f = Some (p, e)" using Some by simp
    note ok = named_entry_ok [OF v(1,2) x] and sl = named_slot [OF v(2) x]
    note me = marked_entry [OF ok(1,2,3)]
    have fo: "file_ok ?fs e (cf f)" using volumeD(2) [OF v(2) x] file_same(1) [of fs ?fs "cf f" e] by simp
    let ?fs' = "put_entry (fst p) (snd p) (mark_name 1 e) (freed (cf f) ?fs)"
    have w: "write_root_dir_entry h (mark_name 1 e) (fst p) (snd p) (freed (cf f) ?fs) = Some (0, ?fs')"
      using b sl me by (intro write_root_dir_entry_ok) auto
    have "k_unlink h f fs = Some (0, ?fs')"
      using k c(2) x w clear_chain_file [OF device_okD(2) [OF b] fo] by (cases p) (simp add: unlink_closed_def)
    moreover have "F f \<noteq> None" using v(3) x files_None by (metis option.distinct(1))
    moreover have "length (blocks fs c) = block_size fs" using device_okD(2) [OF b] by (simp add: geometry_ok_def)
    then have "holds h ?fs' (F(f := None))"
      using volume_rewrite [OF v(1,2) x me(1,2) _ _, of "blocks fs c"] me(3,4) v(3) unfolding holds_def by auto
    moreover have "free_blocks ?fs' = free_blocks (freed (cf f) fs)" by (auto simp: free_blocks_def put_entry_def Let_def)
    then have "card (free_blocks ?fs') = card (free_blocks fs) +
        (case F f of None \<Rightarrow> 0 | Some (perm, d) \<Rightarrow> (length d + block_size fs - 1) div block_size fs)"
      using card_freed [OF device_okD(2) [OF v(1)]] length_content [OF v(1)] volumeD(2) [OF v(2) x] v(3) x
      by (auto simp: files_def file_ok_def)
    ultimately show ?thesis by (auto simp: put_entry_def Let_def)
  qed
qed

lemma chmod_perm_bound:
  assumes "old < 256" "perm \<le> 7" "chmod_perm old perm mode = Some p"
  shows "p < 256"
proof -
  have "take_bit 8 (or old perm) = or (take_bit 8 old) (take_bit 8 perm)" by (rule take_bit_or)
  also have "\<dots> = or old perm" using assms(1,2) by (simp add: take_bit_nat_eq_self)
  finally have "or old perm < 2 ^ 8" by (simp only: take_bit_nat_eq_self_iff)
  moreover have "unat (w :: byte) < 256" for w using unsigned_less [of w] by simp
  ultimately show ?thesis using assms by (auto simp: chmod_perm_def split: if_splits)
qed

lemma k_chmod_files:
  assumes H: "holds h fs F" and f: "is_valid_filename f" "F f = Some (old, d)"
    and perm: "perm \<le> 7" "chmod_perm old perm mode = Some p"
  shows "\<exists>fs'. k_chmod h f perm mode fs = Some (0, fs') \<and> holds h fs' (F(f \<mapsto> (p, d))) \<and>
    global_fd_table fs' = global_fd_table fs"
proof -
  obtain bs cf where v: "device_ok (h, fs)" "volume fs bs cf" "files fs bs cf = F" using H by (auto simp: holds_def)
  obtain q e where x: "named fs bs f = Some (q, e)" "de_perm e = old" "content fs e (cf f) = d"
    using filesD [of fs bs cf f] f(2) v(3) by auto
  have m: "is_mounted fs" using device_okD(2) [OF v(1)] by (simp add: geometry_ok_def)
  obtain c where c: "c \<in> set bs" "find_file_in_root_dir h f fs = Some
      ((RFIND_FILE_IN_ROOT_DIR_FILE_FOUND, Some (e, q)), fs\<lparr>block_buf := blocks fs c\<rparr>)"
    using named_found [OF v(1,2) f(1)] x(1) by (cases q) auto
  let ?fs = "fs\<lparr>block_buf := blocks fs c\<rparr>" and ?e = "e\<lparr>de_perm := p\<rparr>"
  note ok = named_entry_ok [OF v(1,2) x(1)] and sl = named_slot [OF v(2) x(1)]
  have e: "entry_ok ?e" "slot_ok ?e" "name0 ?e \<noteq> 0" "cname ?e = f"
    using ok chmod_perm_bound [OF _ perm] x(2) namedD(2) [OF x(1)]
    by (auto simp: entry_ok_def slot_ok_def terminated_def cname_def)
  let ?fs' = "put_entry (fst q) (snd q) ?e ?fs"
  note b = dir_block_buf [OF v(1,2) c(1)]
  have "write_root_dir_entry h ?e (fst q) (snd q) ?fs = Some (0, ?fs')"
    using b sl e(1) by (intro write_root_dir_entry_ok) auto
  then have "k_chmod h f perm mode fs = Some (0, ?fs')"
    using m f(1) c(2) perm x(2) by (cases q) (simp add: k_chmod_def)
  moreover have "device_ok (h, ?fs')" using b sl e(1) by (intro put_entry_device) auto
  moreover have dir: "same_on (put_entry (fst q) (snd q) ?e fs) ?fs' (set bs)" by (intro put_entry_cong) auto
  have oth: "same_on fs ?fs' (set (cf g))" if "named fs bs g = Some (r, y)" for g r y
    using same_on_trans [OF same_on_table(2) put_entry_same [OF sl(4)]] volumeD(2) [OF v(2) that] by simp
  have fl: "file_ok ?fs' ?e (cf f)" "content ?fs' ?e (cf f) = d"
    using file_same [OF oth [OF x(1)]] volumeD(2) [OF v(2) x(1)] x(3) by (auto simp: file_ok_def content_def)
  have "volume ?fs' bs (cf(f := cf f))" "files ?fs' bs (cf(f := cf f)) = F(f := None, f \<mapsto> (p, d))"
    using volume_replace [OF v(1,2) x(1) e(1,2,3) _ dir, unfolded e(4), of "cf f"] oth fl
      volumeD(2) [OF v(2) x(1)] volumeD(3) [OF v(2), of f] x(1) v(3) f(1) by auto
  ultimately show ?thesis by (auto simp: holds_def put_entry_def Let_def)
qed

lemma renamed_entry:
  assumes "is_valid_filename dest" "entry_ok e"
  shows "entry_ok (rename_entry dest e)" "slot_ok (rename_entry dest e)" "cname (rename_entry dest e) = dest"
    "name0 (rename_entry dest e) \<noteq> 0" "name0 (rename_entry dest e) \<noteq> 2"
    "de_perm (rename_entry dest e) = de_perm e" "de_size (rename_entry dest e) = de_size e"
    "de_first_block (rename_entry dest e) = de_first_block e"
proof -
  have l: "length dest \<le> 31" "0 \<notin> set dest" using assms(1) valid_filename_nonzero by (auto simp: valid_filename_iff)
  have n: "length (de_name e) = 32" using assms(2) by (simp add: entry_ok_def)
  show c: "cname (rename_entry dest e) = dest"
    using l by (simp add: cname_def rename_entry_def overlay_def takeWhile_append)
  show "entry_ok (rename_entry dest e)" using assms(2) l n by (simp add: entry_ok_def rename_entry_def)
  show "slot_ok (rename_entry dest e)"
    using c assms(1) by (simp add: slot_ok_def terminated_def rename_entry_def overlay_def)
  show "name0 (rename_entry dest e) \<noteq> 0" "name0 (rename_entry dest e) \<noteq> 2"
    using cname_valid_not_deleted [of "rename_entry dest e"] c assms(1) by auto
qed (simp_all add: rename_entry_def)

text \<open>Renaming an open file: the cached entry and the directory slot get the new name.\<close>

lemma rename_on:
  assumes on: "on_file h fs F fd src cap" and f: "F src = Some (perm, d)"
    and dest: "is_valid_filename dest" "dest \<noteq> src" "F dest = None"
  shows "\<exists>e b i fs'. ptr_to_dir_entry (global_fd_table fs fd) = Some e \<and> fd_slot fs fd = (b, i) \<and>
    write_root_dir_entry h (rename_entry dest e) b i
      (fd_upd fd (\<lambda>g. g\<lparr>ptr_to_dir_entry := Some (rename_entry dest e)\<rparr>) fs) = Some (0, fs') \<and>
    on_file h fs' (F(src := None, dest \<mapsto> (perm, d))) fd dest 0 \<and>
    (\<forall>i. i \<noteq> fd \<longrightarrow> global_fd_table fs' i = global_fd_table fs i)"
proof -
  obtain bs cf e where v: "device_ok (h, fs)" "3 \<le> fd" "fd < GLOBAL_FD_TABLE_SIZE" "ref_count (global_fd_table fs fd) = 1"
    "volume fs bs cf" "files fs bs cf = F" "named fs bs src = Some (fd_slot fs fd, e)"
    "ptr_to_dir_entry (global_fd_table fs fd) = Some e"
    using on unfolding on_file_def by blast
  obtain b i where p: "fd_slot fs fd = (b, i)" by (cases "fd_slot fs fd")
  have x: "de_perm e = perm" "content fs e (cf src) = d" using filesD [of fs bs cf src] f v(6,7) by auto
  let ?e = "rename_entry dest e"
  note sl = named_slot [OF v(5,7), unfolded p]
  note e = renamed_entry [OF dest(1) named_entry_ok(1) [OF v(1,5,7)]]
  let ?fs = "fd_upd fd (\<lambda>g. g\<lparr>ptr_to_dir_entry := Some ?e\<rparr>) fs"
  let ?fs' = "put_entry b i ?e ?fs"
  have s: "same_on fs ?fs A" for A by (simp add: fd_upd_def)
  have dv: "device_ok (h, ?fs)" using v(1) by (simp add: fd_upd_def)
  have w: "write_root_dir_entry h ?e b i ?fs = Some (0, ?fs')" "device_ok (h, ?fs')"
    using dv sl e(1) by (auto intro!: write_root_dir_entry_ok put_entry_device simp: fd_upd_def entries_per_block_def)
  have dir: "same_on (put_entry (fst (fd_slot fs fd)) (snd (fd_slot fs fd)) ?e fs) ?fs' (set bs)"
    unfolding p by (simp add: put_entry_cong s)
  have oth: "same_on fs ?fs' (set (cf g))" if "named fs bs g = Some (r, y)" for g r y
    using same_on_trans [OF s put_entry_same [of b bs]] sl(4) volumeD(2) [OF v(5) that] by simp
  have fl: "file_ok ?fs' ?e (cf src)" "content ?fs' ?e (cf src) = d"
    using file_same [OF oth [OF v(7)]] volumeD(2) [OF v(5,7)] x(2) e(7,8) by (auto simp: file_ok_def content_def)
  have nd: "named fs bs dest = None" using dest(3) v(6) files_None by metis
  have vol: "volume ?fs' bs (cf(dest := cf src))" "files ?fs' bs (cf(dest := cf src)) = F(src := None, dest \<mapsto> (perm, d))"
    using volume_replace [OF v(1,5,7) e(1,2,4) _ dir, unfolded e(3), of "cf src"] oth fl nd
      volumeD(2) [OF v(5,7)] volumeD(3) [OF v(5), of src] v(6,7) dest(1) e(6) x(1) by auto
  have n: "named ?fs' bs dest = Some ((b, i), ?e)"
    using named_replace(2) [OF v(1,5,7) e(1,2,4) _ dir, unfolded e(3)] nd dest(1) p by simp
  have t: "global_fd_table ?fs' = (global_fd_table fs)(fd := (global_fd_table fs fd)\<lparr>ptr_to_dir_entry := Some ?e\<rparr>)"
    by (simp add: fd_upd_def put_entry_def Let_def)
  then have "fd_slot ?fs' fd = (b, i)" using p by (simp add: fd_slot_def)
  then have "on_file h ?fs' (F(src := None, dest \<mapsto> (perm, d))) fd dest 0"
    unfolding on_file_def using w(2) v(2,3,4) vol n t by (auto intro!: exI [of _ bs] exI [of _ "cf(dest := cf src)"])
  then show ?thesis using v(8) p w(1) t by auto
qed

lemma unopened_table: "global_fd_table fs' = global_fd_table fs \<Longrightarrow> unopened f fs' = unopened f fs"
  "global_fd_table fs' = global_fd_table fs \<Longrightarrow> free_fd fs' i = free_fd fs i"
  by (simp_all add: unopened_def free_fd_def)

lemma k_mv_files:
  assumes H: "holds h fs F" and src: "is_valid_filename src" "unopened src fs"
    and dest: "is_valid_filename dest" "unopened dest fs" and fd: "free_fd fs j"
    and perm: "\<forall>perm d. F src = Some (perm, d) \<longrightarrow> \<not> open_denied perm F_READ"
  shows "\<exists>fs'. k_mv h src dest fs = Some (if src = dest \<or> F src = None then EK_MV_FILE_NOT_FOUND else 0, fs') \<and>
    holds h fs' (if src = dest \<or> F src = None then F(dest := None) else F(src := None, dest := F src)) \<and>
    (\<forall>i. ref_count (global_fd_table fs i) = 0 \<longrightarrow> ref_count (global_fd_table fs' i) = 0)"
proof -
  have m: "is_mounted fs" using H device_okD(2) by (auto simp: holds_def geometry_ok_def)
  obtain fs1 where u: "k_unlink h dest fs = Some (if F dest = None then EK_UNLINK_FILE_NOT_FOUND else 0, fs1)"
    "holds h fs1 (F(dest := None))" "global_fd_table fs1 = global_fd_table fs"
    using k_unlink_files [OF H dest] by blast
  note t = unopened_table [OF u(3)]
  have fd1: "free_fd fs1 j" using fd t by simp
  have mv: "k_mv h src dest fs = do {
      (src_fd, fs) \<leftarrow> k_open h src F_READ fs1;
      if src_fd = EK_OPEN_FILE_DOES_NOT_EXIST then Some (EK_MV_FILE_NOT_FOUND, fs)
      else if src_fd < 0 then Some (EK_MV_OPEN_FAILED, fs)
      else do {
        let fd = nat src_fd;
        e \<leftarrow> ptr_to_dir_entry (global_fd_table fs fd);
        let e = rename_entry dest e;
        let fs = fd_upd fd (\<lambda>g. g\<lparr>ptr_to_dir_entry := Some e\<rparr>) fs;
        let g = global_fd_table fs fd;
        (code, fs) \<leftarrow> write_root_dir_entry h e (dir_entry_block_num g) (dir_entry_idx g) fs;
        (close_status, fs) \<leftarrow> k_close h src_fd fs;
        Some (if close_status \<noteq> 0 then EK_MV_CLOSE_FAILED
              else if code \<noteq> 0 then EK_MV_WRITE_ROOT_DIR_ENTRY_FAILED else 0, fs)
      } }"
    using m dest(1) u(1) by (simp add: k_mv_def)
  show ?thesis
  proof (cases "src = dest \<or> F src = None")
    case True
    then have "(F(dest := None)) src = None" by auto
    then show ?thesis using open_missing [OF u(2) src(1) _ _ fd1] src(2) t u(3) mv True by auto
  next
    case False
    then obtain perm d where f: "F src = Some (perm, d)" "(F(dest := None)) src = Some (perm, d)" by auto
    let ?fd = "find_empty_fd fs1"
    obtain fs2 where o: "k_open h src F_READ fs1 = Some (int ?fd, fs2)" "on_file h fs2 (F(dest := None)) ?fd src 0"
      "others ?fd src fs1 fs2"
      using open_read [OF u(2) f(2) _ _ fd1] perm f(1) src(2) t by blast
    obtain e b i fs3 where r: "ptr_to_dir_entry (global_fd_table fs2 ?fd) = Some e" "fd_slot fs2 ?fd = (b, i)"
      "write_root_dir_entry h (rename_entry dest e) b i
        (fd_upd ?fd (\<lambda>g. g\<lparr>ptr_to_dir_entry := Some (rename_entry dest e)\<rparr>) fs2) = Some (0, fs3)"
      "on_file h fs3 ((F(dest := None))(src := None, dest \<mapsto> (perm, d))) ?fd dest 0"
      "\<And>i. i \<noteq> ?fd \<Longrightarrow> global_fd_table fs3 i = global_fd_table fs2 i"
      using rename_on [OF o(2) f(2) dest(1)] False by fastforce
    have sl: "dir_entry_block_num (global_fd_table fs2 ?fd) = b" "dir_entry_idx (global_fd_table fs2 ?fd) = i"
      using r(2) by (simp_all add: fd_slot_def)
    note c = close_on [OF r(4)]
    have "(F(dest := None))(src := None, dest \<mapsto> (perm, d)) = F(src := None, dest := F src)" using f(1) by (auto simp: fun_eq_iff)
    moreover have "ref_count (global_fd_table (closed ?fd fs3) i) = 0" if "ref_count (global_fd_table fs i) = 0" for i
      using that o(3) r(5) [of i] u(3) by (auto simp: closed_table others_def)
    ultimately show ?thesis using mv o(1) r(1,3) sl c(1,2) False by (simp add: Let_def)
  qed
qed

section \<open>Properties\<close>

text \<open>An image with one file \<open>a\<close> that holds the bytes \<open>hi\<close>.\<close>

definition source_example :: directory_entry where
  "source_example = entry_example\<lparr>de_size := 2, de_first_block := 2\<rparr>"

definition fs_file_example :: fatfs where
  "fs_file_example = put_entry 1 0 source_example (fs_example\<lparr>fat := (fat fs_example)(2 := FAT_END_OF_FILE),
     blocks := (blocks fs_example)(2 := 104 # 105 # replicate 254 0)\<rparr>)"

lemma source_example_facts:
  "entry_ok source_example" "slot_ok source_example" "cname source_example = [97]" "name0 source_example \<noteq> 0"
  "is_valid_filename [97]" "is_valid_filename [98]"
proof -
  show v: "is_valid_filename [97]" "is_valid_filename [98]" by (simp_all add: valid_filename_iff filename_char_def)
  show c: "cname source_example = [97]"
    by (simp add: source_example_def entry_example_def cname_def takeWhile_replicate)
  show "entry_ok source_example" "name0 source_example \<noteq> 0"
    by (simp_all add: source_example_def entry_example_def entry_ok_def zero_entry_def)
  show "slot_ok source_example"
    unfolding slot_ok_def c using v by (simp add: terminated_def source_example_def entry_example_def)
qed

lemma file_example:
  "device_ok (host_example, fs_file_example)" "dir_slots fs_file_example [1] = ((1, 0), source_example) # map (\<lambda>i. ((1, i), zero_entry)) [1..<4]"
proof -
  let ?fs = "fs_example\<lparr>fat := (fat fs_example)(2 := FAT_END_OF_FILE), blocks := (blocks fs_example)(2 := 104 # 105 # replicate 254 0)\<rparr>"
  have dev: "device_ok (host_example, ?fs)"
    using device_example by (simp add: device_ok_def blocks_complete_def max_block_def fs_example_def geometry_ok_def is_mounted_def)
  have r: "(1::nat) \<le> 1" "1 \<le> max_block ?fs" "0 < entries_per_block ?fs" "in_region ?fs [1]"
    by (simp_all add: fs_example_def max_block_def entries_per_block_def in_region_def)
  show "device_ok (host_example, fs_file_example)"
    unfolding fs_file_example_def by (rule put_entry_device [OF dev r(1,2,3) source_example_facts(1)])
  have eq: "dir_slots ?fs [1] = dir_slots fs_example [1]" by (simp add: block_slots_def entries_per_block_def)
  show "dir_slots fs_file_example [1] = ((1, 0), source_example) # map (\<lambda>i. ((1, i), zero_entry)) [1..<4]"
    unfolding fs_file_example_def put_entry_dir_slots [OF dev r(1,2,3) source_example_facts(1) r(4)] eq slots_example
    by (simp add: upt_rec)
qed

lemma holds_example: "holds host_example fs_file_example [[97] \<mapsto> (6, [104, 105])]"
proof -
  have sz: "block_size fs_file_example = 256" "max_block fs_file_example = 127" "fat fs_file_example 1 = FAT_END_OF_FILE"
    "fat fs_file_example 2 = FAT_END_OF_FILE" "blocks fs_file_example 2 = 104 # 105 # replicate 254 0"
    by (simp_all add: fs_file_example_def fs_example_def put_entry_def Let_def max_block_def)
  have e: "de_size source_example = 2" "de_first_block source_example = 2" "de_perm source_example = 6"
    by (simp_all add: source_example_def entry_example_def)
  have l: "live (dir_slots fs_file_example [1]) = [((1, 0), source_example)]"
    unfolding file_example(2) using source_example_facts(4) by (simp add: upt_rec)
  have n: "named fs_file_example [1] f = (if f = [97] then Some ((1, 0), source_example) else None)" for f
    unfolding named_def dir_find_def l using source_example_facts(3,5) by simp
  have sl: "dir_slots fs_file_example [1] = [((1, 0), source_example)] @ ((last [1], 1), zero_entry) #
      map (\<lambda>i. ((1, i), zero_entry)) [2..<4]"
    unfolding file_example(2) by (simp add: upt_rec)
  have "dir_ok fs_file_example [1] \<and> live (dir_slots fs_file_example [1]) = [((1, 0), source_example)]"
    by (rule dir_okI [OF _ _ _ sl]) (use sz source_example_facts in \<open>simp_all add: in_region_def names_unique_def\<close>)
  moreover have "file_ok fs_file_example source_example [2]" "content fs_file_example source_example [2] = [104, 105]"
    using sz e by (simp_all add: file_ok_def file_chain_def in_region_def content_def)
  ultimately have "volume fs_file_example [1] (\<lambda>_. [2])" "files fs_file_example [1] (\<lambda>_. [2]) = [[97] \<mapsto> (6, [104, 105])]"
    using n e by (auto simp: volume_def files_def fun_eq_iff)
  then show ?thesis using file_example(1) unfolding holds_def by blast
qed

lemma unopened_example: "unopened f fs_file_example" "free_fd fs_file_example 3"
  by (simp_all add: unopened_def free_fd_def fs_file_example_def fs_example_def put_entry_def Let_def empty_fd_entry_def)

text \<open>
  \<open>k_unlink\<close> on a file that is not open removes exactly that file from the volume: its
  blocks are all free again, all other files keep their permissions and contents, and the
  descriptor table is untouched. For a missing file it returns the error code and changes nothing.
\<close>

theorem k_unlink_removes:
  assumes "holds h fs F" and "is_valid_filename f" and "unopened f fs"
  shows "\<exists>fs'. k_unlink h f fs = Some (if F f = None then EK_UNLINK_FILE_NOT_FOUND else 0, fs') \<and>
    holds h fs' (F(f := None)) \<and> global_fd_table fs' = global_fd_table fs \<and>
    card (free_blocks fs') = card (free_blocks fs) +
      (case F f of None \<Rightarrow> 0 | Some (perm, d) \<Rightarrow> (length d + block_size fs - 1) div block_size fs)"
  by (rule k_unlink_files [OF assms])

theorem k_unlink_removes_witness:
  "\<exists>fs'. k_unlink host_example [97] fs_file_example = Some (0, fs') \<and> holds host_example fs' Map.empty"
  using k_unlink_removes [OF holds_example source_example_facts(5) unopened_example(1)] by auto

text \<open>
  C28: \<open>k_mv\<close> between names that are not open. A readable source is renamed: the destination has its
  permission and content afterwards, whatever it held before, and the source is gone. When the
  source does not exist, and also when source and destination are the same name, the call
  returns \<open>EK_MV_FILE_NOT_FOUND\<close> but has already deleted the destination.
\<close>

theorem k_mv_renames:
  assumes "holds h fs F" and "is_valid_filename src" and "unopened src fs"
    and "is_valid_filename dest" and "unopened dest fs" and "free_fd fs j"
    and "\<forall>perm d. F src = Some (perm, d) \<longrightarrow> \<not> open_denied perm F_READ"
  shows "\<exists>fs'. k_mv h src dest fs = Some (if src = dest \<or> F src = None then EK_MV_FILE_NOT_FOUND else 0, fs') \<and>
    holds h fs' (if src = dest \<or> F src = None then F(dest := None) else F(src := None, dest := F src))"
  using k_mv_files [OF assms] by blast

theorem k_mv_renames_witness:
  "(\<exists>fs'. k_mv host_example [97] [98] fs_file_example = Some (0, fs') \<and> holds host_example fs' [[98] \<mapsto> (6, [104, 105])]) \<and>
   (\<exists>fs'. k_mv host_example [97] [97] fs_file_example = Some (EK_MV_FILE_NOT_FOUND, fs') \<and> holds host_example fs' Map.empty)"
proof
  have p: "\<forall>perm d. [[97] \<mapsto> (6, [104, 105])] [97] = Some (perm, d) \<longrightarrow> \<not> open_denied perm F_READ"
    by (simp add: open_denied_def)
  have "[[97] \<mapsto> (6, [104, 105])]([97] := None, [98] := [[97] \<mapsto> (6, [104, 105])] [97]) = [[98] \<mapsto> (6, [104, 105])]"
    by (auto simp: fun_eq_iff)
  then show "\<exists>fs'. k_mv host_example [97] [98] fs_file_example = Some (0, fs') \<and> holds host_example fs' [[98] \<mapsto> (6, [104, 105])]"
    using k_mv_renames [OF holds_example source_example_facts(5) unopened_example(1) source_example_facts(6) unopened_example p] by simp
  show "\<exists>fs'. k_mv host_example [97] [97] fs_file_example = Some (EK_MV_FILE_NOT_FOUND, fs') \<and> holds host_example fs' Map.empty"
    using k_mv_renames [OF holds_example source_example_facts(5) unopened_example(1) source_example_facts(5) unopened_example p] by simp
qed

end
