(* ===== verification/Tokenizer.thy ===== *)
theory Tokenizer
  imports Prelude
begin

text \<open>
  The tokeniser and the number parser of the stand-alone file system shell
  (\<^verbatim>\<open>whitespace_tokenize\<close> and \<^verbatim>\<open>safe_strtol\<close> in \<^verbatim>\<open>src/src/pennfat/pennfat.c\<close>), over a model of
  \<open>strtok\<close> and \<open>strtol\<close> of the C library.

  A buffer is a list of bytes with its terminators; \<open>strtok\<close> overwrites the delimiter behind a
  token and remembers where to go on. Reading past the end of the buffer gives \<^term>\<open>None\<close>.
\<close>

section \<open>strtok\<close>

definition is_delim :: "byte \<Rightarrow> bool" where
  "is_delim c \<longleftrightarrow> c = 32 \<or> c = 9 \<or> c = 10 \<or> c = 13"

function scan_while :: "(byte \<Rightarrow> bool) \<Rightarrow> byte list \<Rightarrow> nat \<Rightarrow> nat option" where
  "scan_while P buf i =
     (if i \<ge> length buf then None else if P (buf ! i) then scan_while P buf (Suc i) else Some i)"
  by auto
termination by (relation "measure (\<lambda>(P, buf, i). length buf - i)") auto

declare scan_while.simps [simp del]

definition strtok :: "byte list \<Rightarrow> nat \<Rightarrow> (nat option \<times> byte list \<times> nat) option" where
  "strtok buf save = do {
     i \<leftarrow> scan_while is_delim buf save;
     if buf ! i = 0 then Some (None, buf, i)
     else do {
       j \<leftarrow> scan_while (\<lambda>c. c \<noteq> 0 \<and> \<not> is_delim c) buf i;
       if buf ! j = 0 then Some (Some i, buf, j)
       else Some (Some i, buf[j := 0], j + 1)
     }
   }"

section \<open>whitespace_tokenize\<close>

text \<open>The loop that counts the tokens of the copy.\<close>

partial_function (option) count_tokens :: "byte list \<Rightarrow> nat \<Rightarrow> nat \<Rightarrow> nat option" where
  "count_tokens buf save n = do {
     (tok, buf, save) \<leftarrow> strtok buf save;
     case tok of None \<Rightarrow> Some n | Some _ \<Rightarrow> count_tokens buf save (n + 1)
   }"

text \<open>The loop that stores them; the array has \<open>n\<close> elements.\<close>

partial_function (option) store_tokens ::
  "nat option \<Rightarrow> byte list \<Rightarrow> nat \<Rightarrow> nat \<Rightarrow> nat \<Rightarrow> nat option list \<Rightarrow> (nat option list \<times> byte list) option" where
  "store_tokens tok buf save i n tokens =
     (if tok \<noteq> None \<and> i < n then do {
        tokens \<leftarrow> set_at i tok tokens;
        (tok, buf, save) \<leftarrow> strtok buf save;
        store_tokens tok buf save (i + 1) n tokens
      }
      else Some (tokens, buf))"

declare count_tokens.simps [code] store_tokens.simps [code]

text \<open>
  \<open>copy_ok\<close> and \<open>array_ok\<close> say whether the two allocations succeed; the result is a null pointer,
  or the number of tokens, the array of offsets and the buffer they point into.
\<close>

definition whitespace_tokenize ::
  "bool \<Rightarrow> bool \<Rightarrow> byte list \<Rightarrow> (nat \<times> nat option list \<times> byte list) option option" where
  "whitespace_tokenize copy_ok array_ok str =
     (if \<not> copy_ok then Some None
      else do {
        n \<leftarrow> count_tokens (str @ [0]) 0 0;
        if \<not> array_ok then Some None
        else do {
          (tok, buf, save) \<leftarrow> strtok (str @ [0]) 0;
          (tokens, buf) \<leftarrow> store_tokens tok buf save 0 n (replicate n None);
          Some (Some (n, tokens, buf))
        }
      })"

text \<open>The string of a token.\<close>

definition token_string :: "byte list \<Rightarrow> nat option \<Rightarrow> byte list option" where
  "token_string buf tok = do { off \<leftarrow> tok; c_string (map Some (drop off buf)) }"

section \<open>safe_strtol\<close>

definition is_digit :: "byte \<Rightarrow> bool" where
  "is_digit c \<longleftrightarrow> 48 \<le> c \<and> c \<le> 57"

fun digits_value :: "int \<Rightarrow> byte list \<Rightarrow> int" where
  "digits_value acc [] = acc"
| "digits_value acc (c # cs) = digits_value (acc * 10 + int (unat c) - 48) cs"

abbreviation LONG_MAX :: int where "LONG_MAX \<equiv> 9223372036854775807"

text \<open>
  \<open>strtol (string, &endptr, 10)\<close>: the value, the rest of the string at \<open>endptr\<close>, and whether
  \<open>errno\<close> is set to \<open>ERANGE\<close>.
\<close>

definition strtol :: "byte list \<Rightarrow> int \<times> byte list \<times> bool" where
  "strtol str =
     (let s = dropWhile isspace str;
          neg = (s \<noteq> [] \<and> hd s = 45);
          s = (if s \<noteq> [] \<and> (hd s = 45 \<or> hd s = 43) then tl s else s);
          ds = takeWhile is_digit s;
          v = (if neg then - digits_value 0 ds else digits_value 0 ds)
      in if ds = [] then (0, str, False)
         else if v > LONG_MAX then (LONG_MAX, dropWhile is_digit s, True)
         else if v < - LONG_MAX - 1 then (- LONG_MAX - 1, dropWhile is_digit s, True)
         else (v, dropWhile is_digit s, False))"

text \<open>The message of an error, if any, and the value; the prefix is not used.\<close>

definition strtol_msg_numeric :: "byte list" where
  "strtol_msg_numeric = ascii ''%s: expected string to be entirely numeric'' @ [10]"

definition strtol_msg_range :: "byte list" where
  "strtol_msg_range = ascii ''%s: underflow or overflow occured while parsing string to number'' @ [10]"

definition safe_strtol :: "byte list \<Rightarrow> byte list + int" where
  "safe_strtol str =
     (let (val, endptr, erange) = strtol str
      in if endptr \<noteq> [] then Inl strtol_msg_numeric
         else if erange then Inl strtol_msg_range
         else Inr val)"

section \<open>Specification\<close>

function split_words :: "byte list \<Rightarrow> byte list list" where
  "split_words [] = []"
| "split_words (c # cs) =
     (if is_delim c then split_words cs
      else (c # takeWhile (\<lambda>c. \<not> is_delim c) cs) # split_words (dropWhile (\<lambda>c. \<not> is_delim c) cs))"
  by pat_completeness auto
termination
  by (relation "measure length") (auto simp: less_Suc_eq_le length_dropWhile_le)

section \<open>Proofs\<close>

lemma drop_ConsD:
  assumes "drop i xs = y # ys"
  shows "i < length xs" "xs ! i = y" "drop (Suc i) xs = ys"
proof -
  show "i < length xs" using assms by (metis drop_all linorder_not_less list.distinct(1))
  show "xs ! i = y" using assms by (rule nth_via_drop)
  show "drop (Suc i) xs = ys" using assms by (metis drop_Suc list.sel(3) tl_drop)
qed

lemma scan_while_eq:
  "drop i buf = xs @ y # ys \<Longrightarrow> \<forall>x\<in>set xs. P x \<Longrightarrow> \<not> P y \<Longrightarrow>
    scan_while P buf i = Some (i + length xs) \<and> buf ! (i + length xs) = y"
proof (induction xs arbitrary: i)
  case Nil
  then show ?case using drop_ConsD [of i buf y ys] by (subst scan_while.simps) simp
next
  case (Cons x xs)
  note d = drop_ConsD [of i buf x "xs @ y # ys"]
  show ?case using Cons.IH [of "Suc i"] Cons.prems d by (subst scan_while.simps) simp
qed

lemma split_words_skip: "split_words (dropWhile is_delim s) = split_words s"
  by (induction s) auto

lemma split_words_next:
  assumes "\<forall>c\<in>set sp. is_delim c" "w \<noteq> []" "\<forall>c\<in>set w. \<not> is_delim c" "r = [] \<or> is_delim (hd r)"
  shows "split_words (sp @ w @ r) = w # split_words (tl r)"
proof -
  have sp: "split_words (sp @ t) = split_words t" for t using assms(1) by (induction sp) auto
  obtain c u where cu: "w = c # u" using assms(2) by (cases w) auto
  have "takeWhile (\<lambda>c. \<not> is_delim c) (u @ r) = u @ takeWhile (\<lambda>c. \<not> is_delim c) r"
    by (rule takeWhile_append2) (use assms(3) cu in auto)
  moreover have "takeWhile (\<lambda>c. \<not> is_delim c) r = []" using assms(4) by (cases r) auto
  moreover have "dropWhile (\<lambda>c. \<not> is_delim c) (u @ r) = dropWhile (\<lambda>c. \<not> is_delim c) r"
    by (rule dropWhile_append2) (use assms(3) cu in auto)
  moreover have "dropWhile (\<lambda>c. \<not> is_delim c) r = r" using assms(4) by (cases r) auto
  moreover have "split_words (tl r) = split_words r" using assms(4) by (cases r) auto
  ultimately show ?thesis using sp cu assms(3) by simp
qed

lemma strtok_none:
  assumes "drop pos buf = s @ [0]" "dropWhile is_delim s = []"
  shows "strtok buf pos = Some (None, buf, pos + length s)" "split_words s = []"
proof -
  have "scan_while is_delim buf pos = Some (pos + length s) \<and> buf ! (pos + length s) = 0"
    using assms by (intro scan_while_eq) (auto simp: is_delim_def)
  then show "strtok buf pos = Some (None, buf, pos + length s)" by (simp add: strtok_def)
  show "split_words s = []" using split_words_skip [of s] assms(2) by simp
qed

lemma strtok_some:
  assumes d: "drop pos buf = sp @ w @ r @ [0]" and sp: "\<forall>c\<in>set sp. is_delim c"
    and w: "w \<noteq> []" "\<forall>c\<in>set w. \<not> is_delim c" "0 \<notin> set w" and r: "r = [] \<or> is_delim (hd r)"
  shows "\<exists>i buf' save'. strtok buf pos = Some (Some i, buf', save') \<and>
    drop save' buf' = tl r @ [0] \<and> stored (map Some buf') save' i w \<and>
    (\<forall>off v. stored (map Some buf) pos off v \<longrightarrow> stored (map Some buf') save' off v)"
proof -
  let ?i = "pos + length sp" and ?j = "pos + length sp + length w"
  obtain c u where cu: "w = c # u" using w(1) by (cases w) auto
  have i: "scan_while is_delim buf pos = Some ?i \<and> buf ! ?i = c"
    using d sp w(2) cu by (intro scan_while_eq [of _ _ _ _ "u @ r @ [0]"]) auto
  have "drop ?i buf = drop (length sp) (drop pos buf)" by (simp add: add.commute)
  then have di: "drop ?i buf = w @ r @ [0]" using d by simp
  have j: "scan_while (\<lambda>c. c \<noteq> 0 \<and> \<not> is_delim c) buf ?i = Some ?j \<and> buf ! ?j = hd (r @ [0])"
    using di w r by (intro scan_while_eq [of _ _ _ _ "tl (r @ [0])"]) (cases r; auto)+
  have "drop ?j buf = drop (length w) (drop ?i buf)" by (simp add: add.commute)
  then have dj: "drop ?j buf = r @ [0]" using di by simp
  have lj: "?j < length buf" "pos < ?j" using dj w(1) by (auto dest: sym intro: ccontr)
  have st: "stored (map Some (buf[?j := 0])) ?j ?i w"
    using stored_new [of w ?i "map Some buf"] di lj w(3) by (simp add: map_update drop_map take_map)
  have up: "stored (map Some (buf[?j := 0])) ?j off v" if "stored (map Some buf) pos off v" for off v
    using stored_update [OF that lj(2), of "Some 0"] by (simp add: map_update)
  have c0: "buf ! ?i \<noteq> 0" using i cu w(3) by auto
  show ?thesis
  proof (cases r)
    case Nil
    then have "buf ! ?j = 0" using j by simp
    then have "buf[?j := 0] = buf" by (metis list_update_id)
    then show ?thesis using i j c0 Nil st up dj by (auto simp: strtok_def)
  next
    case (Cons b r')
    then have "buf ! ?j \<noteq> 0" using j r by (auto simp: is_delim_def)
    moreover have "drop (?j + 1) (buf[?j := 0]) = r' @ [0]" using drop_ConsD(3) [of ?j buf b "r' @ [0]"] dj Cons by simp
    moreover have "stored (map Some (buf[?j := 0])) (?j + 1) off v" if "stored (map Some (buf[?j := 0])) ?j off v" for off v
      using stored_mono [OF that] by simp
    ultimately show ?thesis using i j c0 Cons st up by (auto simp: strtok_def)
  qed
qed

text \<open>The first word of a string that has one.\<close>

lemma first_word:
  assumes "dropWhile is_delim s \<noteq> []" "0 \<notin> set s"
  obtains sp w r where "s = sp @ w @ r" "\<forall>c\<in>set sp. is_delim c" "w \<noteq> []" "\<forall>c\<in>set w. \<not> is_delim c"
    "0 \<notin> set w" "0 \<notin> set (tl r)" "r = [] \<or> is_delim (hd r)"
proof
  let ?t = "dropWhile is_delim s"
  let ?w = "takeWhile (\<lambda>c. \<not> is_delim c) ?t" and ?r = "dropWhile (\<lambda>c. \<not> is_delim c) ?t"
  show s: "s = takeWhile is_delim s @ ?w @ ?r" by simp
  show "\<forall>c\<in>set (takeWhile is_delim s). is_delim c" "\<forall>c\<in>set ?w. \<not> is_delim c" by (auto dest: set_takeWhileD)
  show "?w \<noteq> []" using assms(1) hd_dropWhile [OF assms(1)] by (cases ?t) auto
  have "set ?w \<subseteq> set s" "set (tl ?r) \<subseteq> set s"
    by (metis s set_append sup.coboundedI2 sup_ge1, metis s set_append sup.coboundedI2 sup_ge2 list.set_sel(2) subsetI tl_Nil)
  then show "0 \<notin> set ?w" "0 \<notin> set (tl ?r)" using assms(2) by auto
  show "?r = [] \<or> is_delim (hd ?r)" using hd_dropWhile [of "\<lambda>c. \<not> is_delim c" ?t] by auto
qed

lemma count_tokens_eq:
  "drop pos buf = s @ [0] \<Longrightarrow> 0 \<notin> set s \<Longrightarrow> count_tokens buf pos n = Some (n + length (split_words s))"
proof (induction "length s" arbitrary: s buf pos n rule: less_induct)
  case less
  show ?case
  proof (cases "dropWhile is_delim s = []")
    case True
    then show ?thesis using strtok_none [OF less.prems(1) True] by (subst count_tokens.simps) simp
  next
    case False
    obtain sp w r where s: "s = sp @ w @ r" "\<forall>c\<in>set sp. is_delim c" "w \<noteq> []" "\<forall>c\<in>set w. \<not> is_delim c"
      "0 \<notin> set w" "0 \<notin> set (tl r)" "r = [] \<or> is_delim (hd r)"
      using first_word [OF False less.prems(2)] by blast
    have d: "drop pos buf = sp @ w @ r @ [0]" using less.prems(1) s(1) by simp
    obtain i buf' save' where k: "strtok buf pos = Some (Some i, buf', save')" "drop save' buf' = tl r @ [0]"
      using strtok_some [OF d s(2-5,7)] by blast
    have "length (tl r) < length s" using s(1,3) by (cases w) auto
    from less.hyps [OF this k(2) s(6), of "n + 1"] show ?thesis
      using k(1) split_words_next [OF s(2-4,7)] s(1) by (subst count_tokens.simps) simp
  qed
qed

lemma store_tokens_eq:
  assumes "drop pos buf = s @ [0]" "0 \<notin> set s" "list_all2 (stored (map Some buf) pos) offs ws"
  shows "\<exists>tok buf1 save1 offs' buf'. strtok buf pos = Some (tok, buf1, save1) \<and>
    store_tokens tok buf1 save1 (length offs) (length offs + length (split_words s))
      (map Some offs @ replicate (length (split_words s)) None) = Some (map Some offs', buf') \<and>
    list_all2 (\<lambda>off w. c_string (map Some (drop off buf')) = Some w) offs' (ws @ split_words s)"
  using assms
proof (induction "length s" arbitrary: s buf pos offs ws rule: less_induct)
  case less
  show ?case
  proof (cases "dropWhile is_delim s = []")
    case True
    have "list_all2 (\<lambda>off w. c_string (map Some (drop off buf)) = Some w) offs ws"
      using less.prems(3) by (rule list_all2_mono) (simp add: stored_def drop_map)
    then show ?thesis
      using strtok_none [OF less.prems(1) True] by (subst store_tokens.simps) auto
  next
    case False
    obtain sp w r where s: "s = sp @ w @ r" "\<forall>c\<in>set sp. is_delim c" "w \<noteq> []" "\<forall>c\<in>set w. \<not> is_delim c"
      "0 \<notin> set w" "0 \<notin> set (tl r)" "r = [] \<or> is_delim (hd r)"
      using first_word [OF False less.prems(2)] by blast
    have d: "drop pos buf = sp @ w @ r @ [0]" using less.prems(1) s(1) by simp
    obtain i buf' save' where k: "strtok buf pos = Some (Some i, buf', save')" "drop save' buf' = tl r @ [0]"
      "stored (map Some buf') save' i w" "\<And>off v. stored (map Some buf) pos off v \<Longrightarrow> stored (map Some buf') save' off v"
      using strtok_some [OF d s(2-5,7)] by blast
    have sw: "split_words s = w # split_words (tl r)" using split_words_next [OF s(2-4,7)] s(1) by simp
    have "length (tl r) < length s" using s(1,3) by (cases w) auto
    moreover have "list_all2 (stored (map Some buf') save') (offs @ [i]) (ws @ [w])"
      using list_all2_mono [OF less.prems(3) k(4)] k(3) by (simp add: list_all2_appendI)
    ultimately obtain tok buf1 save1 offs' buf2 where "strtok buf' save' = Some (tok, buf1, save1)"
      "store_tokens tok buf1 save1 (length (offs @ [i])) (length (offs @ [i]) + length (split_words (tl r)))
        (map Some (offs @ [i]) @ replicate (length (split_words (tl r))) None) = Some (map Some offs', buf2)"
      "list_all2 (\<lambda>off w. c_string (map Some (drop off buf2)) = Some w) offs' ((ws @ [w]) @ split_words (tl r))"
      using less.hyps [OF _ k(2) s(6)] by blast
    then show ?thesis
      using k(1) sw by (subst store_tokens.simps) (auto simp: set_at_def list_update_append)
  qed
qed

text \<open>
  C40: \<open>whitespace_tokenize\<close> terminates, never leaves its buffers and returns exactly the words of
  the line: the maximal runs of bytes that are not blanks, in order, each as a string of the buffer.
\<close>

theorem whitespace_tokenize_correct:
  assumes "0 \<notin> set str"
  shows "\<exists>tokens buf. whitespace_tokenize True True str = Some (Some (length (split_words str), tokens, buf)) \<and>
    map (token_string buf) tokens = map Some (split_words str)"
proof -
  have d: "drop 0 (str @ [0]) = str @ [0]" by simp
  obtain tok buf1 save1 offs buf where k: "strtok (str @ [0]) 0 = Some (tok, buf1, save1)"
    "store_tokens tok buf1 save1 0 (length (split_words str)) (replicate (length (split_words str)) None) =
      Some (map Some offs, buf)"
    "list_all2 (\<lambda>off w. c_string (map Some (drop off buf)) = Some w) offs (split_words str)"
    using store_tokens_eq [OF d assms, of "[]" "[]"] by auto
  have "map (token_string buf) (map Some offs) = map Some (split_words str)"
    using k(3) by (induction rule: list_all2_induct) (auto simp: token_string_def)
  then show ?thesis
    using count_tokens_eq [OF d assms, of 0] k(1,2) by (auto simp: whitespace_tokenize_def)
qed

theorem whitespace_tokenize_correct_witness:
  "\<exists>tokens buf. whitespace_tokenize True True (ascii '' rm  f'' @ [10]) = Some (Some (2, tokens, buf)) \<and>
     map (token_string buf) tokens = [Some (ascii ''rm''), Some (ascii ''f'')]"
proof -
  have "0 \<notin> set (ascii '' rm  f'' @ [10])" by (simp add: ascii_def)
  moreover have "split_words (ascii '' rm  f'' @ [10]) = [ascii ''rm'', ascii ''f'']"
    by (simp add: ascii_def is_delim_def)
  ultimately show ?thesis
    using whitespace_tokenize_correct [of "ascii '' rm  f'' @ [10]"] by (simp add: numeral_2_eq_2)
qed

end
