(* ===== verification/Pennfat_Shell.thy ===== *)
theory Pennfat_Shell
  imports Fat_Ops Tokenizer
begin

text \<open>
  The stand-alone file system shell (\<open>main\<close> of \<^verbatim>\<open>src/src/pennfat/pennfat.c\<close>): one definition per
  command and \<open>pennfat_line\<close> for a round of the loop.

  The environment \<open>pf_env\<close> gives the results of the host calls: the host of the file system
  operations, the host of \<open>mkfs\<close> and, by file name, of \<open>mount\<close>; for \<open>cp -h\<close> the chunks that
  successive reads of a host file return, whether a host file can be created and how many bytes
  each write to it takes, which may be fewer than it was given; and the results of successive reads from the terminal. The host files that the
  commands create are the field \<open>host_files\<close> of the state.
\<close>

section \<open>State and output\<close>

record pf_env =
  pe_host :: host
  pe_mkfs :: mkfs_host
  pe_mount :: "byte list \<Rightarrow> mount_host"
  pe_munmap :: bool
  pe_close :: bool
  pe_open_read :: "byte list \<Rightarrow> byte list list option"
  pe_create :: "byte list \<Rightarrow> bool"
  pe_write :: "nat \<Rightarrow> nat \<Rightarrow> nat option"
  pe_stdin :: "byte list option list"
  pe_time :: "nat \<Rightarrow> byte list"

record pennfat =
  pf_fs :: fatfs
  host_files :: "(byte list \<times> byte list) list"

definition lift_fs :: "(fatfs \<Rightarrow> ('a \<times> fatfs) option) \<Rightarrow> pennfat \<Rightarrow> ('a \<times> pennfat) option" where
  "lift_fs f s = do { (r, fs) \<leftarrow> f (pf_fs s); Some (r, s\<lparr>pf_fs := fs\<rparr>) }"

text \<open>A message on the standard error, as it is or formatted; the result is not checked.\<close>

definition emit :: "pf_env \<Rightarrow> byte list \<Rightarrow> pennfat \<Rightarrow> pennfat option" where
  "emit env msg s = map_option snd (lift_fs (k_write (pe_host env) 2 msg (int (length msg))) s)"

definition emitf :: "pf_env \<Rightarrow> byte list \<Rightarrow> pennfat \<Rightarrow> pennfat option" where
  "emitf env msg s = map_option snd (lift_fs (k_fprintf_short (pe_host env) 2 (Some msg)) s)"

definition code_msg :: "string \<Rightarrow> int \<Rightarrow> byte list" where
  "code_msg txt code = ascii txt @ decimal code @ [10]"

definition close_fd :: "pf_env \<Rightarrow> int \<Rightarrow> pennfat \<Rightarrow> pennfat option" where
  "close_fd env fd s = map_option snd (lift_fs (k_close (pe_host env) fd) s)"

section \<open>mkfs, mount and umount\<close>

definition cmd_mkfs :: "pf_env \<Rightarrow> byte list list \<Rightarrow> pennfat \<Rightarrow> pennfat option" where
  "cmd_mkfs env tokens s =
     (if length tokens \<noteq> 4 then emit env (ascii ''mkfs got an incorrect number of arguments'' @ [10]) s
      else case safe_strtol (tokens ! 2) of
        Inl msg \<Rightarrow> emit env msg s
      | Inr n_blocks \<Rightarrow>
          if n_blocks < 1 \<or> n_blocks > 32
          then emit env (ascii ''mkfs BLOCKS_IN_FAT arg: must be between 1 and 32 inclusive'' @ [10]) s
          else case safe_strtol (tokens ! 3) of
            Inl msg \<Rightarrow> emit env msg s
          | Inr config \<Rightarrow>
              if config < 0 \<or> config > 4
              then emit env (ascii ''mkfs BLOCK_SIZE_CONFIG arg: must be between 0 and 4 inclusive'' @ [10]) s
              else let (err, img) = mkfs (pe_mkfs env) (nat n_blocks) (nat config);
                       s = (case img of None \<Rightarrow> s
                            | Some bytes \<Rightarrow> s\<lparr>host_files := host_files s @ [(tokens ! 1, bytes)]\<rparr>)
                   in if err \<noteq> 0 then emitf env (code_msg ''Failed to mkfs with error code '' err) s
                      else Some s)"

definition cmd_mount :: "pf_env \<Rightarrow> byte list list \<Rightarrow> pennfat \<Rightarrow> pennfat option" where
  "cmd_mount env tokens s =
     (if length tokens \<noteq> 2 then emit env (ascii ''mount got wrong number of arguments'' @ [10]) s
      else do {
        (err, s) \<leftarrow> lift_fs (mount (pe_mount env (tokens ! 1))) s;
        if err \<noteq> 0 then emitf env (code_msg ''Failed to mount with error code '' err) s else Some s
      })"

definition not_mounted :: "pf_env \<Rightarrow> string \<Rightarrow> pennfat \<Rightarrow> pennfat option" where
  "not_mounted env cmd s = emit env (ascii cmd @ ascii '': there is no filesystem mounted'' @ [10]) s"

definition cmd_unmount :: "pf_env \<Rightarrow> byte list list \<Rightarrow> pennfat \<Rightarrow> pennfat option" where
  "cmd_unmount env tokens s =
     (if length tokens \<noteq> 1
      then emit env (ascii ''unmount got wrong number of arguments (expected no arguments)'' @ [10]) s
      else if \<not> is_mounted (pf_fs s) then not_mounted env ''unmount'' s
      else do {
        (err, s) \<leftarrow> lift_fs (unmount (pe_host env) (pe_munmap env) (pe_close env)) s;
        if err \<noteq> 0 then emitf env (code_msg ''Failed to unmount with error code '' err) s else Some s
      })"

section \<open>touch, mv and rm\<close>

fun touch_files :: "pf_env \<Rightarrow> byte list list \<Rightarrow> pennfat \<Rightarrow> pennfat option" where
  "touch_files env [] s = Some s"
| "touch_files env (f # fnames) s = do {
     (fd, s) \<leftarrow> lift_fs (k_open (pe_host env) f F_APPEND) s;
     if fd < 0 then emitf env (code_msg ''touch: failed to open file with error code '' fd) s
     else do {
       (n, s) \<leftarrow> lift_fs (k_write (pe_host env) fd [] 0) s;
       if n < 0 then emitf env (code_msg ''touch: failed to write to file with error code '' fd) s
       else do { s \<leftarrow> close_fd env fd s; touch_files env fnames s }
     }
   }"

definition cmd_touch :: "pf_env \<Rightarrow> byte list list \<Rightarrow> pennfat \<Rightarrow> pennfat option" where
  "cmd_touch env tokens s =
     (if length tokens < 2
      then emit env (ascii ''touch got wrong number of arguments (expected at least 1 argument)'' @ [10]) s
      else if \<not> is_mounted (pf_fs s) then not_mounted env ''touch'' s
      else touch_files env (tl tokens) s)"

definition cmd_mv :: "pf_env \<Rightarrow> byte list list \<Rightarrow> pennfat \<Rightarrow> pennfat option" where
  "cmd_mv env tokens s =
     (if length tokens \<noteq> 3 then emit env (ascii ''mv got wrong number of arguments'' @ [10]) s
      else if \<not> is_mounted (pf_fs s) then not_mounted env ''mv'' s
      else do {
        (status, s) \<leftarrow> lift_fs (k_mv (pe_host env) (tokens ! 1) (tokens ! 2)) s;
        if status \<noteq> 0 then emitf env (code_msg ''mv: failed with error code '' status) s else Some s
      })"

definition cmd_rm :: "pf_env \<Rightarrow> byte list list \<Rightarrow> pennfat \<Rightarrow> pennfat option" where
  "cmd_rm env tokens s =
     (if length tokens \<noteq> 2 then emit env (ascii ''rm got wrong number of arguments'' @ [10]) s
      else if \<not> is_mounted (pf_fs s) then not_mounted env ''rm'' s
      else do {
        (status, s) \<leftarrow> lift_fs (k_unlink (pe_host env) (tokens ! 1)) s;
        if status < 0
        then emitf env (code_msg ''rm: Error - failed to remove file with error code '' status) s
        else Some s
      })"

section \<open>cat\<close>

text \<open>
  The scan for the flags \<open>-w\<close> and \<open>-a\<close>: the flags and the last output file named. Of the tokens
  after the command, a flag takes the next token with it; the last token is never a flag.
\<close>

fun cat_flags :: "byte list list \<Rightarrow> bool \<times> bool \<times> byte list option \<Rightarrow> bool \<times> bool \<times> byte list option" where
  "cat_flags (t # f # ts) (w, a, out) =
     (if t = ascii ''-w'' then cat_flags ts (True, a, Some f)
      else if t = ascii ''-a'' then cat_flags ts (w, True, Some f)
      else cat_flags (f # ts) (w, a, out))"
| "cat_flags ts st = st"

text \<open>
  From the terminal to a file, line by line: each element of \<open>inp\<close> is what one read returns. The
  list ends where the modelled input does; then nothing is available and the read returns 0.
\<close>

definition with_stdin :: "pf_env \<Rightarrow> byte list option \<Rightarrow> host" where
  "with_stdin env r = (pe_host env)\<lparr>h_terminal_in := (\<lambda>_. r)\<rparr>"

fun cat_terminal :: "pf_env \<Rightarrow> int \<Rightarrow> byte list option list \<Rightarrow> pennfat \<Rightarrow> pennfat option" where
  "cat_terminal env fd inp s = do {
     ((bytes_read, buffer), s) \<leftarrow>
       lift_fs (k_read (with_stdin env (case inp of [] \<Rightarrow> Some [] | r # _ \<Rightarrow> r)) 0 1024) s;
     if bytes_read > 0 then do {
       (n, s) \<leftarrow> lift_fs (k_write (pe_host env) fd buffer bytes_read) s;
       if n < 0 then do {
         s \<leftarrow> emitf env (ascii ''cat: Error - failed to write to file'' @ [10]) s;
         close_fd env fd s
       }
       else if buffer ! nat (bytes_read - 1) = 10 then close_fd env fd s
       else (case inp of [] \<Rightarrow> None | _ # inp \<Rightarrow> cat_terminal env fd inp s)
     }
     else close_fd env fd s
   }"

text \<open>The loop that copies a file to a descriptor: 0 at the end, or the code of a failed write.\<close>

partial_function (option) copy_loop :: "host \<Rightarrow> int \<Rightarrow> int \<Rightarrow> fatfs \<Rightarrow> (int \<times> fatfs) option" where
  "copy_loop h src dst fs = do {
     ((bytes_read, buffer), fs) \<leftarrow> k_read h src 1024 fs;
     if bytes_read > 0 then do {
       (status, fs) \<leftarrow> k_write h dst buffer bytes_read fs;
       if status < 0 then Some (status, fs) else copy_loop h src dst fs
     }
     else Some (0, fs)
   }"

declare copy_loop.simps [code]

definition close_out :: "pf_env \<Rightarrow> int \<Rightarrow> pennfat \<Rightarrow> pennfat option" where
  "close_out env out_fd s = (if out_fd \<ge> 0 then close_fd env out_fd s else Some s)"

definition cat_file :: "pf_env \<Rightarrow> int \<Rightarrow> byte list \<Rightarrow> pennfat \<Rightarrow> (bool \<times> pennfat) option" where
  "cat_file env out_fd fname s = do {
     (in_fd, s) \<leftarrow> lift_fs (k_open (pe_host env) fname F_READ) s;
     if in_fd < 0 then do {
       s \<leftarrow> emitf env (ascii ''cat: Error - failed to open input file '' @ fname @
              ascii '' with error code '' @ decimal in_fd @ [10]) s;
       s \<leftarrow> close_out env out_fd s;
       Some (False, s)
     }
     else do {
       (status, s) \<leftarrow> lift_fs (copy_loop (pe_host env) in_fd (if out_fd \<ge> 0 then out_fd else 1)) s;
       if status < 0 then do {
         s \<leftarrow> emitf env (code_msg ''cat: Error - write failed with error code '' status) s;
         s \<leftarrow> close_fd env in_fd s;
         s \<leftarrow> close_out env out_fd s;
         Some (False, s)
       }
       else do { s \<leftarrow> close_fd env in_fd s; Some (True, s) }
     }
   }"

fun cat_files :: "pf_env \<Rightarrow> int \<Rightarrow> byte list list \<Rightarrow> pennfat \<Rightarrow> pennfat option" where
  "cat_files env out_fd [] s = close_out env out_fd s"
| "cat_files env out_fd (t # ts) s =
     (if (t = ascii ''-w'' \<or> t = ascii ''-a'') \<and> ts \<noteq> [] then cat_files env out_fd (tl ts) s
      else do {
        (go_on, s) \<leftarrow> cat_file env out_fd t s;
        if go_on then cat_files env out_fd ts s else Some s
      })"

definition cmd_cat :: "pf_env \<Rightarrow> byte list list \<Rightarrow> pennfat \<Rightarrow> pennfat option" where
  "cmd_cat env tokens s =
     (if \<not> is_mounted (pf_fs s) then not_mounted env ''cat'' s
      else
        let (write_mode, append_mode, output_file) = cat_flags (tl tokens) (False, False, None) in
        if (write_mode \<or> append_mode) \<and> length tokens = 3 then do {
          out \<leftarrow> output_file;
          (fd, s) \<leftarrow> lift_fs (k_open (pe_host env) out (if write_mode then F_WRITE else F_APPEND)) s;
          if fd < 0
          then emitf env (code_msg ''cat: Error - failed to open output file with error code '' fd) s
          else cat_terminal env fd (pe_stdin env) s
        }
        else if length tokens \<ge> 2 then
          (case output_file of
             None \<Rightarrow> cat_files env (-1) (tl tokens) s
           | Some out \<Rightarrow> do {
               (fd, s) \<leftarrow> lift_fs (k_open (pe_host env) out (if append_mode then F_APPEND else F_WRITE)) s;
               if fd < 0
               then emitf env (code_msg ''cat: Error - failed to open output file with error code '' fd) s
               else cat_files env fd (tl tokens) s
             })
        else emit env (ascii ''cat: invalid arguments'' @ [10]) s)"

section \<open>cp\<close>

text \<open>From a host file whose reads return \<open>chunks\<close>; the result says whether all was written.\<close>

fun copy_in :: "host \<Rightarrow> int \<Rightarrow> byte list list \<Rightarrow> fatfs \<Rightarrow> (int \<times> fatfs) option" where
  "copy_in h fd [] fs = Some (0, fs)"
| "copy_in h fd (part # parts) fs =
     (if part = [] then Some (0, fs)
      else do {
        (status, fs) \<leftarrow> k_write h fd part (int (length part)) fs;
        if status < 0 then Some (status, fs) else copy_in h fd parts fs
      })"

text \<open>
  To a host file: whether no write failed, and the bytes written. The \<open>i\<close>-th write, of \<open>n\<close> bytes,
  has the result \<open>pe_write env i n\<close>, \<^term>\<open>None\<close> for a negative one; a short write is not noticed, and
  the rest of the buffer is dropped.
\<close>

partial_function (option) copy_out ::
  "pf_env \<Rightarrow> int \<Rightarrow> nat \<Rightarrow> byte list \<Rightarrow> fatfs \<Rightarrow> ((bool \<times> byte list) \<times> fatfs) option" where
  "copy_out env fd i bytes fs = do {
     ((bytes_read, buffer), fs) \<leftarrow> k_read (pe_host env) fd 1024 fs;
     if bytes_read > 0 then
       (case pe_write env i (length buffer) of
          None \<Rightarrow> Some ((False, bytes), fs)
        | Some m \<Rightarrow> copy_out env fd (i + 1) (bytes @ take m buffer) fs)
     else Some ((True, bytes), fs)
   }"

declare copy_out.simps [code]

definition cp_from_host :: "pf_env \<Rightarrow> byte list \<Rightarrow> byte list \<Rightarrow> pennfat \<Rightarrow> pennfat option" where
  "cp_from_host env src dst s =
     (case pe_open_read env src of
        None \<Rightarrow> emitf env (ascii ''cp: Error - failed to open host file: '' @ src @ [10]) s
      | Some chunks \<Rightarrow> do {
          (fd, s) \<leftarrow> lift_fs (k_open (pe_host env) dst F_WRITE) s;
          if fd < 0
          then emitf env (code_msg ''cp: Error - failed to create PennFAT file with error code '' fd) s
          else do {
            (status, s) \<leftarrow> lift_fs (copy_in (pe_host env) fd chunks) s;
            s \<leftarrow> (if status < 0
                 then emitf env (code_msg ''cp: Error - failed to write to PennFAT file with error code '' status) s
                 else Some s);
            close_fd env fd s
          }
        })"

definition cp_to_host :: "pf_env \<Rightarrow> byte list \<Rightarrow> byte list \<Rightarrow> pennfat \<Rightarrow> pennfat option" where
  "cp_to_host env src dst s = do {
     (fd, s) \<leftarrow> lift_fs (k_open (pe_host env) src F_READ) s;
     if fd < 0
     then emitf env (code_msg ''cp: Error - failed to open PennFAT file with error code '' fd) s
     else if \<not> pe_create env dst then do {
       s \<leftarrow> emitf env (ascii ''cp: Error - failed to create host file: '' @ dst @ [10]) s;
       close_fd env fd s
     }
     else do {
       ((ok, bytes), s) \<leftarrow> lift_fs (copy_out env fd 0 []) s;
       let s = s\<lparr>host_files := host_files s @ [(dst, bytes)]\<rparr>;
       s \<leftarrow> (if ok then Some s
            else emitf env (ascii ''cp: Error - failed to write to host file'' @ [10]) s);
       close_fd env fd s
     }
   }"

definition cp_within :: "pf_env \<Rightarrow> byte list \<Rightarrow> byte list \<Rightarrow> pennfat \<Rightarrow> pennfat option" where
  "cp_within env src dst s = do {
     (src_fd, s) \<leftarrow> lift_fs (k_open (pe_host env) src F_READ) s;
     if src_fd < 0
     then emitf env (code_msg ''cp: Error - failed to open source file with error code '' src_fd) s
     else do {
       (dest_fd, s) \<leftarrow> lift_fs (k_open (pe_host env) dst F_WRITE) s;
       if dest_fd < 0 then do {
         s \<leftarrow> emitf env (code_msg ''cp: Error - failed to create destination file with error code '' dest_fd) s;
         close_fd env src_fd s
       }
       else do {
         (status, s) \<leftarrow> lift_fs (copy_loop (pe_host env) src_fd dest_fd) s;
         s \<leftarrow> (if status < 0
              then emit env (ascii ''cp: Error - failed to write to destination file'' @ [10]) s
              else Some s);
         s \<leftarrow> close_fd env src_fd s;
         close_fd env dest_fd s
       }
     }
   }"

definition cmd_cp :: "pf_env \<Rightarrow> byte list list \<Rightarrow> pennfat \<Rightarrow> pennfat option" where
  "cmd_cp env tokens s =
     (if \<not> is_mounted (pf_fs s) then not_mounted env ''cp'' s
      else if length tokens = 4 \<and> tokens ! 1 = ascii ''-h'' then cp_from_host env (tokens ! 2) (tokens ! 3) s
      else if length tokens = 4 \<and> tokens ! 2 = ascii ''-h'' then cp_to_host env (tokens ! 1) (tokens ! 3) s
      else if length tokens = 3 then cp_within env (tokens ! 1) (tokens ! 2) s
      else emit env (ascii ''cp: invalid arguments'' @ [10]) s)"

section \<open>chmod and ls\<close>

definition cmd_chmod :: "pf_env \<Rightarrow> byte list list \<Rightarrow> pennfat \<Rightarrow> pennfat option" where
  "cmd_chmod env tokens s =
     (if \<not> is_mounted (pf_fs s) then not_mounted env ''chmod'' s
      else if length tokens \<noteq> 3 then emit env (ascii ''chmod: got wrong number of arguments'' @ [10]) s
      else if length (tokens ! 1) \<noteq> 1 \<or> hd (tokens ! 1) < 48 \<or> hd (tokens ! 1) > 55
      then emit env (ascii ''chmod: invalid permission mode (must be 0-7)'' @ [10]) s
      else do {
        (status, s) \<leftarrow> lift_fs (k_chmod (pe_host env) (tokens ! 2) (unat (hd (tokens ! 1)) - 48) F_CHMOD_SET) s;
        if status \<noteq> 0 then emitf env (code_msg ''chmod: failed with error code '' status) s else Some s
      })"

definition cmd_ls :: "pf_env \<Rightarrow> byte list list \<Rightarrow> pennfat \<Rightarrow> pennfat option" where
  "cmd_ls env tokens s =
     (if \<not> is_mounted (pf_fs s) then not_mounted env ''ls'' s
      else if length tokens = 1 then do {
        (status, s) \<leftarrow> lift_fs (k_ls (pe_host env) (pe_time env) None) s;
        if status < 0 then emitf env (code_msg ''ls: failed with error code '' status) s else Some s
      }
      else if length tokens = 2 then do {
        (status, s) \<leftarrow> lift_fs (k_ls (pe_host env) (pe_time env) (Some (tokens ! 1))) s;
        if status < 0
        then emitf env (ascii ''ls: failed to list file '' @ tokens ! 1 @ ascii '' with error code '' @
               decimal status @ [10]) s
        else Some s
      }
      else emit env (ascii ''ls: got wrong number of arguments'' @ [10]) s)"

section \<open>The main loop\<close>

definition dispatch :: "pf_env \<Rightarrow> byte list list \<Rightarrow> pennfat \<Rightarrow> pennfat option" where
  "dispatch env tokens s =
     (let c = hd tokens in
      if c = ascii ''mkfs'' then cmd_mkfs env tokens s
      else if c = ascii ''mount'' then cmd_mount env tokens s
      else if c = ascii ''umount'' \<or> c = ascii ''unmount'' then cmd_unmount env tokens s
      else if c = ascii ''touch'' then cmd_touch env tokens s
      else if c = ascii ''mv'' then cmd_mv env tokens s
      else if c = ascii ''rm'' then cmd_rm env tokens s
      else if c = ascii ''cat'' then cmd_cat env tokens s
      else if c = ascii ''cp'' then cmd_cp env tokens s
      else if c = ascii ''chmod'' then cmd_chmod env tokens s
      else if c = ascii ''ls'' then cmd_ls env tokens s
      else emit env (ascii ''Unrecognized command'' @ [10]) s)"

text \<open>
  One round: the prompt, a line from the terminal, its tokens and the command. \<^term>\<open>False\<close> in the
  result is the end of the program at the end of the input; a failed read makes the code write
  before the start of the line buffer, so there is no result.
\<close>

definition pennfat_line ::
  "pf_env \<Rightarrow> byte list option \<Rightarrow> bool \<Rightarrow> bool \<Rightarrow> pennfat \<Rightarrow> (bool \<times> pennfat) option" where
  "pennfat_line env input copy_ok array_ok s = do {
     s \<leftarrow> emit env (ascii ''PENNFAT> '') s;
     ((nread, line), s) \<leftarrow> lift_fs (k_read (with_stdin env input) 0 1023) s;
     if nread < 0 then None
     else if nread = 0 then do { s \<leftarrow> emit env [10] s; Some (False, s) }
     else do {
       res \<leftarrow> whitespace_tokenize copy_ok array_ok (takeWhile (\<lambda>b. b \<noteq> 0) line);
       case res of
         None \<Rightarrow> do { s \<leftarrow> emit env (ascii ''Failed to tokenize by whitespace'' @ [10]) s; Some (True, s) }
       | Some (n_tokens, tokens, buf) \<Rightarrow>
           if n_tokens = 0 then Some (True, s)
           else do {
             strings \<leftarrow> those (map (token_string buf) tokens);
             s \<leftarrow> dispatch env strings s;
             Some (True, s)
           }
     }
   }"

end
