(* ===== verification/Fat_Commands.thy ===== *)
theory Fat_Commands
  imports Fat_Session Pennfat_Shell
begin

text \<open>
  The commands of the stand-alone shell on whole files: \<open>cp -h\<close> in and out, \<open>cp\<close>, \<open>mv\<close>, \<open>rm\<close> and
  \<open>touch\<close>, as operations on the map from names to contents. The locale \<open>file_store\<close> states what a
  client relies on; it is interpreted on the commands.
\<close>

section \<open>The copy loops\<close>

lemma take_drop_length: "take n xs @ drop (length (take n xs)) xs = xs"
  by (cases "n \<le> length xs") auto

text \<open>Import: the reads of a host file return its pieces, and an empty read ends the loop.\<close>

lemma copy_in_on:
  assumes "on_file h fs F fd f cap" "F f = Some (perm, d)" "write_perm perm" "at_end fd fs (length d)"
    "length d + length (concat (takeWhile (\<lambda>p. p \<noteq> []) parts)) \<le> cap"
  shows "\<exists>fs'. copy_in h (int fd) parts fs = Some (0, fs') \<and>
    on_file h fs' (F(f \<mapsto> (perm, d @ concat (takeWhile (\<lambda>p. p \<noteq> []) parts)))) fd f cap \<and> others fd f fs fs'"
  using assms
proof (induction parts arbitrary: fs F d)
  case Nil
  then show ?case by (auto simp: others_def fun_upd_idem)
next
  case (Cons p parts)
  show ?case
  proof (cases "p = []")
    case True
    then show ?thesis using Cons.prems by (auto simp: others_def fun_upd_idem)
  next
    case False
    obtain fs1 where w: "k_write h (int fd) p (int (length p)) fs = Some (int (length p), fs1)"
      "on_file h fs1 (F(f \<mapsto> (perm, d @ p))) fd f cap" "others fd f fs fs1" "at_end fd fs1 (length (d @ p))"
      using write_on [OF Cons.prems(1,2,3,4), of p] Cons.prems(5) False by auto
    have "(F(f \<mapsto> (perm, d @ p))) f = Some (perm, d @ p)" by simp
    from Cons.IH [OF w(2) this Cons.prems(3) w(4)] Cons.prems(5) False w(1,3) others_trans
    show ?thesis by (fastforce simp del: fun_upd_apply)
  qed
qed

text \<open>Export.\<close>

lemma copy_out_on:
  assumes "on_file (pe_host env) fs F fd f cap" "F f = Some (perm, d)" "P_READ_ONLY_FILE_PERMISSION \<le> perm" "\<And>k n. pe_write env k n = Some n"
  shows "\<exists>fs'. copy_out env (int fd) i bytes fs = Some ((True, bytes @ drop (fd_offset (global_fd_table fs fd)) d), fs') \<and>
    on_file (pe_host env) fs' F fd f cap \<and> others fd f fs fs'"
  using assms
proof (induction "length d - fd_offset (global_fd_table fs fd)" arbitrary: fs i bytes rule: less_induct)
  case less
  let ?off = "fd_offset (global_fd_table fs fd)"
  let ?p = "take 1024 (drop ?off d)"
  obtain buf where r: "length buf = block_size fs" "k_read (pe_host env) (int fd) 1024 fs =
      Some ((int (length ?p), ?p), after_read fd (?off + length ?p) buf fs)"
    using read_on [OF less.prems(1,2,3), of 1024] by auto
  let ?fs = "after_read fd (?off + length ?p) buf fs"
  note on = on_file_after_read [OF less.prems(1) r(1), of "?off + length ?p"]
  have o: "others fd f fs ?fs" using keeps_same [of fs ?fs] by (simp add: others_def same_on_def)
  show ?case
  proof (cases "?p = []")
    case True
    then show ?thesis using r(2) on o by (subst copy_out.simps) auto
  next
    case False
    then have l: "length d - fd_offset (global_fd_table ?fs fd) < length d - ?off" by auto
    have split: "?p @ drop (?off + length ?p) d = drop ?off d"
      using take_drop_length [of 1024 "drop ?off d"] by (simp add: add.commute)
    from less.hyps [OF l on less.prems(2,3,4), of "i + 1" "bytes @ ?p"]
    obtain fs' where "copy_out env (int fd) (i + 1) (bytes @ ?p) ?fs = Some ((True, bytes @ ?p @ drop (?off + length ?p) d), fs')"
      "on_file (pe_host env) fs' F fd f cap" "others fd f ?fs fs'" by auto
    then show ?thesis
      using r(2) False less.prems(4) split others_trans [OF o] by (subst copy_out.simps) auto
  qed
qed

text \<open>From file to file, through two descriptors.\<close>

lemma copy_loop_on:
  assumes "on_file h fs F sd src c" "on_file h fs F dd dst cap" "sd \<noteq> dd" "src \<noteq> dst"
    "F src = Some (p1, d1)" "P_READ_ONLY_FILE_PERMISSION \<le> p1"
    "F dst = Some (p2, d2)" "write_perm p2" "at_end dd fs (length d2)"
    "length d2 + length (drop (fd_offset (global_fd_table fs sd)) d1) \<le> cap"
  shows "\<exists>fs' G. copy_loop h (int sd) (int dd) fs = Some (0, fs') \<and>
    G = F(dst \<mapsto> (p2, d2 @ drop (fd_offset (global_fd_table fs sd)) d1)) \<and>
    on_file h fs' G sd src 0 \<and> on_file h fs' G dd dst cap \<and>
    (\<forall>i. i \<noteq> sd \<and> i \<noteq> dd \<longrightarrow> global_fd_table fs' i = global_fd_table fs i)"
  using assms
proof (induction "length d1 - fd_offset (global_fd_table fs sd)" arbitrary: fs F d2 c rule: less_induct)
  case less
  let ?off = "fd_offset (global_fd_table fs sd)"
  let ?p = "take 1024 (drop ?off d1)"
  obtain buf where r: "length buf = block_size fs" "k_read h (int sd) 1024 fs =
      Some ((int (length ?p), ?p), after_read sd (?off + length ?p) buf fs)"
    using read_on [OF less.prems(1,5,6), of 1024] by auto
  let ?fs = "after_read sd (?off + length ?p) buf fs"
  note on1 = on_file_after_read [OF less.prems(1) r(1), of "?off + length ?p"]
  have on2: "on_file h ?fs F dd dst cap"
    using on_file_same [OF less.prems(2), of ?fs] less.prems(2,3) after_read_device [OF _ r(1)]
    by (auto simp: on_file_def same_on_def fd_slot_def)
  show ?case
  proof (cases "?p = []")
    case True
    moreover have "F(dst \<mapsto> (p2, d2)) = F" using less.prems(7) by (simp add: fun_upd_idem)
    ultimately show ?thesis
      using r(2) on_file_less [OF on1, of 0] on2 by (subst copy_loop.simps) auto
  next
    case False
    have e: "at_end dd ?fs (length d2)" using less.prems(3,9) by (simp add: at_end_def)
    have room: "length d2 + length ?p \<le> cap" using less.prems(10) by simp
    let ?F = "F(dst \<mapsto> (p2, d2 @ ?p))"
    obtain fs1 where w: "k_write h (int dd) ?p (int (length ?p)) ?fs = Some (int (length ?p), fs1)"
      "on_file h fs1 ?F dd dst cap" "others dd dst ?fs fs1" "at_end dd fs1 (length (d2 @ ?p))"
      using write_on [OF on2 less.prems(7,8) e room] by blast
    have on1': "on_file h fs1 ?F sd src 0"
      by (rule on_file_other [OF on1 w(3) on_file_holds [OF w(2)] less.prems(3,4)])
    have t: "global_fd_table fs1 sd = global_fd_table ?fs sd" using w(3) less.prems(3) by (simp add: others_def)
    have l: "length d1 - fd_offset (global_fd_table fs1 sd) < length d1 - ?off" using False t by auto
    have split: "?p @ drop (?off + length ?p) d1 = drop ?off d1"
      using take_drop_length [of 1024 "drop ?off d1"] by (simp add: add.commute)
    have F: "?F src = Some (p1, d1)" "?F dst = Some (p2, d2 @ ?p)" using less.prems(4,5) by auto
    have room': "length (d2 @ ?p) + length (drop (fd_offset (global_fd_table fs1 sd)) d1) \<le> cap"
      using less.prems(10) t by simp
    obtain fs' where i: "copy_loop h (int sd) (int dd) fs1 = Some (0, fs')"
      "on_file h fs' (?F(dst \<mapsto> (p2, (d2 @ ?p) @ drop (fd_offset (global_fd_table fs1 sd)) d1))) sd src 0"
      "on_file h fs' (?F(dst \<mapsto> (p2, (d2 @ ?p) @ drop (fd_offset (global_fd_table fs1 sd)) d1))) dd dst cap"
      "\<forall>i. i \<noteq> sd \<and> i \<noteq> dd \<longrightarrow> global_fd_table fs' i = global_fd_table fs1 i"
      using less.hyps [OF l on1' w(2) less.prems(3,4) F(1) less.prems(6) F(2) less.prems(8) w(4) room'] by blast
    have G: "?F(dst \<mapsto> (p2, (d2 @ ?p) @ drop (fd_offset (global_fd_table fs1 sd)) d1)) = F(dst \<mapsto> (p2, d2 @ drop ?off d1))"
      using t split by simp
    have "copy_loop h (int sd) (int dd) fs = Some (0, fs')"
      using r(2) w(1) i(1) False by (subst copy_loop.simps) auto
    moreover have "\<forall>i. i \<noteq> sd \<and> i \<noteq> dd \<longrightarrow> global_fd_table fs' i = global_fd_table fs i"
      using i(4) w(3) by (auto simp: others_def)
    ultimately show ?thesis using i(2,3) unfolding G by blast
  qed
qed

section \<open>The shell between two commands\<close>

text \<open>
  No file is open and every file has the permission of a new one, or all permissions; the volume
  holds \<open>F\<close>.
\<close>

definition idle :: "fatfs \<Rightarrow> bool" where
  "idle fs \<longleftrightarrow> (\<forall>i. 3 \<le> i \<and> i < GLOBAL_FD_TABLE_SIZE \<longrightarrow> ref_count (global_fd_table fs i) = 0)"

definition contents :: "(byte list \<rightharpoonup> nat \<times> byte list) \<Rightarrow> byte list \<rightharpoonup> byte list" where
  "contents G n = map_option snd (G n)"

definition rw_perms :: "(byte list \<rightharpoonup> nat \<times> byte list) \<Rightarrow> bool" where
  "rw_perms G \<longleftrightarrow> (\<forall>n perm d. G n = Some (perm, d) \<longrightarrow> perm = 6 \<or> perm = 7)"

definition stores :: "pf_env \<Rightarrow> pennfat \<Rightarrow> (byte list \<rightharpoonup> byte list) \<Rightarrow> bool" where
  "stores env s F \<longleftrightarrow> idle (pf_fs s) \<and> (\<exists>G. holds (pe_host env) (pf_fs s) G \<and> F = contents G \<and> rw_perms G)"

definition room_for :: "nat \<Rightarrow> fatfs \<Rightarrow> bool" where
  "room_for n fs \<longleftrightarrow> free_blocks fs \<noteq> {} \<and> n \<le> (card (free_blocks fs) - 1) * block_size fs"

lemma idleD: "idle fs \<Longrightarrow> unopened f fs" "idle fs \<Longrightarrow> free_fd fs 3" "idle fs \<Longrightarrow> free_fd fs 4"
  by (auto simp: idle_def unopened_def free_fd_def)

lemma idle_closed: "idle fs \<Longrightarrow> others fd f fs fs' \<Longrightarrow> free_fd fs' fd \<Longrightarrow> idle fs'"
  unfolding idle_def others_def free_fd_def by metis

lemma contents_upd: "contents (G(n \<mapsto> (perm, d))) = (contents G)(n \<mapsto> d)" "contents (G(n := None)) = (contents G)(n := None)"
  by (auto simp: contents_def)

lemma rw_perms_upd:
  "rw_perms G \<Longrightarrow> perm = 6 \<or> perm = 7 \<Longrightarrow> rw_perms (G(n \<mapsto> (perm, d)))" "rw_perms G \<Longrightarrow> rw_perms (G(n := None))"
  "rw_perms G \<Longrightarrow> rw_perms (G(n := G m))" "rw_perms G \<Longrightarrow> perm_of G n = 6 \<or> perm_of G n = 7"
  by (auto simp: rw_perms_def perm_of_def split: option.split)

lemma storesI: "idle (pf_fs s) \<Longrightarrow> holds (pe_host env) (pf_fs s) G \<Longrightarrow> rw_perms G \<Longrightarrow> F = contents G \<Longrightarrow> stores env s F"
  by (auto simp: stores_def)

lemma perm_rw: "perm = 6 \<or> perm = 7 \<Longrightarrow> \<not> open_denied perm mode \<and> write_perm perm \<and> P_READ_ONLY_FILE_PERMISSION \<le> perm"
  by (auto simp: open_denied_def write_perm_def)

lemma lift_fs_eq: "f (pf_fs s) = Some (r, fs) \<Longrightarrow> lift_fs f s = Some (r, s\<lparr>pf_fs := fs\<rparr>)"
  by (simp add: lift_fs_def)

text \<open>Import, export and copy.\<close>

lemma cp_from_host_stores:
  assumes st: "stores env s F" and n: "is_valid_filename n" and r: "pe_open_read env src = Some parts"
    and d: "d = concat (takeWhile (\<lambda>p. p \<noteq> []) parts)" and room: "room_for (length d) (pf_fs s)"
  shows "\<exists>s'. cp_from_host env src n s = Some s' \<and> stores env s' (F(n \<mapsto> d)) \<and> host_files s' = host_files s"
proof -
  let ?h = "pe_host env" and ?fs = "pf_fs s" and ?fd = "find_empty_fd (pf_fs s)"
  obtain G where G: "idle ?fs" "holds ?h ?fs G" "F = contents G" "rw_perms G"
    using st by (auto simp: stores_def)
  note perm = rw_perms_upd(4) [OF G(4), of n]
  note pr = perm_rw [OF perm]
  obtain fs1 where o: "k_open ?h n F_WRITE ?fs = Some (int ?fd, fs1)"
    "on_file ?h fs1 (G(n \<mapsto> (perm_of G n, []))) ?fd n ((card (free_blocks ?fs) - 1) * block_size ?fs)"
    "others ?fd n ?fs fs1" "fd_offset (global_fd_table fs1 ?fd) = 0"
    using open_write [OF G(2) n _ idleD(1) [OF G(1)] idleD(2) [OF G(1)]] pr room by (auto simp: room_for_def)
  let ?G = "G(n \<mapsto> (perm_of G n, []))"
  have end1: "at_end ?fd fs1 (length [])" using o(4) by (simp add: at_end_def)
  have g: "?G n = Some (perm_of G n, [])" by simp
  have cap: "length [] + length (concat (takeWhile (\<lambda>p. p \<noteq> []) parts)) \<le> (card (free_blocks ?fs) - 1) * block_size ?fs"
    using room d by (simp add: room_for_def)
  from copy_in_on [OF o(2) g _ end1 cap] pr
  obtain fs2 where c: "copy_in ?h (int ?fd) parts fs1 = Some (0, fs2)"
    "on_file ?h fs2 (?G(n \<mapsto> (perm_of G n, d))) ?fd n ((card (free_blocks ?fs) - 1) * block_size ?fs)" "others ?fd n fs1 fs2"
    unfolding d append_Nil by blast
  note cl = close_on [OF c(2)]
  let ?s = "s\<lparr>pf_fs := closed ?fd fs2\<rparr>"
  have "cp_from_host env src n s = Some ?s"
    using r lift_fs_eq [of "k_open ?h n F_WRITE" s, OF o(1)] lift_fs_eq [of "copy_in ?h (int ?fd) parts" "s\<lparr>pf_fs := fs1\<rparr>"]
      lift_fs_eq [of "k_close ?h (int ?fd)" "s\<lparr>pf_fs := fs2\<rparr>"] c(1) cl(1)
    by (simp add: cp_from_host_def close_fd_def)
  moreover have "idle (closed ?fd fs2)"
    using idle_closed [OF G(1) _ cl(3)] others_trans [OF others_trans [OF o(3) c(3)] cl(4)] by blast
  then have "stores env ?s (F(n \<mapsto> d))"
    using cl(2) rw_perms_upd(1) [OF G(4) perm] G(3)
    by (intro storesI [of ?s env "?G(n \<mapsto> (perm_of G n, d))"]) (simp_all add: contents_upd del: fun_upd_apply)
  ultimately show ?thesis by auto
qed

lemma cp_to_host_stores:
  assumes st: "stores env s F" and n: "F n = Some d" and w: "pe_create env dst" "\<And>k n. pe_write env k n = Some n"
  shows "\<exists>s'. cp_to_host env n dst s = Some s' \<and> stores env s' F \<and> host_files s' = host_files s @ [(dst, d)]"
proof -
  let ?h = "pe_host env" and ?fs = "pf_fs s" and ?fd = "find_empty_fd (pf_fs s)"
  obtain G where G: "idle ?fs" "holds ?h ?fs G" "F = contents G" "rw_perms G"
    using st by (auto simp: stores_def)
  obtain perm where g: "G n = Some (perm, d)" using n G(3) by (auto simp: contents_def)
  have pr: "\<not> open_denied perm F_READ" "P_READ_ONLY_FILE_PERMISSION \<le> perm" using G(4) g perm_rw by (auto simp: rw_perms_def)
  obtain fs1 where o: "k_open ?h n F_READ ?fs = Some (int ?fd, fs1)" "on_file ?h fs1 G ?fd n 0" "others ?fd n ?fs fs1"
    "fd_offset (global_fd_table fs1 ?fd) = 0"
    using open_read [OF G(2) g _ idleD(1) [OF G(1)] idleD(2) [OF G(1)]] pr by blast
  obtain fs2 where c: "copy_out env (int ?fd) 0 [] fs1 = Some ((True, d), fs2)" "on_file ?h fs2 G ?fd n 0" "others ?fd n fs1 fs2"
    using copy_out_on [OF o(2) g _ w(2), of 0 "[]"] pr o(4) by auto
  note cl = close_on [OF c(2)]
  let ?s = "s\<lparr>pf_fs := closed ?fd fs2, host_files := host_files s @ [(dst, d)]\<rparr>"
  have "cp_to_host env n dst s = Some ?s"
    using w(1) lift_fs_eq [of "k_open ?h n F_READ" s, OF o(1)] lift_fs_eq [of "copy_out env (int ?fd) 0 []" "s\<lparr>pf_fs := fs1\<rparr>"]
      lift_fs_eq [of "k_close ?h (int ?fd)" "s\<lparr>pf_fs := fs2, host_files := host_files s @ [(dst, d)]\<rparr>"] c(1) cl(1)
    by (simp add: cp_to_host_def close_fd_def)
  moreover have "idle (closed ?fd fs2)"
    using idle_closed [OF G(1) _ cl(3)] others_trans [OF others_trans [OF o(3) c(3)] cl(4)] by blast
  ultimately show ?thesis using cl(2) G(3,4) by (fastforce intro!: storesI)
qed

lemma cp_within_stores:
  assumes st: "stores env s F" and n: "F src = Some d" and m: "is_valid_filename dst" "dst \<noteq> src"
    and room: "room_for (length d) (pf_fs s)"
  shows "\<exists>s'. cp_within env src dst s = Some s' \<and> stores env s' (F(dst \<mapsto> d)) \<and> host_files s' = host_files s"
proof -
  let ?h = "pe_host env" and ?fs = "pf_fs s" and ?sd = "find_empty_fd (pf_fs s)"
  obtain G where G: "idle ?fs" "holds ?h ?fs G" "F = contents G" "rw_perms G"
    using st by (auto simp: stores_def)
  obtain perm where g: "G src = Some (perm, d)" using n G(3) by (auto simp: contents_def)
  have pr: "P_READ_ONLY_FILE_PERMISSION \<le> perm" "\<not> open_denied perm F_READ" using G(4) g perm_rw by (auto simp: rw_perms_def)
  let ?p = "perm_of G dst"
  have pw: "\<not> open_denied ?p F_WRITE" using perm_rw [OF rw_perms_upd(4) [OF G(4)]] by blast
  let ?G = "G(dst \<mapsto> (?p, []))" and ?H = "G(dst \<mapsto> (?p, d))" and ?cap = "(card (free_blocks ?fs) - 1) * block_size ?fs"
  obtain fs1 dd fs2 where o: "k_open ?h src F_READ ?fs = Some (int ?sd, fs1)" "k_open ?h dst F_WRITE fs1 = Some (int dd, fs2)"
    "?sd \<noteq> dd" "on_file ?h fs2 ?G ?sd src 0" "on_file ?h fs2 ?G dd dst ?cap"
    "fd_offset (global_fd_table fs2 ?sd) = 0" "fd_offset (global_fd_table fs2 dd) = 0"
    "\<forall>i. i \<noteq> ?sd \<and> i \<noteq> dd \<longrightarrow> global_fd_table fs2 i = global_fd_table ?fs i"
    using open_two [OF G(2) g pr(2) idleD(1) [OF G(1)] m pw idleD(1) [OF G(1)] idleD(2,3) [OF G(1)]] room
    unfolding room_for_def by auto
  note perm = rw_perms_upd(4) [OF G(4), of dst]
  have F: "?G src = Some (perm, d)" "?G dst = Some (?p, [])" "at_end dd fs2 (length [])" "write_perm ?p"
    using g m(2) o(7) perm_rw [OF perm] by (auto simp: at_end_def)
  have cap: "length [] + length (drop (fd_offset (global_fd_table fs2 ?sd)) d) \<le> ?cap" using room o(6) by (simp add: room_for_def)
  obtain fs3 where c: "copy_loop ?h (int ?sd) (int dd) fs2 = Some (0, fs3)" "on_file ?h fs3 ?H ?sd src 0" "on_file ?h fs3 ?H dd dst ?cap"
    "\<forall>i. i \<noteq> ?sd \<and> i \<noteq> dd \<longrightarrow> global_fd_table fs3 i = global_fd_table fs2 i"
    using copy_loop_on [OF o(4,5,3) m(2) [symmetric] F(1) pr(1) F(2,4,3) cap] o(6) by (auto simp del: fun_upd_apply)
  note c1 = close_on [OF c(2)]
  have "on_file ?h (closed ?sd fs3) ?H dd dst 0"
    by (rule on_file_other [OF c(3) c1(4) c1(2)]) (use o(3) m(2) in auto)
  note c2 = close_on [OF this]
  let ?s = "s\<lparr>pf_fs := closed dd (closed ?sd fs3)\<rparr>"
  have "cp_within env src dst s = Some ?s"
    using o(1,2) c(1) c1(1) c2(1) by (simp add: cp_within_def close_fd_def lift_fs_def)
  moreover have "idle (closed dd (closed ?sd fs3))"
    using G(1) o(8) c(4) by (auto simp: idle_def closed_table)
  then have "stores env ?s (F(dst \<mapsto> d))"
    using c2(2) rw_perms_upd(1) [OF G(4) perm] G(3)
    by (intro storesI [of ?s env ?H]) (simp_all add: contents_upd del: fun_upd_apply)
  ultimately show ?thesis by auto
qed

text \<open>Removing, renaming and touching.\<close>

lemma idle_table: "global_fd_table fs' = global_fd_table fs \<Longrightarrow> idle fs' = idle fs"
  by (simp add: idle_def)

lemma rm_stores:
  assumes st: "stores env s F" and n: "F n = Some d"
  shows "\<exists>s'. cmd_rm env [c, n] s = Some s' \<and> stores env s' (F(n := None)) \<and> host_files s' = host_files s"
proof -
  let ?h = "pe_host env" and ?fs = "pf_fs s"
  obtain G where G: "idle ?fs" "holds ?h ?fs G" "F = contents G" "rw_perms G"
    using st by (auto simp: stores_def)
  have v: "is_valid_filename n" "G n \<noteq> None" "is_mounted ?fs"
    using n G(2,3) device_okD(2) by (auto simp: contents_def holds_def files_def named_def geometry_ok_def split: if_splits)
  obtain fs' where u: "k_unlink ?h n ?fs = Some (0, fs')" "holds ?h fs' (G(n := None))" "global_fd_table fs' = global_fd_table ?fs"
    using k_unlink_files [OF G(2) v(1) idleD(1) [OF G(1)]] v(2) by auto
  then have "cmd_rm env [c, n] s = Some (s\<lparr>pf_fs := fs'\<rparr>)" using v(3) by (simp add: cmd_rm_def lift_fs_def)
  moreover have "stores env (s\<lparr>pf_fs := fs'\<rparr>) (F(n := None))"
    using u G(1,3) rw_perms_upd(2) [OF G(4)] idle_table [OF u(3)]
    by (intro storesI [of _ env "G(n := None)"]) (simp_all add: contents_upd del: fun_upd_apply)
  ultimately show ?thesis by auto
qed

lemma mv_stores:
  assumes st: "stores env s F" and n: "F src = Some d" "is_valid_filename dst" "dst \<noteq> src"
  shows "\<exists>s'. cmd_mv env [c, src, dst] s = Some s' \<and> stores env s' (F(src := None, dst \<mapsto> d)) \<and> host_files s' = host_files s"
proof -
  let ?h = "pe_host env" and ?fs = "pf_fs s"
  obtain G where G: "idle ?fs" "holds ?h ?fs G" "F = contents G" "rw_perms G"
    using st by (auto simp: stores_def)
  have v: "is_valid_filename src" "G src \<noteq> None" "is_mounted ?fs"
    using n(1) G(2,3) device_okD(2) by (auto simp: contents_def holds_def files_def named_def geometry_ok_def split: if_splits)
  have pr: "\<forall>perm d. G src = Some (perm, d) \<longrightarrow> \<not> open_denied perm F_READ" using G(4) perm_rw by (auto simp: rw_perms_def)
  obtain fs' where u: "k_mv ?h src dst ?fs = Some (0, fs')" "holds ?h fs' (G(src := None, dst := G src))"
    "\<forall>i. ref_count (global_fd_table ?fs i) = 0 \<longrightarrow> ref_count (global_fd_table fs' i) = 0"
    using k_mv_files [OF G(2) v(1) idleD(1) [OF G(1)] n(2) idleD(1) [OF G(1)] idleD(2) [OF G(1)] pr] v(2) n(3) by auto
  have "cmd_mv env [c, src, dst] s = Some (s\<lparr>pf_fs := fs'\<rparr>)" using u(1) v(3) by (simp add: cmd_mv_def lift_fs_def)
  moreover have "idle fs'" using G(1) u(3) by (simp add: idle_def)
  moreover have "F(src := None, dst \<mapsto> d) = contents (G(src := None, dst := G src))"
    using n(1) G(3) by (auto simp: contents_def)
  moreover have "rw_perms (G(src := None, dst := G src))"
    using G(4) by (auto simp: rw_perms_def)
  ultimately show ?thesis using u(2) by (auto intro!: exI [of _ "s\<lparr>pf_fs := fs'\<rparr>"] intro: storesI)
qed

lemma k_write_nothing:
  assumes on: "on_file h fs F fd f cap" and f: "F f = Some (perm, d)" and perm: "write_perm perm"
  shows "k_write h (int fd) [] 0 fs = Some (0, fs)"
proof -
  obtain bs cf x where v: "device_ok (h, fs)" "3 \<le> fd" "fd < GLOBAL_FD_TABLE_SIZE" "ref_count (global_fd_table fs fd) = 1"
    "files fs bs cf = F" "named fs bs f = Some (fd_slot fs fd, x)" "ptr_to_dir_entry (global_fd_table fs fd) = Some x"
    using on unfolding on_file_def by blast
  have "de_perm x = perm" using filesD [of fs bs cf f] f v(5,6) by auto
  then show ?thesis
    using v device_okD(2) [OF v(1)] perm by (auto simp: k_write_def Let_def write_perm_def geometry_ok_def)
qed

lemma touch_stores:
  assumes st: "stores env s F" and n: "is_valid_filename n" and room: "free_blocks (pf_fs s) \<noteq> {}"
  shows "\<exists>s'. cmd_touch env [c, n] s = Some s' \<and> stores env s' (F(n := (case F n of None \<Rightarrow> Some [] | d \<Rightarrow> d))) \<and>
    host_files s' = host_files s"
proof -
  let ?h = "pe_host env" and ?fs = "pf_fs s" and ?fd = "find_empty_fd (pf_fs s)"
  obtain G where G: "idle ?fs" "holds ?h ?fs G" "F = contents G" "rw_perms G"
    using st by (auto simp: stores_def)
  note fr = idleD(1) [OF G(1)] idleD(2) [OF G(1)]
  have m: "is_mounted ?fs" using G(2) device_okD(2) by (auto simp: holds_def geometry_ok_def)
  define H where "H = (case G n of None \<Rightarrow> G(n \<mapsto> (6, [])) | Some _ \<Rightarrow> G)"
  have H: "rw_perms H" "contents H = F(n := (case F n of None \<Rightarrow> Some [] | d \<Rightarrow> d))" "H n \<noteq> None"
    using G(3,4) by (auto simp: H_def contents_def rw_perms_def split: option.splits)
  obtain cap fs1 where o: "k_open ?h n F_APPEND ?fs = Some (int ?fd, fs1)" "on_file ?h fs1 H ?fd n cap" "others ?fd n ?fs fs1"
  proof (cases "G n")
    case None
    then show ?thesis using that open_create [OF G(2) n None fr room, of F_APPEND] by (auto simp: H_def)
  next
    case (Some a)
    then have "\<not> open_denied (fst a) F_APPEND" using G(4) perm_rw by (cases a) (auto simp: rw_perms_def)
    then show ?thesis
      using that open_keep [OF G(2) _ _ fr, of n "fst a" "snd a" F_APPEND] Some by (auto simp: H_def)
  qed
  obtain perm d where h: "H n = Some (perm, d)" "write_perm perm" using H(1,3) perm_rw by (force simp: rw_perms_def)
  note cl = close_on [OF o(2)]
  let ?s = "s\<lparr>pf_fs := closed ?fd fs1\<rparr>"
  have "cmd_touch env [c, n] s = Some ?s"
    using o(1) m k_write_nothing [OF o(2) h] cl(1) by (simp add: cmd_touch_def lift_fs_def close_fd_def)
  moreover have "idle (closed ?fd fs1)" using idle_closed [OF G(1) others_trans [OF o(3) cl(4)] cl(3)] .
  ultimately show ?thesis using cl(2) H(1,2) by (auto intro!: exI [of _ ?s] intro: storesI)
qed

section \<open>Commands as operations on the map\<close>

text \<open>
  The commands that change files, with the tokens of their command lines. \<open>Import n d\<close> is
  \<open>cp -h host n\<close> for a host file with the bytes \<open>d\<close>, which \<open>read\<close> returns in pieces of 1024.
\<close>

datatype file_op =
  Import "byte list" "byte list" | Touch "byte list" | Copy "byte list" "byte list"
| Rename "byte list" "byte list" | Remove "byte list"

function host_reads :: "byte list \<Rightarrow> byte list list" where
  "host_reads d = (if d = [] then [] else take 1024 d # host_reads (drop 1024 d))"
  by pat_completeness auto
termination
  by (relation "measure length") auto

declare host_reads.simps [simp del]

fun run_op :: "pf_env \<Rightarrow> file_op \<Rightarrow> pennfat \<Rightarrow> pennfat option" where
  "run_op env (Import n d) s = dispatch (env\<lparr>pe_open_read := (\<lambda>_. Some (host_reads d))\<rparr>)
     [ascii ''cp'', ascii ''-h'', ascii ''host'', n] s"
| "run_op env (Touch n) s = dispatch env [ascii ''touch'', n] s"
| "run_op env (Copy n m) s = dispatch env [ascii ''cp'', n, m] s"
| "run_op env (Rename n m) s = dispatch env [ascii ''mv'', n, m] s"
| "run_op env (Remove n) s = dispatch env [ascii ''rm'', n] s"

fun effect :: "file_op \<Rightarrow> (byte list \<rightharpoonup> byte list) \<Rightarrow> byte list \<rightharpoonup> byte list" where
  "effect (Import n d) F = F(n \<mapsto> d)"
| "effect (Touch n) F = F(n := (case F n of None \<Rightarrow> Some [] | d \<Rightarrow> d))"
| "effect (Copy n m) F = F(m := F n)"
| "effect (Rename n m) F = F(n := None, m := F n)"
| "effect (Remove n) F = F(n := None)"

fun enabled :: "file_op \<Rightarrow> pennfat \<Rightarrow> (byte list \<rightharpoonup> byte list) \<Rightarrow> bool" where
  "enabled (Import n d) s F \<longleftrightarrow> is_valid_filename n \<and> room_for (length d) (pf_fs s)"
| "enabled (Touch n) s F \<longleftrightarrow> is_valid_filename n \<and> room_for 0 (pf_fs s)"
| "enabled (Copy n m) s F \<longleftrightarrow> is_valid_filename m \<and> m \<noteq> n \<and>
     (case F n of None \<Rightarrow> False | Some d \<Rightarrow> room_for (length d) (pf_fs s))"
| "enabled (Rename n m) s F \<longleftrightarrow> is_valid_filename m \<and> m \<noteq> n \<and> F n \<noteq> None"
| "enabled (Remove n) s F \<longleftrightarrow> F n \<noteq> None"

fun target :: "file_op \<Rightarrow> byte list set" where
  "target (Import n d) = {n}" | "target (Touch n) = {}" | "target (Copy n m) = {m}"
| "target (Rename n m) = {n, m}" | "target (Remove n) = {n}"

lemma host_reads_concat: "concat (takeWhile (\<lambda>p. p \<noteq> []) (host_reads d)) = d"
proof (induction d rule: host_reads.induct)
  case (1 d)
  then show ?case by (subst host_reads.simps) auto
qed

lemma stores_env: "stores (env\<lparr>pe_open_read := r\<rparr>) s F = stores env s F"
  by (simp add: stores_def)

lemma stores_mounted: "stores env s F \<Longrightarrow> is_mounted (pf_fs s)"
  using device_okD(2) by (auto simp: stores_def holds_def geometry_ok_def)

lemma run_op_stores:
  assumes st: "stores env s F" and e: "enabled c s F"
  shows "\<exists>s'. run_op env c s = Some s' \<and> stores env s' (effect c F)"
proof (cases c)
  case (Import n d)
  let ?env = "env\<lparr>pe_open_read := (\<lambda>_. Some (host_reads d))\<rparr>"
  show ?thesis
    using cp_from_host_stores [of ?env s F n _ "host_reads d" d] st e host_reads_concat stores_mounted [OF st]
    unfolding Import by (fastforce simp: stores_env dispatch_def cmd_cp_def ascii_def)
next
  case (Touch n)
  then show ?thesis using touch_stores [OF st, of n] e by (fastforce simp: dispatch_def ascii_def room_for_def)
next
  case (Copy n m)
  then show ?thesis
    using cp_within_stores [OF st, of n _ m] e stores_mounted [OF st]
    by (fastforce simp: dispatch_def cmd_cp_def ascii_def split: option.splits)
next
  case (Rename n m)
  then show ?thesis using mv_stores [OF st, of n _ m] e by (fastforce simp: dispatch_def ascii_def)
next
  case (Remove n)
  then show ?thesis using rm_stores [OF st, of n] e by (fastforce simp: dispatch_def ascii_def)
qed

section \<open>Sequences of commands\<close>

primrec run_all :: "('c \<Rightarrow> 's \<Rightarrow> 's option) \<Rightarrow> 'c list \<Rightarrow> 's \<Rightarrow> 's option" where
  "run_all r [] s = Some s"
| "run_all r (c # cs) s = do { s \<leftarrow> r c s; run_all r cs s }"

primrec enabled_all ::
  "('c \<Rightarrow> 's \<Rightarrow> 's option) \<Rightarrow> ('c \<Rightarrow> 'a \<Rightarrow> 'a) \<Rightarrow> ('c \<Rightarrow> 's \<Rightarrow> 'a \<Rightarrow> bool) \<Rightarrow> 'c list \<Rightarrow> 's \<Rightarrow> 'a \<Rightarrow> bool" where
  "enabled_all r eff en [] s F \<longleftrightarrow> True"
| "enabled_all r eff en (c # cs) s F \<longleftrightarrow>
     en c s F \<and> (case r c s of None \<Rightarrow> True | Some s' \<Rightarrow> enabled_all r eff en cs s' (eff c F))"

text \<open>Commands whose effect on the state is described by an operation on an abstract value.\<close>

locale command_refinement =
  fixes rel :: "'s \<Rightarrow> 'a \<Rightarrow> bool" and run :: "'c \<Rightarrow> 's \<Rightarrow> 's option"
    and eff :: "'c \<Rightarrow> 'a \<Rightarrow> 'a" and en :: "'c \<Rightarrow> 's \<Rightarrow> 'a \<Rightarrow> bool"
  assumes run_ok: "rel s F \<Longrightarrow> en c s F \<Longrightarrow> \<exists>s'. run c s = Some s' \<and> rel s' (eff c F)"
begin

lemma run_all_ok: "rel s F \<Longrightarrow> enabled_all run eff en cs s F \<Longrightarrow>
    \<exists>s'. run_all run cs s = Some s' \<and> rel s' (fold eff cs F)"
proof (induction cs arbitrary: s F)
  case Nil
  then show ?case by simp
next
  case (Cons c cs)
  obtain s1 where "run c s = Some s1" "rel s1 (eff c F)" using run_ok [OF Cons.prems(1)] Cons.prems(2) by auto
  then show ?case using Cons.IH [of s1 "eff c F"] Cons.prems(2) by auto
qed

end

text \<open>
  A store of named values: a command leaves the values of the names it does not target, and a
  stored value can be taken out.
\<close>

locale file_store = command_refinement rel run eff en
  for rel :: "'s \<Rightarrow> ('n \<rightharpoonup> 'd) \<Rightarrow> bool" and run :: "'c \<Rightarrow> 's \<Rightarrow> 's option"
    and eff :: "'c \<Rightarrow> ('n \<rightharpoonup> 'd) \<Rightarrow> ('n \<rightharpoonup> 'd)" and en :: "'c \<Rightarrow> 's \<Rightarrow> ('n \<rightharpoonup> 'd) \<Rightarrow> bool" +
  fixes tgt :: "'c \<Rightarrow> 'n set" and plain :: "'n \<Rightarrow> bool" and get :: "'n \<Rightarrow> 's \<Rightarrow> ('d \<times> 's) option"
  assumes eff_frame: "n \<notin> tgt c \<Longrightarrow> F n = Some d \<Longrightarrow> eff c F n = Some d"
    and get_ok: "rel s F \<Longrightarrow> F n = Some d \<Longrightarrow> plain n \<Longrightarrow> \<exists>s'. get n s = Some (d, s') \<and> rel s' F"
begin

lemma fold_frame: "\<forall>c\<in>set cs. n \<notin> tgt c \<Longrightarrow> F n = Some d \<Longrightarrow> fold eff cs F n = Some d"
  by (induction cs arbitrary: F) (auto simp: eff_frame)

lemma get_after:
  assumes "rel s F" "enabled_all run eff en (c # cs) s F" "eff c F n = Some d" "\<forall>c\<in>set cs. n \<notin> tgt c" "plain n"
  shows "\<exists>s' s''. run_all run (c # cs) s = Some s' \<and> get n s' = Some (d, s'')"
proof -
  obtain s' where s: "run_all run (c # cs) s = Some s'" "rel s' (fold eff (c # cs) F)"
    using run_all_ok [OF assms(1,2)] by blast
  have "fold eff (c # cs) F n = Some d" using fold_frame [OF assms(4), of "eff c F"] assms(3) by simp
  then show ?thesis using s get_ok [OF s(2) _ assms(5)] by blast
qed

end

text \<open>
  Export: \<open>cp n -h host\<close> on a host that creates files and takes every write whole, and the bytes of the new host file.
\<close>

definition export_file :: "pf_env \<Rightarrow> byte list \<Rightarrow> pennfat \<Rightarrow> (byte list \<times> pennfat) option" where
  "export_file env n s = do {
     s \<leftarrow> dispatch (env\<lparr>pe_create := (\<lambda>_. True), pe_write := (\<lambda>_ n. Some n)\<rparr>) [ascii ''cp'', n, ascii ''-h'', ascii ''host''] s;
     Some (snd (last (host_files s)), s)
   }"

lemma export_file_ok:
  assumes st: "stores env s F" and n: "F n = Some d" "n \<noteq> ascii ''-h''"
  shows "\<exists>s'. export_file env n s = Some (d, s') \<and> stores env s' F"
proof -
  let ?env = "env\<lparr>pe_create := (\<lambda>_. True), pe_write := (\<lambda>_ n. Some n)\<rparr>"
  have st': "stores ?env s F" using st by (simp add: stores_def)
  obtain s' where c: "cp_to_host ?env n (ascii ''host'') s = Some s'" "stores ?env s' F"
    "host_files s' = host_files s @ [(ascii ''host'', d)]"
    using cp_to_host_stores [OF st' n(1), of "ascii ''host''"] by auto
  have "dispatch ?env [ascii ''cp'', n, ascii ''-h'', ascii ''host''] s = cp_to_host ?env n (ascii ''host'') s"
    using n(2) stores_mounted [OF st] by (simp add: dispatch_def cmd_cp_def ascii_def)
  then show ?thesis using c by (simp add: export_file_def stores_def)
qed

interpretation vol: file_store "stores env" "run_op env" effect enabled target "\<lambda>n. n \<noteq> ascii ''-h''" "export_file env"
  for env
proof
  show "stores env s F \<Longrightarrow> enabled c s F \<Longrightarrow> \<exists>s'. run_op env c s = Some s' \<and> stores env s' (effect c F)" for s F c
    by (rule run_op_stores)
  show "n \<notin> target c \<Longrightarrow> F n = Some d \<Longrightarrow> effect c F n = Some d" for n c F d
    by (cases c) auto
  show "stores env s F \<Longrightarrow> F n = Some d \<Longrightarrow> n \<noteq> ascii ''-h'' \<Longrightarrow> \<exists>s'. export_file env n s = Some (d, s') \<and> stores env s' F"
    for s F n d by (rule export_file_ok)
qed

section \<open>A fresh image\<close>

lemma zero_dir:
  assumes dev: "device_ok (h, fs)" and ch: "is_chain (fat fs) 1 [1]" and z: "blocks fs 1 = replicate (block_size fs) 0"
  shows "volume fs [1] (\<lambda>_. [])" "files fs [1] (\<lambda>_. []) = Map.empty"
proof -
  note g = device_okD(2) [OF dev]
  note b = entries_per_block_bounds [OF g]
  let ?f = "\<lambda>i. ((1::nat, i), zero_entry)"
  have s: "dir_slots fs [1] = map ?f [0..<entries_per_block fs]"
    using b(3) z by (simp add: block_slots_def dir_entry_at_zeros)
  have "[0..<entries_per_block fs] = 0 # [1..<entries_per_block fs]" using b(1) by (simp add: upt_conv_Cons)
  then have sl: "dir_slots fs [1] = [] @ ((last [1], 0), zero_entry) # map ?f [1..<entries_per_block fs]"
    unfolding s by simp
  have "in_region fs [1]" using geometry_bounds(5) [OF g] by (simp add: in_region_def)
  then have d: "dir_ok fs [1]" "live (dir_slots fs [1]) = []"
    using dir_okI [OF _ ch _ sl] by (simp_all add: names_unique_def)
  have "named fs [1] f = None" for f unfolding named_def dir_find_def d(2) by simp
  then show "volume fs [1] (\<lambda>_. [])" "files fs [1] (\<lambda>_. []) = Map.empty"
    using d(1) by (auto simp: volume_def files_def)
qed

lemma zero_stores:
  assumes "device_ok (pe_host env, pf_fs s)" "is_chain (fat (pf_fs s)) 1 [1]" "idle (pf_fs s)"
    "blocks (pf_fs s) 1 = replicate (block_size (pf_fs s)) 0"
  shows "stores env s Map.empty"
proof (rule storesI [OF assms(3), of env Map.empty])
  show "holds (pe_host env) (pf_fs s) Map.empty" using zero_dir [OF assms(1,2,4)] assms(1) by (auto simp: holds_def)
  show "rw_perms Map.empty" "Map.empty = contents Map.empty" by (auto simp: rw_perms_def contents_def)
qed

section \<open>Properties\<close>

text \<open>
  C29: A fresh image. With every block size but the largest, mounting the image that \<open>mkfs\<close> creates
  establishes the volume invariant with no files: the state in which the shell commands are
  known to act on the map of files. (With the largest block size the last block of the image is
  missing.)
\<close>

theorem fresh_image_stores_nothing:
  assumes "mkfs_host_ok mk" and "1 \<le> b" and "b \<le> 32" and "c < 4"
    and "mkfs mk b c = (code, Some img)" and "mount_ok mh img" and "\<not> is_mounted (pf_fs s)"
    and "idle (pf_fs s)" and "host_ok (pe_host env)"
  shows "\<exists>fs'. mount mh (pf_fs s) = Some (0, fs') \<and> stores env (s\<lparr>pf_fs := fs'\<rparr>) Map.empty"
proof -
  obtain fs' where m: "mount mh (pf_fs s) = Some (0, fs')" "geometry_ok fs'" "is_chain (fat fs') 1 [1]"
    "\<And>i. 1 \<le> i \<and> i \<le> max_block fs' \<Longrightarrow> blocks fs' i = replicate (block_size fs') 0"
    "\<And>i. 3 \<le> i \<Longrightarrow> global_fd_table fs' i = global_fd_table (pf_fs s) i"
    using mounted_image [OF assms(1-3) _ assms(5-7)] assms(4) by auto
  have "blocks_complete fs'" using m(4) by (simp add: blocks_complete_def)
  then have "device_ok (pe_host env, fs')" using m(2) assms(9) by (simp add: device_ok_def)
  moreover have "idle fs'" using assms(8) m(5) by (simp add: idle_def)
  moreover have "blocks fs' 1 = replicate (block_size fs') 0" using m(4) geometry_bounds(5) [OF m(2)] by simp
  ultimately show ?thesis using m(1,3) zero_stores [of env "s\<lparr>pf_fs := fs'\<rparr>"] by auto
qed

text \<open>A shell with a host that accepts every call.\<close>

definition env_example :: pf_env where
  "env_example = \<lparr>pe_host = host_example, pe_mkfs = mkfs_host_example, pe_mount = (\<lambda>_. mount_host_example (empty_image 1 0)),
     pe_munmap = True, pe_close = True, pe_open_read = (\<lambda>_. None), pe_create = (\<lambda>_. True), pe_write = (\<lambda>_ n. Some n),
     pe_stdin = [], pe_time = (\<lambda>_. [])\<rparr>"

definition pennfat_example :: pennfat where
  "pennfat_example = \<lparr>pf_fs = fs_example, host_files = []\<rparr>"

lemma stores_example: "stores env_example pennfat_example Map.empty"
  by (rule zero_stores) (use device_example in \<open>simp_all add: env_example_def pennfat_example_def fs_example_def idle_def empty_fd_entry_def\<close>)

lemma room_for_example: "n \<le> 256 \<Longrightarrow> room_for n (pf_fs pennfat_example)"
proof -
  assume n: "n \<le> 256"
  have "card {2, 3::nat} \<le> card (free_blocks fs_example)"
    by (rule card_mono) (auto simp: free_blocks_def fs_example_def max_block_def)
  moreover have "2 \<in> free_blocks fs_example" by (simp add: free_blocks_def fs_example_def max_block_def)
  ultimately show ?thesis using n by (auto simp: room_for_def pennfat_example_def fs_example_def)
qed

theorem fresh_image_stores_nothing_witness:
  "\<exists>fs'. mount (mount_host_example (empty_image 1 0)) initial_fs = Some (0, fs') \<and>
     stores env_example \<lparr>pf_fs = fs', host_files = []\<rparr> Map.empty"
proof -
  have h: "mkfs_host_ok mkfs_host_example" by (simp add: mkfs_host_ok_def mkfs_host_example_def)
  have img: "mkfs mkfs_host_example 1 0 = (0, Some (empty_image 1 0))" by (rule mkfs_creates [OF h]) simp_all
  have m: "mount_ok (mount_host_example (empty_image 1 0)) (empty_image 1 0)"
    by (simp add: mount_ok_def mount_host_example_def)
  let ?s = "\<lparr>pf_fs = initial_fs, host_files = []\<rparr>"
  have i: "\<not> is_mounted (pf_fs ?s)" "idle (pf_fs ?s)" "host_ok (pe_host env_example)"
    by (simp_all add: is_mounted_def initial_fs_def idle_def empty_fd_entry_def env_example_def host_ok_def host_example_def)
  from fresh_image_stores_nothing [OF h _ _ _ img m i] show ?thesis by simp
qed

text \<open>
  C24: The commands of the stand-alone shell refine a map from names to contents. Every sequence of
  imports, touches, copies, renames and removals whose commands are enabled (their sources exist,
  their names are valid, there is room) runs to its end, and the volume holds exactly what
  the same sequence makes of the map; no descriptor stays open.
\<close>

theorem commands_refine_files:
  assumes "stores env s F" and "enabled_all (run_op env) effect enabled cs s F"
  shows "\<exists>s'. run_all (run_op env) cs s = Some s' \<and> stores env s' (fold effect cs F)"
  by (rule vol.run_all_ok [OF assms])

theorem commands_refine_files_witness:
  "\<exists>s'. run_all (run_op env_example) [Import [97] [104, 105], Rename [97] [98], Remove [98]] pennfat_example = Some s' \<and>
     stores env_example s' Map.empty"
proof -
  let ?cs = "[Import [97] [104, 105], Rename [97] [98], Remove [98]]"
  have "enabled_all (run_op env_example) effect enabled ?cs pennfat_example Map.empty"
    using room_for_example [of "length [104, 105 :: byte]"] source_example_facts(5,6) by (auto split: option.split simp del: run_op.simps)
  moreover have "fold effect ?cs Map.empty = Map.empty" by (auto simp: fun_eq_iff)
  ultimately show ?thesis using commands_refine_files [OF stores_example, of ?cs] by (metis (no_types))
qed

text \<open>
  C25: Import and export. The bytes of a host file that is copied in with \<open>cp -h\<close> are copied out again
  unchanged after any sequence of the five commands \<open>cp -h\<close> (import), \<open>touch\<close>, \<open>cp\<close>, \<open>mv\<close> and \<open>rm\<close>
  in which each is enabled (valid names, existing sources other than the destination, room on the
  volume) and none writes, renames or removes that file. The volume is mounted, its files are readable and writable, and the host takes every write of the
  export whole. The name \<open>-h\<close> is excluded: it is a valid file name that the export command takes
  for its flag.
\<close>

theorem import_export_roundtrip:
  assumes "stores env s F" and "enabled_all (run_op env) effect enabled (Import n d # cs) s F"
    and "\<forall>c\<in>set cs. n \<notin> target c" and "n \<noteq> ascii ''-h''"
  shows "\<exists>s' s''. run_all (run_op env) (Import n d # cs) s = Some s' \<and> export_file env n s' = Some (d, s'')"
  by (rule vol.get_after [OF assms(1,2) _ assms(3,4)]) simp

theorem import_export_roundtrip_witness:
  "\<exists>s' s''. run_all (run_op env_example) [Import [97] [104, 105]] pennfat_example = Some s' \<and>
     export_file env_example [97] s' = Some ([104, 105], s'')"
proof -
  have "enabled_all (run_op env_example) effect enabled [Import [97] [104, 105]] pennfat_example Map.empty"
    using room_for_example [of "length [104, 105 :: byte]"] source_example_facts(5) by (auto split: option.split simp del: run_op.simps)
  then show ?thesis using import_export_roundtrip [OF stores_example, of "[97]" "[104, 105]" "[]"] by (simp add: ascii_def)
qed

end
