(* ===== verification/Doubles.thy ===== *)
theory Doubles
  imports Complex_Main "HOL-Library.Log_Nat"
begin

text \<open>
  The C type \<open>double\<close>, used by the kernel for sleep times. A \<open>double\<close> is the rational number it
  stands for; \<open>double_round\<close> is rounding to nearest, ties to even, with 53 significant bits. Sleep
  times lie between \<open>2\<^sup>-\<^sup>6\<^sup>0\<close> and \<open>2\<^sup>3\<^sup>2\<close> or are zero or negative, so exponent overflow and
  subnormal numbers do not occur. The lemmas bound the rounding error and show how long a
  countdown by \<open>0.1\<close> lasts.
\<close>

section \<open>Definitions\<close>

type_synonym double = rat

definition rat_exponent :: "rat \<Rightarrow> int" where
  "rat_exponent x =
     (let (p, q) = quotient_of x; e = bitlen p - bitlen q
      in if 2 powi e \<le> x then e else e - 1)"

definition round_even :: "rat \<Rightarrow> int" where
  "round_even x =
     (let n = \<lfloor>x\<rfloor>; r = x - of_int n
      in if r < 1 / 2 then n else if r > 1 / 2 then n + 1 else if even n then n else n + 1)"

definition double_round :: "rat \<Rightarrow> double" where
  "double_round x =
     (if x = 0 then 0
      else let u = 2 powi (rat_exponent \<bar>x\<bar> - 52)
           in sgn x * of_int (round_even (\<bar>x\<bar> / u)) * u)"

definition double_minus :: "double \<Rightarrow> double \<Rightarrow> double" where
  "double_minus x y = double_round (x - y)"

text \<open>The constant \<open>0.1\<close> of the source.\<close>

definition double_tenth :: double where
  "double_tenth = double_round (1 / 10)"

text \<open>The value of a counter after \<open>k\<close> subtractions of \<open>0.1\<close>.\<close>

primrec countdown :: "nat \<Rightarrow> double \<Rightarrow> double" where
  "countdown 0 x = x"
| "countdown (Suc k) x = countdown k (double_minus x double_tenth)"

section \<open>The rounding error\<close>

lemma round_even_error: "\<bar>of_int (round_even x) - x\<bar> \<le> 1 / 2"
proof -
  have "of_int \<lfloor>x\<rfloor> \<le> x" "x < of_int \<lfloor>x\<rfloor> + 1" by linarith+
  then show ?thesis unfolding round_even_def Let_def by auto
qed

lemma bitlen_powi:
  assumes "p > 0"
  shows "(2 :: rat) powi (bitlen p - 1) \<le> of_int p" "of_int p < (2 :: rat) powi bitlen p"
proof -
  have b: "2 ^ nat (bitlen p - 1) \<le> p" "p < 2 ^ nat (bitlen p)" using bitlen_bounds [OF assms] by auto
  have pos: "bitlen p > 0" using assms b(2) by (cases "bitlen p > 0") auto
  have "(2 :: rat) powi (bitlen p - 1) = of_int (2 ^ nat (bitlen p - 1))"
    using pos by (simp add: power_int_def)
  also have "\<dots> \<le> of_int p" using b(1) by (simp only: of_int_le_iff)
  finally show "(2 :: rat) powi (bitlen p - 1) \<le> of_int p" .
  have "of_int p < (of_int (2 ^ nat (bitlen p)) :: rat)" using b(2) by (simp only: of_int_less_iff)
  then show "of_int p < (2 :: rat) powi bitlen p" using pos by (simp add: power_int_def)
qed

lemma rat_exponent_le:
  assumes "x > 0"
  shows "2 powi rat_exponent x \<le> x"
proof -
  obtain p q where pq: "quotient_of x = (p, q)" by fastforce
  have q: "q > 0" using quotient_of_denom_pos [OF pq] .
  have x: "x = of_int p / of_int q" using quotient_of_div [OF pq] .
  have p: "p > 0" using assms x q by (simp add: zero_less_divide_iff)
  have "(2 :: rat) powi (bitlen p - bitlen q - 1) = 2 powi (bitlen p - 1) / 2 powi bitlen q"
    by (simp add: power_int_diff)
  also have "\<dots> \<le> of_int p / of_int q"
    using bitlen_powi [OF p] bitlen_powi [OF q] p q by (intro frac_le) auto
  finally have "2 powi (bitlen p - bitlen q - 1) \<le> x" using x by simp
  then show ?thesis by (simp add: rat_exponent_def pq Let_def)
qed

lemma double_round_error: "\<bar>double_round x - x\<bar> \<le> \<bar>x\<bar> / 2 ^ 53"
proof (cases "x = 0")
  case False
  let ?u = "2 powi (rat_exponent \<bar>x\<bar> - 52) :: rat"
  let ?r = "of_int (round_even (\<bar>x\<bar> / ?u)) :: rat"
  have u: "?u > 0" by simp
  have "?r * ?u - \<bar>x\<bar> = (?r - \<bar>x\<bar> / ?u) * ?u" by (simp add: left_diff_distrib)
  then have "\<bar>?r * ?u - \<bar>x\<bar>\<bar> = \<bar>?r - \<bar>x\<bar> / ?u\<bar> * ?u" using u by (simp add: abs_mult)
  also have "\<dots> \<le> 1 / 2 * ?u" using round_even_error u by (intro mult_right_mono) auto
  also have "\<dots> = 2 powi rat_exponent \<bar>x\<bar> / 2 ^ 53" by (simp add: power_int_diff)
  also have "\<dots> \<le> \<bar>x\<bar> / 2 ^ 53" using rat_exponent_le [of "\<bar>x\<bar>"] False by (simp add: divide_right_mono)
  finally have e: "\<bar>?r * ?u - \<bar>x\<bar>\<bar> \<le> \<bar>x\<bar> / 2 ^ 53" .
  have "double_round x - x = sgn x * (?r * ?u - \<bar>x\<bar>)"
    using False by (simp add: double_round_def Let_def algebra_simps sgn_mult_abs) (simp add: sgn_if)
  then have "\<bar>double_round x - x\<bar> = \<bar>?r * ?u - \<bar>x\<bar>\<bar>" using False by (simp add: abs_mult abs_sgn_eq)
  then show ?thesis using e by simp
qed (simp add: double_round_def)

lemma double_tenth_near: "\<bar>double_tenth - 1 / 10\<bar> \<le> 1 / 10 / 2 ^ 53"
  unfolding double_tenth_def using double_round_error [of "1 / 10"] by simp

section \<open>Counting down by a tenth\<close>

lemma double_minus_tenth:
  assumes "0 < x" and "x \<le> 2 ^ 32"
  shows "x - 11 / 100 \<le> double_minus x double_tenth" "double_minus x double_tenth \<le> x - 9 / 100"
proof -
  let ?y = "x - double_tenth"
  have "double_tenth - 1 / 10 \<le> 1 / 10 / 2 ^ 53" "- (double_tenth - 1 / 10) \<le> 1 / 10 / 2 ^ 53"
    using double_tenth_near unfolding abs_le_iff by blast+
  moreover have "(1 :: rat) / 10 / 2 ^ 53 \<le> 1 / 1000" by simp
  ultimately have "double_tenth - 1 / 10 \<le> 1 / 1000" "- (double_tenth - 1 / 10) \<le> 1 / 1000" by linarith+
  then have t: "double_tenth \<le> 101 / 1000" "99 / 1000 \<le> double_tenth" by simp_all
  have "\<bar>?y\<bar> \<le> 2 ^ 32" using assms t by (simp add: abs_le_iff)
  then have "\<bar>?y\<bar> / 2 ^ 53 \<le> 2 ^ 32 / 2 ^ 53" by (rule divide_right_mono) simp
  then have "\<bar>double_minus x double_tenth - ?y\<bar> \<le> 1 / 1000"
    unfolding double_minus_def using double_round_error [of ?y] by simp
  then have "double_minus x double_tenth - ?y \<le> 1 / 1000 \<and> - (double_minus x double_tenth - ?y) \<le> 1 / 1000"
    unfolding abs_le_iff .
  then show "x - 11 / 100 \<le> double_minus x double_tenth" "double_minus x double_tenth \<le> x - 9 / 100"
    using t by simp_all
qed

text \<open>
  The countdown from \<open>x\<close> ends after at least \<open>x / 0.11\<close> and at most \<open>x / 0.09 + 1\<close> steps.
\<close>

lemma countdown_ends:
  assumes "0 < x" and "x \<le> 2 ^ 32" and "x \<le> 9 / 100 * of_nat m"
  shows "\<exists>k\<le>m. countdown k x \<le> 0 \<and> (\<forall>j<k. countdown j x > 0) \<and> x \<le> 11 / 100 * of_nat k"
  using assms
proof (induction m arbitrary: x)
  case 0
  then show ?case by simp
next
  case (Suc m)
  let ?y = "double_minus x double_tenth"
  note b = double_minus_tenth [OF Suc.prems(1,2)]
  show ?case
  proof (cases "?y \<le> 0")
    case True
    then have "countdown 1 x \<le> 0" "\<forall>j<1. countdown j x > 0" "x \<le> 11 / 100 * of_nat 1"
      using Suc.prems b(1) by auto
    then show ?thesis by (intro exI [of _ 1]) auto
  next
    case False
    have "?y \<le> 2 ^ 32" using b(2) Suc.prems(2) by simp
    moreover have "?y \<le> 9 / 100 * of_nat m" using b(2) Suc.prems(3) by (simp add: algebra_simps)
    ultimately obtain k where k: "k \<le> m" "countdown k ?y \<le> 0" "\<forall>j<k. countdown j ?y > 0"
      "?y \<le> 11 / 100 * of_nat k"
      using Suc.IH [of ?y] False by auto
    have "\<forall>j<Suc k. countdown j x > 0"
      using k(3) Suc.prems(1) by (auto simp: less_Suc_eq_0_disj)
    moreover have "x \<le> 11 / 100 * of_nat (Suc k)" using k(4) b(1) by (simp add: algebra_simps)
    ultimately show ?thesis using k(1,2) by (intro exI [of _ "Suc k"]) auto
  qed
qed

end
