(* ===== verification/Linked_List.thy ===== *)
theory Linked_List
  imports Prelude
begin

text \<open>
  The intrusive doubly linked lists of \<^verbatim>\<open>lib/linked_list.h\<close>. Each macro becomes one
  definition over the list header (\<open>head\<close>, \<open>tail\<close>, \<open>ele_dtor\<close>) and the \<open>prev\<close> and \<open>next\<close>
  fields of the elements, which live in a heap of links shared by all lists of one element
  type. The assignments are made in the order of the macro text, so the definitions also say
  what happens on aliased or corrupted lists. The builds define \<open>NDEBUG\<close>, hence the \<open>assert\<close>
  calls of \<open>linked_list_remove\<close> are not part of the operation; \<open>linked_list_remove_asserts\<close>
  states their conditions, and they are proved to hold on a well-formed list.
  The header's destructor is a flag (whether the pointer is non-\<open>NULL\<close>), and the calls made
  through it are recorded in the heap's \<open>destroyed\<close> trace.

  The abstraction \<open>dll\<close> relates a header and a heap to the list of element addresses; the
  locale \<open>queue_ops\<close> states the contract that the scheduler and the job table rely on, and it
  is interpreted on the macros.
\<close>

section \<open>Headers and links\<close>

record llist =
  ll_head :: "addr option"
  ll_tail :: "addr option"
  ele_dtor :: bool

record links =
  l_prev :: "addr \<Rightarrow> addr option"
  l_next :: "addr \<Rightarrow> addr option"
  destroyed :: "addr list"

definition set_prev :: "addr \<Rightarrow> addr option \<Rightarrow> links \<Rightarrow> links" where
  "set_prev a v h = h\<lparr>l_prev := (l_prev h)(a := v)\<rparr>"

definition set_next :: "addr \<Rightarrow> addr option \<Rightarrow> links \<Rightarrow> links" where
  "set_next a v h = h\<lparr>l_next := (l_next h)(a := v)\<rparr>"

section \<open>The macros\<close>

definition linked_list_new :: "bool \<Rightarrow> llist" where
  "linked_list_new dtor = \<lparr>ll_head = None, ll_tail = None, ele_dtor = dtor\<rparr>"

definition linked_list_is_empty :: "llist \<Rightarrow> bool" where
  "linked_list_is_empty self \<longleftrightarrow> ll_head self = None"

definition linked_list_push_head :: "addr \<Rightarrow> llist \<times> links \<Rightarrow> (llist \<times> links) option" where
  "linked_list_push_head ele = (\<lambda>(self, h).
     case ll_head self of
       None \<Rightarrow>
         Some (self\<lparr>ll_head := Some ele, ll_tail := Some ele\<rparr>,
               set_next ele None (set_prev ele None h))
     | Some hp \<Rightarrow>
         Some (self\<lparr>ll_head := Some ele\<rparr>,
               set_prev ele None (set_next ele (Some hp) (set_prev hp (Some ele) h))))"

definition linked_list_push_tail :: "addr \<Rightarrow> llist \<times> links \<Rightarrow> (llist \<times> links) option" where
  "linked_list_push_tail ele = (\<lambda>(self, h).
     case ll_head self of
       None \<Rightarrow>
         Some (self\<lparr>ll_head := Some ele, ll_tail := Some ele\<rparr>,
               set_next ele None (set_prev ele None h))
     | Some hp \<Rightarrow>
         (case ll_tail self of
            None \<Rightarrow> None
          | Some tp \<Rightarrow>
              Some (self\<lparr>ll_tail := Some ele\<rparr>,
                    set_next ele None (set_prev ele (Some tp) (set_next tp (Some ele) h)))))"

definition linked_list_remove :: "addr \<Rightarrow> llist \<times> links \<Rightarrow> llist \<times> links" where
  "linked_list_remove ele = (\<lambda>(self, h).
     let (self, h) = (case l_next h ele of
           Some n \<Rightarrow> (self, set_prev n (l_prev h ele) h)
         | None \<Rightarrow> (self\<lparr>ll_tail := l_prev h ele\<rparr>, h));
         (self, h) = (case l_prev h ele of
           Some p \<Rightarrow> (self, set_next p (l_next h ele) h)
         | None \<Rightarrow> (self\<lparr>ll_head := l_next h ele\<rparr>, h));
         h = set_next ele None (set_prev ele None h)
     in (self, if ele_dtor self then h\<lparr>destroyed := destroyed h @ [ele]\<rparr> else h))"

definition linked_list_remove_asserts :: "addr \<Rightarrow> llist \<times> links \<Rightarrow> bool" where
  "linked_list_remove_asserts ele = (\<lambda>(self, h).
     (case l_next h ele of
        Some n \<Rightarrow> ll_tail self \<noteq> Some ele
      | None \<Rightarrow> ll_tail self = Some ele) \<and>
     (case l_prev h ele of
        Some p \<Rightarrow> ll_head self \<noteq> Some ele
      | None \<Rightarrow> ll_head self = Some ele))"

definition linked_list_pop_head :: "llist \<times> links \<Rightarrow> addr option \<times> llist \<times> links" where
  "linked_list_pop_head = (\<lambda>(self, h).
     case ll_head self of
       None \<Rightarrow> (None, self, h)
     | Some e \<Rightarrow> (Some e, linked_list_remove e (self, h)))"

definition linked_list_pop_tail :: "llist \<times> links \<Rightarrow> addr option \<times> llist \<times> links" where
  "linked_list_pop_tail = (\<lambda>(self, h).
     case ll_tail self of
       None \<Rightarrow> (None, self, h)
     | Some e \<Rightarrow> (Some e, linked_list_remove e (self, h)))"

partial_function (option) clear_loop :: "bool \<Rightarrow> addr option \<Rightarrow> links \<Rightarrow> links option" where
  "clear_loop dtor p h =
     (case p of
        None \<Rightarrow> Some h
      | Some e \<Rightarrow>
          (let n = l_next h e;
               h = set_next e None (set_prev e None h);
               h = (if dtor then h\<lparr>destroyed := destroyed h @ [e]\<rparr> else h)
           in clear_loop dtor n h))"

definition linked_list_clear :: "llist \<times> links \<Rightarrow> (llist \<times> links) option" where
  "linked_list_clear = (\<lambda>(self, h).
     map_option (\<lambda>h. (self\<lparr>ll_head := None, ll_tail := None\<rparr>, h))
       (clear_loop (ele_dtor self) (ll_head self) h))"

partial_function (option) size_loop :: "links \<Rightarrow> addr option \<Rightarrow> nat \<Rightarrow> nat option" where
  "size_loop h p count =
     (case p of
        None \<Rightarrow> Some count
      | Some e \<Rightarrow> size_loop h (l_next h e) (Suc count))"

definition linked_list_size :: "llist \<times> links \<Rightarrow> nat option" where
  "linked_list_size = (\<lambda>(self, h). size_loop h (ll_head self) 0)"

section \<open>The abstraction to lists of addresses\<close>

primrec dseg :: "links \<Rightarrow> addr option \<Rightarrow> addr list \<Rightarrow> addr option \<Rightarrow> bool" where
  "dseg h p [] n \<longleftrightarrow> True"
| "dseg h p (x # xs) n \<longleftrightarrow>
     l_prev h x = p \<and> l_next h x = hd_opt xs n \<and> dseg h (Some x) xs n"

definition dll :: "llist \<times> links \<Rightarrow> addr list \<Rightarrow> bool" where
  "dll = (\<lambda>(self, h) xs.
     distinct xs \<and> ll_head self = hd_opt xs None \<and> ll_tail self = last_opt xs None \<and>
     dseg h None xs None)"

definition same_links :: "addr set \<Rightarrow> links \<Rightarrow> links \<Rightarrow> bool" where
  "same_links A h h' \<longleftrightarrow> (\<forall>a\<in>A. l_prev h' a = l_prev h a \<and> l_next h' a = l_next h a)"

section \<open>Facts on links and segments\<close>

lemma links_set [simp]:
  "l_prev (set_prev a v h) = (l_prev h)(a := v)"
  "l_next (set_prev a v h) = l_next h"
  "l_prev (set_next a v h) = l_prev h"
  "l_next (set_next a v h) = (l_next h)(a := v)"
  "destroyed (set_prev a v h) = destroyed h"
  "destroyed (set_next a v h) = destroyed h"
  by (simp_all add: set_prev_def set_next_def)

lemma same_links_refl [simp]: "same_links A h h"
  by (simp add: same_links_def)

lemma same_links_trans: "same_links A h h' \<Longrightarrow> same_links A h' h'' \<Longrightarrow> same_links A h h''"
  by (simp add: same_links_def)

lemma same_links_mono: "same_links A h h' \<Longrightarrow> B \<subseteq> A \<Longrightarrow> same_links B h h'"
  by (auto simp: same_links_def)

lemma dseg_append [simp]:
  "dseg h p (xs @ ys) n \<longleftrightarrow> dseg h p xs (hd_opt ys n) \<and> dseg h (last_opt xs p) ys n"
  by (induction xs arbitrary: p) auto

lemma dseg_same [heap_simps]: "same_links (set xs) h h' \<Longrightarrow> dseg h' p xs n = dseg h p xs n"
  by (induction xs arbitrary: p) (auto simp: same_links_def)

lemma dseg_cong:
  assumes "\<And>a. a \<in> set xs \<Longrightarrow> l_prev h' a = l_prev h a"
    and "\<And>a. a \<in> set xs \<Longrightarrow> l_next h' a = l_next h a"
  shows "dseg h' p xs n = dseg h p xs n"
  by (rule dseg_same) (simp add: same_links_def assms)

lemma dll_frame:
  "same_links (set xs) h h' \<Longrightarrow> dll (self, h') xs = dll (self, h) xs"
  by (simp add: dll_def dseg_same)

lemma dll_distinct: "dll q xs \<Longrightarrow> distinct xs"
  by (cases q) (simp add: dll_def)

lemma dll_new [simp]: "dll (linked_list_new d, h) []"
  by (simp add: dll_def linked_list_new_def)

section \<open>Every macro refines its list operation\<close>

lemma dll_head: "dll (self, h) xs \<Longrightarrow> ll_head self = hd_opt xs None"
  by (simp add: dll_def)

lemma dll_tail: "dll (self, h) xs \<Longrightarrow> ll_tail self = last_opt xs None"
  by (simp add: dll_def)

lemma push_tail_refines:
  assumes d: "dll (self, h) xs" and e: "e \<notin> set xs"
  shows "\<exists>self' h'. linked_list_push_tail e (self, h) = Some (self', h') \<and>
    dll (self', h') (xs @ [e]) \<and> same_links (- insert e (set xs)) h h' \<and>
    ele_dtor self' = ele_dtor self \<and> destroyed h' = destroyed h"
proof (cases xs rule: rev_cases)
  case Nil
  with d show ?thesis
    by (auto simp: dll_def linked_list_push_tail_def same_links_def)
next
  case (snoc ys t)
  let ?h = "set_next e None (set_prev e (Some t) (set_next t (Some e) h))"
  obtain z where hz: "ll_head self = Some z"
    using dll_head [OF d] snoc by (cases ys) auto
  have tz: "ll_tail self = Some t" using dll_tail [OF d] snoc by simp
  have seg: "dseg h None ys (Some t)" and prevt: "l_prev h t = last_opt ys None"
    and dist: "distinct ys" "t \<notin> set ys"
    using d snoc by (auto simp: dll_def)
  have "dseg ?h None ys (Some t)"
    using seg e snoc dist by (subst dseg_cong [where h = h]) auto
  then have "dll (self\<lparr>ll_tail := Some e\<rparr>, ?h) (xs @ [e])"
    using d e snoc prevt dist by (auto simp: dll_def)
  then show ?thesis
    using hz tz snoc by (simp add: linked_list_push_tail_def same_links_def)
qed

lemma push_head_refines:
  assumes d: "dll (self, h) xs" and e: "e \<notin> set xs"
  shows "\<exists>self' h'. linked_list_push_head e (self, h) = Some (self', h') \<and>
    dll (self', h') (e # xs) \<and> same_links (- insert e (set xs)) h h' \<and>
    ele_dtor self' = ele_dtor self \<and> destroyed h' = destroyed h"
proof (cases xs)
  case Nil
  with d show ?thesis
    by (auto simp: dll_def linked_list_push_head_def same_links_def)
next
  case (Cons t ys)
  let ?h = "set_prev e None (set_next e (Some t) (set_prev t (Some e) h))"
  have seg: "dseg h (Some t) ys None" and nextt: "l_next h t = hd_opt ys None"
    and dist: "distinct ys" "t \<notin> set ys"
    using d Cons by (auto simp: dll_def)
  have "dseg ?h (Some t) ys None"
    using seg e Cons dist by (subst dseg_cong [where h = h]) auto
  then have "dll (self\<lparr>ll_head := Some e\<rparr>, ?h) (e # xs)"
    using d e Cons nextt dist by (auto simp: dll_def)
  then show ?thesis
    using d Cons by (simp add: linked_list_push_head_def same_links_def dll_def)
qed

lemma remove_refines_at:
  assumes d: "dll (self, h) (xs @ e # ys)"
    and r: "linked_list_remove e (self, h) = (self', h')"
  shows "dll (self', h') (xs @ ys)"
    and "same_links (- set (xs @ e # ys)) h h'"
    and "l_prev h' e = None" "l_next h' e = None"
    and "ele_dtor self' = ele_dtor self"
    and "destroyed h' = destroyed h @ (if ele_dtor self then [e] else [])"
proof -
  have segx: "dseg h None xs (Some e)" and segy: "dseg h (Some e) ys None"
    and pe: "l_prev h e = last_opt xs None" and ne: "l_next h e = hd_opt ys None"
    and dist: "distinct (xs @ e # ys)"
    and hd: "ll_head self = hd_opt xs (Some e)" and tl: "ll_tail self = last_opt ys (Some e)"
    using d by (auto simp: dll_def)
  show D: "destroyed h' = destroyed h @ (if ele_dtor self then [e] else [])"
    and "ele_dtor self' = ele_dtor self" "l_prev h' e = None" "l_next h' e = None"
    using r by (auto simp: linked_list_remove_def Let_def split: option.splits if_splits)
  have in_xs: "\<And>p. last_opt xs None = Some p \<Longrightarrow> p \<in> set xs" by (rule last_opt_in)
  have in_ys: "\<And>n. hd_opt ys None = Some n \<Longrightarrow> n \<in> set ys" by (rule hd_opt_in)
  have prevs: "l_prev h' = (case hd_opt ys None of
      Some n \<Rightarrow> (l_prev h)(n := last_opt xs None, e := None) | None \<Rightarrow> (l_prev h)(e := None))"
    using r pe ne dist in_ys
    by (auto simp: linked_list_remove_def Let_def split: option.splits if_splits)
  have nexts: "l_next h' = (case last_opt xs None of
      Some p \<Rightarrow> (l_next h)(p := hd_opt ys None, e := None) | None \<Rightarrow> (l_next h)(e := None))"
    using r pe ne dist in_ys
    by (auto simp: linked_list_remove_def Let_def split: option.splits if_splits)
  show "same_links (- set (xs @ e # ys)) h h'"
    using in_xs in_ys by (auto simp: same_links_def prevs nexts split: option.splits)
  have sx: "dseg h' None xs (hd_opt ys None)"
  proof (cases xs rule: rev_cases)
    case (snoc us p)
    have "dseg h' None us (Some p)"
      using segx snoc dist in_ys
      by (subst dseg_cong [where h = h]) (auto simp: prevs nexts split: option.splits)
    with segx snoc dist in_ys show ?thesis
      by (auto simp: prevs nexts split: option.splits)
  qed simp
  have sy: "dseg h' (last_opt xs None) ys None"
  proof (cases ys)
    case (Cons n vs)
    have "dseg h' (Some n) vs None"
      using segy Cons dist in_xs
      by (subst dseg_cong [where h = h]) (auto simp: prevs nexts split: option.splits)
    with segy Cons dist in_xs show ?thesis
      by (auto simp: prevs nexts split: option.splits)
  qed simp
  have "ll_head self' = (case last_opt xs None of None \<Rightarrow> hd_opt ys None | Some _ \<Rightarrow> ll_head self)"
    using r pe ne dist in_ys
    by (auto simp: linked_list_remove_def Let_def split: option.splits if_splits)
  with hd have hd': "ll_head self' = hd_opt (xs @ ys) None"
    by (cases xs) (auto split: option.splits)
  have "ll_tail self' = (case hd_opt ys None of None \<Rightarrow> last_opt xs None | Some _ \<Rightarrow> ll_tail self)"
    using r pe ne dist in_ys
    by (auto simp: linked_list_remove_def Let_def split: option.splits if_splits)
  with tl have tl': "ll_tail self' = last_opt (xs @ ys) None"
    by (cases ys) (auto split: option.splits)
  show "dll (self', h') (xs @ ys)"
    using sx sy hd' tl' dist by (simp add: dll_def)
qed

lemma remove1_middle: "distinct (xs @ e # ys) \<Longrightarrow> remove1 e (xs @ e # ys) = xs @ ys"
  by (simp add: remove1_append)

lemma remove_refines:
  assumes d: "dll (self, h) xs" and e: "e \<in> set xs"
  shows "\<exists>self' h'. linked_list_remove e (self, h) = (self', h') \<and>
    dll (self', h') (remove1 e xs) \<and> same_links (- set xs) h h'"
proof -
  obtain us vs where xs: "xs = us @ e # vs" using e by (auto simp: in_set_conv_decomp)
  obtain self' h' where r: "linked_list_remove e (self, h) = (self', h')" by fastforce
  have "distinct xs" using d by (rule dll_distinct)
  then have "remove1 e xs = us @ vs" unfolding xs by (rule remove1_middle)
  then show ?thesis using r remove_refines_at [OF d [unfolded xs] r] xs by simp
qed

lemma remove_asserts_hold:
  assumes d: "dll (self, h) xs" and e: "e \<in> set xs"
  shows "linked_list_remove_asserts e (self, h)"
proof -
  obtain us vs where xs: "xs = us @ e # vs" using e by (auto simp: in_set_conv_decomp)
  have "distinct xs" "ll_head self = hd_opt us (Some e)" "ll_tail self = last_opt vs (Some e)"
    "l_prev h e = last_opt us None" "l_next h e = hd_opt vs None"
    using d xs by (auto simp: dll_def)
  then show ?thesis
    using xs by (cases us; cases vs rule: rev_cases)
      (auto simp: linked_list_remove_asserts_def split: option.splits)
qed

lemma pop_head_refines:
  assumes d: "dll (self, h) (e # xs)"
  shows "\<exists>self' h'. linked_list_pop_head (self, h) = (Some e, self', h') \<and>
    dll (self', h') xs \<and> same_links (- set (e # xs)) h h'"
  using remove_refines [OF d, of e] dll_head [OF d]
  by (auto simp: linked_list_pop_head_def)

lemma pop_tail_refines:
  assumes d: "dll (self, h) (xs @ [e])"
  shows "\<exists>self' h'. linked_list_pop_tail (self, h) = (Some e, self', h') \<and>
    dll (self', h') xs \<and> same_links (- set (xs @ [e])) h h'"
  using remove_refines [OF d, of e] dll_tail [OF d] dll_distinct [OF d]
  by (auto simp: linked_list_pop_tail_def remove1_append)

lemma pop_empty:
  "dll (self, h) [] \<Longrightarrow> linked_list_pop_head (self, h) = (None, self, h) \<and>
     linked_list_pop_tail (self, h) = (None, self, h)"
  by (simp add: dll_def linked_list_pop_head_def linked_list_pop_tail_def)

lemma size_loop_simps [simp]:
  "size_loop h None c = Some c"
  "size_loop h (Some e) c = size_loop h (l_next h e) (Suc c)"
  by (subst size_loop.simps, simp)+

lemma size_loop_counts: "dseg h p xs None \<Longrightarrow> size_loop h (hd_opt xs None) c = Some (c + length xs)"
  by (induction xs arbitrary: p c) auto

lemma size_refines: "dll (self, h) xs \<Longrightarrow> linked_list_size (self, h) = Some (length xs)"
  using size_loop_counts [of h None xs 0] by (auto simp: dll_def linked_list_size_def)

lemma clear_loop_clears:
  assumes "dseg h p xs None" and "distinct xs"
  shows "\<exists>h'. clear_loop dtor (hd_opt xs None) h = Some h' \<and>
    (\<forall>a\<in>set xs. l_prev h' a = None \<and> l_next h' a = None) \<and> same_links (- set xs) h h' \<and>
    destroyed h' = destroyed h @ (if dtor then xs else [])"
  using assms
proof (induction xs arbitrary: p h)
  case Nil
  then show ?case by (simp add: clear_loop.simps)
next
  case (Cons x xs)
  let ?g = "set_next x None (set_prev x None h)"
  let ?h = "if dtor then ?g\<lparr>destroyed := destroyed ?g @ [x]\<rparr> else ?g"
  have links: "l_prev ?h = (l_prev h)(x := None)" "l_next ?h = (l_next h)(x := None)" by auto
  have "dseg ?h (Some x) xs None"
    using Cons.prems links by (subst dseg_cong [where h = h]) auto
  then obtain h' where h': "clear_loop dtor (hd_opt xs None) ?h = Some h'"
    and all: "\<forall>a\<in>set xs. l_prev h' a = None \<and> l_next h' a = None"
    and same: "same_links (- set xs) ?h h'"
    and des: "destroyed h' = destroyed ?h @ (if dtor then xs else [])"
    using Cons.IH Cons.prems by fastforce
  have "clear_loop dtor (hd_opt (x # xs) None) h = Some h'"
    using Cons.prems h' by (subst clear_loop.simps) (simp add: Let_def)
  moreover have "\<forall>a\<in>set (x # xs). l_prev h' a = None \<and> l_next h' a = None"
    using all same links Cons.prems by (auto simp: same_links_def)
  moreover have "same_links (- set (x # xs)) h h'"
    using same links by (auto simp: same_links_def)
  ultimately show ?case using des by auto
qed

lemma clear_refines:
  assumes d: "dll (self, h) xs"
  shows "\<exists>self' h'. linked_list_clear (self, h) = Some (self', h') \<and> dll (self', h') [] \<and>
    same_links (- set xs) h h' \<and> destroyed h' = destroyed h @ (if ele_dtor self then xs else [])"
proof -
  have "dseg h None xs None" "distinct xs" "ll_head self = hd_opt xs None"
    using d by (auto simp: dll_def)
  then show ?thesis
    using clear_loop_clears [of h None xs "ele_dtor self"]
    by (auto simp: linked_list_clear_def dll_def)
qed

section \<open>Removal written out by the scheduler\<close>

text \<open>
  The kernel repeats the unlinking by hand where it must not run a destructor
  (\<^verbatim>\<open>scheduler.c\<close>, \<open>k_remove_from_active_queue\<close>, \<open>k_continue_process\<close>, \<open>k_set_priority\<close>):
  first the \<open>prev\<close> side, then the \<open>next\<close> side, then both fields of the element are cleared.
\<close>

definition manual_unlink :: "addr \<Rightarrow> llist \<times> links \<Rightarrow> llist \<times> links" where
  "manual_unlink e = (\<lambda>(self, h).
     let (self, h) = (case l_prev h e of
           Some p \<Rightarrow> (self, set_next p (l_next h e) h)
         | None \<Rightarrow> (self\<lparr>ll_head := l_next h e\<rparr>, h));
         (self, h) = (case l_next h e of
           Some n \<Rightarrow> (self, set_prev n (l_prev h e) h)
         | None \<Rightarrow> (self\<lparr>ll_tail := l_prev h e\<rparr>, h))
     in (self, set_prev e None (set_next e None h)))"

lemma manual_unlink_eq_remove:
  assumes d: "dll (self, h) xs" and e: "e \<in> set xs"
  shows "manual_unlink e (self, h) =
    apsnd (\<lambda>h'. h'\<lparr>destroyed := destroyed h\<rparr>) (linked_list_remove e (self, h))"
proof -
  obtain us vs where xs: "xs = us @ e # vs" using e by (auto simp: in_set_conv_decomp)
  have "distinct xs" "l_prev h e = last_opt us None" "l_next h e = hd_opt vs None"
    using d xs by (auto simp: dll_def)
  moreover have "\<And>p. last_opt us None = Some p \<Longrightarrow> p \<in> set us" by (rule last_opt_in)
  moreover have "\<And>n. hd_opt vs None = Some n \<Longrightarrow> n \<in> set vs" by (rule hd_opt_in)
  ultimately show ?thesis
    unfolding xs manual_unlink_def linked_list_remove_def Let_def set_prev_def set_next_def
    by (cases h) (auto split: option.splits)
qed

lemma manual_unlink_refines:
  assumes d: "dll (self, h) xs" and e: "e \<in> set xs"
  shows "\<exists>self' h'. manual_unlink e (self, h) = (self', h') \<and>
    dll (self', h') (remove1 e xs) \<and> same_links (- set xs) h h'"
proof -
  obtain self' h' where r: "linked_list_remove e (self, h) = (self', h')"
    and d': "dll (self', h') (remove1 e xs)" and s: "same_links (- set xs) h h'"
    using remove_refines [OF d e] by blast
  have "dll (self', h'\<lparr>destroyed := destroyed h\<rparr>) (remove1 e xs)"
    using d' by (subst dll_frame [where h = h']) (auto simp: same_links_def)
  then show ?thesis
    using manual_unlink_eq_remove [OF d e] r s by (simp add: same_links_def)
qed

section \<open>The queue contract\<close>

locale queue_ops =
  fixes push :: "addr \<Rightarrow> 'q \<times> 'h \<Rightarrow> ('q \<times> 'h) option"
    and unlink :: "addr \<Rightarrow> 'q \<times> 'h \<Rightarrow> 'q \<times> 'h"
    and holds :: "'q \<times> 'h \<Rightarrow> addr list \<Rightarrow> bool"
    and same :: "addr set \<Rightarrow> 'h \<Rightarrow> 'h \<Rightarrow> bool"
  assumes push_law: "holds (q, h) xs \<Longrightarrow> e \<notin> set xs \<Longrightarrow>
      \<exists>q' h'. push e (q, h) = Some (q', h') \<and> holds (q', h') (xs @ [e]) \<and>
        same (- insert e (set xs)) h h'"
    and unlink_law: "holds (q, h) xs \<Longrightarrow> e \<in> set xs \<Longrightarrow>
      \<exists>q' h'. unlink e (q, h) = (q', h') \<and> holds (q', h') (remove1 e xs) \<and>
        same (- set xs) h h'"
    and frame_law: "holds (q, h) xs \<Longrightarrow> same (set xs) h h' \<Longrightarrow> holds (q, h') xs"
    and distinct_law: "holds (q, h) xs \<Longrightarrow> distinct xs"
    and same_mono: "same A h h' \<Longrightarrow> B \<subseteq> A \<Longrightarrow> same B h h'"
    and same_trans: "same A h h' \<Longrightarrow> same A h' h'' \<Longrightarrow> same A h h''"
begin

text \<open>Moving an element from one queue to the tail of another leaves every third queue alone.\<close>

lemma move_between:
  assumes q1: "holds (q1, h) xs" and q2: "holds (q2, h) ys"
    and disj: "set xs \<inter> set ys = {}" and e: "e \<in> set xs"
  shows "\<exists>q1' h1 q2' h2. unlink e (q1, h) = (q1', h1) \<and> push e (q2, h1) = Some (q2', h2) \<and>
    holds (q1', h2) (remove1 e xs) \<and> holds (q2', h2) (ys @ [e]) \<and>
    same (- (set xs \<union> set ys)) h h2"
proof -
  obtain q1' h1 where u: "unlink e (q1, h) = (q1', h1)"
    and r1: "holds (q1', h1) (remove1 e xs)" and s1: "same (- set xs) h h1"
    using unlink_law [OF q1 e] by blast
  have "set ys \<subseteq> - set xs" using disj by blast
  then have "holds (q2, h1) ys" using frame_law [OF q2] same_mono [OF s1] by blast
  moreover have "e \<notin> set ys" using disj e by blast
  ultimately obtain q2' h2 where p: "push e (q2, h1) = Some (q2', h2)"
    and r2: "holds (q2', h2) (ys @ [e])" and s2: "same (- insert e (set ys)) h1 h2"
    using push_law by blast
  have "set (remove1 e xs) \<subseteq> - insert e (set ys)"
    using disj distinct_law [OF q1] by auto
  then have "holds (q1', h2) (remove1 e xs)" using frame_law [OF r1] same_mono [OF s2] by blast
  moreover have "same (- (set xs \<union> set ys)) h h2"
    using same_trans [OF same_mono [OF s1] same_mono [OF s2], of "- (set xs \<union> set ys)"] e by auto
  ultimately show ?thesis using u p r2 by blast
qed

text \<open>Taking the head off and putting it back at the tail rotates the queue.\<close>

lemma rotate_queue:
  assumes q: "holds (q, h) (e # xs)"
  shows "\<exists>q1 h1 q2 h2. unlink e (q, h) = (q1, h1) \<and> push e (q1, h1) = Some (q2, h2) \<and>
    holds (q2, h2) (xs @ [e]) \<and> same (- set (e # xs)) h h2"
proof -
  obtain q1 h1 where u: "unlink e (q, h) = (q1, h1)"
    and r1: "holds (q1, h1) xs" and s1: "same (- set (e # xs)) h h1"
    using unlink_law [OF q, of e] by auto
  have "e \<notin> set xs" using distinct_law [OF q] by simp
  then obtain q2 h2 where p: "push e (q1, h1) = Some (q2, h2)"
    and r2: "holds (q2, h2) (xs @ [e])" and s2: "same (- insert e (set xs)) h1 h2"
    using push_law [OF r1] by blast
  have "same (- set (e # xs)) h h2" using same_trans [OF s1] s2 by simp
  then show ?thesis using u p r2 by blast
qed

end

lemma dll_frame_same: "dll (q, h) xs \<Longrightarrow> same_links (set xs) h h' \<Longrightarrow> dll (q, h') xs"
  by (simp add: dll_frame)

lemma push_tail_contract:
  "dll (q, h) xs \<Longrightarrow> e \<notin> set xs \<Longrightarrow>
     \<exists>q' h'. linked_list_push_tail e (q, h) = Some (q', h') \<and> dll (q', h') (xs @ [e]) \<and>
       same_links (- insert e (set xs)) h h'"
  using push_tail_refines by blast

interpretation macro: queue_ops linked_list_push_tail linked_list_remove dll same_links
  by unfold_locales
    (fact push_tail_contract remove_refines dll_frame_same dll_distinct same_links_mono same_links_trans)+

interpretation manual: queue_ops linked_list_push_tail manual_unlink dll same_links
  by unfold_locales
    (fact push_tail_contract manual_unlink_refines dll_frame_same dll_distinct same_links_mono same_links_trans)+

end
