(* ===== verification/Sched_State.thy ===== *)
theory Sched_State
  imports Doubles Linked_List
begin

text \<open>
  The state of the PennOS kernel (\<^verbatim>\<open>src/src/scheduler/scheduler.h\<close> and the globals of
  \<^verbatim>\<open>scheduler.c\<close>), the event log of \<^verbatim>\<open>src/src/scheduler/logger.c\<close>, and the queues of processes
  as the scheduler sees them.

  \<^item> Process control blocks live at addresses; \<open>pcbs\<close> is the heap and \<^term>\<open>None\<close> an address that
    is not allocated. Their \<open>prev\<close> and \<open>next\<close> fields are kept in \<open>plinks\<close>, so the list macros of
    \<open>Linked_List\<close> apply to them; the nodes \<open>child_process_t\<close> of the children lists live in a
    heap of their own (\<open>cprocess\<close>, \<open>clinks\<close>).
  \<^item> \<open>sched_live\<close> says whether the global pointer \<open>scheduler_state\<close> is set; \<open>sched_q\<close> is the
    access to one of its queues and has no value when it is not, or when an index into
    \<open>ready_queues\<close> is out of range.
  \<^item> Log calls append an event; what the file receives for it is \<open>log_line\<close> in \<open>Logger\<close>.
\<close>

section \<open>Process control blocks\<close>

datatype process_state = PROCESS_RUNNING | PROCESS_BLOCKED | PROCESS_STOPPED | PROCESS_ZOMBIED

abbreviation PRIORITY_HIGH :: nat where "PRIORITY_HIGH \<equiv> 0"
abbreviation PRIORITY_MEDIUM :: nat where "PRIORITY_MEDIUM \<equiv> 1"
abbreviation PRIORITY_LOW :: nat where "PRIORITY_LOW \<equiv> 2"

abbreviation PROCESS_FD_TABLE_SIZE :: nat where "PROCESS_FD_TABLE_SIZE \<equiv> 128"

record process_fd_entry =
  pf_global_fd :: nat
  pf_offset :: nat
  pf_mode :: nat
  pf_in_use :: bool

record pcb =
  pid :: int
  ppid :: int
  pgid :: int
  children :: "llist option"
  process_fd_table :: "process_fd_entry list"
  state :: process_state
  waited_child :: int
  ignore_sigint :: bool
  ignore_sigtstp :: bool
  errnumber :: int
  priority :: nat
  sleep_time :: double
  thread :: bool
  command :: "byte list option"
  argv :: "byte list list option"
  exit_status :: int

section \<open>Log events\<close>

datatype log_op = SCHEDULE | CREATE | SIGNALED | EXITED | ZOMBIE | ORPHAN | WAITED | NICE int
  | BLOCKED | UNBLOCKED | SLEEPING | STOPPED | CONTINUED

text \<open>\<open>NICE\<close> carries the old nice value, the fourth field of that line only.\<close>

record log_event =
  ev_quantum :: int
  ev_op :: log_op
  ev_pid :: int
  ev_nice :: int
  ev_name :: "byte list option"

section \<open>The kernel state\<close>

record kernel =
  pcbs :: "addr \<Rightarrow> pcb option"
  plinks :: links
  cprocess :: "addr \<Rightarrow> addr"
  clinks :: links
  sched_live :: bool
  ready_queues :: "nat \<Rightarrow> llist"
  blocked_queue :: llist
  zombie_queue :: llist
  stopped_queue :: llist
  ticks :: nat
  init_process :: "addr option"
  current_process :: "addr option"
  process_count :: nat
  terminal_controlling_pid :: int
  quantum :: int
  extra_logging_enabled :: bool
  shell_spawned :: bool
  logout_issued :: bool
  klog :: "log_event list"

definition upd_pcb :: "addr \<Rightarrow> (pcb \<Rightarrow> pcb) \<Rightarrow> kernel \<Rightarrow> kernel option" where
  "upd_pcb a f s = map_option (\<lambda>p. s\<lparr>pcbs := (pcbs s)(a := Some (f p))\<rparr>) (pcbs s a)"

datatype queue_id = Ready nat | Blocked | Zombie | Stopped

fun get_q :: "queue_id \<Rightarrow> kernel \<Rightarrow> llist" where
  "get_q (Ready i) s = ready_queues s i"
| "get_q Blocked s = blocked_queue s"
| "get_q Zombie s = zombie_queue s"
| "get_q Stopped s = stopped_queue s"

fun set_q :: "queue_id \<Rightarrow> llist \<Rightarrow> kernel \<Rightarrow> kernel" where
  "set_q (Ready i) v s = s\<lparr>ready_queues := (ready_queues s)(i := v)\<rparr>"
| "set_q Blocked v s = s\<lparr>blocked_queue := v\<rparr>"
| "set_q Zombie v s = s\<lparr>zombie_queue := v\<rparr>"
| "set_q Stopped v s = s\<lparr>stopped_queue := v\<rparr>"

fun valid_q :: "queue_id \<Rightarrow> bool" where
  "valid_q (Ready i) \<longleftrightarrow> i < 3"
| "valid_q _ \<longleftrightarrow> True"

definition sched_q :: "queue_id \<Rightarrow> kernel \<Rightarrow> llist option" where
  "sched_q q s = (if sched_live s \<and> valid_q q then Some (get_q q s) else None)"

definition q_push :: "queue_id \<Rightarrow> addr \<Rightarrow> kernel \<Rightarrow> kernel option" where
  "q_push q a s = do {
     self \<leftarrow> sched_q q s;
     (self, h) \<leftarrow> linked_list_push_tail a (self, plinks s);
     Some (set_q q self (s\<lparr>plinks := h\<rparr>))
   }"

definition q_remove :: "queue_id \<Rightarrow> addr \<Rightarrow> kernel \<Rightarrow> kernel option" where
  "q_remove q a s = do {
     self \<leftarrow> sched_q q s;
     let (self, h) = linked_list_remove a (self, plinks s);
     Some (set_q q self (s\<lparr>plinks := h\<rparr>))
   }"

definition q_unlink :: "queue_id \<Rightarrow> addr \<Rightarrow> kernel \<Rightarrow> kernel option" where
  "q_unlink q a s = do {
     self \<leftarrow> sched_q q s;
     let (self, h) = manual_unlink a (self, plinks s);
     Some (set_q q self (s\<lparr>plinks := h\<rparr>))
   }"

text \<open>
  Walking a queue from a node to the first process that satisfies \<open>P\<close>; the test can itself fail
  to return.
\<close>

partial_function (option) q_search ::
  "(addr \<Rightarrow> pcb \<Rightarrow> bool option) \<Rightarrow> kernel \<Rightarrow> addr option \<Rightarrow> addr option option" where
  "q_search P s p =
     (case p of
        None \<Rightarrow> Some None
      | Some a \<Rightarrow> do {
          c \<leftarrow> pcbs s a;
          hit \<leftarrow> P a c;
          if hit then Some (Some a) else q_search P s (l_next (plinks s) a)
        })"

definition q_find :: "queue_id \<Rightarrow> (addr \<Rightarrow> pcb \<Rightarrow> bool option) \<Rightarrow> kernel \<Rightarrow> addr option option" where
  "q_find q P s = do { self \<leftarrow> sched_q q s; q_search P s (ll_head self) }"

definition log_at :: "log_op \<Rightarrow> int \<Rightarrow> int \<Rightarrow> byte list option \<Rightarrow> kernel \<Rightarrow> kernel" where
  "log_at opn pid' nice name s =
     s\<lparr>klog := klog s @ [\<lparr>ev_quantum = quantum s, ev_op = opn, ev_pid = pid', ev_nice = nice,
                          ev_name = name\<rparr>]\<rparr>"

section \<open>The queues as lists\<close>

text \<open>
  \<open>queues s Q\<close>: every queue of the scheduler is a well-formed list, \<open>Q\<close> gives its processes in
  order, and no process is in two queues. \<open>q_core\<close> is the part of the state that the queue
  operations do not touch.
\<close>

definition queues :: "kernel \<Rightarrow> (queue_id \<Rightarrow> addr list) \<Rightarrow> bool" where
  "queues s Q \<longleftrightarrow> sched_live s \<and>
     (\<forall>q. valid_q q \<longrightarrow> dll (get_q q s, plinks s) (Q q)) \<and>
     (\<forall>q r a. valid_q q \<longrightarrow> valid_q r \<longrightarrow> a \<in> set (Q q) \<longrightarrow> a \<in> set (Q r) \<longrightarrow> q = r)"

definition q_core :: "kernel \<Rightarrow> kernel" where
  "q_core s = s\<lparr>plinks := \<lparr>l_prev = (\<lambda>_. None), l_next = (\<lambda>_. None), destroyed = []\<rparr>,
     ready_queues := (\<lambda>_. linked_list_new True), blocked_queue := linked_list_new True,
     zombie_queue := linked_list_new True, stopped_queue := linked_list_new True\<rparr>"

definition queued :: "(queue_id \<Rightarrow> addr list) \<Rightarrow> addr set" where
  "queued Q = (\<Union>q \<in> {q. valid_q q}. set (Q q))"

lemma q_core_eqD:
  assumes "q_core s' = q_core s"
  shows "pcbs s' = pcbs s" "cprocess s' = cprocess s" "clinks s' = clinks s"
    "sched_live s' = sched_live s" "ticks s' = ticks s" "init_process s' = init_process s"
    "current_process s' = current_process s" "process_count s' = process_count s"
    "terminal_controlling_pid s' = terminal_controlling_pid s" "quantum s' = quantum s"
    "extra_logging_enabled s' = extra_logging_enabled s" "shell_spawned s' = shell_spawned s"
    "logout_issued s' = logout_issued s" "klog s' = klog s"
  using assms by (cases s; cases s'; simp add: q_core_def)+

lemma get_set_q [simp]: "get_q q (set_q r v s) = (if q = r then v else get_q q s)"
  by (cases q; cases r) auto

lemma set_q_plinks [simp]: "plinks (set_q q v s) = plinks s"
  by (cases q) auto

lemma set_q_live [simp]: "sched_live (set_q q v s) = sched_live s"
  by (cases q) auto

lemma get_q_plinks [simp]: "get_q q (s\<lparr>plinks := h\<rparr>) = get_q q s"
  by (cases q) auto

lemma q_core_set [simp]: "q_core (set_q q v (s\<lparr>plinks := h\<rparr>)) = q_core s"
  by (cases q; cases s) (auto simp: q_core_def)

lemma queuesD:
  assumes "queues s Q" and "valid_q q"
  shows "dll (get_q q s, plinks s) (Q q)" "distinct (Q q)"
  using assms by (auto simp: queues_def dest: dll_distinct)

lemma queues_disjoint:
  "queues s Q \<Longrightarrow> valid_q q \<Longrightarrow> valid_q r \<Longrightarrow> q \<noteq> r \<Longrightarrow> set (Q q) \<inter> set (Q r) = {}"
  unfolding queues_def by blast

lemma queues_live: "queues s Q \<Longrightarrow> sched_live s"
  by (simp add: queues_def)

lemma queues_cong:
  assumes "sched_live s' = sched_live s" and "\<And>q. get_q q s' = get_q q s"
    and "plinks s' = plinks s"
  shows "queues s' Q = queues s Q"
  using assms by (simp add: queues_def)

lemma get_q_upd [simp]:
  "get_q q (s\<lparr>pcbs := x1\<rparr>) = get_q q s"
  "get_q q (s\<lparr>cprocess := x2\<rparr>) = get_q q s"
  "get_q q (s\<lparr>clinks := x3\<rparr>) = get_q q s"
  "get_q q (s\<lparr>klog := x4\<rparr>) = get_q q s"
  "get_q q (s\<lparr>current_process := x5\<rparr>) = get_q q s"
  "get_q q (s\<lparr>init_process := x5\<rparr>) = get_q q s"
  "get_q q (s\<lparr>process_count := x6\<rparr>) = get_q q s"
  "get_q q (s\<lparr>terminal_controlling_pid := x7\<rparr>) = get_q q s"
  "get_q q (s\<lparr>quantum := x7\<rparr>) = get_q q s"
  "get_q q (s\<lparr>shell_spawned := x8\<rparr>) = get_q q s"
  "get_q q (s\<lparr>logout_issued := x8\<rparr>) = get_q q s"
  "get_q q (s\<lparr>extra_logging_enabled := x8\<rparr>) = get_q q s"
  by (cases q; simp)+

lemma queues_upd [simp]:
  "queues (s\<lparr>pcbs := x1\<rparr>) Q = queues s Q"
  "queues (s\<lparr>cprocess := x2\<rparr>) Q = queues s Q"
  "queues (s\<lparr>clinks := x3\<rparr>) Q = queues s Q"
  "queues (s\<lparr>klog := x4\<rparr>) Q = queues s Q"
  "queues (s\<lparr>current_process := x5\<rparr>) Q = queues s Q"
  "queues (s\<lparr>init_process := x5\<rparr>) Q = queues s Q"
  "queues (s\<lparr>process_count := x6\<rparr>) Q = queues s Q"
  "queues (s\<lparr>terminal_controlling_pid := x7\<rparr>) Q = queues s Q"
  "queues (s\<lparr>quantum := x7\<rparr>) Q = queues s Q"
  "queues (s\<lparr>shell_spawned := x8\<rparr>) Q = queues s Q"
  "queues (s\<lparr>logout_issued := x8\<rparr>) Q = queues s Q"
  "queues (s\<lparr>extra_logging_enabled := x8\<rparr>) Q = queues s Q"
  by (simp_all add: queues_def)

text \<open>One queue replaced by another well-formed one, the others framed.\<close>

lemma queues_replace:
  assumes Q: "queues s Q" and q: "valid_q q"
    and new: "dll (self, h) xs" and same: "same_links (- (set xs \<union> set (Q q))) (plinks s) h"
    and fresh: "\<And>r. valid_q r \<Longrightarrow> r \<noteq> q \<Longrightarrow> set xs \<inter> set (Q r) = {}"
  shows "queues (set_q q self (s\<lparr>plinks := h\<rparr>)) (Q(q := xs))"
proof -
  have "dll (get_q r s, h) (Q r)" if r: "valid_q r" "r \<noteq> q" for r
  proof (rule macro.frame_law)
    show "dll (get_q r s, plinks s) (Q r)" using queuesD [OF Q] r by simp
    have "set (Q r) \<subseteq> - (set xs \<union> set (Q q))"
      using fresh [OF r] queues_disjoint [OF Q _ q] r by auto
    with same show "same_links (set (Q r)) (plinks s) h" by (rule macro.same_mono)
  qed
  moreover have "\<And>r a. valid_q r \<Longrightarrow> r \<noteq> q \<Longrightarrow> a \<in> set xs \<Longrightarrow> a \<notin> set (Q r)"
    using fresh by blast
  ultimately show ?thesis
    using Q new unfolding queues_def by (auto; blast)
qed

lemma q_push_ok:
  assumes Q: "queues s Q" and q: "valid_q q" and a: "a \<notin> queued Q"
  shows "\<exists>s'. q_push q a s = Some s' \<and> queues s' (Q(q := Q q @ [a])) \<and> q_core s' = q_core s"
proof -
  have "a \<notin> set (Q q)" using a q by (auto simp: queued_def)
  then obtain self h where p: "linked_list_push_tail a (get_q q s, plinks s) = Some (self, h)"
    and d: "dll (self, h) (Q q @ [a])" and same: "same_links (- insert a (set (Q q))) (plinks s) h"
    using macro.push_law [OF queuesD(1) [OF Q q]] by blast
  have "set (Q q @ [a]) \<inter> set (Q r) = {}" if "valid_q r" "r \<noteq> q" for r
    using that a queues_disjoint [OF Q q that(1)] by (auto simp: queued_def)
  then have "queues (set_q q self (s\<lparr>plinks := h\<rparr>)) (Q(q := Q q @ [a]))"
    using same by (intro queues_replace [OF Q q d]) auto
  with p show ?thesis
    using queues_live [OF Q] q by (simp add: q_push_def sched_q_def)
qed

lemma q_take_ok:
  assumes Q: "queues s Q" and q: "valid_q q"
    and d: "dll (self, h) (remove1 a (Q q))" and same: "same_links (- set (Q q)) (plinks s) h"
  shows "queues (set_q q self (s\<lparr>plinks := h\<rparr>)) (Q(q := remove1 a (Q q)))"
proof (rule queues_replace [OF Q q d])
  have "set (remove1 a (Q q)) \<subseteq> set (Q q)" by (rule set_remove1_subset)
  then show "same_links (- (set (remove1 a (Q q)) \<union> set (Q q))) (plinks s) h"
    using same by (simp add: Un_absorb1)
  fix r assume "valid_q r" "r \<noteq> q"
  then show "set (remove1 a (Q q)) \<inter> set (Q r) = {}"
    using queues_disjoint [OF Q q] set_remove1_subset by fast
qed

lemma q_remove_ok:
  assumes Q: "queues s Q" and q: "valid_q q" and a: "a \<in> set (Q q)"
  shows "\<exists>s'. q_remove q a s = Some s' \<and> queues s' (Q(q := remove1 a (Q q))) \<and>
    q_core s' = q_core s"
proof -
  obtain self h where u: "linked_list_remove a (get_q q s, plinks s) = (self, h)"
    and d: "dll (self, h) (remove1 a (Q q))" and same: "same_links (- set (Q q)) (plinks s) h"
    using macro.unlink_law [OF queuesD(1) [OF Q q] a] by blast
  show ?thesis
    using u queues_live [OF Q] q q_take_ok [OF Q q d same]
    by (simp add: q_remove_def sched_q_def)
qed

lemma q_unlink_ok:
  assumes Q: "queues s Q" and q: "valid_q q" and a: "a \<in> set (Q q)"
  shows "\<exists>s'. q_unlink q a s = Some s' \<and> queues s' (Q(q := remove1 a (Q q))) \<and>
    q_core s' = q_core s"
proof -
  obtain self h where u: "manual_unlink a (get_q q s, plinks s) = (self, h)"
    and d: "dll (self, h) (remove1 a (Q q))" and same: "same_links (- set (Q q)) (plinks s) h"
    using manual.unlink_law [OF queuesD(1) [OF Q q] a] by blast
  show ?thesis
    using u queues_live [OF Q] q q_take_ok [OF Q q d same]
    by (simp add: q_unlink_def sched_q_def)
qed

text \<open>A removed process is in no queue.\<close>

lemma queued_remove1:
  assumes Q: "queues s Q" and q: "valid_q q" and a: "a \<in> set (Q q)"
  shows "queued (Q(q := remove1 a (Q q))) = queued Q - {a}"
proof -
  have "a \<notin> set (Q r)" if "valid_q r" "r \<noteq> q" for r
    using queues_disjoint [OF Q q that(1)] that a by blast
  then show ?thesis
    using queuesD(2) [OF Q q] q by (auto simp: queued_def split: if_splits)
qed

lemma q_search_simps [simp]:
  "q_search P s None = Some None"
  "q_search P s (Some a) =
     do { c \<leftarrow> pcbs s a; hit \<leftarrow> P a c;
          if hit then Some (Some a) else q_search P s (l_next (plinks s) a) }"
  by (subst q_search.simps, simp)+

lemma q_search_spec:
  assumes "dseg (plinks s) p xs None"
    and "\<forall>a\<in>set xs. \<exists>c. pcbs s a = Some c \<and> P a c = Some (hit a)"
  shows "q_search P s (hd_opt xs None) = Some (find hit xs)"
  using assms by (induction xs arbitrary: p) auto

lemma q_find_spec:
  assumes Q: "queues s Q" and q: "valid_q q"
    and al: "\<forall>a\<in>set (Q q). \<exists>c. pcbs s a = Some c \<and> P a c = Some (hit a)"
  shows "q_find q P s = Some (find hit (Q q))"
proof -
  have "ll_head (get_q q s) = hd_opt (Q q) None" "dseg (plinks s) None (Q q) None"
    using queuesD [OF Q q] by (auto simp: dll_def)
  then show ?thesis
    using q queues_live [OF Q] q_search_spec [where P = P and hit = hit, OF _ al]
    by (simp add: q_find_def sched_q_def)
qed

lemma find_eq_member: "find (\<lambda>b. b = a) xs = (if a \<in> set xs then Some a else None)"
  by (induction xs) auto

lemma q_find_member:
  assumes Q: "queues s Q" and q: "valid_q q" and al: "\<forall>a\<in>set (Q q). pcbs s a \<noteq> None"
  shows "q_find q (\<lambda>b _. Some (b = a)) s = Some (if a \<in> set (Q q) then Some a else None)"
  using q_find_spec [OF Q q, of "\<lambda>b _. Some (b = a)" "\<lambda>b. b = a"] al by (simp add: find_eq_member)

end
