(* ===== verification/Logger.thy ===== *)
theory Logger
  imports Sched_State
begin

text \<open>
  The kernel log (\<^verbatim>\<open>src/src/scheduler/logger.c\<close>). Each \<open>log_\<close> function appends an event to the
  state; \<open>log_written\<close> gives the bytes that its \<open>snprintf\<close> and \<open>write\<close> send to the log file. The
  buffer has 256 bytes and \<open>write\<close> is passed the length that \<open>snprintf\<close> \<^emph>\<open>would\<close> need, so a
  line of more than 256 bytes reads past the buffer: that case has no value, as has a line whose
  name is \<open>NULL\<close>. \<open>log_custom\<close> and \<open>log_message\<close> clamp the length; they take the text that their
  format produces, and the bytes \<open>junk\<close> that the stack buffer holds before.
\<close>

abbreviation LOG_BUF_SIZE :: nat where "LOG_BUF_SIZE \<equiv> 256"

section \<open>The events\<close>

definition log_schedule :: "int \<Rightarrow> int \<Rightarrow> byte list option \<Rightarrow> kernel \<Rightarrow> kernel" where
  "log_schedule pid' queue name = log_at SCHEDULE pid' queue name"

definition log_create :: "int \<Rightarrow> int \<Rightarrow> byte list option \<Rightarrow> kernel \<Rightarrow> kernel" where
  "log_create pid' nice name = log_at CREATE pid' nice name"

definition log_signaled :: "int \<Rightarrow> int \<Rightarrow> byte list option \<Rightarrow> kernel \<Rightarrow> kernel" where
  "log_signaled pid' nice name = log_at SIGNALED pid' nice name"

definition log_exited :: "int \<Rightarrow> int \<Rightarrow> byte list option \<Rightarrow> kernel \<Rightarrow> kernel" where
  "log_exited pid' nice name = log_at EXITED pid' nice name"

definition log_zombie :: "int \<Rightarrow> int \<Rightarrow> byte list option \<Rightarrow> kernel \<Rightarrow> kernel" where
  "log_zombie pid' nice name = log_at ZOMBIE pid' nice name"

definition log_orphan :: "int \<Rightarrow> int \<Rightarrow> byte list option \<Rightarrow> kernel \<Rightarrow> kernel" where
  "log_orphan pid' nice name = log_at ORPHAN pid' nice name"

definition log_waited :: "int \<Rightarrow> int \<Rightarrow> byte list option \<Rightarrow> kernel \<Rightarrow> kernel" where
  "log_waited pid' nice name = log_at WAITED pid' nice name"

definition log_nice :: "int \<Rightarrow> int \<Rightarrow> int \<Rightarrow> byte list option \<Rightarrow> kernel \<Rightarrow> kernel" where
  "log_nice pid' old new name = log_at (NICE old) pid' new name"

definition log_blocked :: "int \<Rightarrow> int \<Rightarrow> byte list option \<Rightarrow> kernel \<Rightarrow> kernel" where
  "log_blocked pid' nice name = log_at BLOCKED pid' nice name"

definition log_unblocked :: "int \<Rightarrow> int \<Rightarrow> byte list option \<Rightarrow> kernel \<Rightarrow> kernel" where
  "log_unblocked pid' nice name = log_at UNBLOCKED pid' nice name"

definition log_sleep :: "int \<Rightarrow> int \<Rightarrow> byte list option \<Rightarrow> kernel \<Rightarrow> kernel" where
  "log_sleep pid' nice name = log_at SLEEPING pid' nice name"

definition log_stopped :: "int \<Rightarrow> int \<Rightarrow> byte list option \<Rightarrow> kernel \<Rightarrow> kernel" where
  "log_stopped pid' nice name = log_at STOPPED pid' nice name"

definition log_continued :: "int \<Rightarrow> int \<Rightarrow> byte list option \<Rightarrow> kernel \<Rightarrow> kernel" where
  "log_continued pid' nice name = log_at CONTINUED pid' nice name"

lemmas log_defs = log_schedule_def log_create_def log_signaled_def log_exited_def log_zombie_def
  log_orphan_def log_waited_def log_nice_def log_blocked_def log_unblocked_def log_sleep_def
  log_stopped_def log_continued_def

text \<open>The name argument \<open>process->command ? process->command : "<?>"\<close>.\<close>

definition name_or :: "byte list option \<Rightarrow> byte list option" where
  "name_or c = Some (case c of Some n \<Rightarrow> n | None \<Rightarrow> ascii ''<?>'')"

section \<open>The bytes of a log line\<close>

fun op_field :: "log_op \<Rightarrow> byte list" where
  "op_field SCHEDULE = ascii ''SCHEDULE ''"
| "op_field CREATE = ascii ''CREATE   ''"
| "op_field SIGNALED = ascii ''SIGNALED ''"
| "op_field EXITED = ascii ''EXITED   ''"
| "op_field ZOMBIE = ascii ''ZOMBIE   ''"
| "op_field ORPHAN = ascii ''ORPHAN   ''"
| "op_field WAITED = ascii ''WAITED   ''"
| "op_field (NICE old) = ascii ''NICE     ''"
| "op_field BLOCKED = ascii ''BLOCKED  ''"
| "op_field UNBLOCKED = ascii ''UNBLOCKED''"
| "op_field SLEEPING = ascii ''SLEEPING''"
| "op_field STOPPED = ascii ''STOPPED  ''"
| "op_field CONTINUED = ascii ''CONTINUED''"

fun old_field :: "log_op \<Rightarrow> byte list" where
  "old_field (NICE old) = decimal old @ [9]"
| "old_field _ = []"

definition log_line :: "log_event \<Rightarrow> byte list \<Rightarrow> byte list" where
  "log_line e name =
     91 # decimal (ev_quantum e) @ [93, 9] @ op_field (ev_op e) @ [9] @ decimal (ev_pid e) @ [9] @
     old_field (ev_op e) @ decimal (ev_nice e) @ [9] @ name @ [10]"

definition log_written :: "log_event \<Rightarrow> byte list option" where
  "log_written e =
     (case ev_name e of
        None \<Rightarrow> None
      | Some name \<Rightarrow>
          let line = log_line e name; buf = take (LOG_BUF_SIZE - 1) line @ [0] in
          if length line \<le> length buf then Some (take (length line) buf) else None)"

section \<open>log_custom and log_message\<close>

definition snprintf_at :: "nat \<Rightarrow> byte list \<Rightarrow> byte list \<Rightarrow> byte list" where
  "snprintf_at off body buf = overlay off (take (length buf - off - 1) body @ [0]) buf"

definition log_prefix :: "int \<Rightarrow> byte list \<Rightarrow> byte list" where
  "log_prefix q opn = 91 # decimal q @ [93, 9] @ opn @ [9]"

definition log_custom :: "byte list \<Rightarrow> int \<Rightarrow> byte list \<Rightarrow> byte list \<Rightarrow> byte list" where
  "log_custom junk q opn body =
     (let pre = log_prefix q opn; buf = snprintf_at 0 pre junk;
          offset = length pre in
      if offset \<ge> LOG_BUF_SIZE then []
      else
        let buf = snprintf_at offset body buf;
            offset = offset + length body;
            write_len = (if offset \<ge> LOG_BUF_SIZE then LOG_BUF_SIZE - 1 else offset) in
        if write_len < LOG_BUF_SIZE - 1 then take (write_len + 1) (buf[write_len := 10])
        else take (LOG_BUF_SIZE - 1) (buf[LOG_BUF_SIZE - 2 := 10]))"

text \<open>\<open>fmt_newline\<close>: the format string ends with a newline.\<close>

definition log_message :: "byte list \<Rightarrow> bool \<Rightarrow> byte list \<Rightarrow> byte list" where
  "log_message junk fmt_newline body =
     (let buf = snprintf_at 0 body junk; len = length body;
          write_len = (if len \<ge> LOG_BUF_SIZE then LOG_BUF_SIZE - 1 else len) in
      take write_len buf @ (if \<not> fmt_newline \<and> write_len = len then [10] else []))"

section \<open>What reaches the log\<close>

lemma take_snprintf:
  assumes "off < length buf" and "length body < length buf - off"
  shows "take (off + length body) (snprintf_at off body buf) = take off buf @ body"
  using assms by (simp add: snprintf_at_def overlay_def)

lemma take_snprintf_trunc:
  assumes "off < length buf" and "length buf - off \<le> length body"
  shows "take (length buf - 1) (snprintf_at off body buf) = take off buf @ take (length buf - 1 - off) body"
proof -
  have "off \<le> length buf - 1" using assms by simp
  then show ?thesis using assms by (simp add: snprintf_at_def overlay_def)
qed

lemma length_snprintf [simp]:
  "off < length buf \<Longrightarrow> length (snprintf_at off body buf) = length buf"
  by (auto simp: snprintf_at_def overlay_def)

lemma log_custom_short:
  assumes junk: "length junk = 256"
    and short: "length pre + length body < 255" and pre: "pre = log_prefix q opn"
  shows "log_custom junk q opn body = pre @ body @ [10]"
proof -
  let ?b = "snprintf_at (length pre) body (snprintf_at 0 pre junk)"
  have "take (length pre) (snprintf_at 0 pre junk) = pre"
    using take_snprintf [of 0 junk pre] junk short by simp
  then have b: "take (length pre + length body) ?b = pre @ body"
    using take_snprintf [of "length pre" "snprintf_at 0 pre junk" body] junk short by simp
  have len: "length ?b = 256" using junk short by simp
  have "log_custom junk q opn body =
      take (length pre + length body + 1) (?b[length pre + length body := 10])"
    using short by (simp add: log_custom_def Let_def pre)
  also have "\<dots> = take (length pre + length body) ?b @ [10]"
    using len short by (simp add: take_Suc_conv_app_nth)
  finally show ?thesis using b by simp
qed

lemma log_custom_long:
  assumes junk: "length junk = 256" and fits: "length pre < 256"
    and long: "255 \<le> length pre + length body" and pre: "pre = log_prefix q opn"
  shows "log_custom junk q opn body = take 254 (pre @ body) @ [10]"
proof -
  let ?b = "snprintf_at (length pre) body (snprintf_at 0 pre junk)"
  have p: "take (length pre) (snprintf_at 0 pre junk) = pre"
    using take_snprintf [of 0 junk pre] junk fits by simp
  have len: "length ?b = 256" using junk fits by simp
  have b: "take 255 ?b = take 255 (pre @ body)"
  proof (cases "length pre + length body = 255")
    case True
    then show ?thesis
      using take_snprintf [of "length pre" "snprintf_at 0 pre junk" body] junk fits p by simp
  next
    case False
    then show ?thesis
      using take_snprintf_trunc [of "length pre" "snprintf_at 0 pre junk" body] junk fits long p
      by simp
  qed
  have "log_custom junk q opn body = take 255 (?b[254 := 10])"
    using fits long by (auto simp: log_custom_def Let_def pre)
  also have "\<dots> = take 254 ?b @ [10]"
    using len take_Suc_conv_app_nth [of 254 "?b[254 := 10]"] by simp
  also have "take 254 ?b = take 254 (take 255 ?b)" by (simp add: min_def)
  finally show ?thesis by (simp only: b) (simp add: min_def)
qed

end
