(* ===== verification/Scheduler.thy ===== *)
theory Scheduler
  imports Logger Error_Codes
begin

text \<open>
  The scheduler (\<^verbatim>\<open>src/src/scheduler/scheduler.c\<close>), one definition per function, in the order
  of the source.

  \<^item> A process pointer that the function tests against \<open>NULL\<close> is an address option.
  \<^item> The quantum a process runs between \<open>spthread_continue\<close> and \<open>spthread_suspend\<close> is the
    parameter \<open>run\<close> of \<open>run_next_process\<close>: what the running thread does to the kernel state.
  \<^item> A call that suspends its own thread (\<open>k_waitpid\<close>) returns \<open>Wait_suspend\<close>, and
    \<open>k_waitpid_resume\<close> is its continuation; a call that ends its own thread (\<open>k_proc_exit\<close>)
    gives \<open>Thread_exited\<close>.
  \<^item> Diagnostics (\<open>k_log\<close>, \<open>perror\<close> and \<open>k_fprintf_short\<close> to descriptor 2) have no effect on the
    kernel state and are left out; the output of \<open>ps\<close> is modelled in \<open>File_Syscalls\<close>.
\<close>

datatype call_result = Returned int | Thread_exited

datatype wait_result = Wait_return int | Wait_suspend

section \<open>Initialisation and the ready queues\<close>

text \<open>
  \<open>junk\<close> is the memory that \<open>malloc\<close> returns for the scheduler state (\<^term>\<open>None\<close>: it fails); the
  fields that \<open>init_scheduler\<close> does not assign keep its values.
\<close>

definition init_scheduler ::
  "(addr option \<times> addr option \<times> nat) option \<Rightarrow> kernel \<Rightarrow> int \<times> kernel" where
  "init_scheduler junk s =
     (case junk of
        None \<Rightarrow> (-1, s\<lparr>sched_live := False\<rparr>)
      | Some (ini, cur, cnt) \<Rightarrow>
          (0, s\<lparr>sched_live := True, ready_queues := (\<lambda>_. linked_list_new True),
                blocked_queue := linked_list_new True, zombie_queue := linked_list_new True,
                stopped_queue := linked_list_new True, terminal_controlling_pid := 0, ticks := 0,
                init_process := ini, current_process := cur, process_count := cnt\<rparr>))"

definition k_add_to_ready_queue :: "addr option \<Rightarrow> kernel \<Rightarrow> (int \<times> kernel) option" where
  "k_add_to_ready_queue process s =
     (if \<not> sched_live s then Some (E_INVALID_SCHEDULER_STATE, s)
      else case process of
        None \<Rightarrow> Some (E_INVALID_PCB, s)
      | Some a \<Rightarrow> do {
          c \<leftarrow> pcbs s a;
          if priority c > PRIORITY_LOW then Some (E_INVALID_PCB, s)
          else do {
            s \<leftarrow> q_push (Ready (priority c)) a s;
            s \<leftarrow> upd_pcb a (\<lambda>c. c\<lparr>state := PROCESS_RUNNING\<rparr>) s;
            Some (0, s)
          }
        })"

section \<open>Selection\<close>

definition process_to_run :: "nat list" where
  "process_to_run = [0, 0, 1, 0, 0, 1, 2, 0, 1, 1, 0, 0, 1, 2, 0, 2, 1, 0, 2]"

text \<open>
  \<^term>\<open>None\<close> for a negative counter, where the index into the table would be negative; \<open>run_process\<close>
  below has no result when the counter would exceed the range of \<open>int\<close>.
\<close>

definition select_next_queue :: "kernel \<Rightarrow> int option" where
  "select_next_queue s =
     (if \<not> sched_live s \<or> quantum s < 0 then None
      else
        let i = process_to_run ! nat (quantum s mod 19) in
        if ll_head (ready_queues s i) \<noteq> None then Some (int i)
        else case find (\<lambda>i. ll_head (ready_queues s i) \<noteq> None) [0, 1, 2] of
          Some i \<Rightarrow> Some (int i)
        | None \<Rightarrow> Some (-1))"

section \<open>Blocking and unblocking\<close>

definition block_process :: "addr \<Rightarrow> kernel \<Rightarrow> kernel option" where
  "block_process a s = do {
     c \<leftarrow> pcbs s a;
     let s = log_blocked (pid c) (int (priority c)) (name_or (command c)) s;
     s \<leftarrow> q_remove (Ready (priority c)) a s;
     s \<leftarrow> upd_pcb a (\<lambda>c. c\<lparr>state := PROCESS_BLOCKED\<rparr>) s;
     q_push Blocked a s
   }"

definition unblock_process :: "addr \<Rightarrow> kernel \<Rightarrow> kernel option" where
  "unblock_process a s = do {
     s \<leftarrow> q_remove Blocked a s;
     c \<leftarrow> pcbs s a;
     let s = log_unblocked (pid c) (int (priority c)) (name_or (command c)) s;
     s \<leftarrow> upd_pcb a (\<lambda>c. c\<lparr>state := PROCESS_RUNNING\<rparr>) s;
     q_push (Ready (priority c)) a s
   }"

partial_function (option) update_blocked_loop :: "addr option \<Rightarrow> kernel \<Rightarrow> kernel option" where
  "update_blocked_loop p s =
     (case p of
        None \<Rightarrow> Some s
      | Some a \<Rightarrow> do {
          c \<leftarrow> pcbs s a;
          s \<leftarrow> (if sleep_time c > 0 then do {
                  let t = double_minus (sleep_time c) double_tenth;
                  s \<leftarrow> upd_pcb a (\<lambda>c. c\<lparr>sleep_time := t\<rparr>) s;
                  if t \<le> 0 then unblock_process a s else Some s
                }
                else Some s);
          update_blocked_loop (l_next (plinks s) a) s
        })"

definition update_blocked_processes :: "kernel \<Rightarrow> kernel option" where
  "update_blocked_processes s = do {
     self \<leftarrow> sched_q Blocked s;
     update_blocked_loop (ll_head self) s
   }"

section \<open>Parents and children\<close>

text \<open>Walking a children list to the first node whose process satisfies \<open>P\<close>.\<close>

partial_function (option) child_search ::
  "(addr \<Rightarrow> bool option) \<Rightarrow> kernel \<Rightarrow> addr option \<Rightarrow> addr option option" where
  "child_search P s p =
     (case p of
        None \<Rightarrow> Some None
      | Some n \<Rightarrow> do {
          hit \<leftarrow> P (cprocess s n);
          if hit then Some (Some n) else child_search P s (l_next (clinks s) n)
        })"

definition k_tcsetpid :: "int \<Rightarrow> kernel \<Rightarrow> kernel option" where
  "k_tcsetpid p s = (if sched_live s then Some (s\<lparr>terminal_controlling_pid := p\<rparr>) else None)"

definition k_tcgetpid :: "kernel \<Rightarrow> int option" where
  "k_tcgetpid s = (if sched_live s then Some (terminal_controlling_pid s) else None)"

text \<open>Is the blocked process \<open>b\<close> waiting for the process with identifier \<open>p\<close>?\<close>

definition waits_for :: "int \<Rightarrow> kernel \<Rightarrow> pcb \<Rightarrow> bool option" where
  "waits_for p s b =
     (if waited_child b = p then Some True
      else if waited_child b = -1 then do {
        ch \<leftarrow> children b;
        hit \<leftarrow> child_search (\<lambda>a. map_option (\<lambda>c. pid c = p) (pcbs s a)) s (ll_head ch);
        Some (hit \<noteq> None)
      }
      else Some False)"

definition unblock_parents :: "addr \<Rightarrow> kernel \<Rightarrow> kernel option" where
  "unblock_parents process s = do {
     c \<leftarrow> pcbs s process;
     found \<leftarrow> q_find Blocked (\<lambda>_ b. waits_for (pid c) s b) s;
     case found of
       None \<Rightarrow> Some s
     | Some b \<Rightarrow> do {
         s \<leftarrow> unblock_process b s;
         tc \<leftarrow> k_tcgetpid s;
         c \<leftarrow> pcbs s process;
         if tc = pid c then do { bc \<leftarrow> pcbs s b; k_tcsetpid (pid bc) s } else Some s
       }
   }"

partial_function (option) reparent_loop :: "addr option \<Rightarrow> kernel \<Rightarrow> kernel option" where
  "reparent_loop p s =
     (case p of
        None \<Rightarrow> Some s
      | Some n \<Rightarrow> do {
          c \<leftarrow> pcbs s (cprocess s n);
          let s = log_orphan (pid c) (int (priority c)) (name_or (command c)) s;
          s \<leftarrow> upd_pcb (cprocess s n) (\<lambda>c. c\<lparr>ppid := 1\<rparr>) s;
          let nxt = l_next (clinks s) n;
          ini \<leftarrow> (if sched_live s then init_process s else None);
          ic \<leftarrow> pcbs s ini;
          ch \<leftarrow> children ic;
          (ch, h) \<leftarrow> linked_list_push_tail n (ch, clinks s);
          s \<leftarrow> upd_pcb ini (\<lambda>c. c\<lparr>children := Some ch\<rparr>) (s\<lparr>clinks := h\<rparr>);
          reparent_loop nxt s
        })"

definition reparent_children :: "addr \<Rightarrow> kernel \<Rightarrow> kernel option" where
  "reparent_children process s = do {
     c \<leftarrow> pcbs s process;
     ch \<leftarrow> children c;
     reparent_loop (ll_head ch) s
   }"

section \<open>Looking up a process\<close>

text \<open>The queues in the order of the search; the zombie queue is searched last.\<close>

definition search_order :: "queue_id list" where
  "search_order = [Ready 0, Ready 1, Ready 2, Blocked, Stopped, Zombie]"

fun find_pid_in :: "queue_id list \<Rightarrow> int \<Rightarrow> kernel \<Rightarrow> addr option option" where
  "find_pid_in [] p s = Some None"
| "find_pid_in (q # qs) p s = do {
     found \<leftarrow> q_find q (\<lambda>_ c. Some (pid c = p)) s;
     case found of Some a \<Rightarrow> Some (Some a) | None \<Rightarrow> find_pid_in qs p s
   }"

definition k_get_process_by_pid :: "int \<Rightarrow> kernel \<Rightarrow> addr option option" where
  "k_get_process_by_pid p s =
     (if \<not> sched_live s then Some None
      else case current_process s of
        None \<Rightarrow> find_pid_in search_order p s
      | Some a \<Rightarrow> do {
          c \<leftarrow> pcbs s a;
          if pid c = p then Some (Some a) else find_pid_in search_order p s
        })"

definition k_get_current_process :: "kernel \<Rightarrow> addr option" where
  "k_get_current_process s = (if sched_live s then current_process s else None)"

section \<open>The scheduling step\<close>

definition q_rotate :: "queue_id \<Rightarrow> kernel \<Rightarrow> kernel option" where
  "q_rotate q s = do {
     self \<leftarrow> sched_q q s;
     case ll_head self of
       None \<Rightarrow> Some s
     | Some a \<Rightarrow> do { s \<leftarrow> q_remove q a s; q_push q a s }
   }"

definition run_process ::
  "(addr \<Rightarrow> kernel \<Rightarrow> kernel option) \<Rightarrow> nat \<Rightarrow> addr \<Rightarrow> kernel \<Rightarrow> kernel option" where
  "run_process run i a s = do {
     c \<leftarrow> pcbs s a;
     if \<not> thread c then Some (s\<lparr>pcbs := (pcbs s)(a := None)\<rparr>)
     else do {
       let s = s\<lparr>current_process := Some a\<rparr>;
       let s = log_schedule (pid c) (int (priority c)) (name_or (command c)) s;
       s \<leftarrow> run a s;
       let s = s\<lparr>quantum := quantum s + 1\<rparr>;
       c \<leftarrow> pcbs s a;
       if quantum s > 2147483647 then None
       else if state c = PROCESS_ZOMBIED \<or> state c = PROCESS_STOPPED then Some s
       else q_rotate (Ready i) s
     }
   }"

text \<open>
  Skipping \<open>init\<close>: the head is moved to the tail when it is process 1, there is no zombie and
  the shell is running.
\<close>

definition skip_init :: "nat \<Rightarrow> addr \<Rightarrow> kernel \<Rightarrow> kernel option" where
  "skip_init i a s = do {
     c \<leftarrow> pcbs s a;
     if pid c = 1 \<and> ll_head (zombie_queue s) = None \<and> shell_spawned s then q_rotate (Ready i) s
     else Some s
   }"

definition run_next_process ::
  "(addr \<Rightarrow> kernel \<Rightarrow> kernel option) \<Rightarrow> kernel \<Rightarrow> kernel option" where
  "run_next_process run s = do {
     s \<leftarrow> update_blocked_processes s;
     s \<leftarrow> (if shell_spawned s then Some s
           else do { p \<leftarrow> k_get_process_by_pid 2 s; Some (s\<lparr>shell_spawned := (p \<noteq> None)\<rparr>) });
     next_queue \<leftarrow> select_next_queue s;
     if next_queue = -1 then Some s
     else do {
       let i = nat next_queue;
       a \<leftarrow> ll_head (ready_queues s i);
       s \<leftarrow> skip_init i a s;
       case ll_head (ready_queues s i) of
         None \<Rightarrow> Some s
       | Some a \<Rightarrow> run_process run i a s
     }
   }"

text \<open>
  The scheduler loop; at the end the scheduler state is freed. The call of \<open>unmount\<close> before that
  acts on the file system only.
\<close>

partial_function (option) run_scheduler ::
  "(addr \<Rightarrow> kernel \<Rightarrow> kernel option) \<Rightarrow> kernel \<Rightarrow> kernel option" where
  "run_scheduler run s =
     (if logout_issued s then Some (s\<lparr>sched_live := False\<rparr>)
      else do { s \<leftarrow> run_next_process run s; run_scheduler run s })"

end
