(* ===== verification/Process_Ops.thy ===== *)
theory Process_Ops
  imports Scheduler
begin

text \<open>
  The kernel operations on processes (\<^verbatim>\<open>src/src/scheduler/scheduler.c\<close> from
  \<open>k_remove_from_active_queue\<close> on): removal from the active queues, waiting, exiting, stopping,
  continuing, priorities and sleeping.
\<close>

section \<open>Removal from the active queues\<close>

text \<open>The loop over one queue: the process is unlinked when the walk meets it.\<close>

definition unlink_if_member :: "queue_id \<Rightarrow> addr \<Rightarrow> kernel \<Rightarrow> (bool \<times> kernel) option" where
  "unlink_if_member q a s = do {
     found \<leftarrow> q_find q (\<lambda>b _. Some (b = a)) s;
     case found of
       None \<Rightarrow> Some (False, s)
     | Some _ \<Rightarrow> do { s \<leftarrow> q_unlink q a s; Some (True, s) }
   }"

fun remove_from :: "queue_id list \<Rightarrow> addr \<Rightarrow> kernel \<Rightarrow> (bool \<times> kernel) option" where
  "remove_from [] a s = Some (False, s)"
| "remove_from (q # qs) a s = do {
     (removed, s) \<leftarrow> unlink_if_member q a s;
     if removed then Some (True, s) else remove_from qs a s
   }"

definition active_order :: "queue_id list" where
  "active_order = [Ready 0, Ready 1, Ready 2, Blocked, Stopped]"

definition k_remove_from_active_queue :: "addr option \<Rightarrow> kernel \<Rightarrow> (bool \<times> kernel) option" where
  "k_remove_from_active_queue process s =
     (case process of
        None \<Rightarrow> Some (False, s)
      | Some a \<Rightarrow> if \<not> sched_live s then Some (False, s) else remove_from active_order a s)"

section \<open>Waiting\<close>

abbreviation W_EXITED :: int where "W_EXITED \<equiv> 1"
abbreviation W_STOPPED :: int where "W_STOPPED \<equiv> 2"

definition remove_child :: "addr \<Rightarrow> addr \<Rightarrow> kernel \<Rightarrow> kernel option" where
  "remove_child process n s = do {
     c \<leftarrow> pcbs s process;
     ch \<leftarrow> children c;
     let (ch, h) = linked_list_remove n (ch, clinks s);
     upd_pcb process (\<lambda>c. c\<lparr>children := Some ch\<rparr>) (s\<lparr>clinks := h\<rparr>)
   }"

definition remove_from_children_list :: "addr \<Rightarrow> addr \<Rightarrow> kernel \<Rightarrow> kernel option" where
  "remove_from_children_list process child s = do {
     c \<leftarrow> pcbs s process;
     ch \<leftarrow> children c;
     found \<leftarrow> child_search (\<lambda>a. Some (a = child)) s (ll_head ch);
     case found of None \<Rightarrow> Some s | Some n \<Rightarrow> remove_child process n s
   }"

text \<open>
  \<open>wstatus\<close> is the integer that the caller's pointer refers to, \<^term>\<open>None\<close> for a null pointer; the
  result carries its new value.
\<close>

definition set_wstatus :: "int option \<Rightarrow> int \<Rightarrow> int option" where
  "set_wstatus w v = map_option (\<lambda>_. v) w"

definition wait_any ::
  "addr \<Rightarrow> int option \<Rightarrow> bool \<Rightarrow> kernel \<Rightarrow> (wait_result \<times> int option \<times> kernel) option" where
  "wait_any cur wstatus nohang s = do {
     s \<leftarrow> upd_pcb cur (\<lambda>c. c\<lparr>waited_child := -1\<rparr>) s;
     cc \<leftarrow> pcbs s cur;
     ch \<leftarrow> children cc;
     found \<leftarrow> child_search (\<lambda>a. map_option (\<lambda>c. state c = PROCESS_ZOMBIED \<or> state c = PROCESS_STOPPED)
                                (pcbs s a)) s (ll_head ch);
     case found of
       Some n \<Rightarrow> do {
         c \<leftarrow> pcbs s (cprocess s n);
         if state c = PROCESS_ZOMBIED then do {
           let s = log_waited (pid c) (int (priority c)) (name_or (command c)) s;
           s \<leftarrow> remove_child cur n s;
           s \<leftarrow> q_remove Zombie (cprocess s n) s;
           Some (Wait_return (pid c), set_wstatus wstatus W_EXITED, s)
         }
         else Some (Wait_return 0, wstatus, s)
       }
     | None \<Rightarrow>
         if ll_head ch = None then Some (Wait_return (-1), wstatus, s)
         else if nohang then Some (Wait_return 0, wstatus, s)
         else do { s \<leftarrow> block_process cur s; Some (Wait_suspend, wstatus, s) }
   }"

definition wait_pid ::
  "addr \<Rightarrow> int \<Rightarrow> int option \<Rightarrow> bool \<Rightarrow> kernel \<Rightarrow> (wait_result \<times> int option \<times> kernel) option" where
  "wait_pid cur p wstatus nohang s = do {
     child \<leftarrow> k_get_process_by_pid p s;
     s \<leftarrow> upd_pcb cur (\<lambda>c. c\<lparr>waited_child := p\<rparr>) s;
     case child of
       None \<Rightarrow> Some (Wait_return E_PID_NOT_FOUND, wstatus, s)
     | Some a \<Rightarrow> do {
         c \<leftarrow> pcbs s a;
         cc \<leftarrow> pcbs s cur;
         if ppid c \<noteq> pid cc then Some (Wait_return (-1), wstatus, s)
         else if state c = PROCESS_ZOMBIED then do {
           s \<leftarrow> remove_from_children_list cur a s;
           s \<leftarrow> q_remove Zombie a s;
           let s = log_waited (pid c) (int (priority c)) (name_or (command c)) s;
           Some (Wait_return (pid c), set_wstatus wstatus W_EXITED, s)
         }
         else if state c = PROCESS_STOPPED then Some (Wait_return 0, wstatus, s)
         else if nohang then
           Some (Wait_return 0, wstatus,
                 log_waited (pid c) (int (priority c)) (name_or (command c)) s)
         else do { s \<leftarrow> block_process cur s; Some (Wait_suspend, wstatus, s) }
       }
   }"

definition k_waitpid ::
  "int \<Rightarrow> int option \<Rightarrow> bool \<Rightarrow> kernel \<Rightarrow> (wait_result \<times> int option \<times> kernel) option" where
  "k_waitpid p wstatus nohang s =
     (case k_get_current_process s of
        None \<Rightarrow> Some (Wait_return (-1), wstatus, s)
      | Some cur \<Rightarrow>
          if p = -1 then wait_any cur wstatus nohang s else wait_pid cur p wstatus nohang s)"

text \<open>
  What a suspended \<open>k_waitpid\<close> does when its thread runs again: for a given child \<open>a\<close> the rest of
  \<open>block_and_wait\<close> and the recursive call, for any child the recursive call alone.
\<close>

definition k_waitpid_resume ::
  "addr option \<Rightarrow> int option \<Rightarrow> kernel \<Rightarrow> (wait_result \<times> int option \<times> kernel) option" where
  "k_waitpid_resume child wstatus s =
     (case child of
        None \<Rightarrow> k_waitpid (-1) wstatus False s
      | Some a \<Rightarrow> do {
          c \<leftarrow> pcbs s a;
          k_waitpid (pid c) (set_wstatus wstatus (exit_status c)) False s
        })"

section \<open>Exiting, stopping and continuing\<close>

definition k_proc_exit :: "addr option \<Rightarrow> int \<Rightarrow> kernel \<Rightarrow> (call_result \<times> kernel) option" where
  "k_proc_exit process status s =
     (case process of
        None \<Rightarrow> Some (Returned E_INVALID_ARGUMENT, s)
      | Some a \<Rightarrow>
          if \<not> sched_live s then Some (Returned E_INVALID_SCHEDULER_STATE, s)
          else do {
            c \<leftarrow> pcbs s a;
            let s = log_exited (pid c) (int (priority c)) (name_or (command c)) s;
            s \<leftarrow> upd_pcb a (\<lambda>c. c\<lparr>state := PROCESS_ZOMBIED, exit_status := status\<rparr>) s;
            (_, s) \<leftarrow> k_remove_from_active_queue (Some a) s;
            let s = log_zombie (pid c) (int (priority c)) (command c) s;
            s \<leftarrow> q_push Zombie a s;
            s \<leftarrow> unblock_parents a s;
            s \<leftarrow> reparent_children a s;
            c \<leftarrow> pcbs s a;
            cur \<leftarrow> current_process s;
            cc \<leftarrow> pcbs s cur;
            Some (if pid c = pid cc then Thread_exited else Returned 0, s)
          })"

definition k_stop_process :: "addr option \<Rightarrow> kernel \<Rightarrow> (int \<times> kernel) option" where
  "k_stop_process process s =
     (case process of
        None \<Rightarrow> Some (E_INVALID_ARGUMENT, s)
      | Some a \<Rightarrow> do {
          c \<leftarrow> pcbs s a;
          if state c = PROCESS_STOPPED then Some (E_STOP_STOPPED_PROCESS, s)
          else do {
            let s = log_stopped (pid c) (int (priority c)) (name_or (command c)) s;
            (removed, s) \<leftarrow> k_remove_from_active_queue (Some a) s;
            if removed then do {
              s \<leftarrow> upd_pcb a (\<lambda>c. c\<lparr>state := PROCESS_STOPPED\<rparr>) s;
              s \<leftarrow> q_push Stopped a s;
              s \<leftarrow> unblock_parents a s;
              Some (0, s)
            }
            else Some (E_STOP_NON_ACTIVE_QUEUE_PROCESS, s)
          }
        })"

definition k_continue_process :: "addr option \<Rightarrow> kernel \<Rightarrow> (int \<times> kernel) option" where
  "k_continue_process process s =
     (case process of
        None \<Rightarrow> Some (E_INVALID_ARGUMENT, s)
      | Some a \<Rightarrow> do {
          c \<leftarrow> pcbs s a;
          if state c \<noteq> PROCESS_STOPPED then Some (E_CONTINUE_NON_STOPPED_PROCESS, s)
          else do {
            let s = log_continued (pid c) (int (priority c)) (name_or (command c)) s;
            (removed, s) \<leftarrow> unlink_if_member Stopped a s;
            if removed then do {
              s \<leftarrow> upd_pcb a (\<lambda>c. c\<lparr>state := PROCESS_RUNNING\<rparr>) s;
              (_, s) \<leftarrow> k_add_to_ready_queue (Some a) s;
              Some (0, s)
            }
            else Some (E_CONTINUE_NON_STOPPED_PROCESS, s)
          }
        })"

section \<open>Priorities and sleeping\<close>

definition k_set_priority :: "addr option \<Rightarrow> int \<Rightarrow> kernel \<Rightarrow> (int \<times> kernel) option" where
  "k_set_priority process prio s =
     (case process of
        None \<Rightarrow> Some (E_INVALID_ARGUMENT, s)
      | Some a \<Rightarrow>
          if prio < int PRIORITY_HIGH \<or> prio > int PRIORITY_LOW then Some (E_INVALID_ARGUMENT, s)
          else do {
            c \<leftarrow> pcbs s a;
            s \<leftarrow> upd_pcb a (\<lambda>c. c\<lparr>priority := nat prio\<rparr>) s;
            if state c = PROCESS_RUNNING \<and> int (priority c) \<noteq> prio then do {
              (removed, s) \<leftarrow> unlink_if_member (Ready (priority c)) a s;
              if removed then do {
                (status, s) \<leftarrow> k_add_to_ready_queue (Some a) s;
                Some (if status < 0 then status else 0, s)
              }
              else Some (E_RUNNING_PROCESS_NOT_IN_READY_QUEUE, s)
            }
            else Some (0, s)
          })"

definition k_sleep :: "addr option \<Rightarrow> nat \<Rightarrow> kernel \<Rightarrow> (int \<times> kernel) option" where
  "k_sleep process n s =
     (case process of
        None \<Rightarrow> Some (E_INVALID_ARGUMENT, s)
      | Some a \<Rightarrow>
          if n = 0 then Some (E_INVALID_ARGUMENT, s)
          else do {
            c \<leftarrow> pcbs s a;
            let s = log_sleep (pid c) (int (priority c)) (name_or (command c)) s;
            s \<leftarrow> upd_pcb a (\<lambda>c. c\<lparr>sleep_time := of_nat n\<rparr>) s;
            s \<leftarrow> block_process a s;
            Some (0, s)
          })"

definition k_resume_sleep :: "addr option \<Rightarrow> kernel \<Rightarrow> (bool \<times> kernel) option" where
  "k_resume_sleep process s =
     (case process of
        None \<Rightarrow> Some (False, s)
      | Some a \<Rightarrow> do {
          c \<leftarrow> pcbs s a;
          if sleep_time c \<le> 0 then Some (False, s)
          else do { s \<leftarrow> block_process a s; Some (True, s) }
        })"

definition k_get_quantum :: "kernel \<Rightarrow> int" where
  "k_get_quantum s = quantum s"

definition k_toggle_logging :: "kernel \<Rightarrow> kernel" where
  "k_toggle_logging s = s\<lparr>extra_logging_enabled := \<not> extra_logging_enabled s\<rparr>"

definition k_logout :: "kernel \<Rightarrow> kernel" where
  "k_logout s = s\<lparr>logout_issued := True\<rparr>"

end
