(* ===== verification/Proc_Kernel.thy ===== *)
theory Proc_Kernel
  imports Process_Ops
begin

text \<open>
  Creating and cleaning up processes (\<^verbatim>\<open>src/src/scheduler/kernel.c\<close>). The outcomes of the memory
  allocator and of \<open>spthread_create\<close> are the fields of \<open>create_env\<close>; \<open>ce_pcb\<close> gives the address
  of the new block with the contents it happens to have, which the fields that the code does not
  assign (\<open>errnumber\<close>, unused descriptor entries) keep. A string vector is a list of strings,
  \<^term>\<open>None\<close> the null pointer; duplicating it copies the value.
\<close>

record create_env =
  ce_pcb :: "(addr \<times> pcb) option"
  ce_children :: bool
  ce_argv :: bool
  ce_strdup :: "nat \<Rightarrow> bool"
  ce_command :: bool
  ce_thread :: bool
  ce_create :: bool
  ce_node :: "addr option"

definition duplicate_argv :: "create_env \<Rightarrow> byte list list option \<Rightarrow> byte list list option" where
  "duplicate_argv m args =
     (case args of
        None \<Rightarrow> None
      | Some xs \<Rightarrow>
          if \<not> ce_argv m then None
          else if list_all (ce_strdup m) [0..<length xs] then Some xs else None)"

section \<open>k_proc_create\<close>

text \<open>The descriptors 0, 1 and 2 of a new process; 1 is \<open>F_WRITE\<close> and 0 is \<open>F_READ\<close>.\<close>

definition std_entry :: "nat \<Rightarrow> nat \<Rightarrow> process_fd_entry" where
  "std_entry fd mode = \<lparr>pf_global_fd = fd, pf_offset = 0, pf_mode = mode, pf_in_use = True\<rparr>"

definition initial_fd_table :: "process_fd_entry list \<Rightarrow> process_fd_entry list" where
  "initial_fd_table t =
     (map (\<lambda>e. e\<lparr>pf_in_use := False\<rparr>) t)
       [0 := std_entry 0 1, 1 := std_entry 1 0, 2 := std_entry 2 0]"

definition fresh_pcb :: "pcb \<Rightarrow> int \<Rightarrow> pcb option \<Rightarrow> nat \<Rightarrow> pcb" where
  "fresh_pcb junk p parent prio =
     junk\<lparr>pid := p,
          ppid := (case parent of Some c \<Rightarrow> pid c | None \<Rightarrow> 1),
          pgid := (case parent of Some c \<Rightarrow> if pid c = 1 then p else pgid c | None \<Rightarrow> p),
          children := None,
          process_fd_table := initial_fd_table (process_fd_table junk),
          state := PROCESS_RUNNING, waited_child := -2, ignore_sigint := False,
          ignore_sigtstp := False, priority := prio, sleep_time := 0, thread := False,
          command := None, argv := None, exit_status := 0\<rparr>"

text \<open>
  The steps after the block is initialised. The fields \<open>children\<close>, \<open>thread\<close>, \<open>command\<close> and \<open>argv\<close>
  are assigned one after the other in the source; on every failure the block is freed, so the
  intermediate blocks are not visible and only the final one is stored.
\<close>

definition attach_child :: "addr option \<Rightarrow> addr \<Rightarrow> kernel \<Rightarrow> kernel option" where
  "attach_child parent n s =
     (case parent of
        None \<Rightarrow> Some s
      | Some pa \<Rightarrow> do {
          pc \<leftarrow> pcbs s pa;
          case children pc of
            None \<Rightarrow> Some s
          | Some ch \<Rightarrow> do {
              (ch, h) \<leftarrow> linked_list_push_tail n (ch, clinks s);
              upd_pcb pa (\<lambda>c. c\<lparr>children := Some ch\<rparr>) (s\<lparr>clinks := h\<rparr>)
            }
        })"

definition inherit_fds :: "addr option \<Rightarrow> addr \<Rightarrow> kernel \<Rightarrow> kernel option" where
  "inherit_fds parent a s =
     (case parent of
        None \<Rightarrow> Some s
      | Some pa \<Rightarrow> do {
          pc \<leftarrow> pcbs s pa;
          upd_pcb a (\<lambda>c. c\<lparr>process_fd_table := process_fd_table pc\<rparr>) s
        })"

definition launch ::
  "create_env \<Rightarrow> addr option \<Rightarrow> addr \<Rightarrow> byte list list option \<Rightarrow> kernel \<Rightarrow> (int \<times> kernel) option" where
  "launch m parent a args s =
     (let freed = s\<lparr>pcbs := (pcbs s)(a := None)\<rparr> in
      if \<not> ce_children m then Some (E_FAILED_TO_ALLOCATE, freed)
      else case duplicate_argv m args of
        None \<Rightarrow> Some (E_FAILED_TO_ALLOCATE, freed)
      | Some xs \<Rightarrow>
          if xs \<noteq> [] \<and> \<not> ce_command m then Some (E_BAD_ARGV, freed)
          else if \<not> ce_thread m \<or> \<not> ce_create m then Some (E_FAILED_TO_ALLOCATE, freed)
          else do {
            let cmd = (case xs of [] \<Rightarrow> None | x # _ \<Rightarrow> Some x);
            s \<leftarrow> upd_pcb a (\<lambda>c. c\<lparr>children := Some (linked_list_new False), argv := Some xs,
                                  command := cmd, thread := True\<rparr>) s;
            c \<leftarrow> pcbs s a;
            let s = log_create (pid c) (int (priority c)) cmd s;
            case ce_node m of
              None \<Rightarrow> Some (E_FAILED_TO_ALLOCATE, s\<lparr>pcbs := (pcbs s)(a := None)\<rparr>)
            | Some n \<Rightarrow> do {
                let s = s\<lparr>cprocess := (cprocess s)(n := a)\<rparr>;
                s \<leftarrow> attach_child parent n s;
                s \<leftarrow> inherit_fds parent a s;
                (_, s) \<leftarrow> k_add_to_ready_queue (Some a) s;
                Some (pid c, s)
              }
          })"

definition k_proc_create ::
  "create_env \<Rightarrow> addr option \<Rightarrow> byte list list option \<Rightarrow> nat \<Rightarrow> kernel \<Rightarrow> (int \<times> kernel) option" where
  "k_proc_create m parent args prio s =
     (if \<not> sched_live s then None
      else if parent = None \<and> init_process s \<noteq> None then Some (E_INIT_ALREADY_EXISTS, s)
      else case ce_pcb m of
        None \<Rightarrow> Some (E_FAILED_TO_ALLOCATE, s)
      | Some (a, junk) \<Rightarrow> do {
          let s = s\<lparr>process_count := u32 (process_count s + 1)\<rparr>;
          pc \<leftarrow> (case parent of None \<Rightarrow> Some None | Some pa \<Rightarrow> map_option Some (pcbs s pa));
          let c = fresh_pcb junk (s32 (process_count s)) pc prio;
          let s = s\<lparr>pcbs := (pcbs s)(a := Some c),
                    plinks := set_next a None (set_prev a None (plinks s)),
                    init_process := (if parent = None then Some a else init_process s)\<rparr>;
          launch m parent a args s
        })"

section \<open>k_proc_cleanup\<close>

text \<open>
  The loop pops the children one by one; the check for an \<open>init\<close> process with a children list is
  made again in every round. The result carries the code of an early return, if any.
\<close>

partial_function (option) cleanup_loop :: "addr \<Rightarrow> kernel \<Rightarrow> (int option \<times> kernel) option" where
  "cleanup_loop a s = do {
     c \<leftarrow> pcbs s a;
     ch \<leftarrow> children c;
     case linked_list_pop_head (ch, clinks s) of
       (None, _) \<Rightarrow> Some (None, s)
     | (Some n, ch, h) \<Rightarrow> do {
         s \<leftarrow> upd_pcb a (\<lambda>c. c\<lparr>children := Some ch\<rparr>) (s\<lparr>clinks := h\<rparr>);
         ini \<leftarrow> init_process s;
         ic \<leftarrow> pcbs s ini;
         case children ic of
           None \<Rightarrow> do {
             _ \<leftarrow> pcbs s (cprocess s n);
             Some (Some E_NO_INIT_PROCESS, s\<lparr>pcbs := (pcbs s)(cprocess s n := None)\<rparr>)
           }
         | Some _ \<Rightarrow> do {
             s \<leftarrow> upd_pcb (cprocess s n) (\<lambda>c. c\<lparr>ppid := pid ic\<rparr>) s;
             ic \<leftarrow> pcbs s ini;
             ich \<leftarrow> children ic;
             (ich, h) \<leftarrow> linked_list_push_tail n (ich, clinks s);
             s \<leftarrow> upd_pcb ini (\<lambda>c. c\<lparr>children := Some ich\<rparr>) (s\<lparr>clinks := h\<rparr>);
             cleanup_loop a s
           }
       }
   }"

definition k_proc_cleanup :: "addr option \<Rightarrow> kernel \<Rightarrow> (int \<times> kernel) option" where
  "k_proc_cleanup proc s =
     (case proc of
        None \<Rightarrow> Some (0, s)
      | Some a \<Rightarrow> do {
          c \<leftarrow> pcbs s a;
          (early, s) \<leftarrow>
            (if sched_live s \<and> init_process s \<noteq> None \<and> children c \<noteq> None then cleanup_loop a s
             else Some (None, s));
          case early of
            Some code \<Rightarrow> Some (code, s)
          | None \<Rightarrow> Some (0, s\<lparr>pcbs := (pcbs s)(a := None)\<rparr>)
        })"

end
