(* ===== verification/Syscalls.thy ===== *)
theory Syscalls
  imports Proc_Kernel
begin

unbundle bit_operations_syntax

text \<open>
  The system calls on processes (\<^verbatim>\<open>src/src/scheduler/sys.c\<close>), one definition per function. They run
  on the kernel state; \<^term>\<open>None\<close> is a fault, such as \<open>s_set_errno\<close> without a current process.

  A call that suspends its own thread gives \<open>Wait_suspend\<close>; what it does when the thread runs
  again is the corresponding \<open>_resume\<close> definition. A call that ends its own thread gives
  \<open>Thread_exited\<close>. The \<open>func\<close> argument of \<open>s_spawn\<close> is the code of the new thread and does not
  appear; the outcomes of the allocator are its first argument, as for \<open>k_proc_create\<close>.
\<close>

abbreviation P_SIGTERM :: int where "P_SIGTERM \<equiv> 1"
abbreviation P_SIGSTOP :: int where "P_SIGSTOP \<equiv> 2"
abbreviation P_SIGCONT :: int where "P_SIGCONT \<equiv> 3"
abbreviation P_SIGINT :: int where "P_SIGINT \<equiv> 4"
abbreviation P_SIGTSTP :: int where "P_SIGTSTP \<equiv> 5"

section \<open>The error number\<close>

definition s_set_errno :: "int \<Rightarrow> kernel \<Rightarrow> kernel option" where
  "s_set_errno e s = do {
     cur \<leftarrow> k_get_current_process s;
     upd_pcb cur (\<lambda>c. c\<lparr>errnumber := e\<rparr>) s
   }"

definition s_get_errno :: "kernel \<Rightarrow> int option" where
  "s_get_errno s = do { cur \<leftarrow> k_get_current_process s; c \<leftarrow> pcbs s cur; Some (errnumber c) }"

text \<open>The end of a failing call: \<open>s_set_errno(e); return -1;\<close>\<close>

definition fail :: "int \<Rightarrow> kernel \<Rightarrow> (int \<times> kernel) option" where
  "fail e s = do { s \<leftarrow> s_set_errno e s; Some (-1, s) }"

section \<open>s_spawn\<close>

definition fd_entry :: "pcb \<Rightarrow> int \<Rightarrow> process_fd_entry option" where
  "fd_entry c fd =
     (if 0 \<le> fd \<and> nat fd < length (process_fd_table c) then Some (process_fd_table c ! nat fd) else None)"

definition set_fd_entry :: "int \<Rightarrow> process_fd_entry \<Rightarrow> pcb \<Rightarrow> pcb" where
  "set_fd_entry fd e c = c\<lparr>process_fd_table := (process_fd_table c)[nat fd := e]\<rparr>"

text \<open>Setting an entry in the table of the process that the lookup finds.\<close>

definition redirect :: "int \<Rightarrow> int \<Rightarrow> process_fd_entry \<Rightarrow> kernel \<Rightarrow> kernel option" where
  "redirect p fd e s = do {
     found \<leftarrow> k_get_process_by_pid p s;
     a \<leftarrow> found;
     upd_pcb a (set_fd_entry fd e) s
   }"

definition s_spawn ::
  "create_env \<Rightarrow> byte list list option \<Rightarrow> int \<Rightarrow> int \<Rightarrow> nat \<Rightarrow> kernel \<Rightarrow> (int \<times> kernel) option" where
  "s_spawn m args fd0 fd1 prio s =
     (let parent = k_get_current_process s in
      do {
        (new_pid, s) \<leftarrow> k_proc_create m parent args prio s;
        if new_pid < 0 then fail new_pid s
        else case parent of
          None \<Rightarrow> Some (new_pid, s)
        | Some pa \<Rightarrow>
            if fd0 < 0 \<or> fd0 \<ge> int PROCESS_FD_TABLE_SIZE \<or> fd1 < 0 \<or> fd1 \<ge> int PROCESS_FD_TABLE_SIZE
            then fail E_INVALID_ARGUMENT s
            else do {
              pc \<leftarrow> pcbs s pa;
              stdin_fd_entry \<leftarrow> fd_entry pc fd0;
              stdout_fd_entry \<leftarrow> fd_entry pc fd1;
              if \<not> pf_in_use stdin_fd_entry \<or> \<not> pf_in_use stdout_fd_entry
              then fail E_INVALID_ARGUMENT s
              else do {
                s \<leftarrow> redirect new_pid 0 stdin_fd_entry s;
                s \<leftarrow> redirect new_pid 1 stdout_fd_entry s;
                Some (new_pid, s)
              }
            }
      })"

section \<open>Wait status\<close>

definition P_WIFEXITED :: "int \<Rightarrow> bool" where
  "P_WIFEXITED wstatus \<longleftrightarrow> wstatus AND 1 \<noteq> 0"

definition P_WIFSTOPPED :: "int \<Rightarrow> bool" where
  "P_WIFSTOPPED wstatus \<longleftrightarrow> wstatus AND 2 \<noteq> 0"

definition P_WIFSIGNALED :: "int \<Rightarrow> bool" where
  "P_WIFSIGNALED wstatus \<longleftrightarrow> wstatus AND 4 \<noteq> 0"

section \<open>Terminal control and waiting\<close>

definition s_tcsetpid :: "int \<Rightarrow> kernel \<Rightarrow> (int \<times> kernel) option" where
  "s_tcsetpid p s = do {
     tc \<leftarrow> k_tcgetpid s;
     cur \<leftarrow> k_get_current_process s;
     c \<leftarrow> pcbs s cur;
     if tc = pid c then do { s \<leftarrow> k_tcsetpid p s; Some (0, s) }
     else fail E_TCSET_NO_TERMINAL_CONTROL s
   }"

text \<open>What \<open>s_waitpid\<close> makes of the result of \<open>k_waitpid\<close>.\<close>

definition wait_done ::
  "wait_result \<times> int option \<times> kernel \<Rightarrow> (wait_result \<times> int option \<times> kernel) option" where
  "wait_done = (\<lambda>(r, w, s).
     case r of
       Wait_suspend \<Rightarrow> Some (Wait_suspend, w, s)
     | Wait_return status \<Rightarrow>
         if status < 0 then do { (v, s) \<leftarrow> fail status s; Some (Wait_return v, w, s) }
         else Some (Wait_return 0, w, s))"

definition s_waitpid ::
  "int \<Rightarrow> int option \<Rightarrow> bool \<Rightarrow> kernel \<Rightarrow> (wait_result \<times> int option \<times> kernel) option" where
  "s_waitpid p wstatus nohang s = do {
     s \<leftarrow> (if p \<noteq> -1 \<and> \<not> nohang then map_option snd (s_tcsetpid p s) else Some s);
     r \<leftarrow> k_waitpid p wstatus nohang s;
     wait_done r
   }"

definition s_waitpid_resume ::
  "addr option \<Rightarrow> int option \<Rightarrow> kernel \<Rightarrow> (wait_result \<times> int option \<times> kernel) option" where
  "s_waitpid_resume child wstatus s = do { r \<leftarrow> k_waitpid_resume child wstatus s; wait_done r }"

section \<open>Signals\<close>

text \<open>
  The switch of \<open>s_kill\<close> either leaves the function or breaks with the value of the variable
  \<open>success\<close>, which is false at the beginning. A branch that acts sets \<open>success\<close> and \<open>errno\<close> when the kernel
  operation fails.
\<close>

datatype kill_flow = Leave call_result | Break bool

definition kill_status :: "bool \<Rightarrow> int \<Rightarrow> kernel \<Rightarrow> (kill_flow \<times> kernel) option" where
  "kill_status success status s =
     (if status \<noteq> 0 then do { s \<leftarrow> s_set_errno status s; Some (Break False, s) }
      else Some (Break success, s))"

definition kill_term :: "addr \<Rightarrow> bool \<Rightarrow> kernel \<Rightarrow> (kill_flow \<times> kernel) option" where
  "kill_term a success s = do {
     (r, s) \<leftarrow> k_proc_exit (Some a) 1 s;
     case r of Thread_exited \<Rightarrow> Some (Leave Thread_exited, s) | Returned status \<Rightarrow> kill_status success status s
   }"

definition kill_stop :: "addr \<Rightarrow> bool \<Rightarrow> kernel \<Rightarrow> (kill_flow \<times> kernel) option" where
  "kill_stop a success s = do {
     c \<leftarrow> pcbs s a;
     if pid c \<noteq> 1 then do { (status, s) \<leftarrow> k_stop_process (Some a) s; kill_status success status s }
     else Some (Break success, s)
   }"

definition kill_cont :: "addr \<Rightarrow> bool \<Rightarrow> kernel \<Rightarrow> (kill_flow \<times> kernel) option" where
  "kill_cont a success s = do {
     c \<leftarrow> pcbs s a;
     if pid c \<noteq> 1 then do { (status, s) \<leftarrow> k_continue_process (Some a) s; kill_status success status s }
     else Some (Break success, s)
   }"

definition kill_switch :: "addr \<Rightarrow> int \<Rightarrow> bool \<Rightarrow> kernel \<Rightarrow> (kill_flow \<times> kernel) option" where
  "kill_switch a signal success s = do {
     c \<leftarrow> pcbs s a;
     if signal = P_SIGINT then
       (let s = log_signaled (pid c) (int (priority c)) (command c) s in
        if ignore_sigint c then Some (Leave (Returned 0), s) else kill_term a success s)
     else if signal = P_SIGTERM then kill_term a success s
     else if signal = P_SIGTSTP then
       if ignore_sigtstp c then Some (Leave (Returned 0), s) else kill_stop a success s
     else if signal = P_SIGSTOP then kill_stop a success s
     else if signal = P_SIGCONT then kill_cont a success s
     else map_option (apfst (\<lambda>r. Leave (Returned r))) (fail E_INVALID_ARGUMENT s)
   }"

definition kill_return :: "int \<Rightarrow> addr \<Rightarrow> kill_flow \<times> kernel \<Rightarrow> (call_result \<times> kernel) option" where
  "kill_return p a = (\<lambda>(flow, s).
     case flow of
       Leave r \<Rightarrow> Some (r, s)
     | Break success \<Rightarrow> do {
         s \<leftarrow> (if success then do {
                c \<leftarrow> pcbs s a;
                Some (log_signaled p (int (priority c)) (name_or (command c)) s)
              } else Some s);
         Some (Returned (if success then 0 else -1), s)
       })"

definition s_kill :: "int \<Rightarrow> int \<Rightarrow> kernel \<Rightarrow> (call_result \<times> kernel) option" where
  "s_kill p signal s = do {
     target \<leftarrow> k_get_process_by_pid p s;
     case target of
       None \<Rightarrow> map_option (apfst Returned) (fail E_NO_SUCH_PROCESS s)
     | Some a \<Rightarrow>
         if p = 1 then map_option (apfst Returned) (fail E_TRIED_TO_KILL_INIT s)
         else do { r \<leftarrow> kill_switch a signal False s; kill_return p a r }
   }"

section \<open>Exit, priority, sleep\<close>

definition s_exit :: "int \<Rightarrow> kernel \<Rightarrow> (call_result \<times> kernel) option" where
  "s_exit status s =
     (case k_get_current_process s of
        None \<Rightarrow> do { s \<leftarrow> s_set_errno E_INVALID_ARGUMENT s; Some (Returned 0, s) }
      | Some cur \<Rightarrow> do {
          (r, s) \<leftarrow> k_proc_exit (Some cur) status s;
          case r of
            Thread_exited \<Rightarrow> Some (Thread_exited, s)
          | Returned ret \<Rightarrow> do {
              s \<leftarrow> (if ret \<noteq> 0 then s_set_errno ret s else Some s);
              Some (Returned 0, s)
            }
        })"

definition s_nice :: "int \<Rightarrow> int \<Rightarrow> kernel \<Rightarrow> (int \<times> kernel) option" where
  "s_nice p prio s = do {
     target \<leftarrow> k_get_process_by_pid p s;
     case target of
       None \<Rightarrow> fail E_NO_SUCH_PROCESS s
     | Some a \<Rightarrow>
         if prio < int PRIORITY_HIGH \<or> prio > int PRIORITY_LOW then fail E_INVALID_ARGUMENT s
         else do {
           (status, s) \<leftarrow> k_set_priority (Some a) prio s;
           if status = 0 then do {
             c \<leftarrow> pcbs s a;
             Some (0, log_nice p (int (priority c)) prio (name_or (command c)) s)
           }
           else fail status s
         }
   }"

definition s_sleep :: "nat \<Rightarrow> kernel \<Rightarrow> (wait_result \<times> kernel) option" where
  "s_sleep n s =
     (if n = 0 then Some (Wait_return 0, s)
      else case k_get_current_process s of
        None \<Rightarrow> map_option (apfst Wait_return) (fail E_NO_CURRENT_PROCESS s)
      | Some cur \<Rightarrow> do {
          (status, s) \<leftarrow> k_sleep (Some cur) n s;
          if status = 0 then Some (Wait_suspend, s)
          else map_option (apfst Wait_return) (fail status s)
        })"

text \<open>The loop after the first suspension; each round of it starts when the thread runs again.\<close>

definition s_sleep_resume :: "addr \<Rightarrow> kernel \<Rightarrow> (wait_result \<times> kernel) option" where
  "s_sleep_resume cur s = do {
     (again, s) \<leftarrow> k_resume_sleep (Some cur) s;
     Some (if again then Wait_suspend else Wait_return 0, s)
   }"

section \<open>Signal dispositions and wrappers\<close>

definition s_ignore_sigint :: "bool \<Rightarrow> kernel \<Rightarrow> (int \<times> kernel) option" where
  "s_ignore_sigint ignore s =
     (case k_get_current_process s of
        None \<Rightarrow> fail E_NO_CURRENT_PROCESS s
      | Some cur \<Rightarrow> do { s \<leftarrow> upd_pcb cur (\<lambda>c. c\<lparr>ignore_sigint := ignore\<rparr>) s; Some (0, s) })"

definition s_ignore_sigtstp :: "bool \<Rightarrow> kernel \<Rightarrow> (int \<times> kernel) option" where
  "s_ignore_sigtstp ignore s =
     (case k_get_current_process s of
        None \<Rightarrow> fail E_NO_CURRENT_PROCESS s
      | Some cur \<Rightarrow> do { s \<leftarrow> upd_pcb cur (\<lambda>c. c\<lparr>ignore_sigtstp := ignore\<rparr>) s; Some (0, s) })"

definition s_logout :: "kernel \<Rightarrow> kernel" where
  "s_logout s = k_logout s"

definition s_get_current_process :: "kernel \<Rightarrow> addr option" where
  "s_get_current_process s = k_get_current_process s"

definition s_init_scheduler ::
  "(addr option \<times> addr option \<times> nat) option \<Rightarrow> kernel \<Rightarrow> int \<times> kernel" where
  "s_init_scheduler junk s = init_scheduler junk s"

definition s_run_scheduler :: "(addr \<Rightarrow> kernel \<Rightarrow> kernel option) \<Rightarrow> kernel \<Rightarrow> kernel option" where
  "s_run_scheduler run s = run_scheduler run s"

end
