(* ===== verification/File_Syscalls.thy ===== *)
theory File_Syscalls
  imports Syscalls Fat_Ops
begin

text \<open>
  The system calls on files (\<^verbatim>\<open>src/src/scheduler/fat_syscalls.c\<close>), the listing of processes
  (\<open>k_get_all_process_info\<close> in \<^verbatim>\<open>scheduler.c\<close>) and \<open>u_perror\<close> (\<^verbatim>\<open>src/src/utils/errno.c\<close>): the
  functions that use the kernel state and the file system together. The state is the pair of
  both; the per-process descriptor tables are in the process control blocks, the global table is
  in the file system.
\<close>

record os =
  kern :: kernel
  fsys :: fatfs

text \<open>Lifting a call that acts on one of the two parts.\<close>

definition on_kern :: "(kernel \<Rightarrow> ('a \<times> kernel) option) \<Rightarrow> os \<Rightarrow> ('a \<times> os) option" where
  "on_kern f s = do { (r, k) \<leftarrow> f (kern s); Some (r, s\<lparr>kern := k\<rparr>) }"

definition on_fsys :: "(fatfs \<Rightarrow> ('a \<times> fatfs) option) \<Rightarrow> os \<Rightarrow> ('a \<times> os) option" where
  "on_fsys f s = do { (r, fs) \<leftarrow> f (fsys s); Some (r, s\<lparr>fsys := fs\<rparr>) }"

section \<open>The descriptor table of the current process\<close>

abbreviation PROCESS_FD_TABLE_ENTRY_NOT_FOUND_SENTINEL :: nat
  where "PROCESS_FD_TABLE_ENTRY_NOT_FOUND_SENTINEL \<equiv> 0xFFFF"

definition current_pcb :: "kernel \<Rightarrow> (addr \<times> pcb) option" where
  "current_pcb k = do { cur \<leftarrow> k_get_current_process k; c \<leftarrow> pcbs k cur; Some (cur, c) }"

text \<open>The scan from index \<open>i\<close>, \<open>n\<close> entries left; the C array has 128 entries.\<close>

fun find_spot_from :: "process_fd_entry list \<Rightarrow> nat \<Rightarrow> nat \<Rightarrow> nat option" where
  "find_spot_from t i 0 = Some PROCESS_FD_TABLE_ENTRY_NOT_FOUND_SENTINEL"
| "find_spot_from t i (Suc n) =
     (if i \<ge> length t then None
      else if \<not> pf_in_use (t ! i) then Some i else find_spot_from t (Suc i) n)"

definition find_empty_spot_in_process_fd_table :: "kernel \<Rightarrow> nat option" where
  "find_empty_spot_in_process_fd_table k = do {
     (_, c) \<leftarrow> current_pcb k;
     find_spot_from (process_fd_table c) 0 PROCESS_FD_TABLE_SIZE
   }"

text \<open>
  The check at the start of \<open>s_read\<close>, \<open>s_write\<close> and \<open>s_close\<close>: the entry if the descriptor is in
  use. A negative descriptor is not checked and indexes before the array.
\<close>

definition fd_in_use :: "int \<Rightarrow> pcb \<Rightarrow> process_fd_entry option option" where
  "fd_in_use fd c =
     (if fd \<ge> int PROCESS_FD_TABLE_SIZE then Some None
      else do { e \<leftarrow> fd_entry c fd; Some (if pf_in_use e then Some e else None) })"

definition upd_fd_entry ::
  "addr \<Rightarrow> int \<Rightarrow> (process_fd_entry \<Rightarrow> process_fd_entry) \<Rightarrow> kernel \<Rightarrow> kernel option" where
  "upd_fd_entry cur fd g k = do {
     c \<leftarrow> pcbs k cur;
     e \<leftarrow> fd_entry c fd;
     upd_pcb cur (set_fd_entry fd (g e)) k
   }"

section \<open>s_open and s_close\<close>

definition s_open :: "host \<Rightarrow> byte list \<Rightarrow> int \<Rightarrow> os \<Rightarrow> (int \<times> os) option" where
  "s_open h fname mode s = do {
     (global_fd, s) \<leftarrow> on_fsys (k_open h fname mode) s;
     if global_fd < 0 then on_kern (fail global_fd) s
     else do {
       empty_spot \<leftarrow> find_empty_spot_in_process_fd_table (kern s);
       if empty_spot = PROCESS_FD_TABLE_ENTRY_NOT_FOUND_SENTINEL
       then on_kern (fail E_PROCESS_FILE_TABLE_FULL) s
       else do {
         (cur, _) \<leftarrow> current_pcb (kern s);
         k \<leftarrow> upd_fd_entry cur (int empty_spot)
                (\<lambda>e. e\<lparr>pf_global_fd := u16 (nat global_fd), pf_in_use := True, pf_offset := 0,
                       pf_mode := u8_of_int mode\<rparr>) (kern s);
         Some (int empty_spot, s\<lparr>kern := k\<rparr>)
       }
     }
   }"

definition s_close :: "host \<Rightarrow> int \<Rightarrow> os \<Rightarrow> (int \<times> os) option" where
  "s_close h fd s = do {
     (cur, c) \<leftarrow> current_pcb (kern s);
     entry \<leftarrow> fd_in_use fd c;
     case entry of
       None \<Rightarrow> on_kern (fail E_UNKNOWN_FD) s
     | Some e \<Rightarrow> do {
         (_, s) \<leftarrow> on_fsys (k_close h (int (pf_global_fd e))) s;
         k \<leftarrow> upd_fd_entry cur fd (\<lambda>e. e\<lparr>pf_in_use := False\<rparr>) (kern s);
         Some (0, s\<lparr>kern := k\<rparr>)
       }
   }"

section \<open>s_read and s_write\<close>

text \<open>
  A process without terminal control that uses descriptor 0 of the terminal is stopped; its
  thread runs on until the end of its quantum, so the call goes on.
\<close>

definition terminal_check :: "host \<Rightarrow> string \<Rightarrow> pcb \<Rightarrow> process_fd_entry \<Rightarrow> os \<Rightarrow> os option" where
  "terminal_check h verb c e s = do {
     tc \<leftarrow> k_tcgetpid (kern s);
     if pf_global_fd e = 0 \<and> tc \<noteq> pid c then do {
       (_, s) \<leftarrow> on_fsys (k_fprintf_short h 2 (Some
                   (ascii ''[WARN]: process '' @ decimal (pid c) @ ascii '' tried to '' @ ascii verb @
                    ascii '' terminal STDIN without terminal control'' @ [10]))) s;
       (r, s) \<leftarrow> on_kern (s_kill (pid c) P_SIGSTOP) s;
       case r of Returned _ \<Rightarrow> Some s | Thread_exited \<Rightarrow> None
     }
     else Some s
   }"

definition add_offset :: "int \<Rightarrow> process_fd_entry \<Rightarrow> process_fd_entry" where
  "add_offset n e = e\<lparr>pf_offset := u32_of_int (int (pf_offset e) + n)\<rparr>"

definition s_read :: "host \<Rightarrow> int \<Rightarrow> int \<Rightarrow> os \<Rightarrow> ((int \<times> byte list) \<times> os) option" where
  "s_read h fd n s = do {
     (cur, c) \<leftarrow> current_pcb (kern s);
     entry \<leftarrow> fd_in_use fd c;
     case entry of
       None \<Rightarrow> map_option (apfst (\<lambda>r. (r, []))) (on_kern (fail E_READ_UNKNOWN_FD) s)
     | Some e \<Rightarrow> do {
         s \<leftarrow> terminal_check h ''read from'' c e s;
         (_, s) \<leftarrow> on_fsys (k_lseek (int (pf_global_fd e)) (s32 (pf_offset e)) F_SEEK_SET) s;
         ((bytes_read, buf), s) \<leftarrow> on_fsys (k_read h (int (pf_global_fd e)) n) s;
         k \<leftarrow> upd_fd_entry cur fd (add_offset bytes_read) (kern s);
         Some ((bytes_read, buf), s\<lparr>kern := k\<rparr>)
       }
   }"

definition s_write :: "host \<Rightarrow> int \<Rightarrow> byte list \<Rightarrow> int \<Rightarrow> os \<Rightarrow> (int \<times> os) option" where
  "s_write h fd str n s = do {
     (cur, c) \<leftarrow> current_pcb (kern s);
     entry \<leftarrow> fd_in_use fd c;
     case entry of
       None \<Rightarrow> on_kern (fail E_UNKNOWN_FD) s
     | Some e \<Rightarrow> do {
         s \<leftarrow> terminal_check h ''write to'' c e s;
         (pos, s) \<leftarrow> on_fsys (k_lseek (int (pf_global_fd e)) (s32 (pf_offset e)) F_SEEK_SET) s;
         let seek_status = s32 (u32_of_int pos);
         if seek_status \<noteq> EK_LSEEK_SPECIAL_FD \<and> seek_status < 0 then on_kern (fail seek_status) s
         else do {
           old_mode \<leftarrow> k_getmode (int (pf_global_fd e)) (fsys s);
           (setmode_status, s) \<leftarrow> on_fsys (k_setmode (int (pf_global_fd e)) (int (pf_mode e))) s;
           if setmode_status \<noteq> 0 then on_kern (fail setmode_status) s
           else do {
             (bytes_written, s) \<leftarrow> on_fsys (k_write h (int (pf_global_fd e)) str n) s;
             (code, s) \<leftarrow> on_fsys (k_setmode (int (pf_global_fd e)) old_mode) s;
             if code \<noteq> 0 then on_kern (fail setmode_status) s
             else do {
               k \<leftarrow> upd_fd_entry cur fd (add_offset bytes_written) (kern s);
               Some (bytes_written, s\<lparr>kern := k\<rparr>)
             }
           }
         }
       }
   }"

text \<open>\<open>formatted\<close> is the string that \<open>vsnprintf\<close> produces, \<^term>\<open>None\<close> when it fails.\<close>

definition s_fprintf_short :: "host \<Rightarrow> int \<Rightarrow> byte list option \<Rightarrow> os \<Rightarrow> (int \<times> os) option" where
  "s_fprintf_short h fd formatted s =
     (case formatted of
        None \<Rightarrow> on_kern (fail E_STRING_FORMAT_FAILED) s
      | Some str \<Rightarrow>
          if length str \<ge> 1024 then on_kern (fail E_STRING_TOO_LONG_FOR_PRINTF_BUF) s
          else let str = takeWhile (\<lambda>b. b \<noteq> 0) str in s_write h fd str (int (length str)) s)"

section \<open>Calls that pass on a status\<close>

definition status_call :: "(fatfs \<Rightarrow> (int \<times> fatfs) option) \<Rightarrow> os \<Rightarrow> (int \<times> os) option" where
  "status_call f s = do {
     (status, s) \<leftarrow> on_fsys f s;
     if status \<noteq> 0 then on_kern (fail status) s else Some (0, s)
   }"

definition s_unlink :: "host \<Rightarrow> byte list \<Rightarrow> os \<Rightarrow> (int \<times> os) option" where
  "s_unlink h fname = status_call (k_unlink h fname)"

definition s_ls :: "host \<Rightarrow> (nat \<Rightarrow> byte list) \<Rightarrow> byte list option \<Rightarrow> os \<Rightarrow> (int \<times> os) option" where
  "s_ls h ft fname = status_call (k_ls h ft fname)"

definition s_chmod :: "host \<Rightarrow> byte list \<Rightarrow> nat \<Rightarrow> int \<Rightarrow> os \<Rightarrow> (int \<times> os) option" where
  "s_chmod h fname perm mode = status_call (k_chmod h fname perm mode)"

definition s_mv :: "host \<Rightarrow> byte list \<Rightarrow> byte list \<Rightarrow> os \<Rightarrow> (int \<times> os) option" where
  "s_mv h src dest = status_call (k_mv h src dest)"

section \<open>The list of processes\<close>

definition pad_left :: "nat \<Rightarrow> byte list \<Rightarrow> byte list" where
  "pad_left w str = replicate (w - length str) 32 @ str"

definition ps_line :: "pcb \<Rightarrow> char \<Rightarrow> byte list" where
  "ps_line c state_char =
     pad_left 3 (decimal (pid c)) @ 32 # pad_left 4 (decimal (ppid c)) @
     32 # pad_left 3 (decimal (int (priority c))) @ 32 # of_char state_char # replicate 4 32 @
     the (name_or (command c)) @ [10]"

partial_function (option) print_processes_loop ::
  "host \<Rightarrow> addr option \<Rightarrow> char \<Rightarrow> kernel \<Rightarrow> fatfs \<Rightarrow> (int \<times> fatfs) option" where
  "print_processes_loop h p state_char k fs =
     (case p of
        None \<Rightarrow> Some (0, fs)
      | Some a \<Rightarrow> do {
          c \<leftarrow> pcbs k a;
          (status, fs) \<leftarrow> (if current_process k \<noteq> Some a
                          then k_fprintf_short h 2 (Some (ps_line c state_char)) fs
                          else Some (0, fs));
          if status < 0 then Some (status, fs)
          else print_processes_loop h (l_next (plinks k) a) state_char k fs
        })"

definition k_print_processes_from_queue ::
  "host \<Rightarrow> queue_id \<Rightarrow> char \<Rightarrow> os \<Rightarrow> (int \<times> os) option" where
  "k_print_processes_from_queue h q state_char s = do {
     self \<leftarrow> sched_q q (kern s);
     on_fsys (print_processes_loop h (ll_head self) state_char (kern s)) s
   }"

fun print_queues :: "host \<Rightarrow> (queue_id \<times> char) list \<Rightarrow> os \<Rightarrow> os option" where
  "print_queues h [] s = Some s"
| "print_queues h ((q, state_char) # qs) s = do {
     (_, s) \<leftarrow> k_print_processes_from_queue h q state_char s;
     print_queues h qs s
   }"

definition ps_header :: "byte list" where
  "ps_header = ascii ''PID PPID PRI STAT CMD'' @ [10]"

definition k_get_all_process_info :: "host \<Rightarrow> os \<Rightarrow> os option" where
  "k_get_all_process_info h s =
     (if \<not> sched_live (kern s) then None
      else do {
        (_, s) \<leftarrow> on_fsys (k_write h 2 ps_header (int (length ps_header))) s;
        s \<leftarrow> (case current_process (kern s) of
                None \<Rightarrow> Some s
              | Some a \<Rightarrow> do {
                  c \<leftarrow> pcbs (kern s) a;
                  if state c \<noteq> PROCESS_ZOMBIED
                  then map_option snd (on_fsys (k_fprintf_short h 2 (Some (ps_line c CHR ''R''))) s)
                  else Some s
                });
        print_queues h [(Ready 0, CHR ''R''), (Ready 1, CHR ''R''), (Ready 2, CHR ''R''),
          (Blocked, CHR ''B''), (Stopped, CHR ''S''), (Zombie, CHR ''Z'')] s
      })"

definition s_get_process_info :: "host \<Rightarrow> os \<Rightarrow> os option" where
  "s_get_process_info h s = k_get_all_process_info h s"

section \<open>u_perror\<close>

definition u_perror :: "host \<Rightarrow> byte list \<Rightarrow> os \<Rightarrow> os option" where
  "u_perror h str s = do {
     err_no \<leftarrow> s_get_errno (kern s);
     if err_no = 0 then Some s
     else do {
       (_, s) \<leftarrow> s_write h 2 str (int (length str)) s;
       (_, s) \<leftarrow> s_write h 2 (ascii '': '') 2 s;
       let error_message = ascii (u_strerror err_no);
       (_, s) \<leftarrow> s_write h 2 error_message (int (length error_message)) s;
       (_, s) \<leftarrow> s_write h 2 [10] 1 s;
       Some s
     }
   }"

end
