(* ===== verification/Sched_Inv.thy ===== *)
theory Sched_Inv
  imports Process_Ops
begin

text \<open>
  The scheduling invariant and the effect of every queue move. \<open>sched_inv s Q\<close>: the six queues are
  well-formed and disjoint, hold the processes \<open>Q\<close>, and each process is in the queue that its
  \<open>state\<close> and \<open>priority\<close> fields say; process identifiers are unique. The lemmas give, for each
  operation, the exact new queues and the exact rest of the state.
\<close>

section \<open>The invariant\<close>

fun fits :: "queue_id \<Rightarrow> pcb \<Rightarrow> bool" where
  "fits (Ready i) c \<longleftrightarrow> state c = PROCESS_RUNNING \<and> priority c = i"
| "fits Blocked c \<longleftrightarrow> state c = PROCESS_BLOCKED \<and> priority c < 3"
| "fits Stopped c \<longleftrightarrow> state c = PROCESS_STOPPED \<and> priority c < 3"
| "fits Zombie c \<longleftrightarrow> state c = PROCESS_ZOMBIED \<and> priority c < 3"

definition pid_at :: "kernel \<Rightarrow> addr \<Rightarrow> int option" where
  "pid_at s a = map_option pid (pcbs s a)"

definition sched_inv :: "kernel \<Rightarrow> (queue_id \<Rightarrow> addr list) \<Rightarrow> bool" where
  "sched_inv s Q \<longleftrightarrow> queues s Q \<and>
     (\<forall>q a. valid_q q \<longrightarrow> a \<in> set (Q q) \<longrightarrow> (\<exists>c. pcbs s a = Some c \<and> fits q c)) \<and>
     inj_on (pid_at s) (queued Q)"

definition home :: "pcb \<Rightarrow> queue_id" where
  "home c = (case state c of
     PROCESS_RUNNING \<Rightarrow> Ready (priority c) | PROCESS_BLOCKED \<Rightarrow> Blocked
   | PROCESS_STOPPED \<Rightarrow> Stopped | PROCESS_ZOMBIED \<Rightarrow> Zombie)"

text \<open>The abstract queue operation: take \<open>a\<close> out of \<open>q\<close> and append it to \<open>r\<close>.\<close>

definition moveq :: "addr \<Rightarrow> queue_id \<Rightarrow> queue_id \<Rightarrow> (queue_id \<Rightarrow> addr list) \<Rightarrow> (queue_id \<Rightarrow> addr list)" where
  "moveq a q r Q = (let Q' = Q(q := remove1 a (Q q)) in Q'(r := Q' r @ [a]))"

lemma fits_home: "valid_q q \<Longrightarrow> fits q c \<longleftrightarrow> home c = q \<and> priority c < 3"
  by (cases q) (auto simp: home_def split: process_state.splits)

lemma fits_valid: "fits q c \<Longrightarrow> priority c < 3 \<Longrightarrow> valid_q q"
  by (cases q) auto

lemma sched_inv_queues: "sched_inv s Q \<Longrightarrow> queues s Q"
  by (simp add: sched_inv_def)

lemma sched_inv_fits:
  "sched_inv s Q \<Longrightarrow> valid_q q \<Longrightarrow> a \<in> set (Q q) \<Longrightarrow> \<exists>c. pcbs s a = Some c \<and> fits q c"
  by (simp add: sched_inv_def)

lemma sched_inv_alloc: "sched_inv s Q \<Longrightarrow> valid_q q \<Longrightarrow> \<forall>a\<in>set (Q q). pcbs s a \<noteq> None"
  using sched_inv_fits by fastforce

lemma sched_inv_pid:
  "sched_inv s Q \<Longrightarrow> a \<in> queued Q \<Longrightarrow> b \<in> queued Q \<Longrightarrow> pcbs s a = Some c \<Longrightarrow> pcbs s b = Some d \<Longrightarrow>
     pid c = pid d \<Longrightarrow> a = b"
  by (rule inj_onD [of "pid_at s" "queued Q"]) (simp_all add: sched_inv_def pid_at_def)

lemma queuedI: "valid_q q \<Longrightarrow> a \<in> set (Q q) \<Longrightarrow> a \<in> queued Q"
  by (auto simp: queued_def)

lemma queuedE: "a \<in> queued Q \<Longrightarrow> (\<And>q. valid_q q \<Longrightarrow> a \<in> set (Q q) \<Longrightarrow> P) \<Longrightarrow> P"
  by (auto simp: queued_def)

text \<open>A queued process is found in the queue that its fields name.\<close>

lemma sched_inv_home:
  assumes inv: "sched_inv s Q" and a: "a \<in> queued Q" and c: "pcbs s a = Some c"
  shows "valid_q (home c)" "a \<in> set (Q (home c))" "priority c < 3"
proof -
  obtain q where q: "valid_q q" "a \<in> set (Q q)" using a by (rule queuedE)
  then have "fits q c" using sched_inv_fits [OF inv] c by fastforce
  then have "home c = q" "priority c < 3" using fits_home [OF q(1)] by auto
  then show "valid_q (home c)" "a \<in> set (Q (home c))" "priority c < 3" using q by auto
qed

lemma sched_inv_member_iff:
  assumes inv: "sched_inv s Q" and q: "valid_q q"
  shows "a \<in> set (Q q) \<longleftrightarrow> a \<in> queued Q \<and> map_option home (pcbs s a) = Some q"
proof
  assume a: "a \<in> set (Q q)"
  then obtain c where "pcbs s a = Some c" "fits q c" using sched_inv_fits [OF inv q] by blast
  then show "a \<in> queued Q \<and> map_option home (pcbs s a) = Some q"
    using fits_home [OF q] queuedI [where Q = Q, OF q a] by simp
next
  assume "a \<in> queued Q \<and> map_option home (pcbs s a) = Some q"
  then show "a \<in> set (Q q)" using sched_inv_home [OF inv] by auto
qed

section \<open>Abstract moves\<close>

lemma moveq_member:
  assumes Q: "queues s Q" and q: "valid_q q" and a: "a \<in> set (Q q)" and u: "valid_q u"
  shows "x \<in> set (moveq a q r Q u) \<longleftrightarrow> (x = a \<and> u = r) \<or> (x \<noteq> a \<and> x \<in> set (Q u))"
proof -
  have "a \<notin> set (Q u)" if "u \<noteq> q" using queues_disjoint [OF Q q u] that a by blast
  then show ?thesis using queuesD(2) [OF Q q] by (auto simp: moveq_def Let_def)
qed

lemma moveq_queued:
  assumes Q: "queues s Q" and q: "valid_q q" and a: "a \<in> set (Q q)" and r: "valid_q r"
  shows "queued (moveq a q r Q) = queued Q"
proof -
  have "x \<in> queued (moveq a q r Q) \<longleftrightarrow> x \<in> queued Q" for x
    using moveq_member [OF Q q a] q a r unfolding queued_def by auto
  then show ?thesis by blast
qed

text \<open>The two steps of every move, on the concrete queues.\<close>

lemma remove_push_ok:
  assumes Q: "queues s Q" and q: "valid_q q" and r: "valid_q r" and a: "a \<in> set (Q q)"
    and u: "queues s1 (Q(q := remove1 a (Q q)))"
  shows "\<exists>s2. q_push r a s1 = Some s2 \<and> queues s2 (moveq a q r Q) \<and> q_core s2 = q_core s1"
proof -
  have "a \<notin> queued (Q(q := remove1 a (Q q)))" using queued_remove1 [OF Q q a] by simp
  then show ?thesis using q_push_ok [OF u r] by (auto simp: moveq_def Let_def)
qed

text \<open>The invariant after a move, given the new block of the moved process.\<close>

lemma sched_inv_move:
  assumes inv: "sched_inv s Q" and q: "valid_q q" and r: "valid_q r" and a: "a \<in> set (Q q)"
    and Q': "queues s' (moveq a q r Q)" and p: "pcbs s' = (pcbs s)(a \<mapsto> c')"
    and c: "pcbs s a = Some c" and pd: "pid c' = pid c" and f: "fits r c'"
  shows "sched_inv s' (moveq a q r Q)"
proof -
  note Q = sched_inv_queues [OF inv]
  have mem: "\<exists>d. pcbs s' x = Some d \<and> fits u d"
    if "valid_q u" "x \<in> set (moveq a q r Q u)" for u x
  proof (cases "x = a")
    case True
    then show ?thesis using that moveq_member [OF Q q a that(1)] p f by auto
  next
    case False
    then have "x \<in> set (Q u)" using that moveq_member [OF Q q a that(1)] by auto
    then show ?thesis using sched_inv_fits [OF inv that(1)] p False by auto
  qed
  have "pid_at s' = pid_at s" using c pd by (auto simp: pid_at_def p)
  then have "inj_on (pid_at s') (queued (moveq a q r Q))"
    using inv moveq_queued [OF Q q a r] by (simp add: sched_inv_def)
  then show ?thesis using Q' mem unfolding sched_inv_def by blast
qed

text \<open>Fields that do not concern the scheduler can change freely.\<close>

lemma sched_inv_pcb:
  assumes inv: "sched_inv s Q" and Q': "queues s' Q" and p: "pcbs s' = (pcbs s)(a \<mapsto> c')"
    and c: "pcbs s a = Some c"
    and same: "pid c' = pid c" "state c' = state c" "priority c' = priority c"
  shows "sched_inv s' Q"
proof -
  have f: "fits q c' = fits q c" for q using same by (cases q) auto
  have "\<exists>d. pcbs s' x = Some d \<and> fits q d" if "valid_q q" "x \<in> set (Q q)" for q x
    using sched_inv_fits [OF inv that] c f by (auto simp: p)
  moreover have "pid_at s' = pid_at s" using c same by (auto simp: pid_at_def p)
  ultimately show ?thesis using Q' inv by (simp add: sched_inv_def)
qed

lemma sched_inv_core:
  assumes inv: "sched_inv s Q" and "queues s' Q" and "pcbs s' = pcbs s"
  shows "sched_inv s' Q"
  using assms by (simp add: sched_inv_def pid_at_def [abs_def])

section \<open>Exact effect of the moves\<close>

lemma q_core_upd:
  "q_core (s\<lparr>pcbs := x1\<rparr>) = (q_core s)\<lparr>pcbs := x1\<rparr>"
  "q_core (s\<lparr>klog := x2\<rparr>) = (q_core s)\<lparr>klog := x2\<rparr>"
  "q_core (s\<lparr>terminal_controlling_pid := x3\<rparr>) = (q_core s)\<lparr>terminal_controlling_pid := x3\<rparr>"
  "q_core (s\<lparr>clinks := x4\<rparr>) = (q_core s)\<lparr>clinks := x4\<rparr>"
  by (cases s; simp add: q_core_def)+

lemma q_core_fields [simp]:
  "pcbs (q_core s) = pcbs s" "klog (q_core s) = klog s" "quantum (q_core s) = quantum s"
  by (cases s; simp add: q_core_def)+

lemma upd_pcb_Some [simp]:
  "pcbs s a = Some c \<Longrightarrow> upd_pcb a f s = Some (s\<lparr>pcbs := (pcbs s)(a \<mapsto> f c)\<rparr>)"
  by (simp add: upd_pcb_def)

lemma log_at_simps [simp]:
  "pcbs (log_at b p n m s) = pcbs s" "sched_live (log_at b p n m s) = sched_live s"
  "get_q q (log_at b p n m s) = get_q q s" "plinks (log_at b p n m s) = plinks s"
  "clinks (log_at b p n m s) = clinks s" "cprocess (log_at b p n m s) = cprocess s"
  "current_process (log_at b p n m s) = current_process s"
  "init_process (log_at b p n m s) = init_process s"
  "process_count (log_at b p n m s) = process_count s"
  "terminal_controlling_pid (log_at b p n m s) = terminal_controlling_pid s"
  "quantum (log_at b p n m s) = quantum s"
  "queues (log_at b p n m s) Q = queues s Q"
  by (simp_all add: log_at_def)

lemma sched_inv_log [simp]: "sched_inv (log_at b p n m s) Q = sched_inv s Q"
  by (simp add: sched_inv_def pid_at_def [abs_def])

lemma sched_inv_upd [simp]:
  "sched_inv (s\<lparr>terminal_controlling_pid := x1\<rparr>) Q = sched_inv s Q"
  "sched_inv (s\<lparr>clinks := x2\<rparr>) Q = sched_inv s Q"
  "sched_inv (s\<lparr>cprocess := x3\<rparr>) Q = sched_inv s Q"
  "sched_inv (s\<lparr>current_process := x4\<rparr>) Q = sched_inv s Q"
  "sched_inv (s\<lparr>quantum := x1\<rparr>) Q = sched_inv s Q"
  "sched_inv (s\<lparr>shell_spawned := x5\<rparr>) Q = sched_inv s Q"
  "sched_inv (s\<lparr>logout_issued := x5\<rparr>) Q = sched_inv s Q"
  "sched_inv (s\<lparr>extra_logging_enabled := x5\<rparr>) Q = sched_inv s Q"
  by (simp_all add: sched_inv_def pid_at_def [abs_def])

lemma block_process_ok:
  assumes inv: "sched_inv s Q" and a: "a \<in> set (Q (Ready i))" and i: "i < 3"
    and c: "pcbs s a = Some c"
  shows "\<exists>s'. block_process a s = Some s' \<and> sched_inv s' (moveq a (Ready i) Blocked Q) \<and>
    q_core s' = q_core (log_blocked (pid c) (int (priority c)) (name_or (command c)) s)
      \<lparr>pcbs := (pcbs s)(a \<mapsto> c\<lparr>state := PROCESS_BLOCKED\<rparr>)\<rparr>"
proof -
  let ?s = "log_blocked (pid c) (int (priority c)) (name_or (command c)) s"
  have v: "valid_q (Ready i)" using i by simp
  have pr: "priority c = i" using sched_inv_fits [OF inv v a] c by simp
  have Q: "queues ?s Q" using sched_inv_queues [OF inv] by (simp add: log_defs)
  obtain s1 where s1: "q_remove (Ready i) a ?s = Some s1"
    "queues s1 (Q(Ready i := remove1 a (Q (Ready i))))" "q_core s1 = q_core ?s"
    using q_remove_ok [OF Q v a] by blast
  let ?s2 = "s1\<lparr>pcbs := (pcbs s)(a \<mapsto> c\<lparr>state := PROCESS_BLOCKED\<rparr>)\<rparr>"
  have p1: "pcbs s1 = pcbs s" using q_core_eqD(1) [OF s1(3)] by (simp add: log_defs)
  have q2: "queues ?s2 (Q(Ready i := remove1 a (Q (Ready i))))" using s1(2) by simp
  obtain s3 where s3: "q_push Blocked a ?s2 = Some s3" "queues s3 (moveq a (Ready i) Blocked Q)"
    "q_core s3 = q_core ?s2"
    using remove_push_ok [OF Q v _ a q2, of Blocked] by auto
  have p3: "pcbs s3 = (pcbs s)(a \<mapsto> c\<lparr>state := PROCESS_BLOCKED\<rparr>)" using q_core_eqD(1) [OF s3(3)] by simp
  have "sched_inv s3 (moveq a (Ready i) Blocked Q)"
    using i pr sched_inv_move [OF inv v _ a s3(2) p3 c] by simp
  moreover have "block_process a s = Some s3"
    using c s1(1) s3(1) p1 pr by (simp add: block_process_def)
  ultimately show ?thesis using s3(3) s1(3) by (simp add: q_core_upd)
qed

lemma unblock_process_ok:
  assumes inv: "sched_inv s Q" and a: "a \<in> set (Q Blocked)" and c: "pcbs s a = Some c"
  shows "\<exists>s'. unblock_process a s = Some s' \<and>
    sched_inv s' (moveq a Blocked (Ready (priority c)) Q) \<and>
    q_core s' = q_core (log_unblocked (pid c) (int (priority c)) (name_or (command c)) s)
      \<lparr>pcbs := (pcbs s)(a \<mapsto> c\<lparr>state := PROCESS_RUNNING\<rparr>)\<rparr>"
proof -
  have v: "valid_q Blocked" by simp
  have pr: "priority c < 3" using sched_inv_fits [OF inv v a] c by simp
  then have vr: "valid_q (Ready (priority c))" by simp
  have Q: "queues s Q" using sched_inv_queues [OF inv] .
  obtain s1 where s1: "q_remove Blocked a s = Some s1"
    "queues s1 (Q(Blocked := remove1 a (Q Blocked)))" "q_core s1 = q_core s"
    using q_remove_ok [OF Q v a] by blast
  let ?l = "log_unblocked (pid c) (int (priority c)) (name_or (command c))"
  let ?s2 = "(?l s1)\<lparr>pcbs := (pcbs s)(a \<mapsto> c\<lparr>state := PROCESS_RUNNING\<rparr>)\<rparr>"
  have p1: "pcbs s1 = pcbs s" using q_core_eqD(1) [OF s1(3)] .
  have q2: "queues ?s2 (Q(Blocked := remove1 a (Q Blocked)))" using s1(2) by (simp add: log_defs)
  obtain s3 where s3: "q_push (Ready (priority c)) a ?s2 = Some s3"
    "queues s3 (moveq a Blocked (Ready (priority c)) Q)" "q_core s3 = q_core ?s2"
    using remove_push_ok [OF Q v vr a q2] by auto
  have p3: "pcbs s3 = (pcbs s)(a \<mapsto> c\<lparr>state := PROCESS_RUNNING\<rparr>)" using q_core_eqD(1) [OF s3(3)] by simp
  have "sched_inv s3 (moveq a Blocked (Ready (priority c)) Q)"
    using pr sched_inv_move [OF inv v vr a s3(2) p3 c] by simp
  moreover have "unblock_process a s = Some s3"
    using c s1(1) s3(1) p1 by (simp add: unblock_process_def log_defs)
  moreover have "q_core (?l s1) = q_core (?l s)"
    using s1(3) q_core_eqD [OF s1(3)] by (simp add: log_defs log_at_def q_core_upd)
  ultimately show ?thesis using s3(3) by (simp add: q_core_upd)
qed

lemma rotate_ok:
  assumes inv: "sched_inv s Q" and q: "valid_q q"
  shows "\<exists>s'. q_rotate q s = Some s' \<and>
    sched_inv s' (Q(q := rotate1 (Q q))) \<and> q_core s' = q_core s"
proof -
  note Q = sched_inv_queues [OF inv]
  have h: "sched_q q s = Some (get_q q s)" "ll_head (get_q q s) = hd_opt (Q q) None"
    using q queues_live [OF Q] dll_head [OF queuesD(1) [OF Q q]] by (auto simp: sched_q_def)
  show ?thesis
  proof (cases "Q q")
    case Nil
    then have "Q(q := []) = Q" by auto
    then show ?thesis using h Nil inv by (simp add: q_rotate_def)
  next
    case (Cons a as)
    then have a: "a \<in> set (Q q)" by simp
    obtain s1 where s1: "q_remove q a s = Some s1" "queues s1 (Q(q := remove1 a (Q q)))"
      "q_core s1 = q_core s" using q_remove_ok [OF Q q a] by blast
    obtain s2 where s2: "q_push q a s1 = Some s2" "queues s2 (moveq a q q Q)" "q_core s2 = q_core s1"
      using remove_push_ok [OF Q q q a s1(2)] by blast
    obtain c where c: "pcbs s a = Some c" "fits q c" using sched_inv_fits [OF inv q a] by blast
    have "pcbs s2 = pcbs s" using q_core_eqD(1) [OF s2(3)] q_core_eqD(1) [OF s1(3)] by simp
    then have "sched_inv s2 (moveq a q q Q)"
      using c by (intro sched_inv_move [OF inv q q a s2(2) _ c(1)]) auto
    moreover have "moveq a q q Q = Q(q := as @ [a])" using Cons by (simp add: moveq_def)
    ultimately show ?thesis using h s1 s2 Cons by (simp add: q_rotate_def)
  qed
qed

section \<open>Removal by hand\<close>

lemma unlink_if_member_ok:
  assumes Q: "queues s Q" and q: "valid_q q" and al: "\<forall>a\<in>set (Q q). pcbs s a \<noteq> None"
  shows "if a \<in> set (Q q)
    then \<exists>s1. unlink_if_member q a s = Some (True, s1) \<and> queues s1 (Q(q := remove1 a (Q q))) \<and>
           q_core s1 = q_core s
    else unlink_if_member q a s = Some (False, s)"
proof (cases "a \<in> set (Q q)")
  case True
  then obtain s1 where "q_unlink q a s = Some s1" "queues s1 (Q(q := remove1 a (Q q)))"
    "q_core s1 = q_core s"
    using q_unlink_ok [OF Q q] by blast
  with True show ?thesis using q_find_member [OF Q q al, of a] by (simp add: unlink_if_member_def)
next
  case False
  then show ?thesis using q_find_member [OF Q q al, of a] by (simp add: unlink_if_member_def)
qed

lemma remove_from_hit:
  assumes Q: "queues s Q" and q: "valid_q q" and a: "a \<in> set (Q q)" "q \<in> set qs"
    and qs: "\<forall>r\<in>set qs. valid_q r \<and> (\<forall>a\<in>set (Q r). pcbs s a \<noteq> None)"
  shows "\<exists>s1. remove_from qs a s = Some (True, s1) \<and> queues s1 (Q(q := remove1 a (Q q))) \<and>
    q_core s1 = q_core s"
  using a(2) qs
proof (induction qs)
  case (Cons r qs)
  show ?case
  proof (cases "r = q")
    case True
    then obtain s1 where "unlink_if_member q a s = Some (True, s1)"
      "queues s1 (Q(q := remove1 a (Q q)))" "q_core s1 = q_core s"
      using unlink_if_member_ok [OF Q q, of a] a Cons.prems by auto
    then show ?thesis using True by (simp del: fun_upd_apply)
  next
    case False
    then have "a \<notin> set (Q r)" using queues_disjoint [OF Q q, of r] a Cons.prems by auto
    then have "unlink_if_member r a s = Some (False, s)"
      using unlink_if_member_ok [OF Q, of r a] Cons.prems by simp
    then show ?thesis using False Cons by simp
  qed
qed simp

lemma remove_from_miss:
  assumes Q: "queues s Q"
    and qs: "\<forall>r\<in>set qs. valid_q r \<and> a \<notin> set (Q r) \<and> (\<forall>a\<in>set (Q r). pcbs s a \<noteq> None)"
  shows "remove_from qs a s = Some (False, s)"
  using qs
proof (induction qs)
  case (Cons r qs)
  then show ?case using unlink_if_member_ok [OF Q, of r a] by simp
qed simp

lemma active_order_set: "set active_order = {q. valid_q q} - {Zombie}"
proof -
  have "valid_q q \<Longrightarrow> q \<noteq> Zombie \<Longrightarrow> q \<in> set active_order" for q
    by (cases q) (auto simp: active_order_def less_Suc_eq numeral_3_eq_3)
  moreover have "q \<in> set active_order \<Longrightarrow> valid_q q \<and> q \<noteq> Zombie" for q
    by (auto simp: active_order_def)
  ultimately show ?thesis by auto
qed

definition active :: "(queue_id \<Rightarrow> addr list) \<Rightarrow> addr set" where
  "active Q = (\<Union>q \<in> {q. valid_q q} - {Zombie}. set (Q q))"

lemma k_remove_from_active_queue_hit:
  assumes Q: "queues s Q" and q: "valid_q q" "q \<noteq> Zombie" and a: "a \<in> set (Q q)"
    and al: "\<forall>a\<in>queued Q. pcbs s a \<noteq> None"
  shows "\<exists>s1. k_remove_from_active_queue (Some a) s = Some (True, s1) \<and>
    queues s1 (Q(q := remove1 a (Q q))) \<and> q_core s1 = q_core s"
proof -
  have "\<forall>r\<in>set active_order. valid_q r \<and> (\<forall>a\<in>set (Q r). pcbs s a \<noteq> None)" "q \<in> set active_order"
    using q al by (auto simp: active_order_set queued_def)
  then show ?thesis
    using remove_from_hit [OF Q q(1) a] queues_live [OF Q]
    by (simp add: k_remove_from_active_queue_def)
qed

lemma k_remove_from_active_queue_miss:
  assumes Q: "queues s Q" and a: "a \<notin> active Q" and al: "\<forall>a\<in>queued Q. pcbs s a \<noteq> None"
  shows "k_remove_from_active_queue (Some a) s = Some (False, s)"
proof -
  have "\<forall>r\<in>set active_order. valid_q r \<and> a \<notin> set (Q r) \<and> (\<forall>a\<in>set (Q r). pcbs s a \<noteq> None)"
    using a al by (auto simp: active_order_set active_def queued_def)
  then show ?thesis
    using remove_from_miss [OF Q] queues_live [OF Q] by (simp add: k_remove_from_active_queue_def)
qed

lemma sched_inv_queued_alloc: "sched_inv s Q \<Longrightarrow> \<forall>a\<in>queued Q. pcbs s a \<noteq> None"
  by (auto simp: queued_def dest: sched_inv_alloc)

section \<open>Children lists\<close>

text \<open>
  \<open>family s C A\<close>: the children lists of the processes \<open>A\<close> are well-formed and disjoint, and \<open>C\<close>
  gives their nodes.
\<close>

definition family :: "kernel \<Rightarrow> (addr \<Rightarrow> addr list) \<Rightarrow> addr set \<Rightarrow> bool" where
  "family s C A \<longleftrightarrow>
     (\<forall>a\<in>A. \<exists>c ch. pcbs s a = Some c \<and> children c = Some ch \<and> dll (ch, clinks s) (C a) \<and>
        (\<forall>n\<in>set (C a). pcbs s (cprocess s n) \<noteq> None)) \<and>
     (\<forall>a\<in>A. \<forall>b\<in>A. a \<noteq> b \<longrightarrow> set (C a) \<inter> set (C b) = {})"

lemma familyD:
  assumes "family s C A" and "a \<in> A" and "pcbs s a = Some c"
  shows "\<exists>ch. children c = Some ch \<and> dll (ch, clinks s) (C a) \<and>
    (\<forall>n\<in>set (C a). pcbs s (cprocess s n) \<noteq> None)"
  using assms unfolding family_def by fastforce

lemma family_mono: "family s C A \<Longrightarrow> B \<subseteq> A \<Longrightarrow> family s C B"
  unfolding family_def by blast

lemma child_search_simps [simp]:
  "child_search P s None = Some None"
  "child_search P s (Some n) = do { hit \<leftarrow> P (cprocess s n);
     if hit then Some (Some n) else child_search P s (l_next (clinks s) n) }"
  by (subst child_search.simps, simp)+

lemma child_search_spec:
  assumes "dseg (clinks s) p ns None" and "\<forall>n\<in>set ns. P (cprocess s n) = Some (hit n)"
  shows "child_search P s (hd_opt ns None) = Some (find hit ns)"
  using assms by (induction ns arbitrary: p) auto

lemma child_search_dll:
  assumes "dll (ch, clinks s) ns" and "\<forall>n\<in>set ns. P (cprocess s n) = Some (hit n)"
  shows "child_search P s (ll_head ch) = Some (find hit ns)"
  using child_search_spec [of s None ns P hit] assms by (simp add: dll_def)

text \<open>The blocked process at \<open>b\<close> waits for the process with identifier \<open>p\<close>.\<close>

definition waiting :: "kernel \<Rightarrow> (addr \<Rightarrow> addr list) \<Rightarrow> int \<Rightarrow> addr \<Rightarrow> bool" where
  "waiting s C p b \<longleftrightarrow>
     (case pcbs s b of
        None \<Rightarrow> False
      | Some c \<Rightarrow> waited_child c = p \<or>
          (waited_child c = -1 \<and> (\<exists>n\<in>set (C b). pid_at s (cprocess s n) = Some p)))"

lemma find_hit: "(\<exists>y. find P xs = Some y) \<longleftrightarrow> (\<exists>x\<in>set xs. P x)"
  by (induction xs) auto

lemma waits_for_ok:
  assumes f: "family s C A" and b: "b \<in> A" and c: "pcbs s b = Some c"
  shows "waits_for p s c = Some (waiting s C p b)"
proof -
  obtain ch where ch: "children c = Some ch" "dll (ch, clinks s) (C b)"
    "\<forall>n\<in>set (C b). pcbs s (cprocess s n) \<noteq> None"
    using familyD [OF f b c] by blast
  let ?P = "\<lambda>a. map_option (\<lambda>c. pid c = p) (pcbs s a)"
  have "\<forall>n\<in>set (C b). ?P (cprocess s n) = Some (pid_at s (cprocess s n) = Some p)"
    using ch(3) by (auto simp: pid_at_def)
  then have "child_search ?P s (ll_head ch) =
      Some (find (\<lambda>n. pid_at s (cprocess s n) = Some p) (C b))"
    by (rule child_search_dll [OF ch(2)])
  then show ?thesis
    using c ch(1) find_hit [of "\<lambda>n. pid_at s (cprocess s n) = Some p" "C b"]
    by (simp add: waits_for_def waiting_def)
qed

text \<open>Waking the first process that waits for \<open>p\<close>, on the queues.\<close>

definition wake :: "kernel \<Rightarrow> addr option \<Rightarrow> (queue_id \<Rightarrow> addr list) \<Rightarrow> (queue_id \<Rightarrow> addr list)" where
  "wake s b Q = (case b of None \<Rightarrow> Q
     | Some b \<Rightarrow> moveq b Blocked (Ready (priority (the (pcbs s b)))) Q)"

text \<open>What waking does to the rest of the state; \<open>p\<close> is the process that was waited for.\<close>

definition woken :: "addr option \<Rightarrow> int \<Rightarrow> kernel \<Rightarrow> kernel" where
  "woken found p s =
     (case found of None \<Rightarrow> s
      | Some b \<Rightarrow>
          let d = the (pcbs s b) in
          (log_unblocked (pid d) (int (priority d)) (name_or (command d)) s)
            \<lparr>pcbs := (pcbs s)(b \<mapsto> d\<lparr>state := PROCESS_RUNNING\<rparr>),
             terminal_controlling_pid :=
               (if terminal_controlling_pid s = p then pid d else terminal_controlling_pid s)\<rparr>)"

lemma unblock_parents_ok:
  assumes inv: "sched_inv s Q" and f: "family s C (set (Q Blocked))" and c: "pcbs s a = Some c"
    and w: "found = find (waiting s C (pid c)) (Q Blocked)"
  shows "\<exists>s'. unblock_parents a s = Some s' \<and> sched_inv s' (wake s found Q) \<and>
    q_core s' = q_core (woken found (pid c) s)"
proof -
  have "\<forall>b\<in>set (Q Blocked). \<exists>d. pcbs s b = Some d \<and> waits_for (pid c) s d = Some (waiting s C (pid c) b)"
    using waits_for_ok [OF f] sched_inv_alloc [OF inv, of Blocked] by fastforce
  then have search: "q_find Blocked (\<lambda>_ d. waits_for (pid c) s d) s = Some found"
    unfolding w using q_find_spec [OF sched_inv_queues [OF inv], of Blocked] by simp
  show ?thesis
  proof (cases found)
    case None
    then show ?thesis using search c inv by (simp add: unblock_parents_def wake_def woken_def)
  next
    case (Some b)
    then have b: "b \<in> set (Q Blocked)" using w by (auto simp: find_Some_iff)
    then obtain d where d: "pcbs s b = Some d" using sched_inv_fits [OF inv, of Blocked] by auto
    obtain s1 where s1: "unblock_process b s = Some s1"
      "sched_inv s1 (moveq b Blocked (Ready (priority d)) Q)"
      "q_core s1 = q_core (log_unblocked (pid d) (int (priority d)) (name_or (command d)) s)
        \<lparr>pcbs := (pcbs s)(b \<mapsto> d\<lparr>state := PROCESS_RUNNING\<rparr>)\<rparr>"
      using unblock_process_ok [OF inv b d] by blast
    note core = q_core_eqD [OF s1(3) [folded q_core_upd]]
    have live: "sched_live s1" using queues_live [OF sched_inv_queues [OF s1(2)]] .
    have ca: "\<exists>e. pcbs s1 a = Some e \<and> pid e = pid c" using core(1) c d by auto
    have db: "pcbs s1 b = Some (d\<lparr>state := PROCESS_RUNNING\<rparr>)" using core(1) by simp
    let ?tc = "if terminal_controlling_pid s = pid c then pid d else terminal_controlling_pid s"
    have u: "unblock_parents a s = Some (s1\<lparr>terminal_controlling_pid := ?tc\<rparr>)"
      using search Some c s1(1) live ca db core(9)
      by (auto simp: unblock_parents_def k_tcgetpid_def k_tcsetpid_def log_defs)
    have "sched_inv (s1\<lparr>terminal_controlling_pid := ?tc\<rparr>) (wake s found Q)"
      using s1(2) Some d by (simp add: wake_def)
    then show ?thesis using u Some d s1(3) by (simp add: woken_def q_core_upd)
  qed
qed

section \<open>Active processes under moves\<close>

lemma active_sub: "active Q \<subseteq> queued Q"
  by (auto simp: active_def queued_def)

lemma queued_active: "queued Q = active Q \<union> set (Q Zombie)"
  unfolding active_def queued_def by (rule set_eqI) (auto intro: exI [of _ Zombie])

lemma blocked_active: "set (Q Blocked) \<subseteq> active Q"
  unfolding active_def by (rule UN_upper) simp

lemma active_moveq:
  assumes Q: "queues s Q" and q: "valid_q q" and a: "a \<in> set (Q q)" and r: "valid_q r"
  shows "active (moveq a q r Q) = (if r = Zombie then active Q - {a} else insert a (active Q))"
proof -
  have "x \<in> active (moveq a q r Q) \<longleftrightarrow> (x = a \<and> r \<noteq> Zombie) \<or> (x \<noteq> a \<and> x \<in> active Q)" for x
    using moveq_member [OF Q q a] r unfolding active_def by auto
  then show ?thesis by auto
qed

lemma wake_frame:
  assumes inv: "sched_inv s Q" and f: "found = find P (Q Blocked)"
  shows "active (wake s found Q) = active Q" "queued (wake s found Q) = queued Q"
proof -
  have "active (wake s found Q) = active Q \<and> queued (wake s found Q) = queued Q"
  proof (cases found)
    case None
    then show ?thesis by (simp add: wake_def)
  next
    case (Some b)
    then have b: "b \<in> set (Q Blocked)" using f find_SomeD by metis
    then obtain c where c: "pcbs s b = Some c" "priority c < 3"
      using sched_inv_fits [OF inv, of Blocked b] by auto
    have "b \<in> active Q" using b by (auto simp: active_def)
    then show ?thesis
      using active_moveq [OF sched_inv_queues [OF inv] _ b, of "Ready (priority c)"]
        moveq_queued [OF sched_inv_queues [OF inv] _ b, of "Ready (priority c)"] c Some
      by (auto simp: wake_def)
  qed
  then show "active (wake s found Q) = active Q" "queued (wake s found Q) = queued Q" by auto
qed

end
