(* ===== verification/Sched_Moves.thy ===== *)
theory Sched_Moves
  imports Sched_Inv
begin

text \<open>
  The functional behaviour of the kernel operations that move a process between queues, on every
  branch: \<open>k_add_to_ready_queue\<close>, \<open>k_stop_process\<close>, \<open>k_continue_process\<close>, \<open>k_set_priority\<close>,
  \<open>k_sleep\<close>, \<open>k_resume_sleep\<close> and \<open>_update_blocked_processes\<close>.
\<close>

section \<open>Helper facts\<close>

lemma q_core_log: "q_core (log_at b p n m s) = log_at b p n m (q_core s)"
  by (simp add: log_at_def q_core_upd)

lemmas core_simps = q_core_upd q_core_log log_defs

lemma waiting_cong:
  assumes "\<And>b. map_option waited_child (pcbs s' b) = map_option waited_child (pcbs s b)"
    and "pid_at s' = pid_at s" and "cprocess s' = cprocess s"
  shows "waiting s' C p = waiting s C p"
proof
  fix b
  show "waiting s' C p b = waiting s C p b"
    using assms(1) [of b] assms(2,3) unfolding waiting_def by (auto split: option.splits)
qed

lemma family_cong:
  assumes f: "family s C A" and "clinks s' = clinks s" and "cprocess s' = cprocess s"
    and "\<And>b. map_option children (pcbs s' b) = map_option children (pcbs s b)"
  shows "family s' C A"
proof -
  have al: "(pcbs s' b \<noteq> None) = (pcbs s b \<noteq> None)" for b
    using assms(4) [of b] by (cases "pcbs s b"; cases "pcbs s' b") auto
  have "\<exists>c ch. pcbs s' a = Some c \<and> children c = Some ch \<and> dll (ch, clinks s) (C a)" if "a \<in> A" for a
    using f that assms(4) [of a] unfolding family_def by fastforce
  then show ?thesis using f assms al unfolding family_def by fastforce
qed

text \<open>A block changed at \<open>a\<close> in fields that waiting and the children lists do not look at.\<close>

lemma same_waiting:
  assumes "pcbs s' = (pcbs s)(a \<mapsto> c')" and "pcbs s a = Some c" and "cprocess s' = cprocess s"
    and "pid c' = pid c" "waited_child c' = waited_child c"
  shows "waiting s' C p = waiting s C p"
  using assms by (intro waiting_cong) (auto simp: pid_at_def)

lemma same_family:
  assumes "family s C A" and "pcbs s' = (pcbs s)(a \<mapsto> c')" and "pcbs s a = Some c"
    and "cprocess s' = cprocess s" "clinks s' = clinks s" "children c' = children c"
  shows "family s' C A"
  using assms by (intro family_cong [OF assms(1)]) auto

lemma woken_core:
  assumes "q_core s = q_core s'"
  shows "q_core (woken found p s) = q_core (woken found p s')"
proof (cases found)
  case None
  then show ?thesis using assms by (simp add: woken_def)
next
  case (Some b)
  have "pcbs s = pcbs s'" "terminal_controlling_pid s = terminal_controlling_pid s'"
    using q_core_eqD [OF assms] by simp_all
  then show ?thesis using assms Some by (simp add: woken_def Let_def core_simps)
qed

section \<open>Stopping and continuing\<close>

lemma k_stop_process_ok:
  assumes inv: "sched_inv s Q" and q: "valid_q q" "q \<noteq> Zombie" "q \<noteq> Stopped" and a: "a \<in> set (Q q)"
    and c: "pcbs s a = Some c" and f: "family s C (set (Q Blocked))"
    and Q': "Q' = moveq a q Stopped Q" and w: "found = find (waiting s C (pid c)) (Q' Blocked)"
  shows "\<exists>s'. k_stop_process (Some a) s = Some (0, s') \<and> sched_inv s' (wake s found Q') \<and>
    q_core s' = q_core (woken found (pid c)
      ((log_stopped (pid c) (int (priority c)) (name_or (command c)) s)
         \<lparr>pcbs := (pcbs s)(a \<mapsto> c\<lparr>state := PROCESS_STOPPED\<rparr>)\<rparr>)) \<and>
    active (wake s found Q') = active Q \<and> queued (wake s found Q') = queued Q"
proof -
  let ?s = "log_stopped (pid c) (int (priority c)) (name_or (command c)) s"
  let ?c = "c\<lparr>state := PROCESS_STOPPED\<rparr>"
  have fit: "state c \<noteq> PROCESS_STOPPED" "priority c < 3"
    using sched_inv_fits [OF inv q(1) a] c q by (cases q; auto)+
  have Q: "queues ?s Q" and al: "\<forall>a\<in>queued Q. pcbs ?s a \<noteq> None"
    using sched_inv_queues [OF inv] sched_inv_queued_alloc [OF inv] by (auto simp: log_defs)
  obtain s1 where s1: "k_remove_from_active_queue (Some a) ?s = Some (True, s1)"
    "queues s1 (Q(q := remove1 a (Q q)))" "q_core s1 = q_core ?s"
    using k_remove_from_active_queue_hit [OF Q q(1,2) a al] by blast
  let ?s2 = "s1\<lparr>pcbs := (pcbs s)(a \<mapsto> ?c)\<rparr>"
  have p1: "pcbs s1 = pcbs s" using q_core_eqD(1) [OF s1(3)] by (simp add: log_defs)
  have q2: "queues ?s2 (Q(q := remove1 a (Q q)))" using s1(2) by simp
  obtain s3 where s3: "q_push Stopped a ?s2 = Some s3" "queues s3 Q'" "q_core s3 = q_core ?s2"
    unfolding Q' using remove_push_ok [OF Q q(1) _ a q2, of Stopped] by auto
  have p3: "pcbs s3 = (pcbs s)(a \<mapsto> ?c)" using q_core_eqD(1) [OF s3(3)] by simp
  have rest: "cprocess s3 = cprocess s" "clinks s3 = clinks s"
    using q_core_eqD [OF s3(3)] q_core_eqD [OF s1(3)] by (simp_all add: log_defs)
  have inv3: "sched_inv s3 Q'"
    using sched_inv_move [OF inv q(1) _ a s3(2) [unfolded Q'] p3 c] fit Q' by simp
  have wq: "waiting s3 C (pid c) = waiting s C (pid c)"
    by (rule same_waiting [OF p3 c rest(1)]) simp_all
  have "set (Q' Blocked) \<subseteq> set (Q Blocked)"
    using moveq_member [OF sched_inv_queues [OF inv] q(1) a, of Blocked] Q' by auto
  then have "family s3 C (set (Q' Blocked))"
    using same_family [OF f p3 c rest] family_mono by simp
  then obtain s4 where s4: "unblock_parents a s3 = Some s4" "sched_inv s4 (wake s3 found Q')"
    "q_core s4 = q_core (woken found (pid c) s3)"
    using unblock_parents_ok [OF inv3, of C a ?c found] p3 w wq by auto
  have "b \<noteq> a" if "found = Some b" for b
    using find_SomeD [OF w [symmetric, unfolded that]] Q'
      moveq_member [OF sched_inv_queues [OF inv] q(1) a, of Blocked] by auto
  then have wk: "wake s3 found Q' = wake s found Q'" by (auto simp: wake_def p3 split: option.splits)
  have "a \<in> active Q" using q a by (auto simp: active_def)
  then have "active (wake s found Q') = active Q \<and> queued (wake s found Q') = queued Q"
    using wake_frame [OF inv3, of found "waiting s C (pid c)"] w wk Q'
      active_moveq [OF sched_inv_queues [OF inv] q(1) a, of Stopped]
      moveq_queued [OF sched_inv_queues [OF inv] q(1) a, of Stopped]
    by auto
  moreover have "k_stop_process (Some a) s = Some (0, s4)"
    using c fit s1(1) p1 s3(1) s4(1) by (simp add: k_stop_process_def)
  moreover have "q_core s3 = q_core (?s\<lparr>pcbs := (pcbs s)(a \<mapsto> ?c)\<rparr>)"
    using s3(3) s1(3) by (simp add: q_core_upd)
  then have "q_core (woken found (pid c) s3) = q_core (woken found (pid c) (?s\<lparr>pcbs := (pcbs s)(a \<mapsto> ?c)\<rparr>))"
    by (rule woken_core)
  ultimately show ?thesis using s4 wk by simp
qed

lemma k_stop_process_errors:
  assumes inv: "sched_inv s Q" and c: "pcbs s a = Some c"
  shows "state c = PROCESS_STOPPED \<Longrightarrow> k_stop_process (Some a) s = Some (E_STOP_STOPPED_PROCESS, s)"
    and "state c = PROCESS_ZOMBIED \<Longrightarrow> a \<in> queued Q \<Longrightarrow> k_stop_process (Some a) s =
      Some (E_STOP_NON_ACTIVE_QUEUE_PROCESS, log_stopped (pid c) (int (priority c)) (name_or (command c)) s)"
proof -
  show "state c = PROCESS_STOPPED \<Longrightarrow> k_stop_process (Some a) s = Some (E_STOP_STOPPED_PROCESS, s)"
    using c by (simp add: k_stop_process_def)
  assume z: "state c = PROCESS_ZOMBIED" and a: "a \<in> queued Q"
  have "home c = Zombie" using z by (simp add: home_def)
  then have "a \<notin> active Q"
    using sched_inv_member_iff [OF inv] c by (auto simp: active_def)
  then show "k_stop_process (Some a) s = Some (E_STOP_NON_ACTIVE_QUEUE_PROCESS,
      log_stopped (pid c) (int (priority c)) (name_or (command c)) s)"
    using k_remove_from_active_queue_miss [of "log_stopped (pid c) (int (priority c)) (name_or (command c)) s" Q a]
      sched_inv_queues [OF inv] sched_inv_queued_alloc [OF inv] c z
    by (simp add: k_stop_process_def log_defs)
qed

lemma k_add_to_ready_queue_ok:
  assumes Q: "queues s Q" and a: "a \<notin> queued Q" and c: "pcbs s a = Some c" and p: "priority c < 3"
  shows "\<exists>s'. k_add_to_ready_queue (Some a) s = Some (0, s') \<and>
    queues s' (Q(Ready (priority c) := Q (Ready (priority c)) @ [a])) \<and>
    q_core s' = q_core (s\<lparr>pcbs := (pcbs s)(a \<mapsto> c\<lparr>state := PROCESS_RUNNING\<rparr>)\<rparr>)"
proof -
  have v: "valid_q (Ready (priority c))" using p by simp
  obtain s1 where s1: "q_push (Ready (priority c)) a s = Some s1"
    "queues s1 (Q(Ready (priority c) := Q (Ready (priority c)) @ [a]))" "q_core s1 = q_core s"
    using q_push_ok [OF Q v a] by blast
  have p1: "pcbs s1 = pcbs s" using q_core_eqD(1) [OF s1(3)] .
  let ?s2 = "s1\<lparr>pcbs := (pcbs s)(a \<mapsto> c\<lparr>state := PROCESS_RUNNING\<rparr>)\<rparr>"
  have "k_add_to_ready_queue (Some a) s = Some (0, ?s2)"
    using c p s1(1) p1 queues_live [OF Q] by (simp add: k_add_to_ready_queue_def)
  then show ?thesis using s1 by (simp add: q_core_upd del: fun_upd_apply)
qed

lemma k_continue_process_ok:
  assumes inv: "sched_inv s Q" and a: "a \<in> set (Q Stopped)" and c: "pcbs s a = Some c"
  shows "\<exists>s'. k_continue_process (Some a) s = Some (0, s') \<and>
    sched_inv s' (moveq a Stopped (Ready (priority c)) Q) \<and>
    q_core s' = q_core ((log_continued (pid c) (int (priority c)) (name_or (command c)) s)
      \<lparr>pcbs := (pcbs s)(a \<mapsto> c\<lparr>state := PROCESS_RUNNING\<rparr>)\<rparr>)"
proof -
  let ?s = "log_continued (pid c) (int (priority c)) (name_or (command c)) s"
  let ?c = "c\<lparr>state := PROCESS_RUNNING\<rparr>" and ?Q = "Q(Stopped := remove1 a (Q Stopped))"
  have v: "valid_q Stopped" by simp
  have fit: "state c = PROCESS_STOPPED" "priority c < 3"
    using sched_inv_fits [OF inv v a] c by auto
  have Q: "queues ?s Q" using sched_inv_queues [OF inv] by (simp add: log_defs)
  obtain s1 where s1: "unlink_if_member Stopped a ?s = Some (True, s1)" "queues s1 ?Q"
    "q_core s1 = q_core ?s"
    using unlink_if_member_ok [OF Q v, of a] a sched_inv_alloc [OF inv v] by (auto simp: log_defs)
  let ?s2 = "s1\<lparr>pcbs := (pcbs s)(a \<mapsto> ?c)\<rparr>"
  have p1: "pcbs s1 = pcbs s" using q_core_eqD(1) [OF s1(3)] by (simp add: log_defs)
  have "a \<notin> queued ?Q" using queued_remove1 [OF sched_inv_queues [OF inv] v a] by simp
  then obtain s3 where s3: "k_add_to_ready_queue (Some a) ?s2 = Some (0, s3)"
    "queues s3 (?Q(Ready (priority c) := ?Q (Ready (priority c)) @ [a]))"
    "q_core s3 = q_core (?s2\<lparr>pcbs := (pcbs ?s2)(a \<mapsto> ?c\<lparr>state := PROCESS_RUNNING\<rparr>)\<rparr>)"
    using k_add_to_ready_queue_ok [of ?s2 ?Q a ?c] s1(2) fit by auto
  have q3: "queues s3 (moveq a Stopped (Ready (priority c)) Q)"
    using s3(2) by (simp add: moveq_def Let_def)
  have p3: "pcbs s3 = (pcbs s)(a \<mapsto> ?c)" using q_core_eqD(1) [OF s3(3)] by simp
  have "sched_inv s3 (moveq a Stopped (Ready (priority c)) Q)"
    using sched_inv_move [OF inv v _ a q3 p3 c] fit by simp
  moreover have "k_continue_process (Some a) s = Some (0, s3)"
    using c fit s1(1) p1 s3(1) by (simp add: k_continue_process_def)
  ultimately show ?thesis using s3(3) s1(3) by (simp add: q_core_upd)
qed

lemma k_continue_process_error:
  "pcbs s a = Some c \<Longrightarrow> state c \<noteq> PROCESS_STOPPED \<Longrightarrow>
     k_continue_process (Some a) s = Some (E_CONTINUE_NON_STOPPED_PROCESS, s)"
  by (simp add: k_continue_process_def)

section \<open>Priorities\<close>

text \<open>The queues after a change of priority: only a ready process moves.\<close>

definition reprioritised :: "addr \<Rightarrow> pcb \<Rightarrow> nat \<Rightarrow> (queue_id \<Rightarrow> addr list) \<Rightarrow> (queue_id \<Rightarrow> addr list)" where
  "reprioritised a c p Q =
     (if state c = PROCESS_RUNNING \<and> priority c \<noteq> p then moveq a (Ready (priority c)) (Ready p) Q
      else Q)"

lemma sched_inv_prio:
  assumes inv: "sched_inv s Q" and c: "pcbs s a = Some c" and p: "p < 3"
    and same: "state c \<noteq> PROCESS_RUNNING \<or> priority c = p"
  shows "sched_inv (s\<lparr>pcbs := (pcbs s)(a \<mapsto> c\<lparr>priority := p\<rparr>)\<rparr>) Q"
proof -
  let ?s = "s\<lparr>pcbs := (pcbs s)(a \<mapsto> c\<lparr>priority := p\<rparr>)\<rparr>"
  have "fits q (c\<lparr>priority := p\<rparr>)" if "fits q c" for q
    using that p same by (cases q) auto
  then have "\<exists>d. pcbs ?s x = Some d \<and> fits q d" if "valid_q q" "x \<in> set (Q q)" for q x
    using sched_inv_fits [OF inv that] c by (cases "x = a") auto
  moreover have "pid_at ?s = pid_at s" using c by (auto simp: pid_at_def)
  ultimately show ?thesis using inv by (simp add: sched_inv_def)
qed

lemma k_set_priority_ok:
  assumes inv: "sched_inv s Q" and a: "a \<in> queued Q" and c: "pcbs s a = Some c"
    and p: "0 \<le> p" "p \<le> 2"
  shows "\<exists>s'. k_set_priority (Some a) p s = Some (0, s') \<and>
    sched_inv s' (reprioritised a c (nat p) Q) \<and>
    q_core s' = q_core (s\<lparr>pcbs := (pcbs s)(a \<mapsto> c\<lparr>priority := nat p\<rparr>)\<rparr>)"
proof (cases "state c = PROCESS_RUNNING \<and> int (priority c) \<noteq> p")
  case False
  then have "state c \<noteq> PROCESS_RUNNING \<or> priority c = nat p" by auto
  then have "sched_inv (s\<lparr>pcbs := (pcbs s)(a \<mapsto> c\<lparr>priority := nat p\<rparr>)\<rparr>) Q"
    using p by (intro sched_inv_prio [OF inv c]) auto
  with False show ?thesis using c p by (auto simp: k_set_priority_def reprioritised_def)
next
  case True
  let ?i = "priority c" and ?c = "c\<lparr>priority := nat p\<rparr>"
  let ?s = "s\<lparr>pcbs := (pcbs s)(a \<mapsto> ?c)\<rparr>" and ?Q = "Q(Ready ?i := remove1 a (Q (Ready ?i)))"
  have np: "nat p < 3" using p by linarith
  have ai: "a \<in> set (Q (Ready ?i))" and v: "valid_q (Ready ?i)"
    using sched_inv_home [OF inv a c] True by (simp_all add: home_def)
  have Q: "queues ?s Q" using sched_inv_queues [OF inv] by simp
  have al: "\<forall>x\<in>set (Q (Ready ?i)). pcbs ?s x \<noteq> None" using sched_inv_alloc [OF inv v] by auto
  obtain s1 where s1: "unlink_if_member (Ready ?i) a ?s = Some (True, s1)" "queues s1 ?Q"
    "q_core s1 = q_core ?s"
    using unlink_if_member_ok [OF Q v al, of a] ai by auto
  have p1: "pcbs s1 a = Some ?c" using q_core_eqD(1) [OF s1(3)] by simp
  have "a \<notin> queued ?Q" using queued_remove1 [OF Q v ai] by simp
  then obtain s2 where s2: "k_add_to_ready_queue (Some a) s1 = Some (0, s2)"
    "queues s2 (?Q(Ready (nat p) := ?Q (Ready (nat p)) @ [a]))"
    "q_core s2 = q_core (s1\<lparr>pcbs := (pcbs s1)(a \<mapsto> ?c\<lparr>state := PROCESS_RUNNING\<rparr>)\<rparr>)"
    using k_add_to_ready_queue_ok [OF s1(2) _ p1] np by auto
  have st: "?c\<lparr>state := PROCESS_RUNNING\<rparr> = ?c" using True by simp
  have p2: "pcbs s2 = (pcbs s)(a \<mapsto> ?c)"
    using q_core_eqD(1) [OF s2(3)] q_core_eqD(1) [OF s1(3)] st by simp
  have q2: "queues s2 (moveq a (Ready ?i) (Ready (nat p)) Q)"
    using s2(2) by (simp add: moveq_def Let_def)
  have "sched_inv s2 (moveq a (Ready ?i) (Ready (nat p)) Q)"
    using sched_inv_move [OF inv v _ ai q2 p2 c] np True by simp
  moreover have "k_set_priority (Some a) p s = Some (0, s2)"
    using True c p s1(1) s2(1) by (simp add: k_set_priority_def)
  moreover have "q_core s2 = q_core ?s"
    using s2(3) s1(3) q_core_eqD(1) [OF s1(3)] st by (simp add: q_core_upd)
  moreover have "?i \<noteq> nat p" using True p by auto
  ultimately show ?thesis using True by (simp add: reprioritised_def)
qed

section \<open>Sleeping\<close>

lemma k_sleep_ok:
  assumes inv: "sched_inv s Q" and a: "a \<in> set (Q (Ready i))" and i: "i < 3"
    and c: "pcbs s a = Some c" and n: "n \<noteq> 0"
  shows "\<exists>s'. k_sleep (Some a) n s = Some (0, s') \<and> sched_inv s' (moveq a (Ready i) Blocked Q) \<and>
    q_core s' = q_core ((log_blocked (pid c) (int (priority c)) (name_or (command c))
      (log_sleep (pid c) (int (priority c)) (name_or (command c)) s))
        \<lparr>pcbs := (pcbs s)(a \<mapsto> c\<lparr>sleep_time := of_nat n, state := PROCESS_BLOCKED\<rparr>)\<rparr>)"
proof -
  let ?l = "log_sleep (pid c) (int (priority c)) (name_or (command c)) s"
  let ?c = "c\<lparr>sleep_time := of_nat n\<rparr>" and ?s = "?l\<lparr>pcbs := (pcbs s)(a \<mapsto> c\<lparr>sleep_time := of_nat n\<rparr>)\<rparr>"
  have "sched_inv ?s Q"
    by (rule sched_inv_pcb [OF inv, of ?s a ?c c]) (simp_all add: log_defs sched_inv_queues [OF inv] c)
  then obtain s' where s': "block_process a ?s = Some s'" "sched_inv s' (moveq a (Ready i) Blocked Q)"
    "q_core s' = q_core (log_blocked (pid ?c) (int (priority ?c)) (name_or (command ?c)) ?s)
      \<lparr>pcbs := (pcbs ?s)(a \<mapsto> ?c\<lparr>state := PROCESS_BLOCKED\<rparr>)\<rparr>"
    using block_process_ok [of ?s Q a i ?c] a i by auto
  have "k_sleep (Some a) n s = Some (0, s')"
    using c n s'(1) by (simp add: k_sleep_def log_defs)
  then show ?thesis using s' by (simp add: core_simps log_at_def)
qed

lemma k_resume_sleep_ok:
  assumes inv: "sched_inv s Q" and a: "a \<in> set (Q (Ready i))" and i: "i < 3"
    and c: "pcbs s a = Some c"
  shows "if sleep_time c \<le> 0 then k_resume_sleep (Some a) s = Some (False, s)
    else \<exists>s'. k_resume_sleep (Some a) s = Some (True, s') \<and> sched_inv s' (moveq a (Ready i) Blocked Q)"
  using block_process_ok [OF inv a i c] c by (auto simp: k_resume_sleep_def)

text \<open>
  One tick of a sleeping process, and the processes of the blocked queue that a round of
  \<open>_update_blocked_processes\<close> reaches: the ones before the first that expires, and that one.
\<close>

definition tick :: "pcb \<Rightarrow> pcb" where
  "tick c = (if sleep_time c > 0 then c\<lparr>sleep_time := double_minus (sleep_time c) double_tenth\<rparr> else c)"

definition expires :: "kernel \<Rightarrow> addr \<Rightarrow> bool" where
  "expires s b \<longleftrightarrow> (case pcbs s b of None \<Rightarrow> False
     | Some c \<Rightarrow> sleep_time c > 0 \<and> sleep_time (tick c) \<le> 0)"

definition ticked :: "addr set \<Rightarrow> kernel \<Rightarrow> kernel" where
  "ticked A s = s\<lparr>pcbs := (\<lambda>a. if a \<in> A then map_option tick (pcbs s a) else pcbs s a)\<rparr>"

definition not_yet :: "kernel \<Rightarrow> addr list \<Rightarrow> addr list" where
  "not_yet s = takeWhile (\<lambda>b. \<not> expires s b)"

lemma tick_fields [simp]:
  "pid (tick c) = pid c" "state (tick c) = state c" "priority (tick c) = priority c"
  "command (tick c) = command c"
  by (simp_all add: tick_def)

lemma ticked_fields [simp]:
  "plinks (ticked A s) = plinks s" "queues (ticked A s) Q = queues s Q"
  "klog (ticked A s) = klog s" "quantum (ticked A s) = quantum s"
  by (simp_all add: ticked_def)

lemma ticked_empty [simp]: "ticked {} s = s"
  by (simp add: ticked_def)

lemma ticked_ticked: "a \<notin> A \<Longrightarrow> ticked A (ticked {a} s) = ticked (insert a A) s"
  by (cases s) (auto simp: ticked_def)

lemma sched_inv_ticked: "sched_inv s Q \<Longrightarrow> sched_inv (ticked A s) Q"
proof -
  assume inv: "sched_inv s Q"
  have "fits q (tick c) = fits q c" for q c by (cases q) auto
  then have "\<exists>c. pcbs (ticked A s) x = Some c \<and> fits q c" if "valid_q q" "x \<in> set (Q q)" for q x
    using sched_inv_fits [OF inv that] by (auto simp: ticked_def)
  moreover have "pid_at (ticked A s) = pid_at s"
    by (auto simp: pid_at_def ticked_def option.map_comp o_def fun_eq_iff)
  ultimately show ?thesis using inv by (simp add: sched_inv_def)
qed

lemma expires_ticked: "b \<notin> A \<Longrightarrow> expires (ticked A s) b = expires s b"
  by (simp add: expires_def ticked_def)

lemma dll_last_next: "dll (q, h) (xs @ [a]) \<Longrightarrow> l_next h a = None"
  by (simp add: dll_def)

lemma update_blocked_loop_simps [simp]:
  "update_blocked_loop None s = Some s"
  by (subst update_blocked_loop.simps) simp

text \<open>One process of the walk.\<close>

lemma update_blocked_step:
  assumes inv: "sched_inv s Q" and a: "a \<in> set (Q Blocked)" and c: "pcbs s a = Some c"
  shows "update_blocked_loop (Some a) s =
    (if expires s a then unblock_process a (ticked {a} s)
     else update_blocked_loop (l_next (plinks s) a) (ticked {a} s))"
proof -
  have t: "upd_pcb a (\<lambda>c. c\<lparr>sleep_time := double_minus (sleep_time c) double_tenth\<rparr>) s =
      Some (ticked {a} s)" if "sleep_time c > 0"
    using c that by (cases s) (auto simp: upd_pcb_def ticked_def tick_def fun_eq_iff)
  have nt: "ticked {a} s = s" if "\<not> sleep_time c > 0"
    using c that by (cases s) (auto simp: ticked_def tick_def fun_eq_iff)
  have "update_blocked_loop (l_next (plinks s1) a) s1 = Some s1"
    if u: "unblock_process a (ticked {a} s) = Some s1" for s1
  proof -
    have inv': "sched_inv (ticked {a} s) Q" using inv by (rule sched_inv_ticked)
    have "pcbs (ticked {a} s) a = Some (tick c)" using c by (simp add: ticked_def)
    from unblock_process_ok [OF inv' a this] u
    have inv1: "sched_inv s1 (moveq a Blocked (Ready (priority c)) Q)" by auto
    have v: "valid_q (Ready (priority c))" using sched_inv_fits [OF inv _ a] c by auto
    have "l_next (plinks s1) a = None"
      using queuesD(1) [OF sched_inv_queues [OF inv1] v]
      by (auto simp: moveq_def Let_def intro: dll_last_next)
    then show ?thesis by simp
  qed
  moreover obtain s1 where "unblock_process a (ticked {a} s) = Some s1" if "a \<in> set (Q Blocked)"
    using unblock_process_ok [OF sched_inv_ticked [OF inv] a, of "{a}" "tick c"] c
    by (auto simp: ticked_def)
  ultimately show ?thesis
    using c t nt a
    by (subst update_blocked_loop.simps) (auto simp: expires_def tick_def Let_def)
qed

definition sleep_round :: "kernel \<Rightarrow> addr list \<Rightarrow> (queue_id \<Rightarrow> addr list) \<Rightarrow> kernel \<Rightarrow> bool" where
  "sleep_round s ys Q s' \<longleftrightarrow>
     (let us = not_yet s ys in
      case drop (length us) ys of
        [] \<Rightarrow> sched_inv s' Q \<and> q_core s' = q_core (ticked (set us) s)
      | b # vs \<Rightarrow> \<exists>c. pcbs s b = Some c \<and>
          sched_inv s' (moveq b Blocked (Ready (priority c)) Q) \<and>
          q_core s' = q_core ((log_unblocked (pid c) (int (priority c)) (name_or (command c))
            (ticked (set us) s))
              \<lparr>pcbs := (pcbs (ticked (set us) s))(b \<mapsto> (tick c)\<lparr>state := PROCESS_RUNNING\<rparr>)\<rparr>))"

lemma not_yet_cong: "a \<notin> set ys \<Longrightarrow> not_yet (ticked {a} s) ys = not_yet s ys"
proof -
  assume a: "a \<notin> set ys"
  have "expires (ticked {a} s) x = expires s x" if "x \<in> set ys" for x
    using expires_ticked [of x "{a}" s] a that by blast
  then show ?thesis unfolding not_yet_def by (auto intro: takeWhile_cong)
qed

lemma update_blocked_loop_ok:
  assumes "sched_inv s Q" and "Q Blocked = xs @ ys"
  shows "\<exists>s'. update_blocked_loop (hd_opt ys None) s = Some s' \<and> sleep_round s ys Q s'"
  using assms
proof (induction ys arbitrary: xs s)
  case Nil
  then show ?case by (simp add: sleep_round_def not_yet_def Let_def)
next
  case (Cons a ys)
  have a: "a \<in> set (Q Blocked)" using Cons.prems(2) by simp
  obtain c where c: "pcbs s a = Some c" using sched_inv_fits [OF Cons.prems(1) _ a] by auto
  have d: "distinct (xs @ a # ys)" "dll (get_q Blocked s, plinks s) (xs @ a # ys)"
    using queuesD [OF sched_inv_queues [OF Cons.prems(1)], of Blocked] Cons.prems(2) by auto
  have tc: "pcbs (ticked {a} s) a = Some (tick c)" using c by (simp add: ticked_def)
  note inv' = sched_inv_ticked [OF Cons.prems(1), of "{a}"]
  show ?case
  proof (cases "expires s a")
    case True
    obtain s' where "unblock_process a (ticked {a} s) = Some s'"
      "sched_inv s' (moveq a Blocked (Ready (priority c)) Q)"
      "q_core s' = q_core (log_unblocked (pid c) (int (priority c)) (name_or (command c)) (ticked {a} s))
        \<lparr>pcbs := (pcbs (ticked {a} s))(a \<mapsto> (tick c)\<lparr>state := PROCESS_RUNNING\<rparr>)\<rparr>"
      using unblock_process_ok [OF inv' a tc] by auto
    moreover have "(pcbs (ticked {a} s))(a \<mapsto> (tick c)\<lparr>state := PROCESS_RUNNING\<rparr>) =
        (pcbs s)(a \<mapsto> (tick c)\<lparr>state := PROCESS_RUNNING\<rparr>)" by (auto simp: ticked_def)
    ultimately show ?thesis
      using True c update_blocked_step [OF Cons.prems(1) a c]
      by (simp add: sleep_round_def not_yet_def Let_def core_simps log_at_def ticked_def)
  next
    case False
    obtain s' where s': "update_blocked_loop (hd_opt ys None) (ticked {a} s) = Some s'"
      "sleep_round (ticked {a} s) ys Q s'"
      using Cons.IH [OF inv', of "xs @ [a]"] Cons.prems(2) by auto
    have "l_next (plinks s) a = hd_opt ys None" using d(2) by (simp add: dll_def)
    then have "update_blocked_loop (hd_opt (a # ys) None) s = Some s'"
      using s'(1) False update_blocked_step [OF Cons.prems(1) a c] by simp
    moreover have "sleep_round s (a # ys) Q s'"
    proof -
      let ?us = "not_yet s ys"
      have us: "not_yet (ticked {a} s) ys = ?us" "not_yet s (a # ys) = a # ?us"
        using d(1) False by (simp_all add: not_yet_cong) (simp add: not_yet_def)
      have "set ?us \<subseteq> set ys" unfolding not_yet_def by (rule set_takeWhileD [THEN conjunct1, THEN subsetI])
      then have "a \<notin> set ?us" using d(1) by auto
      then have t: "ticked (set ?us) (ticked {a} s) = ticked (insert a (set ?us)) s"
        by (rule ticked_ticked)
      show ?thesis
      proof (cases "drop (length ?us) ys")
        case Nil
        then show ?thesis using s'(2) us t by (simp add: sleep_round_def)
      next
        case (Cons b vs)
        then have "b \<in> set ys" by (metis in_set_dropD list.set_intros(1))
        then have "b \<noteq> a" using d(1) by auto
        then have "pcbs (ticked {a} s) b = pcbs s b" by (simp add: ticked_def)
        then show ?thesis using s'(2) us t Cons by (simp add: sleep_round_def Let_def)
      qed
    qed
    ultimately show ?thesis by blast
  qed
qed

lemma update_blocked_ok:
  assumes inv: "sched_inv s Q"
  shows "\<exists>s'. update_blocked_processes s = Some s' \<and> sleep_round s (Q Blocked) Q s'"
proof -
  note Q = sched_inv_queues [OF inv]
  have "sched_q Blocked s = Some (get_q Blocked s)" "ll_head (get_q Blocked s) = hd_opt (Q Blocked) None"
    using queues_live [OF Q] dll_head [OF queuesD(1) [OF Q, of Blocked]] by (auto simp: sched_q_def)
  then show ?thesis
    using update_blocked_loop_ok [OF inv, of "[]"] by (simp add: update_blocked_processes_def)
qed

end
