(* ===== verification/Proc_Tree.thy ===== *)
theory Proc_Tree
  imports Sched_Moves
begin

text \<open>
  The process tree. \<open>tree s Q C i\<close>: the children lists of all processes that have not exited are
  well-formed and disjoint, \<open>C\<close> gives their nodes, \<open>i\<close> is the \<open>init\<close> process with identifier 1,
  every queued process other than \<open>init\<close> is on exactly one children list, and its \<open>ppid\<close> is the
  identifier of the owner of that list. So no zombie is ever out of reach of a parent that can
  wait for it. Exiting and waiting are proved to keep this.
\<close>

section \<open>The tree\<close>

definition ppid_at :: "kernel \<Rightarrow> addr \<Rightarrow> int option" where
  "ppid_at s a = map_option ppid (pcbs s a)"

definition nodes :: "(addr \<Rightarrow> addr list) \<Rightarrow> addr set \<Rightarrow> addr set" where
  "nodes C A = (\<Union>a\<in>A. set (C a))"

definition tree :: "kernel \<Rightarrow> (queue_id \<Rightarrow> addr list) \<Rightarrow> (addr \<Rightarrow> addr list) \<Rightarrow> addr \<Rightarrow> bool" where
  "tree s Q C i \<longleftrightarrow> family s C (active Q) \<and>
     init_process s = Some i \<and> i \<in> active Q \<and> pid_at s i = Some 1 \<and>
     bij_betw (cprocess s) (nodes C (active Q)) (queued Q - {i}) \<and>
     (\<forall>a\<in>active Q. \<forall>n\<in>set (C a). ppid_at s (cprocess s n) = pid_at s a)"

lemma treeD:
  assumes "tree s Q C i"
  shows "family s C (active Q)" "init_process s = Some i" "i \<in> active Q" "pid_at s i = Some 1"
    "bij_betw (cprocess s) (nodes C (active Q)) (queued Q - {i})"
    "a \<in> active Q \<Longrightarrow> n \<in> set (C a) \<Longrightarrow> ppid_at s (cprocess s n) = pid_at s a"
  using assms by (auto simp: tree_def)

lemma family_alloc: "family s C A \<Longrightarrow> a \<in> A \<Longrightarrow> \<exists>c. pcbs s a = Some c"
  unfolding family_def by blast

lemma family_disjoint: "family s C A \<Longrightarrow> a \<in> A \<Longrightarrow> b \<in> A \<Longrightarrow> a \<noteq> b \<Longrightarrow> set (C a) \<inter> set (C b) = {}"
  unfolding family_def by blast

lemma tree_same:
  assumes t: "tree s Q C i" and A: "active Q' = active Q" and q: "queued Q' = queued Q"
    and "clinks s' = clinks s" "cprocess s' = cprocess s" "init_process s' = init_process s"
    and p: "pid_at s' = pid_at s" "ppid_at s' = ppid_at s"
    and ch: "\<And>b. map_option children (pcbs s' b) = map_option children (pcbs s b)"
  shows "tree s' Q' C i"
  using assms(4-6) treeD [OF t] family_cong [OF treeD(1) [OF t] assms(4,5) ch] p A q
  by (simp add: tree_def)

text \<open>The common case: one block changed in fields the tree does not look at.\<close>

lemma tree_pcb:
  assumes t: "tree s Q C i" and A: "active Q' = active Q" and q: "queued Q' = queued Q"
    and "clinks s' = clinks s" "cprocess s' = cprocess s" "init_process s' = init_process s"
    and p: "pcbs s' = (pcbs s)(a \<mapsto> c')" "pcbs s a = Some c"
    and f: "pid c' = pid c" "ppid c' = ppid c" "children c' = children c"
  shows "tree s' Q' C i"
  by (rule tree_same [OF t A q assms(4-6)]) (use p f in \<open>auto simp: pid_at_def ppid_at_def\<close>)

lemma woken_fields:
  "clinks (woken b p s) = clinks s" "cprocess (woken b p s) = cprocess s"
  "init_process (woken b p s) = init_process s" "current_process (woken b p s) = current_process s"
  "process_count (woken b p s) = process_count s"
  by (auto simp: woken_def Let_def log_defs split: option.splits)

lemma woken_pcb:
  assumes "b = None \<or> (\<exists>x d. b = Some x \<and> pcbs s x = Some d)"
  shows "map_option pid (pcbs (woken b p s) a) = map_option pid (pcbs s a)"
    "map_option ppid (pcbs (woken b p s) a) = map_option ppid (pcbs s a)"
    "map_option children (pcbs (woken b p s) a) = map_option children (pcbs s a)"
  using assms by (auto simp: woken_def Let_def log_defs)

section \<open>Adoption of the children\<close>

definition adopt :: "addr \<Rightarrow> llist \<Rightarrow> addr set \<Rightarrow> addr \<Rightarrow> pcb \<Rightarrow> pcb" where
  "adopt i ch A x c =
     (if x \<in> A then c\<lparr>ppid := 1\<rparr> else c)\<lparr>children := (if x = i then Some ch else children c)\<rparr>"

definition adopted :: "addr \<Rightarrow> llist \<Rightarrow> addr set \<Rightarrow> (addr \<Rightarrow> pcb option) \<Rightarrow> addr \<Rightarrow> pcb option" where
  "adopted i ch A m x = map_option (adopt i ch A x) (m x)"

lemma adopt_fields [simp]:
  "pid (adopt i ch A x c) = pid c" "state (adopt i ch A x c) = state c"
  "priority (adopt i ch A x c) = priority c" "thread (adopt i ch A x c) = thread c" "exit_status (adopt i ch A x c) = exit_status c"
  "children (adopt i ch A x c) = (if x = i then Some ch else children c)"
  "ppid (adopt i ch A x c) = (if x \<in> A then 1 else ppid c)"
  by (simp_all add: adopt_def)

lemma adopt_adopt: "adopt i ch' A x (adopt i ch B x c) = adopt i ch' (A \<union> B) x c"
  by (simp add: adopt_def)

lemma adopted_adopted: "adopted i ch' A (adopted i ch B m) = adopted i ch' (A \<union> B) m"
  by (simp add: adopted_def fun_eq_iff option.map_comp o_def adopt_adopt)

lemma adopted_empty: "m i = Some c \<Longrightarrow> children c = Some ch \<Longrightarrow> adopted i ch {} m = m"
  by (auto simp: adopted_def adopt_def fun_eq_iff map_option_case split: option.splits)

lemma reparent_loop_None [simp]: "reparent_loop None s = Some s"
  by (subst reparent_loop.simps) simp

lemma reparent_loop_ok:
  assumes "sched_live s" "init_process s = Some i" "pcbs s i = Some ic" "children ic = Some ch"
    and "dll (ch, clinks s) xs" and "dseg (clinks s) p ns None" and "distinct ns"
    and "set ns \<inter> set xs = {}" and "\<forall>n\<in>set ns. pcbs s (cprocess s n) \<noteq> None"
  shows "\<exists>ch' h l. reparent_loop (hd_opt ns None) s =
      Some (s\<lparr>klog := l, clinks := h, pcbs := adopted i ch' (cprocess s ` set ns) (pcbs s)\<rparr>) \<and>
    dll (ch', h) (xs @ ns) \<and> same_links (- (set xs \<union> set ns)) (clinks s) h"
  using assms
proof (induction ns arbitrary: s xs ic ch p)
  case Nil
  have "adopted i ch {} (pcbs s) = pcbs s"
    using Nil.prems(3,4) by (rule adopted_empty)
  then have "s = s\<lparr>klog := klog s, clinks := clinks s, pcbs := adopted i ch {} (pcbs s)\<rparr>" by simp
  then show ?case using Nil.prems(5) by (metis append_Nil2 empty_set hd_opt.simps(1) image_empty
    reparent_loop_None same_links_refl)
next
  case (Cons n ns)
  let ?x = "cprocess s n"
  obtain c where c: "pcbs s ?x = Some c" using Cons.prems(9) by auto
  obtain ch1 h1 where push: "linked_list_push_tail n (ch, clinks s) = Some (ch1, h1)"
    and d1: "dll (ch1, h1) (xs @ [n])" and l1: "same_links (- insert n (set xs)) (clinks s) h1"
    using macro.push_law [OF Cons.prems(5), of n] Cons.prems(8) by auto
  let ?l = "klog (log_orphan (pid c) (int (priority c)) (name_or (command c)) s)"
  let ?s = "s\<lparr>klog := ?l, clinks := h1, pcbs := adopted i ch1 {?x} (pcbs s)\<rparr>"
  have step: "reparent_loop (hd_opt (n # ns) None) s = reparent_loop (hd_opt ns None) ?s"
  proof -
    have nx: "l_next (clinks s) n = hd_opt ns None" using Cons.prems(6) by simp
    have m: "(pcbs s)(?x \<mapsto> c\<lparr>ppid := 1\<rparr>, i \<mapsto> the (((pcbs s)(?x \<mapsto> c\<lparr>ppid := 1\<rparr>)) i)\<lparr>children := Some ch1\<rparr>) =
        adopted i ch1 {?x} (pcbs s)"
      using c Cons.prems(3)
      by (auto simp: adopted_def adopt_def fun_eq_iff map_option_case split: option.splits)
    have "\<exists>d. ((pcbs s)(?x \<mapsto> c\<lparr>ppid := 1\<rparr>)) i = Some d \<and> children d = Some ch"
      using c Cons.prems(3,4) by auto
    then show ?thesis
      using c Cons.prems(1,2) push nx m
      by (subst reparent_loop.simps) (auto simp: log_defs log_at_def upd_pcb_def)
  qed
  have keep: "same_links (set ns) (clinks s) h1"
    using l1 by (rule macro.same_mono) (use Cons.prems(7,8) in auto)
  have "dseg h1 (Some n) ns None" using Cons.prems(6) dseg_same [OF keep] by simp
  moreover have "pcbs ?s i = Some ((if i = ?x then ic\<lparr>ppid := 1\<rparr> else ic)\<lparr>children := Some ch1\<rparr>)"
    using Cons.prems(3) by (simp add: adopted_def adopt_def)
  moreover have "set ns \<inter> set (xs @ [n]) = {}" using Cons.prems(7,8) by auto
  moreover have "\<forall>m\<in>set ns. pcbs ?s (cprocess ?s m) \<noteq> None"
    using Cons.prems(9) by (simp add: adopted_def)
  ultimately obtain ch' h l where
    IH: "reparent_loop (hd_opt ns None) ?s =
        Some (?s\<lparr>klog := l, clinks := h, pcbs := adopted i ch' (cprocess ?s ` set ns) (pcbs ?s)\<rparr>)"
    and d': "dll (ch', h) ((xs @ [n]) @ ns)"
    and l': "same_links (- (set (xs @ [n]) \<union> set ns)) (clinks ?s) h"
    using Cons.IH [of ?s _ ch1 "xs @ [n]" "Some n"] Cons.prems(1,2,7) d1 by auto
  have l2: "same_links (- (set (xs @ [n]) \<union> set ns)) h1 h" using l' by simp
  have "same_links (- (set xs \<union> set (n # ns))) (clinks s) h"
    by (rule macro.same_trans [OF macro.same_mono [OF l1] macro.same_mono [OF l2]]) auto
  then show ?case using step IH d' by (auto simp: adopted_adopted)
qed

text \<open>
  The situation of an exiting process \<open>a\<close>: it is already a zombie, its children list is still its
  own.
\<close>

definition orphaning :: "kernel \<Rightarrow> (queue_id \<Rightarrow> addr list) \<Rightarrow> (addr \<Rightarrow> addr list) \<Rightarrow> addr \<Rightarrow> addr \<Rightarrow> bool" where
  "orphaning s Q C i a \<longleftrightarrow> a \<notin> active Q \<and> family s C (insert a (active Q)) \<and>
     init_process s = Some i \<and> i \<in> active Q \<and> pid_at s i = Some 1 \<and>
     bij_betw (cprocess s) (nodes C (insert a (active Q))) (queued Q - {i}) \<and>
     (\<forall>x\<in>insert a (active Q). \<forall>n\<in>set (C x). ppid_at s (cprocess s n) = pid_at s x)"

lemma sched_inv_adopted:
  assumes inv: "sched_inv s Q"
  shows "sched_inv (s\<lparr>klog := l, clinks := h, pcbs := adopted i ch A (pcbs s)\<rparr>) Q"
proof -
  let ?s = "s\<lparr>klog := l, clinks := h, pcbs := adopted i ch A (pcbs s)\<rparr>"
  have "\<exists>d. pcbs ?s x = Some d \<and> fits q d" if "valid_q q" "x \<in> set (Q q)" for q x
    using sched_inv_fits [OF inv that] by (cases q) (auto simp: adopted_def)
  moreover have "pid_at ?s = pid_at s"
    by (simp add: pid_at_def adopted_def option.map_comp o_def fun_eq_iff)
  ultimately show ?thesis using inv by (simp add: sched_inv_def)
qed

lemma family_adopted:
  assumes f: "family s C (insert a A)" and i: "i \<in> A" and a: "a \<notin> A"
    and d: "dll (ch, h) (C i @ C a)" and same: "same_links (- (set (C i) \<union> set (C a))) (clinks s) h"
    and s': "s' = s\<lparr>klog := l, clinks := h, pcbs := adopted i ch B (pcbs s)\<rparr>"
  shows "family s' (C(i := C i @ C a)) A"
proof -
  have al: "pcbs s x \<noteq> None \<Longrightarrow> pcbs s' x \<noteq> None" for x by (simp add: s' adopted_def)
  note disj = family_disjoint [OF f]
  have "\<exists>c k. pcbs s' x = Some c \<and> children c = Some k \<and> dll (k, clinks s') ((C(i := C i @ C a)) x) \<and>
      (\<forall>n\<in>set ((C(i := C i @ C a)) x). pcbs s' (cprocess s' n) \<noteq> None)" if x: "x \<in> A" for x
  proof -
    obtain c k where c: "pcbs s x = Some c" "children c = Some k" "dll (k, clinks s) (C x)"
      and nx: "\<forall>n\<in>set (C x). pcbs s (cprocess s n) \<noteq> None"
      using f x unfolding family_def by blast
    have na: "\<forall>n\<in>set (C a). pcbs s (cprocess s n) \<noteq> None"
      using f unfolding family_def by blast
    show ?thesis
    proof (cases "x = i")
      case True
      then show ?thesis using c d nx na al by (auto simp: s' adopted_def)
    next
      case False
      have "set (C x) \<subseteq> - (set (C i) \<union> set (C a))"
        using disj [of x i] disj [of x a] x i a False by auto
      then have "dll (k, h) (C x)" using c(3) macro.frame_law macro.same_mono [OF same] by blast
      then show ?thesis using c nx al False by (auto simp: s' adopted_def)
    qed
  qed
  moreover have "set ((C(i := C i @ C a)) x) \<inter> set ((C(i := C i @ C a)) y) = {}"
    if "x \<in> A" "y \<in> A" "x \<noteq> y" for x y
    using that disj [of x y] disj [of x a] disj [of y a] a by auto
  ultimately show ?thesis unfolding family_def by simp
qed

lemma reparent_children_ok:
  assumes inv: "sched_inv s Q" and o: "orphaning s Q C i a" and c: "pcbs s a = Some c"
  shows "\<exists>ch l h s'. reparent_children a s = Some s' \<and>
    s' = s\<lparr>klog := l, clinks := h, pcbs := adopted i ch (cprocess s ` set (C a)) (pcbs s)\<rparr> \<and>
    sched_inv s' Q \<and> tree s' Q (C(i := C i @ C a)) i"
proof -
  let ?A = "active Q"
  have a: "a \<notin> ?A" and f: "family s C (insert a ?A)" and i: "i \<in> ?A" "init_process s = Some i" "pid_at s i = Some 1"
    and bij: "bij_betw (cprocess s) (nodes C (insert a ?A)) (queued Q - {i})"
    and pp: "\<And>x n. x \<in> insert a ?A \<Longrightarrow> n \<in> set (C x) \<Longrightarrow> ppid_at s (cprocess s n) = pid_at s x"
    using o by (auto simp: orphaning_def)
  obtain k where k: "children c = Some k" "dll (k, clinks s) (C a)"
    "\<forall>n\<in>set (C a). pcbs s (cprocess s n) \<noteq> None" using familyD [OF f _ c] by auto
  obtain ic ik where ic: "pcbs s i = Some ic" "children ic = Some ik" "dll (ik, clinks s) (C i)"
    using familyD [OF f, of i] family_alloc [OF f, of i] i by auto
  have disj: "set (C a) \<inter> set (C i) = {}" using family_disjoint [OF f, of a i] i a by auto
  have seg: "dseg (clinks s) None (C a) None" "distinct (C a)" "ll_head k = hd_opt (C a) None"
    using k(2) by (auto simp: dll_def)
  obtain ch h l where r: "reparent_loop (ll_head k) s =
      Some (s\<lparr>klog := l, clinks := h, pcbs := adopted i ch (cprocess s ` set (C a)) (pcbs s)\<rparr>)"
    (is "_ = Some ?s'")
    and d: "dll (ch, h) (C i @ C a)" and same: "same_links (- (set (C i) \<union> set (C a))) (clinks s) h"
    using reparent_loop_ok [OF queues_live [OF sched_inv_queues [OF inv]] i(2) ic seg(1,2) disj k(3)]
      seg(3) by auto
  have inj: "inj_on (cprocess s) (nodes C (insert a ?A))" using bij by (simp add: bij_betw_def)
  have pid': "pid_at ?s' = pid_at s"
    by (simp add: pid_at_def adopted_def option.map_comp o_def fun_eq_iff)
  have ppid': "ppid_at ?s' x = (if x \<in> cprocess s ` set (C a) then map_option (\<lambda>_. 1) (pcbs s x) else ppid_at s x)" for x
    by (simp add: ppid_at_def adopted_def option.map_comp o_def)
  have fam': "family ?s' (C(i := C i @ C a)) ?A" by (rule family_adopted [OF f i(1) a d same refl])
  have nodes': "nodes (C(i := C i @ C a)) ?A = nodes C (insert a ?A)"
    using i(1) by (auto simp: nodes_def split: if_splits)
  have "ppid_at ?s' (cprocess s n) = pid_at ?s' x" if x: "x \<in> ?A" and n: "n \<in> set ((C(i := C i @ C a)) x)" for x n
  proof (cases "n \<in> set (C a)")
    case True
    have "x = i"
    proof (rule ccontr)
      assume "x \<noteq> i"
      then have "n \<in> set (C x) \<inter> set (C a)" using n True by simp
      moreover have "set (C x) \<inter> set (C a) = {}" using family_disjoint [OF f, of x a] x a by auto
      ultimately show False by blast
    qed
    then show ?thesis using True k(3) ppid' pid' i(3) by auto
  next
    case False
    then have nx: "n \<in> set (C x)" using n by (auto split: if_splits)
    have "cprocess s n \<notin> cprocess s ` set (C a)"
    proof
      assume "cprocess s n \<in> cprocess s ` set (C a)"
      then obtain m where m: "m \<in> set (C a)" "cprocess s n = cprocess s m" by auto
      have "n \<in> nodes C (insert a ?A)" "m \<in> nodes C (insert a ?A)"
        using nx x m(1) by (auto simp: nodes_def)
      then show False using inj_onD [OF inj m(2)] m(1) False by simp
    qed
    then show ?thesis using ppid' pid' pp [of x n] x nx by simp
  qed
  then have "tree ?s' Q (C(i := C i @ C a)) i"
    using fam' i pid' bij nodes' by (simp add: tree_def del: fun_upd_apply)
  moreover have "reparent_children a s = Some ?s'" using c k(1) r by (simp add: reparent_children_def)
  ultimately show ?thesis using sched_inv_adopted [OF inv] by blast
qed

section \<open>What an operation leaves alone\<close>

text \<open>
  Identity and thread of every process are the same in both states, the state of a process
  outside the queues does not change, nor do the current process and the process count.
\<close>

definition ident :: "kernel \<Rightarrow> addr \<Rightarrow> (int \<times> bool) option" where
  "ident s x = map_option (\<lambda>c. (pid c, thread c)) (pcbs s x)"

definition same_procs :: "(queue_id \<Rightarrow> addr list) \<Rightarrow> kernel \<Rightarrow> kernel \<Rightarrow> bool" where
  "same_procs Q s s' \<longleftrightarrow> ident s' = ident s \<and>
     (\<forall>x. x \<notin> queued Q \<longrightarrow> map_option state (pcbs s' x) = map_option state (pcbs s x)) \<and>
     current_process s' = current_process s \<and> process_count s' = process_count s"

lemma same_procs_refl [simp]: "same_procs Q s s"
  by (simp add: same_procs_def)

lemma same_procs_trans: "same_procs Q s s' \<Longrightarrow> same_procs Q s' s'' \<Longrightarrow> same_procs Q s s''"
  by (simp add: same_procs_def)

lemma same_procs_upd:
  assumes "pcbs s' = (pcbs s)(a \<mapsto> c')" and "pcbs s a = Some c" and "a \<in> queued Q \<or> state c' = state c"
    and "pid c' = pid c" "thread c' = thread c"
    and "current_process s' = current_process s" "process_count s' = process_count s"
  shows "same_procs Q s s'"
  using assms by (auto simp: same_procs_def ident_def)

lemma same_procs_core:
  "q_core s' = q_core s'' \<Longrightarrow> same_procs Q s s'' \<Longrightarrow> same_procs Q s s'"
  using q_core_eqD [of s' s''] by (simp add: same_procs_def ident_def [abs_def])

lemma same_procs_woken:
  assumes "found = None \<or> (\<exists>b d. found = Some b \<and> pcbs s b = Some d \<and> b \<in> queued Q)"
  shows "same_procs Q s (woken found p s)"
  using assms by (auto simp: same_procs_def ident_def woken_def Let_def log_defs)

lemma same_procs_adopted:
  "same_procs Q s (s\<lparr>klog := l, clinks := h, pcbs := adopted i ch A (pcbs s)\<rparr>)"
  by (simp add: same_procs_def ident_def adopted_def option.map_comp o_def fun_eq_iff)

lemma same_procs_pid: "same_procs Q s s' \<Longrightarrow> pid_at s' = pid_at s"
proof
  fix x
  assume "same_procs Q s s'"
  then have "map_option fst (ident s' x) = map_option fst (ident s x)" by (simp add: same_procs_def)
  then show "pid_at s' x = pid_at s x" by (simp add: ident_def pid_at_def option.map_comp o_def)
qed

section \<open>Exiting\<close>

lemma orphaning_start:
  assumes t: "tree s Q C i" and Q: "queues s Q" and q: "valid_q q" "q \<noteq> Zombie" "a \<in> set (Q q)"
    and ai: "a \<noteq> i" and p: "pcbs s' = (pcbs s)(a \<mapsto> c')" and c: "pcbs s a = Some c"
    and f: "pid c' = pid c" "ppid c' = ppid c" "children c' = children c"
    and r: "clinks s' = clinks s" "cprocess s' = cprocess s" "init_process s' = init_process s"
  shows "orphaning s' (moveq a q Zombie Q) C i a"
proof -
  have aA: "a \<in> active Q" using q by (auto simp: active_def)
  have A: "active (moveq a q Zombie Q) = active Q - {a}" "queued (moveq a q Zombie Q) = queued Q"
    using active_moveq [OF Q q(1,3), of Zombie] moveq_queued [OF Q q(1,3), of Zombie] by simp_all
  have "family s' C (active Q)" by (rule same_family [OF treeD(1) [OF t] p c r(2,1) f(3)])
  moreover have "pid_at s' = pid_at s" "ppid_at s' = ppid_at s"
    using p c f by (auto simp: pid_at_def ppid_at_def)
  ultimately show ?thesis
    using treeD [OF t] ai r aA by (simp add: orphaning_def A insert_absorb)
qed

lemma orphaning_wake:
  assumes o: "orphaning s Q C i a" and inv: "sched_inv s Q" and f: "found = find P (Q Blocked)"
    and s': "q_core s' = q_core (woken found p s)"
  shows "orphaning s' (wake s found Q) C i a"
proof -
  have hit: "found = None \<or> (\<exists>x d. found = Some x \<and> pcbs s x = Some d)"
  proof (cases found)
    case (Some b)
    then have "b \<in> set (Q Blocked)" using f find_SomeD by metis
    then show ?thesis using sched_inv_fits [OF inv, of Blocked] Some by auto
  qed simp
  note core = q_core_eqD [OF s']
  have "pid_at s' = pid_at s" "ppid_at s' = ppid_at s"
    using woken_pcb [OF hit] core(1) by (auto simp: pid_at_def ppid_at_def)
  moreover have "family s C (insert a (active Q))" using o by (simp add: orphaning_def)
  then have "family s' C (insert a (active Q))"
    by (rule family_cong) (simp_all add: core(1-3) woken_fields woken_pcb(3) [OF hit])
  ultimately show ?thesis
    using o core wake_frame [OF inv f] by (simp add: orphaning_def woken_fields)
qed

lemma woken_none:
  assumes "found = None \<or> (\<exists>b. found = Some b \<and> b \<noteq> a)"
  shows "pcbs (woken found p s) a = pcbs s a"
  using assms by (auto simp: woken_def Let_def log_defs)

text \<open>Outside \<open>A\<close> the exit status of every process is kept, and a zombie stays one.\<close>

definition status_kept :: "addr set \<Rightarrow> kernel \<Rightarrow> kernel \<Rightarrow> bool" where
  "status_kept A s s' \<longleftrightarrow>
     (\<forall>x d'. x \<notin> A \<longrightarrow> pcbs s' x = Some d' \<longrightarrow>
        (\<exists>d. pcbs s x = Some d \<and> exit_status d' = exit_status d \<and>
           (state d = PROCESS_ZOMBIED \<longrightarrow> state d' = PROCESS_ZOMBIED)))"

lemma status_kept_trans: "status_kept A s t \<Longrightarrow> status_kept B t u \<Longrightarrow> status_kept (A \<union> B) s u"
  unfolding status_kept_def by (metis UnCI)

lemma status_kept_same [intro]: "pcbs s' = pcbs s \<Longrightarrow> status_kept A s s'"
  by (simp add: status_kept_def)

lemma status_kept_upd:
  "pcbs s a = Some c \<Longrightarrow> pcbs s' = (pcbs s)(a \<mapsto> c') \<Longrightarrow> exit_status c' = exit_status c \<Longrightarrow>
   (state c = PROCESS_ZOMBIED \<Longrightarrow> state c' = PROCESS_ZOMBIED) \<Longrightarrow> status_kept A s s'"
  by (auto simp: status_kept_def)

lemma status_kept_set: "pcbs s' = (pcbs s)(a \<mapsto> c') \<Longrightarrow> a \<in> A \<Longrightarrow> status_kept A s s'"
  by (auto simp: status_kept_def)

lemma status_kept_woken:
  assumes "found = None \<or> (\<exists>b d. found = Some b \<and> pcbs s b = Some d \<and> state d \<noteq> PROCESS_ZOMBIED)"
  shows "status_kept A s (woken found p s)"
  using assms by (auto simp: status_kept_def woken_def Let_def split: if_splits)

lemma status_kept_adopted: "pcbs s' = adopted i ch B (pcbs s) \<Longrightarrow> status_kept A s s'"
  by (auto simp: status_kept_def adopted_def adopt_def split: if_splits)

lemma k_proc_exit_ok:
  assumes inv: "sched_inv s Q" and t: "tree s Q C i"
    and q: "valid_q q" "q \<noteq> Zombie" "a \<in> set (Q q)" and ai: "a \<noteq> i" and c: "pcbs s a = Some c"
    and cur: "current_process s = Some u" "pcbs s u = Some uc"
    and Q1: "Q1 = moveq a q Zombie Q" and w: "found = find (waiting s C (pid c)) (Q1 Blocked)"
  shows "\<exists>s' c'. k_proc_exit (Some a) status s =
      Some (if pid c = pid uc then Thread_exited else Returned 0, s') \<and>
    sched_inv s' (wake s found Q1) \<and> tree s' (wake s found Q1) (C(i := C i @ C a)) i \<and>
    pcbs s' a = Some c' \<and> state c' = PROCESS_ZOMBIED \<and> exit_status c' = status \<and>
    same_procs Q s s' \<and> active (wake s found Q1) = active Q - {a} \<and> queued (wake s found Q1) = queued Q \<and>
    status_kept {a} s s'"
proof -
  let ?c = "c\<lparr>state := PROCESS_ZOMBIED, exit_status := status\<rparr>"
  let ?s1 = "(log_exited (pid c) (int (priority c)) (name_or (command c)) s)\<lparr>pcbs := (pcbs s)(a \<mapsto> ?c)\<rparr>"
  note Q = sched_inv_queues [OF inv]
  have pr: "priority c < 3" using sched_inv_fits [OF inv q(1,3)] c q by (cases q) auto
  have Qs: "queues ?s1 Q" and al: "\<forall>x\<in>queued Q. pcbs ?s1 x \<noteq> None"
    using Q sched_inv_queued_alloc [OF inv] by (auto simp: log_defs)
  obtain s2 where s2: "k_remove_from_active_queue (Some a) ?s1 = Some (True, s2)"
    "queues s2 (Q(q := remove1 a (Q q)))" "q_core s2 = q_core ?s1"
    using k_remove_from_active_queue_hit [OF Qs q al] by blast
  let ?s3 = "log_zombie (pid c) (int (priority c)) (command c) s2"
  have q3: "queues ?s3 (Q(q := remove1 a (Q q)))" using s2(2) by (simp add: log_defs)
  obtain s4 where s4: "q_push Zombie a ?s3 = Some s4" "queues s4 Q1" "q_core s4 = q_core ?s3"
    unfolding Q1 using remove_push_ok [OF Q q(1) _ q(3) q3, of Zombie] by auto
  have p4: "pcbs s4 = (pcbs s)(a \<mapsto> ?c)"
    using q_core_eqD(1) [OF s4(3)] q_core_eqD(1) [OF s2(3)] by (simp add: log_defs)
  have r4: "clinks s4 = clinks s" "cprocess s4 = cprocess s" "init_process s4 = init_process s"
    "current_process s4 = current_process s" "process_count s4 = process_count s"
    using q_core_eqD [OF s4(3)] q_core_eqD [OF s2(3)] by (simp_all add: log_defs)
  have inv4: "sched_inv s4 Q1"
    using sched_inv_move [OF inv q(1) _ q(3) s4(2) [unfolded Q1] p4 c] pr Q1 by simp
  have o4: "orphaning s4 Q1 C i a"
    unfolding Q1 by (rule orphaning_start [OF t Q q ai p4 c]) (simp_all add: r4)
  have wq: "waiting s4 C (pid c) = waiting s C (pid c)"
    by (rule same_waiting [OF p4 c r4(2)]) simp_all
  have f4: "family s4 C (set (Q1 Blocked))"
    using o4 blocked_active [of Q1] family_mono [of s4 C "insert a (active Q1)"]
    by (simp add: orphaning_def subset_insertI2)
  obtain s5 where s5: "unblock_parents a s4 = Some s5" "sched_inv s5 (wake s4 found Q1)"
    "q_core s5 = q_core (woken found (pid c) s4)"
    using unblock_parents_ok [OF inv4 f4, of a ?c found] p4 w wq by auto
  have o5: "orphaning s5 (wake s4 found Q1) C i a"
    by (rule orphaning_wake [OF o4 inv4 w s5(3)])
  have fb: "\<And>b. found = Some b \<Longrightarrow> b \<in> set (Q1 Blocked)" using w find_SomeD by metis
  have "a \<notin> set (Q1 Blocked)" using moveq_member [OF Q q(1,3), of Blocked a Zombie] Q1 by simp
  then have fa: "found = None \<or> (\<exists>b. found = Some b \<and> b \<noteq> a)" using fb by (cases found) auto
  then have wk: "wake s4 found Q1 = wake s found Q1" by (auto simp: wake_def p4)
  have p5: "pcbs s5 a = Some ?c" using q_core_eqD(1) [OF s5(3)] woken_none [OF fa] p4 by simp
  obtain ch l h s6 where s6: "reparent_children a s5 = Some s6"
    "s6 = s5\<lparr>klog := l, clinks := h, pcbs := adopted i ch (cprocess s5 ` set (C a)) (pcbs s5)\<rparr>"
    "sched_inv s6 (wake s4 found Q1)" "tree s6 (wake s4 found Q1) (C(i := C i @ C a)) i"
    using reparent_children_ok [OF s5(2) o5 p5] by blast
  have qd: "queued Q1 = queued Q" using moveq_queued [OF Q q(1,3), of Zombie] Q1 by simp
  have same6: "same_procs Q s s6"
  proof -
    have aq: "a \<in> queued Q" using q by (auto simp: queued_def)
    have "same_procs Q s s4" by (rule same_procs_upd [OF p4 c]) (simp_all add: r4 aq)
    moreover have "found = None \<or> (\<exists>b d. found = Some b \<and> pcbs s4 b = Some d \<and> b \<in> queued Q)"
      using fb sched_inv_alloc [OF inv4, of Blocked] blocked_active [of Q1] active_sub [of Q1] qd
      by (cases found) auto
    then have "same_procs Q s4 s5" using same_procs_core [OF s5(3)] same_procs_woken by blast
    moreover have "same_procs Q s5 s6" using s6(2) same_procs_adopted by simp
    ultimately show ?thesis by (blast intro: same_procs_trans)
  qed
  have kept: "status_kept {a} s s6"
  proof -
    have "found = None \<or> (\<exists>b d. found = Some b \<and> pcbs s4 b = Some d \<and> state d \<noteq> PROCESS_ZOMBIED)"
      using fb sched_inv_fits [OF inv4, of Blocked] by (cases found) fastforce+
    then have "status_kept {a} s4 (woken found (pid c) s4)" by (rule status_kept_woken)
    moreover have "status_kept {a} (woken found (pid c) s4) s5" using q_core_eqD(1) [OF s5(3)] by blast
    moreover have "status_kept {a} s5 s6" by (rule status_kept_adopted) (simp add: s6(2))
    moreover have "status_kept {a} s s4" by (rule status_kept_set [OF p4]) simp
    ultimately show ?thesis using status_kept_trans [of "{a}" _ _ "{a}"] by (metis Un_absorb)
  qed
  have cur6: "current_process s6 = Some u" using same6 cur(1) by (simp add: same_procs_def)
  have u6: "\<exists>d. pcbs s6 u = Some d \<and> pid d = pid uc"
    using fun_cong [OF same_procs_pid [OF same6], of u] cur(2) by (auto simp: pid_at_def)
  have a6: "pcbs s6 a = Some (adopt i ch (cprocess s5 ` set (C a)) a ?c)"
    using s6(2) p5 by (simp add: adopted_def)
  have "k_proc_exit (Some a) status s = Some (if pid c = pid uc then Thread_exited else Returned 0, s6)"
    using c queues_live [OF Q] s2(1) s4(1) s5(1) s6(1) cur6 u6 a6
    by (auto simp: k_proc_exit_def log_defs log_at_def)
  moreover have "active (wake s found Q1) = active Q - {a} \<and> queued (wake s found Q1) = queued Q"
    using wake_frame [OF inv4, of found "waiting s C (pid c)"] w wk qd active_moveq [OF Q q(1,3), of Zombie] Q1
    by simp
  ultimately show ?thesis using s6(3,4) a6 same6 wk kept by (simp del: fun_upd_apply)
qed

section \<open>Waiting\<close>

lemma inj_image_remove:
  "inj_on f A \<Longrightarrow> x \<in> A \<Longrightarrow> f ` (A - {x}) = f ` A - {f x}"
  using inj_on_image_set_diff [of f A A "{x}"] by auto

lemma sched_inv_reap:
  assumes inv: "sched_inv s Q" and x: "x \<in> set (Q Zombie)"
  shows "\<exists>s'. q_remove Zombie x s = Some s' \<and> sched_inv s' (Q(Zombie := remove1 x (Q Zombie))) \<and>
    q_core s' = q_core s"
proof -
  let ?Q = "Q(Zombie := remove1 x (Q Zombie))"
  note Q = sched_inv_queues [OF inv]
  obtain s' where s': "q_remove Zombie x s = Some s'" "queues s' ?Q" "q_core s' = q_core s"
    using q_remove_ok [OF Q _ x] by auto
  have p: "pcbs s' = pcbs s" using q_core_eqD(1) [OF s'(3)] .
  have sub: "set (?Q q) \<subseteq> set (Q q)" for q using set_remove1_subset [of x] by (cases q) auto
  have "\<exists>c. pcbs s' y = Some c \<and> fits q c" if "valid_q q" "y \<in> set (?Q q)" for q y
    using sched_inv_fits [OF inv that(1), of y] subsetD [OF sub that(2)] p by simp
  moreover have "queued ?Q \<subseteq> queued Q" using queued_remove1 [OF Q _ x] by auto
  then have "inj_on (pid_at s') (queued ?Q)"
    using inv p inj_on_subset by (auto simp: sched_inv_def pid_at_def [abs_def])
  ultimately show ?thesis using s' by (simp add: sched_inv_def del: fun_upd_apply)
qed

text \<open>Removing the node \<open>n\<close> of the list of \<open>u\<close> together with its zombie.\<close>

lemma family_remove:
  assumes f: "family s C A" and u: "u \<in> A" "pcbs s u = Some c" and ch: "dll (ch, h) (remove1 n (C u))"
    and same: "same_links (- set (C u)) (clinks s) h"
    and p: "pcbs s' = (pcbs s)(u \<mapsto> c\<lparr>children := Some ch\<rparr>)" and r: "clinks s' = h" "cprocess s' = cprocess s"
  shows "family s' (C(u := remove1 n (C u))) A"
proof -
  let ?C = "C(u := remove1 n (C u))"
  have sub: "set (?C x) \<subseteq> set (C x)" for x using set_remove1_subset [of n] by (cases "x = u") auto
  have al: "pcbs s x \<noteq> None \<Longrightarrow> pcbs s' x \<noteq> None" for x by (simp add: p)
  have "\<exists>d k. pcbs s' x = Some d \<and> children d = Some k \<and> dll (k, clinks s') (?C x)" if x: "x \<in> A" for x
  proof (cases "x = u")
    case True
    then show ?thesis using ch p r by simp
  next
    case False
    obtain d k where d: "pcbs s x = Some d" "children d = Some k" "dll (k, clinks s) (C x)"
      using family_alloc [OF f x] familyD [OF f x] by blast
    have "set (C x) \<subseteq> - set (C u)" using family_disjoint [OF f x u(1) False] by auto
    then have "dll (k, h) (C x)" using macro.frame_law [OF d(3)] macro.same_mono [OF same] by blast
    then show ?thesis using d p r False by simp
  qed
  moreover have "pcbs s' (cprocess s' m) \<noteq> None" if "x \<in> A" "m \<in> set (?C x)" for x m
  proof -
    have "m \<in> set (C x)" using sub that(2) by blast
    then show ?thesis using familyD [OF f that(1)] family_alloc [OF f that(1)] al r by auto
  qed
  moreover have "set (?C x) \<inter> set (?C y) = {}" if "x \<in> A" "y \<in> A" "x \<noteq> y" for x y
    using family_disjoint [OF f that] sub [of x] sub [of y] by blast
  ultimately show ?thesis unfolding family_def by blast
qed

lemma remove_child_ok:
  assumes f: "family s C A" and u: "u \<in> A" "pcbs s u = Some c" and n: "n \<in> set (C u)"
  shows "\<exists>ch h s'. remove_child u n s = Some s' \<and>
    s' = s\<lparr>clinks := h, pcbs := (pcbs s)(u \<mapsto> c\<lparr>children := Some ch\<rparr>)\<rparr> \<and>
    family s' (C(u := remove1 n (C u))) A"
proof -
  obtain k where k: "children c = Some k" "dll (k, clinks s) (C u)"
    using familyD [OF f u] by blast
  obtain ch h where r: "linked_list_remove n (k, clinks s) = (ch, h)" "dll (ch, h) (remove1 n (C u))"
    "same_links (- set (C u)) (clinks s) h"
    using macro.unlink_law [OF k(2) n] by blast
  let ?s = "s\<lparr>clinks := h, pcbs := (pcbs s)(u \<mapsto> c\<lparr>children := Some ch\<rparr>)\<rparr>"
  have "family ?s (C(u := remove1 n (C u))) A"
    by (rule family_remove [OF f u r(2,3)]) simp_all
  moreover have "remove_child u n s = Some ?s"
    using u(2) k(1) r(1) by (simp add: remove_child_def)
  ultimately show ?thesis by blast
qed

lemma nodes_remove:
  assumes f: "family s C A" and u: "u \<in> A" "n \<in> set (C u)" "distinct (C u)"
  shows "nodes (C(u := remove1 n (C u))) A = nodes C A - {n}"
proof -
  have "n \<notin> set (C x)" if "x \<in> A" "x \<noteq> u" for x
    using family_disjoint [OF f that(1) u(1)] that u(2) by blast
  then show ?thesis using u by (auto simp: nodes_def split: if_splits)
qed

lemma reap_ok:
  assumes inv: "sched_inv s Q" and t: "tree s Q C i" and u: "u \<in> active Q" "pcbs s u = Some c"
    and n: "n \<in> set (C u)" and x: "cprocess s n \<in> set (Q Zombie)"
  shows "\<exists>ch h s1 s2. remove_child u n s = Some s1 \<and>
    s1 = s\<lparr>clinks := h, pcbs := (pcbs s)(u \<mapsto> c\<lparr>children := Some ch\<rparr>)\<rparr> \<and>
    q_remove Zombie (cprocess s n) s1 = Some s2 \<and>
    sched_inv s2 (Q(Zombie := remove1 (cprocess s n) (Q Zombie))) \<and>
    tree s2 (Q(Zombie := remove1 (cprocess s n) (Q Zombie))) (C(u := remove1 n (C u))) i \<and>
    q_core s2 = q_core s1"
proof -
  let ?x = "cprocess s n" and ?C = "C(u := remove1 n (C u))"
  let ?Q = "Q(Zombie := remove1 ?x (Q Zombie))"
  note f = treeD(1) [OF t]
  obtain ch h s1 where s1: "remove_child u n s = Some s1"
    "s1 = s\<lparr>clinks := h, pcbs := (pcbs s)(u \<mapsto> c\<lparr>children := Some ch\<rparr>)\<rparr>" "family s1 ?C (active Q)"
    using remove_child_ok [OF f u n] by blast
  have p1: "pcbs s1 = (pcbs s)(u \<mapsto> c\<lparr>children := Some ch\<rparr>)" using s1(2) by simp
  have "sched_inv s1 Q"
    by (rule sched_inv_pcb [OF inv _ p1 u(2)]) (simp_all add: s1(2) sched_inv_queues [OF inv])
  then obtain s2 where s2: "q_remove Zombie ?x s1 = Some s2" "sched_inv s2 ?Q" "q_core s2 = q_core s1"
    using sched_inv_reap x by blast
  note core = q_core_eqD [OF s2(3)]
  have A: "active ?Q = active Q" by (simp add: active_def)
  have xi: "?x \<noteq> i"
    using bij_betwE [OF treeD(5) [OF t]] u(1) n by (auto simp: nodes_def)
  have qd: "queued ?Q - {i} = (queued Q - {i}) - {?x}"
    using queued_remove1 [OF sched_inv_queues [OF inv] _ x] by auto
  have "distinct (C u)" using familyD [OF f u] dll_distinct by blast
  then have nd: "nodes ?C (active Q) = nodes C (active Q) - {n}" by (rule nodes_remove [OF f u(1) n])
  have "n \<in> nodes C (active Q)" using u(1) n by (auto simp: nodes_def)
  then have bij: "bij_betw (cprocess s) (nodes ?C (active Q)) (queued ?Q - {i})"
    using treeD(5) [OF t] inj_image_remove [of "cprocess s" "nodes C (active Q)" n]
    unfolding nd qd bij_betw_def by (auto simp: inj_on_diff)
  have pids: "pid_at s2 = pid_at s" "ppid_at s2 = ppid_at s"
    using core(1) p1 u(2) by (auto simp: pid_at_def ppid_at_def)
  have "ppid_at s (cprocess s m) = pid_at s y" if "y \<in> active Q" "m \<in> set (?C y)" for y m
    using treeD(6) [OF t that(1), of m] that(2) set_remove1_subset [of n "C u"]
    by (auto split: if_splits)
  moreover have "family s2 ?C (active Q)"
    by (rule family_cong [OF s1(3)]) (simp_all add: core)
  ultimately have "tree s2 ?Q ?C i"
    using treeD(2-4) [OF t] bij pids core s1(2) A by (simp add: tree_def del: fun_upd_apply)
  then show ?thesis using s1 s2 by blast
qed

end
