(* ===== verification/Kernel_Inv.thy ===== *)
theory Kernel_Inv
  imports Proc_Tree Proc_Kernel
begin

text \<open>
  The kernel invariant and its preservation by every kernel call: \<open>kinv\<close> joins the scheduling
  invariant and the process tree with what is known of the current process (it is queued unless
  it has exited) and of identifiers (between 1 and the process count) and threads.
\<close>

definition kinv :: "kernel \<Rightarrow> (queue_id \<Rightarrow> addr list) \<Rightarrow> (addr \<Rightarrow> addr list) \<Rightarrow> addr \<Rightarrow> bool" where
  "kinv s Q C i \<longleftrightarrow> sched_inv s Q \<and> tree s Q C i \<and>
     (\<forall>u. current_process s = Some u \<longrightarrow>
        (\<exists>c. pcbs s u = Some c \<and> (state c \<noteq> PROCESS_ZOMBIED \<longrightarrow> u \<in> queued Q))) \<and>
     (\<forall>a\<in>queued Q. \<exists>p. ident s a = Some (p, True) \<and> 1 \<le> p \<and> p \<le> int (process_count s))"

definition kernel_inv :: "kernel \<Rightarrow> bool" where
  "kernel_inv s \<longleftrightarrow> (\<exists>Q C i. kinv s Q C i)"

lemma kinvD:
  assumes "kinv s Q C i"
  shows "sched_inv s Q" "tree s Q C i"
    "current_process s = Some u \<Longrightarrow> \<exists>c. pcbs s u = Some c \<and> (state c \<noteq> PROCESS_ZOMBIED \<longrightarrow> u \<in> queued Q)"
    "a \<in> queued Q \<Longrightarrow> \<exists>p. ident s a = Some (p, True) \<and> 1 \<le> p \<and> p \<le> int (process_count s)"
  using assms by (auto simp: kinv_def)

lemma kernel_invI: "kinv s Q C i \<Longrightarrow> kernel_inv s"
  by (auto simp: kernel_inv_def)

text \<open>The general preservation rule: processes can leave the queues only as zombies.\<close>

lemma kinv_keep:
  assumes k: "kinv s Q C i" and inv: "sched_inv s' Q'" and t: "tree s' Q' C' i"
    and same: "same_procs Q s s'" and sub: "queued Q' \<subseteq> queued Q"
    and gone: "\<And>x c. x \<in> queued Q - queued Q' \<Longrightarrow> pcbs s' x = Some c \<Longrightarrow> state c = PROCESS_ZOMBIED"
  shows "kinv s' Q' C' i"
proof -
  have id: "ident s' = ident s" and cur: "current_process s' = current_process s"
    and cnt: "process_count s' = process_count s"
    and st: "\<And>x. x \<notin> queued Q \<Longrightarrow> map_option state (pcbs s' x) = map_option state (pcbs s x)"
    using same by (auto simp: same_procs_def)
  have "\<exists>c. pcbs s' u = Some c \<and> (state c \<noteq> PROCESS_ZOMBIED \<longrightarrow> u \<in> queued Q')"
    if u: "current_process s = Some u" for u
  proof -
    obtain d where d: "pcbs s u = Some d" "state d \<noteq> PROCESS_ZOMBIED \<longrightarrow> u \<in> queued Q"
      using kinvD(3) [OF k u] by blast
    obtain c where c: "pcbs s' u = Some c"
      using fun_cong [OF id, of u] d(1) by (auto simp: ident_def)
    show ?thesis using c d gone [of u c] st [of u] by (cases "u \<in> queued Q"; cases "u \<in> queued Q'") auto
  qed
  then show ?thesis
    using inv t kinvD(4) [OF k] id cur cnt sub unfolding kinv_def by auto
qed

lemma kinv_move:
  assumes k: "kinv s Q C i" and inv: "sched_inv s' Q'" and t: "tree s' Q' C' i"
    and same: "same_procs Q s s'" and qd: "queued Q' = queued Q"
  shows "kinv s' Q' C' i"
  using kinv_keep [OF k inv t same] qd by auto

section \<open>Looking up processes\<close>

lemma search_order_set: "set search_order = {q. valid_q q}"
proof -
  have "set search_order = insert Zombie (set active_order)"
    by (simp add: search_order_def active_order_def insert_commute)
  also have "\<dots> = {q. valid_q q}" unfolding active_order_set by auto
  finally show ?thesis .
qed

lemma find_pid_in_ok:
  assumes inv: "sched_inv s Q" and qs: "\<forall>q\<in>set qs. valid_q q"
  shows "\<exists>r. find_pid_in qs p s = Some r \<and>
    (case r of None \<Rightarrow> \<forall>q\<in>set qs. \<forall>a\<in>set (Q q). pid_at s a \<noteq> Some p
     | Some a \<Rightarrow> a \<in> queued Q \<and> pid_at s a = Some p)"
  using qs
proof (induction qs)
  case (Cons q qs)
  let ?P = "\<lambda>a. pid_at s a = Some p"
  have q: "valid_q q" using Cons.prems by simp
  have "\<forall>a\<in>set (Q q). \<exists>c. pcbs s a = Some c \<and> Some (pid c = p) = Some (?P a)"
    using sched_inv_alloc [OF inv q] by (auto simp: pid_at_def)
  then have f: "q_find q (\<lambda>_ c. Some (pid c = p)) s = Some (find ?P (Q q))"
    by (rule q_find_spec [OF sched_inv_queues [OF inv] q])
  show ?case
  proof (cases "find ?P (Q q)")
    case None
    then have "\<forall>a\<in>set (Q q). \<not> ?P a" by (simp add: find_None_iff)
    then show ?thesis using f None Cons by (auto split: option.splits)
  next
    case (Some a)
    then have "a \<in> set (Q q)" "?P a" using find_SomeD [OF Some] by auto
    then show ?thesis using f Some q by (auto simp: queued_def)
  qed
qed simp

lemma k_get_process_by_pid_ok:
  assumes k: "kinv s Q C i"
  shows "\<exists>r. k_get_process_by_pid p s = Some r \<and>
    (case r of None \<Rightarrow> \<forall>a\<in>queued Q. pid_at s a \<noteq> Some p
     | Some a \<Rightarrow> pid_at s a = Some p \<and> (a \<in> queued Q \<or> current_process s = Some a))"
proof -
  note inv = kinvD(1) [OF k]
  have live: "sched_live s" using queues_live [OF sched_inv_queues [OF inv]] .
  obtain r where r: "find_pid_in search_order p s = Some r"
    "case r of None \<Rightarrow> \<forall>q\<in>set search_order. \<forall>a\<in>set (Q q). pid_at s a \<noteq> Some p
     | Some a \<Rightarrow> a \<in> queued Q \<and> pid_at s a = Some p"
    using find_pid_in_ok [OF inv, of search_order p] search_order_set by auto
  have r': "case r of None \<Rightarrow> \<forall>a\<in>queued Q. pid_at s a \<noteq> Some p | Some a \<Rightarrow> a \<in> queued Q \<and> pid_at s a = Some p"
    using r(2) by (auto simp: search_order_set queued_def split: option.splits)
  show ?thesis
  proof (cases "current_process s")
    case None
    then show ?thesis using r(1) r' live by (auto simp: k_get_process_by_pid_def split: option.splits)
  next
    case (Some u)
    obtain c where "pcbs s u = Some c" using kinvD(3) [OF k Some] by blast
    then show ?thesis using Some r(1) r' live
      by (cases "pid c = p") (auto simp: k_get_process_by_pid_def pid_at_def split: option.splits)
  qed
qed

lemma lookup_queued:
  assumes k: "kinv s Q C i" and l: "k_get_process_by_pid p s = Some (Some a)"
    and c: "pcbs s a = Some c" "state c \<noteq> PROCESS_ZOMBIED"
  shows "a \<in> active Q" "pid c = p"
proof -
  have a: "pid_at s a = Some p" "a \<in> queued Q \<or> current_process s = Some a"
    using k_get_process_by_pid_ok [OF k, of p] l by auto
  then have q: "a \<in> queued Q" using kinvD(3) [OF k, of a] c by auto
  show "pid c = p" using a(1) c(1) by (simp add: pid_at_def)
  have "home c \<noteq> Zombie" using c(2) by (simp add: home_def split: process_state.splits)
  then show "a \<in> active Q"
    using sched_inv_home [OF kinvD(1) [OF k] q c(1)] unfolding active_def by blast
qed

section \<open>Calls that move a process\<close>

text \<open>The queue of a process that runs.\<close>

lemma running_ready:
  assumes k: "kinv s Q C i" and u: "current_process s = Some u"
    and c: "pcbs s u = Some c" "state c = PROCESS_RUNNING"
  shows "u \<in> set (Q (Ready (priority c)))" "priority c < 3" "u \<in> queued Q" "u \<in> active Q"
proof -
  show q: "u \<in> queued Q" using kinvD(3) [OF k u] c by auto
  have "home c = Ready (priority c)" using c(2) by (simp add: home_def)
  then show h: "u \<in> set (Q (Ready (priority c)))" "priority c < 3"
    using sched_inv_home [OF kinvD(1) [OF k] q c(1)] by auto
  then show "u \<in> active Q"
    unfolding active_def by (auto intro!: bexI [of _ "Ready (priority c)"])
qed

text \<open>One process moves between non-zombie queues and changes nothing the tree looks at.\<close>

lemma kinv_shift:
  assumes k: "kinv s Q C i" and q: "valid_q q" "a \<in> set (Q q)" "q \<noteq> Zombie" and r: "valid_q r" "r \<noteq> Zombie"
    and c: "pcbs s a = Some c" and inv: "sched_inv s' (moveq a q r Q)"
    and s': "q_core s' = q_core (s0\<lparr>pcbs := (pcbs s)(a \<mapsto> c')\<rparr>)"
    and s0: "clinks s0 = clinks s" "cprocess s0 = cprocess s" "init_process s0 = init_process s"
      "current_process s0 = current_process s" "process_count s0 = process_count s"
    and f: "pid c' = pid c" "ppid c' = ppid c" "children c' = children c" "thread c' = thread c"
  shows "kinv s' (moveq a q r Q) C i"
proof (rule kinv_move [OF k inv])
  note Q = sched_inv_queues [OF kinvD(1) [OF k]]
  note core = q_core_eqD [OF s']
  have aA: "a \<in> active Q" using q by (auto simp: active_def)
  show qd: "queued (moveq a q r Q) = queued Q" by (rule moveq_queued [OF Q q(1,2) r(1)])
  have A: "active (moveq a q r Q) = active Q"
    using active_moveq [OF Q q(1,2) r(1)] r(2) aA by auto
  have p: "pcbs s' = (pcbs s)(a \<mapsto> c')" using core(1) by simp
  show "tree s' (moveq a q r Q) C i"
    by (rule tree_pcb [OF kinvD(2) [OF k] A qd _ _ _ p c f(1-3)]) (simp_all add: core s0)
  show "same_procs Q s s'"
    by (rule same_procs_upd [OF p c]) (use aA active_sub [of Q] core s0 f in auto)
qed

lemma block_kinv:
  assumes k: "kinv s Q C i" and u: "current_process s = Some u"
    and c: "pcbs s u = Some c" "state c = PROCESS_RUNNING"
  shows "\<exists>s'. block_process u s = Some s' \<and> kinv s' (moveq u (Ready (priority c)) Blocked Q) C i"
proof -
  note r = running_ready [OF k u c]
  obtain s' where s': "block_process u s = Some s'" "sched_inv s' (moveq u (Ready (priority c)) Blocked Q)"
    "q_core s' = q_core (log_blocked (pid c) (int (priority c)) (name_or (command c)) s)
      \<lparr>pcbs := (pcbs s)(u \<mapsto> c\<lparr>state := PROCESS_BLOCKED\<rparr>)\<rparr>"
    using block_process_ok [OF kinvD(1) [OF k] r(1,2) c(1)] by blast
  have "kinv s' (moveq u (Ready (priority c)) Blocked Q) C i"
    by (rule kinv_shift [OF k _ r(1) _ _ _ c(1) s'(2) s'(3) [folded q_core_upd]])
      (use r in \<open>simp_all add: log_defs\<close>)
  then show ?thesis using s'(1) by blast
qed

lemma sleep_kinv:
  assumes k: "kinv s Q C i" and u: "current_process s = Some u"
    and c: "pcbs s u = Some c" "state c = PROCESS_RUNNING" and n: "n \<noteq> 0"
  shows "\<exists>s'. k_sleep (Some u) n s = Some (0, s') \<and> kinv s' (moveq u (Ready (priority c)) Blocked Q) C i"
proof -
  note r = running_ready [OF k u c]
  obtain s' where s': "k_sleep (Some u) n s = Some (0, s')"
    "sched_inv s' (moveq u (Ready (priority c)) Blocked Q)"
    "q_core s' = q_core ((log_blocked (pid c) (int (priority c)) (name_or (command c))
      (log_sleep (pid c) (int (priority c)) (name_or (command c)) s))
        \<lparr>pcbs := (pcbs s)(u \<mapsto> c\<lparr>sleep_time := of_nat n, state := PROCESS_BLOCKED\<rparr>)\<rparr>)"
    using k_sleep_ok [OF kinvD(1) [OF k] r(1,2) c(1) n] by blast
  have "kinv s' (moveq u (Ready (priority c)) Blocked Q) C i"
    by (rule kinv_shift [OF k _ r(1) _ _ _ c(1) s'(2,3)]) (use r in \<open>simp_all add: log_defs\<close>)
  then show ?thesis using s'(1) by blast
qed

lemma continue_kinv:
  assumes k: "kinv s Q C i" and a: "a \<in> active Q" and c: "pcbs s a = Some c"
  shows "\<exists>r s' Q'. k_continue_process (Some a) s = Some (r, s') \<and> kinv s' Q' C i \<and> (r = 0 \<or> s' = s)"
proof (cases "state c = PROCESS_STOPPED")
  case False
  then show ?thesis using k_continue_process_error [of s a c] c k by auto
next
  case True
  have h: "a \<in> set (Q Stopped)" "priority c < 3"
    using sched_inv_home [OF kinvD(1) [OF k] _ c] a active_sub [of Q] True by (auto simp: home_def)
  obtain s' where s': "k_continue_process (Some a) s = Some (0, s')"
    "sched_inv s' (moveq a Stopped (Ready (priority c)) Q)"
    "q_core s' = q_core ((log_continued (pid c) (int (priority c)) (name_or (command c)) s)
      \<lparr>pcbs := (pcbs s)(a \<mapsto> c\<lparr>state := PROCESS_RUNNING\<rparr>)\<rparr>)"
    using k_continue_process_ok [OF kinvD(1) [OF k] h(1) c] by blast
  have "kinv s' (moveq a Stopped (Ready (priority c)) Q) C i"
    by (rule kinv_shift [OF k _ h(1) _ _ _ c s'(2,3)]) (use h in \<open>simp_all add: log_defs\<close>)
  then show ?thesis using s'(1) by blast
qed

lemma set_priority_kinv:
  assumes k: "kinv s Q C i" and aq: "a \<in> queued Q" and c: "pcbs s a = Some c"
  shows "\<exists>r s' Q'. k_set_priority (Some a) p s = Some (r, s') \<and> kinv s' Q' C i \<and> (r = 0 \<or> s' = s)"
proof (cases "0 \<le> p \<and> p \<le> 2")
  case False
  then show ?thesis using k by (auto simp: k_set_priority_def)
next
  case True
  note inv = kinvD(1) [OF k]
  note Q = sched_inv_queues [OF inv]
  obtain s' where s': "k_set_priority (Some a) p s = Some (0, s')"
    "sched_inv s' (reprioritised a c (nat p) Q)"
    "q_core s' = q_core (s\<lparr>pcbs := (pcbs s)(a \<mapsto> c\<lparr>priority := nat p\<rparr>)\<rparr>)"
    using k_set_priority_ok [OF inv aq c] True by blast
  note core = q_core_eqD [OF s'(3)]
  have p': "pcbs s' = (pcbs s)(a \<mapsto> c\<lparr>priority := nat p\<rparr>)" using core(1) by simp
  have v: "valid_q (Ready (nat p))" using True by (simp add: nat_less_iff)
  have "active (reprioritised a c (nat p) Q) = active Q \<and> queued (reprioritised a c (nat p) Q) = queued Q"
  proof (cases "state c = PROCESS_RUNNING")
    case True
    then have h: "valid_q (Ready (priority c))" "a \<in> set (Q (Ready (priority c)))"
      using sched_inv_home [OF inv aq c] by (auto simp: home_def)
    have "a \<in> active Q" using h by (auto simp: active_def intro!: exI [of _ "Ready (priority c)"])
    then show ?thesis
      using active_moveq [OF Q h v] moveq_queued [OF Q h v] by (auto simp: reprioritised_def)
  qed (simp add: reprioritised_def)
  then have A: "active (reprioritised a c (nat p) Q) = active Q"
    and qd: "queued (reprioritised a c (nat p) Q) = queued Q" by auto
  have "tree s' (reprioritised a c (nat p) Q) C i"
    by (rule tree_pcb [OF kinvD(2) [OF k] A qd _ _ _ p' c]) (simp_all add: core)
  moreover have "same_procs Q s s'" by (rule same_procs_upd [OF p' c]) (simp_all add: core aq)
  ultimately show ?thesis using kinv_move [OF k s'(2) _ _ qd] s'(1) by blast
qed

lemma family_blocked: "kinv s Q C i \<Longrightarrow> family s C (set (Q Blocked))"
  using family_mono [OF treeD(1) [OF kinvD(2)] blocked_active] by blast

lemma activeE:
  assumes "a \<in> active Q"
  obtains q where "valid_q q" "q \<noteq> Zombie" "a \<in> set (Q q)"
  using assms by (auto simp: active_def)

lemma stop_kinv:
  assumes k: "kinv s Q C i" and a: "a \<in> active Q" and c: "pcbs s a = Some c"
  shows "\<exists>r s' Q'. k_stop_process (Some a) s = Some (r, s') \<and> kinv s' Q' C i \<and> (r = 0 \<or> s' = s)"
proof (cases "state c = PROCESS_STOPPED")
  case True
  then show ?thesis using k_stop_process_errors(1) [OF kinvD(1) [OF k] c] k by auto
next
  case False
  obtain q where q: "valid_q q" "q \<noteq> Zombie" "a \<in> set (Q q)" using a by (rule activeE)
  have nq: "q \<noteq> Stopped" using sched_inv_fits [OF kinvD(1) [OF k] q(1,3)] c False by auto
  let ?Q = "moveq a q Stopped Q" and ?c = "c\<lparr>state := PROCESS_STOPPED\<rparr>"
  let ?f = "find (waiting s C (pid c)) (?Q Blocked)"
  let ?s1 = "(log_stopped (pid c) (int (priority c)) (name_or (command c)) s)\<lparr>pcbs := (pcbs s)(a \<mapsto> ?c)\<rparr>"
  obtain s' where s': "k_stop_process (Some a) s = Some (0, s')" "sched_inv s' (wake s ?f ?Q)"
    "q_core s' = q_core (woken ?f (pid c) ?s1)"
    and wA: "active (wake s ?f ?Q) = active Q" "queued (wake s ?f ?Q) = queued Q"
    using k_stop_process_ok [OF kinvD(1) [OF k] q(1,2) nq q(3) c family_blocked [OF k] refl refl] by blast
  note Q = sched_inv_queues [OF kinvD(1) [OF k]]
  have fb: "b \<in> set (?Q Blocked)" if "?f = Some b" for b using find_SomeD [OF that] by simp
  have fa: "b \<noteq> a" if "?f = Some b" for b
    using fb [OF that] moveq_member [OF Q q(1,3), of Blocked b Stopped] by auto
  have hit: "?f = None \<or> (\<exists>x d. ?f = Some x \<and> pcbs ?s1 x = Some d \<and> x \<in> queued Q)"
  proof (cases ?f)
    case (Some b)
    have b: "b \<in> set (Q Blocked)"
      using fb [OF Some] moveq_member [OF Q q(1,3), of Blocked b Stopped] by auto
    then have "b \<in> queued Q" using blocked_active active_sub by blast
    then show ?thesis using Some fa [OF Some] b sched_inv_fits [OF kinvD(1) [OF k], of Blocked] by auto
  qed simp
  then have hit': "?f = None \<or> (\<exists>x d. ?f = Some x \<and> pcbs ?s1 x = Some d)" by blast
  note core = q_core_eqD [OF s'(3)]
  have t1: "tree ?s1 Q C i"
    by (rule tree_pcb [OF kinvD(2) [OF k] refl refl, of ?s1 a ?c c]) (simp_all add: log_defs c)
  have "tree s' (wake s ?f ?Q) C i"
    by (rule tree_same [OF t1])
      (simp_all add: core woken_fields pid_at_def ppid_at_def fun_eq_iff woken_pcb [OF hit'] wA)
  moreover have "same_procs Q s s'"
  proof (rule same_procs_core [OF s'(3)], rule same_procs_trans)
    show "same_procs Q s ?s1"
      by (rule same_procs_upd [of _ _ _ ?c, OF _ c]) (use a active_sub [of Q] in \<open>auto simp: log_defs\<close>)
    show "same_procs Q ?s1 (woken ?f (pid c) ?s1)" by (rule same_procs_woken [OF hit])
  qed
  ultimately show ?thesis using kinv_move [OF k s'(2)] wA s'(1) by blast
qed

lemma exit_kinv:
  assumes k: "kinv s Q C i" and a: "a \<in> active Q" "a \<noteq> i" and c: "pcbs s a = Some c"
    and cur: "current_process s = Some u"
  shows "\<exists>r s' Q' C'. k_proc_exit (Some a) status s = Some (r, s') \<and> kinv s' Q' C' i \<and> (r = Thread_exited \<or> r = Returned 0)"
proof -
  obtain q where q: "valid_q q" "q \<noteq> Zombie" "a \<in> set (Q q)" using a(1) by (rule activeE)
  obtain uc where uc: "pcbs s u = Some uc" using kinvD(3) [OF k cur] by blast
  let ?Q = "moveq a q Zombie Q"
  let ?f = "find (waiting s C (pid c)) (?Q Blocked)"
  obtain s' where s': "k_proc_exit (Some a) status s =
      Some (if pid c = pid uc then Thread_exited else Returned 0, s')"
    "sched_inv s' (wake s ?f ?Q)" "tree s' (wake s ?f ?Q) (C(i := C i @ C a)) i" "same_procs Q s s'"
    "queued (wake s ?f ?Q) = queued Q"
    using k_proc_exit_ok [OF kinvD(1,2) [OF k] q a(2) c cur uc refl refl, of status] by blast
  show ?thesis using kinv_move [OF k s'(2-5)] s'(1) by fastforce
qed

section \<open>Waiting for a child\<close>

lemma kinv_waited:
  assumes k: "kinv s Q C i" and u: "u \<in> queued Q" and c: "pcbs s u = Some c"
  shows "kinv (s\<lparr>pcbs := (pcbs s)(u \<mapsto> c\<lparr>waited_child := p\<rparr>)\<rparr>) Q C i"
proof -
  let ?c = "c\<lparr>waited_child := p\<rparr>" and ?s = "s\<lparr>pcbs := (pcbs s)(u \<mapsto> c\<lparr>waited_child := p\<rparr>)\<rparr>"
  have p': "pcbs ?s = (pcbs s)(u \<mapsto> ?c)" by simp
  have "sched_inv ?s Q"
    by (rule sched_inv_pcb [OF kinvD(1) [OF k] _ p' c]) (simp_all add: sched_inv_queues [OF kinvD(1) [OF k]])
  moreover have "tree ?s Q C i"
    by (rule tree_pcb [OF kinvD(2) [OF k] refl refl _ _ _ p' c]) simp_all
  moreover have "same_procs Q s ?s" by (rule same_procs_upd [OF p' c]) simp_all
  ultimately show ?thesis using kinv_move [OF k] by blast
qed

lemma kinv_log [simp]: "kinv (log_at b p n m s) Q C i = kinv s Q C i"
proof -
  have "family (log_at b p n m s) C A = family s C A" for A by (simp add: family_def)
  then show ?thesis
    by (simp add: kinv_def tree_def pid_at_def [abs_def] ppid_at_def [abs_def] ident_def)
qed

text \<open>A zombie child is reaped: it leaves the zombie queue and its node the children list.\<close>

lemma reap_kinv:
  assumes k: "kinv s Q C i" and u: "u \<in> active Q" "pcbs s u = Some c"
    and n: "n \<in> set (C u)" and x: "pcbs s (cprocess s n) = Some d" "state d = PROCESS_ZOMBIED"
  shows "\<exists>s1 s2. remove_child u n s = Some s1 \<and> cprocess s1 = cprocess s \<and>
    q_remove Zombie (cprocess s n) s1 = Some s2 \<and>
    kinv s2 (Q(Zombie := remove1 (cprocess s n) (Q Zombie))) (C(u := remove1 n (C u))) i"
proof -
  let ?x = "cprocess s n"
  let ?Q = "Q(Zombie := remove1 ?x (Q Zombie))" and ?C = "C(u := remove1 n (C u))"
  note inv = kinvD(1) [OF k] and t = kinvD(2) [OF k]
  have xq: "?x \<in> queued Q"
    using bij_betwE [OF treeD(5) [OF t]] u(1) n by (auto simp: nodes_def)
  have xz: "?x \<in> set (Q Zombie)"
    using sched_inv_home(2) [OF inv xq x(1)] x(2) by (simp add: home_def)
  obtain ch h s1 s2 where s1: "remove_child u n s = Some s1"
    "s1 = s\<lparr>clinks := h, pcbs := (pcbs s)(u \<mapsto> c\<lparr>children := Some ch\<rparr>)\<rparr>"
    and s2: "q_remove Zombie ?x s1 = Some s2" "sched_inv s2 ?Q" "tree s2 ?Q ?C i" "q_core s2 = q_core s1"
    using reap_ok [OF inv t u n xz] by blast
  have p1: "pcbs s1 = (pcbs s)(u \<mapsto> c\<lparr>children := Some ch\<rparr>)" using s1(2) by simp
  have same: "same_procs Q s s2"
    by (rule same_procs_core [OF s2(4)], rule same_procs_upd [OF p1 u(2)]) (simp_all add: s1(2))
  have qd: "queued ?Q = queued Q - {?x}" using queued_remove1 [OF sched_inv_queues [OF inv] _ xz] by simp
  have "kinv s2 ?Q ?C i"
  proof (rule kinv_keep [OF k s2(2,3) same])
    show "queued ?Q \<subseteq> queued Q" using qd by auto
    fix y e assume "y \<in> queued Q - queued ?Q" "pcbs s2 y = Some e"
    then have "y = ?x" "pcbs s1 y = Some e" using qd q_core_eqD(1) [OF s2(4)] by auto
    then show "state e = PROCESS_ZOMBIED" using p1 x u(2) by (auto split: if_splits)
  qed
  moreover have "cprocess s1 = cprocess s" using s1(2) by simp
  ultimately show ?thesis using s1(1) s2(1) by blast
qed

definition ended :: "kernel \<Rightarrow> addr \<Rightarrow> bool" where
  "ended s n \<longleftrightarrow> (case pcbs s (cprocess s n) of None \<Rightarrow> False
     | Some c \<Rightarrow> state c = PROCESS_ZOMBIED \<or> state c = PROCESS_STOPPED)"

lemma wait_any_search:
  assumes k: "kinv s Q C i" and u: "u \<in> active Q" and c: "pcbs s u = Some c"
  shows "\<exists>ch. children c = Some ch \<and> ll_head ch = hd_opt (C u) None \<and>
    child_search (\<lambda>a. map_option (\<lambda>c. state c = PROCESS_ZOMBIED \<or> state c = PROCESS_STOPPED) (pcbs s a))
      s (ll_head ch) = Some (find (ended s) (C u))"
proof -
  obtain ch where ch: "children c = Some ch" "dll (ch, clinks s) (C u)"
    "\<forall>n\<in>set (C u). pcbs s (cprocess s n) \<noteq> None"
    using familyD [OF treeD(1) [OF kinvD(2) [OF k]] u c] by blast
  have e: "\<forall>n\<in>set (C u). map_option (\<lambda>c. state c = PROCESS_ZOMBIED \<or> state c = PROCESS_STOPPED)
      (pcbs s (cprocess s n)) = Some (ended s n)"
    using ch(3) by (auto simp: ended_def)
  have "child_search (\<lambda>a. map_option (\<lambda>c. state c = PROCESS_ZOMBIED \<or> state c = PROCESS_STOPPED) (pcbs s a))
      s (ll_head ch) = Some (find (ended s) (C u))"
    by (rule child_search_dll [OF ch(2)]) (use e in simp)
  then show ?thesis using ch(1) dll_head [OF ch(2)] by simp
qed

text \<open>The outcome of a wait for any child, on every branch.\<close>

definition wait_any_outcome ::
  "addr \<Rightarrow> int option \<Rightarrow> bool \<Rightarrow> kernel \<Rightarrow> (queue_id \<Rightarrow> addr list) \<Rightarrow> (addr \<Rightarrow> addr list) \<Rightarrow> addr \<Rightarrow>
   wait_result \<Rightarrow> int option \<Rightarrow> kernel \<Rightarrow> bool" where
  "wait_any_outcome u w nohang s Q C i r w' s' \<longleftrightarrow>
     (case find (ended s) (C u) of
        Some n \<Rightarrow> \<exists>d. pcbs s (cprocess s n) = Some d \<and>
          (if state d = PROCESS_ZOMBIED
           then r = Wait_return (pid d) \<and> w' = set_wstatus w W_EXITED \<and>
                kinv s' (Q(Zombie := remove1 (cprocess s n) (Q Zombie))) (C(u := remove1 n (C u))) i
           else r = Wait_return 0 \<and> w' = w \<and> kinv s' Q C i)
      | None \<Rightarrow> w' = w \<and>
          (if C u = [] then r = Wait_return (-1) \<and> kinv s' Q C i
           else if nohang then r = Wait_return 0 \<and> kinv s' Q C i
           else r = Wait_suspend \<and>
                kinv s' (moveq u (Ready (priority (the (pcbs s u)))) Blocked Q) C i))"

lemma wait_any_ok:
  assumes k: "kinv s Q C i" and cur: "current_process s = Some u"
    and c: "pcbs s u = Some c" "state c = PROCESS_RUNNING"
  shows "\<exists>r w' s'. wait_any u w nohang s = Some (r, w', s') \<and>
    wait_any_outcome u w nohang s Q C i r w' s'"
proof -
  note ru = running_ready [OF k cur c]
  let ?c = "c\<lparr>waited_child := -1\<rparr>"
  let ?s = "s\<lparr>pcbs := (pcbs s)(u \<mapsto> ?c)\<rparr>"
  have k': "kinv ?s Q C i" by (rule kinv_waited [OF k ru(3) c(1)])
  have u': "pcbs ?s u = Some ?c" by simp
  obtain ch where ch: "children c = Some ch" "ll_head ch = hd_opt (C u) None"
    "child_search (\<lambda>a. map_option (\<lambda>c. state c = PROCESS_ZOMBIED \<or> state c = PROCESS_STOPPED) (pcbs ?s a))
      ?s (hd_opt (C u) None) = Some (find (ended ?s) (C u))"
    using wait_any_search [OF k' ru(4) u'] by auto
  have ended: "ended ?s = ended s" using c by (auto simp: ended_def fun_eq_iff)
  have hn: "hd_opt (C u) None = None \<longleftrightarrow> C u = []" by (cases "C u") auto
  show ?thesis
  proof (cases "find (ended s) (C u)")
    case None
    obtain s' where s': "block_process u ?s = Some s'" "kinv s' (moveq u (Ready (priority c)) Blocked Q) C i"
      using block_kinv [OF k' _ u'] cur c(2) by auto
    show ?thesis using None ch ended hn c s' k'
      by (simp add: wait_any_def wait_any_outcome_def)
  next
    case (Some n)
    have n: "n \<in> set (C u)" "ended s n" using find_SomeD [OF Some] by auto
    then obtain d where d: "pcbs s (cprocess s n) = Some d"
      "state d = PROCESS_ZOMBIED \<or> state d = PROCESS_STOPPED" by (auto simp: ended_def split: option.splits)
    have xu: "cprocess s n \<noteq> u" using d c by auto
    then have d': "pcbs ?s (cprocess s n) = Some d" using d(1) by simp
    show ?thesis
    proof (cases "state d = PROCESS_ZOMBIED")
      case False
      then show ?thesis using Some ch ended c d d' k' by (simp add: wait_any_def wait_any_outcome_def)
    next
      case True
      let ?l = "log_waited (pid d) (int (priority d)) (name_or (command d)) ?s"
      have kl: "kinv ?l Q C i" using k' by (simp add: log_defs)
      obtain s1 s2 where s12: "remove_child u n ?l = Some s1" "cprocess s1 = cprocess ?l"
        "q_remove Zombie (cprocess ?l n) s1 = Some s2"
        and k2: "kinv s2 (Q(Zombie := remove1 (cprocess ?l n) (Q Zombie))) (C(u := remove1 n (C u))) i"
        using reap_kinv [OF kl ru(4), of ?c n d] n(1) d' True by (auto simp: log_defs)
      have "wait_any u w nohang s = Some (Wait_return (pid d), set_wstatus w W_EXITED, s2)"
        using Some ch ended c d d' True s12 by (simp add: wait_any_def log_defs)
      moreover have "wait_any_outcome u w nohang s Q C i (Wait_return (pid d)) (set_wstatus w W_EXITED) s2"
        using Some d True k2 by (simp add: wait_any_outcome_def log_defs del: fun_upd_apply)
      ultimately show ?thesis by blast
    qed
  qed
qed

text \<open>The node of a zombie on its parent's list.\<close>

lemma zombie_node:
  assumes k: "kinv s Q C i" and u: "u \<in> active Q" "pcbs s u = Some c"
    and a: "a \<in> queued Q" "pcbs s a = Some d" "state d = PROCESS_ZOMBIED" "ppid d = pid c"
  shows "\<exists>n. find (\<lambda>m. cprocess s m = a) (C u) = Some n \<and> n \<in> set (C u) \<and> cprocess s n = a"
proof -
  note inv = kinvD(1) [OF k] and t = kinvD(2) [OF k]
  have "home d = Zombie" using a(3) by (simp add: home_def)
  then have "a \<notin> active Q"
    using sched_inv_member_iff [OF inv] a(2) by (auto simp: active_def)
  then have "a \<in> queued Q - {i}" using a(1) treeD(3) [OF t] by auto
  then have "a \<in> cprocess s ` nodes C (active Q)" using bij_betw_imp_surj_on [OF treeD(5) [OF t]] by simp
  then obtain m where m: "m \<in> nodes C (active Q)" "cprocess s m = a" by blast
  then obtain y where y: "y \<in> active Q" "m \<in> set (C y)" by (auto simp: nodes_def)
  have "pid_at s y = pid_at s u"
    using treeD(6) [OF t y] m(2) a(2,4) u(2) by (simp add: ppid_at_def pid_at_def)
  then have "y = u"
    using inv y(1) u(1) active_sub [of Q] by (auto simp: sched_inv_def dest: inj_onD)
  then have "\<exists>n\<in>set (C u). cprocess s n = a" using y m by auto
  then obtain n where n: "find (\<lambda>m. cprocess s m = a) (C u) = Some n"
    using find_hit [of "\<lambda>m. cprocess s m = a" "C u"] by auto
  then show ?thesis using find_SomeD [OF n] by blast
qed

text \<open>The outcome of a wait for the process that the lookup found, on every branch.\<close>

definition wait_pid_outcome ::
  "addr \<Rightarrow> addr option \<Rightarrow> int option \<Rightarrow> bool \<Rightarrow> kernel \<Rightarrow> (queue_id \<Rightarrow> addr list) \<Rightarrow> (addr \<Rightarrow> addr list) \<Rightarrow>
   addr \<Rightarrow> wait_result \<Rightarrow> int option \<Rightarrow> kernel \<Rightarrow> bool" where
  "wait_pid_outcome u child w nohang s Q C i r w' s' \<longleftrightarrow>
     (case child of
        None \<Rightarrow> r = Wait_return E_PID_NOT_FOUND \<and> w' = w \<and> kinv s' Q C i
      | Some a \<Rightarrow> \<exists>d. pcbs s a = Some d \<and>
          (if ppid d \<noteq> pid (the (pcbs s u)) then r = Wait_return (-1) \<and> w' = w \<and> kinv s' Q C i
           else if state d = PROCESS_ZOMBIED then
             r = Wait_return (pid d) \<and> w' = set_wstatus w W_EXITED \<and>
             (\<exists>n\<in>set (C u). cprocess s n = a \<and>
                kinv s' (Q(Zombie := remove1 a (Q Zombie))) (C(u := remove1 n (C u))) i)
           else if state d = PROCESS_STOPPED \<or> nohang then
             r = Wait_return 0 \<and> w' = w \<and> kinv s' Q C i
           else r = Wait_suspend \<and> w' = w \<and>
             kinv s' (moveq u (Ready (priority (the (pcbs s u)))) Blocked Q) C i))"

lemma wait_pid_ok:
  assumes k: "kinv s Q C i" and cur: "current_process s = Some u"
    and c: "pcbs s u = Some c" "state c = PROCESS_RUNNING"
    and l: "k_get_process_by_pid p s = Some child"
  shows "\<exists>r w' s'. wait_pid u p w nohang s = Some (r, w', s') \<and>
    wait_pid_outcome u child w nohang s Q C i r w' s'"
proof -
  note ru = running_ready [OF k cur c]
  let ?c = "c\<lparr>waited_child := p\<rparr>"
  let ?s = "s\<lparr>pcbs := (pcbs s)(u \<mapsto> ?c)\<rparr>"
  have k': "kinv ?s Q C i" by (rule kinv_waited [OF k ru(3) c(1)])
  have u': "pcbs ?s u = Some ?c" by simp
  show ?thesis
  proof (cases child)
    case None
    then show ?thesis using l c(1) k' by (simp add: wait_pid_def wait_pid_outcome_def)
  next
    case (Some a)
    have la: "pid_at s a = Some p" "a \<in> queued Q \<or> current_process s = Some a"
      using k_get_process_by_pid_ok [OF k, of p] l Some by auto
    then have aq: "a \<in> queued Q" using cur ru(3) by auto
    obtain d where d: "pcbs s a = Some d" using la(1) by (auto simp: pid_at_def)
    obtain d' where d': "pcbs ?s a = Some d'" "ppid d' = ppid d" "state d' = state d" "pid d' = pid d"
      "priority d' = priority d" "command d' = command d"
      using d c(1) by (cases "a = u") auto
    note base = l Some c d d'
    show ?thesis
    proof (cases "ppid d = pid c")
      case False
      then show ?thesis using base k' by (simp add: wait_pid_def wait_pid_outcome_def)
    next
      case pp: True
      show ?thesis
      proof (cases "state d = PROCESS_ZOMBIED")
        case True
        obtain n where n: "find (\<lambda>m. cprocess ?s m = a) (C u) = Some n" "n \<in> set (C u)" "cprocess ?s n = a"
          using zombie_node [OF k' ru(4) u' aq d'(1)] d' True pp by auto
        obtain s1 s2 where s12: "remove_child u n ?s = Some s1" "q_remove Zombie a s1 = Some s2"
          and k2: "kinv s2 (Q(Zombie := remove1 a (Q Zombie))) (C(u := remove1 n (C u))) i"
          using reap_kinv [OF k' ru(4) u' n(2), of d'] n(3) d' True by auto
        obtain ch where ch: "children ?c = Some ch" "dll (ch, clinks ?s) (C u)"
          using familyD [OF treeD(1) [OF kinvD(2) [OF k']] ru(4) u'] by blast
        have "child_search (\<lambda>x. Some (x = a)) ?s (ll_head ch) = Some (find (\<lambda>m. cprocess ?s m = a) (C u))"
          by (rule child_search_dll [OF ch(2)]) simp
        then have "remove_from_children_list u a ?s = Some s1"
          using ch(1) n(1) s12(1) by (simp add: remove_from_children_list_def)
        then have "wait_pid u p w nohang s = Some (Wait_return (pid d), set_wstatus w W_EXITED,
            log_waited (pid d) (int (priority d)) (name_or (command d)) s2)"
          using base pp True s12(2) by (simp add: wait_pid_def)
        moreover have "kinv (log_waited (pid d) (int (priority d)) (name_or (command d)) s2)
            (Q(Zombie := remove1 a (Q Zombie))) (C(u := remove1 n (C u))) i"
          using k2 by (simp add: log_defs)
        then have "wait_pid_outcome u child w nohang s Q C i (Wait_return (pid d)) (set_wstatus w W_EXITED)
            (log_waited (pid d) (int (priority d)) (name_or (command d)) s2)"
          using base pp True n by (auto simp: wait_pid_outcome_def simp del: fun_upd_apply)
        ultimately show ?thesis by blast
      next
        case False
        obtain s' where "block_process u ?s = Some s'" "kinv s' (moveq u (Ready (priority c)) Blocked Q) C i"
          using block_kinv [OF k' _ u'] cur c(2) by auto
        then show ?thesis using base pp False k'
          by (simp add: wait_pid_def wait_pid_outcome_def log_defs)
      qed
    qed
  qed
qed

lemma waitpid_kinv:
  assumes k: "kinv s Q C i" and cur: "current_process s = Some u"
    and c: "pcbs s u = Some c" "state c = PROCESS_RUNNING"
  shows "\<exists>r w' s'. k_waitpid p w nohang s = Some (r, w', s') \<and> kernel_inv s'"
proof -
  have cur': "k_get_current_process s = Some u"
    using cur queues_live [OF sched_inv_queues [OF kinvD(1) [OF k]]]
    by (simp add: k_get_current_process_def)
  show ?thesis
  proof (cases "p = -1")
    case True
    obtain r w' s' where w: "wait_any u w nohang s = Some (r, w', s')"
      "wait_any_outcome u w nohang s Q C i r w' s'"
      using wait_any_ok [OF k cur c] by blast
    have "kernel_inv s'"
      using w(2) by (auto simp: wait_any_outcome_def kernel_inv_def split: option.splits if_splits)
    then show ?thesis using w(1) True cur' by (simp add: k_waitpid_def)
  next
    case False
    obtain child where l: "k_get_process_by_pid p s = Some child"
      using k_get_process_by_pid_ok [OF k, of p] by blast
    obtain r w' s' where w: "wait_pid u p w nohang s = Some (r, w', s')"
      "wait_pid_outcome u child w nohang s Q C i r w' s'"
      using wait_pid_ok [OF k cur c l] by blast
    have "kernel_inv s'"
      using w(2) by (auto simp: wait_pid_outcome_def kernel_inv_def split: option.splits if_splits)
    then show ?thesis using w(1) False cur' by (simp add: k_waitpid_def)
  qed
qed

end
