(* ===== verification/Kernel_Frames.thy ===== *)
theory Kernel_Frames
  imports Kernel_Inv
begin

text \<open>
  What the kernel operations leave alone: none of them changes the current process, the count of
  quanta or the existence of the scheduler's state, and none but \<open>k_proc_exit\<close> changes an exit
  status. The second part is the invariant that only a zombie has an exit status other than 0.
\<close>

section \<open>The current process and the quantum\<close>

definition kcur :: "kernel \<Rightarrow> addr option \<times> int \<times> bool" where
  "kcur s = (current_process s, quantum s, sched_live s)"

lemma cur_upd [simp]:
  "kcur (s\<lparr>pcbs := x1\<rparr>) = kcur s" "kcur (s\<lparr>plinks := x2\<rparr>) = kcur s" "kcur (s\<lparr>clinks := x3\<rparr>) = kcur s"
  "kcur (log_at b p n m s) = kcur s" "kcur (set_q q l s) = kcur s" "kcur (s\<lparr>terminal_controlling_pid := x4\<rparr>) = kcur s"
  "kcur (s\<lparr>cprocess := x5\<rparr>) = kcur s" "kcur (s\<lparr>process_count := x6\<rparr>) = kcur s" "kcur (s\<lparr>init_process := x7\<rparr>) = kcur s"
  "kcur (s\<lparr>logout_issued := x8\<rparr>) = kcur s" "kcur (s\<lparr>extra_logging_enabled := x8\<rparr>) = kcur s"
  by (cases q; simp add: kcur_def log_at_def)+

lemma upd_pcb_cur: "upd_pcb a f s = Some s' \<Longrightarrow> kcur s' = kcur s"
  by (auto simp: upd_pcb_def split: option.splits)

lemma q_push_cur: "q_push q a s = Some s' \<Longrightarrow> kcur s' = kcur s"
  by (auto simp: q_push_def bind_eq_Some_conv)

lemma q_remove_cur: "q_remove q a s = Some s' \<Longrightarrow> kcur s' = kcur s"
  by (auto simp: q_remove_def bind_eq_Some_conv Let_def case_prod_beta)

lemma q_unlink_cur: "q_unlink q a s = Some s' \<Longrightarrow> kcur s' = kcur s"
  by (auto simp: q_unlink_def bind_eq_Some_conv Let_def case_prod_beta)

lemma q_rotate_cur: "q_rotate q s = Some s' \<Longrightarrow> kcur s' = kcur s"
  by (auto simp: q_rotate_def bind_eq_Some_conv split: option.split_asm dest!: q_remove_cur q_push_cur)

lemma unlink_if_member_cur: "unlink_if_member q a s = Some (b, s') \<Longrightarrow> kcur s' = kcur s"
  by (auto simp: unlink_if_member_def bind_eq_Some_conv split: option.split_asm dest!: q_unlink_cur)

lemma remove_from_cur: "remove_from qs a s = Some (b, s') \<Longrightarrow> kcur s' = kcur s"
  by (induction qs arbitrary: s)
    (auto simp: bind_eq_Some_conv split: if_split_asm dest!: unlink_if_member_cur)

lemma k_remove_from_active_queue_cur: "k_remove_from_active_queue p s = Some (b, s') \<Longrightarrow> kcur s' = kcur s"
  by (auto simp: k_remove_from_active_queue_def split: option.split_asm if_split_asm dest!: remove_from_cur)

lemma k_add_to_ready_queue_cur: "k_add_to_ready_queue p s = Some (r, s') \<Longrightarrow> kcur s' = kcur s"
  by (auto simp: k_add_to_ready_queue_def bind_eq_Some_conv split: option.split_asm if_split_asm
      dest!: q_push_cur upd_pcb_cur)

lemma remove_child_cur: "remove_child u n s = Some s' \<Longrightarrow> kcur s' = kcur s"
  by (auto simp: remove_child_def bind_eq_Some_conv Let_def case_prod_beta dest!: upd_pcb_cur)

lemma remove_from_children_list_cur: "remove_from_children_list u a s = Some s' \<Longrightarrow> kcur s' = kcur s"
  by (auto simp: remove_from_children_list_def bind_eq_Some_conv simp del: child_search_simps
      split: option.split_asm dest!: remove_child_cur)

lemma block_process_cur: "block_process a s = Some s' \<Longrightarrow> kcur s' = kcur s"
  by (auto simp: block_process_def Let_def bind_eq_Some_conv log_defs
      dest!: upd_pcb_cur q_push_cur q_remove_cur)

lemma unblock_process_cur: "unblock_process a s = Some s' \<Longrightarrow> kcur s' = kcur s"
  by (auto simp: unblock_process_def Let_def bind_eq_Some_conv log_defs
      dest!: upd_pcb_cur q_push_cur q_remove_cur)

lemma k_tcsetpid_cur: "k_tcsetpid p s = Some s' \<Longrightarrow> kcur s' = kcur s"
  by (auto simp: k_tcsetpid_def split: if_split_asm)

lemma unblock_parents_cur: "unblock_parents a s = Some s' \<Longrightarrow> kcur s' = kcur s"
  by (auto simp: unblock_parents_def bind_eq_Some_conv split: option.split_asm if_split_asm
      dest!: unblock_process_cur k_tcsetpid_cur)

lemma reparent_loop_cur:
  assumes "reparent_loop p s = Some s'"
  shows "kcur s' = kcur s"
proof (rule reparent_loop.raw_induct [OF _ assms])
  fix f p s s'
  assume ih: "\<And>p s s'. f p s = Some s' \<Longrightarrow> kcur s' = kcur s"
    and b: "(case p of None \<Rightarrow> Some s
      | Some n \<Rightarrow> do {
          c \<leftarrow> pcbs s (cprocess s n);
          let s = log_orphan (pid c) (int (priority c)) (name_or (command c)) s;
          s \<leftarrow> upd_pcb (cprocess s n) (\<lambda>c. c\<lparr>ppid := 1\<rparr>) s;
          let nxt = l_next (clinks s) n;
          ini \<leftarrow> (if sched_live s then init_process s else None);
          ic \<leftarrow> pcbs s ini;
          ch \<leftarrow> children ic;
          (ch, h) \<leftarrow> linked_list_push_tail n (ch, clinks s);
          s \<leftarrow> upd_pcb ini (\<lambda>c. c\<lparr>children := Some ch\<rparr>) (s\<lparr>clinks := h\<rparr>);
          f nxt s
        }) = Some s'"
  show "kcur s' = kcur s"
    using b by (auto simp: bind_eq_Some_conv Let_def log_defs split: option.split_asm dest!: upd_pcb_cur dest: ih)
qed

lemma k_proc_exit_cur: "k_proc_exit a status s = Some (r, s') \<Longrightarrow> kcur s' = kcur s"
  by (simp add: k_proc_exit_def reparent_children_def Let_def log_defs bind_eq_Some_conv
      split: option.split_asm if_split_asm;
      auto dest!: upd_pcb_cur k_remove_from_active_queue_cur q_push_cur unblock_parents_cur reparent_loop_cur)

lemma k_stop_process_cur: "k_stop_process a s = Some (r, s') \<Longrightarrow> kcur s' = kcur s"
  by (auto simp: k_stop_process_def Let_def log_defs bind_eq_Some_conv split: option.split_asm if_split_asm;
      metis cur_upd(4) k_remove_from_active_queue_cur upd_pcb_cur q_push_cur unblock_parents_cur)

lemma k_continue_process_cur: "k_continue_process a s = Some (r, s') \<Longrightarrow> kcur s' = kcur s"
  by (auto simp: k_continue_process_def Let_def log_defs bind_eq_Some_conv split: option.split_asm if_split_asm;
      metis cur_upd(4) unlink_if_member_cur upd_pcb_cur k_add_to_ready_queue_cur)

lemma k_set_priority_cur: "k_set_priority a p s = Some (r, s') \<Longrightarrow> kcur s' = kcur s"
  by (auto simp: k_set_priority_def bind_eq_Some_conv split: option.split_asm if_split_asm
      dest!: upd_pcb_cur unlink_if_member_cur k_add_to_ready_queue_cur)

lemma k_sleep_cur: "k_sleep a n s = Some (r, s') \<Longrightarrow> kcur s' = kcur s"
  by (auto simp: k_sleep_def Let_def log_defs bind_eq_Some_conv split: option.split_asm if_split_asm
      dest!: upd_pcb_cur block_process_cur)

lemma k_resume_sleep_cur: "k_resume_sleep a s = Some (r, s') \<Longrightarrow> kcur s' = kcur s"
  by (auto simp: k_resume_sleep_def bind_eq_Some_conv split: option.split_asm if_split_asm
      dest!: block_process_cur)

lemma attach_child_cur: "attach_child p n s = Some s' \<Longrightarrow> kcur s' = kcur s"
  by (auto simp: attach_child_def bind_eq_Some_conv split: option.split_asm dest!: upd_pcb_cur)

lemma inherit_fds_cur: "inherit_fds p a s = Some s' \<Longrightarrow> kcur s' = kcur s"
  by (auto simp: inherit_fds_def bind_eq_Some_conv split: option.split_asm dest!: upd_pcb_cur)

lemma launch_cur: "launch m p a args s = Some (r, s') \<Longrightarrow> kcur s' = kcur s"
  by (auto simp: launch_def Let_def log_defs bind_eq_Some_conv split: option.split_asm if_split_asm
      dest!: upd_pcb_cur attach_child_cur inherit_fds_cur k_add_to_ready_queue_cur)

lemma k_proc_create_cur: "k_proc_create m p args prio s = Some (r, s') \<Longrightarrow> kcur s' = kcur s"
  by (auto simp: k_proc_create_def Let_def bind_eq_Some_conv split: option.split_asm if_split_asm dest!: launch_cur)

lemma wait_any_cur: "wait_any u w nohang s = Some (r, w', s') \<Longrightarrow> kcur s' = kcur s"
  by (auto simp: wait_any_def Let_def log_defs bind_eq_Some_conv simp del: child_search_simps
      split: option.split_asm if_split_asm dest!: upd_pcb_cur q_remove_cur remove_child_cur block_process_cur)

lemma wait_pid_cur:
  assumes w: "wait_pid u p w nohang s = Some (r, w', s')"
  shows "kcur s' = kcur s"
proof -
  obtain child s1 where c: "k_get_process_by_pid p s = Some child"
    "upd_pcb u (\<lambda>c. c\<lparr>waited_child := p\<rparr>) s = Some s1"
    using w unfolding wait_pid_def bind_eq_Some_conv by blast
  have "kcur s' = kcur s1"
  proof (cases child)
    case None
    then show ?thesis using w c by (auto simp: wait_pid_def)
  next
    case (Some a)
    obtain d cc where d: "pcbs s1 a = Some d" "pcbs s1 u = Some cc"
      using w c Some by (cases "pcbs s1 a"; cases "pcbs s1 u") (simp_all add: wait_pid_def)
    consider "ppid d \<noteq> pid cc" | "ppid d = pid cc" "state d = PROCESS_ZOMBIED" | "ppid d = pid cc" "state d = PROCESS_STOPPED"
      | "ppid d = pid cc" "state d = PROCESS_RUNNING \<or> state d = PROCESS_BLOCKED" by (cases "state d") auto
    then show ?thesis
      using w c Some d
      by cases (auto simp: wait_pid_def Let_def log_defs bind_eq_Some_conv split: if_split_asm
          dest!: remove_from_children_list_cur q_remove_cur block_process_cur)
  qed
  then show ?thesis using upd_pcb_cur [OF c(2)] by simp
qed

lemma k_waitpid_cur: "k_waitpid p w nohang s = Some (r, w', s') \<Longrightarrow> kcur s' = kcur s"
  by (auto simp: k_waitpid_def split: option.split_asm if_split_asm dest: wait_any_cur wait_pid_cur)

section \<open>Exit statuses\<close>

text \<open>Only a zombie has an exit status.\<close>

definition status_ok :: "kernel \<Rightarrow> bool" where
  "status_ok s \<longleftrightarrow> (\<forall>a c. pcbs s a = Some c \<longrightarrow> state c \<noteq> PROCESS_ZOMBIED \<longrightarrow> exit_status c = 0)"

lemma status_ok_kept: "status_ok s \<Longrightarrow> status_kept {} s s' \<Longrightarrow> status_ok s'"
  unfolding status_ok_def status_kept_def by (metis empty_iff)

lemma status_ok_exit: "status_ok s \<Longrightarrow> status_kept {a} s s' \<Longrightarrow> map_option state (pcbs s' a) = Some PROCESS_ZOMBIED \<Longrightarrow> status_ok s'"
  unfolding status_ok_def status_kept_def by (metis (no_types, lifting) option.map(2) option.sel singletonD)

lemma kept_trans: "status_kept {} s t \<Longrightarrow> status_kept {} t u \<Longrightarrow> status_kept {} s u"
  using status_kept_trans [of "{}" s t "{}" u] by simp

lemma kept_here:
  "pcbs s a = Some c \<Longrightarrow> exit_status c' = exit_status c \<Longrightarrow> (state c = PROCESS_ZOMBIED \<Longrightarrow> state c' = PROCESS_ZOMBIED) \<Longrightarrow>
   status_kept {} s (t\<lparr>pcbs := (pcbs s)(a \<mapsto> c')\<rparr>)"
  by (rule status_kept_upd [of s a c]) simp_all

lemma upd_pcb_kept:
  assumes "upd_pcb a f s = Some s'"
    and "\<And>c. pcbs s a = Some c \<Longrightarrow> exit_status (f c) = exit_status c \<and> (state c = PROCESS_ZOMBIED \<longrightarrow> state (f c) = PROCESS_ZOMBIED)"
  shows "status_kept {} s s'"
  using assms by (auto simp: upd_pcb_def split: option.splits intro!: status_kept_upd)

lemma q_remove_pcbs: "q_remove q a s = Some s' \<Longrightarrow> pcbs s' = pcbs s"
  by (cases q) (auto simp: q_remove_def bind_eq_Some_conv Let_def case_prod_beta)

lemma q_push_pcbs: "q_push q a s = Some s' \<Longrightarrow> pcbs s' = pcbs s"
  by (cases q) (auto simp: q_push_def bind_eq_Some_conv)

lemma q_unlink_pcbs: "q_unlink q a s = Some s' \<Longrightarrow> pcbs s' = pcbs s"
  by (cases q) (auto simp: q_unlink_def bind_eq_Some_conv Let_def case_prod_beta)

lemma block_process_kept:
  assumes b: "block_process a s = Some s'" and c: "pcbs s a = Some c" "state c \<noteq> PROCESS_ZOMBIED"
  shows "status_kept {} s s'"
proof (rule status_kept_upd [OF c(1)])
  show "pcbs s' = (pcbs s)(a \<mapsto> c\<lparr>state := PROCESS_BLOCKED\<rparr>)"
    using b c(1) by (auto simp: block_process_def Let_def bind_eq_Some_conv log_defs upd_pcb_def dest!: q_remove_pcbs q_push_pcbs)
qed (use c in simp_all)

lemma remove_child_kept: "remove_child u n s = Some s' \<Longrightarrow> status_kept {} s s'"
  by (auto simp: remove_child_def bind_eq_Some_conv Let_def case_prod_beta upd_pcb_def intro!: status_kept_upd)

lemma remove_from_children_list_kept: "remove_from_children_list u a s = Some s' \<Longrightarrow> status_kept {} s s'"
  by (auto simp: remove_from_children_list_def bind_eq_Some_conv simp del: child_search_simps
      split: option.split_asm dest!: remove_child_kept)

lemma wait_any_kept:
  assumes w: "wait_any u wst nohang s = Some (r, w', s')" and c: "pcbs s u = Some c" "state c \<noteq> PROCESS_ZOMBIED"
  shows "status_kept {} s s'"
proof -
  let ?s = "s\<lparr>pcbs := (pcbs s)(u \<mapsto> c\<lparr>waited_child := -1\<rparr>)\<rparr>"
  have s: "status_kept {} s ?s" by (rule kept_here [OF c(1)]) simp_all
  have u: "upd_pcb u (\<lambda>c. c\<lparr>waited_child := -1\<rparr>) s = Some ?s" using c(1) by (simp add: upd_pcb_def)
  have reap: "status_kept {} ?s t"
    if "remove_child u n (log_at b p m x ?s) = Some t1" "q_remove Zombie d t1 = Some t" for b p m x n d t1 t
    using remove_child_kept [OF that(1)] q_remove_pcbs [OF that(2)] by (auto simp: status_kept_def)
  have "status_kept {} ?s s'"
    using w c block_process_kept [of u ?s s' "c\<lparr>waited_child := -1\<rparr>"] reap
    by (auto simp: wait_any_def u Let_def log_defs bind_eq_Some_conv simp del: child_search_simps
        split: option.split_asm if_split_asm)
  then show ?thesis using kept_trans [OF s] by blast
qed

lemma wait_pid_kept:
  assumes w: "wait_pid u p wst nohang s = Some (r, w', s')" and c: "pcbs s u = Some c" "state c \<noteq> PROCESS_ZOMBIED"
  shows "status_kept {} s s'"
proof -
  let ?s = "s\<lparr>pcbs := (pcbs s)(u \<mapsto> c\<lparr>waited_child := p\<rparr>)\<rparr>"
  have s: "status_kept {} s ?s" by (rule kept_here [OF c(1)]) simp_all
  have u: "upd_pcb u (\<lambda>c. c\<lparr>waited_child := p\<rparr>) s = Some ?s" using c(1) by (simp add: upd_pcb_def)
  obtain child where l: "k_get_process_by_pid p s = Some child" using w by (auto simp: wait_pid_def bind_eq_Some_conv)
  have reap: "status_kept {} ?s (log_at b q m x t)"
    if "remove_from_children_list u a ?s = Some t1" "q_remove Zombie d t1 = Some t" for a b q m x d t1 t
    using remove_from_children_list_kept [OF that(1)] q_remove_pcbs [OF that(2)] by (auto simp: status_kept_def)
  have "status_kept {} ?s s'"
  proof (cases child)
    case None
    then show ?thesis using w l u by (auto simp: wait_pid_def)
  next
    case (Some a)
    obtain d where d: "pcbs ?s a = Some d" using w l u Some by (cases "pcbs ?s a") (simp_all add: wait_pid_def)
    consider "ppid d \<noteq> pid c" | "ppid d = pid c" "state d = PROCESS_ZOMBIED" | "ppid d = pid c" "state d = PROCESS_STOPPED"
      | "ppid d = pid c" "state d = PROCESS_RUNNING \<or> state d = PROCESS_BLOCKED" by (cases "state d") auto
    moreover have "((pcbs s)(u \<mapsto> c\<lparr>waited_child := p\<rparr>)) u = Some (c\<lparr>waited_child := p\<rparr>)" by simp
    ultimately show ?thesis
      using w l u Some d reap block_process_kept [of u ?s s' "c\<lparr>waited_child := p\<rparr>"] c
      by cases (auto simp: wait_pid_def Let_def log_defs bind_eq_Some_conv simp del: fun_upd_apply split: if_split_asm)
  qed
  then show ?thesis using kept_trans [OF s] by blast
qed

lemma k_waitpid_kept:
  assumes k: "kinv s Q C i" and u: "current_process s = Some u" and c: "pcbs s u = Some c" "state c = PROCESS_RUNNING"
    and w: "k_waitpid p wst nohang s = Some (r, w', s')"
  shows "status_kept {} s s'"
proof -
  have "k_get_current_process s = Some u"
    using u queues_live [OF sched_inv_queues [OF kinvD(1) [OF k]]] by (simp add: k_get_current_process_def)
  then show ?thesis
    using w wait_any_kept [OF _ c(1)] wait_pid_kept [OF _ c(1)] c(2)
    by (auto simp: k_waitpid_def split: if_split_asm)
qed

lemma core_kept:
  assumes "q_core s' = q_core (t\<lparr>pcbs := (pcbs s)(a \<mapsto> c')\<rparr>)" "pcbs s a = Some c" "exit_status c' = exit_status c"
    and "state c = PROCESS_ZOMBIED \<Longrightarrow> state c' = PROCESS_ZOMBIED"
  shows "status_kept {} s s'"
  by (rule status_kept_upd [OF assms(2) _ assms(3,4)]) (use q_core_eqD(1) [OF assms(1)] in simp)

lemma k_stop_process_kept:
  assumes k: "kinv s Q C i" and a: "a \<in> queued Q" and c: "pcbs s a = Some c" and r: "k_stop_process (Some a) s = Some (r, s')"
  shows "status_kept {} s s'"
proof -
  note inv = kinvD(1) [OF k] and err = k_stop_process_errors [OF kinvD(1) [OF k] c]
  consider "state c = PROCESS_STOPPED \<or> state c = PROCESS_ZOMBIED" | "state c \<noteq> PROCESS_STOPPED" "state c \<noteq> PROCESS_ZOMBIED" by auto
  then show ?thesis
  proof cases
    case 1
    then show ?thesis using err a r by (auto simp: log_defs)
  next
    case 2
    note h = sched_inv_home [OF inv a c]
    have ne: "home c \<noteq> Zombie" "home c \<noteq> Stopped" using 2 by (auto simp: home_def split: process_state.splits)
    let ?Q = "moveq a (home c) Stopped Q"
    let ?f = "find (waiting s C (pid c)) (?Q Blocked)"
    let ?s1 = "(log_stopped (pid c) (int (priority c)) (name_or (command c)) s)\<lparr>pcbs := (pcbs s)(a \<mapsto> c\<lparr>state := PROCESS_STOPPED\<rparr>)\<rparr>"
    have q: "q_core s' = q_core (woken ?f (pid c) ?s1)"
      using k_stop_process_ok [OF inv h(1) ne h(2) c family_blocked [OF k] refl refl] r by auto
    have "?f = None \<or> (\<exists>b d. ?f = Some b \<and> pcbs ?s1 b = Some d \<and> state d \<noteq> PROCESS_ZOMBIED)"
    proof (cases ?f)
      case (Some b)
      then have "b \<in> set (Q Blocked)" "b \<noteq> a"
        using find_SomeD [OF Some] moveq_member [OF sched_inv_queues [OF inv] h(1,2), of Blocked b Stopped] by auto
      then show ?thesis using Some sched_inv_fits [OF inv, of Blocked b] by auto
    qed simp
    from status_kept_woken [OF this, of "{}" "pid c"] have "status_kept {} ?s1 s'"
      using q_core_eqD(1) [OF q] by (simp add: status_kept_def)
    moreover have "status_kept {} s ?s1" by (rule kept_here [OF c]) (use 2 in simp_all)
    ultimately show ?thesis using kept_trans by blast
  qed
qed

lemma k_continue_process_kept:
  assumes k: "kinv s Q C i" and a: "a \<in> queued Q" and c: "pcbs s a = Some c" and r: "k_continue_process (Some a) s = Some (r, s')"
  shows "status_kept {} s s'"
proof (cases "state c = PROCESS_STOPPED")
  case True
  have "a \<in> set (Q Stopped)" using sched_inv_home [OF kinvD(1) [OF k] a c] True by (simp add: home_def)
  then have q: "q_core s' = q_core ((log_continued (pid c) (int (priority c)) (name_or (command c)) s)
      \<lparr>pcbs := (pcbs s)(a \<mapsto> c\<lparr>state := PROCESS_RUNNING\<rparr>)\<rparr>)"
    using k_continue_process_ok [OF kinvD(1) [OF k] _ c] r by auto
  show ?thesis by (rule core_kept [OF q c]) (simp_all add: True)
next
  case False
  then show ?thesis using k_continue_process_error [OF c] r by auto
qed

lemma k_set_priority_kept:
  assumes k: "kinv s Q C i" and a: "a \<in> queued Q" and c: "pcbs s a = Some c" and r: "k_set_priority (Some a) p s = Some (r, s')"
  shows "status_kept {} s s'"
proof (cases "0 \<le> p \<and> p \<le> 2")
  case True
  then have q: "q_core s' = q_core (s\<lparr>pcbs := (pcbs s)(a \<mapsto> c\<lparr>priority := nat p\<rparr>)\<rparr>)"
    using k_set_priority_ok [OF kinvD(1) [OF k] a c, of p] r by auto
  show ?thesis by (rule core_kept [OF q c]) simp_all
next
  case False
  then show ?thesis using r by (auto simp: k_set_priority_def)
qed

lemma k_sleep_kept:
  assumes c: "pcbs s u = Some c" "state c \<noteq> PROCESS_ZOMBIED" and r: "k_sleep (Some u) n s = Some (r, s')"
  shows "status_kept {} s s'"
proof (cases "n = 0")
  case True
  then show ?thesis using r by (auto simp: k_sleep_def)
next
  case False
  let ?s = "(log_sleep (pid c) (int (priority c)) (name_or (command c)) s)\<lparr>pcbs := (pcbs s)(u \<mapsto> c\<lparr>sleep_time := of_nat n\<rparr>)\<rparr>"
  have "block_process u ?s = Some s'"
    using r c False by (auto simp: k_sleep_def upd_pcb_def log_defs log_at_def bind_eq_Some_conv)
  then have "status_kept {} ?s s'" by (rule block_process_kept [of _ _ _ "c\<lparr>sleep_time := of_nat n\<rparr>"]) (use c in auto)
  moreover have "status_kept {} s ?s" by (rule kept_here [OF c(1)]) simp_all
  ultimately show ?thesis using kept_trans by blast
qed

lemma k_resume_sleep_kept:
  assumes c: "pcbs s u = Some c" "state c \<noteq> PROCESS_ZOMBIED" and r: "k_resume_sleep (Some u) s = Some (r, s')"
  shows "status_kept {} s s'"
  using r c block_process_kept [OF _ c] by (auto simp: k_resume_sleep_def bind_eq_Some_conv split: if_split_asm)

end
