(* ===== verification/Kernel_Run.thy ===== *)
theory Kernel_Run
  imports Kernel_Frames
begin

text \<open>
  Creating processes, the kernel calls as a step relation, quanta as sequences of calls, the
  scheduling step, and booting: calls and scheduling steps keep the kernel invariant.
\<close>

section \<open>A new process\<close>

text \<open>A node is on the chain that starts at a pointer.\<close>

inductive on_chain :: "links \<Rightarrow> addr option \<Rightarrow> addr \<Rightarrow> bool" where
  here: "on_chain h (Some n) n"
| there: "on_chain h (l_next h x) n \<Longrightarrow> on_chain h (Some x) n"

text \<open>The allocator returns a node that is on no children list.\<close>

definition fresh_node :: "kernel \<Rightarrow> addr \<Rightarrow> bool" where
  "fresh_node s n \<longleftrightarrow>
     (\<forall>a c ch. pcbs s a = Some c \<longrightarrow> children c = Some ch \<longrightarrow> \<not> on_chain (clinks s) (ll_head ch) n)"

lemma dseg_on_chain: "dseg h p ns None \<Longrightarrow> n \<in> set ns \<Longrightarrow> on_chain h (hd_opt ns None) n"
  by (induction ns arbitrary: p) (auto intro: on_chain.intros)

lemma fresh_node_ok:
  assumes f: "family s C A" and n: "fresh_node s n"
  shows "n \<notin> nodes C A"
proof
  assume "n \<in> nodes C A"
  then obtain a where a: "a \<in> A" "n \<in> set (C a)" by (auto simp: nodes_def)
  obtain c where c: "pcbs s a = Some c" using family_alloc [OF f a(1)] by blast
  obtain ch where ch: "children c = Some ch" "dll (ch, clinks s) (C a)" using familyD [OF f a(1) c] by blast
  then have "on_chain (clinks s) (ll_head ch) n"
    using dseg_on_chain [of "clinks s" None "C a" n] a(2) by (simp add: dll_def)
  then show False using n c ch(1) by (auto simp: fresh_node_def)
qed

definition spawned :: "kernel \<Rightarrow> (addr \<Rightarrow> addr list) \<Rightarrow> addr \<Rightarrow> pcb \<Rightarrow> addr \<Rightarrow> pcb \<Rightarrow> addr \<Rightarrow> kernel \<Rightarrow> bool" where
  "spawned s C u uc a ca n s' \<longleftrightarrow>
     (\<exists>ch. pcbs s' = (pcbs s)(u \<mapsto> uc\<lparr>children := Some ch\<rparr>, a \<mapsto> ca) \<and>
        dll (ch, clinks s') (C u @ [n]) \<and> same_links (- insert n (set (C u))) (clinks s) (clinks s')) \<and>
     cprocess s' = (cprocess s)(n := a) \<and> init_process s' = init_process s \<and>
     current_process s' = current_process s \<and> process_count s' = process_count s + 1 \<and>
     pid ca = int (process_count s) + 1 \<and> ppid ca = pid uc \<and> state ca = PROCESS_RUNNING \<and>
     priority ca < 3 \<and> children ca = Some (linked_list_new False) \<and> thread ca \<and>
     process_fd_table ca = process_fd_table uc \<and> exit_status ca = 0"

lemma spawned_sched:
  assumes k: "kinv s Q C i" and u: "u \<in> active Q" "pcbs s u = Some uc" and a: "pcbs s a = None"
    and sp: "spawned s C u uc a ca n s'"
    and Q': "queues s' (Q(Ready (priority ca) := Q (Ready (priority ca)) @ [a]))" (is "queues s' ?Q")
  shows "sched_inv s' ?Q"
proof -
  note inv = kinvD(1) [OF k]
  obtain ch where p: "pcbs s' = (pcbs s)(u \<mapsto> uc\<lparr>children := Some ch\<rparr>, a \<mapsto> ca)"
    using sp by (auto simp: spawned_def)
  have ca: "state ca = PROCESS_RUNNING" "priority ca < 3" "pid ca = int (process_count s) + 1"
    using sp by (auto simp: spawned_def)
  have na: "a \<notin> queued Q" using sched_inv_queued_alloc [OF inv] a by blast
  have mem: "x \<in> set (?Q q) \<longleftrightarrow> (x = a \<and> q = Ready (priority ca)) \<or> x \<in> set (Q q)" for x q by auto
  have "\<exists>d. pcbs s' x = Some d \<and> fits q d" if q: "valid_q q" and x: "x \<in> set (?Q q)" for q x
  proof (cases "x = a")
    case True
    then have "q = Ready (priority ca)" using x mem na q by (auto simp: queued_def)
    then show ?thesis using True p ca by simp
  next
    case False
    then have xq: "x \<in> set (Q q)" using x mem by auto
    obtain d where d: "pcbs s x = Some d" "fits q d" using sched_inv_fits [OF inv q xq] by blast
    have "fits q (uc\<lparr>children := Some ch\<rparr>) = fits q uc" by (cases q) auto
    then show ?thesis using d p u(2) False by (cases "x = u") auto
  qed
  moreover have "inj_on (pid_at s') (queued ?Q)"
  proof -
    have qd: "queued ?Q = insert a (queued Q)"
      using ca(2) by (auto simp: queued_def split: if_splits)
    have old: "pid_at s' x = pid_at s x" if "x \<in> queued Q" for x
      using that na p u(2) by (auto simp: pid_at_def)
    have new: "pid_at s' a = Some (int (process_count s) + 1)" using p ca(3) by (simp add: pid_at_def)
    have fresh: "pid_at s x \<noteq> Some (int (process_count s) + 1)" if x: "x \<in> queued Q" for x
    proof -
      obtain q where "ident s x = Some (q, True)" "q \<le> int (process_count s)" using kinvD(4) [OF k x] by blast
      then show ?thesis by (auto simp: ident_def pid_at_def)
    qed
    have "pid_at s' a \<notin> pid_at s' ` queued Q" using fresh old new by (metis imageE)
    moreover have "inj_on (pid_at s') (queued Q)"
      using inv old by (simp add: sched_inv_def cong: inj_on_cong)
    ultimately show ?thesis using qd na by simp
  qed
  ultimately show ?thesis using Q' unfolding sched_inv_def by blast
qed

lemma spawned_family:
  assumes f: "family s C A" and u: "u \<in> A" "pcbs s u = Some uc" and a: "a \<notin> A" "pcbs s a = None"
    and n: "n \<notin> nodes C A" and sp: "spawned s C u uc a ca n s'"
  shows "family s' (C(u := C u @ [n], a := [])) (insert a A)"
proof -
  let ?C = "C(u := C u @ [n], a := [])"
  have au: "a \<noteq> u" using u a by auto
  obtain ch where p: "pcbs s' = (pcbs s)(u \<mapsto> uc\<lparr>children := Some ch\<rparr>, a \<mapsto> ca)"
    and ch: "dll (ch, clinks s') (C u @ [n])"
    and same: "same_links (- insert n (set (C u))) (clinks s) (clinks s')"
    and ca: "children ca = Some (linked_list_new False)" and cp: "cprocess s' = (cprocess s)(n := a)"
    using sp by (auto simp: spawned_def)
  have nx: "n \<notin> set (C x)" if "x \<in> A" for x using n that by (auto simp: nodes_def)
  have al: "pcbs s' (cprocess s' m) \<noteq> None" if "x \<in> A" "m \<in> set (C x)" for x m
    using familyD [OF f that(1)] family_alloc [OF f that(1)] that nx [of x] p cp by auto
  have "\<exists>d k. pcbs s' x = Some d \<and> children d = Some k \<and> dll (k, clinks s') (?C x) \<and>
      (\<forall>m\<in>set (?C x). pcbs s' (cprocess s' m) \<noteq> None)" if x: "x \<in> insert a A" for x
  proof -
    consider "x = a" | "x = u" | "x \<in> A" "x \<noteq> u" "x \<noteq> a" using x by blast
    then show ?thesis
    proof cases
      case 1
      then show ?thesis using p ca by simp
    next
      case 2
      then show ?thesis using p ch au al [OF u(1)] cp by auto
    next
      case 3
      obtain d k where d: "pcbs s x = Some d" "children d = Some k" "dll (k, clinks s) (C x)"
        using family_alloc [OF f 3(1)] familyD [OF f 3(1)] by blast
      have "set (C x) \<subseteq> - insert n (set (C u))"
        using family_disjoint [OF f 3(1) u(1) 3(2)] nx [OF 3(1)] by auto
      then have "dll (k, clinks s') (C x)"
        using macro.frame_law [OF d(3)] macro.same_mono [OF same] by blast
      then show ?thesis using d p 3 al [OF 3(1)] by auto
    qed
  qed
  moreover have "set (?C x) \<inter> set (?C y) = {}" if "x \<in> insert a A" "y \<in> insert a A" "x \<noteq> y" for x y
    using that family_disjoint [OF f, of x y] nx [of x] nx [of y] by (cases "x = u"; cases "y = u") auto
  ultimately show ?thesis unfolding family_def by blast
qed

lemma spawned_kinv:
  assumes k: "kinv s Q C i" and u: "u \<in> active Q" "pcbs s u = Some uc" and a: "pcbs s a = None"
    and n: "n \<notin> nodes C (active Q)" and sp: "spawned s C u uc a ca n s'"
    and Q': "queues s' (Q(Ready (priority ca) := Q (Ready (priority ca)) @ [a]))" (is "queues s' ?Q")
  shows "kinv s' ?Q (C(u := C u @ [n], a := [])) i"
proof -
  let ?C = "C(u := C u @ [n], a := [])"
  note inv = kinvD(1) [OF k] and t = kinvD(2) [OF k]
  have na: "a \<notin> queued Q" using sched_inv_queued_alloc [OF inv] a by blast
  then have nA: "a \<notin> active Q" using active_sub by blast
  have pr: "priority ca < 3" using sp by (simp add: spawned_def)
  have qd: "queued ?Q = insert a (queued Q)" using pr by (auto simp: queued_def split: if_splits)
  have A: "active ?Q = insert a (active Q)"
  proof (rule set_eqI)
    fix x
    have "x \<in> set (?Q q) \<longleftrightarrow> (x = a \<and> q = Ready (priority ca)) \<or> x \<in> set (Q q)" for q by auto
    moreover have "valid_q (Ready (priority ca))" using pr by simp
    ultimately show "x \<in> active ?Q \<longleftrightarrow> x \<in> insert a (active Q)"
      unfolding active_def by blast
  qed
  obtain ch where p: "pcbs s' = (pcbs s)(u \<mapsto> uc\<lparr>children := Some ch\<rparr>, a \<mapsto> ca)"
    and ca: "ppid ca = pid uc" "pid ca = int (process_count s) + 1" "thread ca"
    and r: "cprocess s' = (cprocess s)(n := a)" "init_process s' = init_process s"
      "current_process s' = current_process s" "process_count s' = process_count s + 1"
    using sp by (auto simp: spawned_def)
  have i: "i \<noteq> a" using treeD(3) [OF t] nA by blast
  have old: "pid_at s' x = pid_at s x" "ppid_at s' x = ppid_at s x" "ident s' x = ident s x" if "x \<noteq> a" for x
    using that p u(2) by (auto simp: pid_at_def ppid_at_def ident_def)
  have cpo: "cprocess s' m = cprocess s m" "cprocess s m \<noteq> a" if "m \<in> nodes C (active Q)" for m
    using that n r(1) na bij_betwE [OF treeD(5) [OF t]] by auto
  have fam: "family s' ?C (active ?Q)"
    unfolding A by (rule spawned_family [OF treeD(1) [OF t] u nA a n sp])
  have nd: "nodes ?C (active ?Q) = insert n (nodes C (active Q))"
    using u(1) nA unfolding A by (auto simp: nodes_def split: if_splits)
  have bij: "bij_betw (cprocess s') (nodes ?C (active ?Q)) (queued ?Q - {i})"
  proof -
    have "bij_betw (cprocess s') (nodes C (active Q)) (queued Q - {i})"
      using treeD(5) [OF t] cpo(1) by (simp cong: bij_betw_cong)
    moreover have "queued ?Q - {i} = insert a (queued Q - {i})" using qd i by auto
    moreover have "cprocess s' n = a" using r(1) by simp
    ultimately show ?thesis unfolding nd using n na by (metis Diff_iff notIn_Un_bij_betw Un_insert_right sup_bot_right)
  qed
  have par: "ppid_at s' (cprocess s' m) = pid_at s' x" if x: "x \<in> active ?Q" "m \<in> set (?C x)" for x m
  proof (cases "m = n")
    case True
    have "x = u"
    proof (rule ccontr)
      assume "x \<noteq> u"
      then have "n \<in> set (C x)" "x \<in> active Q" using x True A by (auto split: if_splits)
      then show False using n by (auto simp: nodes_def)
    qed
    then show ?thesis using True r(1) p ca u a by (auto simp: ppid_at_def pid_at_def)
  next
    case False
    then have m: "m \<in> set (C x)" "x \<in> active Q" "x \<noteq> a" using x A by (auto split: if_splits)
    then have "m \<in> nodes C (active Q)" by (auto simp: nodes_def)
    then show ?thesis using treeD(6) [OF t m(2,1)] cpo [of m] old m(3) by simp
  qed
  have "tree s' ?Q ?C i"
    using fam bij par treeD(2-4) [OF t] r(2) A i old(1) [of i] by (auto simp: tree_def simp del: fun_upd_apply)
  moreover have "\<exists>c. pcbs s' x = Some c \<and> (state c \<noteq> PROCESS_ZOMBIED \<longrightarrow> x \<in> queued ?Q)"
    if x: "current_process s' = Some x" for x
  proof -
    obtain c where c: "pcbs s x = Some c" "state c \<noteq> PROCESS_ZOMBIED \<longrightarrow> x \<in> queued Q"
      using kinvD(3) [OF k] x r(3) by auto
    have "x \<noteq> a" using c(1) a by auto
    then have "map_option state (pcbs s' x) = Some (state c)"
      using c(1) p u(2) by (cases "x = u") simp_all
    then obtain d where "pcbs s' x = Some d" "state d = state c" by auto
    then show ?thesis using c(2) unfolding qd by simp
  qed
  moreover have "\<exists>q. ident s' x = Some (q, True) \<and> 1 \<le> q \<and> q \<le> int (process_count s')"
    if x: "x \<in> queued ?Q" for x
  proof (cases "x = a")
    case True
    then show ?thesis using p ca r(4) by (simp add: ident_def)
  next
    case False
    then have "x \<in> queued Q" using x qd by simp
    then show ?thesis using kinvD(4) [OF k, of x] old(3) [OF False] r(4) by auto
  qed
  ultimately show ?thesis using spawned_sched [OF k u a sp Q'] unfolding kinv_def by blast
qed

lemma queues_links:
  assumes Q: "queues s Q" and same: "same_links (queued Q) (plinks s) h"
  shows "queues (s\<lparr>plinks := h\<rparr>) Q"
proof -
  have "dll (get_q q s, h) (Q q)" if q: "valid_q q" for q
  proof (rule macro.frame_law [OF queuesD(1) [OF Q q]])
    show "same_links (set (Q q)) (plinks s) h"
      by (rule macro.same_mono [OF same]) (use q in \<open>auto simp: queued_def\<close>)
  qed
  then show ?thesis using Q by (simp add: queues_def)
qed

lemma kinv_count:
  assumes k: "kinv s Q C i" and Q: "queues s' Q" and p: "pcbs s' = pcbs s"
    and r: "clinks s' = clinks s" "cprocess s' = cprocess s" "init_process s' = init_process s"
      "current_process s' = current_process s" "process_count s \<le> process_count s'"
  shows "kinv s' Q C i"
proof -
  have "sched_inv s' Q" by (rule sched_inv_core [OF kinvD(1) [OF k] Q p])
  moreover have "tree s' Q C i"
    by (rule tree_same [OF kinvD(2) [OF k] refl refl]) (simp_all add: r p pid_at_def ppid_at_def fun_eq_iff)
  moreover have "\<exists>q. ident s' a = Some (q, True) \<and> 1 \<le> q \<and> q \<le> int (process_count s')" if "a \<in> queued Q" for a
    using kinvD(4) [OF k that] p r(5) by (auto simp: ident_def)
  ultimately show ?thesis using kinvD(3) [OF k] p r(4) unfolding kinv_def by simp
qed

lemma s32_small [simp]: "n < 2147483648 \<Longrightarrow> s32 n = int n"
  by (simp add: s32_def)

text \<open>The block before it is launched, and the state that holds it.\<close>

definition create_block :: "pcb \<Rightarrow> pcb \<Rightarrow> nat \<Rightarrow> kernel \<Rightarrow> pcb" where
  "create_block junk uc prio s = fresh_pcb junk (int (process_count s) + 1) (Some uc) prio"

definition create_state :: "addr \<Rightarrow> pcb \<Rightarrow> kernel \<Rightarrow> kernel" where
  "create_state a c s =
     s\<lparr>process_count := process_count s + 1, pcbs := (pcbs s)(a := Some c),
       plinks := set_next a None (set_prev a None (plinks s)), init_process := init_process s\<rparr>"

lemma k_proc_create_launch:
  assumes live: "sched_live s" and m: "ce_pcb m = Some (a, junk)" and u: "pcbs s u = Some uc"
    and cnt: "process_count s < 2147483647"
  shows "k_proc_create m (Some u) args prio s =
    launch m (Some u) a args (create_state a (create_block junk uc prio s) s)"
  using live m u cnt
  by (simp add: k_proc_create_def create_state_def create_block_def Let_def add.commute)

lemma create_failure:
  assumes k: "kinv s Q C i" and a: "pcbs s a = None" and l: "klog s' = l"
    and s': "s' = (create_state a c s)\<lparr>klog := l, pcbs := (pcbs (create_state a c s))(a := None)\<rparr>"
  shows "kinv s' Q C i"
proof (rule kinv_count [OF k])
  have na: "a \<notin> queued Q" using sched_inv_queued_alloc [OF kinvD(1) [OF k]] a by blast
  then have "same_links (queued Q) (plinks s) (set_next a None (set_prev a None (plinks s)))"
    by (auto simp: same_links_def)
  from queues_links [OF sched_inv_queues [OF kinvD(1) [OF k]] this]
  show "queues s' Q" unfolding s' create_state_def by (simp add: queues_def)
  show "pcbs s' = pcbs s" using a by (auto simp: s' create_state_def)
qed (simp_all add: s' create_state_def)

text \<open>A successful launch.\<close>

definition launches :: "create_env \<Rightarrow> byte list list option \<Rightarrow> bool" where
  "launches m args \<longleftrightarrow> ce_children m \<and> ce_thread m \<and> ce_create m \<and> ce_node m \<noteq> None \<and>
     (case duplicate_argv m args of None \<Rightarrow> False | Some xs \<Rightarrow> xs = [] \<or> ce_command m)"

lemma launch_fails:
  assumes a: "pcbs s a \<noteq> None" and f: "\<not> launches m args"
  shows "\<exists>r l. launch m parent a args s = Some (r, s\<lparr>klog := l, pcbs := (pcbs s)(a := None)\<rparr>) \<and> r < 0"
proof -
  obtain c where c: "pcbs s a = Some c" using a by blast
  show ?thesis
  proof (cases "duplicate_argv m args")
    case None
    then show ?thesis by (auto simp: launch_def Let_def intro!: exI [of _ "klog s"])
  next
    case (Some xs)
    show ?thesis
    proof (cases "ce_children m \<and> ce_thread m \<and> ce_create m \<and> (xs = [] \<or> ce_command m)")
      case False
      then show ?thesis using Some by (auto simp: launch_def Let_def intro!: exI [of _ "klog s"])
    next
      case True
      then have "ce_node m = None" using f Some by (auto simp: launches_def)
      then show ?thesis
        using True Some c
        by (intro exI [of _ E_FAILED_TO_ALLOCATE] exI [of _ "klog (log_create (pid c) (int (priority c))
              (case xs of [] \<Rightarrow> None | x # _ \<Rightarrow> Some x) s)"])
          (simp add: launch_def Let_def upd_pcb_def log_defs log_at_def)
    qed
  qed
qed

lemma launch_ok:
  assumes k: "kinv s Q C i" and u: "u \<in> active Q" "pcbs s u = Some uc" and a: "pcbs s a = None"
    and m: "launches m args" "ce_node m = Some n" and n: "n \<notin> nodes C (active Q)" and prio: "prio < 3"
  shows "\<exists>s' ca. launch m (Some u) a args (create_state a (create_block junk uc prio s) s) =
      Some (int (process_count s) + 1, s') \<and> spawned s C u uc a ca n s' \<and> priority ca = prio \<and>
    queues s' (Q(Ready prio := Q (Ready prio) @ [a]))"
proof -
  let ?c0 = "create_block junk uc prio s"
  let ?s0 = "create_state a ?c0 s"
  note inv = kinvD(1) [OF k]
  have na: "a \<notin> queued Q" and ua: "u \<noteq> a" using sched_inv_queued_alloc [OF inv] a u(2) by auto
  obtain xs where xs: "duplicate_argv m args = Some xs" "xs = [] \<or> ce_command m"
    using m(1) by (auto simp: launches_def split: option.splits)
  let ?cmd = "case xs of [] \<Rightarrow> None | x # _ \<Rightarrow> Some x"
  let ?c1 = "?c0\<lparr>children := Some (linked_list_new False), argv := Some xs, command := ?cmd, thread := True\<rparr>"
  obtain k0 where k0: "children uc = Some k0" "dll (k0, clinks s) (C u)"
    using familyD [OF treeD(1) [OF kinvD(2) [OF k]] u] by blast
  have "n \<notin> set (C u)" using n u(1) by (auto simp: nodes_def)
  then obtain ch h where push: "linked_list_push_tail n (k0, clinks s) = Some (ch, h)"
    and ch: "dll (ch, h) (C u @ [n])" "same_links (- insert n (set (C u))) (clinks s) h"
    using macro.push_law [OF k0(2)] by blast
  let ?c2 = "?c1\<lparr>process_fd_table := process_fd_table uc\<rparr>"
  let ?s1 = "log_create (pid ?c1) (int (priority ?c1)) ?cmd (?s0\<lparr>pcbs := (pcbs ?s0)(a \<mapsto> ?c1)\<rparr>)"
  let ?s2 = "?s1\<lparr>cprocess := (cprocess s)(n := a), clinks := h,
      pcbs := (pcbs s)(a \<mapsto> ?c2, u \<mapsto> uc\<lparr>children := Some ch\<rparr>)\<rparr>"
  have "same_links (queued Q) (plinks s) (set_next a None (set_prev a None (plinks s)))"
    using na by (auto simp: same_links_def)
  from queues_links [OF sched_inv_queues [OF inv] this]
  have q2: "queues ?s2 Q" by (simp add: queues_def log_defs create_state_def)
  have c2: "pcbs ?s2 a = Some ?c2" "priority ?c2 = prio" "state ?c2 = PROCESS_RUNNING"
    using ua by (auto simp: create_block_def fresh_pcb_def)
  obtain s' where s': "k_add_to_ready_queue (Some a) ?s2 = Some (0, s')"
    "queues s' (Q(Ready prio := Q (Ready prio) @ [a]))"
    "q_core s' = q_core (?s2\<lparr>pcbs := (pcbs ?s2)(a \<mapsto> ?c2\<lparr>state := PROCESS_RUNNING\<rparr>)\<rparr>)"
    using k_add_to_ready_queue_ok [OF q2 na c2(1)] c2(2) prio by auto
  have "launch m (Some u) a args ?s0 = Some (int (process_count s) + 1, s')"
  proof -
    have p1: "pcbs ?s0 a = Some ?c0" "pcbs ?s0 u = Some uc" "pid ?c0 = int (process_count s) + 1"
      using ua u(2) by (auto simp: create_state_def create_block_def fresh_pcb_def)
    have att: "attach_child (Some u) n (?s1\<lparr>cprocess := (cprocess s)(n := a)\<rparr>) =
        Some (?s1\<lparr>cprocess := (cprocess s)(n := a), clinks := h,
          pcbs := (pcbs s)(a \<mapsto> ?c1, u \<mapsto> uc\<lparr>children := Some ch\<rparr>)\<rparr>)" (is "_ = Some ?s3")
      using push k0(1) u(2) ua
      by (simp add: attach_child_def upd_pcb_def log_defs log_at_def create_state_def)
    have inh: "inherit_fds (Some u) a ?s3 = Some ?s2"
      using ua by (simp add: inherit_fds_def upd_pcb_def fun_upd_twist)
    show ?thesis
      using m xs p1 att inh s'(1)
      by (simp add: launch_def launches_def Let_def upd_pcb_def log_defs create_state_def log_at_def)
  qed
  moreover have "spawned s C u uc a (?c2\<lparr>state := PROCESS_RUNNING\<rparr>) n s'"
    using q_core_eqD [OF s'(3)] ch ua prio
    by (auto simp: spawned_def create_block_def fresh_pcb_def log_defs create_state_def fun_upd_twist)
  ultimately show ?thesis using s'(2) c2(2) by (auto simp del: fun_upd_apply)
qed

lemma create_ok:
  assumes k: "kinv s Q C i" and u: "u \<in> active Q" "pcbs s u = Some uc" and m: "ce_pcb m = Some (a, junk)"
    and a: "pcbs s a = None" and n: "\<And>n. ce_node m = Some n \<Longrightarrow> n \<notin> nodes C (active Q)"
    and cnt: "process_count s < 2147483647" and prio: "prio < 3"
  shows "\<exists>r s'. k_proc_create m (Some u) args prio s = Some (r, s') \<and>
    (if launches m args
     then r = int (process_count s) + 1 \<and>
       (\<exists>n ca. ce_node m = Some n \<and> spawned s C u uc a ca n s' \<and> priority ca = prio \<and>
          kinv s' (Q(Ready prio := Q (Ready prio) @ [a])) (C(u := C u @ [n], a := [])) i)
     else r < 0 \<and> kinv s' Q C i \<and> pcbs s' = pcbs s)"
proof (cases "launches m args")
  case False
  let ?s = "create_state a (create_block junk uc prio s) s"
  have live: "sched_live s" using queues_live [OF sched_inv_queues [OF kinvD(1) [OF k]]] .
  obtain r l where r: "launch m (Some u) a args ?s = Some (r, ?s\<lparr>klog := l, pcbs := (pcbs ?s)(a := None)\<rparr>)"
    "r < 0" using launch_fails [of ?s a m args "Some u"] False by (auto simp: create_state_def)
  have "kinv (?s\<lparr>klog := l, pcbs := (pcbs ?s)(a := None)\<rparr>) Q C i"
    by (rule create_failure [OF k a _ refl]) simp
  moreover have "(pcbs ?s)(a := None) = pcbs s" using a by (auto simp: create_state_def)
  ultimately show ?thesis using False r k_proc_create_launch [OF live m u(2) cnt] by simp
next
  case True
  have live: "sched_live s" using queues_live [OF sched_inv_queues [OF kinvD(1) [OF k]]] .
  obtain nd where nd: "ce_node m = Some nd" using True by (auto simp: launches_def)
  obtain s' ca where l: "launch m (Some u) a args (create_state a (create_block junk uc prio s) s) =
      Some (int (process_count s) + 1, s')" "spawned s C u uc a ca nd s'" "priority ca = prio"
    "queues s' (Q(Ready prio := Q (Ready prio) @ [a]))"
    using launch_ok [OF k u a True nd n [OF nd] prio] by blast
  have "kinv s' (Q(Ready prio := Q (Ready prio) @ [a])) (C(u := C u @ [nd], a := [])) i"
    using spawned_kinv [OF k u a n [OF nd] l(2)] l(3,4) by simp
  then show ?thesis
    using l(1-3) k_proc_create_launch [OF live m u(2) cnt] nd True by (auto simp del: fun_upd_apply)
qed

section \<open>The scheduling step\<close>

lemma tick_more [simp]:
  "ppid (tick c) = ppid c" "children (tick c) = children c" "thread (tick c) = thread c"
  "exit_status (tick c) = exit_status c"
  by (simp_all add: tick_def)

lemma ticked_keeps:
  "clinks (ticked A s) = clinks s" "cprocess (ticked A s) = cprocess s"
  "init_process (ticked A s) = init_process s" "current_process (ticked A s) = current_process s"
  "process_count (ticked A s) = process_count s" "sched_live (ticked A s) = sched_live s"
  "map_option children (pcbs (ticked A s) b) = map_option children (pcbs s b)"
  "pid_at (ticked A s) = pid_at s" "ppid_at (ticked A s) = ppid_at s" "ident (ticked A s) = ident s"
  "map_option state (pcbs (ticked A s) b) = map_option state (pcbs s b)"
  by (auto simp: ticked_def pid_at_def ppid_at_def ident_def option.map_comp o_def fun_eq_iff tick_more)

lemma kinv_ticked: "kinv s Q C i \<Longrightarrow> kinv (ticked A s) Q C i"
proof -
  assume k: "kinv s Q C i"
  show ?thesis
  proof (rule kinv_move [OF k sched_inv_ticked [OF kinvD(1) [OF k]]])
    show "tree (ticked A s) Q C i"
      by (rule tree_same [OF kinvD(2) [OF k] refl refl]) (simp_all add: ticked_keeps)
    show "same_procs Q s (ticked A s)" by (simp add: same_procs_def ticked_keeps)
  qed simp
qed

lemma kinv_core:
  assumes "kinv s Q C i" and "queues s' Q" and "q_core s' = q_core s"
  shows "kinv s' Q C i"
  by (rule kinv_count [OF assms(1,2)]) (use q_core_eqD [OF assms(3)] in simp_all)

definition slept :: "kernel \<Rightarrow> (queue_id \<Rightarrow> addr list) \<Rightarrow> (queue_id \<Rightarrow> addr list)" where
  "slept s Q = (case drop (length (not_yet s (Q Blocked))) (Q Blocked) of
     [] \<Rightarrow> Q | b # _ \<Rightarrow> moveq b Blocked (Ready (priority (the (pcbs s b)))) Q)"

lemma update_blocked_kinv:
  assumes k: "kinv s Q C i"
  shows "\<exists>s'. update_blocked_processes s = Some s' \<and> kinv s' (slept s Q) C i \<and> quantum s' = quantum s \<and>
    current_process s' = current_process s \<and> shell_spawned s' = shell_spawned s \<and>
    (\<forall>a. a \<notin> set (Q Blocked) \<longrightarrow> pcbs s' a = pcbs s a) \<and> status_kept {} s s'"
proof -
  obtain s' where s': "update_blocked_processes s = Some s'" "sleep_round s (Q Blocked) Q s'"
    using update_blocked_ok [OF kinvD(1) [OF k]] by blast
  let ?us = "not_yet s (Q Blocked)"
  let ?t = "ticked (set ?us) s"
  have us: "set ?us \<subseteq> set (Q Blocked)" unfolding not_yet_def by (rule set_takeWhileD [THEN conjunct1, THEN subsetI])
  show ?thesis
  proof (cases "drop (length ?us) (Q Blocked)")
    case Nil
    then have r: "sched_inv s' Q" "q_core s' = q_core ?t" using s'(2) by (simp_all add: sleep_round_def)
    have "kinv s' (slept s Q) C i"
      using kinv_core [OF kinv_ticked [OF k] sched_inv_queues [OF r(1)] r(2)] Nil by (simp add: slept_def)
    moreover have "pcbs s' a = pcbs s a" if "a \<notin> set (Q Blocked)" for a
      using q_core_eqD(1) [OF r(2)] us that by (auto simp: ticked_def)
    moreover have "status_kept {} s s'" using q_core_eqD(1) [OF r(2)] by (auto simp: status_kept_def ticked_def split: if_splits)
    ultimately show ?thesis using s'(1) q_core_eqD(7,10,12) [OF r(2)] by (simp add: ticked_def)
  next
    case (Cons b vs)
    then obtain c where c: "pcbs s b = Some c" "sched_inv s' (moveq b Blocked (Ready (priority c)) Q)"
      "q_core s' = q_core ((log_unblocked (pid c) (int (priority c)) (name_or (command c)) ?t)
         \<lparr>pcbs := (pcbs ?t)(b \<mapsto> (tick c)\<lparr>state := PROCESS_RUNNING\<rparr>)\<rparr>)"
      using s'(2) by (auto simp: sleep_round_def Let_def)
    have b: "b \<in> set (Q Blocked)" using Cons by (metis in_set_dropD list.set_intros(1))
    then have pr: "priority c < 3" using sched_inv_fits [OF kinvD(1) [OF k], of Blocked] c(1) by fastforce
    obtain d where d: "pcbs ?t b = Some d" "pid d = pid c" "ppid d = ppid c" "children d = children c" "thread d = thread c"
      using c(1) by (cases "b \<in> set ?us") (simp_all add: ticked_def)
    have "kinv s' (moveq b Blocked (Ready (priority c)) Q) C i"
      by (rule kinv_shift [OF kinv_ticked [OF k, of "set ?us"] _ b _ _ _ d(1) c(2,3)])
        (use pr d in \<open>simp_all add: log_defs tick_def\<close>)
    then have "kinv s' (slept s Q) C i" using Cons c(1) by (simp add: slept_def)
    moreover have "pcbs s' a = pcbs s a" if "a \<notin> set (Q Blocked)" for a
      using q_core_eqD(1) [OF c(3)] us that b by (auto simp: ticked_def log_defs)
    moreover have "status_kept {} s s'"
    proof -
      have "state c = PROCESS_BLOCKED" using sched_inv_fits [OF kinvD(1) [OF k], of Blocked b] b c(1) by auto
      moreover have "status_kept {} s ?t" by (auto simp: status_kept_def ticked_def split: if_splits)
      ultimately show ?thesis
        using q_core_eqD(1) [OF c(3)] c(1) by (auto simp: status_kept_def log_defs split: if_splits)
    qed
    ultimately show ?thesis
      using s'(1) q_core_eqD(7,10,12) [OF c(3)] by (simp add: log_defs log_at_def ticked_def)
  qed
qed

lemma rotate_kinv:
  assumes k: "kinv s Q C i" and v: "valid_q q" "q \<noteq> Zombie"
  shows "\<exists>s' Q'. q_rotate q s = Some s' \<and> kinv s' Q' C i \<and> q_core s' = q_core s \<and>
    Q' = Q(q := rotate1 (Q q))"
proof -
  let ?Q = "Q(q := rotate1 (Q q))"
  obtain s' where s': "q_rotate q s = Some s'" "sched_inv s' ?Q" "q_core s' = q_core s"
    using rotate_ok [OF kinvD(1) [OF k] v(1)] by blast
  note core = q_core_eqD [OF s'(3)]
  have same: "set (?Q r) = set (Q r)" for r by (cases "Q q") auto
  have A: "active ?Q = active Q" "queued ?Q = queued Q" unfolding active_def queued_def same by simp_all
  have "tree s' ?Q C i"
    by (rule tree_same [OF kinvD(2) [OF k] A])
      (simp_all add: core pid_at_def ppid_at_def fun_eq_iff)
  moreover have "same_procs Q s s'" by (simp add: same_procs_def ident_def [abs_def] core)
  ultimately show ?thesis using kinv_move [OF k s'(2) _ _ A(2)] s'(1,3) by blast
qed

lemma kinv_upd [simp]:
  "kinv (s\<lparr>shell_spawned := x1\<rparr>) Q C i = kinv s Q C i"
  "kinv (s\<lparr>quantum := x2\<rparr>) Q C i = kinv s Q C i"
  "kinv (s\<lparr>logout_issued := x1\<rparr>) Q C i = kinv s Q C i"
  "kinv (s\<lparr>terminal_controlling_pid := x2\<rparr>) Q C i = kinv s Q C i"
  "kinv (s\<lparr>extra_logging_enabled := x1\<rparr>) Q C i = kinv s Q C i"
  by (simp_all add: kinv_def tree_def family_def pid_at_def [abs_def] ppid_at_def [abs_def] ident_def)

lemma kinv_current:
  assumes k: "kinv s Q C i" and a: "a \<in> queued Q"
  shows "kinv (s\<lparr>current_process := Some a\<rparr>) Q C i"
proof -
  have "\<exists>c. pcbs s a = Some c" using sched_inv_queued_alloc [OF kinvD(1) [OF k]] a by auto
  then show ?thesis using k a
    by (simp add: kinv_def tree_def family_def pid_at_def [abs_def] ppid_at_def [abs_def] ident_def)
qed

text \<open>The selected queue, as a function of the queues.\<close>

definition turn :: "int \<Rightarrow> nat" where
  "turn q = process_to_run ! nat (q mod 19)"

definition selected :: "int \<Rightarrow> (queue_id \<Rightarrow> addr list) \<Rightarrow> int" where
  "selected q Q =
     (if Q (Ready (turn q)) \<noteq> [] then int (turn q)
      else if Q (Ready 0) \<noteq> [] then 0 else if Q (Ready 1) \<noteq> [] then 1
      else if Q (Ready 2) \<noteq> [] then 2 else -1)"

lemma turn_less: "turn q < 3"
proof -
  have "nat (q mod 19) < length process_to_run"
    by (simp add: process_to_run_def nat_less_iff pos_mod_bound)
  then have "turn q \<in> set process_to_run" unfolding turn_def by (rule nth_mem)
  then show ?thesis by (auto simp: process_to_run_def)
qed

lemma ready_head:
  assumes Q: "queues s Q" and i: "i < 3"
  shows "ll_head (ready_queues s i) = hd_opt (Q (Ready i)) None"
  using dll_head [OF queuesD(1) [OF Q, of "Ready i"]] i by simp

lemma select_next_queue_ok:
  assumes Q: "queues s Q" and q: "0 \<le> quantum s"
  shows "select_next_queue s = Some (selected (quantum s) Q)"
  using queues_live [OF Q] q ready_head [OF Q turn_less [of "quantum s"]]
    ready_head [OF Q, of 0] ready_head [OF Q, of 1] ready_head [OF Q, of 2]
  by (simp add: select_next_queue_def selected_def Let_def turn_def [symmetric] hd_opt_None)

lemma selected_nonempty:
  assumes "selected q Q \<noteq> -1"
  shows "\<exists>i. selected q Q = int i \<and> i < 3 \<and> Q (Ready i) \<noteq> []"
  using assms turn_less [of q] unfolding selected_def by (auto split: if_splits)

section \<open>Kernel calls\<close>

text \<open>
  One kernel call by the running process. A call that acts on another process finds it by its
  identifier. Ending a process requires that it has not exited yet and is not \<open>init\<close>: on a zombie
  \<open>k_proc_exit\<close> corrupts the zombie queue, and on \<open>init\<close> it appends the children to the list that it walks.
  The conditions on \<open>spawn\<close> are those of the allocator: the new block and the new node are not
  in use. The rule \<open>fields\<close> covers the assignments of the system calls to the error number, the signal
  dispositions and the descriptors of a process, and \<open>log\<close> the lines that they write.
\<close>

inductive kernel_step :: "kernel \<Rightarrow> kernel \<Rightarrow> bool" where
  spawn: "current_process s = Some u \<Longrightarrow> pcbs s u = Some c \<Longrightarrow> state c = PROCESS_RUNNING \<Longrightarrow>
    ce_pcb m = Some (a, junk) \<Longrightarrow> pcbs s a = None \<Longrightarrow> (\<And>n. ce_node m = Some n \<Longrightarrow> fresh_node s n) \<Longrightarrow>
    process_count s < 2147483647 \<Longrightarrow> prio < 3 \<Longrightarrow>
    k_proc_create m (Some u) args prio s = Some (r, s') \<Longrightarrow> kernel_step s s'"
| exit: "current_process s = Some u \<Longrightarrow> k_get_process_by_pid p s = Some (Some a) \<Longrightarrow> p \<noteq> 1 \<Longrightarrow>
    pcbs s a = Some c \<Longrightarrow> state c \<noteq> PROCESS_ZOMBIED \<Longrightarrow>
    k_proc_exit (Some a) status s = Some (res, s') \<Longrightarrow> kernel_step s s'"
| stop: "current_process s = Some u \<Longrightarrow> pcbs s u = Some c \<Longrightarrow> state c = PROCESS_RUNNING \<Longrightarrow>
    k_get_process_by_pid p s = Some (Some a) \<Longrightarrow> k_stop_process (Some a) s = Some (r, s') \<Longrightarrow> kernel_step s s'"
| continue: "current_process s = Some u \<Longrightarrow> pcbs s u = Some c \<Longrightarrow> state c = PROCESS_RUNNING \<Longrightarrow>
    k_get_process_by_pid p s = Some (Some a) \<Longrightarrow> k_continue_process (Some a) s = Some (r, s') \<Longrightarrow> kernel_step s s'"
| nice: "current_process s = Some u \<Longrightarrow> pcbs s u = Some c \<Longrightarrow> state c = PROCESS_RUNNING \<Longrightarrow>
    k_get_process_by_pid p s = Some (Some a) \<Longrightarrow> k_set_priority (Some a) prio' s = Some (r, s') \<Longrightarrow> kernel_step s s'"
| wait: "current_process s = Some u \<Longrightarrow> pcbs s u = Some c \<Longrightarrow> state c = PROCESS_RUNNING \<Longrightarrow>
    k_waitpid p w nohang s = Some (wr, w', s') \<Longrightarrow> kernel_step s s'"
| sleep: "current_process s = Some u \<Longrightarrow> pcbs s u = Some c \<Longrightarrow> state c = PROCESS_RUNNING \<Longrightarrow>
    k_sleep (Some u) n s = Some (r, s') \<Longrightarrow> kernel_step s s'"
| resume: "current_process s = Some u \<Longrightarrow> pcbs s u = Some c \<Longrightarrow> state c = PROCESS_RUNNING \<Longrightarrow>
    k_resume_sleep (Some u) s = Some (b, s') \<Longrightarrow> kernel_step s s'"
| terminal: "k_tcsetpid p s = Some s' \<Longrightarrow> kernel_step s s'"
| logout: "kernel_step s (k_logout s)"
| logging: "kernel_step s (k_toggle_logging s)"
| fields: "pcbs s a = Some c \<Longrightarrow>
    kernel_step s (s\<lparr>pcbs := (pcbs s)(a \<mapsto> c\<lparr>process_fd_table := t, errnumber := e, ignore_sigint := b1, ignore_sigtstp := b2\<rparr>)\<rparr>)"
| log: "kernel_step s (log_at opn p n name s)"

inductive_cases kernel_stepE: "kernel_step s s'"

lemma resume_kinv:
  assumes k: "kinv s Q C i" and u: "current_process s = Some u"
    and c: "pcbs s u = Some c" "state c = PROCESS_RUNNING"
  shows "\<exists>b s' Q'. k_resume_sleep (Some u) s = Some (b, s') \<and> kinv s' Q' C i"
  using block_kinv [OF k u c] k c by (auto simp: k_resume_sleep_def)

lemma not_init:
  assumes k: "kinv s Q C i" and l: "k_get_process_by_pid p s = Some (Some a)" and p: "p \<noteq> 1"
  shows "a \<noteq> i"
  using k_get_process_by_pid_ok [OF k, of p] l p treeD(4) [OF kinvD(2) [OF k]] by auto

lemma spawn_kinv:
  assumes k: "kinv s Q C i" and u: "current_process s = Some u" and c: "pcbs s u = Some c" "state c = PROCESS_RUNNING"
    and m: "ce_pcb m = Some (a, junk)" "pcbs s a = None" "\<And>n. ce_node m = Some n \<Longrightarrow> fresh_node s n"
    and cnt: "process_count s < 2147483647" "prio < 3"
  shows "\<exists>r s'. k_proc_create m (Some u) args prio s = Some (r, s') \<and> kernel_inv s'"
proof -
  have n: "\<And>n. ce_node m = Some n \<Longrightarrow> n \<notin> nodes C (active Q)"
    using fresh_node_ok [OF treeD(1) [OF kinvD(2) [OF k]]] m(3) by blast
  show ?thesis
    using create_ok [OF k running_ready(4) [OF k u c] c(1) m(1,2) n cnt, of args] kernel_invI by (auto split: if_splits)
qed

lemma kinv_pcb:
  assumes k: "kinv s Q C i" and c: "pcbs s u = Some c"
    and f: "pid c' = pid c" "ppid c' = ppid c" "children c' = children c" "state c' = state c"
      "priority c' = priority c" "thread c' = thread c"
  shows "kinv (s\<lparr>pcbs := (pcbs s)(u \<mapsto> c')\<rparr>) Q C i"
proof -
  let ?s = "s\<lparr>pcbs := (pcbs s)(u \<mapsto> c')\<rparr>"
  have p': "pcbs ?s = (pcbs s)(u \<mapsto> c')" by simp
  have "sched_inv ?s Q"
    by (rule sched_inv_pcb [OF kinvD(1) [OF k] _ p' c]) (simp_all add: sched_inv_queues [OF kinvD(1) [OF k]] f)
  moreover have "tree ?s Q C i"
    by (rule tree_pcb [OF kinvD(2) [OF k] refl refl _ _ _ p' c]) (simp_all add: f)
  moreover have "same_procs Q s ?s" by (rule same_procs_upd [OF p' c]) (simp_all add: f)
  ultimately show ?thesis using kinv_move [OF k] by blast
qed

text \<open>A running process finds only queued processes.\<close>

lemma lookup_any:
  assumes k: "kinv s Q C i" and u: "current_process s = Some u" and c: "pcbs s u = Some c" "state c = PROCESS_RUNNING"
    and l: "k_get_process_by_pid p s = Some (Some a)"
  shows "a \<in> queued Q" "\<exists>d. pcbs s a = Some d \<and> pid d = p"
  using k_get_process_by_pid_ok [OF k, of p] l u running_ready(3) [OF k u c] by (auto simp: pid_at_def)

text \<open>Stopping any queued process, zombies included.\<close>

lemma stop_any_kinv:
  assumes k: "kinv s Q C i" and a: "a \<in> queued Q" and c: "pcbs s a = Some c"
  shows "\<exists>r s'. k_stop_process (Some a) s = Some (r, s') \<and> kernel_inv s'"
proof (cases "state c = PROCESS_ZOMBIED")
  case True
  then show ?thesis using k_stop_process_errors(2) [OF kinvD(1) [OF k] c True a] k by (auto simp: log_defs intro: kernel_invI)
next
  case False
  have "a \<in> active Q"
    using sched_inv_home [OF kinvD(1) [OF k] a c] False
    by (auto simp: active_def home_def split: process_state.splits intro: exI [of _ "home c"])
  then show ?thesis using stop_kinv [OF k _ c] by (auto intro: kernel_invI)
qed

lemma continue_any_kinv:
  assumes k: "kinv s Q C i" and a: "a \<in> queued Q" and c: "pcbs s a = Some c"
  shows "\<exists>r s'. k_continue_process (Some a) s = Some (r, s') \<and> kernel_inv s'"
proof (cases "state c = PROCESS_STOPPED")
  case True
  then have "a \<in> active Q"
    using sched_inv_home [OF kinvD(1) [OF k] a c] by (auto simp: active_def home_def intro: exI [of _ Stopped])
  then show ?thesis using continue_kinv [OF k _ c] by (auto intro: kernel_invI)
next
  case False
  then show ?thesis using k_continue_process_error [OF c] k by (auto intro: kernel_invI)
qed

lemma kernel_step_inv:
  assumes "kernel_step s s'" and "kernel_inv s"
  shows "kernel_inv s'"
proof -
  obtain Q C i where k: "kinv s Q C i" using assms(2) by (auto simp: kernel_inv_def)
  from assms(1) show ?thesis
  proof cases
    case (spawn u c m a junk prio args r)
    then show ?thesis using spawn_kinv [OF k spawn(1-8), of args] by simp
  next
    case (exit u p a c status res)
    then show ?thesis
      using exit_kinv [OF k lookup_queued(1) [OF k exit(2,4,5)] not_init [OF k exit(2,3)] exit(4,1), of status]
      by (auto intro: kernel_invI)
  next
    case (stop u c p a r)
    then show ?thesis using stop_any_kinv [OF k] lookup_any [OF k stop(1-4)] by force
  next
    case (continue u c p a r)
    then show ?thesis using continue_any_kinv [OF k] lookup_any [OF k continue(1-4)] by force
  next
    case (nice u c p a prio' r)
    obtain d where "pcbs s a = Some d" using lookup_any(2) [OF k nice(1-4)] by blast
    then show ?thesis
      using set_priority_kinv [OF k lookup_any(1) [OF k nice(1-4)], of d prio'] nice(5) by (auto intro: kernel_invI)
  next
    case (wait u c p w nohang wr w')
    then show ?thesis using waitpid_kinv [OF k wait(1-3), of p w nohang] by auto
  next
    case (sleep u c n r)
    show ?thesis
    proof (cases "n = 0")
      case True
      then show ?thesis using sleep(4) k by (auto simp: k_sleep_def intro: kernel_invI)
    next
      case False
      then show ?thesis using sleep_kinv [OF k sleep(1-3) False] sleep(4) by (auto intro: kernel_invI)
    qed
  next
    case (resume u c b)
    then show ?thesis using resume_kinv [OF k resume(1-3)] by (auto intro: kernel_invI)
  next
    case (terminal p)
    then show ?thesis
      using k by (auto simp: k_tcsetpid_def split: if_splits intro!: kernel_invI [of _ Q C i])
  next
    case logout
    then show ?thesis using k by (auto simp: k_logout_def intro!: kernel_invI [of _ Q C i])
  next
    case logging
    then show ?thesis using k by (auto simp: k_toggle_logging_def intro!: kernel_invI [of _ Q C i])
  next
    case (fields a c t e b1 b2)
    then show ?thesis using kinv_pcb [OF k fields(2)] by (auto intro!: kernel_invI [of _ Q C i])
  next
    case (log opn p n name)
    then show ?thesis using k by (auto intro!: kernel_invI [of _ Q C i])
  qed
qed

lemma kernel_step_cur: "kernel_step s s' \<Longrightarrow> kcur s' = kcur s"
  by (induction rule: kernel_step.induct)
    (simp_all add: k_proc_create_cur k_proc_exit_cur k_stop_process_cur k_continue_process_cur k_set_priority_cur
      k_waitpid_cur k_sleep_cur k_resume_sleep_cur k_tcsetpid_cur k_logout_def k_toggle_logging_def)

lemma spawn_status:
  assumes k: "kinv s Q C i" and u: "current_process s = Some u" and c: "pcbs s u = Some c" "state c = PROCESS_RUNNING"
    and m: "ce_pcb m = Some (a, junk)" "pcbs s a = None" "\<And>n. ce_node m = Some n \<Longrightarrow> fresh_node s n"
    and cnt: "process_count s < 2147483647" "prio < 3" and r: "k_proc_create m (Some u) args prio s = Some (r, s')"
    and ok: "status_ok s"
  shows "status_ok s'"
proof -
  have n: "\<And>n. ce_node m = Some n \<Longrightarrow> n \<notin> nodes C (active Q)"
    using fresh_node_ok [OF treeD(1) [OF kinvD(2) [OF k]]] m(3) by blast
  have o: "if launches m args then \<exists>n ca. spawned s C u c a ca n s' else pcbs s' = pcbs s"
    using create_ok [OF k running_ready(4) [OF k u c] c(1) m(1,2) n cnt, of args] r by (auto split: if_splits)
  show ?thesis
  proof (cases "launches m args")
    case True
    then obtain ch ca where "pcbs s' = (pcbs s)(u \<mapsto> c\<lparr>children := Some ch\<rparr>, a \<mapsto> ca)" "exit_status ca = 0"
      using o by (auto simp: spawned_def)
    then show ?thesis using ok c by (auto simp: status_ok_def)
  next
    case False
    then show ?thesis using o ok by (simp add: status_ok_def)
  qed
qed

lemma kernel_step_status:
  assumes "kernel_step s s'" and "kernel_inv s" and ok: "status_ok s"
  shows "status_ok s'"
proof -
  obtain Q C i where k: "kinv s Q C i" using assms(2) by (auto simp: kernel_inv_def)
  from assms(1) show ?thesis
  proof cases
    case (spawn u c m a junk prio args r)
    then show ?thesis using spawn_status [OF k spawn(1-9) ok] by simp
  next
    case (exit u p a c status res)
    obtain q where q: "valid_q q" "q \<noteq> Zombie" "a \<in> set (Q q)" using lookup_queued(1) [OF k exit(2,4,5)] by (rule activeE)
    obtain uc where uc: "pcbs s u = Some uc" using kinvD(3) [OF k exit(1)] by blast
    have "status_kept {a} s s'" "map_option state (pcbs s' a) = Some PROCESS_ZOMBIED"
      using k_proc_exit_ok [OF kinvD(1,2) [OF k] q not_init [OF k exit(2,3)] exit(4,1) uc refl refl, of status] exit(6) by auto
    then show ?thesis using status_ok_exit [OF ok] by blast
  next
    case (stop u c p a r)
    then show ?thesis using k_stop_process_kept [OF k] lookup_any [OF k stop(1-4)] status_ok_kept [OF ok] by blast
  next
    case (continue u c p a r)
    then show ?thesis using k_continue_process_kept [OF k] lookup_any [OF k continue(1-4)] status_ok_kept [OF ok] by blast
  next
    case (nice u c p a prio' r)
    then show ?thesis using k_set_priority_kept [OF k] lookup_any [OF k nice(1-4)] status_ok_kept [OF ok] by blast
  next
    case (wait u c p w nohang wr w')
    then show ?thesis using k_waitpid_kept [OF k wait] status_ok_kept [OF ok] by blast
  next
    case (sleep u c n r)
    then show ?thesis using k_sleep_kept [OF sleep(2) _ sleep(4)] status_ok_kept [OF ok] by simp
  next
    case (resume u c b)
    then show ?thesis using k_resume_sleep_kept [OF resume(2) _ resume(4)] status_ok_kept [OF ok] by simp
  next
    case (terminal p)
    then show ?thesis using ok by (auto simp: k_tcsetpid_def status_ok_def split: if_splits)
  qed (use ok in \<open>auto simp: status_ok_def k_logout_def k_toggle_logging_def\<close>)
qed

section \<open>Quanta\<close>

text \<open>
  A quantum: what the process does between two interruptions is a finite sequence of kernel
  calls, each of which is completed.
\<close>

abbreviation kernel_calls :: "kernel \<Rightarrow> kernel \<Rightarrow> bool" where
  "kernel_calls \<equiv> kernel_step\<^sup>*\<^sup>*"

definition makes_calls :: "(addr \<Rightarrow> kernel \<Rightarrow> kernel option) \<Rightarrow> bool" where
  "makes_calls run \<longleftrightarrow> (\<forall>a t. \<exists>t'. run a t = Some t' \<and> kernel_calls t t')"

lemma kernel_calls_inv: "kernel_calls s s' \<Longrightarrow> kernel_inv s \<Longrightarrow> kernel_inv s'"
  by (induction rule: rtranclp_induct) (auto intro: kernel_step_inv)

lemma kernel_calls_cur: "kernel_calls s s' \<Longrightarrow> kcur s' = kcur s"
  by (induction rule: rtranclp_induct) (auto dest: kernel_step_cur)

lemma kernel_calls_status: "kernel_calls s s' \<Longrightarrow> kernel_inv s \<Longrightarrow> status_ok s \<Longrightarrow> status_ok s'"
  by (induction rule: rtranclp_induct) (auto intro: kernel_step_status kernel_calls_inv)

text \<open>The simplest quantum: the process only computes.\<close>

definition compute :: "addr \<Rightarrow> kernel \<Rightarrow> kernel option" where
  "compute a t = Some t"

lemma compute_calls: "makes_calls compute"
  by (simp add: makes_calls_def compute_def)

section \<open>The scheduling step with its quantum\<close>

lemma run_process_ok:
  assumes k: "kinv s Q C i" and a: "a \<in> queued Q" and j: "j < 3" and g: "makes_calls run"
    and q: "quantum s < 2147483647"
  shows "\<exists>s'. run_process run j a s = Some s' \<and> kernel_inv s' \<and> current_process s' = Some a \<and> quantum s' = quantum s + 1 \<and>
    (status_ok s \<longrightarrow> status_ok s')"
proof -
  obtain c where c: "pcbs s a = Some c" "thread c"
    using kinvD(4) [OF k a] by (auto simp: ident_def)
  let ?s = "log_schedule (pid c) (int (priority c)) (name_or (command c)) (s\<lparr>current_process := Some a\<rparr>)"
  have ks: "kernel_inv ?s" using kinv_current [OF k a] by (auto simp: kernel_inv_def log_defs)
  obtain t where t: "run a ?s = Some t" "kernel_calls ?s t" using g by (auto simp: makes_calls_def)
  have ct: "current_process t = Some a" "quantum t = quantum s" using kernel_calls_cur [OF t(2)] by (auto simp: kcur_def log_defs)
  have kt: "kernel_inv t" using kernel_calls_inv [OF t(2) ks] .
  have st: "status_ok t" if "status_ok s"
    using kernel_calls_status [OF t(2) ks] that by (simp add: status_ok_def log_defs)
  let ?t = "t\<lparr>quantum := quantum t + 1\<rparr>"
  obtain Q' C' i' where k': "kinv ?t Q' C' i'" using kt by (auto simp: kernel_inv_def)
  obtain d where d: "pcbs t a = Some d" using kinvD(3) [OF k'] ct(1) by auto
  obtain s' Q'' where s': "q_rotate (Ready j) ?t = Some s'" "kinv s' Q'' C' i'" "q_core s' = q_core ?t"
    using rotate_kinv [OF k', of "Ready j"] j by auto
  note core = q_core_eqD(1,7,10) [OF s'(3)]
  show ?thesis
    using c t(1) ct d q s'(1) kernel_invI [OF k'] kernel_invI [OF s'(2)] core st
    by (auto simp: run_process_def Let_def status_ok_def)
qed

lemma skip_init_ok:
  assumes k: "kinv s Q C i" and j: "j < 3" and a: "a \<in> queued Q"
  shows "\<exists>s' Q'. skip_init j a s = Some s' \<and> kinv s' Q' C i \<and> q_core s' = q_core s \<and> (\<forall>q. set (Q' q) = set (Q q))"
proof -
  obtain c where c: "pcbs s a = Some c" using sched_inv_queued_alloc [OF kinvD(1) [OF k]] a by auto
  obtain s' where "q_rotate (Ready j) s = Some s'" "kinv s' (Q(Ready j := rotate1 (Q (Ready j)))) C i" "q_core s' = q_core s"
    using rotate_kinv [OF k, of "Ready j"] j by auto
  moreover have "set ((Q(Ready j := rotate1 (Q (Ready j)))) q) = set (Q q)" for q by simp
  ultimately show ?thesis using c k unfolding skip_init_def by (cases "pid c = 1 \<and> ll_head (zombie_queue s) = None \<and> shell_spawned s") auto
qed

text \<open>
  A scheduling step returns; unless no process is ready, the process that runs is one of the
  selected queue, and one quantum is counted.
\<close>

lemma run_next_process_ok:
  assumes k: "kinv s Q C i" and q: "0 \<le> quantum s" "quantum s < 2147483647" and g: "makes_calls run"
  shows "\<exists>s'. run_next_process run s = Some s' \<and> kernel_inv s' \<and> (status_ok s \<longrightarrow> status_ok s') \<and>
    (if selected (quantum s) (slept s Q) = -1 then quantum s' = quantum s
     else quantum s' = quantum s + 1 \<and>
       (\<exists>a. current_process s' = Some a \<and> a \<in> set (slept s Q (Ready (nat (selected (quantum s) (slept s Q)))))))"
proof -
  let ?Q = "slept s Q"
  obtain s1 where s1: "update_blocked_processes s = Some s1" "kinv s1 ?Q C i" "quantum s1 = quantum s" "status_kept {} s s1"
    using update_blocked_kinv [OF k] by auto
  obtain p where p: "k_get_process_by_pid 2 s1 = Some p" using k_get_process_by_pid_ok [OF s1(2)] by blast
  let ?s2 = "if shell_spawned s1 then s1 else s1\<lparr>shell_spawned := p \<noteq> None\<rparr>"
  have k2: "kinv ?s2 ?Q C i" and q2: "quantum ?s2 = quantum s" using s1(2,3) by auto
  have ok2: "status_ok ?s2" if "status_ok s" using status_ok_kept [OF that s1(4)] by (simp add: status_ok_def)
  note Q2 = sched_inv_queues [OF kinvD(1) [OF k2]]
  have sel: "select_next_queue ?s2 = Some (selected (quantum s) ?Q)"
    using select_next_queue_ok [OF Q2] q q2 by simp
  have pre: "run_next_process run s =
      (if selected (quantum s) ?Q = -1 then Some ?s2
       else do {
         let i = nat (selected (quantum s) ?Q);
         a \<leftarrow> ll_head (ready_queues ?s2 i);
         s \<leftarrow> skip_init i a ?s2;
         case ll_head (ready_queues s i) of None \<Rightarrow> Some s | Some a \<Rightarrow> run_process run i a s
       })"
    using s1(1) p sel by (cases "shell_spawned s1") (simp_all add: run_next_process_def)
  show ?thesis
  proof (cases "selected (quantum s) ?Q = -1")
    case True
    then show ?thesis using pre kernel_invI [OF k2] ok2 q2 by simp
  next
    case False
    then obtain j where j: "selected (quantum s) ?Q = int j" "j < 3" "?Q (Ready j) \<noteq> []"
      using selected_nonempty by blast
    then obtain a as where a: "?Q (Ready j) = a # as" by (cases "?Q (Ready j)") auto
    have aq: "a \<in> queued ?Q" using a j(2) by (auto simp: queued_def intro!: exI [of _ "Ready j"])
    obtain s3 Q3 where s3: "skip_init j a ?s2 = Some s3" "kinv s3 Q3 C i" "q_core s3 = q_core ?s2" "\<And>q. set (Q3 q) = set (?Q q)"
      using skip_init_ok [OF k2 j(2) aq] by auto
    have h2: "ll_head (ready_queues ?s2 j) = Some a" using ready_head [OF Q2 j(2)] a by simp
    obtain b bs where b: "Q3 (Ready j) = b # bs" using s3(4) [of "Ready j"] a by (cases "Q3 (Ready j)") auto
    have h3: "ll_head (ready_queues s3 j) = Some b"
      using ready_head [OF sched_inv_queues [OF kinvD(1) [OF s3(2)]] j(2)] b by simp
    have bq: "b \<in> queued Q3" "b \<in> set (?Q (Ready j))"
      using b j(2) s3(4) [of "Ready j"] by (auto simp: queued_def intro!: exI [of _ "Ready j"])
    have q3: "quantum s3 = quantum s" using q_core_eqD(10) [OF s3(3)] q2 by simp
    have ok3: "status_ok s3" if "status_ok s" using ok2 [OF that] q_core_eqD(1) [OF s3(3)] by (simp add: status_ok_def)
    obtain s' where s': "run_process run j b s3 = Some s'" "kernel_inv s'" "current_process s' = Some b"
      "quantum s' = quantum s + 1" "status_ok s \<longrightarrow> status_ok s'"
      using run_process_ok [OF s3(2) bq(1) j(2) g] q3 ok3 q(2) by auto
    have "run_next_process run s = Some s'" using pre False j(1) h2 s3(1) h3 s'(1) by simp
    then show ?thesis using s'(2-5) j(1) bq(2) by auto
  qed
qed

section \<open>Booting\<close>

text \<open>
  The state that \<open>init_scheduler\<close> leaves when the memory it gets is zero, and the creation of the
  first process. The code does not set \<open>init_process\<close>, \<open>current_process\<close> and \<open>process_count\<close>: with other
  contents of that memory \<open>k_proc_create\<close> may refuse to create \<open>init\<close>.
\<close>

lemma queues_init:
  "queues (snd (init_scheduler (Some (ini, cur, cnt)) s)) (\<lambda>_. [])"
proof -
  have "get_q q (snd (init_scheduler (Some (ini, cur, cnt)) s)) = linked_list_new True" for q
    by (cases q) (simp_all add: init_scheduler_def)
  then show ?thesis by (simp add: queues_def) (simp add: init_scheduler_def)
qed

lemma boot_kinv:
  assumes s: "s = snd (init_scheduler (Some (None, None, 0)) s0)" and m: "ce_pcb m = Some (a, junk)"
    and l: "launches m args" and prio: "prio < 3"
  shows "\<exists>s'. k_proc_create m None args prio s = Some (1, s') \<and>
    kinv s' ((\<lambda>_. [])(Ready prio := [a])) (\<lambda>_. []) a \<and>
    (\<exists>c. pcbs s' = (pcbs s)(a \<mapsto> c) \<and> exit_status c = 0)"
proof -
  let ?Q = "(\<lambda>_. []) :: queue_id \<Rightarrow> addr list"
  have f: "sched_live s" "init_process s = None" "current_process s = None" "process_count s = 0"
    using s by (auto simp: init_scheduler_def)
  obtain xs where xs: "duplicate_argv m args = Some xs" "xs = [] \<or> ce_command m"
    using l by (auto simp: launches_def split: option.splits)
  obtain n where n: "ce_node m = Some n" using l by (auto simp: launches_def)
  let ?cmd = "case xs of [] \<Rightarrow> None | x # _ \<Rightarrow> Some x"
  let ?c0 = "fresh_pcb junk 1 None prio"
  let ?c1 = "?c0\<lparr>children := Some (linked_list_new False), argv := Some xs, command := ?cmd, thread := True\<rparr>"
  let ?s1 = "s\<lparr>process_count := 1, pcbs := (pcbs s)(a \<mapsto> ?c0),
      plinks := set_next a None (set_prev a None (plinks s)), init_process := Some a\<rparr>"
  let ?s2 = "(log_create 1 (int prio) ?cmd (?s1\<lparr>pcbs := (pcbs s)(a \<mapsto> ?c1)\<rparr>))\<lparr>cprocess := (cprocess s)(n := a)\<rparr>"
  have "queues (s\<lparr>plinks := set_next a None (set_prev a None (plinks s))\<rparr>) ?Q"
    by (rule queues_links) (use queues_init s in \<open>auto simp: queued_def same_links_def\<close>)
  then have q2: "queues ?s2 ?Q" by (simp add: log_defs queues_def)
  have c2: "pcbs ?s2 a = Some ?c1" "priority ?c1 = prio" by (simp_all add: log_defs fresh_pcb_def)
  obtain s' where s': "k_add_to_ready_queue (Some a) ?s2 = Some (0, s')"
    "queues s' (?Q(Ready prio := [a]))"
    "q_core s' = q_core (?s2\<lparr>pcbs := (pcbs ?s2)(a \<mapsto> ?c1\<lparr>state := PROCESS_RUNNING\<rparr>)\<rparr>)"
    using k_add_to_ready_queue_ok [OF q2 _ c2(1)] c2(2) prio by (auto simp: queued_def)
  have "k_proc_create m None args prio s = Some (1, s')"
    using f m l xs n s'(1)
    by (simp add: k_proc_create_def launch_def launches_def Let_def attach_child_def inherit_fds_def
        upd_pcb_def log_defs log_at_def fresh_pcb_def)
  moreover have "\<exists>c. pcbs s' = (pcbs s)(a \<mapsto> c) \<and> exit_status c = 0"
    using q_core_eqD(1) [OF s'(3)] by (intro exI [of _ "?c1\<lparr>state := PROCESS_RUNNING\<rparr>"]) (simp add: fresh_pcb_def log_defs)
  moreover have "kinv s' (?Q(Ready prio := [a])) (\<lambda>_. []) a"
  proof -
    note core = q_core_eqD [OF s'(3)]
    let ?R = "?Q(Ready prio := [a])"
    have p: "pcbs s' a = Some (?c1\<lparr>state := PROCESS_RUNNING\<rparr>)" using core(1) by simp
    have mem: "x \<in> set (?R q) \<longleftrightarrow> x = a \<and> q = Ready prio" for x q by auto
    have qd: "queued ?R = {a}" "active ?R = {a}"
      using prio unfolding queued_def active_def mem by (auto intro!: exI [of _ "Ready prio"])
    have "sched_inv s' ?R"
      using s'(2) p mem qd(1) unfolding sched_inv_def by (simp add: fresh_pcb_def)
    moreover have "tree s' ?R (\<lambda>_. []) a"
      unfolding tree_def family_def qd using p core(6)
      by (simp add: nodes_def bij_betw_def pid_at_def fresh_pcb_def log_defs)
    ultimately show ?thesis
      using p core(7,8) f(3) qd by (simp add: kinv_def ident_def fresh_pcb_def log_defs)
  qed
  ultimately show ?thesis by blast
qed

end
