(* ===== verification/Kernel_Example.thy ===== *)
theory Kernel_Example
  imports Kernel_Run
begin

text \<open>
  A concrete kernel state on which the properties of the scheduler are evaluated: \<open>init\<close>, a shell
  that runs, and four children of the shell: one asleep, one exited, one stopped, one ready.
  \<open>demo_inv\<close> shows that it satisfies the kernel invariant.
\<close>

definition demo_pcb :: "int \<Rightarrow> int \<Rightarrow> llist \<Rightarrow> process_state \<Rightarrow> nat \<Rightarrow> double \<Rightarrow> pcb" where
  "demo_pcb p pp ch st prio sl =
     \<lparr>pid = p, ppid = pp, pgid = p, children = Some ch,
      process_fd_table = [std_entry 0 1, std_entry 1 0, std_entry 2 0] @
        replicate 125 \<lparr>pf_global_fd = 0, pf_offset = 0, pf_mode = 0, pf_in_use = False\<rparr>,
      state = st, waited_child = -2, ignore_sigint = False, ignore_sigtstp = False, errnumber = 0,
      priority = prio, sleep_time = sl, thread = True, command = Some (ascii ''p''),
      argv = Some [ascii ''p''], exit_status = 0\<rparr>"

definition demo_list :: "addr \<Rightarrow> addr \<Rightarrow> bool \<Rightarrow> llist" where
  "demo_list first lst dtor = \<lparr>ll_head = Some first, ll_tail = Some lst, ele_dtor = dtor\<rparr>"

definition demo :: kernel where
  "demo =
     \<lparr>pcbs = [1 \<mapsto> demo_pcb 1 1 (demo_list 102 102 False) PROCESS_RUNNING 0 0,
              2 \<mapsto> demo_pcb 2 1 (demo_list 103 106 False) PROCESS_RUNNING 0 0,
              3 \<mapsto> demo_pcb 3 2 (linked_list_new False) PROCESS_BLOCKED 1 (1 / 16),
              4 \<mapsto> demo_pcb 4 2 (linked_list_new False) PROCESS_ZOMBIED 1 0,
              5 \<mapsto> demo_pcb 5 2 (linked_list_new False) PROCESS_STOPPED 2 0,
              6 \<mapsto> demo_pcb 6 2 (linked_list_new False) PROCESS_RUNNING 1 0],
      plinks = \<lparr>l_prev = [2 \<mapsto> 1], l_next = [1 \<mapsto> 2], destroyed = []\<rparr>,
      cprocess = (\<lambda>n. n - 100),
      clinks = \<lparr>l_prev = [104 \<mapsto> 103, 105 \<mapsto> 104, 106 \<mapsto> 105],
                l_next = [103 \<mapsto> 104, 104 \<mapsto> 105, 105 \<mapsto> 106], destroyed = []\<rparr>,
      sched_live = True,
      ready_queues = (\<lambda>i. if i = 0 then demo_list 1 2 True else if i = 1 then demo_list 6 6 True
                          else linked_list_new True),
      blocked_queue = demo_list 3 3 True, zombie_queue = demo_list 4 4 True,
      stopped_queue = demo_list 5 5 True, ticks = 0, init_process = Some 1,
      current_process = Some 2, process_count = 6, terminal_controlling_pid = 2, quantum = 7,
      extra_logging_enabled = False, shell_spawned = True, logout_issued = False, klog = []\<rparr>"

fun demo_q :: "queue_id \<Rightarrow> addr list" where
  "demo_q (Ready i) = (if i = 0 then [1, 2] else if i = 1 then [6] else [])"
| "demo_q Blocked = [3]"
| "demo_q Zombie = [4]"
| "demo_q Stopped = [5]"

definition demo_c :: "addr \<Rightarrow> addr list" where
  "demo_c a = (if a = 1 then [102] else if a = 2 then [103, 104, 105, 106] else [])"

lemmas demo_defs = demo_pcb_def demo_list_def linked_list_new_def demo_def

lemma demo_valid: "valid_q q \<Longrightarrow> q \<in> {Ready 0, Ready 1, Ready 2, Blocked, Zombie, Stopped}"
  by (cases q) auto

lemma demo_queued: "queued demo_q = {1, 2, 3, 4, 5, 6}"
proof -
  have "{q. valid_q q} = {Ready 0, Ready 1, Ready 2, Blocked, Zombie, Stopped}"
    using demo_valid by auto
  then show ?thesis by (auto simp: queued_def)
qed

lemma demo_active: "active demo_q = {1, 2, 3, 5, 6}"
proof -
  have "{q. valid_q q} - {Zombie} = {Ready 0, Ready 1, Ready 2, Blocked, Stopped}"
    using demo_valid by auto
  then show ?thesis by (auto simp: active_def)
qed

lemma demo_queues: "queues demo demo_q"
proof -
  have "dll (get_q q demo, plinks demo) (demo_q q)" if "valid_q q" for q
    using demo_valid [OF that] by (auto simp: dll_def demo_defs)
  moreover have "q = r" if "valid_q q" "valid_q r" "a \<in> set (demo_q q)" "a \<in> set (demo_q r)" for q r a
    using demo_valid [OF that(1)] demo_valid [OF that(2)] that(3,4) by auto
  ultimately show ?thesis by (auto simp: queues_def demo_def)
qed

lemma demo_sched: "sched_inv demo demo_q"
proof -
  have "\<exists>c. pcbs demo a = Some c \<and> fits q c" if "valid_q q" "a \<in> set (demo_q q)" for q a
    using demo_valid [OF that(1)] that(2) by (auto simp: demo_defs)
  moreover have "inj_on (pid_at demo) (queued demo_q)"
    by (auto simp: demo_queued inj_on_def pid_at_def demo_defs)
  ultimately show ?thesis using demo_queues unfolding sched_inv_def by blast
qed

lemma demo_tree: "tree demo demo_q demo_c 1"
proof -
  have "family demo demo_c (active demo_q)"
    unfolding family_def demo_active by (auto simp: demo_c_def dll_def demo_defs)
  moreover have "nodes demo_c (active demo_q) = {102, 103, 104, 105, 106}"
    by (auto simp: nodes_def demo_active demo_c_def)
  moreover have "bij_betw (cprocess demo) {102, 103, 104, 105, 106} (queued demo_q - {1})"
    unfolding bij_betw_def demo_queued by (auto simp: inj_on_def demo_def)
  ultimately show ?thesis
    by (auto simp: tree_def demo_active demo_c_def ppid_at_def pid_at_def demo_defs)
qed

lemma demo_inv: "kinv demo demo_q demo_c 1"
  using demo_sched demo_tree
  by (auto simp: kinv_def demo_queued ident_def demo_defs)

lemma demo_current: "current_process demo = Some 2"
  by (simp add: demo_def)

lemma demo_pcbs:
  "pcbs demo 1 = Some (demo_pcb 1 1 (demo_list 102 102 False) PROCESS_RUNNING 0 0)"
  "pcbs demo 2 = Some (demo_pcb 2 1 (demo_list 103 106 False) PROCESS_RUNNING 0 0)"
  "pcbs demo 3 = Some (demo_pcb 3 2 (linked_list_new False) PROCESS_BLOCKED 1 (1 / 16))"
  "pcbs demo 4 = Some (demo_pcb 4 2 (linked_list_new False) PROCESS_ZOMBIED 1 0)"
  "pcbs demo 5 = Some (demo_pcb 5 2 (linked_list_new False) PROCESS_STOPPED 2 0)"
  "pcbs demo 6 = Some (demo_pcb 6 2 (linked_list_new False) PROCESS_RUNNING 1 0)"
  "a \<notin> {1, 2, 3, 4, 5, 6} \<Longrightarrow> pcbs demo a = None"
  by (simp_all add: demo_def)

end
