(* ===== verification/Kernel_Props.thy ===== *)
theory Kernel_Props
  imports Kernel_Example
begin

text \<open>
  The properties of the scheduler and of the process operations, stated over the queues \<open>Q\<close> and
  the children lists \<open>C\<close> that a state represents, each with an evaluation on the state \<open>demo\<close>.
\<close>

section \<open>Reachable states\<close>

text \<open>
  The boot rule takes the memory of the scheduler's state as zeroed: \<open>init_scheduler\<close> leaves three
  fields of it unset, and with other values in them there is no system to run: a pointer in \<open>init_process\<close> makes
  creating \<open>init\<close> fail, and a count other than 0 gives it an identifier other than 1. A scheduling round runs the chosen process for a quantum, in which it makes
  any finite sequence of kernel calls.
\<close>

inductive reachable :: "kernel \<Rightarrow> bool" where
  boot: "pcbs s0 = Map.empty \<Longrightarrow> ce_pcb m = Some (a, junk) \<Longrightarrow> launches m args \<Longrightarrow> prio < 3 \<Longrightarrow>
    k_proc_create m None args prio (snd (init_scheduler (Some (None, None, 0)) s0)) = Some (r, s) \<Longrightarrow>
    reachable s"
| call: "reachable s \<Longrightarrow> kernel_step s s' \<Longrightarrow> reachable s'"
| round: "reachable s \<Longrightarrow> makes_calls run \<Longrightarrow> 0 \<le> quantum s \<Longrightarrow> quantum s < 2147483647 \<Longrightarrow>
    run_next_process run s = Some s' \<Longrightarrow> reachable s'"

text \<open>
  C1: In every state that is reached from the boot of the system, with zeroed memory for the
  scheduler's state, by kernel calls of the running process and by scheduling rounds whose quanta are
  finite sequences of such calls, the kernel invariant holds: the six queues are well-formed and
  disjoint, each process is in the queue that its state and priority name, identifiers are
  unique, and every process except \<open>init\<close> is on exactly one children list, that of the process
  named by its \<open>ppid\<close>. Moreover only a zombie has an exit status other than 0. The calls are those of
  \<open>kernel_step\<close>, which excludes ending a zombie or \<open>init\<close>; fewer than \<open>2 ^ 31 - 1\<close> quanta have run.
\<close>

theorem reachable_kernel_inv: "reachable s \<Longrightarrow> kernel_inv s \<and> status_ok s"
proof (induction rule: reachable.induct)
  case (boot s0 m a junk args prio r s)
  obtain c where "kernel_inv s" "pcbs s = (pcbs (snd (init_scheduler (Some (None, None, 0)) s0)))(a \<mapsto> c)" "exit_status c = 0"
    using boot_kinv [OF refl boot(2-4), of s0] boot(5) by (auto intro: kernel_invI)
  then show ?case using boot(1) by (auto simp: status_ok_def init_scheduler_def)
next
  case (call s s')
  then show ?case using kernel_step_inv kernel_step_status by blast
next
  case (round s run s')
  then obtain Q C i where "kinv s Q C i" by (auto simp: kernel_inv_def)
  then show ?case using run_next_process_ok [of s Q C i run] round by auto
qed

definition demo_env :: "addr \<Rightarrow> create_env" where
  "demo_env a =
     \<lparr>ce_pcb = Some (a, demo_pcb 0 0 (linked_list_new False) PROCESS_RUNNING 0 0), ce_children = True,
      ce_argv = True, ce_strdup = (\<lambda>_. True), ce_command = True, ce_thread = True, ce_create = True,
      ce_node = Some (100 + a)\<rparr>"

lemma demo_launches: "launches (demo_env a) (Some [ascii ''p''])"
  by (simp add: launches_def demo_env_def duplicate_argv_def)

definition off_demo :: kernel where
  "off_demo = demo\<lparr>pcbs := Map.empty, quantum := 0\<rparr>"

definition boot_demo :: kernel where
  "boot_demo = snd (the (k_proc_create (demo_env 1) None (Some [ascii ''p'']) 0
     (snd (init_scheduler (Some (None, None, 0)) off_demo))))"

lemma boot_demo_reachable: "reachable boot_demo" "quantum boot_demo = 0"
proof -
  have e: "ce_pcb (demo_env 1) = Some (1, demo_pcb 0 0 (linked_list_new False) PROCESS_RUNNING 0 0)"
    by (simp add: demo_env_def)
  obtain s' where s': "k_proc_create (demo_env 1) None (Some [ascii ''p'']) 0
     (snd (init_scheduler (Some (None, None, 0)) off_demo)) = Some (1, s')"
    using boot_kinv [OF refl e demo_launches, of 0 off_demo] by auto
  have "pcbs off_demo = Map.empty" by (simp add: off_demo_def)
  from reachable.boot [OF this e demo_launches _ s'] show "reachable boot_demo" using s' by (simp add: boot_demo_def)
  show "quantum boot_demo = 0"
    using k_proc_create_cur [OF s'] s' by (simp add: kcur_def boot_demo_def init_scheduler_def off_demo_def)
qed

text \<open>A process that goes to sleep in its quantum.\<close>

definition nap :: "addr \<Rightarrow> kernel \<Rightarrow> kernel option" where
  "nap a t =
     (case pcbs t a of
        None \<Rightarrow> Some t
      | Some c \<Rightarrow>
          if current_process t = Some a \<and> state c = PROCESS_RUNNING
          then (case k_sleep (Some a) 5 t of None \<Rightarrow> Some t | Some (r, t) \<Rightarrow> Some t)
          else Some t)"

lemma nap_calls: "makes_calls nap"
proof -
  have "\<exists>t'. nap a t = Some t' \<and> kernel_calls t t'" for a t
    using kernel_step.sleep [of t a _ 5] by (auto simp: nap_def split: option.split)
  then show ?thesis by (simp add: makes_calls_def)
qed

theorem reachable_kernel_inv_witness:
  "\<exists>s. run_next_process nap boot_demo = Some s \<and> reachable s \<and> kernel_inv s \<and> status_ok s"
proof -
  obtain Q C i where "kinv boot_demo Q C i"
    using reachable_kernel_inv [OF boot_demo_reachable(1)] by (auto simp: kernel_inv_def)
  then obtain s where s: "run_next_process nap boot_demo = Some s"
    using run_next_process_ok [of boot_demo Q C i nap] nap_calls boot_demo_reachable(2) by auto
  then have "reachable s" using reachable.round [OF boot_demo_reachable(1) nap_calls] boot_demo_reachable(2) by simp
  then show ?thesis using s reachable_kernel_inv by blast
qed

section \<open>The calls return\<close>

text \<open>
  C2: In a state that satisfies the invariant no kernel call of the running process faults or
  loops: lookups, waits and their continuations, sleeps, creating a process (with an allocator
  that returns memory not in use), stopping, continuing and renicing any process that the lookup
  finds, and ending one that is neither a zombie nor \<open>init\<close>. For those two the call is excluded: on a
  zombie it corrupts the queue, and on \<open>init\<close> it walks the list that it appends to.
\<close>

theorem kernel_calls_return:
  assumes inv: "kernel_inv s" and u: "current_process s = Some u"
    and c: "pcbs s u = Some c" "state c = PROCESS_RUNNING"
  shows "(\<forall>p w nohang. \<exists>r. k_waitpid p w nohang s = Some r) \<and> (\<forall>w. \<exists>r. k_waitpid_resume None w s = Some r) \<and>
    (\<forall>b w. pcbs s b \<noteq> None \<longrightarrow> (\<exists>r. k_waitpid_resume (Some b) w s = Some r)) \<and>
    (\<forall>n. \<exists>r. k_sleep (Some u) n s = Some r) \<and>
    (\<exists>r. k_resume_sleep (Some u) s = Some r) \<and> (\<forall>p. \<exists>r. k_get_process_by_pid p s = Some r) \<and>
    (\<forall>m a junk args prio. ce_pcb m = Some (a, junk) \<longrightarrow> pcbs s a = None \<longrightarrow> (\<forall>n. ce_node m = Some n \<longrightarrow> fresh_node s n) \<longrightarrow>
       process_count s < 2147483647 \<longrightarrow> prio < 3 \<longrightarrow> (\<exists>r. k_proc_create m (Some u) args prio s = Some r)) \<and>
    (\<forall>p a. k_get_process_by_pid p s = Some (Some a) \<longrightarrow>
       (\<exists>r. k_stop_process (Some a) s = Some r) \<and> (\<exists>r. k_continue_process (Some a) s = Some r) \<and>
       (\<forall>prio. \<exists>r. k_set_priority (Some a) prio s = Some r) \<and>
       (p \<noteq> 1 \<longrightarrow> map_option state (pcbs s a) \<noteq> Some PROCESS_ZOMBIED \<longrightarrow> (\<forall>status. \<exists>r. k_proc_exit (Some a) status s = Some r)))"
proof -
  obtain Q C i where k: "kinv s Q C i" using inv by (auto simp: kernel_inv_def)
  have w: "\<exists>r. k_waitpid p w nohang s = Some r" for p w nohang using waitpid_kinv [OF k u c, of p w nohang] by blast
  moreover have "\<exists>r. k_waitpid_resume (Some b) w' s = Some r" if "pcbs s b \<noteq> None" for b w'
    using that w by (auto simp: k_waitpid_resume_def)
  moreover have "\<exists>r. k_waitpid_resume None w' s = Some r" for w' using w by (auto simp: k_waitpid_resume_def)
  moreover have "\<exists>r. k_sleep (Some u) n s = Some r" for n
    using sleep_kinv [OF k u c, of n] by (cases "n = 0") (auto simp: k_sleep_def)
  moreover have "\<exists>r. k_proc_create m (Some u) args prio s = Some r"
    if "ce_pcb m = Some (a, junk)" "pcbs s a = None" "\<forall>n. ce_node m = Some n \<longrightarrow> fresh_node s n" "process_count s < 2147483647" "prio < 3"
    for m a junk args prio
    using spawn_kinv [OF k u c that(1,2) _ that(4,5), of args] that(3) by blast
  moreover have "(\<exists>r. k_stop_process (Some a) s = Some r) \<and> (\<exists>r. k_continue_process (Some a) s = Some r) \<and>
       (\<forall>prio. \<exists>r. k_set_priority (Some a) prio s = Some r) \<and>
       (p \<noteq> 1 \<longrightarrow> map_option state (pcbs s a) \<noteq> Some PROCESS_ZOMBIED \<longrightarrow> (\<forall>status. \<exists>r. k_proc_exit (Some a) status s = Some r))"
    if l: "k_get_process_by_pid p s = Some (Some a)" for p a
  proof -
    obtain d where d: "pcbs s a = Some d" using lookup_any(2) [OF k u c l] by blast
    note aq = lookup_any(1) [OF k u c l]
    have "\<exists>r. k_proc_exit (Some a) status s = Some r" if "p \<noteq> 1" "state d \<noteq> PROCESS_ZOMBIED" for status
      using exit_kinv [OF k lookup_queued(1) [OF k l d that(2)] not_init [OF k l that(1)] d u, of status] by blast
    then show ?thesis
      using stop_any_kinv [OF k aq d] continue_any_kinv [OF k aq d] set_priority_kinv [OF k aq d] d by fastforce
  qed
  ultimately show ?thesis using resume_kinv [OF k u c] k_get_process_by_pid_ok [OF k] by blast
qed

theorem kernel_calls_return_witness:
  "(\<exists>r. k_waitpid (-1) None False demo = Some r) \<and> (\<exists>r. k_get_process_by_pid 5 demo = Some r)"
  using kernel_calls_return [OF kernel_invI [OF demo_inv] demo_current demo_pcbs(2)]
  by (simp add: demo_pcb_def)

text \<open>
  C3: A scheduling round returns, in a state that satisfies the invariant again: it finds every
  process it needs, whichever finite sequence of kernel calls the chosen process makes in its
  quantum, as long as these are calls of \<open>kernel_step\<close> (no zombie and not \<open>init\<close> is ended). The
  quantum counter must not be negative and must not overflow.
\<close>

theorem run_next_process_total:
  assumes "kernel_inv s" and "0 \<le> quantum s" and "quantum s < 2147483647" and "makes_calls run"
  shows "\<exists>s'. run_next_process run s = Some s' \<and> kernel_inv s'"
proof -
  obtain Q C i where "kinv s Q C i" using assms(1) by (auto simp: kernel_inv_def)
  from run_next_process_ok [OF this assms(2-4)] show ?thesis by blast
qed

theorem run_next_process_total_witness: "\<exists>s'. run_next_process nap demo = Some s' \<and> kernel_inv s'"
  by (rule run_next_process_total [OF kernel_invI [OF demo_inv] _ _ nap_calls]) (simp_all add: demo_def)

section \<open>Selection\<close>

text \<open>
  C4: \<open>_select_next_queue\<close> chooses the queue of the table \<open>process_to_run\<close> for this quantum if a
  process is ready there, otherwise the highest priority with a ready process, and returns -1
  exactly when no process is ready; it never chooses an empty queue.
\<close>

theorem select_next_queue_correct:
  assumes Q: "queues s Q" and q: "0 \<le> quantum s"
  shows "\<exists>r. select_next_queue s = Some r \<and>
    (if Q (Ready (process_to_run ! nat (quantum s mod 19))) \<noteq> []
     then r = int (process_to_run ! nat (quantum s mod 19))
     else if \<exists>i<3. Q (Ready i) \<noteq> []
     then 0 \<le> r \<and> r < 3 \<and> Q (Ready (nat r)) \<noteq> [] \<and> (\<forall>i. int i < r \<longrightarrow> Q (Ready i) = [])
     else r = -1)"
proof -
  have three: "(\<exists>i<3. Q (Ready i) \<noteq> []) \<longleftrightarrow> Q (Ready 0) \<noteq> [] \<or> Q (Ready 1) \<noteq> [] \<or> Q (Ready 2) \<noteq> []"
  proof -
    have "i < 3 \<longleftrightarrow> i = 0 \<or> i = 1 \<or> i = 2" for i :: nat by auto
    then show ?thesis by auto
  qed
  have below: "(\<forall>i. int i < 1 \<longrightarrow> Q (Ready i) = []) \<longleftrightarrow> Q (Ready 0) = []"
    "(\<forall>i. int i < 2 \<longrightarrow> Q (Ready i) = []) \<longleftrightarrow> Q (Ready 0) = [] \<and> Q (Ready 1) = []"
  proof -
    have "int i < 1 \<longleftrightarrow> i = 0" "int i < 2 \<longleftrightarrow> i = 0 \<or> i = 1" for i by auto
    then show "(\<forall>i. int i < 1 \<longrightarrow> Q (Ready i) = []) \<longleftrightarrow> Q (Ready 0) = []"
      "(\<forall>i. int i < 2 \<longrightarrow> Q (Ready i) = []) \<longleftrightarrow> Q (Ready 0) = [] \<and> Q (Ready 1) = []" by auto
  qed
  show ?thesis
    using select_next_queue_ok [OF Q q] three below by (simp add: selected_def turn_def)
qed

theorem select_next_queue_correct_witness: "select_next_queue demo = Some 0"
  using select_next_queue_correct [OF demo_queues] by (simp add: demo_def process_to_run_def)

section \<open>Looking up a process\<close>

text \<open>
  \<open>k_get_process_by_pid\<close> finds exactly the queued process with the given identifier, the
  zombies included, as long as the current process has not exited; it returns \<open>NULL\<close> exactly when
  there is none.
\<close>

theorem k_get_process_by_pid_correct:
  assumes k: "kinv s Q C i"
    and cur: "\<forall>u c. current_process s = Some u \<longrightarrow> pcbs s u = Some c \<longrightarrow> state c \<noteq> PROCESS_ZOMBIED"
  shows "\<exists>r. k_get_process_by_pid p s = Some r \<and>
    (\<forall>a. r = Some a \<longleftrightarrow> a \<in> queued Q \<and> map_option pid (pcbs s a) = Some p)"
proof -
  obtain r where r: "k_get_process_by_pid p s = Some r"
    "case r of None \<Rightarrow> \<forall>a\<in>queued Q. pid_at s a \<noteq> Some p
     | Some a \<Rightarrow> pid_at s a = Some p \<and> (a \<in> queued Q \<or> current_process s = Some a)"
    using k_get_process_by_pid_ok [OF k, of p] by blast
  have "u \<in> queued Q" if "current_process s = Some u" for u
    using kinvD(3) [OF k that] cur that by auto
  moreover have "a = b" if "a \<in> queued Q" "b \<in> queued Q" "pid_at s a = Some p" "pid_at s b = Some p" for a b
    using kinvD(1) [OF k] that unfolding sched_inv_def inj_on_def by auto
  ultimately show ?thesis
    using r by (auto simp: pid_at_def split: option.splits)
qed

theorem k_get_process_by_pid_correct_witness:
  "k_get_process_by_pid 4 demo = Some (Some 4) \<and> k_get_process_by_pid 9 demo = Some None"
proof -
  have cur: "\<forall>u c. current_process demo = Some u \<longrightarrow> pcbs demo u = Some c \<longrightarrow> state c \<noteq> PROCESS_ZOMBIED"
    by (auto simp: demo_defs)
  obtain r where r: "k_get_process_by_pid 4 demo = Some r"
    "\<forall>a. r = Some a \<longleftrightarrow> a \<in> queued demo_q \<and> map_option pid (pcbs demo a) = Some 4"
    using k_get_process_by_pid_correct [OF demo_inv cur, where p = 4] by blast
  obtain r' where r': "k_get_process_by_pid 9 demo = Some r'"
    "\<forall>a. r' = Some a \<longleftrightarrow> a \<in> queued demo_q \<and> map_option pid (pcbs demo a) = Some 9"
    using k_get_process_by_pid_correct [OF demo_inv cur, where p = 9] by blast
  have "r = Some 4" using r(2) by (simp add: demo_queued demo_pcbs demo_pcb_def)
  moreover have "r' = None"
  proof (cases r')
    case (Some a)
    then have "a \<in> {1, 2, 3, 4, 5, 6}" "map_option pid (pcbs demo a) = Some 9"
      using r'(2) demo_queued by auto
    then show ?thesis by (auto simp: demo_defs)
  qed simp
  ultimately show ?thesis using r(1) r'(1) by simp
qed

section \<open>Moves between the queues\<close>

text \<open>
  C35: \<open>k_stop_process\<close> on every branch. A ready or blocked process becomes stopped and goes to the
  end of the stopped queue; the first blocked process that waits for it, if any, becomes ready at
  the end of its priority's queue and gets the terminal if the stopped process had it. A stopped
  process is refused, and a zombie is refused because it is in no active queue.
\<close>

theorem k_stop_process_correct:
  assumes k: "kinv s Q C i" and a: "a \<in> queued Q" and c: "pcbs s a = Some c"
    and Q': "Q' = moveq a (home c) Stopped Q" and f: "found = find (waiting s C (pid c)) (Q' Blocked)"
  shows "\<exists>r s'. k_stop_process (Some a) s = Some (r, s') \<and>
    (case state c of
       PROCESS_STOPPED \<Rightarrow> r = E_STOP_STOPPED_PROCESS \<and> s' = s
     | PROCESS_ZOMBIED \<Rightarrow> r = E_STOP_NON_ACTIVE_QUEUE_PROCESS \<and> sched_inv s' Q
     | _ \<Rightarrow> r = 0 \<and> sched_inv s' (wake s found Q') \<and>
         terminal_controlling_pid s' =
           (if found \<noteq> None \<and> terminal_controlling_pid s = pid c then pid (the (pcbs s (the found)))
            else terminal_controlling_pid s))"
proof -
  note inv = kinvD(1) [OF k]
  note h = sched_inv_home [OF inv a c]
  note err = k_stop_process_errors [OF inv c]
  have main: "\<exists>s'. k_stop_process (Some a) s = Some (0, s') \<and> sched_inv s' (wake s found Q') \<and>
      terminal_controlling_pid s' =
        (if found \<noteq> None \<and> terminal_controlling_pid s = pid c then pid (the (pcbs s (the found)))
         else terminal_controlling_pid s)"
    if st: "state c = PROCESS_RUNNING \<or> state c = PROCESS_BLOCKED"
  proof -
    have ne: "home c \<noteq> Zombie" "home c \<noteq> Stopped" using st by (auto simp: home_def)
    let ?s = "(log_stopped (pid c) (int (priority c)) (name_or (command c)) s)
      \<lparr>pcbs := (pcbs s)(a \<mapsto> c\<lparr>state := PROCESS_STOPPED\<rparr>)\<rparr>"
    obtain s' where s': "k_stop_process (Some a) s = Some (0, s')" "sched_inv s' (wake s found Q')"
      "q_core s' = q_core (woken found (pid c) ?s)"
      using k_stop_process_ok [OF inv h(1) ne h(2) c family_blocked [OF k] Q' f] by blast
    have "b \<noteq> a" if "found = Some b" for b
      using find_SomeD [OF f [symmetric, unfolded that]] Q'
        moveq_member [OF sched_inv_queues [OF inv] h(1,2), of Blocked b Stopped] by auto
    then have "terminal_controlling_pid (woken found (pid c) ?s) =
        (if found \<noteq> None \<and> terminal_controlling_pid s = pid c then pid (the (pcbs s (the found)))
         else terminal_controlling_pid s)"
      by (cases found) (simp_all add: woken_def Let_def log_defs)
    then show ?thesis using s' q_core_eqD(9) [OF s'(3)] by simp
  qed
  show ?thesis
  proof (cases "state c")
    case PROCESS_ZOMBIED
    then show ?thesis using err(2) a inv by (simp add: log_defs)
  qed (use main err(1) in auto)
qed

theorem k_stop_process_correct_witness:
  "\<exists>s'. k_stop_process (Some 6) demo = Some (0, s') \<and>
     sched_inv s' (moveq 6 (Ready 1) Stopped demo_q) \<and> terminal_controlling_pid s' = 2"
proof -
  let ?c = "demo_pcb 6 2 (linked_list_new False) PROCESS_RUNNING 1 0"
  have h: "home ?c = Ready 1" "state ?c = PROCESS_RUNNING" "pid ?c = 6" by (simp_all add: home_def demo_pcb_def)
  have "find (waiting demo demo_c 6) (moveq 6 (Ready 1) Stopped demo_q Blocked) = None"
    by (simp add: moveq_def waiting_def demo_pcbs demo_pcb_def)
  then show ?thesis
    using k_stop_process_correct [OF demo_inv _ demo_pcbs(6) refl refl] h
    by (simp add: demo_queued wake_def demo_def)
qed

text \<open>
  \<open>k_continue_process\<close>: a stopped process becomes ready at the end of the queue of its
  priority, every other process is refused without effect. Stopping a ready process for which
  nobody waits and continuing it takes it to the end of its own queue.
\<close>

theorem k_continue_process_correct:
  assumes k: "kinv s Q C i" and a: "a \<in> queued Q" and c: "pcbs s a = Some c"
  shows "\<exists>r s'. k_continue_process (Some a) s = Some (r, s') \<and>
    (if state c = PROCESS_STOPPED
     then r = 0 \<and> sched_inv s' (moveq a Stopped (Ready (priority c)) Q) \<and>
          pcbs s' = (pcbs s)(a \<mapsto> c\<lparr>state := PROCESS_RUNNING\<rparr>)
     else r = E_CONTINUE_NON_STOPPED_PROCESS \<and> s' = s)"
proof (cases "state c = PROCESS_STOPPED")
  case True
  have "a \<in> set (Q Stopped)" using sched_inv_home [OF kinvD(1) [OF k] a c] True by (simp add: home_def)
  from k_continue_process_ok [OF kinvD(1) [OF k] this c] obtain s' where
    s': "k_continue_process (Some a) s = Some (0, s')" "sched_inv s' (moveq a Stopped (Ready (priority c)) Q)"
    "q_core s' = q_core ((log_continued (pid c) (int (priority c)) (name_or (command c)) s)
      \<lparr>pcbs := (pcbs s)(a \<mapsto> c\<lparr>state := PROCESS_RUNNING\<rparr>)\<rparr>)" by blast
  then show ?thesis using True q_core_eqD(1) [OF s'(3)] by (simp del: fun_upd_apply)
next
  case False
  then show ?thesis using k_continue_process_error [OF c] by simp
qed

theorem k_continue_process_correct_witness:
  "\<exists>s'. k_continue_process (Some 5) demo = Some (0, s') \<and>
     sched_inv s' (moveq 5 Stopped (Ready 2) demo_q)"
  using k_continue_process_correct [OF demo_inv _ demo_pcbs(5)]
  by (auto simp: demo_queued demo_pcb_def simp del: fun_upd_apply)

text \<open>
  \<open>k_set_priority\<close>: an invalid priority is refused without effect; otherwise the priority of
  the process is changed, a ready process moves to the end of its new queue (and stays in its
  place if the priority is the one it has), and a blocked, stopped or exited one stays where it
  is.
\<close>

theorem k_set_priority_correct:
  assumes k: "kinv s Q C i" and a: "a \<in> queued Q" and c: "pcbs s a = Some c"
  shows "if 0 \<le> p \<and> p \<le> 2
    then \<exists>s'. k_set_priority (Some a) p s = Some (0, s') \<and>
      pcbs s' = (pcbs s)(a \<mapsto> c\<lparr>priority := nat p\<rparr>) \<and>
      sched_inv s' (if state c = PROCESS_RUNNING \<and> priority c \<noteq> nat p
                    then moveq a (Ready (priority c)) (Ready (nat p)) Q else Q)
    else k_set_priority (Some a) p s = Some (E_INVALID_ARGUMENT, s)"
proof (cases "0 \<le> p \<and> p \<le> 2")
  case True
  then obtain s' where s': "k_set_priority (Some a) p s = Some (0, s')"
    "sched_inv s' (reprioritised a c (nat p) Q)"
    "q_core s' = q_core (s\<lparr>pcbs := (pcbs s)(a \<mapsto> c\<lparr>priority := nat p\<rparr>)\<rparr>)"
    using k_set_priority_ok [OF kinvD(1) [OF k] a c] by blast
  then show ?thesis
    using True q_core_eqD(1) [OF s'(3)] by (simp add: reprioritised_def del: fun_upd_apply)
next
  case False
  then show ?thesis by (auto simp: k_set_priority_def)
qed

theorem k_set_priority_correct_witness:
  "\<exists>s'. k_set_priority (Some 6) 0 demo = Some (0, s') \<and>
     sched_inv s' (moveq 6 (Ready 1) (Ready 0) demo_q)"
  using k_set_priority_correct [OF demo_inv _ demo_pcbs(6), of 0]
  by (auto simp: demo_queued demo_pcb_def simp del: fun_upd_apply)

section \<open>Sleeping\<close>

text \<open>
  C36: One round of \<open>_update_blocked_processes\<close>. Every sleeper up to the first one whose time runs
  out loses 0.1; that one becomes ready at the end of its priority's queue, and the processes
  behind it are not reached in this round: unblocking moves the process to the end of another
  queue, and the walk goes on from there. With no expiry, all blocked processes are reached.
\<close>

theorem update_blocked_processes_correct:
  assumes k: "kinv s Q C i" and us: "us = takeWhile (\<lambda>b. \<not> expires s b) (Q Blocked)"
    and rest: "Q Blocked = us @ vs"
  shows "\<exists>s'. update_blocked_processes s = Some s' \<and>
    (case vs of
       [] \<Rightarrow> sched_inv s' Q \<and> pcbs s' = pcbs (ticked (set us) s)
     | b # _ \<Rightarrow> \<exists>c. pcbs s b = Some c \<and> sched_inv s' (moveq b Blocked (Ready (priority c)) Q) \<and>
         pcbs s' = (pcbs (ticked (set us) s))(b \<mapsto> (tick c)\<lparr>state := PROCESS_RUNNING\<rparr>))"
proof -
  obtain s' where s': "update_blocked_processes s = Some s'" "sleep_round s (Q Blocked) Q s'"
    using update_blocked_ok [OF kinvD(1) [OF k]] by blast
  have n: "not_yet s (Q Blocked) = us" using us by (simp add: not_yet_def)
  have d: "drop (length us) (Q Blocked) = vs" using rest by simp
  show ?thesis
  proof (cases vs)
    case Nil
    then have r: "sched_inv s' Q" "q_core s' = q_core (ticked (set us) s)"
      using s'(2) n d by (simp_all add: sleep_round_def)
    then show ?thesis using s'(1) Nil q_core_eqD(1) [OF r(2)] by simp
  next
    case (Cons b ws)
    then obtain c where c: "pcbs s b = Some c" "sched_inv s' (moveq b Blocked (Ready (priority c)) Q)"
      "q_core s' = q_core ((log_unblocked (pid c) (int (priority c)) (name_or (command c)) (ticked (set us) s))
         \<lparr>pcbs := (pcbs (ticked (set us) s))(b \<mapsto> (tick c)\<lparr>state := PROCESS_RUNNING\<rparr>)\<rparr>)"
      using s'(2) n d by (auto simp: sleep_round_def Let_def)
    then show ?thesis using s'(1) Cons q_core_eqD(1) [OF c(3)] by (simp del: fun_upd_apply)
  qed
qed

lemma demo_expires: "expires demo 3"
proof -
  have "double_minus (1 / 16) double_tenth \<le> 0" by code_simp
  then show ?thesis by (simp add: expires_def demo_pcbs demo_pcb_def tick_def)
qed

theorem update_blocked_processes_correct_witness:
  "\<exists>s'. update_blocked_processes demo = Some s' \<and> sched_inv s' (moveq 3 Blocked (Ready 1) demo_q)"
  using update_blocked_processes_correct [OF demo_inv refl, of "[3]"] demo_expires demo_pcbs(3)
  by (auto simp: demo_pcb_def simp del: fun_upd_apply)

end
