(* ===== verification/Proc_Props.thy ===== *)
theory Proc_Props
  imports Kernel_Props
begin

text \<open>
  The properties of the life cycle of a process: creation, sleeping, exiting and waiting, stated
  over the queues \<open>Q\<close> and the children lists \<open>C\<close> that a state represents.
\<close>

section \<open>Creating a process\<close>

text \<open>
  C12: \<open>k_proc_create\<close> for a running parent. When every allocation and the thread creation
  succeed, the new process gets the next identifier, its parent's identifier as \<open>ppid\<close>, the given
  priority, a copy of its parent's descriptor table and no children; it stands at the end of the
  ready queue of its priority and at the end of its parent's children list, and the kernel
  invariant holds again. When one of them fails the call returns a negative code, and processes,
  queues and tree are as before. The allocator returns memory that is not in use, and fewer than
  \<open>2 ^ 31 - 1\<close> processes have been created.
\<close>

theorem k_proc_create_correct:
  assumes k: "kinv s Q C i" and u: "current_process s = Some u" "pcbs s u = Some uc" "state uc = PROCESS_RUNNING"
    and m: "ce_pcb m = Some (a, junk)" "pcbs s a = None" "\<And>n. ce_node m = Some n \<Longrightarrow> fresh_node s n"
    and cnt: "process_count s < 2147483647" and prio: "prio < 3"
  shows "\<exists>r s'. k_proc_create m (Some u) args prio s = Some (r, s') \<and>
    (if launches m args
     then r = int (process_count s) + 1 \<and> (\<exists>n c. ce_node m = Some n \<and>
       pcbs s' a = Some c \<and> pid c = r \<and> ppid c = pid uc \<and> priority c = prio \<and> state c = PROCESS_RUNNING \<and>
       process_fd_table c = process_fd_table uc \<and>
       kinv s' (Q(Ready prio := Q (Ready prio) @ [a])) (C(u := C u @ [n], a := [])) i)
     else r < 0 \<and> pcbs s' = pcbs s \<and> kinv s' Q C i)"
proof -
  have ua: "u \<in> active Q" using running_ready [OF k u] by simp
  have n: "n \<notin> nodes C (active Q)" if "ce_node m = Some n" for n
    using fresh_node_ok [OF treeD(1) [OF kinvD(2) [OF k]] m(3) [OF that]] .
  obtain r s' where r: "k_proc_create m (Some u) args prio s = Some (r, s')"
    "if launches m args
     then r = int (process_count s) + 1 \<and>
       (\<exists>n ca. ce_node m = Some n \<and> spawned s C u uc a ca n s' \<and> priority ca = prio \<and>
          kinv s' (Q(Ready prio := Q (Ready prio) @ [a])) (C(u := C u @ [n], a := [])) i)
     else r < 0 \<and> kinv s' Q C i \<and> pcbs s' = pcbs s"
    using create_ok [OF k ua u(2) m(1,2) n cnt prio] by blast
  have "pcbs s' a = Some ca \<and> pid ca = int (process_count s) + 1 \<and> ppid ca = pid uc \<and> state ca = PROCESS_RUNNING \<and>
      process_fd_table ca = process_fd_table uc" if "spawned s C u uc a ca n s'" for ca n
    using that by (auto simp: spawned_def)
  then show ?thesis using r by (cases "launches m args") (auto simp del: fun_upd_apply)
qed

lemma demo_fresh: "fresh_node demo 107"
proof -
  have "x \<noteq> 107" if "on_chain (clinks demo) p x" "p = None \<or> the p \<in> {102, 103, 104, 105, 106}" for p x
    using that by (induction "clinks demo" p x rule: on_chain.induct) (auto simp: demo_def split: if_splits)
  then show ?thesis
    unfolding fresh_node_def by (fastforce simp: demo_defs split: if_splits)
qed

theorem k_proc_create_correct_witness:
  "\<exists>s' c. k_proc_create (demo_env 7) (Some 2) (Some [ascii ''p'']) 1 demo = Some (7, s') \<and>
     pcbs s' 7 = Some c \<and> ppid c = 2 \<and> length (process_fd_table c) = 128 \<and>
     kinv s' (demo_q(Ready 1 := [6, 7])) (demo_c(2 := [103, 104, 105, 106, 107], 7 := [])) 1"
proof -
  have "ce_pcb (demo_env 7) = Some (7, demo_pcb 0 0 (linked_list_new False) PROCESS_RUNNING 0 0)"
    "ce_node (demo_env 7) = Some 107" by (simp_all add: demo_env_def)
  then show ?thesis
    using k_proc_create_correct [OF demo_inv demo_current demo_pcbs(2), of "demo_env 7" 7 _ 1 "Some [ascii ''p'']"]
      demo_fresh demo_launches [of 7] demo_pcbs(7) [of 7]
    by (auto simp: demo_pcb_def demo_def demo_c_def simp del: fun_upd_apply)
qed

section \<open>Exiting\<close>

text \<open>
  C13: \<open>k_proc_exit\<close> on a process that is not \<open>init\<close> and has not exited: it becomes a zombie with
  the given status at the end of the zombie queue; the first blocked process that waits for it
  becomes ready; its children are appended to those of \<open>init\<close>, with \<open>ppid\<close> 1. The thread ends
  exactly when the process is the current one. The kernel invariant holds again.
\<close>

theorem k_proc_exit_correct:
  assumes k: "kinv s Q C i" and q: "valid_q q" "q \<noteq> Zombie" "a \<in> set (Q q)" and ai: "a \<noteq> i"
    and c: "pcbs s a = Some c" and cur: "current_process s = Some u" "pcbs s u = Some uc"
  shows "\<exists>s' c'. k_proc_exit (Some a) status s =
      Some (if pid c = pid uc then Thread_exited else Returned 0, s') \<and>
    pcbs s' a = Some c' \<and> state c' = PROCESS_ZOMBIED \<and> exit_status c' = status \<and>
    kinv s' (wake s (find (waiting s C (pid c)) (moveq a q Zombie Q Blocked)) (moveq a q Zombie Q))
      (C(i := C i @ C a)) i"
proof -
  let ?Q = "moveq a q Zombie Q"
  let ?f = "find (waiting s C (pid c)) (?Q Blocked)"
  obtain s' c' where s': "k_proc_exit (Some a) status s =
      Some (if pid c = pid uc then Thread_exited else Returned 0, s')"
    "sched_inv s' (wake s ?f ?Q)" "tree s' (wake s ?f ?Q) (C(i := C i @ C a)) i" "same_procs Q s s'"
    "queued (wake s ?f ?Q) = queued Q"
    "pcbs s' a = Some c'" "state c' = PROCESS_ZOMBIED" "exit_status c' = status"
    using k_proc_exit_ok [OF kinvD(1,2) [OF k] q ai c cur refl refl, of status] by blast
  then show ?thesis using kinv_move [OF k s'(2-5)] by blast
qed

theorem k_proc_exit_correct_witness:
  "\<exists>s' c'. k_proc_exit (Some 6) 3 demo = Some (Returned 0, s') \<and> pcbs s' 6 = Some c' \<and>
     state c' = PROCESS_ZOMBIED \<and> exit_status c' = 3"
  using k_proc_exit_correct [OF demo_inv, of "Ready 1" 6, OF _ _ _ _ demo_pcbs(6) demo_current demo_pcbs(2), of 3]
  by (auto simp: demo_pcb_def)

section \<open>Waiting\<close>

text \<open>
  C14: \<open>k_waitpid\<close> by a running process, on every branch. Waiting for any child takes the first
  child on the list that has exited or stopped: a zombie is removed from the zombie queue and the
  children list and its identifier returned; for a stopped child the result is 0 and nothing
  changes, even when children behind it have exited; without such a child the result is -1 (no children), 0 (\<open>nohang\<close>), or
  the caller is blocked. Waiting for an identifier gives \<open>E_PID_NOT_FOUND\<close> when no process has
  it, -1 when that process is not a child of the caller, and otherwise does the same for that
  child. In each case the kernel invariant holds again.
\<close>

theorem k_waitpid_correct:
  assumes k: "kinv s Q C i" and cur: "current_process s = Some u"
    and c: "pcbs s u = Some c" "state c = PROCESS_RUNNING"
  shows "\<exists>r w' s'. k_waitpid p w nohang s = Some (r, w', s') \<and>
    (if p = -1 then wait_any_outcome u w nohang s Q C i r w' s'
     else \<exists>child. k_get_process_by_pid p s = Some child \<and>
            wait_pid_outcome u child w nohang s Q C i r w' s')"
proof -
  have cur': "k_get_current_process s = Some u"
    using cur queues_live [OF sched_inv_queues [OF kinvD(1) [OF k]]] by (simp add: k_get_current_process_def)
  obtain child where l: "k_get_process_by_pid p s = Some child"
    using k_get_process_by_pid_ok [OF k, of p] by blast
  show ?thesis
    using wait_any_ok [OF k cur c, of w nohang] wait_pid_ok [OF k cur c l, of w nohang] l cur'
    by (auto simp: k_waitpid_def)
qed

theorem k_waitpid_correct_witness:
  "\<exists>s'. k_waitpid (-1) (Some 0) True demo = Some (Wait_return 4, Some 1, s') \<and>
     kinv s' (demo_q(Zombie := [])) (demo_c(2 := [103, 105, 106])) 1"
proof -
  have f: "find (ended demo) (demo_c 2) = Some 104"
    by (simp add: demo_c_def ended_def demo_def demo_pcb_def)
  have e: "pcbs demo (cprocess demo 104) = Some (demo_pcb 4 2 (linked_list_new False) PROCESS_ZOMBIED 1 0)"
    "cprocess demo 104 = 4" by (simp_all add: demo_def)
  show ?thesis
    using k_waitpid_correct [OF demo_inv demo_current demo_pcbs(2), of "-1" "Some 0" True] f e
    by (auto simp: wait_any_outcome_def demo_pcb_def set_wstatus_def demo_c_def simp del: fun_upd_apply)
qed

section \<open>How long a sleep lasts\<close>

text \<open>The effect of \<open>k\<close> scheduling rounds on the blocked queue.\<close>

primrec blocked_rounds :: "nat \<Rightarrow> kernel \<Rightarrow> kernel option" where
  "blocked_rounds 0 s = Some s"
| "blocked_rounds (Suc k) s = do { s \<leftarrow> update_blocked_processes s; blocked_rounds k s }"

text \<open>
  One round for a sleeper with the processes \<open>us\<close> before it in the blocked queue: it is not
  reached because one of them is woken, it loses 0.1, or it is woken.
\<close>

lemma sleeper_round:
  assumes inv: "sched_inv s Q" and Q: "Q Blocked = us @ u # vs" and c: "pcbs s u = Some c" "sleep_time c > 0"
  shows "\<exists>s' Q'. update_blocked_processes s = Some s' \<and> sched_inv s' Q' \<and>
    ((\<exists>us' vs'. Q' Blocked = us' @ u # vs' \<and> length us' < length us \<and> pcbs s' u = Some c) \<or>
     (\<exists>vs'. Q' Blocked = us @ u # vs' \<and> sleep_time (tick c) > 0 \<and> pcbs s' u = Some (tick c)) \<or>
     (sleep_time (tick c) \<le> 0 \<and> u \<in> set (Q' (Ready (priority c)))))"
proof -
  obtain s' where s': "update_blocked_processes s = Some s'" "sleep_round s (Q Blocked) Q s'"
    using update_blocked_ok [OF inv] by blast
  have d: "distinct (us @ u # vs)" using queuesD(2) [OF sched_inv_queues [OF inv], of Blocked] Q by simp
  have e: "expires s u \<longleftrightarrow> sleep_time (tick c) \<le> 0" using c by (simp add: expires_def)
  have wake: "\<exists>c. pcbs s b = Some c \<and> sched_inv s' (moveq b Blocked (Ready (priority c)) Q) \<and>
      pcbs s' = (pcbs (ticked (set xs) s))(b \<mapsto> (tick c)\<lparr>state := PROCESS_RUNNING\<rparr>) \<and>
      moveq b Blocked (Ready (priority c)) Q Blocked = xs @ ys"
    if "Q Blocked = xs @ b # ys" "\<forall>x\<in>set xs. \<not> expires s x" "expires s b" for xs b ys
  proof -
    have n: "not_yet s (Q Blocked) = xs" using that by (simp add: not_yet_def takeWhile_tail)
    have "drop (length xs) (Q Blocked) = b # ys" using that(1) by simp
    then obtain c where c: "pcbs s b = Some c" "sched_inv s' (moveq b Blocked (Ready (priority c)) Q)"
      "q_core s' = q_core ((log_unblocked (pid c) (int (priority c)) (name_or (command c)) (ticked (set xs) s))
         \<lparr>pcbs := (pcbs (ticked (set xs) s))(b \<mapsto> (tick c)\<lparr>state := PROCESS_RUNNING\<rparr>)\<rparr>)"
      using s'(2) n by (auto simp: sleep_round_def Let_def)
    have "b \<notin> set xs" using d Q that(1) by (metis distinct_append disjoint_iff list.set_intros(1))
    then have "moveq b Blocked (Ready (priority c)) Q Blocked = xs @ ys" using that(1) by (simp add: moveq_def remove1_append)
    then show ?thesis using c q_core_eqD(1) [OF c(3)] by simp
  qed
  show ?thesis
  proof (cases "\<exists>b\<in>set us. expires s b")
    case True
    then obtain xs b ys where us: "us = xs @ b # ys" "expires s b" "\<forall>x\<in>set xs. \<not> expires s x"
      using split_list_first_prop [of us "expires s"] by blast
    obtain cb where b: "sched_inv s' (moveq b Blocked (Ready (priority cb)) Q)"
      "pcbs s' = (pcbs (ticked (set xs) s))(b \<mapsto> (tick cb)\<lparr>state := PROCESS_RUNNING\<rparr>)"
      "moveq b Blocked (Ready (priority cb)) Q Blocked = xs @ ys @ u # vs"
      using wake [of xs b "ys @ u # vs"] us Q by auto
    have "pcbs s' u = Some c" using b(2) d us(1) c(1) by (auto simp: ticked_def)
    moreover have "moveq b Blocked (Ready (priority cb)) Q Blocked = (xs @ ys) @ u # vs" "length (xs @ ys) < length us"
      using b(3) us(1) by simp_all
    ultimately show ?thesis using s'(1) b(1) by blast
  next
    case False
    show ?thesis
    proof (cases "expires s u")
      case True
      then obtain b where b: "sched_inv s' (moveq u Blocked (Ready (priority c)) Q)" using wake [of us u vs] Q False c(1) by auto
      have "u \<in> set (moveq u Blocked (Ready (priority c)) Q (Ready (priority c)))" by (simp add: moveq_def)
      then show ?thesis using s'(1) b True e by blast
    next
      case nu: False
      have t: "sleep_time (tick c) > 0" using nu e by simp
      show ?thesis
      proof (cases "\<exists>b\<in>set vs. expires s b")
        case True
        then obtain xs b ys where vs: "vs = xs @ b # ys" "expires s b" "\<forall>x\<in>set xs. \<not> expires s x"
          using split_list_first_prop [of vs "expires s"] by blast
        have "\<forall>x\<in>set (us @ u # xs). \<not> expires s x" using False nu vs(3) by auto
        then obtain cb where b: "sched_inv s' (moveq b Blocked (Ready (priority cb)) Q)"
          "pcbs s' = (pcbs (ticked (set (us @ u # xs)) s))(b \<mapsto> (tick cb)\<lparr>state := PROCESS_RUNNING\<rparr>)"
          "moveq b Blocked (Ready (priority cb)) Q Blocked = us @ u # xs @ ys"
          using wake [of "us @ u # xs" b ys] vs Q by auto
        have "pcbs s' u = Some (tick c)" using b(2) d vs(1) c(1) by (auto simp: ticked_def)
        then show ?thesis using s'(1) b(1,3) t by blast
      next
        case nv: False
        have n: "not_yet s (Q Blocked) = Q Blocked" using False nu nv Q by (auto simp: not_yet_def takeWhile_eq_all_conv)
        then have r: "sched_inv s' Q" "q_core s' = q_core (ticked (set (Q Blocked)) s)" using s'(2) by (simp_all add: sleep_round_def)
        have "pcbs s' u = Some (tick c)" using q_core_eqD(1) [OF r(2)] c Q by (simp add: ticked_def)
        then show ?thesis using s'(1) r(1) t Q by blast
      qed
    qed
  qed
qed

lemma sleeper_wakes:
  assumes "sched_inv s Q" and "Q Blocked = us @ u # vs" and "pcbs s u = Some c" and "sleep_time c > 0"
    and "countdown m (sleep_time c) \<le> 0" and "\<forall>j<m. countdown j (sleep_time c) > 0"
  shows "\<exists>k. m \<le> k \<and> k \<le> m + length us \<and>
    (\<forall>j<k. \<exists>t Q'. blocked_rounds j s = Some t \<and> sched_inv t Q' \<and> u \<in> set (Q' Blocked)) \<and>
    (\<exists>t Q'. blocked_rounds k s = Some t \<and> sched_inv t Q' \<and> u \<in> set (Q' (Ready (priority c))))"
  using assms
proof (induction "m + length us" arbitrary: s Q us vs c m rule: less_induct)
  case less
  have here: "\<exists>t Q'. blocked_rounds 0 s = Some t \<and> sched_inv t Q' \<and> u \<in> set (Q' Blocked)" using less.prems(1,2) by auto
  obtain s' Q' where s': "update_blocked_processes s = Some s'" "sched_inv s' Q'"
    and r: "(\<exists>us' vs'. Q' Blocked = us' @ u # vs' \<and> length us' < length us \<and> pcbs s' u = Some c) \<or>
     (\<exists>vs'. Q' Blocked = us @ u # vs' \<and> sleep_time (tick c) > 0 \<and> pcbs s' u = Some (tick c)) \<or>
     (sleep_time (tick c) \<le> 0 \<and> u \<in> set (Q' (Ready (priority c))))"
    using sleeper_round [OF less.prems(1-4)] by blast
  have t: "sleep_time (tick c) = double_minus (sleep_time c) double_tenth" using less.prems(4) by (simp add: tick_def)
  obtain m' where m: "m = Suc m'" using less.prems(4,5) by (cases m) auto
  have later: "\<exists>k. m \<le> k \<and> k \<le> m + length us \<and>
      (\<forall>j<k. \<exists>t Q'. blocked_rounds j s = Some t \<and> sched_inv t Q' \<and> u \<in> set (Q' Blocked)) \<and>
      (\<exists>t Q'. blocked_rounds k s = Some t \<and> sched_inv t Q' \<and> u \<in> set (Q' (Ready (priority c))))"
    if "m \<le> Suc k" "Suc k \<le> m + length us"
      "\<forall>j<k. \<exists>t Q'. blocked_rounds j s' = Some t \<and> sched_inv t Q' \<and> u \<in> set (Q' Blocked)"
      "\<exists>t Q'. blocked_rounds k s' = Some t \<and> sched_inv t Q' \<and> u \<in> set (Q' (Ready (priority c)))" for k
  proof (intro exI [of _ "Suc k"] conjI allI impI)
    fix j
    assume "j < Suc k"
    then show "\<exists>t Q'. blocked_rounds j s = Some t \<and> sched_inv t Q' \<and> u \<in> set (Q' Blocked)"
      using here that(3) s'(1) by (cases j) auto
  qed (use that s'(1) in auto)
  from r show ?case
  proof (elim disjE exE conjE)
    fix us' vs'
    assume a: "Q' Blocked = us' @ u # vs'" "length us' < length us" "pcbs s' u = Some c"
    obtain k where "m \<le> k" "k \<le> m + length us'"
      "\<forall>j<k. \<exists>t Q'. blocked_rounds j s' = Some t \<and> sched_inv t Q' \<and> u \<in> set (Q' Blocked)"
      "\<exists>t Q'. blocked_rounds k s' = Some t \<and> sched_inv t Q' \<and> u \<in> set (Q' (Ready (priority c)))"
      using less.hyps [OF _ s'(2) a(1,3) less.prems(4-6)] a(2) by auto
    then show ?thesis using later [of k] a(2) by simp
  next
    fix vs'
    assume a: "Q' Blocked = us @ u # vs'" "sleep_time (tick c) > 0" "pcbs s' u = Some (tick c)"
    have "countdown m' (sleep_time (tick c)) \<le> 0" "\<forall>j<m'. countdown j (sleep_time (tick c)) > 0"
      using less.prems(5,6) m t by auto
    then obtain k where "m' \<le> k" "k \<le> m' + length us"
      "\<forall>j<k. \<exists>t Q'. blocked_rounds j s' = Some t \<and> sched_inv t Q' \<and> u \<in> set (Q' Blocked)"
      "\<exists>t Q'. blocked_rounds k s' = Some t \<and> sched_inv t Q' \<and> u \<in> set (Q' (Ready (priority c)))"
      using less.hyps [OF _ s'(2) a(1,3,2), of m'] m by auto
    then show ?thesis using later [of k] m by simp
  next
    assume a: "sleep_time (tick c) \<le> 0" "u \<in> set (Q' (Ready (priority c)))"
    have "m' = 0" using less.prems(6) a(1) m t by (cases m') force+
    then show ?thesis using later [of 0] m s'(2) a(2) by auto
  qed
qed

text \<open>
  C15: A process that calls \<open>k_sleep\<close> for \<open>n\<close> ticks stays in the blocked queue for at least \<open>9 n\<close> and at
  most \<open>12 n + b\<close> calls of \<open>_update_blocked_processes\<close> and is ready after that, where \<open>b\<close> processes were
  blocked before it; the scheduler makes one such call in every round, and nothing else acts on the
  queues here. Subtracting the double \<open>0.1\<close> from \<open>n\<close> reaches a value \<open>\<le> 0\<close> after
  between \<open>9 n\<close> and \<open>12 n\<close> steps, for every unsigned 32-bit \<open>n\<close>, and a call that wakes a process before
  this one in the queue does not reach it.
\<close>

theorem sleep_duration:
  assumes k: "kinv s Q C i" and u: "current_process s = Some u"
    and c: "pcbs s u = Some c" "state c = PROCESS_RUNNING" and n: "0 < n" "n < 2 ^ 32"
  shows "\<exists>s1 k. k_sleep (Some u) n s = Some (0, s1) \<and> 9 * n \<le> k \<and> k \<le> 12 * n + length (Q Blocked) \<and>
    (\<forall>j<k. \<exists>t Q'. blocked_rounds j s1 = Some t \<and> sched_inv t Q' \<and> u \<in> set (Q' Blocked)) \<and>
    (\<exists>t Q'. blocked_rounds k s1 = Some t \<and> sched_inv t Q' \<and> u \<in> set (Q' (Ready (priority c))))"
proof -
  note ru = running_ready [OF k u c]
  let ?Q = "moveq u (Ready (priority c)) Blocked Q"
  let ?c = "c\<lparr>sleep_time := of_nat n, state := PROCESS_BLOCKED\<rparr>"
  obtain s1 where s1: "k_sleep (Some u) n s = Some (0, s1)" "sched_inv s1 ?Q"
    "q_core s1 = q_core ((log_blocked (pid c) (int (priority c)) (name_or (command c))
      (log_sleep (pid c) (int (priority c)) (name_or (command c)) s))\<lparr>pcbs := (pcbs s)(u \<mapsto> ?c)\<rparr>)"
    using k_sleep_ok [OF kinvD(1) [OF k] ru(1,2) c(1), of n] n(1) by auto
  have c1: "pcbs s1 u = Some ?c" using q_core_eqD(1) [OF s1(3)] by simp
  have Q1: "?Q Blocked = Q Blocked @ [u]" by (simp add: moveq_def)
  have x: "(0 :: rat) < of_nat n" "of_nat n \<le> (2 :: rat) ^ 32" "of_nat n \<le> (9 / 100 * of_nat (12 * n) :: rat)"
  proof -
    have "(of_nat n :: rat) \<le> of_nat (2 ^ 32)" using n(2) by (simp only: of_nat_le_iff)
    then show "of_nat n \<le> (2 :: rat) ^ 32" by simp
  qed (use n(1) in auto)
  obtain m where m: "m \<le> 12 * n" "countdown m (of_nat n) \<le> 0" "\<forall>j<m. countdown j (of_nat n) > 0"
    "of_nat n \<le> (11 / 100 * of_nat m :: rat)"
    using countdown_ends [OF x] by blast
  have "(of_nat (100 * n) :: rat) \<le> of_nat (11 * m)" using m(4) by simp
  then have "9 * n \<le> m" by (simp only: of_nat_le_iff)
  moreover obtain k where "m \<le> k" "k \<le> m + length (Q Blocked)"
    "\<forall>j<k. \<exists>t Q'. blocked_rounds j s1 = Some t \<and> sched_inv t Q' \<and> u \<in> set (Q' Blocked)"
    "\<exists>t Q'. blocked_rounds k s1 = Some t \<and> sched_inv t Q' \<and> u \<in> set (Q' (Ready (priority c)))"
    using sleeper_wakes [OF s1(2) _ c1, of "Q Blocked" "[]" m] Q1 m(2,3) n(1) by auto
  ultimately show ?thesis using s1(1) m(1) by (intro exI [of _ s1] exI [of _ k]) auto
qed

theorem sleep_duration_witness:
  "\<exists>s1 k. k_sleep (Some 2) 5 demo = Some (0, s1) \<and> 45 \<le> k \<and> k \<le> 61 \<and> blocked_rounds k s1 \<noteq> None"
proof -
  obtain s1 k where "k_sleep (Some 2) 5 demo = Some (0, s1)" "45 \<le> k" "k \<le> 61" "\<exists>t. blocked_rounds k s1 = Some t"
    using sleep_duration [OF demo_inv demo_current demo_pcbs(2), of 5] by (auto simp: demo_pcb_def)
  then show ?thesis by blast
qed

end
