(* ===== verification/Fairness.thy ===== *)
theory Fairness
  imports Proc_Props
begin

text \<open>
  How the scheduler divides the processor: the shares of the three priorities over 19 quanta, and
  fairness for processes that only compute. One round rotates the selected queue; every queue is
  selected at least once in 19 rounds; so a process at position \<open>p\<close> of its ready queue runs within
  \<open>19 * (p + 1)\<close> rounds, whatever its priority.
\<close>

section \<open>The table of turns\<close>

lemma turn_period: "turn (q + int k) = process_to_run ! ((nat (q mod 19) + k) mod 19)"
proof -
  have "(q + int k) mod 19 = (q mod 19 + int k) mod 19" by (simp add: mod_simps)
  moreover have "nat ((q mod 19 + int k) mod 19) = (nat (q mod 19) + k) mod 19"
    by (simp add: nat_mod_distrib nat_add_distrib)
  ultimately show ?thesis by (simp add: turn_def)
qed

lemma turns_count:
  "(length (filter (\<lambda>k. turn (q + int k) = 0) [0..<19]) = 9) \<and>
   (length (filter (\<lambda>k. turn (q + int k) = 1) [0..<19]) = 6) \<and>
   (length (filter (\<lambda>k. turn (q + int k) = 2) [0..<19]) = 4)"
proof -
  have all: "\<forall>r\<in>set [0..<19]. (length (filter (\<lambda>k. process_to_run ! ((r + k) mod 19) = 0) [0..<19]) = 9) \<and>
     (length (filter (\<lambda>k. process_to_run ! ((r + k) mod 19) = 1) [0..<19]) = 6) \<and>
     (length (filter (\<lambda>k. process_to_run ! ((r + k) mod 19) = 2) [0..<19]) = 4)"
    by code_simp
  have "nat (q mod 19) \<in> set [0..<19]" by (simp add: nat_less_iff)
  then show ?thesis using all by (simp add: turn_period)
qed

section \<open>Woken processes\<close>

text \<open>A round may put a woken process at the end of a ready queue.\<close>

lemma slept_ready: "\<exists>zs. slept s Q (Ready j) = Q (Ready j) @ zs"
  by (auto simp: slept_def moveq_def Let_def split: list.split)

lemma slept_priority:
  assumes k: "kinv s Q C i" and a: "a \<in> set (slept s Q (Ready j))" and j: "j < 3"
  shows "\<exists>c. pcbs s a = Some c \<and> priority c = j"
proof (cases "a \<in> set (Q (Ready j))")
  case True
  then show ?thesis using sched_inv_fits [OF kinvD(1) [OF k], of "Ready j" a] j by auto
next
  case False
  then obtain vs where vs: "drop (length (not_yet s (Q Blocked))) (Q Blocked) = a # vs" "priority (the (pcbs s a)) = j"
    using a by (auto simp: slept_def moveq_def Let_def split: list.split_asm if_split_asm)
  then have "a \<in> set (Q Blocked)" by (metis in_set_dropD list.set_intros(1))
  then show ?thesis using sched_inv_fits [OF kinvD(1) [OF k], of Blocked a] vs(2) by auto
qed

section \<open>Shares\<close>

text \<open>The priority that the process run in a step had before the step.\<close>

definition dispatched :: "kernel \<Rightarrow> kernel \<Rightarrow> nat option" where
  "dispatched s s' = do { a \<leftarrow> current_process s'; c \<leftarrow> pcbs s a; Some (priority c) }"

lemma step_serves:
  assumes inv: "kernel_inv s" and q: "0 \<le> quantum s" "quantum s < 2147483647" and g: "makes_calls run"
    and ready: "\<forall>i<3. ll_head (ready_queues s i) \<noteq> None" and r: "run_next_process run s = Some s'"
  shows "dispatched s s' = Some (turn (quantum s)) \<and> quantum s' = quantum s + 1 \<and> kernel_inv s'"
proof -
  obtain Q C i where k: "kinv s Q C i" using inv by (auto simp: kernel_inv_def)
  have "ll_head (ready_queues s (turn (quantum s))) \<noteq> None" using ready turn_less by blast
  then have "Q (Ready (turn (quantum s))) \<noteq> []"
    using ready_head [OF sched_inv_queues [OF kinvD(1) [OF k]] turn_less [of "quantum s"]] by auto
  then have sel: "selected (quantum s) (slept s Q) = int (turn (quantum s))"
    using slept_ready [of s Q "turn (quantum s)"] by (auto simp: selected_def)
  then obtain a where a: "kernel_inv s'" "quantum s' = quantum s + 1" "current_process s' = Some a"
    "a \<in> set (slept s Q (Ready (turn (quantum s))))"
    using run_next_process_ok [OF k q g] r by auto
  then show ?thesis using slept_priority [OF k a(4) turn_less] by (auto simp: dispatched_def)
qed

text \<open>
  C5: Take 19 consecutive scheduling steps, in each of which the chosen process makes any finite
  sequence of kernel calls in its quantum, such that before every step each of the three ready queues has
  a process. Then a process of priority 0 is run in exactly nine of them, one of priority 1 in six and one of
  priority 2 in four: each level gets 1.5 times the share of the next. (The first state satisfies
  the kernel invariant, and the quantum counter does not overflow.)
\<close>

theorem priority_shares:
  assumes inv: "kernel_inv (S 0)" and q: "0 \<le> quantum (S 0)" "quantum (S 0) + 19 \<le> 2147483647"
    and steps: "\<forall>k<19. makes_calls (run k) \<and> run_next_process (run k) (S k) = Some (S (Suc k))"
    and ready: "\<forall>k<19. \<forall>i<3. ll_head (ready_queues (S k) i) \<noteq> None"
  shows "length (filter (\<lambda>k. dispatched (S k) (S (Suc k)) = Some 0) [0..<19]) = 9 \<and>
    length (filter (\<lambda>k. dispatched (S k) (S (Suc k)) = Some 1) [0..<19]) = 6 \<and>
    length (filter (\<lambda>k. dispatched (S k) (S (Suc k)) = Some 2) [0..<19]) = 4"
proof -
  have st: "kernel_inv (S k) \<and> quantum (S k) = quantum (S 0) + int k" if "k \<le> 19" for k
    using that
  proof (induction k)
    case (Suc k)
    then show ?case using step_serves [of "S k" "run k" "S (Suc k)"] steps ready q by auto
  qed (simp add: inv)
  have d: "dispatched (S k) (S (Suc k)) = Some (turn (quantum (S 0) + int k))" if "k < 19" for k
    using step_serves [of "S k" "run k" "S (Suc k)"] st [of k] steps ready q that by auto
  have eq: "filter (\<lambda>k. dispatched (S k) (S (Suc k)) = Some v) [0..<19] =
      filter (\<lambda>k. turn (quantum (S 0) + int k) = v) [0..<19]" for v
    by (rule filter_cong) (auto simp: d)
  show ?thesis using eq [of 0] eq [of 1] eq [of 2] turns_count [of "quantum (S 0)"] by simp
qed

section \<open>One round\<close>

primrec rounds :: "(addr \<Rightarrow> kernel \<Rightarrow> kernel option) \<Rightarrow> nat \<Rightarrow> kernel \<Rightarrow> kernel option" where
  "rounds run 0 s = Some s"
| "rounds run (Suc k) s = do { s \<leftarrow> run_next_process run s; rounds run k s }"

lemma rounds_add: "rounds run (k + l) s = do { s \<leftarrow> rounds run k s; rounds run l s }"
proof (induction k arbitrary: s)
  case (Suc k)
  then show ?case by (cases "run_next_process run s") simp_all
qed simp

text \<open>What fairness needs of a state.\<close>

definition steady :: "kernel \<Rightarrow> (queue_id \<Rightarrow> addr list) \<Rightarrow> (addr \<Rightarrow> addr list) \<Rightarrow> addr \<Rightarrow> bool" where
  "steady s Q C i \<longleftrightarrow> kinv s Q C i \<and> 0 \<le> quantum s"

lemma run_compute:
  assumes k: "kinv s Q C i" and b: "Q (Ready j) = b # bs" and j: "j < 3" and q: "quantum s < 2147483647"
  shows "\<exists>s'. run_process compute j b s = Some s' \<and> kinv s' (Q(Ready j := bs @ [b])) C i \<and>
    current_process s' = Some b \<and> quantum s' = quantum s + 1"
proof -
  have bq: "b \<in> queued Q" using b j by (auto simp: queued_def intro!: exI [of _ "Ready j"])
  obtain c where c: "pcbs s b = Some c" "thread c" using kinvD(4) [OF k bq] by (auto simp: ident_def)
  have st: "state c = PROCESS_RUNNING"
    using sched_inv_fits [OF kinvD(1) [OF k], of "Ready j" b] b j c(1) by auto
  let ?t = "(log_schedule (pid c) (int (priority c)) (name_or (command c))
    (s\<lparr>current_process := Some b\<rparr>))\<lparr>quantum := quantum s + 1\<rparr>"
  have "kinv ?t Q C i" using kinv_current [OF k bq] by (simp add: log_defs)
  then obtain s' where s': "q_rotate (Ready j) ?t = Some s'" "kinv s' (Q(Ready j := rotate1 (Q (Ready j)))) C i"
    "q_core s' = q_core ?t"
    using rotate_kinv [of ?t Q C i "Ready j"] j by auto
  have "run_process compute j b s = Some s'"
    using c st s'(1) q by (simp add: run_process_def compute_def Let_def log_defs)
  then show ?thesis using s'(2) b q_core_eqD(7,10) [OF s'(3)] by (simp add: log_defs)
qed

lemma skip_init_cases:
  assumes k: "kinv s Q C i" and b: "Q (Ready j) = b # bs" and j: "j < 3"
  shows "\<exists>s'. skip_init j b s = Some s' \<and> quantum s' = quantum s \<and>
    (kinv s' Q C i \<or> (b = i \<and> kinv s' (Q(Ready j := bs @ [b])) C i))"
proof -
  have bq: "b \<in> queued Q" using b j by (auto simp: queued_def intro!: exI [of _ "Ready j"])
  obtain c where c: "pcbs s b = Some c" using sched_inv_queued_alloc [OF kinvD(1) [OF k]] bq by auto
  obtain s' where s': "q_rotate (Ready j) s = Some s'" "kinv s' (Q(Ready j := rotate1 (Q (Ready j)))) C i"
    "q_core s' = q_core s"
    using rotate_kinv [OF k, of "Ready j"] j by auto
  have "b = i" if "pid c = 1"
  proof -
    have "pid_at s b = pid_at s i" using treeD(4) [OF kinvD(2) [OF k]] c that by (auto simp: pid_at_def)
    moreover have "i \<in> queued Q" using treeD(3) [OF kinvD(2) [OF k]] active_sub by blast
    ultimately show ?thesis using kinvD(1) [OF k] bq by (auto simp: sched_inv_def dest: inj_onD)
  qed
  then show ?thesis using c s' b k q_core_eqD(10) [OF s'(3)] by (auto simp: skip_init_def)
qed

text \<open>
  A round in which only computing processes are involved: the first process of the selected queue
  runs, or the second one when the first is \<open>init\<close> and \<open>init\<close> is skipped.
\<close>

lemma compute_round:
  assumes st: "steady s Q C i" and q: "quantum s < 2147483647" and sel: "selected (quantum s) (slept s Q) = int j"
  shows "\<exists>s' ys. run_next_process compute s = Some s' \<and> steady s' ((slept s Q)(Ready j := rotate1 ys)) C i \<and>
    quantum s' = quantum s + 1 \<and> current_process s' = Some (hd ys) \<and>
    (ys = slept s Q (Ready j) \<or> ys = rotate1 (slept s Q (Ready j)) \<and> hd (slept s Q (Ready j)) = i)"
proof -
  let ?Q = "slept s Q"
  have k: "kinv s Q C i" and q0: "0 \<le> quantum s" using st by (auto simp: steady_def)
  obtain s1 where s1: "update_blocked_processes s = Some s1" "kinv s1 ?Q C i" "quantum s1 = quantum s"
    using update_blocked_kinv [OF k] by auto
  obtain p where p: "k_get_process_by_pid 2 s1 = Some p" using k_get_process_by_pid_ok [OF s1(2)] by blast
  let ?s2 = "if shell_spawned s1 then s1 else s1\<lparr>shell_spawned := p \<noteq> None\<rparr>"
  have k2: "kinv ?s2 ?Q C i" and q2: "quantum ?s2 = quantum s" using s1(2,3) by auto
  note Q2 = sched_inv_queues [OF kinvD(1) [OF k2]]
  obtain b bs where j: "j < 3" "?Q (Ready j) = b # bs"
    using selected_nonempty [of "quantum s" "?Q"] sel by (cases "?Q (Ready j)") auto
  obtain s3 where s3: "skip_init j b ?s2 = Some s3" "quantum s3 = quantum s"
    and c3: "kinv s3 ?Q C i \<or> b = i \<and> kinv s3 (?Q(Ready j := bs @ [b])) C i"
    using skip_init_cases [OF k2 j(2,1)] q2 by auto
  obtain ys where ys: "kinv s3 (?Q(Ready j := ys)) C i" "ys = ?Q (Ready j) \<or> ys = rotate1 (?Q (Ready j)) \<and> b = i"
    using c3 j(2) by (metis fun_upd_triv rotate1.simps(2))
  obtain x xs where x: "ys = x # xs" using ys(2) j(2) by (cases ys) auto
  obtain s' where s': "run_process compute j x s3 = Some s'"
    "kinv s' (?Q(Ready j := xs @ [x])) C i" "current_process s' = Some x" "quantum s' = quantum s + 1"
    using run_compute [OF ys(1) _ j(1), of x xs] x q s3(2) by auto
  have h2: "ll_head (ready_queues ?s2 j) = Some b" using ready_head [OF Q2 j(1)] j(2) by simp
  have h3: "ll_head (ready_queues s3 j) = Some x"
    using ready_head [OF sched_inv_queues [OF kinvD(1) [OF ys(1)]] j(1)] x by simp
  have "run_next_process compute s = Some s'"
    using s1(1) p h2 h3 s3(1) s'(1) select_next_queue_ok [OF Q2] q0 q2 sel
    by (cases "shell_spawned s1") (simp_all add: run_next_process_def)
  moreover have "steady s' ((slept s Q)(Ready j := rotate1 ys)) C i"
    using s'(2,4) x q0 by (simp add: steady_def)
  moreover have "current_process s' = Some (hd ys)" using s'(3) x by simp
  moreover have "ys = ?Q (Ready j) \<or> ys = rotate1 (?Q (Ready j)) \<and> hd (?Q (Ready j)) = i" using ys(2) j(2) by auto
  ultimately show ?thesis using s'(4) by blast
qed

text \<open>Queues that have a process keep one while the processes compute.\<close>

lemma rounds_ready:
  assumes "steady s Q C i" and "\<forall>j<3. Q (Ready j) \<noteq> []" and "quantum s + int k \<le> 2147483647"
  shows "\<exists>s' Q'. rounds compute k s = Some s' \<and> steady s' Q' C i \<and> (\<forall>j<3. Q' (Ready j) \<noteq> []) \<and>
    quantum s' = quantum s + int k"
  using assms
proof (induction k arbitrary: s Q)
  case (Suc k)
  have sl: "slept s Q (Ready j) \<noteq> []" if "j < 3" for j using slept_ready [of s Q j] Suc.prems(2) that by auto
  have sel: "selected (quantum s) (slept s Q) = int (turn (quantum s))"
    using sl [OF turn_less] by (simp add: selected_def)
  obtain s' ys where s': "run_next_process compute s = Some s'"
    "steady s' ((slept s Q)(Ready (turn (quantum s)) := rotate1 ys)) C i" "quantum s' = quantum s + 1"
    "ys = slept s Q (Ready (turn (quantum s))) \<or> ys = rotate1 (slept s Q (Ready (turn (quantum s))))"
    using compute_round [OF Suc.prems(1) _ sel] Suc.prems(3) by auto
  have "\<forall>j<3. ((slept s Q)(Ready (turn (quantum s)) := rotate1 ys)) (Ready j) \<noteq> []"
    using s'(4) sl sl [OF turn_less, of "quantum s"] by (metis fun_upd_def rotate1_is_Nil_conv)
  from Suc.IH [OF s'(2) this] show ?case using s'(1,3) Suc.prems(3) by auto
qed auto

lemma steady_heads:
  assumes "steady s Q C i" and "\<forall>j<3. Q (Ready j) \<noteq> []"
  shows "\<forall>j<3. ll_head (ready_queues s j) \<noteq> None"
proof (intro allI impI)
  fix j :: nat
  assume j: "j < 3"
  have "queues s Q" using assms(1) sched_inv_queues kinvD(1) unfolding steady_def by blast
  from ready_head [OF this j] show "ll_head (ready_queues s j) \<noteq> None"
    using assms(2) j by (cases "Q (Ready j)") auto
qed

theorem priority_shares_witness:
  "\<exists>s S. k_continue_process (Some 5) demo = Some (0, s) \<and> S = (\<lambda>k. the (rounds compute k s)) \<and>
     length (filter (\<lambda>k. dispatched (S k) (S (Suc k)) = Some 0) [0..<19]) = 9 \<and>
     length (filter (\<lambda>k. dispatched (S k) (S (Suc k)) = Some 2) [0..<19]) = 4"
proof -
  obtain s where s: "k_continue_process (Some 5) demo = Some (0, s)"
    "sched_inv s (moveq 5 Stopped (Ready 2) demo_q)"
    using k_continue_process_correct [OF demo_inv _ demo_pcbs(5)]
    by (auto simp: demo_queued demo_pcb_def simp del: fun_upd_apply)
  let ?S = "\<lambda>k. the (rounds compute k s)"
  obtain Q where Q: "kinv s Q demo_c 1" using continue_kinv [OF demo_inv _ demo_pcbs(5)] s(1) demo_active by auto
  have q: "quantum s = 7" using k_continue_process_cur [OF s(1)] by (simp add: kcur_def demo_def)
  have st: "steady s Q demo_c 1" using Q q by (simp add: steady_def)
  have "ll_head (ready_queues s j) \<noteq> None" if "j < 3" for j
    using ready_head [OF sched_inv_queues [OF s(2)] that] that by (auto simp: moveq_def)
  then have r: "\<forall>j<3. Q (Ready j) \<noteq> []"
    using ready_head [OF sched_inv_queues [OF kinvD(1) [OF Q]]] by fastforce
  have all: "\<exists>s' Q'. rounds compute k s = Some s' \<and> steady s' Q' demo_c 1 \<and> (\<forall>j<3. Q' (Ready j) \<noteq> []) \<and>
      quantum s' = 7 + int k" if "k \<le> 19" for k
    using rounds_ready [OF st r, of k] that q by auto
  have steps: "run_next_process compute (?S k) = Some (?S (Suc k))" if "k < 19" for k
  proof -
    obtain x y where xy: "rounds compute k s = Some x" "rounds compute (Suc k) s = Some y"
      using all [of k] all [of "Suc k"] \<open>k < 19\<close> by (metis Suc_leI less_imp_le)
    then have "run_next_process compute x = Some y"
      using rounds_add [of compute k 1 s] by (simp only: Suc_eq_plus1 [symmetric]) simp
    then show ?thesis using xy by (simp del: rounds.simps)
  qed
  have heads: "\<forall>i<3. ll_head (ready_queues (?S k) i) \<noteq> None" if "k < 19" for k
  proof -
    obtain s' Q' where "rounds compute k s = Some s'" "steady s' Q' demo_c 1" "\<forall>j<3. Q' (Ready j) \<noteq> []"
      using all [of k] \<open>k < 19\<close> by (metis less_imp_le)
    then show ?thesis using steady_heads by simp
  qed
  have "length (filter (\<lambda>k. dispatched (?S k) (?S (Suc k)) = Some 0) [0..<19]) = 9 \<and>
    length (filter (\<lambda>k. dispatched (?S k) (?S (Suc k)) = Some 1) [0..<19]) = 6 \<and>
    length (filter (\<lambda>k. dispatched (?S k) (?S (Suc k)) = Some 2) [0..<19]) = 4"
  proof (rule priority_shares)
    show "kernel_inv (?S 0)" "0 \<le> quantum (?S 0)" "quantum (?S 0) + 19 \<le> 2147483647"
      using kernel_invI [OF Q] q by simp_all
    show "\<forall>k<19. makes_calls compute \<and> run_next_process compute (?S k) = Some (?S (Suc k))"
      using steps compute_calls by blast
    show "\<forall>k<19. \<forall>i<3. ll_head (ready_queues (?S k) i) \<noteq> None" using heads by blast
  qed
  then show ?thesis using s(1) by blast
qed

section \<open>No ready process starves\<close>

text \<open>Serving the queue of \<open>a\<close> runs it or moves it towards the head.\<close>

lemma rotation_progress:
  assumes xs: "xs = us @ a # vs" and ys: "ys = xs \<or> ys = rotate1 xs \<and> hd xs = i" and ai: "a \<noteq> i"
  shows "hd ys = a \<or> (\<exists>us' vs'. rotate1 ys = us' @ a # vs' \<and> length us' < length us)"
proof (cases us)
  case Nil
  then show ?thesis using assms by auto
next
  case (Cons x us')
  show ?thesis
  proof (cases "ys = xs")
    case True
    then have "rotate1 ys = us' @ a # vs @ [x]" using xs Cons by simp
    then show ?thesis using Cons by fastforce
  next
    case False
    then have y: "ys = us' @ a # vs @ [x]" using ys xs Cons by simp
    show ?thesis
    proof (cases us')
      case Nil
      then show ?thesis using y by simp
    next
      case (Cons z us'')
      then have "rotate1 ys = us'' @ a # vs @ [x, z]" using y by simp
      then show ?thesis using \<open>us = x # us'\<close> Cons by fastforce
    qed
  qed
qed

definition closer :: "kernel \<Rightarrow> (addr \<Rightarrow> addr list) \<Rightarrow> addr \<Rightarrow> nat \<Rightarrow> addr \<Rightarrow> nat \<Rightarrow> bool" where
  "closer s C i j a n \<longleftrightarrow> current_process s = Some a \<or>
     (\<exists>Q us vs. steady s Q C i \<and> Q (Ready j) = us @ a # vs \<and> length us < n)"

lemma served:
  assumes st: "steady s Q C i" and q: "quantum s < 2147483647" and sel: "selected (quantum s) (slept s Q) = int j"
    and a: "slept s Q (Ready j) = us @ a # vs" "a \<noteq> i"
  shows "\<exists>s'. run_next_process compute s = Some s' \<and> quantum s' = quantum s + 1 \<and>
    closer s' C i j a (length us)"
proof -
  obtain s' ys where s': "run_next_process compute s = Some s'" "steady s' ((slept s Q)(Ready j := rotate1 ys)) C i"
    "quantum s' = quantum s + 1" "current_process s' = Some (hd ys)"
    "ys = slept s Q (Ready j) \<or> ys = rotate1 (slept s Q (Ready j)) \<and> hd (slept s Q (Ready j)) = i"
    using compute_round [OF st q sel] by blast
  have "((slept s Q)(Ready j := rotate1 ys)) (Ready j) = rotate1 ys" by simp
  then have "closer s' C i j a (length us)"
    unfolding closer_def using rotation_progress [OF a(1) s'(5) a(2)] s'(2,4) by metis
  then show ?thesis using s'(1,3) by blast
qed

text \<open>Within \<open>d + 1\<close> rounds the queue whose turn comes in \<open>d\<close> rounds has been served.\<close>

lemma window:
  assumes "steady s Q C i" and "turn (quantum s + int d) = j" and "j < 3"
    and "Q (Ready j) = us @ a # vs" and "a \<noteq> i" and "quantum s + int d < 2147483647"
  shows "\<exists>k s'. 0 < k \<and> k \<le> Suc d \<and> rounds compute k s = Some s' \<and> quantum s' = quantum s + int k \<and>
    closer s' C i j a (length us)"
  using assms
proof (induction d arbitrary: s Q vs)
  case 0
  obtain zs where z: "slept s Q (Ready j) = us @ a # vs @ zs" using slept_ready [of s Q j] "0.prems"(4) by auto
  then have "selected (quantum s) (slept s Q) = int j" using "0.prems"(2) by (simp add: selected_def)
  from served [OF "0.prems"(1) _ this z "0.prems"(5)] show ?case
    using "0.prems"(6) by (intro exI [of _ 1]) auto
next
  case (Suc d)
  obtain zs where z: "slept s Q (Ready j) = us @ a # vs @ zs" using slept_ready [of s Q j] Suc.prems(4) by auto
  have "j = 0 \<or> j = 1 \<or> j = 2" using Suc.prems(3) by auto
  then have "selected (quantum s) (slept s Q) \<noteq> -1" using z by (auto simp: selected_def)
  then obtain l where sel: "selected (quantum s) (slept s Q) = int l" using selected_nonempty by blast
  show ?case
  proof (cases "l = j")
    case True
    from served [OF Suc.prems(1) _ sel [unfolded True] z Suc.prems(5)] show ?thesis
      using Suc.prems(6) by (intro exI [of _ 1]) auto
  next
    case False
    obtain s' ys where s': "run_next_process compute s = Some s'"
      "steady s' ((slept s Q)(Ready l := rotate1 ys)) C i" "quantum s' = quantum s + 1"
      using compute_round [OF Suc.prems(1) _ sel] Suc.prems(6) by auto
    have t: "turn (quantum s' + int d) = j" "quantum s' + int d < 2147483647"
      using Suc.prems(2,6) s'(3) by (simp_all add: algebra_simps)
    have "((slept s Q)(Ready l := rotate1 ys)) (Ready j) = us @ a # vs @ zs" using z False by simp
    then obtain k s'' where r: "0 < k" "k \<le> Suc d" "rounds compute k s' = Some s''"
      "quantum s'' = quantum s' + int k" "closer s'' C i j a (length us)"
      using Suc.IH [OF s'(2) t(1) Suc.prems(3) _ Suc.prems(5) t(2)] by blast
    then show ?thesis using s'(1,3) by (intro exI [of _ "Suc k"] exI [of _ s'']) auto
  qed
qed

lemma turn_comes: "j < 3 \<Longrightarrow> \<exists>d<19. turn (q + int d) = j"
proof -
  assume "j < 3"
  then have "j = 0 \<or> j = 1 \<or> j = 2" by auto
  then have "filter (\<lambda>k. turn (q + int k) = j) [0..<19] \<noteq> []"
    using turns_count [of q] by (auto simp del: filter_empty_conv upt_Suc)
  then show ?thesis by (auto simp: filter_empty_conv simp del: upt_Suc)
qed

text \<open>
  C6: No ready process starves while the processes compute. From any state with the kernel
  invariant, sleepers and waiting processes included, and with the processes that are run making no
  kernel calls, a process other than \<open>init\<close> (which the scheduler skips) with \<open>p\<close> processes before it in
  its ready queue is run within \<open>19 * (p + 1)\<close> scheduling rounds, whatever its priority. (The quantum counter does
  not overflow.)
\<close>

theorem ready_process_runs:
  assumes k: "kinv s Q C i" and j: "j < 3"
    and a: "Q (Ready j) = us @ a # vs" "a \<noteq> i"
    and q: "0 \<le> quantum s" "quantum s + 19 * (int (length us) + 1) < 2147483647"
  shows "\<exists>k s'. 0 < k \<and> k \<le> 19 * (length us + 1) \<and> rounds compute k s = Some s' \<and>
    current_process s' = Some a"
proof -
  have "\<exists>k s'. 0 < k \<and> k \<le> 19 * (p + 1) \<and> rounds compute k s = Some s' \<and> current_process s' = Some a"
    if "steady s Q C i" "Q (Ready j) = us @ a # vs" "length us = p"
      "quantum s + 19 * (int p + 1) < 2147483647" for p s Q us vs
    using that
  proof (induction p arbitrary: s Q us vs rule: less_induct)
    case (less p)
    obtain d where d: "d < 19" "turn (quantum s + int d) = j" using turn_comes [OF j] by blast
    obtain k s' where s': "0 < k" "k \<le> Suc d" "rounds compute k s = Some s'" "quantum s' = quantum s + int k"
      "closer s' C i j a (length us)"
      using window [OF less.prems(1) d(2) j less.prems(2) a(2)] less.prems(4) d(1) by auto
    show ?case
    proof (cases "current_process s' = Some a")
      case True
      then show ?thesis using s'(1-3) d(1) by (intro exI [of _ k] exI [of _ s']) auto
    next
      case False
      then obtain Q' us' vs' where n: "steady s' Q' C i" "Q' (Ready j) = us' @ a # vs'" "length us' < p"
        using s'(5) less.prems(3) by (auto simp: closer_def)
      have "int k \<le> 19" "int (length us') + 1 \<le> int p" using s'(2) d(1) n(3) by simp_all
      then have "quantum s' + 19 * (int (length us') + 1) < 2147483647"
        using less.prems(4) s'(4) by (simp add: distrib_left)
      then obtain l t where t: "0 < l" "l \<le> 19 * (length us' + 1)" "rounds compute l s' = Some t"
        "current_process t = Some a"
        using less.IH [OF n(3) n(1,2) refl] by blast
      have "k + l \<le> 19 * (p + 1)" using s'(2) d(1) t(2) n(3) by simp
      then show ?thesis using t s'(1,3) by (intro exI [of _ "k + l"] exI [of _ t]) (simp add: rounds_add)
    qed
  qed
  from this [of s Q us vs "length us"] show ?thesis using k a(1) q by (auto simp: steady_def)
qed

theorem ready_process_runs_witness:
  "\<exists>k s'. k \<le> 19 \<and> rounds compute k demo = Some s' \<and> current_process s' = Some 6"
proof -
  have "demo_q (Ready 1) = [] @ 6 # []" by simp
  from ready_process_runs [OF demo_inv _ this] show ?thesis by (auto simp: demo_def)
qed

end
