(* ===== verification/Sys_Inv.thy ===== *)
theory Sys_Inv
  imports Syscalls Fairness
begin

text \<open>
  The system calls on processes keep the kernel invariant. The frame lemmas of \<open>Kernel_Frames\<close> say which
  operations leave the current process alone; \<open>kinv_pcb\<close> covers every change of a process control
  block that the queues and the tree do not depend on.
\<close>

section \<open>Changes that the invariant does not see\<close>

lemma kinv_live: "kinv s Q C i \<Longrightarrow> sched_live s"
  using queues_live [OF sched_inv_queues [OF kinvD(1)]] .

lemma kinv_get_current: "kinv s Q C i \<Longrightarrow> k_get_current_process s = current_process s"
  using kinv_live by (simp add: k_get_current_process_def)

lemma kinv_upd_pcb:
  assumes k: "kinv s Q C i" and c: "pcbs s u = Some c"
    and f: "pid (g c) = pid c" "ppid (g c) = ppid c" "children (g c) = children c" "state (g c) = state c"
      "priority (g c) = priority c" "thread (g c) = thread c"
  shows "\<exists>s'. upd_pcb u g s = Some s' \<and> kinv s' Q C i"
  using kinv_pcb [OF k c f] c by (simp add: upd_pcb_def)

text \<open>A failing call sets the error number and changes nothing else.\<close>

lemma fail_ok:
  assumes k: "kinv s Q C i" and u: "current_process s = Some u"
  shows "\<exists>s'. fail e s = Some (-1, s') \<and> kinv s' Q C i"
proof -
  obtain c where c: "pcbs s u = Some c" using kinvD(3) [OF k u] by blast
  obtain s' where "upd_pcb u (\<lambda>c. c\<lparr>errnumber := e\<rparr>) s = Some s'" "kinv s' Q C i"
    using kinv_upd_pcb [OF k c, of "\<lambda>c. c\<lparr>errnumber := e\<rparr>"] by auto
  then show ?thesis using u kinv_get_current [OF k] by (simp add: fail_def s_set_errno_def)
qed

lemma fail_inv:
  assumes "kernel_inv s" and "current_process s = Some u"
  shows "\<exists>s'. fail e s = Some (-1, s') \<and> kernel_inv s'"
  using fail_ok assms unfolding kernel_inv_def by meson

section \<open>Each call keeps the invariant\<close>

lemma s_tcsetpid_inv:
  assumes k: "kinv s Q C i" and u: "current_process s = Some u"
  shows "\<exists>r s'. s_tcsetpid p s = Some (r, s') \<and> kinv s' Q C i \<and> current_process s' = Some u \<and> pcbs s' u \<noteq> None \<and>
    map_option state (pcbs s' u) = map_option state (pcbs s u)"
proof -
  obtain c where c: "pcbs s u = Some c" using kinvD(3) [OF k u] by blast
  have t: "k_tcgetpid s = Some (terminal_controlling_pid s)" "k_tcsetpid p s = Some (s\<lparr>terminal_controlling_pid := p\<rparr>)"
    using kinv_live [OF k] by (simp_all add: k_tcgetpid_def k_tcsetpid_def)
  obtain s' where f: "fail E_TCSET_NO_TERMINAL_CONTROL s = Some (-1, s')" "kinv s' Q C i"
    using fail_ok [OF k u] by blast
  have s': "s' = s\<lparr>pcbs := (pcbs s)(u \<mapsto> c\<lparr>errnumber := E_TCSET_NO_TERMINAL_CONTROL\<rparr>)\<rparr>"
    using f(1) u c kinv_get_current [OF k] by (auto simp: fail_def s_set_errno_def upd_pcb_def)
  show ?thesis
    using t f c u k kinv_get_current [OF k] s'
    by (cases "terminal_controlling_pid s = pid c") (auto simp: s_tcsetpid_def)
qed

lemma wait_done_inv:
  assumes inv: "kernel_inv s" and u: "current_process s = Some u"
  shows "\<exists>r' s'. wait_done (r, w, s) = Some (r', w, s') \<and> kernel_inv s'"
proof (cases r)
  case (Wait_return v)
  obtain s' where "fail v s = Some (-1, s')" "kernel_inv s'" using fail_inv [OF assms] by blast
  then show ?thesis using Wait_return inv by (cases "v < 0") (auto simp: wait_done_def)
qed (simp add: wait_done_def inv)

lemma s_waitpid_inv:
  assumes k: "kinv s Q C i" and u: "current_process s = Some u"
    and c: "pcbs s u = Some c" "state c = PROCESS_RUNNING"
  shows "\<exists>r w' s'. s_waitpid p w nohang s = Some (r, w', s') \<and> kernel_inv s'"
proof -
  obtain s1 c1 where s1: "(if p \<noteq> -1 \<and> \<not> nohang then map_option snd (s_tcsetpid p s) else Some s) = Some s1"
    "kinv s1 Q C i" "current_process s1 = Some u" "pcbs s1 u = Some c1" "state c1 = PROCESS_RUNNING"
    using s_tcsetpid_inv [OF k u, of p] k u c by (cases "p \<noteq> -1 \<and> \<not> nohang") auto
  obtain r w' s2 where s2: "k_waitpid p w nohang s1 = Some (r, w', s2)" "kernel_inv s2"
    using waitpid_kinv [OF s1(2-5)] by blast
  have "current_process s2 = Some u" using k_waitpid_cur [OF s2(1)] s1(3) by (simp add: kcur_def)
  from wait_done_inv [OF s2(2) this] show ?thesis using s1(1) s2(1) by (fastforce simp: s_waitpid_def)
qed

lemma s_sleep_inv:
  assumes k: "kinv s Q C i" and u: "current_process s = Some u"
    and c: "pcbs s u = Some c" "state c = PROCESS_RUNNING"
  shows "\<exists>r s'. s_sleep n s = Some (r, s') \<and> kernel_inv s'"
proof (cases "n = 0")
  case True
  then show ?thesis using kernel_invI [OF k] by (simp add: s_sleep_def)
next
  case False
  obtain s' where "k_sleep (Some u) n s = Some (0, s')" "kernel_inv s'"
    using sleep_kinv [OF k u c False] by (auto intro: kernel_invI)
  then show ?thesis using False u kinv_get_current [OF k] by (simp add: s_sleep_def)
qed

section \<open>Signals, exit and priorities\<close>

text \<open>
  The target of a terminating signal must not be a zombie: \<open>k_proc_exit\<close> of a process that has exited
  breaks the zombie queue.
\<close>

definition live_target :: "int \<Rightarrow> kernel \<Rightarrow> bool" where
  "live_target p s \<longleftrightarrow>
     (\<forall>a c. k_get_process_by_pid p s = Some (Some a) \<longrightarrow> pcbs s a = Some c \<longrightarrow> state c \<noteq> PROCESS_ZOMBIED)"

abbreviation ends_target :: "int \<Rightarrow> bool" where
  "ends_target signal \<equiv> signal = P_SIGINT \<or> signal = P_SIGTERM"

text \<open>The variable \<open>success\<close> only ever gets the value false.\<close>

lemma kill_status_inv:
  assumes inv: "kernel_inv s" and u: "current_process s = Some u"
  shows "\<exists>s'. kill_status False r s = Some (Break False, s') \<and> kernel_inv s'"
proof (cases "r = 0")
  case True
  then show ?thesis using inv by (simp add: kill_status_def)
next
  case False
  obtain t where "fail r s = Some (-1, t)" "kernel_inv t" using fail_inv [OF assms] by blast
  then show ?thesis using False by (auto simp: kill_status_def fail_def bind_eq_Some_conv)
qed

lemma kill_term_inv:
  assumes k: "kinv s Q C i" and u: "current_process s = Some u"
    and a: "a \<in> active Q" "a \<noteq> i" and c: "pcbs s a = Some c"
  shows "\<exists>r s'. kill_term a False s = Some (r, s') \<and> kernel_inv s' \<and> r \<noteq> Break True"
proof -
  obtain r s1 where "k_proc_exit (Some a) 1 s = Some (r, s1)" "kernel_inv s1" "r = Thread_exited \<or> r = Returned 0"
    using exit_kinv [OF k a c u, of 1] kernel_invI by blast
  then show ?thesis by (auto simp: kill_term_def kill_status_def)
qed

lemma kill_other_inv:
  assumes k: "kinv s Q C i" and u: "current_process s = Some u"
    and a: "a \<in> queued Q" and c: "pcbs s a = Some c" and p: "pid c \<noteq> 1"
  shows "\<exists>r s'. kill_stop a False s = Some (r, s') \<and> kernel_inv s' \<and> r \<noteq> Break True"
    "\<exists>r s'. kill_cont a False s = Some (r, s') \<and> kernel_inv s' \<and> r \<noteq> Break True"
proof -
  obtain r s1 where st: "k_stop_process (Some a) s = Some (r, s1)" "kernel_inv s1"
    using stop_any_kinv [OF k a c] by blast
  have u1: "current_process s1 = Some u" using k_stop_process_cur [OF st(1)] u by (simp add: kcur_def)
  show "\<exists>r s'. kill_stop a False s = Some (r, s') \<and> kernel_inv s' \<and> r \<noteq> Break True"
    using st kill_status_inv [OF st(2) u1, of r] c p by (auto simp: kill_stop_def)
  obtain r s1 where co: "k_continue_process (Some a) s = Some (r, s1)" "kernel_inv s1"
    using continue_any_kinv [OF k a c] by blast
  have u1: "current_process s1 = Some u" using k_continue_process_cur [OF co(1)] u by (simp add: kcur_def)
  show "\<exists>r s'. kill_cont a False s = Some (r, s') \<and> kernel_inv s' \<and> r \<noteq> Break True"
    using co kill_status_inv [OF co(2) u1, of r] c p by (auto simp: kill_cont_def)
qed

lemma s_kill_inv:
  assumes k: "kinv s Q C i" and u: "current_process s = Some u" "pcbs s u = Some cu" "state cu = PROCESS_RUNNING"
    and t: "ends_target signal \<longrightarrow> live_target p s"
  shows "\<exists>r s'. s_kill p signal s = Some (r, s') \<and> kernel_inv s'"
proof -
  have f: "\<exists>r s'. map_option (apfst g) (fail e s) = Some (r, s') \<and> kernel_inv s' \<and> r = g (-1)" for e and g :: "int \<Rightarrow> 'a"
    using fail_ok [OF k u(1), of e] by (auto intro: kernel_invI)
  obtain child where l: "k_get_process_by_pid p s = Some child" using k_get_process_by_pid_ok [OF k] by blast
  show ?thesis
  proof (cases "child = None \<or> p = 1")
    case True
    then show ?thesis using l fail_ok [OF k u(1)] by (cases child) (fastforce simp: s_kill_def intro: kernel_invI)+
  next
    case False
    then obtain a where a: "child = Some a" by auto
    obtain c where c: "pcbs s a = Some c" "a \<in> queued Q" "pid c = p"
      using lookup_any [OF k u] l a by blast
    have live: "a \<in> active Q \<and> a \<noteq> i" if "ends_target signal"
    proof -
      have "state c \<noteq> PROCESS_ZOMBIED" using t that l a c(1) by (simp add: live_target_def)
      then show ?thesis using lookup_queued [OF k _ c(1)] not_init [OF k] l a False by simp
    qed
    let ?l = "log_signaled (pid c) (int (priority c)) (command c) s"
    have kl: "kinv ?l Q C i" "current_process ?l = Some u" "pcbs ?l a = Some c"
      using k u c by (simp_all add: log_defs)
    have "\<exists>r s'. kill_switch a signal False s = Some (r, s') \<and> kernel_inv s' \<and> r \<noteq> Break True"
      using live kill_other_inv [OF k u(1) c(2,1)] kill_term_inv [OF k u(1) _ _ c(1)] kill_term_inv [OF kl(1,2) _ _ kl(3)]
        c False f [of "\<lambda>r. Leave (Returned r)" E_INVALID_ARGUMENT] kernel_invI [OF k] kernel_invI [OF kl(1)]
      by (auto simp: kill_switch_def Let_def)
    then obtain r s' where "kill_switch a signal False s = Some (r, s')" "kernel_inv s'" "r \<noteq> Break True" by blast
    then show ?thesis using l a False by (auto simp: s_kill_def kill_return_def split: kill_flow.split)
  qed
qed

lemma s_nice_inv:
  assumes k: "kinv s Q C i" and u: "current_process s = Some u" "pcbs s u = Some cu" "state cu = PROCESS_RUNNING"
  shows "\<exists>r s'. s_nice p prio s = Some (r, s') \<and> kernel_inv s'"
proof -
  have f: "\<exists>r s'. fail e s = Some (r, s') \<and> kernel_inv s'" for e
    using fail_ok [OF k u(1), of e] by (auto intro: kernel_invI)
  obtain child where l: "k_get_process_by_pid p s = Some child" using k_get_process_by_pid_ok [OF k] by blast
  show ?thesis
  proof (cases "child = None \<or> prio < 0 \<or> prio > 2")
    case True
    then show ?thesis using l f by (cases child) (auto simp: s_nice_def)
  next
    case False
    then obtain a where a: "child = Some a" by auto
    obtain c where c: "pcbs s a = Some c" "a \<in> queued Q" using lookup_any [OF k u] l a by blast
    obtain s' where s': "k_set_priority (Some a) prio s = Some (0, s')"
      "q_core s' = q_core (s\<lparr>pcbs := (pcbs s)(a \<mapsto> c\<lparr>priority := nat prio\<rparr>)\<rparr>)"
      using k_set_priority_ok [OF kinvD(1) [OF k] c(2,1), of prio] False by auto
    have "kernel_inv s'" using set_priority_kinv [OF k c(2,1), of prio] s'(1) by (auto intro: kernel_invI)
    then have "kernel_inv (log_at x y z w s')" for x y z w by (simp add: kernel_inv_def)
    then show ?thesis using s'(1) q_core_eqD(1) [OF s'(2)] l a False by (simp add: s_nice_def log_defs)
  qed
qed

lemma s_exit_inv:
  assumes k: "kinv s Q C i" and u: "current_process s = Some u" "u \<noteq> i"
    and c: "pcbs s u = Some c" "state c = PROCESS_RUNNING"
  shows "\<exists>s'. s_exit status s = Some (Thread_exited, s') \<and> kernel_inv s'"
proof -
  obtain q where q: "valid_q q" "q \<noteq> Zombie" "u \<in> set (Q q)"
    using activeE [OF running_ready(4) [OF k u(1) c]] by blast
  have "\<exists>s'. k_proc_exit (Some u) status s = Some (Thread_exited, s')"
    using k_proc_exit_ok [OF kinvD(1,2) [OF k] q u(2) c(1) u(1) c(1) refl refl, of status] by auto
  then obtain s' where "k_proc_exit (Some u) status s = Some (Thread_exited, s')" by blast
  moreover then have "kernel_inv s'"
    using exit_kinv [OF k running_ready(4) [OF k u(1) c] u(2) c(1) u(1), of status] by (auto intro: kernel_invI)
  ultimately show ?thesis using u(1) kinv_get_current [OF k] by (simp add: s_exit_def)
qed

section \<open>Spawning\<close>

text \<open>The allocator returns memory that is not in use.\<close>

definition allocator_ok :: "create_env \<Rightarrow> kernel \<Rightarrow> bool" where
  "allocator_ok m s \<longleftrightarrow> (\<forall>a junk. ce_pcb m = Some (a, junk) \<longrightarrow> pcbs s a = None) \<and>
     (\<forall>n. ce_node m = Some n \<longrightarrow> fresh_node s n)"

lemma redirect_inv:
  assumes k: "kinv s Q C i" and a: "a \<in> queued Q" "pid_at s a = Some p"
  shows "\<exists>s'. redirect p fd e s = Some s' \<and> kinv s' Q C i \<and> pid_at s' = pid_at s"
proof -
  obtain b where b: "k_get_process_by_pid p s = Some (Some b)" "pid_at s b = Some p"
    using k_get_process_by_pid_ok [OF k, of p] a by (auto split: option.splits)
  then obtain d where d: "pcbs s b = Some d" by (auto simp: pid_at_def)
  obtain s' where "upd_pcb b (set_fd_entry fd e) s = Some s'" "kinv s' Q C i"
    using kinv_upd_pcb [OF k d, of "set_fd_entry fd e"] by (auto simp: set_fd_entry_def)
  moreover then have "pid_at s' = pid_at s"
    using d by (auto simp: upd_pcb_def pid_at_def set_fd_entry_def)
  ultimately show ?thesis using b(1) by (simp add: redirect_def)
qed

lemma s_spawn_inv:
  assumes k: "kinv s Q C i" and u: "current_process s = Some u" and c: "pcbs s u = Some c" "state c = PROCESS_RUNNING"
    and m: "allocator_ok m s" and cnt: "process_count s < 2147483647" "prio < 3"
    and tab: "length (process_fd_table c) = PROCESS_FD_TABLE_SIZE"
  shows "\<exists>r s'. s_spawn m args fd0 fd1 prio s = Some (r, s') \<and> kernel_inv s'"
proof (cases "ce_pcb m")
  case None
  then show ?thesis
    using fail_inv [OF kernel_invI [OF k] u, of E_FAILED_TO_ALLOCATE] kinv_live [OF k] u
    by (auto simp: s_spawn_def k_proc_create_def k_get_current_process_def)
next
  case (Some x)
  obtain a junk where a: "ce_pcb m = Some (a, junk)" using Some by (cases x) auto
  have f: "pcbs s a = None" "\<And>n. ce_node m = Some n \<Longrightarrow> n \<notin> nodes C (active Q)"
    using m a fresh_node_ok [OF treeD(1) [OF kinvD(2) [OF k]]] by (auto simp: allocator_ok_def)
  obtain r s1 where r: "k_proc_create m (Some u) args prio s = Some (r, s1)"
    and s1: "if launches m args
     then r = int (process_count s) + 1 \<and>
       (\<exists>n ca. ce_node m = Some n \<and> spawned s C u c a ca n s1 \<and> priority ca = prio \<and>
          kinv s1 (Q(Ready prio := Q (Ready prio) @ [a])) (C(u := C u @ [n], a := [])) i)
     else r < 0 \<and> kinv s1 Q C i \<and> pcbs s1 = pcbs s"
    using create_ok [OF k running_ready(4) [OF k u c] c(1) a f cnt, of args] by blast
  have u1: "current_process s1 = Some u" using k_proc_create_cur [OF r] u by (simp add: kcur_def)
  show ?thesis
  proof (cases "launches m args")
    case False
    then have "r < 0" "kernel_inv s1" using s1 by (auto intro: kernel_invI)
    then show ?thesis using r fail_inv [OF _ u1, of r] u kinv_get_current [OF k] by (auto simp: s_spawn_def)
  next
    case True
    then obtain n ca where sp: "spawned s C u c a ca n s1" "r = int (process_count s) + 1"
      and k1: "kinv s1 (Q(Ready prio := Q (Ready prio) @ [a])) (C(u := C u @ [n], a := [])) i" (is "kinv s1 ?Q ?C i")
      using s1 by auto
    have "u \<noteq> a" using c(1) f(1) by auto
    then obtain ch where pu: "pcbs s1 u = Some (c\<lparr>children := Some ch\<rparr>)" "pid_at s1 a = Some r"
      using sp by (auto simp: spawned_def pid_at_def)
    have "a \<in> queued ?Q" using cnt(2) by (auto simp: queued_def intro!: exI [of _ "Ready prio"])
    from redirect_inv [OF k1 this] have rd: "\<exists>s2. redirect r 0 e s1 = Some s2 \<and> (\<exists>s3. redirect r 1 e' s2 = Some s3 \<and> kernel_inv s3)" for e e'
      using redirect_inv [of _ ?Q ?C i a r 1 e'] pu(2) \<open>a \<in> queued ?Q\<close> by (metis kernel_invI)
    have fl: "\<exists>r' s'. fail e s1 = Some (r', s') \<and> kernel_inv s'" for e using fail_inv [OF kernel_invI [OF k1] u1] by blast
    have "0 \<le> r" using sp(2) by simp
    then show ?thesis
      using r u kinv_get_current [OF k] fl [of E_INVALID_ARGUMENT] pu(1) tab
        rd [of "process_fd_table c ! nat fd0" "process_fd_table c ! nat fd1"]
      by (auto simp: s_spawn_def fd_entry_def)
  qed
qed

lemma s_waitpid_resume_inv:
  assumes k: "kinv s Q C i" and u: "current_process s = Some u"
    and c: "pcbs s u = Some c" "state c = PROCESS_RUNNING" and b: "\<forall>b. child = Some b \<longrightarrow> pcbs s b \<noteq> None"
  shows "\<exists>r w' s'. s_waitpid_resume child w s = Some (r, w', s') \<and> kernel_inv s'"
proof -
  obtain p w0 where p: "k_waitpid_resume child w s = k_waitpid p w0 False s"
    using b by (cases child) (auto simp: k_waitpid_resume_def)
  obtain r w' s2 where s2: "k_waitpid p w0 False s = Some (r, w', s2)" "kernel_inv s2"
    using waitpid_kinv [OF k u c] by blast
  have "current_process s2 = Some u" using k_waitpid_cur [OF s2(1)] u by (simp add: kcur_def)
  from wait_done_inv [OF s2(2) this] show ?thesis using p s2(1) by (fastforce simp: s_waitpid_resume_def)
qed

end
