(* ===== verification/List_Walks.thy ===== *)
theory List_Walks
  imports Linked_List
begin

text \<open>
  Lists whose backward links or tail are wrong. The code walks a list from its head along the
  forward links, so \<open>walk\<close> says which elements it meets on any heap; on a well-formed list
  these are all its elements.
\<close>

section \<open>What a walk meets\<close>

primrec walk :: "links \<Rightarrow> addr option \<Rightarrow> addr list \<Rightarrow> bool" where
  "walk h p [] \<longleftrightarrow> p = None"
| "walk h p (x # xs) \<longleftrightarrow> p = Some x \<and> walk h (l_next h x) xs"

lemma walk_unique: "walk h p xs \<Longrightarrow> walk h p ys \<Longrightarrow> xs = ys"
proof (induction xs arbitrary: p ys)
  case Nil
  then show ?case by (cases ys) auto
next
  case (Cons x xs)
  then show ?case by (cases ys) auto
qed

lemma dseg_walk: "dseg h p xs None \<Longrightarrow> walk h (hd_opt xs None) xs"
  by (induction xs arbitrary: p) auto

lemma dll_walk: "dll (self, h) xs \<Longrightarrow> walk h (ll_head self) xs"
  using dseg_walk by (auto simp: dll_def)

lemma walk_cong: "(\<And>x. x \<in> set xs \<Longrightarrow> l_next h' x = l_next h x) \<Longrightarrow> walk h' p xs = walk h p xs"
  by (induction xs arbitrary: p) auto

text \<open>A walk up to an element whose forward link has been changed.\<close>

lemma dseg_walk_then:
  assumes "dseg h p (xs @ [a]) n" and "walk h' (l_next h' a) zs" and "\<And>x. x \<in> set xs \<Longrightarrow> l_next h' x = l_next h x"
  shows "walk h' (hd_opt (xs @ [a]) n) (xs @ a # zs)"
  using assms
proof (induction xs arbitrary: p)
  case (Cons x xs)
  then show ?case by (cases xs) auto
qed simp

lemma last_opt_last: "xs \<noteq> [] \<Longrightarrow> last_opt xs d = Some (last xs)"
  by (induction xs rule: rev_induct) auto

text \<open>If a walk meets \<open>ys\<close>, only \<open>ys\<close> can be the list, and then its tail and its backward links have to fit.\<close>

lemma walk_no_list:
  assumes "walk h (ll_head self) ys" and "\<not> dll (self, h) ys"
  shows "\<not> dll (self, h) zs"
  using walk_unique [OF assms(1)] dll_walk assms(2) by blast

lemma walk_size: "walk h p xs \<Longrightarrow> size_loop h p k = Some (k + length xs)"
proof (induction xs arbitrary: p k)
  case Nil
  then show ?case by (simp add: size_loop.simps)
next
  case (Cons x xs)
  then have "size_loop h (l_next h x) (Suc k) = Some (Suc k + length xs)" by simp
  then show ?case using Cons.prems by (subst size_loop.simps) simp
qed

section \<open>Appending an element that is already there\<close>

lemma push_tail_again:
  assumes d: "dll (self, h) (us @ a # vs)"
  shows "\<exists>self' h'. linked_list_push_tail a (self, h) = Some (self', h') \<and>
    walk h' (ll_head self') (us @ [a]) \<and> l_prev h' a = Some (last (a # vs)) \<and>
    ll_tail self' = Some a \<and> same_links (- set (us @ a # vs)) h h' \<and> (\<nexists>zs. dll (self', h') zs)"
proof -
  let ?t = "last (a # vs)"
  let ?self = "self\<lparr>ll_tail := Some a\<rparr>" and ?h = "set_next a None (set_prev a (Some ?t) (set_next ?t (Some a) h))"
  have t: "ll_tail self = Some ?t" using dll_tail [OF d] last_opt_last [of "a # vs"] by simp
  have mem: "?t \<in> set (a # vs)" by (rule last_in_set) simp
  have dist: "distinct (us @ a # vs)" using d by (simp add: dll_def)
  then have us: "?t \<notin> set us" "a \<notin> set us" using mem by auto
  have hd: "ll_head self = hd_opt (us @ [a]) None" using d by (cases us) (simp_all add: dll_def)
  then obtain x where x: "ll_head self = Some x" by (cases us) auto
  have p: "linked_list_push_tail a (self, h) = Some (?self, ?h)"
    using x t by (simp add: linked_list_push_tail_def)
  have seg: "dseg h None (us @ [a]) (hd_opt vs None)"
    using d dseg_append [of h None "us @ [a]" vs None] by (simp add: dll_def)
  have "walk ?h (hd_opt (us @ [a]) (hd_opt vs None)) (us @ [a])"
  proof (rule dseg_walk_then [OF seg])
    show "walk ?h (l_next ?h a) []" by simp
    show "l_next ?h x = l_next h x" if "x \<in> set us" for x using us that by auto
  qed
  moreover have "hd_opt (us @ [a]) (hd_opt vs None) = ll_head self" using hd by (cases us) simp_all
  ultimately have w: "walk ?h (ll_head ?self) (us @ [a])" by simp
  have "\<not> dll (?self, ?h) (us @ [a])"
  proof
    assume "dll (?self, ?h) (us @ [a])"
    then have "last_opt us None = Some ?t" by (simp add: dll_def)
    then show False using last_opt_in us(1) by metis
  qed
  then have "\<not> dll (?self, ?h) zs" for zs using walk_no_list [OF w] by blast
  moreover have "same_links (- set (us @ a # vs)) h ?h" using mem by (auto simp: same_links_def)
  ultimately show ?thesis using p w by simp
qed

end
