(* ===== verification/Sys_Props.thy ===== *)
theory Sys_Props
  imports Sys_Inv List_Walks
begin

text \<open>
  Properties of \<open>s_kill\<close>: what its result says, and what a terminating signal to a zombie does to
  the kernel.
\<close>

section \<open>Results that do not say what happened\<close>

text \<open>Whatever breaks out of the switch has \<open>success\<close> false, as at its beginning.\<close>

lemma kill_status_break: "kill_status False status s = Some (flow, s') \<Longrightarrow> flow = Break False"
  by (auto simp: kill_status_def bind_eq_Some_conv split: if_split_asm)

lemma kill_term_flow: "kill_term a False s = Some (flow, s') \<Longrightarrow> flow = Break False \<or> flow = Leave Thread_exited"
proof (cases "k_proc_exit (Some a) 1 s")
  case (Some x)
  assume "kill_term a False s = Some (flow, s')"
  then show ?thesis using Some kill_status_break by (cases x; cases "fst x") (auto simp: kill_term_def)
qed (simp add: kill_term_def)

lemma kill_stop_flow: "kill_stop a False s = Some (flow, s') \<Longrightarrow> flow = Break False"
  using kill_status_break by (auto simp: kill_stop_def bind_eq_Some_conv split: if_split_asm)

lemma kill_cont_flow: "kill_cont a False s = Some (flow, s') \<Longrightarrow> flow = Break False"
  using kill_status_break by (auto simp: kill_cont_def bind_eq_Some_conv split: if_split_asm)

lemma fail_result: "fail e s = Some (q, s') \<Longrightarrow> q = -1"
  by (auto simp: fail_def bind_eq_Some_conv)

text \<open>
  C17: \<open>s_kill\<close> never reports that a signal was delivered: if it returns 0, the target ignores the
  signal. The variable \<open>success\<close> is false at the beginning and no branch of the switch sets it,
  so every other return is -1, also when the target was terminated, stopped or continued.
\<close>

theorem s_kill_result:
  assumes "s_kill p signal s = Some (Returned r, s')"
  shows "r = -1 \<or> r = 0 \<and> (\<exists>a c. k_get_process_by_pid p s = Some (Some a) \<and> pcbs s a = Some c \<and>
    (signal = P_SIGINT \<and> ignore_sigint c \<or> signal = P_SIGTSTP \<and> ignore_sigtstp c))"
proof -
  obtain child where l: "k_get_process_by_pid p s = Some child"
    using assms by (cases "k_get_process_by_pid p s") (simp_all add: s_kill_def)
  show ?thesis
  proof (cases "child = None \<or> p = 1")
    case True
    then show ?thesis using assms l by (cases child) (auto simp: s_kill_def dest!: fail_result)
  next
    case False
    then obtain a where a: "child = Some a" "p \<noteq> 1" by auto
    obtain flow t where f: "kill_switch a signal False s = Some (flow, t)" "kill_return p a (flow, t) = Some (Returned r, s')"
      using assms l a by (auto simp: s_kill_def bind_eq_Some_conv)
    obtain c where c: "pcbs s a = Some c" using f(1) by (cases "pcbs s a") (simp_all add: kill_switch_def)
    have "flow = Break False \<or> flow = Leave Thread_exited \<or> flow = Leave (Returned (-1)) \<or>
        flow = Leave (Returned 0) \<and> (signal = P_SIGINT \<and> ignore_sigint c \<or> signal = P_SIGTSTP \<and> ignore_sigtstp c)"
      using f(1) c
      by (auto simp: kill_switch_def Let_def split: if_split_asm
          dest!: kill_term_flow kill_stop_flow kill_cont_flow fail_result)
    then show ?thesis using f(2) l a(1) c by (auto simp: kill_return_def)
  qed
qed

lemmas eval_defs = s_kill_def kill_switch_def kill_return_def kill_term_def kill_stop_def kill_status_def
  s_set_errno_def fail_def
  k_get_process_by_pid_def search_order_def q_find_def sched_q_def k_proc_exit_def
  k_remove_from_active_queue_def active_order_def unlink_if_member_def q_unlink_def manual_unlink_def
  q_push_def q_remove_def linked_list_push_tail_def linked_list_remove_def upd_pcb_def set_next_def set_prev_def
  unblock_parents_def waits_for_def unblock_process_def k_tcgetpid_def k_tcsetpid_def
  reparent_children_def log_defs log_at_def k_waitpid_def wait_any_def k_get_current_process_def
  remove_child_def set_wstatus_def Let_def

theorem s_kill_result_witness:
  "\<exists>s'. s_kill 6 P_SIGTERM demo = Some (Returned (-1), s')"
proof -
  have "\<exists>r s'. s_kill 6 P_SIGTERM demo = Some (Returned r, s') \<and> r \<noteq> 0"
    by (simp add: eval_defs demo_defs)
  then show ?thesis using s_kill_result [of 6 P_SIGTERM demo] by blast
qed

section \<open>Signalling a zombie\<close>

text \<open>A search along a walk.\<close>

lemma q_search_walk:
  assumes "walk (plinks s) p xs" and "\<forall>a\<in>set xs. \<exists>c. pcbs s a = Some c \<and> P a c = Some (hit a)"
  shows "q_search P s p = Some (find hit xs)"
  using assms by (induction xs arbitrary: p) auto

lemma q_find_walk:
  assumes "sched_live s" "valid_q q" "walk (plinks s) (ll_head (get_q q s)) xs"
    and "\<forall>a\<in>set xs. \<exists>c. pcbs s a = Some c \<and> P a c = Some (hit a)"
  shows "q_find q P s = Some (find hit xs)"
  using assms q_search_walk [OF assms(3,4)] by (simp add: q_find_def sched_q_def)

lemma find_pid_in_walk:
  assumes "sched_live s"
    and "\<forall>q\<in>set qs. valid_q q \<and> walk (plinks s) (ll_head (get_q q s)) (W q) \<and>
      (\<forall>a\<in>set (W q). \<exists>c. pcbs s a = Some c \<and> pid c \<noteq> p)"
  shows "find_pid_in qs p s = Some None"
  using assms
proof (induction qs)
  case (Cons q qs)
  have al: "\<forall>a\<in>set (W q). \<exists>c. pcbs s a = Some c \<and> Some (pid c = p) = Some False" using Cons.prems(2) by fastforce
  have q: "valid_q q" "walk (plinks s) (ll_head (get_q q s)) (W q)" using Cons.prems(2) by simp_all
  have f: "find (\<lambda>_. False) xs = None" for xs :: "addr list" by (induction xs) simp_all
  have "q_find q (\<lambda>_ c. Some (pid c = p)) s = Some None"
    using q_find_walk [OF Cons.prems(1) q al] by (simp add: f)
  then show ?case using Cons.IH [OF Cons.prems(1)] Cons.prems(2) by simp
qed simp

text \<open>
  The state after \<open>k_proc_exit\<close> has appended the zombie \<open>a\<close> to the zombie queue once more: only its
  own block, the zombie queue and the links of the zombies have changed.
\<close>

definition zombie_again :: "kernel \<Rightarrow> (queue_id \<Rightarrow> addr list) \<Rightarrow> addr list \<Rightarrow> addr \<Rightarrow> pcb \<Rightarrow> kernel \<Rightarrow> bool" where
  "zombie_again s Q us a c s' \<longleftrightarrow>
     pcbs s' = (pcbs s)(a \<mapsto> c\<lparr>exit_status := 1\<rparr>) \<and> current_process s' = current_process s \<and> sched_live s' \<and>
     walk (plinks s') (ll_head (zombie_queue s')) (us @ [a]) \<and> (\<nexists>zs. dll (zombie_queue s', plinks s') zs) \<and>
     (\<forall>q. q \<noteq> Zombie \<longrightarrow> get_q q s' = get_q q s) \<and> same_links (- set (Q Zombie)) (plinks s) (plinks s') \<and>
     clinks s' = clinks s \<and> cprocess s' = cprocess s"

lemma zombie_again_walk:
  assumes Q: "queues s Q" and z: "zombie_again s Q us a c s'" and q: "valid_q q" "q \<noteq> Zombie"
  shows "walk (plinks s') (ll_head (get_q q s')) (Q q)"
proof -
  have "set (Q q) \<subseteq> - set (Q Zombie)" using queues_disjoint [OF Q q(1), of Zombie] q(2) by auto
  then have "same_links (set (Q q)) (plinks s) (plinks s')" using z same_links_mono by (auto simp: zombie_again_def)
  then have "dll (get_q q s, plinks s') (Q q)" using dll_frame_same queuesD(1) [OF Q q(1)] by blast
  then show ?thesis using dll_walk z q(2) by (auto simp: zombie_again_def)
qed

text \<open>No queues and children lists describe such a state.\<close>

lemma zombie_again_broken: "zombie_again s Q us a c s' \<Longrightarrow> \<not> kernel_inv s'"
proof
  assume z: "zombie_again s Q us a c s'" and "kernel_inv s'"
  then obtain Q' C' i' where "kinv s' Q' C' i'" by (auto simp: kernel_inv_def)
  then have "dll (get_q Zombie s', plinks s') (Q' Zombie)"
    using queuesD(1) [OF sched_inv_queues [OF kinvD(1)], of s' Q' C' i' Zombie] by simp
  then show False using z by (auto simp: zombie_again_def)
qed

text \<open>The zombies behind \<open>a\<close> are not found any more.\<close>

lemma zombie_again_lost:
  assumes k: "kinv s Q C i" and u: "current_process s = Some u" "pcbs s u = Some cu" "state cu \<noteq> PROCESS_ZOMBIED"
    and Z: "Q Zombie = us @ a # vs" and c: "pcbs s a = Some c" and z: "zombie_again s Q us a c s'"
    and b: "b \<in> set vs" "pcbs s b = Some d"
  shows "k_get_process_by_pid (pid d) s' = Some None"
proof -
  note Q = sched_inv_queues [OF kinvD(1) [OF k]]
  have bz: "b \<in> set (Q Zombie)" "b \<notin> set (us @ [a])" using b(1) Z queuesD(2) [OF Q, of Zombie] by auto
  then have bq: "b \<in> queued Q" by (auto simp: queued_def intro!: exI [of _ Zombie])
  have other: "\<exists>e. pcbs s' x = Some e \<and> pid e \<noteq> pid d" if x: "x \<in> queued Q" "x \<noteq> b" for x
  proof -
    obtain e where e: "pcbs s x = Some e" using sched_inv_queued_alloc [OF kinvD(1) [OF k]] x(1) by auto
    have "pid e \<noteq> pid d"
      using kinvD(1) [OF k] x bq e b(2) unfolding sched_inv_def inj_on_def by (auto simp: pid_at_def)
    then show ?thesis using e c z by (cases "x = a") (auto simp: zombie_again_def)
  qed
  let ?W = "\<lambda>q. if q = Zombie then us @ [a] else Q q"
  have W: "valid_q q \<and> walk (plinks s') (ll_head (get_q q s')) (?W q) \<and>
      (\<forall>x\<in>set (?W q). \<exists>e. pcbs s' x = Some e \<and> pid e \<noteq> pid d)" if q: "q \<in> set search_order" for q
  proof (intro conjI ballI)
    show v: "valid_q q" using q by (auto simp: search_order_def)
    show "walk (plinks s') (ll_head (get_q q s')) (?W q)"
      using z zombie_again_walk [OF Q z v] by (auto simp: zombie_again_def)
    fix x
    assume x: "x \<in> set (?W q)"
    have "x \<in> set (Q q)" using x Z by (auto split: if_split_asm)
    then have "x \<in> queued Q" using v by (auto simp: queued_def)
    moreover have "x \<noteq> b"
      using x bz queues_disjoint [OF Q v, of Zombie] by (auto split: if_split_asm)
    ultimately show "\<exists>e. pcbs s' x = Some e \<and> pid e \<noteq> pid d" by (rule other)
  qed
  have uq: "u \<in> queued Q" "u \<noteq> b"
    using kinvD(3) [OF k u(1)] u(2,3) sched_inv_fits [OF kinvD(1) [OF k], of Zombie b] bz(1) by auto
  obtain e where "pcbs s' u = Some e" "pid e \<noteq> pid d" using other [OF uq] by blast
  then show ?thesis
    using find_pid_in_walk [of s' search_order ?W "pid d"] W z u(1) by (simp add: k_get_process_by_pid_def zombie_again_def)
qed

lemma exit_zombie:
  assumes k: "kinv s Q C i" and u: "current_process s = Some u" "pcbs s u = Some cu" "state cu \<noteq> PROCESS_ZOMBIED"
    and Z: "Q Zombie = us @ a # vs" and c: "pcbs s a = Some c" "children c = Some ch" "ll_head ch = None"
    and w: "\<forall>b\<in>set (Q Blocked). \<not> waiting s C (pid c) b"
  shows "\<exists>s'. k_proc_exit (Some a) 1 s = Some (Returned 0, s') \<and> zombie_again s Q us a c s'"
proof -
  note inv = kinvD(1) [OF k]
  note Q = sched_inv_queues [OF inv]
  have aq: "a \<in> set (Q Zombie)" using Z by simp
  have st: "state c = PROCESS_ZOMBIED" using sched_inv_fits [OF inv, of Zombie a] aq c(1) by auto
  have na: "a \<notin> active Q" using queues_disjoint [OF Q, of Zombie] aq by (fastforce simp: active_def)
  let ?c = "c\<lparr>exit_status := 1\<rparr>"
  have c': "c\<lparr>state := PROCESS_ZOMBIED, exit_status := 1\<rparr> = ?c" using st by simp
  let ?s1 = "(log_exited (pid c) (int (priority c)) (name_or (command c)) s)\<lparr>pcbs := (pcbs s)(a \<mapsto> ?c)\<rparr>"
  have Q1: "queues ?s1 Q" using Q by (simp add: log_defs)
  have miss: "k_remove_from_active_queue (Some a) ?s1 = Some (False, ?s1)"
    using k_remove_from_active_queue_miss [OF Q1 na] sched_inv_queued_alloc [OF inv] by simp
  let ?s2 = "log_zombie (pid c) (int (priority c)) (command c) ?s1"
  obtain self h where p: "linked_list_push_tail a (get_q Zombie s, plinks s) = Some (self, h)"
    and w1: "walk h (ll_head self) (us @ [a])" and same: "same_links (- set (Q Zombie)) (plinks s) h"
    and no: "\<nexists>zs. dll (self, h) zs"
    using push_tail_again [of "get_q Zombie s" "plinks s" us a vs] queuesD(1) [OF Q, of Zombie] Z by auto
  let ?s3 = "set_q Zombie self (?s2\<lparr>plinks := h\<rparr>)"
  have push: "q_push Zombie a ?s2 = Some ?s3"
    using p queues_live [OF Q] by (simp add: q_push_def sched_q_def log_defs)
  have "get_q q ?s3 = get_q q s" if "q \<noteq> Zombie" for q using that by (cases q) (simp_all add: log_defs log_at_def)
  then have z: "zombie_again s Q us a c ?s3"
    using w1 same no queues_live [OF Q] by (simp add: zombie_again_def log_defs log_at_def del: get_q.simps)
  have fam: "family ?s3 C (set (Q Blocked))"
    by (rule family_cong [OF family_blocked [OF k]]) (simp_all add: log_defs log_at_def c)
  have wait: "waiting ?s3 C (pid c) b = waiting s C (pid c) b" if "b \<in> set (Q Blocked)" for b
  proof -
    have "b \<noteq> a" using that na blocked_active by blast
    then have "pcbs ?s3 b = pcbs s b" by (simp add: log_defs log_at_def)
    moreover have "pid_at ?s3 = pid_at s" using c(1) by (auto simp: pid_at_def log_defs log_at_def)
    moreover have "cprocess ?s3 = cprocess s" by (simp add: log_defs log_at_def)
    ultimately show ?thesis by (simp only: waiting_def)
  qed
  have al: "\<exists>d. pcbs ?s3 b = Some d \<and> waits_for (pid c) ?s3 d = Some False" if b: "b \<in> set (Q Blocked)" for b
  proof -
    obtain d where d: "pcbs ?s3 b = Some d" using family_alloc [OF fam b] by blast
    then show ?thesis using waits_for_ok [OF fam b d] wait [OF b] w b by simp
  qed
  have f: "find (\<lambda>_. False) xs = None" for xs :: "addr list" by (induction xs) simp_all
  have "q_find Blocked (\<lambda>_ d. waits_for (pid c) ?s3 d) ?s3 = Some None"
    using q_find_walk [of ?s3 Blocked "Q Blocked" "\<lambda>_ d. waits_for (pid c) ?s3 d" "\<lambda>_. False"]
      zombie_again_walk [OF Q z, of Blocked] al queues_live [OF Q] by (simp add: f log_defs log_at_def)
  then have ub: "unblock_parents a ?s3 = Some ?s3" by (simp add: unblock_parents_def log_defs log_at_def)
  have rp: "reparent_children a ?s3 = Some ?s3"
    using c(2,3) by (simp add: reparent_children_def log_defs log_at_def reparent_loop.simps)
  have uq: "u \<in> queued Q" "u \<noteq> a" using kinvD(3) [OF k u(1)] u(2,3) st c(1) by auto
  have "pid c \<noteq> pid cu"
    using inv uq aq u(2) c(1) queued_active [of Q] unfolding sched_inv_def inj_on_def by (auto simp: pid_at_def)
  moreover have "pcbs ?s3 u = Some cu" "current_process ?s3 = Some u" "pcbs ?s3 a = Some ?c"
    using u uq(2) by (simp_all add: log_defs log_at_def)
  ultimately have "k_proc_exit (Some a) 1 s = Some (Returned 0, ?s3)"
    using c(1) miss push ub rp queues_live [OF Q] c'
    by (simp add: k_proc_exit_def upd_pcb_def log_defs Let_def)
  then show ?thesis using z by blast
qed

text \<open>
  C18: A terminating signal to a zombie breaks the zombie queue. The lookup of \<open>s_kill\<close> finds zombies too,
  and \<open>k_proc_exit\<close> appends the process a second time to the queue it is already in. For every state with
  the kernel invariant, a running caller, and a zombie \<open>a\<close> without children for which no blocked process
  waits: the call returns -1; afterwards the walk of the zombie queue ends at \<open>a\<close>, the zombies that
  were behind it are found under their identifiers no more, no list of processes
  describes the queue, and the kernel invariant is lost.
\<close>

theorem kill_zombie_corrupts:
  assumes k: "kinv s Q C i" and u: "current_process s = Some u" "pcbs s u = Some cu" "state cu = PROCESS_RUNNING"
    and Z: "Q Zombie = us @ a # vs" and c: "pcbs s a = Some c" "children c = Some ch" "ll_head ch = None"
    and w: "\<forall>b\<in>set (Q Blocked). \<not> waiting s C (pid c) b"
  shows "\<exists>s'. s_kill (pid c) P_SIGTERM s = Some (Returned (-1), s') \<and>
    walk (plinks s') (ll_head (zombie_queue s')) (us @ [a]) \<and>
    (\<forall>b\<in>set vs. \<exists>d. pcbs s b = Some d \<and> k_get_process_by_pid (pid d) s' = Some None) \<and>
    (\<nexists>zs. dll (zombie_queue s', plinks s') zs) \<and> \<not> kernel_inv s'"
proof -
  have u': "state cu \<noteq> PROCESS_ZOMBIED" using u(3) by simp
  have aq: "a \<in> queued Q" using Z by (auto simp: queued_def intro!: exI [of _ Zombie])
  have st: "state c = PROCESS_ZOMBIED" using sched_inv_fits [OF kinvD(1) [OF k], of Zombie a] Z c(1) by auto
  obtain s' where s': "k_proc_exit (Some a) 1 s = Some (Returned 0, s')" "zombie_again s Q us a c s'"
    using exit_zombie [OF k u(1,2) u' Z c w] by blast
  obtain b where b: "k_get_process_by_pid (pid c) s = Some (Some b)" "pid_at s b = Some (pid c)" "b \<in> queued Q"
    using k_get_process_by_pid_ok [OF k, of "pid c"] aq c(1) lookup_any(1) [OF k u] by (fastforce simp: pid_at_def split: option.splits)
  have "b = a"
    using kinvD(1) [OF k] aq b(2,3) c(1) unfolding sched_inv_def inj_on_def by (auto simp: pid_at_def)
  moreover have "pid c \<noteq> 1"
  proof
    assume "pid c = 1"
    then have "pid_at s a = pid_at s i" using treeD(4) [OF kinvD(2) [OF k]] c(1) by (auto simp: pid_at_def)
    then have "a = i" using kinvD(1) [OF k] aq treeD(3) [OF kinvD(2) [OF k]] active_sub
      unfolding sched_inv_def inj_on_def by blast
    then have "a \<in> active Q" using treeD(3) [OF kinvD(2) [OF k]] by simp
    then show False using activeE sched_inv_fits [OF kinvD(1) [OF k]] queues_disjoint [OF sched_inv_queues [OF kinvD(1) [OF k]], of Zombie] Z
      by (metis disjoint_iff in_set_conv_decomp valid_q.simps(3))
  qed
  ultimately have "s_kill (pid c) P_SIGTERM s = Some (Returned (-1), s')"
    using b(1) s'(1) c(1) by (simp add: s_kill_def kill_switch_def kill_term_def kill_status_def kill_return_def)
  moreover have "\<exists>d. pcbs s b = Some d \<and> k_get_process_by_pid (pid d) s' = Some None" if "b \<in> set vs" for b
  proof -
    have "b \<in> set (Q Zombie)" using that Z by simp
    then obtain d where "pcbs s b = Some d" using sched_inv_fits [OF kinvD(1) [OF k], of Zombie b] by auto
    then show ?thesis using zombie_again_lost [OF k u(1,2) u' Z c(1) s'(2) that] by blast
  qed
  ultimately show ?thesis
    using s'(2) zombie_again_broken [OF s'(2)] by (auto simp: zombie_again_def simp del: get_q.simps)
qed

theorem kill_zombie_corrupts_witness:
  "\<exists>s'. s_kill 4 P_SIGTERM demo = Some (Returned (-1), s') \<and> \<not> kernel_inv s'"
proof -
  have z: "demo_q Zombie = [] @ 4 # []" by simp
  have "\<not> waiting demo demo_c 4 3" by (simp add: waiting_def demo_pcbs demo_pcb_def)
  then show ?thesis
    using kill_zombie_corrupts [OF demo_inv demo_current demo_pcbs(2) _ z demo_pcbs(4)]
    by (auto simp: demo_pcb_def linked_list_new_def)
qed

end
