(* ===== verification/File_Props.thy ===== *)
theory File_Props
  imports File_Syscalls Sys_Props
begin

text \<open>
  The system calls, those on files included, keep the kernel invariant; and what \<open>ps\<close> prints on a
  terminal that takes every message.
\<close>

section \<open>The kernel invariant under the system calls\<close>

text \<open>
  A change of a process control block that the queues and the tree do not depend on. The calls on
  files change the kernel only in this way, except that a process without the terminal is stopped.
\<close>

lemma upd_pcb_keeps:
  assumes "upd_pcb u g s = Some s'" and "kernel_inv s"
    and "\<And>c. pid (g c) = pid c \<and> ppid (g c) = ppid c \<and> children (g c) = children c \<and> state (g c) = state c \<and>
      priority (g c) = priority c \<and> thread (g c) = thread c"
  shows "kernel_inv s'"
proof -
  obtain Q C i where k: "kinv s Q C i" using assms(2) by (auto simp: kernel_inv_def)
  obtain c where c: "pcbs s u = Some c" "s' = s\<lparr>pcbs := (pcbs s)(u \<mapsto> g c)\<rparr>"
    using assms(1) by (auto simp: upd_pcb_def split: option.split_asm)
  then show ?thesis using kinv_pcb [OF k c(1), of "g c"] assms(3) [of c] by (auto intro: kernel_invI)
qed

lemma fail_keeps: "on_kern (fail e) x = Some (r, y) \<Longrightarrow> kernel_inv (kern x) \<Longrightarrow> kernel_inv (kern y)"
  by (auto simp: on_kern_def fail_def s_set_errno_def bind_eq_Some_conv elim!: upd_pcb_keeps)

lemma upd_fd_entry_keeps: "upd_fd_entry u fd g s = Some s' \<Longrightarrow> kernel_inv s \<Longrightarrow> kernel_inv s'"
  by (auto simp: upd_fd_entry_def bind_eq_Some_conv set_fd_entry_def elim!: upd_pcb_keeps)

lemma on_fsys_kern: "on_fsys f x = Some (r, y) \<Longrightarrow> kern y = kern x"
  by (auto simp: on_fsys_def bind_eq_Some_conv)

lemmas file_keeps = fail_keeps upd_fd_entry_keeps on_fsys_kern

abbreviation running_caller :: "kernel \<Rightarrow> bool" where
  "running_caller s \<equiv> kernel_inv s \<and>
     (\<exists>u c. current_process s = Some u \<and> pcbs s u = Some c \<and> state c = PROCESS_RUNNING)"

lemma terminal_check_keeps:
  assumes "terminal_check h verb c e x = Some y" and run: "running_caller (kern x)"
  shows "kernel_inv (kern y)"
proof -
  have "\<exists>r s'. s_kill p P_SIGSTOP (kern x) = Some (r, s') \<and> kernel_inv s'" for p
    using run s_kill_inv [where signal = P_SIGSTOP and p = p] by (auto simp: kernel_inv_def)
  then have kill: "kernel_inv s'" if "s_kill p P_SIGSTOP (kern x) = Some (r, s')" for p r s'
    using that by (metis option.inject prod.inject)
  obtain tc where tc: "k_tcgetpid (kern x) = Some tc" using assms(1) by (auto simp: terminal_check_def bind_eq_Some_conv)
  show ?thesis
  proof (cases "pf_global_fd e = 0 \<and> tc \<noteq> pid c")
    case True
    then obtain n x1 r s' where o: "on_fsys (k_fprintf_short h 2 (Some
        (ascii ''[WARN]: process '' @ decimal (pid c) @ ascii '' tried to '' @ ascii verb @
         ascii '' terminal STDIN without terminal control'' @ [10]))) x = Some (n, x1)"
      "s_kill (pid c) P_SIGSTOP (kern x1) = Some (r, s')" "(case r of Returned _ \<Rightarrow> Some (x1\<lparr>kern := s'\<rparr>) | _ \<Rightarrow> None) = Some y"
      using assms(1) tc by (auto simp: terminal_check_def on_kern_def bind_eq_Some_conv)
    then have "kernel_inv s'" using kill on_fsys_kern [OF o(1)] by simp
    then show ?thesis using o(3) by (cases r) auto
  next
    case False
    then show ?thesis using assms tc by (auto simp: terminal_check_def)
  qed
qed

lemma s_open_keeps: "s_open h fname mode x = Some (r, y) \<Longrightarrow> kernel_inv (kern x) \<Longrightarrow> kernel_inv (kern y)"
  by (auto simp: s_open_def bind_eq_Some_conv split: if_split_asm dest!: file_keeps)

lemma s_close_keeps: "s_close h fd x = Some (r, y) \<Longrightarrow> kernel_inv (kern x) \<Longrightarrow> kernel_inv (kern y)"
  by (auto simp: s_close_def bind_eq_Some_conv split: option.split_asm dest!: file_keeps)

lemma s_read_keeps: "s_read h fd n x = Some (r, y) \<Longrightarrow> running_caller (kern x) \<Longrightarrow> kernel_inv (kern y)"
  by (auto simp: s_read_def bind_eq_Some_conv split: option.split_asm dest!: file_keeps terminal_check_keeps)

lemma s_write_keeps: "s_write h fd str n x = Some (r, y) \<Longrightarrow> running_caller (kern x) \<Longrightarrow> kernel_inv (kern y)"
  by (auto simp: s_write_def bind_eq_Some_conv Let_def split: option.split_asm if_split_asm dest!: file_keeps terminal_check_keeps)

lemma s_fprintf_keeps: "s_fprintf_short h fd str x = Some (r, y) \<Longrightarrow> running_caller (kern x) \<Longrightarrow> kernel_inv (kern y)"
  by (auto simp: s_fprintf_short_def Let_def split: option.split_asm if_split_asm dest: fail_keeps s_write_keeps)

lemma status_call_keeps: "status_call f x = Some (r, y) \<Longrightarrow> kernel_inv (kern x) \<Longrightarrow> kernel_inv (kern y)"
  by (auto simp: status_call_def bind_eq_Some_conv split: if_split_asm dest!: file_keeps)

lemma print_queues_kern: "print_queues h qs x = Some y \<Longrightarrow> kern y = kern x"
  by (induction qs arbitrary: x) (auto simp: bind_eq_Some_conv k_print_processes_from_queue_def dest!: on_fsys_kern)

lemma s_get_process_info_kern: "s_get_process_info h x = Some y \<Longrightarrow> kern y = kern x"
  by (auto simp: s_get_process_info_def k_get_all_process_info_def bind_eq_Some_conv simp del: print_queues.simps
      split: if_split_asm option.split_asm dest!: print_queues_kern on_fsys_kern)

lemma disposition_inv:
  assumes k: "kinv s Q C i" and u: "current_process s = Some u" and c: "pcbs s u = Some c"
  shows "\<exists>s'. s_ignore_sigint b s = Some (0, s') \<and> kernel_inv s'"
    and "\<exists>s'. s_ignore_sigtstp b s = Some (0, s') \<and> kernel_inv s'"
  using kinv_upd_pcb [OF k c, of "\<lambda>c. c\<lparr>ignore_sigint := b\<rparr>"] kinv_upd_pcb [OF k c, of "\<lambda>c. c\<lparr>ignore_sigtstp := b\<rparr>"]
    u kinv_get_current [OF k]
  by (auto simp: s_ignore_sigint_def s_ignore_sigtstp_def intro: kernel_invI)

text \<open>
  C11: The system calls keep the kernel invariant, for a running caller. The calls on processes also
  return, without fault or endless loop: \<open>s_spawn\<close> (when the allocator returns unused memory, fewer than \<open>2 ^ 31 - 1\<close>
  processes have been created, the priority is valid and the caller's descriptor table has its 128 entries), \<open>s_waitpid\<close> and its
  continuation (after a suspension for any child, or for a child whose block exists), \<open>s_sleep\<close> and its continuation,
  \<open>s_tcsetpid\<close>, the signal dispositions, \<open>s_nice\<close>, \<open>s_logout\<close>, \<open>s_exit\<close> of a process other than
  \<open>init\<close> (which ends the caller's thread), and \<open>s_kill\<close>, where a terminating signal must not go to a zombie. The calls on files and \<open>s_get_process_info\<close> keep the
  invariant whenever they return.
\<close>

theorem syscalls_keep_invariant:
  assumes inv: "kernel_inv s" and u: "current_process s = Some u"
    and c: "pcbs s u = Some c" "state c = PROCESS_RUNNING"
  shows "(\<forall>m args fd0 fd1 prio. allocator_ok m s \<and> process_count s < 2147483647 \<and> prio < 3 \<and>
        length (process_fd_table c) = PROCESS_FD_TABLE_SIZE \<longrightarrow>
        (\<exists>r s'. s_spawn m args fd0 fd1 prio s = Some (r, s') \<and> kernel_inv s')) \<and>
    (\<forall>p w nohang. \<exists>r w' s'. s_waitpid p w nohang s = Some (r, w', s') \<and> kernel_inv s') \<and>
    (\<forall>child w. (\<forall>b. child = Some b \<longrightarrow> pcbs s b \<noteq> None) \<longrightarrow>
        (\<exists>r w' s'. s_waitpid_resume child w s = Some (r, w', s') \<and> kernel_inv s')) \<and>
    (\<forall>n. \<exists>r s'. s_sleep n s = Some (r, s') \<and> kernel_inv s') \<and>
    (\<exists>r s'. s_sleep_resume u s = Some (r, s') \<and> kernel_inv s') \<and>
    (\<forall>p. \<exists>r s'. s_tcsetpid p s = Some (r, s') \<and> kernel_inv s') \<and>
    (\<forall>b. \<exists>s'. s_ignore_sigint b s = Some (0, s') \<and> kernel_inv s') \<and>
    (\<forall>b. \<exists>s'. s_ignore_sigtstp b s = Some (0, s') \<and> kernel_inv s') \<and>
    (\<forall>p prio. \<exists>r s'. s_nice p prio s = Some (r, s') \<and> kernel_inv s') \<and>
    kernel_inv (s_logout s) \<and>
    (\<forall>status. init_process s \<noteq> Some u \<longrightarrow> (\<exists>s'. s_exit status s = Some (Thread_exited, s') \<and> kernel_inv s')) \<and>
    (\<forall>p signal. (ends_target signal \<longrightarrow> live_target p s) \<longrightarrow>
        (\<exists>r s'. s_kill p signal s = Some (r, s') \<and> kernel_inv s')) \<and>
    (\<forall>call \<in> {s_open h fname mode, s_close h fd, s_write h fd str n, s_fprintf_short h fd str', s_unlink h fname,
          s_ls h ft fname', s_chmod h fname perm mode, s_mv h fname dest}. \<forall>fs r y.
        call \<lparr>kern = s, fsys = fs\<rparr> = Some (r, y) \<longrightarrow> kernel_inv (kern y)) \<and>
    (\<forall>fs r y. s_read h fd n \<lparr>kern = s, fsys = fs\<rparr> = Some (r, y) \<longrightarrow> kernel_inv (kern y)) \<and>
    (\<forall>fs y. s_get_process_info h \<lparr>kern = s, fsys = fs\<rparr> = Some y \<longrightarrow> kernel_inv (kern y))"
proof -
  obtain Q C i where k: "kinv s Q C i" using inv by (auto simp: kernel_inv_def)
  have i: "init_process s = Some i" using treeD(2) [OF kinvD(2) [OF k]] .
  have resume: "\<exists>r s'. s_sleep_resume u s = Some (r, s') \<and> kernel_inv s'"
    using resume_kinv [OF k u c] by (auto simp: s_sleep_resume_def intro: kernel_invI)
  have terminal: "\<exists>r s'. s_tcsetpid p s = Some (r, s') \<and> kernel_inv s'" for p
    using s_tcsetpid_inv [OF k u, of p] by (auto intro: kernel_invI)
  have logout: "kernel_inv (s_logout s)"
    using k by (auto simp: s_logout_def k_logout_def intro!: kernel_invI [of _ Q C i])
  have run: "running_caller (kern \<lparr>kern = s, fsys = fs\<rparr>)" for fs using inv u c by simp
  have files: "\<forall>call \<in> {s_open h fname mode, s_close h fd, s_write h fd str n, s_fprintf_short h fd str', s_unlink h fname,
          s_ls h ft fname', s_chmod h fname perm mode, s_mv h fname dest}. \<forall>fs r y.
        call \<lparr>kern = s, fsys = fs\<rparr> = Some (r, y) \<longrightarrow> kernel_inv (kern y)"
    unfolding s_unlink_def s_ls_def s_chmod_def s_mv_def
    using s_open_keeps [of h fname mode] s_close_keeps [of h fd] s_write_keeps [OF _ run] s_fprintf_keeps [OF _ run]
      status_call_keeps [OF _ run [THEN conjunct1]] run by auto
  have reads: "\<forall>fs r y. s_read h fd n \<lparr>kern = s, fsys = fs\<rparr> = Some (r, y) \<longrightarrow> kernel_inv (kern y)"
    using run s_read_keeps by blast
  have info: "\<forall>fs y. s_get_process_info h \<lparr>kern = s, fsys = fs\<rparr> = Some y \<longrightarrow> kernel_inv (kern y)"
    using inv s_get_process_info_kern by fastforce
  show ?thesis
    by (intro conjI allI impI files reads info logout resume terminal disposition_inv [OF k u c(1)]
        s_spawn_inv [OF k u c] s_waitpid_inv [OF k u c] s_waitpid_resume_inv [OF k u c] s_sleep_inv [OF k u c]
        s_nice_inv [OF k u c] s_exit_inv [OF k u _ c] s_kill_inv [OF k u c]) (auto simp: i)
qed

theorem syscalls_keep_invariant_witness:
  "\<exists>r s'. s_sleep 5 demo = Some (r, s') \<and> kernel_inv s'"
  using syscalls_keep_invariant [OF kernel_invI [OF demo_inv] demo_current demo_pcbs(2)]
  by (simp add: demo_pcb_def)

section \<open>Output to the terminal\<close>

text \<open>The terminal takes any message of the kernel whole.\<close>

definition terminal_ok :: "host \<Rightarrow> bool" where
  "terminal_ok h \<longleftrightarrow> (\<exists>n\<ge>1024. h_terminal_out h 2 = Some n)"

lemma k_write_terminal:
  assumes h: "terminal_ok h" and l: "length str \<le> 1024"
  shows "k_write h 2 str (int (length str)) fs = Some (int (length str), fs\<lparr>console := console fs @ [(2, str)]\<rparr>)"
proof -
  obtain n where n: "n \<ge> 1024" "h_terminal_out h 2 = Some n" using h by (auto simp: terminal_ok_def)
  have "size_t_of_int (int (length str)) = length str" using l by (simp add: size_t_of_int_def)
  then show ?thesis using n l by (simp add: k_write_def Let_def)
qed

lemma k_fprintf_terminal:
  assumes h: "terminal_ok h" and l: "length str < 1024" "0 \<notin> set str"
  shows "k_fprintf_short h 2 (Some str) fs = Some (int (length str), fs\<lparr>console := console fs @ [(2, str)]\<rparr>)"
proof -
  have "takeWhile (\<lambda>b. b \<noteq> 0) str = str" using l(2) by (induction str) auto
  then show ?thesis
    using k_write_terminal [OF h, of str] l
    by (simp add: k_fprintf_short_def Let_def del: takeWhile_eq_all_conv)
qed

section \<open>ps\<close>

definition printable :: "kernel \<Rightarrow> addr \<Rightarrow> bool" where
  "printable k a \<longleftrightarrow> (\<exists>c. pcbs k a = Some c \<and> (\<forall>ch\<in>{CHR ''R'', CHR ''B'', CHR ''S'', CHR ''Z''}.
     length (ps_line c ch) < 1024 \<and> 0 \<notin> set (ps_line c ch)))"

definition ps_lines :: "kernel \<Rightarrow> char \<Rightarrow> addr list \<Rightarrow> byte list list" where
  "ps_lines k ch xs = map (\<lambda>a. ps_line (the (pcbs k a)) ch) (filter (\<lambda>a. current_process k \<noteq> Some a) xs)"

lemma print_processes_loop_simps:
  "print_processes_loop h None ch k fs = Some (0, fs)"
  by (subst print_processes_loop.simps) simp

lemma print_processes_loop_ok:
  assumes h: "terminal_ok h" and ch: "ch \<in> {CHR ''R'', CHR ''B'', CHR ''S'', CHR ''Z''}"
    and "dseg (plinks k) p xs None" and "\<forall>a\<in>set xs. printable k a"
  shows "print_processes_loop h (hd_opt xs None) ch k fs =
    Some (0, fs\<lparr>console := console fs @ map (Pair 2) (ps_lines k ch xs)\<rparr>)"
  using assms(3,4)
proof (induction xs arbitrary: p fs)
  case Nil
  then show ?case by (simp add: print_processes_loop_simps ps_lines_def)
next
  case (Cons a xs)
  obtain c where c: "pcbs k a = Some c" "length (ps_line c ch) < 1024" "0 \<notin> set (ps_line c ch)"
    using Cons.prems(2) ch by (auto simp: printable_def)
  have nx: "l_next (plinks k) a = hd_opt xs None" using Cons.prems(1) by simp
  show ?case
    using Cons c nx k_fprintf_terminal [OF h c(2,3)]
    by (subst print_processes_loop.simps) (auto simp: ps_lines_def)
qed

lemma print_queue_ok:
  assumes h: "terminal_ok h" and ch: "ch \<in> {CHR ''R'', CHR ''B'', CHR ''S'', CHR ''Z''}"
    and Q: "queues (kern s) Q" and q: "valid_q q" and p: "\<forall>a\<in>set (Q q). printable (kern s) a"
  shows "k_print_processes_from_queue h q ch s =
    Some (0, s\<lparr>fsys := (fsys s)\<lparr>console := console (fsys s) @ map (Pair 2) (ps_lines (kern s) ch (Q q))\<rparr>\<rparr>)"
proof -
  have d: "sched_q q (kern s) = Some (get_q q (kern s))" "ll_head (get_q q (kern s)) = hd_opt (Q q) None"
    "dseg (plinks (kern s)) None (Q q) None"
    using queuesD(1) [OF Q q] queues_live [OF Q] q by (auto simp: sched_q_def dll_def)
  show ?thesis
    using print_processes_loop_ok [OF h ch d(3) p] d
    by (simp add: k_print_processes_from_queue_def on_fsys_def)
qed

lemma print_queues_ok:
  assumes h: "terminal_ok h" and Q: "queues (kern s) Q"
    and q: "\<forall>(q, ch)\<in>set qs. valid_q q \<and> ch \<in> {CHR ''R'', CHR ''B'', CHR ''S'', CHR ''Z''} \<and>
      (\<forall>a\<in>set (Q q). printable (kern s) a)"
  shows "print_queues h qs s = Some (s\<lparr>fsys := (fsys s)\<lparr>console := console (fsys s) @
    map (Pair 2) (concat (map (\<lambda>(q, ch). ps_lines (kern s) ch (Q q)) qs))\<rparr>\<rparr>)"
  using Q q
proof (induction qs arbitrary: s)
  case (Cons x qs)
  obtain q ch where x: "x = (q, ch)" by (cases x)
  let ?s = "s\<lparr>fsys := (fsys s)\<lparr>console := console (fsys s) @ map (Pair 2) (ps_lines (kern s) ch (Q q))\<rparr>\<rparr>"
  have "k_print_processes_from_queue h q ch s = Some (0, ?s)"
    using print_queue_ok [OF h _ Cons.prems(1), of ch q] Cons.prems(2) x by simp
  moreover have "print_queues h qs ?s = Some (?s\<lparr>fsys := (fsys ?s)\<lparr>console := console (fsys ?s) @
    map (Pair 2) (concat (map (\<lambda>(q, ch). ps_lines (kern ?s) ch (Q q)) qs))\<rparr>\<rparr>)"
    using Cons.IH [of ?s] Cons.prems by simp
  ultimately show ?case using x by simp
qed simp

text \<open>
  C16: \<open>ps\<close> prints the header, the current process as running, and then every other process
  exactly once, queue by queue in the order of the queues, with the letter of its state (R, B, S
  or Z); neither the kernel nor the files change. It does so whether or not extra logging is enabled. The current process has not
  exited, the terminal takes messages of up to 1024 bytes whole, and every process has a line
  of fewer than 1024 bytes without a zero byte.
\<close>

theorem ps_lists_every_process:
  assumes k: "kinv (kern s) Q C i" and h: "terminal_ok h"
    and u: "current_process (kern s) = Some u" "pcbs (kern s) u = Some c" "state c \<noteq> PROCESS_ZOMBIED"
    and p: "\<forall>a\<in>queued Q. printable (kern s) a"
  shows "s_get_process_info h s = Some (s\<lparr>fsys := (fsys s)\<lparr>console := console (fsys s) @ map (Pair 2)
    ([ps_header, ps_line c CHR ''R''] @
     concat (map (\<lambda>j. ps_lines (kern s) CHR ''R'' (Q (Ready j))) [0, 1, 2]) @
     ps_lines (kern s) CHR ''B'' (Q Blocked) @ ps_lines (kern s) CHR ''S'' (Q Stopped) @
     ps_lines (kern s) CHR ''Z'' (Q Zombie))\<rparr>\<rparr>)"
proof -
  note Q = sched_inv_queues [OF kinvD(1) [OF k]]
  have uq: "u \<in> queued Q" using kinvD(3) [OF k u(1)] u(2,3) by auto
  then have pu: "length (ps_line c CHR ''R'') < 1024" "0 \<notin> set (ps_line c CHR ''R'')"
    using p u(2) by (auto simp: printable_def)
  have pq: "\<forall>a\<in>set (Q q). printable (kern s) a" if "valid_q q" for q
    using p that by (auto simp: queued_def)
  let ?fs = "(fsys s)\<lparr>console := console (fsys s) @ [(2, ps_header), (2, ps_line c CHR ''R'')]\<rparr>"
  have hd: "k_write h 2 ps_header (int (length ps_header)) fs =
      Some (int (length ps_header), fs\<lparr>console := console fs @ [(2, ps_header)]\<rparr>)" for fs
    by (rule k_write_terminal [OF h]) (simp add: ps_header_def ascii_def)
  let ?qs = "[(Ready 0, CHR ''R''), (Ready 1, CHR ''R''), (Ready 2, CHR ''R''),
    (Blocked, CHR ''B''), (Stopped, CHR ''S''), (Zombie, CHR ''Z'')]"
  have "k_get_all_process_info h s = print_queues h ?qs (s\<lparr>fsys := ?fs\<rparr>)"
    using queues_live [OF Q] u hd k_fprintf_terminal [OF h pu]
    by (simp add: k_get_all_process_info_def on_fsys_def del: print_queues.simps)
  moreover have "\<forall>(q, ch)\<in>set ?qs. valid_q q \<and> ch \<in> {CHR ''R'', CHR ''B'', CHR ''S'', CHR ''Z''} \<and>
      (\<forall>a\<in>set (Q q). printable (kern s) a)"
    using pq [of "Ready 0"] pq [of "Ready 1"] pq [of "Ready 2"] pq [of Blocked] pq [of Stopped] pq [of Zombie] by simp
  ultimately show ?thesis
    using print_queues_ok [OF h, of "s\<lparr>fsys := ?fs\<rparr>" Q ?qs] Q
    by (simp add: s_get_process_info_def del: print_queues.simps)
qed

lemma digits_small: "n < 10 \<Longrightarrow> digits n = [word_of_nat (48 + n)]"
  by (simp add: digits.simps)

lemma demo_printable: "\<forall>a\<in>queued demo_q. printable demo a"
  by (simp add: demo_queued printable_def demo_defs ps_line_def pad_left_def decimal_def ascii_def
    name_or_def digits_small)

theorem ps_lists_every_process_witness:
  "\<exists>s'. s_get_process_info host_example \<lparr>kern = demo, fsys = initial_fs\<rparr> = Some s' \<and>
     length (console (fsys s')) = 7"
proof -
  have "terminal_ok host_example" by (auto simp: terminal_ok_def host_example_def)
  then show ?thesis
    using ps_lists_every_process [of "\<lparr>kern = demo, fsys = initial_fs\<rparr>" demo_q demo_c 1 host_example 2 _]
      demo_inv demo_current demo_pcbs(2) demo_printable
    by (simp add: demo_pcb_def ps_lines_def initial_fs_def)
qed

end
