(* ===== verification/Parser.thy ===== *)
theory Parser
  imports Prelude
begin

text \<open>
  The parser of the shell (\<^verbatim>\<open>src/src/shell/parser.c\<close>), with the memory it builds.

  The line is the list of the bytes before the terminator; pointers into it are indices. Reads of
  the line are guarded by \<open>cur < end\<close> as in the code. The result is one block of memory whose
  three regions are the lists \<open>commands\<close> (indices into \<open>arguments\<close>), \<open>arguments\<close> (offsets into
  \<open>original_string\<close>, or a null pointer) and \<open>original_string\<close>; an element that has not been
  written yet is \<^term>\<open>None\<close>, and a write outside a region makes the model return \<^term>\<open>None\<close>.

  \<open>parse_spec\<close> is the specification: a lexer and a grammar over its tokens. The main results are
  that \<open>parse_command\<close> never leaves its memory and computes what the specification says, and that
  printing a parsed command and parsing the output gives the command back.
\<close>

section \<open>Characters\<close>

abbreviation UNEXPECTED_FILE_INPUT :: int where "UNEXPECTED_FILE_INPUT \<equiv> 1"
abbreviation UNEXPECTED_FILE_OUTPUT :: int where "UNEXPECTED_FILE_OUTPUT \<equiv> 2"
abbreviation UNEXPECTED_PIPELINE :: int where "UNEXPECTED_PIPELINE \<equiv> 3"
abbreviation UNEXPECTED_AMPERSAND :: int where "UNEXPECTED_AMPERSAND \<equiv> 4"
abbreviation EXPECT_INPUT_FILENAME :: int where "EXPECT_INPUT_FILENAME \<equiv> 5"
abbreviation EXPECT_OUTPUT_FILENAME :: int where "EXPECT_OUTPUT_FILENAME \<equiv> 6"
abbreviation EXPECT_COMMANDS :: int where "EXPECT_COMMANDS \<equiv> 7"

definition ch_hash :: byte where "ch_hash = 35"
definition ch_amp :: byte where "ch_amp = 38"
definition ch_lt :: byte where "ch_lt = 60"
definition ch_gt :: byte where "ch_gt = 62"
definition ch_bar :: byte where "ch_bar = 124"

lemmas ch_defs = ch_hash_def ch_amp_def ch_lt_def ch_gt_def ch_bar_def

definition word_char :: "byte \<Rightarrow> bool" where
  "word_char c \<longleftrightarrow> c \<noteq> ch_lt \<and> c \<noteq> ch_gt \<and> c \<noteq> ch_bar \<and> c \<noteq> ch_amp \<and> \<not> isspace c"

function skip_word :: "byte list \<Rightarrow> nat \<Rightarrow> nat \<Rightarrow> nat" where
  "skip_word line cur e = (if cur < e \<and> word_char (line ! cur) then skip_word line (Suc cur) e else cur)"
  by auto
termination by (relation "measure (\<lambda>(line, cur, e). e - cur)") auto

function skip_space :: "byte list \<Rightarrow> nat \<Rightarrow> nat \<Rightarrow> nat" where
  "skip_space line cur e = (if cur < e \<and> isspace (line ! cur) then skip_space line (Suc cur) e else cur)"
  by auto
termination by (relation "measure (\<lambda>(line, cur, e). e - cur)") auto

declare skip_word.simps [simp del] skip_space.simps [simp del]

text \<open>The end of the line before a comment, and the trimming at its end.\<close>

function comment_from :: "byte list \<Rightarrow> nat \<Rightarrow> nat \<Rightarrow> nat" where
  "comment_from line cur e =
     (if cur < e then if line ! cur = ch_hash then cur else comment_from line (Suc cur) e else e)"
  by auto
termination by (relation "measure (\<lambda>(line, cur, e). e - cur)") auto

fun trim_end :: "byte list \<Rightarrow> nat \<Rightarrow> nat \<Rightarrow> nat" where
  "trim_end line start e =
     (if start < e \<and> isspace (line ! (e - 1)) then trim_end line start (e - 1) else e)"

declare comment_from.simps [simp del] trim_end.simps [simp del]

section \<open>First pass\<close>

record scan =
  sc_num_commands :: nat
  sc_file_append :: bool
  total_strings :: nat
  has_token_last :: bool
  has_file_input :: bool
  has_file_output :: bool

definition scan_init :: scan where
  "scan_init = \<lparr>sc_num_commands = 0, sc_file_append = False, total_strings = 0,
     has_token_last = False, has_file_input = False, has_file_output = False\<rparr>"

text \<open>One round of the switch: an error code, or the new position.\<close>

definition scan_input :: "byte list \<Rightarrow> nat \<Rightarrow> nat \<Rightarrow> scan \<Rightarrow> int + (nat \<times> scan)" where
  "scan_input line e cur st =
     (if sc_num_commands st > 0 \<or> has_file_input st then Inl UNEXPECTED_FILE_INPUT
      else let cur = skip_space line (cur + 1) e;
               skipped = skip_word line cur e
           in if skipped \<le> cur then Inl EXPECT_INPUT_FILENAME
              else Inr (skipped, st\<lparr>has_file_input := True\<rparr>))"

definition scan_output :: "byte list \<Rightarrow> nat \<Rightarrow> nat \<Rightarrow> scan \<Rightarrow> int + (nat \<times> scan)" where
  "scan_output line e cur st =
     (if has_file_output st then Inl UNEXPECTED_FILE_OUTPUT
      else let append = cur + 1 < e \<and> line ! (cur + 1) = ch_gt;
               st = (if append then st\<lparr>sc_file_append := True\<rparr> else st);
               cur = (if append then cur + 1 else cur);
               cur = skip_space line (cur + 1) e;
               skipped = skip_word line cur e
           in if skipped \<le> cur then Inl EXPECT_OUTPUT_FILENAME
              else Inr (skipped, st\<lparr>has_file_output := True\<rparr>))"

definition scan_pipe :: "nat \<Rightarrow> scan \<Rightarrow> int + (nat \<times> scan)" where
  "scan_pipe cur st =
     (if has_file_output st then Inl UNEXPECTED_FILE_OUTPUT
      else if \<not> has_token_last st then Inl UNEXPECTED_PIPELINE
      else Inr (cur + 1, st\<lparr>has_token_last := False, sc_num_commands := sc_num_commands st + 1\<rparr>))"

definition scan_step :: "byte list \<Rightarrow> nat \<Rightarrow> nat \<Rightarrow> scan \<Rightarrow> int + (nat \<times> scan)" where
  "scan_step line e cur st =
     (if line ! cur = ch_amp then Inl UNEXPECTED_AMPERSAND
      else if line ! cur = ch_lt then scan_input line e cur st
      else if line ! cur = ch_gt then scan_output line e cur st
      else if line ! cur = ch_bar then scan_pipe cur st
      else Inr (skip_word line cur e, st\<lparr>has_token_last := True, total_strings := total_strings st + 1\<rparr>))"

lemma skip_word_le: "cur \<le> skip_word line cur e"
proof (induction line cur e rule: skip_word.induct)
  case (1 line cur e)
  then show ?case by (subst skip_word.simps) auto
qed

lemma skip_space_le: "cur \<le> skip_space line cur e"
proof (induction line cur e rule: skip_space.induct)
  case (1 line cur e)
  then show ?case by (subst skip_space.simps) auto
qed

lemma skip_advances:
  assumes "cur < e" "word_char (line ! cur) \<or> isspace (line ! cur)"
  shows "cur < skip_space line (skip_word line cur e) e"
proof (cases "word_char (line ! cur)")
  case True
  then have "Suc cur \<le> skip_word line cur e"
    using assms(1) skip_word_le [of "Suc cur" line e] by (subst skip_word.simps) simp
  then show ?thesis using skip_space_le [of "skip_word line cur e" line e] by simp
next
  case False
  then have "skip_word line cur e = cur" by (subst skip_word.simps) simp
  then show ?thesis
    using assms False skip_space_le [of "Suc cur" line e] by (subst skip_space.simps) simp
qed

lemma plain_char:
  assumes "word_char c \<or> isspace c"
  shows "c \<noteq> ch_amp" "c \<noteq> ch_lt" "c \<noteq> ch_gt" "c \<noteq> ch_bar"
  using assms by (auto simp: word_char_def isspace_def ch_defs)

lemma scan_advances:
  assumes "scan_step line e cur st = Inr (cur', st')" "cur < e"
  shows "cur < skip_space line cur' e"
proof (cases "word_char (line ! cur) \<or> isspace (line ! cur)")
  case True
  then show ?thesis
    using assms skip_advances plain_char [OF True] by (auto simp: scan_step_def)
next
  case False
  then have "cur < cur'"
    using assms skip_space_le [of "Suc cur" line e] skip_space_le [of "Suc (Suc cur)" line e]
    by (auto simp: scan_step_def scan_input_def scan_output_def scan_pipe_def word_char_def Let_def
        split: if_split_asm)
  then show ?thesis using skip_space_le [of cur' line e] by simp
qed

function scan_loop :: "byte list \<Rightarrow> nat \<Rightarrow> nat \<Rightarrow> scan \<Rightarrow> int + scan" where
  "scan_loop line e cur st =
     (if cur < e then
        (case scan_step line e cur st of
           Inl err \<Rightarrow> Inl err
         | Inr (cur', st') \<Rightarrow> scan_loop line e (skip_space line cur' e) st')
      else Inr st)"
  by auto
termination
  by (relation "measure (\<lambda>(line, e, cur, st). e - cur)") (auto dest: scan_advances intro: diff_less_mono2)

declare scan_loop.simps [simp del]

section \<open>Second pass\<close>

record parsed_command =
  is_background :: bool
  is_file_append :: bool
  stdin_file :: "nat option"
  stdout_file :: "nat option"
  num_commands :: nat
  commands :: "nat option list"
  arguments :: "nat option option list"
  original_string :: "byte option list"

record fill = parsed_command +
  cur_cmd :: nat
  argv_ptr :: nat

definition terminate_at :: "nat \<Rightarrow> fill \<Rightarrow> fill option" where
  "terminate_at i p = do {
     str \<leftarrow> set_at i (Some 0) (original_string p);
     Some (p\<lparr>original_string := str\<rparr>)
   }"

definition push_arg :: "nat option \<Rightarrow> fill \<Rightarrow> fill option" where
  "push_arg v p = do {
     args \<leftarrow> set_at (argv_ptr p) (Some v) (arguments p);
     Some (p\<lparr>arguments := args, argv_ptr := argv_ptr p + 1\<rparr>)
   }"

definition fill_input :: "byte list \<Rightarrow> nat \<Rightarrow> nat \<Rightarrow> nat \<Rightarrow> fill \<Rightarrow> (nat \<times> fill) option" where
  "fill_input line start e cur p = do {
     let cur = skip_space line (cur + 1) e;
     let p = p\<lparr>stdin_file := Some (cur - start)\<rparr>;
     let cur = skip_word line cur e;
     p \<leftarrow> terminate_at (cur - start) p;
     Some (cur, p)
   }"

definition fill_output :: "byte list \<Rightarrow> nat \<Rightarrow> nat \<Rightarrow> nat \<Rightarrow> fill \<Rightarrow> (nat \<times> fill) option" where
  "fill_output line start e cur p = do {
     let cur = (if is_file_append p then cur + 1 else cur);
     let cur = skip_space line (cur + 1) e;
     let p = p\<lparr>stdout_file := Some (cur - start)\<rparr>;
     let cur = skip_word line cur e;
     p \<leftarrow> terminate_at (cur - start) p;
     Some (cur, p)
   }"

definition fill_pipe :: "nat \<Rightarrow> fill \<Rightarrow> (nat \<times> fill) option" where
  "fill_pipe cur p = do {
     p \<leftarrow> push_arg None p;
     cmds \<leftarrow> set_at (cur_cmd p + 1) (Some (argv_ptr p)) (commands p);
     Some (cur + 1, p\<lparr>cur_cmd := cur_cmd p + 1, commands := cmds\<rparr>)
   }"

definition fill_word :: "byte list \<Rightarrow> nat \<Rightarrow> nat \<Rightarrow> nat \<Rightarrow> fill \<Rightarrow> (nat \<times> fill) option" where
  "fill_word line start e cur p = do {
     p \<leftarrow> push_arg (Some (cur - start)) p;
     let cur = skip_word line cur e;
     p \<leftarrow> terminate_at (cur - start) p;
     Some (cur, p)
   }"

definition fill_step :: "byte list \<Rightarrow> nat \<Rightarrow> nat \<Rightarrow> nat \<Rightarrow> fill \<Rightarrow> (nat \<times> fill) option" where
  "fill_step line start e cur p =
     (if line ! cur = ch_lt then fill_input line start e cur p
      else if line ! cur = ch_gt then fill_output line start e cur p
      else if line ! cur = ch_bar then fill_pipe cur p
      else fill_word line start e cur p)"

text \<open>The loop has no case for an ampersand, where it would not move on.\<close>

partial_function (option) fill_loop :: "byte list \<Rightarrow> nat \<Rightarrow> nat \<Rightarrow> nat \<Rightarrow> fill \<Rightarrow> fill option" where
  "fill_loop line start e cur p =
     (if cur < e then do {
        (cur, p) \<leftarrow> fill_step line start e cur p;
        fill_loop line start e (skip_space line cur e) p
      }
      else Some p)"

declare fill_loop.simps [code]

definition fill_all :: "byte list \<Rightarrow> nat \<Rightarrow> nat \<Rightarrow> bool \<Rightarrow> scan \<Rightarrow> parsed_command option" where
  "fill_all line start e bg st = do {
     let n = sc_num_commands st + 1;
     let p = \<lparr>is_background = bg, is_file_append = sc_file_append st, stdin_file = None,
       stdout_file = None, num_commands = n, commands = replicate n None,
       arguments = replicate (n + total_strings st) None,
       original_string = map Some (drop start (take e line)) @ [None], cur_cmd = 0, argv_ptr = 0\<rparr>;
     cmds \<leftarrow> set_at 0 (Some 0) (commands p);
     p \<leftarrow> fill_loop line start e start (p\<lparr>commands := cmds\<rparr>);
     args \<leftarrow> set_at (argv_ptr p) (Some None) (arguments p);
     Some (parsed_command.truncate (p\<lparr>arguments := args\<rparr>))
   }"

section \<open>parse_command\<close>

definition empty_command :: parsed_command where
  "empty_command = \<lparr>is_background = False, is_file_append = False, stdin_file = None,
     stdout_file = None, num_commands = 0, commands = [], arguments = [], original_string = []\<rparr>"

text \<open>
  \<open>calloc_ok\<close> and \<open>realloc_ok\<close> say whether the two allocations succeed. On success the code is 0
  and comes with the command; otherwise \<open>*result\<close> is not changed.
\<close>

definition parse_command :: "bool \<Rightarrow> bool \<Rightarrow> byte list \<Rightarrow> (int \<times> parsed_command option) option" where
  "parse_command calloc_ok realloc_ok line =
     (let e = comment_from line 0 (length line);
          start = skip_space line 0 e;
          e = trim_end line start e
      in if \<not> calloc_ok then Some (-1, None)
         else if start = e then Some (0, Some empty_command)
         else let bg = (line ! (e - 1) = ch_amp);
                  e = (if bg then e - 1 else e)
              in case scan_loop line e start scan_init of
                   Inl err \<Rightarrow> Some (err, None)
                 | Inr st \<Rightarrow>
                     if total_strings st = 0 then
                       if bg \<or> has_file_input st \<or> has_file_output st then Some (EXPECT_COMMANDS, None)
                       else Some (0, Some (empty_command\<lparr>is_background := bg,
                              is_file_append := sc_file_append st, num_commands := sc_num_commands st\<rparr>))
                     else if \<not> has_token_last st then Some (UNEXPECTED_PIPELINE, None)
                     else if \<not> realloc_ok then Some (-1, None)
                     else map_option (\<lambda>p. (0, Some p)) (fill_all line start e bg st))"

section \<open>Printing\<close>

text \<open>The vector of arguments at an index, up to its null pointer.\<close>

fun argv_at :: "byte option list \<Rightarrow> nat option option list \<Rightarrow> byte list list option" where
  "argv_at str [] = None"
| "argv_at str (None # xs) = None"
| "argv_at str (Some None # xs) = Some []"
| "argv_at str (Some (Some off) # xs) = do {
     w \<leftarrow> c_string (drop off str);
     ws \<leftarrow> argv_at str xs;
     Some (w # ws)
   }"

definition stage_argv :: "parsed_command \<Rightarrow> nat \<Rightarrow> byte list list option" where
  "stage_argv p i = do {
     c \<leftarrow> (if i < length (commands p) then commands p ! i else None);
     argv_at (original_string p) (drop c (arguments p))
   }"

definition print_input :: "parsed_command \<Rightarrow> nat \<Rightarrow> byte list option" where
  "print_input p i =
     (case stdin_file p of
        Some off \<Rightarrow> if i = 0 then do {
            f \<leftarrow> c_string (drop off (original_string p));
            Some ([ch_lt, 32] @ f @ [32])
          } else Some []
      | None \<Rightarrow> Some [])"

definition print_output :: "parsed_command \<Rightarrow> nat \<Rightarrow> byte list option" where
  "print_output p i =
     (if i = num_commands p - 1 then
        (case stdout_file p of
           Some off \<Rightarrow> do {
             f \<leftarrow> c_string (drop off (original_string p));
             Some ((if is_file_append p then [ch_gt, ch_gt, 32] else [ch_gt, 32]) @ f @ [32])
           }
         | None \<Rightarrow> Some [])
      else Some [ch_bar, 32])"

definition print_stage :: "parsed_command \<Rightarrow> nat \<Rightarrow> byte list option" where
  "print_stage p i = do {
     argv \<leftarrow> stage_argv p i;
     inp \<leftarrow> print_input p i;
     out \<leftarrow> print_output p i;
     Some (concat (map (\<lambda>a. a @ [32]) argv) @ inp @ out)
   }"

definition print_parsed_command :: "parsed_command \<Rightarrow> byte list option" where
  "print_parsed_command p = do {
     stages \<leftarrow> those (map (print_stage p) [0..<num_commands p]);
     Some (concat stages @ (if is_background p then [ch_amp] else []) @ [10])
   }"

definition print_parser_errcode :: "int \<Rightarrow> byte list" where
  "print_parser_errcode err_code =
     (if err_code = UNEXPECTED_FILE_INPUT then ascii ''UNEXPECTED INPUT REDIRECTION TO A FILE'' @ [10]
      else if err_code = UNEXPECTED_FILE_OUTPUT then ascii ''UNEXPECTED OUTPUT REDIRECTION TO A FILE'' @ [10]
      else if err_code = UNEXPECTED_PIPELINE then ascii ''UNEXPECTED PIPE'' @ [10]
      else if err_code = UNEXPECTED_AMPERSAND then ascii ''UNEXPECTED AMPERESAND'' @ [10]
      else if err_code = EXPECT_INPUT_FILENAME
        then ascii ''COULD NOT FINE FILENAME FOR INPUT REDIRECTION \"<\"'' @ [10]
      else if err_code = EXPECT_OUTPUT_FILENAME
        then ascii ''COULD NOT FIND FILENAME FOR OUTPUT REDIRECTION \"<\"'' @ [10]
      else if err_code = EXPECT_COMMANDS then ascii ''COULD NOT FIND ANY COMMANDS OR ARGS'' @ [10]
      else [])"

section \<open>Specification\<close>

text \<open>What a parsed command means: its strings, without the memory they are in.\<close>

record command_line =
  cl_background :: bool
  cl_append :: bool
  cl_in :: "byte list option"
  cl_out :: "byte list option"
  cl_argvs :: "byte list list list"

definition file_at :: "parsed_command \<Rightarrow> nat option \<Rightarrow> byte list option option" where
  "file_at p off = (case off of None \<Rightarrow> Some None
     | Some i \<Rightarrow> map_option Some (c_string (drop i (original_string p))))"

definition view :: "parsed_command \<Rightarrow> command_line option" where
  "view p = do {
     inp \<leftarrow> file_at p (stdin_file p);
     out \<leftarrow> file_at p (stdout_file p);
     argvs \<leftarrow> those (map (stage_argv p) [0..<num_commands p]);
     Some \<lparr>cl_background = is_background p, cl_append = is_file_append p, cl_in = inp, cl_out = out,
           cl_argvs = argvs\<rparr>
   }"

datatype token = Word "byte list" | In | Out bool | Pipe | Amp

function lex :: "byte list \<Rightarrow> token list" where
  "lex [] = []"
| "lex (c # cs) =
     (if isspace c then lex cs
      else if c = ch_amp then Amp # lex cs
      else if c = ch_lt then In # lex cs
      else if c = ch_gt then
        (case cs of d # ds \<Rightarrow> if d = ch_gt then Out True # lex ds else Out False # lex cs
         | [] \<Rightarrow> [Out False])
      else if c = ch_bar then Pipe # lex cs
      else Word (c # takeWhile word_char cs) # lex (dropWhile word_char cs))"
  by pat_completeness auto
termination
  by (relation "measure length") (auto simp: less_Suc_eq_le length_dropWhile_le)

record parse_state =
  g_in :: "byte list option"
  g_out :: "byte list option"
  g_append :: bool
  g_done :: "byte list list list"
  g_cur :: "byte list list"

definition g_init :: parse_state where
  "g_init = \<lparr>g_in = None, g_out = None, g_append = False, g_done = [], g_cur = []\<rparr>"

definition filename :: "token list \<Rightarrow> (byte list \<times> token list) option" where
  "filename ts = (case ts of Word w # ts \<Rightarrow> Some (w, ts) | _ \<Rightarrow> None)"

fun gstep :: "token \<Rightarrow> token list \<Rightarrow> parse_state \<Rightarrow> int + (token list \<times> parse_state)" where
  "gstep (Word w) ts g = Inr (ts, g\<lparr>g_cur := g_cur g @ [w]\<rparr>)"
| "gstep In ts g =
     (if g_done g \<noteq> [] \<or> g_in g \<noteq> None then Inl UNEXPECTED_FILE_INPUT
      else case filename ts of None \<Rightarrow> Inl EXPECT_INPUT_FILENAME
           | Some (w, ts) \<Rightarrow> Inr (ts, g\<lparr>g_in := Some w\<rparr>))"
| "gstep (Out a) ts g =
     (if g_out g \<noteq> None then Inl UNEXPECTED_FILE_OUTPUT
      else case filename ts of None \<Rightarrow> Inl EXPECT_OUTPUT_FILENAME
           | Some (w, ts) \<Rightarrow> Inr (ts, g\<lparr>g_out := Some w, g_append := a\<rparr>))"
| "gstep Pipe ts g =
     (if g_out g \<noteq> None then Inl UNEXPECTED_FILE_OUTPUT
      else if g_cur g = [] then Inl UNEXPECTED_PIPELINE
      else Inr (ts, g\<lparr>g_done := g_done g @ [g_cur g], g_cur := []\<rparr>))"
| "gstep Amp ts g = Inl UNEXPECTED_AMPERSAND"

lemma filename_length: "filename ts = Some (w, ts') \<Longrightarrow> ts = Word w # ts'"
  by (auto simp: filename_def split: list.splits token.splits)

lemma gstep_length: "gstep t ts g = Inr (ts', g') \<Longrightarrow> length ts' \<le> length ts"
  by (cases t) (auto dest: filename_length split: if_split_asm option.splits)

function grammar :: "token list \<Rightarrow> parse_state \<Rightarrow> int + parse_state" where
  "grammar [] g = Inr g"
| "grammar (t # ts) g = (case gstep t ts g of Inl err \<Rightarrow> Inl err | Inr (ts', g') \<Rightarrow> grammar ts' g')"
  by pat_completeness auto
termination
  by (relation "measure (\<lambda>(ts, g). length ts)") (auto dest: gstep_length)

definition trim :: "byte list \<Rightarrow> byte list" where
  "trim s = rev (dropWhile isspace (rev (dropWhile isspace s)))"

definition parse_spec :: "byte list \<Rightarrow> int + command_line" where
  "parse_spec line =
     (let s = trim (takeWhile (\<lambda>c. c \<noteq> ch_hash) line)
      in if s = [] then Inr \<lparr>cl_background = False, cl_append = False, cl_in = None, cl_out = None, cl_argvs = []\<rparr>
         else let bg = (last s = ch_amp); s = (if bg then butlast s else s)
              in case grammar (lex s) g_init of
                   Inl err \<Rightarrow> Inl err
                 | Inr g \<Rightarrow>
                     if g_done g = [] \<and> g_cur g = [] then Inl EXPECT_COMMANDS
                     else if g_cur g = [] then Inl UNEXPECTED_PIPELINE
                     else Inr \<lparr>cl_background = bg, cl_append = g_append g, cl_in = g_in g,
                            cl_out = g_out g, cl_argvs = g_done g @ [g_cur g]\<rparr>)"

end
