(* ===== verification/Parser_Scan.thy ===== *)
theory Parser_Scan
  imports Parser
begin

text \<open>
  The first pass of the parser computes the grammar of the specification: positions in the line
  against the tokens of the rest of the line.
\<close>

section \<open>The rest of the line\<close>

definition rest :: "byte list \<Rightarrow> nat \<Rightarrow> nat \<Rightarrow> byte list" where
  "rest line e cur = drop cur (take e line)"

lemma rest_Cons: "cur < e \<Longrightarrow> e \<le> length line \<Longrightarrow> rest line e cur = line ! cur # rest line e (Suc cur)"
  by (simp add: rest_def Cons_nth_drop_Suc [symmetric])

lemma rest_Nil [simp]: "rest line e e = []"
  by (simp add: rest_def)

lemma length_rest: "e \<le> length line \<Longrightarrow> length (rest line e cur) = e - cur"
  by (simp add: rest_def)

lemma rest_drop: "drop n (rest line e cur) = rest line e (cur + n)"
  by (simp add: rest_def add.commute)

lemma skip_space_eq:
  assumes "e \<le> length line" "cur \<le> e"
  shows "skip_space line cur e = cur + length (takeWhile isspace (rest line e cur))"
  using assms
proof (induction line cur e rule: skip_space.induct)
  case (1 line cur e)
  then show ?case
    using rest_Cons [of cur e line]
    by (subst skip_space.simps) (cases "cur < e"; auto)
qed

lemma skip_word_eq:
  assumes "e \<le> length line" "cur \<le> e"
  shows "skip_word line cur e = cur + length (takeWhile word_char (rest line e cur))"
  using assms
proof (induction line cur e rule: skip_word.induct)
  case (1 line cur e)
  then show ?case
    using rest_Cons [of cur e line]
    by (subst skip_word.simps) (cases "cur < e"; auto)
qed

lemma drop_takeWhile: "drop (length (takeWhile P xs)) xs = dropWhile P xs"
  by (metis append_eq_conv_conj takeWhile_dropWhile_id)

lemma skip_rest:
  assumes "e \<le> length line" "cur \<le> e"
  shows "rest line e (skip_space line cur e) = dropWhile isspace (rest line e cur)"
    "rest line e (skip_word line cur e) = dropWhile word_char (rest line e cur)"
    "skip_space line cur e \<le> e" "skip_word line cur e \<le> e"
  using length_takeWhile_le [of isspace "rest line e cur"] length_takeWhile_le [of word_char "rest line e cur"]
    assms length_rest [OF assms(1), of cur]
  by (simp_all add: skip_space_eq skip_word_eq rest_drop [symmetric] drop_takeWhile)

definition unspaced :: "byte list \<Rightarrow> bool" where
  "unspaced s \<longleftrightarrow> (s = [] \<or> \<not> isspace (hd s))"

lemma unspaced_dropWhile [simp]: "unspaced (dropWhile isspace s)"
  by (metis hd_dropWhile unspaced_def)

lemma lex_space [simp]: "lex (dropWhile isspace s) = lex s"
  by (induction s) auto

lemma lex_word:
  assumes "s \<noteq> []" "word_char (hd s)"
  shows "lex s = Word (takeWhile word_char s) # lex (dropWhile word_char s)"
  using assms by (cases s) (auto simp: word_char_def)

lemma filename_lex:
  assumes "unspaced s"
  shows "filename (lex s) = (if takeWhile word_char s = [] then None
    else Some (takeWhile word_char s, lex (dropWhile word_char s)))"
proof (cases "takeWhile word_char s = []")
  case True
  then show ?thesis using assms
    by (cases s) (auto simp: filename_def unspaced_def word_char_def split: list.splits if_split_asm)
next
  case False
  then show ?thesis using lex_word [of s] by (cases s) (auto simp: filename_def split: if_split_asm)
qed

section \<open>The first pass computes the grammar\<close>

definition scan_of :: "parse_state \<Rightarrow> scan" where
  "scan_of g = \<lparr>sc_num_commands = length (g_done g), sc_file_append = g_append g,
     total_strings = sum_list (map length (g_done g)) + length (g_cur g),
     has_token_last = (g_cur g \<noteq> []), has_file_input = (g_in g \<noteq> None), has_file_output = (g_out g \<noteq> None)\<rparr>"

definition g_ok :: "parse_state \<Rightarrow> bool" where
  "g_ok g \<longleftrightarrow> (g_out g = None \<longrightarrow> \<not> g_append g) \<and> (\<forall>a\<in>set (g_done g). a \<noteq> [])"

lemma g_ok_step: "gstep t ts g = Inr (ts', g') \<Longrightarrow> g_ok g \<Longrightarrow> g_ok g'"
  by (cases t) (auto simp: g_ok_def split: if_split_asm option.splits)

text \<open>The position after one round of either pass, and the token there.\<close>

definition next_pos :: "byte list \<Rightarrow> nat \<Rightarrow> nat \<Rightarrow> nat" where
  "next_pos line e cur =
     (let c = line ! cur;
          n = (if c = ch_gt \<and> cur + 1 < e \<and> line ! (cur + 1) = ch_gt then cur + 2 else cur + 1)
      in if c = ch_lt \<or> c = ch_gt then skip_word line (skip_space line n e) e
         else if c = ch_bar then cur + 1
         else skip_word line cur e)"

lemma token_at:
  assumes e: "e \<le> length line" and cur: "cur < e" and ns: "\<not> isspace (line ! cur)"
  shows "line ! cur = ch_amp \<Longrightarrow> lex (rest line e cur) = Amp # lex (rest line e (cur + 1))"
    "line ! cur = ch_bar \<Longrightarrow> lex (rest line e cur) = Pipe # lex (rest line e (cur + 1))"
    "line ! cur = ch_lt \<Longrightarrow> lex (rest line e cur) = In # lex (rest line e (skip_space line (cur + 1) e))"
    "line ! cur = ch_gt \<Longrightarrow> cur + 1 < e \<and> line ! (cur + 1) = ch_gt \<Longrightarrow>
       lex (rest line e cur) = Out True # lex (rest line e (skip_space line (cur + 2) e))"
    "line ! cur = ch_gt \<Longrightarrow> \<not> (cur + 1 < e \<and> line ! (cur + 1) = ch_gt) \<Longrightarrow>
       lex (rest line e cur) = Out False # lex (rest line e (skip_space line (cur + 1) e))"
    "word_char (line ! cur) \<Longrightarrow> lex (rest line e cur) =
       Word (takeWhile word_char (rest line e cur)) # lex (rest line e (skip_word line cur e))"
proof -
  note r = rest_Cons [OF cur e] rest_Cons [of "cur + 1", OF _ e]
  have sp: "lex (rest line e (skip_space line n e)) = lex (rest line e n)" if "n \<le> e" for n
    using skip_rest(1) [OF e that] by simp
  show "lex (rest line e cur) = Amp # lex (rest line e (cur + 1))" if "line ! cur = ch_amp"
    using r that ns by simp
  show "lex (rest line e cur) = Pipe # lex (rest line e (cur + 1))" if "line ! cur = ch_bar"
    using r that ns by (simp add: ch_defs)
  show "lex (rest line e cur) = In # lex (rest line e (skip_space line (cur + 1) e))" if "line ! cur = ch_lt"
    using r that ns sp [of "cur + 1"] cur by (simp add: ch_defs)
  show "lex (rest line e cur) = Out True # lex (rest line e (skip_space line (cur + 2) e))"
    if "line ! cur = ch_gt" "cur + 1 < e \<and> line ! (cur + 1) = ch_gt"
    using r that ns sp [of "cur + 2"] cur by (simp add: ch_defs)
  show "lex (rest line e cur) = Out False # lex (rest line e (skip_space line (cur + 1) e))"
    if "line ! cur = ch_gt" "\<not> (cur + 1 < e \<and> line ! (cur + 1) = ch_gt)"
  proof (cases "cur + 1 < e")
    case True
    then show ?thesis using r that ns sp [of "cur + 1"] cur by (simp add: ch_defs)
  next
    case False
    then have "rest line e (cur + 1) = []" using e by (simp add: rest_def)
    then show ?thesis using r(1) that ns sp [of "cur + 1"] cur by (simp add: ch_defs)
  qed
  show "lex (rest line e cur) = Word (takeWhile word_char (rest line e cur)) # lex (rest line e (skip_word line cur e))"
    if "word_char (line ! cur)"
    using lex_word [of "rest line e cur"] r(1) that skip_rest(2) [OF e, of cur] cur by simp
qed

lemma filename_at:
  assumes "e \<le> length line" "n \<le> e"
  shows "filename (lex (rest line e (skip_space line n e))) =
    (let c = skip_space line n e; c' = skip_word line c e
     in if c' \<le> c then None else Some (take (c' - c) (rest line e c), lex (rest line e c')))"
proof -
  let ?c = "skip_space line n e"
  let ?w = "takeWhile word_char (rest line e ?c)"
  have c: "?c \<le> e" "unspaced (rest line e ?c)" using skip_rest(1,3) [OF assms] by simp_all
  have w: "skip_word line ?c e = ?c + length ?w" using skip_word_eq [OF assms(1) c(1)] .
  have "take (length ?w) (rest line e ?c) = ?w" by (metis append_eq_conv_conj takeWhile_dropWhile_id)
  then show ?thesis
    using filename_lex [OF c(2)] w skip_rest(2) [OF assms(1) c(1)] by (simp add: Let_def)
qed

lemma scan_step_grammar:
  assumes e: "e \<le> length line" and cur: "cur < e" and ns: "\<not> isspace (line ! cur)" and g: "g_ok g"
  shows "\<exists>t ts. lex (rest line e cur) = t # ts \<and>
    (case gstep t ts g of Inl err \<Rightarrow> scan_step line e cur (scan_of g) = Inl err
     | Inr (ts', g') \<Rightarrow> scan_step line e cur (scan_of g) = Inr (next_pos line e cur, scan_of g') \<and>
         lex (rest line e (next_pos line e cur)) = ts')"
proof -
  note tok = token_at [OF e cur ns]
  consider "line ! cur = ch_amp" | "line ! cur = ch_bar" | "line ! cur = ch_lt" | "line ! cur = ch_gt"
    | "word_char (line ! cur)" using ns by (auto simp: word_char_def)
  then show ?thesis
  proof cases
    case 1
    then show ?thesis using tok(1) by (simp add: scan_step_def)
  next
    case 2
    then show ?thesis using tok(2)
      by (simp add: scan_step_def scan_pipe_def scan_of_def next_pos_def ch_defs)
  next
    case 3
    then show ?thesis using tok(3) filename_at [OF e, of "cur + 1"] cur
      by (simp add: scan_step_def scan_input_def scan_of_def next_pos_def ch_defs Let_def)
  next
    case 4
    then show ?thesis
      using tok(4,5) filename_at [OF e, of "cur + 1"] filename_at [OF e, of "cur + 2"] cur g
      by (cases "cur + 1 < e \<and> line ! (cur + 1) = ch_gt")
        (auto simp: scan_step_def scan_output_def scan_of_def next_pos_def g_ok_def ch_defs Let_def)
  next
    case 5
    then show ?thesis using tok(6) plain_char
      by (simp add: scan_step_def scan_of_def next_pos_def)
  qed
qed

lemma next_pos_bounds:
  assumes e: "e \<le> length line" and cur: "cur < e" and c: "\<not> isspace (line ! cur)" "line ! cur \<noteq> ch_amp"
  shows "cur < next_pos line e cur" "next_pos line e cur \<le> e"
proof -
  have "cur < skip_word line cur e" if "word_char (line ! cur)"
    using that cur skip_word_le [of "Suc cur" line e] by (subst skip_word.simps) simp
  moreover have "cur < skip_word line (skip_space line n e) e" if "cur < n" for n
    using skip_space_le [of n line e] skip_word_le [of "skip_space line n e" line e] that by simp
  moreover have "skip_word line (skip_space line n e) e \<le> e" if "n \<le> e" for n
    using skip_rest(3,4) [OF e] that by simp
  ultimately show "cur < next_pos line e cur" "next_pos line e cur \<le> e"
    using c cur skip_rest(4) [OF e, of cur]
    by (simp_all add: next_pos_def Let_def word_char_def)
qed

lemma scan_loop_grammar:
  assumes "e \<le> length line" "cur \<le> e" "unspaced (rest line e cur)" "g_ok g"
  shows "scan_loop line e cur (scan_of g) = map_sum id scan_of (grammar (lex (rest line e cur)) g)"
  using assms(2-4)
proof (induction "e - cur" arbitrary: cur g rule: less_induct)
  case less
  show ?case
  proof (cases "cur < e")
    case False
    then show ?thesis using less.prems(1) by (subst scan_loop.simps) simp
  next
    case True
    then have ns: "\<not> isspace (line ! cur)"
      using less.prems(2) rest_Cons [OF True assms(1)] by (simp add: unspaced_def)
    obtain t ts where t: "lex (rest line e cur) = t # ts"
      "case gstep t ts g of Inl err \<Rightarrow> scan_step line e cur (scan_of g) = Inl err
       | Inr (ts', g') \<Rightarrow> scan_step line e cur (scan_of g) = Inr (next_pos line e cur, scan_of g') \<and>
           lex (rest line e (next_pos line e cur)) = ts'"
      using scan_step_grammar [OF assms(1) True ns less.prems(3)] by blast
    show ?thesis
    proof (cases "gstep t ts g")
      case (Inl err)
      then show ?thesis using t True by (subst scan_loop.simps) simp
    next
      case (Inr x)
      obtain ts' g' where x: "x = (ts', g')" by (cases x)
      let ?n = "next_pos line e cur"
      have amp: "line ! cur \<noteq> ch_amp" using Inr t token_at(1) [OF assms(1) True ns] by auto
      note b = next_pos_bounds [OF assms(1) True ns amp]
      let ?m = "skip_space line ?n e"
      have m: "e - ?m < e - cur" "?m \<le> e" "rest line e ?m = dropWhile isspace (rest line e ?n)"
        using b skip_space_le [of ?n line e] skip_rest(1,3) [OF assms(1) b(2)] True by auto
      have "scan_loop line e ?m (scan_of g') = map_sum id scan_of (grammar (lex (rest line e ?m)) g')"
        using less.hyps [OF m(1,2)] m(3) g_ok_step [OF Inr [unfolded x] less.prems(3)] by simp
      then show ?thesis using t Inr x True m(3) by (subst scan_loop.simps) simp
    qed
  qed
qed

end
