(* ===== verification/Parser_Fill.thy ===== *)
theory Parser_Fill
  imports Parser_Scan
begin

text \<open>
  The second pass of the parser: it stays inside its memory and builds the strings and argument
  vectors that the grammar describes. \<open>parse_command_spec\<close> puts both passes together.
\<close>

section \<open>The arguments array\<close>

definition flat_args :: "nat list list \<Rightarrow> nat option option list" where
  "flat_args D = concat (map (\<lambda>ps. map (\<lambda>off. Some (Some off)) ps @ [Some None]) D)"

lemma flat_args_simps [simp]:
  "flat_args [] = []" "flat_args (ps # D) = map (\<lambda>off. Some (Some off)) ps @ Some None # flat_args D"
  "flat_args (D @ E) = flat_args D @ flat_args E"
  by (simp_all add: flat_args_def)

lemma length_flat_args: "length (flat_args D) = length D + sum_list (map length D)"
  by (induction D) simp_all

lemma argv_at_ptrs:
  "list_all2 (stored str lim) ps ws \<Longrightarrow>
    argv_at str (map (\<lambda>off. Some (Some off)) ps @ Some None # xs) = Some ws"
  by (induction rule: list_all2_induct) (auto simp: stored_def)

section \<open>The grammar only adds\<close>

lemma gstep_mono:
  assumes "gstep t ts g = Inr (ts', g')"
  shows "length (g_done g) \<le> length (g_done g')"
    "sum_list (map length (g_done g)) + length (g_cur g) \<le> sum_list (map length (g_done g')) + length (g_cur g')"
    "g_out g \<noteq> None \<Longrightarrow> g_out g' = g_out g \<and> g_append g' = g_append g"
  using assms by (cases t; auto split: if_split_asm option.splits)+

lemma grammar_mono:
  "grammar ts g = Inr gf \<Longrightarrow> length (g_done g) \<le> length (g_done gf) \<and>
    sum_list (map length (g_done g)) + length (g_cur g) \<le> sum_list (map length (g_done gf)) + length (g_cur gf) \<and>
    (g_out g \<noteq> None \<longrightarrow> g_out gf = g_out g \<and> g_append gf = g_append g)"
proof (induction ts g rule: grammar.induct)
  case (2 t ts g)
  then show ?case
  proof (cases "gstep t ts g")
    case (Inr x)
    obtain ts' g' where x: "x = (ts', g')" by (cases x)
    have "grammar ts' g' = Inr gf" using 2(2) Inr x by simp
    then show ?thesis using 2(1) [OF Inr x [symmetric]] gstep_mono [OF Inr [unfolded x]] by auto
  qed simp
qed simp

text \<open>Storing the word at \<open>c\<close>.\<close>

definition intact :: "byte list \<Rightarrow> nat \<Rightarrow> nat \<Rightarrow> nat \<Rightarrow> byte option list \<Rightarrow> bool" where
  "intact line start e cur str \<longleftrightarrow> length str = Suc (e - start) \<and>
     (\<forall>j. cur \<le> j \<and> j < e \<and> word_char (line ! j) \<longrightarrow> str ! (j - start) = Some (line ! j))"

lemma skip_word_stops:
  assumes "e \<le> length line" "c \<le> e" "skip_word line c e < e"
  shows "\<not> word_char (line ! skip_word line c e)"
proof -
  have "rest line e (skip_word line c e) = dropWhile word_char (rest line e c)"
    using skip_rest(2) [OF assms(1,2)] .
  then show ?thesis
    using rest_Cons [OF assms(3,1)] hd_dropWhile [of word_char "rest line e c"] by (metis list.distinct(1) list.sel(1))
qed

lemma word_region:
  assumes e: "e \<le> length line" and c: "c \<le> e" and j: "c \<le> j" "j < skip_word line c e"
  shows "word_char (line ! j)"
proof -
  let ?w = "takeWhile word_char (rest line e c)"
  have l: "j - c < length ?w" using j skip_word_eq [OF e c] by simp
  have "?w ! (j - c) = rest line e c ! (j - c)" using l by (simp add: takeWhile_nth)
  moreover have "\<dots> = line ! j"
    using j skip_rest(4) [OF e c] e by (simp add: rest_def)
  ultimately show ?thesis using nth_mem [OF l] set_takeWhileD by metis
qed

lemma store_word:
  assumes e: "e \<le> length line" and c: "start \<le> cur" "cur \<le> c" "c < skip_word line c e" "c \<le> e"
    and z: "0 \<notin> set line" and str: "intact line start e cur str"
  defines "c' \<equiv> skip_word line c e" and "str' \<equiv> str[skip_word line c e - start := Some 0]"
  shows "set_at (c' - start) (Some 0) str = Some str'" "intact line start e c' str'"
    "stored str' (c' - start) (c - start) (take (c' - c) (rest line e c))"
    "stored str (cur - start) off v \<Longrightarrow> stored str' (c' - start) off v"
proof -
  have b: "c' \<le> e" "c < c'" using skip_rest(4) [OF e c(4)] c(3) by (simp_all add: c'_def)
  show "set_at (c' - start) (Some 0) str = Some str'"
    using b str c by (simp add: set_at_def intact_def c'_def str'_def)
  show "stored str' (c' - start) off v" if "stored str (cur - start) off v"
    using stored_update [OF that, of "c' - start"] b c by (simp add: str'_def c'_def)
  have ne: "j \<noteq> c'" if "j < e" "word_char (line ! j)" for j
    using skip_word_stops [OF e c(4)] that by (auto simp: c'_def)
  show "intact line start e c' str'"
    unfolding intact_def
  proof (intro conjI allI impI)
    show "length str' = Suc (e - start)" using str by (simp add: intact_def str'_def)
    fix j assume j: "c' \<le> j \<and> j < e \<and> word_char (line ! j)"
    then have "j - start \<noteq> c' - start" using ne [of j] b c by auto
    then show "str' ! (j - start) = Some (line ! j)"
      using j str b c by (simp add: intact_def str'_def c'_def)
  qed
  let ?w = "take (c' - c) (rest line e c)"
  have lw: "length ?w = c' - c" using b length_rest [OF e, of c] by simp
  have "take (length ?w) (drop (c - start) str) = map Some ?w"
  proof (rule nth_equalityI)
    show "length (take (length ?w) (drop (c - start) str)) = length (map Some ?w)"
      using lw str b c by (simp add: intact_def)
    fix i assume "i < length (take (length ?w) (drop (c - start) str))"
    then have i: "i < c' - c" using lw by simp
    then have "str ! (c + i - start) = Some (line ! (c + i))"
      using word_region [OF e c(4), of "c + i"] str b c by (simp add: intact_def c'_def)
    moreover have "?w ! i = line ! (c + i)" using i e b by (simp add: rest_def)
    ultimately show "take (length ?w) (drop (c - start) str) ! i = map Some ?w ! i"
      using i lw c str b by (simp add: intact_def)
  qed
  moreover have "c - start + length ?w = c' - start" using lw b c by simp
  moreover have "0 \<notin> set ?w" using z by (auto simp: rest_def dest!: in_set_takeD in_set_dropD)
  ultimately show "stored str' (c' - start) (c - start) ?w"
    using stored_new [of ?w "c - start" str] str b c by (simp add: intact_def str'_def c'_def)
qed

lemma upgrade:
  assumes "\<And>off v. P off v \<Longrightarrow> Q off v"
  shows "rel_option P x y \<Longrightarrow> rel_option Q x y" "list_all2 P xs ys \<Longrightarrow> list_all2 Q xs ys"
    "list_all2 (list_all2 P) xss yss \<Longrightarrow> list_all2 (list_all2 Q) xss yss"
proof -
  show l: "list_all2 P xs ys \<Longrightarrow> list_all2 Q xs ys" for xs ys
    using list_all2_mono [of P xs ys Q] assms by blast
  show "rel_option P x y \<Longrightarrow> rel_option Q x y" using assms by (auto elim: option.rel_mono_strong)
  show "list_all2 (list_all2 P) xss yss \<Longrightarrow> list_all2 (list_all2 Q) xss yss" 
    using list_all2_mono [of "list_all2 P" xss yss "list_all2 Q"] l by blast
qed

section \<open>The second pass builds what the grammar says\<close>

text \<open>
  \<open>gf\<close> is the final result of the grammar, \<open>D\<close> and \<open>K\<close> are the offsets of the arguments of the
  finished commands and of the current one.
\<close>

definition filled :: "byte list \<Rightarrow> nat \<Rightarrow> nat \<Rightarrow> nat \<Rightarrow> bool \<Rightarrow> parse_state \<Rightarrow> parse_state \<Rightarrow>
    nat list list \<Rightarrow> nat list \<Rightarrow> fill \<Rightarrow> bool" where
  "filled line start e cur bg gf g D K p \<longleftrightarrow>
     (let str = original_string p; st = stored str (cur - start) in
      intact line start e cur str \<and>
      rel_option st (stdin_file p) (g_in g) \<and> rel_option st (stdout_file p) (g_out g) \<and>
      list_all2 (list_all2 st) D (g_done g) \<and> list_all2 st K (g_cur g) \<and>
      argv_ptr p = length (flat_args D) + length K \<and>
      take (argv_ptr p) (arguments p) = flat_args D @ map (\<lambda>off. Some (Some off)) K \<and>
      length (arguments p) = Suc (length (g_done gf)) + (sum_list (map length (g_done gf)) + length (g_cur gf)) \<and>
      cur_cmd p = length D \<and> length (commands p) = Suc (length (g_done gf)) \<and>
      take (Suc (length D)) (commands p) = map (\<lambda>i. Some (length (flat_args (take i D)))) [0..<Suc (length D)] \<and>
      num_commands p = Suc (length (g_done gf)) \<and> is_background p = bg \<and> is_file_append p = g_append gf)"

lemmas filled_defs = filled_def Let_def

lemma filled_later:
  assumes "filled line start e cur bg gf g D K p" "cur \<le> cur'"
  shows "filled line start e cur' bg gf g D K p"
proof -
  have "stored (original_string p) (cur' - start) off v" if "stored (original_string p) (cur - start) off v" for off v
    using stored_mono [OF that] assms(2) by simp
  note up = upgrade [of "stored (original_string p) (cur - start)", OF this]
  show ?thesis using assms up by (auto simp: filled_defs intact_def)
qed

lemma fill_file:
  assumes f: "filled line start e cur bg gf g D K p" and e: "e \<le> length line" and z: "0 \<notin> set line"
    and n: "start \<le> cur" "cur \<le> n" "n \<le> e"
  defines "c \<equiv> skip_space line n e" and "c' \<equiv> skip_word line (skip_space line n e) e"
  assumes c: "c < c'"
  shows "\<exists>p'. terminate_at (c' - start) (p\<lparr>stdin_file := Some (c - start)\<rparr>) = Some p' \<and>
      filled line start e c' bg gf (g\<lparr>g_in := Some (take (c' - c) (rest line e c))\<rparr>) D K p'"
    "\<exists>p'. terminate_at (c' - start) (p\<lparr>stdout_file := Some (c - start)\<rparr>) = Some p' \<and>
      filled line start e c' bg gf (g\<lparr>g_out := Some (take (c' - c) (rest line e c)), g_append := a\<rparr>) D K p'"
proof -
  let ?str = "original_string p"
  have b: "cur \<le> c" "c \<le> e" using skip_space_le [of n line e] skip_rest(3) [OF e n(3)] n by (simp_all add: c_def)
  have i: "intact line start e cur ?str" using f by (simp add: filled_defs)
  have c'': "c' = skip_word line c e" by (simp add: c_def c'_def)
  note s = store_word [OF e n(1) b(1) c [unfolded c''] b(2) z i, folded c'']
  note up = upgrade [of "stored ?str (cur - start)", OF s(4)]
  show "\<exists>p'. terminate_at (c' - start) (p\<lparr>stdin_file := Some (c - start)\<rparr>) = Some p' \<and>
      filled line start e c' bg gf (g\<lparr>g_in := Some (take (c' - c) (rest line e c))\<rparr>) D K p'"
    using f s(1-3) up by (auto simp: filled_defs terminate_at_def)
  show "\<exists>p'. terminate_at (c' - start) (p\<lparr>stdout_file := Some (c - start)\<rparr>) = Some p' \<and>
      filled line start e c' bg gf (g\<lparr>g_out := Some (take (c' - c) (rest line e c)), g_append := a\<rparr>) D K p'"
    using f s(1-3) up by (auto simp: filled_defs terminate_at_def)
qed

lemma list_all2_lengths: "list_all2 (list_all2 P) xss yss \<Longrightarrow> map length xss = map length yss"
  by (induction rule: list_all2_induct) (auto dest: list_all2_lengthD)

lemma filled_lengths:
  assumes "filled line start e cur bg gf g D K p"
  shows "length D = length (g_done g)" "map length D = map length (g_done g)" "length K = length (g_cur g)"
proof -
  have d: "list_all2 (list_all2 (stored (original_string p) (cur - start))) D (g_done g)"
    "list_all2 (stored (original_string p) (cur - start)) K (g_cur g)"
    using assms by (simp_all only: filled_defs)
  show "length D = length (g_done g)" "map length D = map length (g_done g)" "length K = length (g_cur g)"
    using list_all2_lengthD [OF d(1)] list_all2_lengths [OF d(1)] list_all2_lengthD [OF d(2)] by simp_all
qed

lemma push_arg_ok:
  assumes "argv_ptr p < length (arguments p)"
  shows "push_arg v p = Some (p\<lparr>arguments := (arguments p)[argv_ptr p := Some v], argv_ptr := argv_ptr p + 1\<rparr>)"
  using assms by (simp add: push_arg_def set_at_def)

lemma fill_word_ok:
  assumes f: "filled line start e cur bg gf g D K p" and e: "e \<le> length line" and z: "0 \<notin> set line"
    and n: "start \<le> cur" "cur \<le> e"
  defines "c' \<equiv> skip_word line cur e" and "g' \<equiv> g\<lparr>g_cur := g_cur g @ [takeWhile word_char (rest line e cur)]\<rparr>"
  assumes c: "cur < c'" and fin: "grammar ts' g' = Inr gf"
  shows "\<exists>p' K'. fill_word line start e cur p = Some (c', p') \<and> filled line start e c' bg gf g' D K' p'"
proof -
  let ?str = "original_string p"
  have i: "intact line start e cur ?str" using f by (simp add: filled_defs)
  note s = store_word [OF e n(1) order_refl c [unfolded c'_def] n(2) z i, folded c'_def]
  note up = upgrade [of "stored ?str (cur - start)", OF s(4)]
  have w: "take (c' - cur) (rest line e cur) = takeWhile word_char (rest line e cur)"
    using skip_word_eq [OF e n(2)] by (simp add: c'_def) (metis append_eq_conv_conj takeWhile_dropWhile_id)
  have l: "length D = length (g_done g)" "map length D = map length (g_done g)" "length K = length (g_cur g)"
    using filled_lengths [OF f] by simp_all
  then have a: "argv_ptr p < length (arguments p)"
    using f grammar_mono [OF fin] by (simp add: filled_defs length_flat_args g'_def)
  have "filled line start e c' bg gf g' D (K @ [cur - start])
      (p\<lparr>arguments := (arguments p)[argv_ptr p := Some (Some (cur - start))], argv_ptr := argv_ptr p + 1,
         original_string := ?str[c' - start := Some 0]\<rparr>)"
    using f s(2,3) up a w
    by (auto simp: filled_defs g'_def c'_def take_Suc_conv_app_nth list_all2_appendI)
  then show ?thesis
    using push_arg_ok [OF a, of "Some (cur - start)"] s(1)
    by (auto simp: fill_word_def terminate_at_def c'_def Let_def)
qed

lemma fill_pipe_ok:
  assumes f: "filled line start e cur bg gf g D K p" and c: "cur < e" and p: "\<not> word_char (line ! cur)"
  defines "g' \<equiv> g\<lparr>g_done := g_done g @ [g_cur g], g_cur := []\<rparr>"
  assumes fin: "grammar ts' g' = Inr gf"
  shows "\<exists>p'. fill_pipe cur p = Some (cur + 1, p') \<and> filled line start e (cur + 1) bg gf g' (D @ [K]) [] p'"
proof -
  let ?str = "original_string p"
  have l: "length D = length (g_done g)" "map length D = map length (g_done g)" "length K = length (g_cur g)"
    using filled_lengths [OF f] by simp_all
  then have a: "argv_ptr p < length (arguments p)" and cc: "Suc (length D) < length (commands p)"
    using f grammar_mono [OF fin] by (simp_all add: filled_defs length_flat_args g'_def)
  have "stored ?str (cur + 1 - start) off v" if "stored ?str (cur - start) off v" for off v
    using stored_mono [OF that] by simp
  note up = upgrade [of "stored ?str (cur - start)", OF this]
  let ?p = "p\<lparr>arguments := (arguments p)[argv_ptr p := Some None], argv_ptr := argv_ptr p + 1,
    cur_cmd := cur_cmd p + 1, commands := (commands p)[cur_cmd p + 1 := Some (argv_ptr p + 1)]\<rparr>"
  have k: "take (Suc (Suc (length D))) ((commands p)[Suc (length D) := Some (argv_ptr p + 1)]) =
      map (\<lambda>i. Some (length (flat_args (take i (D @ [K]))))) [0..<Suc (Suc (length D))]"
    using f cc by (simp add: filled_defs take_Suc_conv_app_nth [of "Suc (length D)"] del: upt_Suc)
      (simp add: upt_Suc_append)
  have "filled line start e (cur + 1) bg gf g' (D @ [K]) [] ?p"
    using f up a cc k
    by (auto simp: filled_defs g'_def intact_def take_Suc_conv_app_nth list_all2_appendI simp del: upt_Suc)
  then show ?thesis
    using push_arg_ok [OF a, of None] f cc
    by (auto simp: fill_pipe_def set_at_def filled_defs simp del: upt_Suc)
qed

lemma fill_step_ok:
  assumes f: "filled line start e cur bg gf g D K p" and e: "e \<le> length line" and z: "0 \<notin> set line"
    and cur: "start \<le> cur" "cur < e" and ns: "\<not> isspace (line ! cur)"
    and t: "lex (rest line e cur) = t # ts" "gstep t ts g = Inr (ts', g')" "grammar ts' g' = Inr gf"
  shows "\<exists>p' D' K'. fill_step line start e cur p = Some (next_pos line e cur, p') \<and>
    filled line start e (next_pos line e cur) bg gf g' D' K' p'"
proof -
  note tok = token_at [OF e cur(2) ns]
  consider "line ! cur = ch_amp" | "line ! cur = ch_bar" | "line ! cur = ch_lt" | "line ! cur = ch_gt"
    | "word_char (line ! cur)" using ns by (auto simp: word_char_def)
  then show ?thesis
  proof cases
    case 1
    then show ?thesis using tok(1) t by auto
  next
    case 2
    then have w: "\<not> word_char (line ! cur)" "g' = g\<lparr>g_done := g_done g @ [g_cur g], g_cur := []\<rparr>"
      using tok(2) t by (auto simp: word_char_def split: if_split_asm)
    then show ?thesis
      using fill_pipe_ok [OF f cur(2) w(1) t(3) [unfolded w(2)]] 2
      by (auto simp: fill_step_def next_pos_def ch_defs)
  next
    case 3
    let ?c = "skip_space line (cur + 1) e"
    have k: "?c < skip_word line ?c e"
      "g' = g\<lparr>g_in := Some (take (skip_word line ?c e - ?c) (rest line e ?c))\<rparr>"
      using tok(3) 3 t filename_at [OF e, of "cur + 1"] cur by (auto simp: Let_def split: if_split_asm)
    obtain p' where "terminate_at (skip_word line ?c e - start) (p\<lparr>stdin_file := Some (?c - start)\<rparr>) = Some p'"
      "filled line start e (skip_word line ?c e) bg gf g' D K p'"
      using fill_file(1) [OF f e z cur(1) _ _ k(1)] k(2) cur by auto
    then show ?thesis using 3 by (auto simp: fill_step_def fill_input_def next_pos_def ch_defs)
  next
    case 4
    define a where "a \<longleftrightarrow> cur + 1 < e \<and> line ! (cur + 1) = ch_gt"
    define n where "n = (if a then cur + 2 else cur + 1)"
    let ?c = "skip_space line n e"
    have n: "n \<le> e" "cur \<le> n" using cur by (auto simp: n_def a_def)
    have l: "lex (rest line e cur) = Out a # lex (rest line e ?c)"
      using tok(4,5) 4 by (auto simp: n_def a_def)
    have k: "?c < skip_word line ?c e"
      "g' = g\<lparr>g_out := Some (take (skip_word line ?c e - ?c) (rest line e ?c)), g_append := a\<rparr>"
      using l t filename_at [OF e n(1)] by (auto simp: Let_def split: if_split_asm)
    have "is_file_append p = a" using f grammar_mono [OF t(3)] k(2) by (simp add: filled_defs)
    moreover obtain p' where "terminate_at (skip_word line ?c e - start) (p\<lparr>stdout_file := Some (?c - start)\<rparr>) = Some p'"
      "filled line start e (skip_word line ?c e) bg gf g' D K p'"
      using fill_file(2) [OF f e z cur(1) n(2,1) k(1), of a] k(2) by auto
    moreover have "next_pos line e cur = skip_word line ?c e"
      using 4 by (auto simp: next_pos_def ch_defs n_def a_def Let_def)
    moreover have "skip_space line ((if a then cur + 1 else cur) + 1) e = ?c" by (simp add: n_def)
    ultimately have "fill_step line start e cur p = Some (next_pos line e cur, p')"
      using 4 by (simp add: fill_step_def fill_output_def ch_defs)
    then show ?thesis using \<open>next_pos line e cur = _\<close> \<open>filled line start e _ bg gf g' D K p'\<close> by auto
  next
    case 5
    have c: "cur < skip_word line cur e"
      using 5 cur skip_word_le [of "Suc cur" line e] by (subst skip_word.simps) simp
    have g: "g' = g\<lparr>g_cur := g_cur g @ [takeWhile word_char (rest line e cur)]\<rparr>" using tok(6) 5 t by auto
    show ?thesis
      using fill_word_ok [OF f e z cur(1) less_imp_le [OF cur(2)] c t(3) [unfolded g]] g plain_char [of "line ! cur"] 5
      by (auto simp: fill_step_def next_pos_def)
  qed
qed

lemma fill_loop_ok:
  assumes e: "e \<le> length line" and z: "0 \<notin> set line"
    and "start \<le> cur" "cur \<le> e" "unspaced (rest line e cur)"
    and "filled line start e cur bg gf g D K p" "grammar (lex (rest line e cur)) g = Inr gf" "g_ok g"
  shows "\<exists>p' D' K'. fill_loop line start e cur p = Some p' \<and> filled line start e e bg gf gf D' K' p'"
  using assms(3-)
proof (induction "e - cur" arbitrary: cur g D K p rule: less_induct)
  case less
  show ?case
  proof (cases "cur < e")
    case False
    then show ?thesis using less.prems by (subst fill_loop.simps) auto
  next
    case True
    then have ns: "\<not> isspace (line ! cur)"
      using less.prems(3) rest_Cons [OF True e] by (simp add: unspaced_def)
    obtain t ts where t: "lex (rest line e cur) = t # ts"
      "case gstep t ts g of Inl err \<Rightarrow> scan_step line e cur (scan_of g) = Inl err
       | Inr (ts', g') \<Rightarrow> scan_step line e cur (scan_of g) = Inr (next_pos line e cur, scan_of g') \<and>
           lex (rest line e (next_pos line e cur)) = ts'"
      using scan_step_grammar [OF e True ns less.prems(6)] by blast
    obtain ts' g' where g': "gstep t ts g = Inr (ts', g')" "grammar ts' g' = Inr gf"
      using less.prems(5) t(1) by (auto split: sum.splits)
    let ?n = "next_pos line e cur"
    have amp: "line ! cur \<noteq> ch_amp" using g' t token_at(1) [OF e True ns] by auto
    note b = next_pos_bounds [OF e True ns amp]
    obtain p' D' K' where p': "fill_step line start e cur p = Some (?n, p')"
      "filled line start e ?n bg gf g' D' K' p'"
      using fill_step_ok [OF less.prems(4) e z less.prems(1) True ns t(1) g'] by blast
    let ?m = "skip_space line ?n e"
    have m: "e - ?m < e - cur" "start \<le> ?m" "?m \<le> e" "rest line e ?m = dropWhile isspace (rest line e ?n)"
      "?n \<le> ?m"
      using b skip_space_le [of ?n line e] skip_rest(1,3) [OF e b(2)] True less.prems(1) by auto
    have "grammar (lex (rest line e ?m)) g' = Inr gf"
      using t(2) g' m(4) by simp
    then show ?thesis
      using less.hyps [OF m(1-3) _ filled_later [OF p'(2) m(5)]] m(4) p'(1) True g_ok_step [OF g'(1) less.prems(6)]
      by (subst fill_loop.simps) simp
  qed
qed

section \<open>The whole parser\<close>

lemma those_map: "(\<And>x. x \<in> set xs \<Longrightarrow> f x = Some (g x)) \<Longrightarrow> those (map f xs) = Some (map g xs)"
  by (induction xs) auto

lemma flat_args_drop: "i \<le> length D \<Longrightarrow> drop (length (flat_args (take i D))) (flat_args D) = flat_args (drop i D)"
  by (metis append_eq_conv_conj append_take_drop_id flat_args_simps(3))

lemma fill_all_ok:
  assumes e: "e \<le> length line" "start \<le> e" and z: "0 \<notin> set line"
    and u: "unspaced (rest line e start)" and g: "grammar (lex (rest line e start)) g_init = Inr gf"
  shows "\<exists>p. fill_all line start e bg (scan_of gf) = Some p \<and> num_commands p = Suc (length (g_done gf)) \<and>
    view p = Some \<lparr>cl_background = bg, cl_append = g_append gf, cl_in = g_in gf, cl_out = g_out gf,
      cl_argvs = g_done gf @ [g_cur gf]\<rparr>"
proof -
  let ?n = "Suc (length (g_done gf))"
  let ?m = "?n + (sum_list (map length (g_done gf)) + length (g_cur gf))"
  let ?p = "\<lparr>is_background = bg, is_file_append = g_append gf, stdin_file = None,
       stdout_file = None, num_commands = ?n, commands = (replicate ?n None)[0 := Some 0],
       arguments = replicate ?m None,
       original_string = map Some (rest line e start) @ [None], cur_cmd = 0, argv_ptr = 0\<rparr>"
  have "filled line start e start bg gf g_init [] [] ?p"
    using e length_rest [OF e(1), of start]
    by (auto simp: filled_defs g_init_def intact_def nth_append rest_def)
  from fill_loop_ok [OF e(1) z order_refl e(2) u this g]
  obtain p D K where p: "fill_loop line start e start ?p = Some p" "filled line start e e bg gf gf D K p"
    by (auto simp: g_ok_def g_init_def)
  note l = filled_lengths [OF p(2)]
  have a: "argv_ptr p < length (arguments p)" "length (arguments p) = Suc (argv_ptr p)"
    using p(2) l by (simp_all add: filled_defs length_flat_args)
  let ?q = "parsed_command.truncate (p\<lparr>arguments := (arguments p)[argv_ptr p := Some None]\<rparr>)"
  have q: "fill_all line start e bg (scan_of gf) = Some ?q"
    using p(1) a(1) by (simp add: fill_all_def scan_of_def set_at_def rest_def)
  let ?st = "stored (original_string p) (e - start)"
  have "take (argv_ptr p) (arguments p) = flat_args D @ map (\<lambda>off. Some (Some off)) K"
    using p(2) unfolding filled_defs by blast
  then have args: "arguments ?q = flat_args (D @ [K])"
    using a take_set_at [of "argv_ptr p" "Some None" "arguments p" "(arguments p)[argv_ptr p := Some None]"]
    by (simp add: parsed_command.truncate_def set_at_def)
  have cmds: "commands ?q ! i = Some (length (flat_args (take i (D @ [K]))))" "i < length (commands ?q)"
    if "i < ?n" for i
    using p(2) l that
    by (auto simp: filled_defs parsed_command.truncate_def simp del: upt_Suc)
  have "stage_argv ?q i = Some ((g_done gf @ [g_cur gf]) ! i)" if "i < ?n" for i
  proof -
    have i: "i < length (D @ [K])" using that l by simp
    have s: "list_all2 (list_all2 ?st) (D @ [K]) (g_done gf @ [g_cur gf])"
      using p(2) by (simp add: filled_defs list_all2_appendI)
    have "drop i (D @ [K]) = (D @ [K]) ! i # drop (Suc i) (D @ [K])" using i by (simp only: Cons_nth_drop_Suc)
    then show ?thesis
      using cmds [OF that] flat_args_drop [of i "D @ [K]"] i args argv_at_ptrs [OF list_all2_nthD [OF s i]]
      by (simp add: stage_argv_def parsed_command.truncate_def)
  qed
  then have st: "those (map (stage_argv ?q) [0..<?n]) = Some (map ((!) (g_done gf @ [g_cur gf])) [0..<?n])"
    by (intro those_map) (simp del: upt_Suc)
  have fa: "file_at ?q x = Some y" if "rel_option ?st x y" for x y
    using that by (cases x; cases y) (auto simp: file_at_def stored_def parsed_command.truncate_def)
  have n: "num_commands ?q = ?n" "file_at ?q (stdin_file ?q) = Some (g_in gf)"
    "file_at ?q (stdout_file ?q) = Some (g_out gf)" "is_background ?q = bg" "is_file_append ?q = g_append gf"
    using p(2) fa by (simp_all add: filled_defs parsed_command.truncate_def)
  have "map ((!) (g_done gf @ [g_cur gf])) [0..<?n] = g_done gf @ [g_cur gf]"
    using map_nth [of "g_done gf @ [g_cur gf]"] by simp
  then show ?thesis using q n st by (simp add: view_def)
qed

lemma comment_from_eq:
  assumes "cur \<le> length line"
  shows "comment_from line cur (length line) = cur + length (takeWhile (\<lambda>c. c \<noteq> ch_hash) (drop cur line))"
  using assms
proof (induction line cur "length line" rule: comment_from.induct)
  case (1 line cur)
  then show ?case
    using Cons_nth_drop_Suc [of cur line, symmetric]
    by (subst comment_from.simps) (cases "cur < length line"; auto)
qed

lemma trim_end_eq:
  "start \<le> e \<Longrightarrow> e \<le> length line \<Longrightarrow> start \<le> trim_end line start e \<and> trim_end line start e \<le> e \<and>
    rest line (trim_end line start e) start = rev (dropWhile isspace (rev (rest line e start)))"
proof (induction line start e rule: trim_end.induct)
  case (1 line start e)
  have r: "rest line e start = rest line (e - 1) start @ [line ! (e - 1)]" if "start < e"
    using that 1(3) by (cases e) (simp_all add: rest_def take_Suc_conv_app_nth)
  show ?case
  proof (cases "start < e \<and> isspace (line ! (e - 1))")
    case True
    then have "trim_end line start e = trim_end line start (e - 1)" by (subst trim_end.simps) simp
    moreover have "start \<le> e - 1" "e - 1 \<le> length line" using True 1(3) by linarith+
    ultimately show ?thesis using 1(1) [OF True] r True by simp linarith
  next
    case False
    then show ?thesis using 1 r by (subst (1 2 3) trim_end.simps) (cases "start < e"; auto simp: rest_def)
  qed
qed

lemma unspaced_take: "unspaced s \<Longrightarrow> unspaced (take n s)"
  by (cases n; cases s) (auto simp: unspaced_def)

lemma rest_take: "e' \<le> e \<Longrightarrow> rest line e' start = take (e' - start) (rest line e start)"
  by (cases "start \<le> e'") (auto simp: rest_def take_drop min_absorb1)

lemma lex_Nil: "lex s = [] \<Longrightarrow> unspaced s \<Longrightarrow> s = []"
  by (cases s) (auto simp: unspaced_def split: if_split_asm list.splits)

lemma grammar_g_ok: "grammar ts g = Inr gf \<Longrightarrow> g_ok g \<Longrightarrow> g_ok gf"
proof (induction ts g rule: grammar.induct)
  case (2 t ts g)
  then show ?case using g_ok_step [of t ts g] by (auto split: sum.splits)
qed simp

lemma grammar_in: "grammar ts g = Inr gf \<Longrightarrow> g_in g \<noteq> None \<Longrightarrow> g_in gf \<noteq> None"
proof (induction ts g rule: grammar.induct)
  case (2 t ts g)
  have "g_in g' \<noteq> None" if "gstep t ts g = Inr (ts', g')" for ts' g'
    using that 2(3) by (cases t) (auto split: if_split_asm option.splits)
  then show ?case using 2 by (auto split: sum.splits)
qed simp

text \<open>A line without words, redirections and background mark has no tokens.\<close>

lemma grammar_nothing:
  assumes "grammar ts g_init = Inr gf" "g_done gf = []" "g_cur gf = []" "g_in gf = None" "g_out gf = None"
  shows "ts = []"
proof (cases ts)
  case (Cons t us)
  obtain ts' g' where g': "gstep t us g_init = Inr (ts', g')" "grammar ts' g' = Inr gf"
    using assms(1) Cons by (auto split: sum.splits)
  note m = grammar_mono [OF g'(2)] grammar_in [OF g'(2)]
  show ?thesis
    using g'(1) m assms(2-) by (cases t) (auto simp: g_init_def split: option.splits)
qed

definition spec_result :: "byte list \<Rightarrow> int \<times> parsed_command option \<Rightarrow> bool" where
  "spec_result line res \<longleftrightarrow>
     (case parse_spec line of
        Inl err \<Rightarrow> res = (err, None)
      | Inr c \<Rightarrow> \<exists>p. res = (0, Some p) \<and> view p = Some c \<and> num_commands p = length (cl_argvs c))"

lemma view_empty: "view empty_command = Some \<lparr>cl_background = False, cl_append = False, cl_in = None, cl_out = None, cl_argvs = []\<rparr>"
  by (simp add: view_def empty_command_def file_at_def)

lemma parse_positions:
  fixes line :: "byte list"
  defines "s0 \<equiv> takeWhile (\<lambda>c. c \<noteq> ch_hash) line" and "e0 \<equiv> comment_from line 0 (length line)"
  defines "start \<equiv> skip_space line 0 e0"
  defines "e \<equiv> trim_end line start e0"
  shows "start \<le> e" "e \<le> length line" "rest line e start = trim s0" "unspaced (rest line e start)"
    "start = e \<longleftrightarrow> trim s0 = []" "start < e \<Longrightarrow> line ! (e - 1) = last (trim s0)"
    "start < e \<Longrightarrow> rest line (e - 1) start = butlast (trim s0)"
    "start < e \<Longrightarrow> unspaced (rest line (e - 1) start)"
proof -
  have e0: "e0 = length s0" "e0 \<le> length line"
    using comment_from_eq [of 0 line] length_takeWhile_le [of "\<lambda>c. c \<noteq> ch_hash" line]
    by (simp_all add: e0_def s0_def)
  have r0: "rest line e0 0 = s0"
    using e0(1) by (simp add: rest_def s0_def) (metis append_eq_conv_conj takeWhile_dropWhile_id)
  have st: "start \<le> e0" "rest line e0 start = dropWhile isspace s0"
    using skip_rest(1,3) [OF e0(2), of 0] r0 by (simp_all add: start_def)
  note t = trim_end_eq [OF st(1) e0(2), folded e_def]
  show b: "start \<le> e" "e \<le> length line" using t e0(2) by simp_all
  show r: "rest line e start = trim s0" using t st(2) by (simp add: trim_def)
  have "unspaced (rest line e0 start)" using st(2) by simp
  then show u: "unspaced (rest line e start)" using rest_take [of e e0 line start] t unspaced_take by simp
  show "start = e \<longleftrightarrow> trim s0 = []" using r b length_rest [OF b(2), of start] by (metis diff_is_0_eq le_antisym length_0_conv le_refl)
  show "line ! (e - 1) = last (trim s0)" if "start < e"
    using that b unfolding r [symmetric] by (simp add: rest_def last_conv_nth min_absorb2)
  show "rest line (e - 1) start = butlast (trim s0)" if "start < e"
    using that b unfolding r [symmetric] by (simp add: rest_def butlast_drop butlast_take)
  show "unspaced (rest line (e - 1) start)" if "start < e"
    using rest_take [of "e - 1" e line start] unspaced_take [OF u] by simp
qed

lemma parse_command_spec:
  assumes z: "0 \<notin> set line"
  shows "\<exists>res. parse_command True True line = Some res \<and> spec_result line res"
proof -
  define e0 where "e0 = comment_from line 0 (length line)"
  define start where "start = skip_space line 0 e0"
  define e where "e = trim_end line start e0"
  define s where "s = trim (takeWhile (\<lambda>c. c \<noteq> ch_hash) line)"
  note pos = parse_positions [of line, folded e0_def, folded start_def, folded e_def, folded s_def]
  show ?thesis
  proof (cases "start = e")
    case True
    then have "parse_command True True line = Some (0, Some empty_command)"
      unfolding parse_command_def Let_def e0_def start_def e_def by simp
    moreover have "s = []" using True pos(5) by simp
    ultimately show ?thesis
      using view_empty by (simp add: spec_result_def parse_spec_def Let_def s_def [symmetric] empty_command_def)
  next
    case False
    define bg where "bg \<longleftrightarrow> line ! (e - 1) = ch_amp"
    define e' where "e' = (if bg then e - 1 else e)"
    define s' where "s' = (if bg then butlast s else s)"
    have b: "start < e" using False pos(1) by simp
    have r: "rest line e' start = s'" "unspaced (rest line e' start)" "start \<le> e'" "e' \<le> length line"
      using b pos by (auto simp: e'_def s'_def)
    have sc: "scan_loop line e' start scan_init = map_sum id scan_of (grammar (lex s') g_init)"
      using scan_loop_grammar [OF r(4,3,2), of g_init] r(1)
      by (simp add: scan_of_def g_init_def scan_init_def g_ok_def)
    have pc: "parse_command True True line = (case scan_loop line e' start scan_init of
        Inl err \<Rightarrow> Some (err, None)
      | Inr st \<Rightarrow>
         if total_strings st = 0 then
           if bg \<or> has_file_input st \<or> has_file_output st then Some (EXPECT_COMMANDS, None)
           else Some (0, Some (empty_command\<lparr>is_background := bg,
                  is_file_append := sc_file_append st, num_commands := sc_num_commands st\<rparr>))
         else if \<not> has_token_last st then Some (UNEXPECTED_PIPELINE, None)
         else map_option (\<lambda>p. (0, Some p)) (fill_all line start e' bg st))"
      using False unfolding parse_command_def Let_def e'_def bg_def e_def start_def e0_def
      by (simp split: sum.split)
    have bgs: "bg \<longleftrightarrow> last s = ch_amp" using pos(6) [OF b] by (simp add: bg_def)
    have sne: "s \<noteq> []" using False pos(5) by simp
    have ps: "parse_spec line = (case grammar (lex s') g_init of
        Inl err \<Rightarrow> Inl err
      | Inr g \<Rightarrow>
          if g_done g = [] \<and> g_cur g = [] then Inl EXPECT_COMMANDS
          else if g_cur g = [] then Inl UNEXPECTED_PIPELINE
          else Inr \<lparr>cl_background = bg, cl_append = g_append g, cl_in = g_in g,
                 cl_out = g_out g, cl_argvs = g_done g @ [g_cur g]\<rparr>)"
      using sne unfolding parse_spec_def Let_def s'_def bgs s_def by simp
    show ?thesis
    proof (cases "grammar (lex s') g_init")
      case (Inl err)
      then show ?thesis using sc pc ps by (simp add: spec_result_def)
    next
      case (Inr g)
      have "g_ok g" using grammar_g_ok [OF Inr] by (simp add: g_ok_def g_init_def)
      then have tot: "total_strings (scan_of g) = 0 \<longleftrightarrow> g_done g = [] \<and> g_cur g = []"
        by (cases "g_done g") (auto simp: scan_of_def g_ok_def)
      have no: "bg \<or> g_in g \<noteq> None \<or> g_out g \<noteq> None" if "g_done g = []" "g_cur g = []"
        using grammar_nothing [OF Inr that] lex_Nil [of s'] r sne by (cases bg; cases "g_in g") (auto simp: s'_def)
      obtain p where p: "fill_all line start e' bg (scan_of g) = Some p" "num_commands p = Suc (length (g_done g))"
        "view p = Some \<lparr>cl_background = bg, cl_append = g_append g, cl_in = g_in g, cl_out = g_out g,
          cl_argvs = g_done g @ [g_cur g]\<rparr>"
        using fill_all_ok [OF r(4,3) z r(2), of g bg] Inr r(1) by auto
      have f: "has_file_input (scan_of g) = (g_in g \<noteq> None)" "has_file_output (scan_of g) = (g_out g \<noteq> None)"
        "has_token_last (scan_of g) = (g_cur g \<noteq> [])" by (simp_all add: scan_of_def)
      show ?thesis using sc pc ps Inr tot no p f by (auto simp: spec_result_def)
    qed
  qed
qed

end
