(* ===== verification/Parser_Props.thy ===== *)
theory Parser_Props
  imports Parser_Fill
begin

text \<open>
  What the printer of the parser writes, that it can be read back, and the properties of the parser.
\<close>

section \<open>Words\<close>

definition valid_word :: "byte list \<Rightarrow> bool" where
  "valid_word w \<longleftrightarrow> w \<noteq> [] \<and> (\<forall>c\<in>set w. word_char c \<and> c \<noteq> ch_hash \<and> c \<noteq> 0)"

lemma lex_words:
  "Word w \<in> set (lex s) \<Longrightarrow> w \<noteq> [] \<and> set w \<subseteq> set s \<and> (\<forall>c\<in>set w. word_char c)"
proof (induction "length s" arbitrary: s rule: less_induct)
  case less
  show ?case
  proof (cases s)
    case (Cons c cs)
    have IH: "w \<noteq> [] \<and> set w \<subseteq> set s \<and> (\<forall>c\<in>set w. word_char c)"
      if "Word w \<in> set (lex t)" "set t \<subseteq> set cs" "length t \<le> length cs" for t
      using less.hyps [of t] that Cons by auto
    have d: "set (dropWhile word_char cs) \<subseteq> set cs" "set (takeWhile word_char cs) \<subseteq> set cs"
      "\<forall>x\<in>set (takeWhile word_char cs). word_char x"
      by (auto dest: set_dropWhileD set_takeWhileD)
    consider "isspace c" | "c = ch_amp" | "c = ch_lt" | "c = ch_gt" | "c = ch_bar" | "word_char c"
      by (auto simp: word_char_def)
    then show ?thesis
    proof cases
      case 4
      then show ?thesis
        using IH [of cs] IH [of "tl cs"] less.prems Cons plain_char(3) [of c]
        by (cases cs) (auto simp: ch_defs split: if_split_asm)
    next
      case 6
      then have l: "lex s = Word (c # takeWhile word_char cs) # lex (dropWhile word_char cs)"
        using lex_word [of s] Cons by simp
      show ?thesis
        using IH [of "dropWhile word_char cs", OF _ d(1) length_dropWhile_le] less.prems l d(2,3) 6 Cons by auto
    qed (use IH [of cs] less.prems Cons plain_char [of c] in \<open>auto simp: ch_defs split: if_split_asm\<close>)
  qed (use less in simp)
qed

definition g_valid :: "parse_state \<Rightarrow> bool" where
  "g_valid g \<longleftrightarrow> g_ok g \<and> (\<forall>a\<in>set (g_done g). \<forall>w\<in>set a. valid_word w) \<and> (\<forall>w\<in>set (g_cur g). valid_word w) \<and>
     (\<forall>w. g_in g = Some w \<or> g_out g = Some w \<longrightarrow> valid_word w)"

lemma g_valid_step:
  assumes "gstep t ts g = Inr (ts', g')" "g_valid g" "\<forall>w. Word w \<in> set (t # ts) \<longrightarrow> valid_word w"
  shows "g_valid g' \<and> set ts' \<subseteq> set ts"
  using assms g_ok_step [OF assms(1)]
  by (cases t) (auto simp: g_valid_def dest: filename_length split: if_split_asm option.splits)

lemma grammar_valid:
  "grammar ts g = Inr gf \<Longrightarrow> g_valid g \<Longrightarrow> \<forall>w. Word w \<in> set ts \<longrightarrow> valid_word w \<Longrightarrow> g_valid gf"
proof (induction ts g rule: grammar.induct)
  case (2 t ts g)
  obtain ts' g' where g': "gstep t ts g = Inr (ts', g')" "grammar ts' g' = Inr gf"
    using 2(2) by (auto split: sum.splits)
  then show ?case using 2(1) [OF g'(1) refl g'(2)] g_valid_step [OF g'(1) 2(3,4)] 2(4) by auto
qed simp

definition wf_line :: "command_line \<Rightarrow> bool" where
  "wf_line c \<longleftrightarrow> cl_argvs c \<noteq> [] \<and> (\<forall>a\<in>set (cl_argvs c). a \<noteq> [] \<and> (\<forall>w\<in>set a. valid_word w)) \<and>
     (\<forall>w. cl_in c = Some w \<or> cl_out c = Some w \<longrightarrow> valid_word w) \<and> (cl_out c = None \<longrightarrow> \<not> cl_append c)"

lemma set_trim: "set (trim s) \<subseteq> set s"
  by (auto simp: trim_def dest!: set_dropWhileD)

lemma parse_spec_wf:
  assumes "parse_spec line = Inr c" "cl_argvs c \<noteq> []" "0 \<notin> set line"
  shows "wf_line c"
proof -
  define s where "s = trim (takeWhile (\<lambda>c. c \<noteq> ch_hash) line)"
  define s' where "s' = (if last s = ch_amp then butlast s else s)"
  have "s \<noteq> []" using assms by (auto simp: parse_spec_def Let_def s_def [symmetric])
  then obtain g where g: "grammar (lex s') g_init = Inr g" "g_cur g \<noteq> []"
    "c = \<lparr>cl_background = (last s = ch_amp), cl_append = g_append g, cl_in = g_in g, cl_out = g_out g,
       cl_argvs = g_done g @ [g_cur g]\<rparr>"
    using assms(1) by (auto simp: parse_spec_def Let_def s_def [symmetric] s'_def [symmetric]
        split: sum.splits if_split_asm)
  have "set s' \<subseteq> set (takeWhile (\<lambda>c. c \<noteq> ch_hash) line)"
    using set_trim by (auto simp: s'_def s_def dest!: in_set_butlastD)
  then have "c \<in> set s' \<Longrightarrow> c \<noteq> ch_hash \<and> c \<noteq> 0" for c
    using assms(3) set_takeWhileD [of c "\<lambda>c. c \<noteq> ch_hash" line] by auto
  then have "\<forall>w. Word w \<in> set (lex s') \<longrightarrow> valid_word w"
    using lex_words [of _ s'] by (auto simp: valid_word_def)
  then have "g_valid g" using grammar_valid [OF g(1)] by (auto simp: g_valid_def g_ok_def g_init_def)
  then show ?thesis using g(2,3) by (auto simp: wf_line_def g_valid_def g_ok_def)
qed

section \<open>What the printer writes\<close>

definition show_words :: "byte list list \<Rightarrow> byte list" where
  "show_words ws = concat (map (\<lambda>a. a @ [32]) ws)"

definition show_in :: "command_line \<Rightarrow> byte list" where
  "show_in c = (case cl_in c of None \<Rightarrow> [] | Some f \<Rightarrow> [ch_lt, 32] @ f @ [32])"

definition show_out :: "command_line \<Rightarrow> byte list" where
  "show_out c = (case cl_out c of None \<Rightarrow> []
     | Some f \<Rightarrow> (if cl_append c then [ch_gt, ch_gt, 32] else [ch_gt, 32]) @ f @ [32])"

definition show_pipes :: "byte list list list \<Rightarrow> byte list" where
  "show_pipes as = concat (map (\<lambda>a. [ch_bar, 32] @ show_words a) as)"

definition show_body :: "command_line \<Rightarrow> byte list" where
  "show_body c = show_words (hd (cl_argvs c)) @ show_in c @ show_pipes (tl (cl_argvs c)) @ show_out c"

definition show_line :: "command_line \<Rightarrow> byte list" where
  "show_line c = show_body c @ (if cl_background c then [ch_amp] else []) @ [10]"

text \<open>The output from stage \<open>i\<close> on.\<close>

lemma print_stages:
  assumes "\<And>j. j < length as \<Longrightarrow> stage_argv p (i + j) = Some (as ! j)" "as \<noteq> []"
    "num_commands p = i + length as" "file_at p (stdin_file p) = Some (cl_in c)"
    "file_at p (stdout_file p) = Some (cl_out c)" "is_file_append p = cl_append c"
  shows "\<exists>out. those (map (print_stage p) [i..<num_commands p]) = Some out \<and>
    concat out = show_words (hd as) @ (if i = 0 then show_in c else []) @ show_pipes (tl as) @ show_out c"
  using assms(1-3)
proof (induction as arbitrary: i)
  case (Cons a as)
  have a: "stage_argv p i = Some a" using Cons.prems(1) [of 0] by simp
  have inp: "print_input p i = Some (if i = 0 then show_in c else [])"
    using assms(4) by (auto simp: print_input_def show_in_def file_at_def split: option.splits)
  have u: "[i..<num_commands p] = i # [Suc i..<num_commands p]" using Cons.prems(3) by (simp add: upt_rec)
  show ?case
  proof (cases as)
    case Nil
    then have "print_output p i = Some (show_out c)"
      using Cons.prems(3) assms(5,6) by (auto simp: print_output_def show_out_def file_at_def split: option.splits)
    then have "print_stage p i = Some (show_words a @ (if i = 0 then show_in c else []) @ show_out c)"
      using a inp by (simp add: print_stage_def show_words_def)
    then show ?thesis using u Nil Cons.prems(3) by (auto simp: show_pipes_def)
  next
    case (Cons b bs)
    then have "print_output p i = Some [ch_bar, 32]" using Cons.prems(3) by (simp add: print_output_def)
    then have "print_stage p i = Some (show_words a @ (if i = 0 then show_in c else []) @ [ch_bar, 32])"
      using a inp by (simp add: print_stage_def show_words_def)
    moreover obtain out where "those (map (print_stage p) [Suc i..<num_commands p]) = Some out"
      "concat out = show_words (hd as) @ show_pipes (tl as) @ show_out c"
      using Cons.IH [of "Suc i"] Cons.prems(1) [of "Suc _"] Cons.prems(3) Cons by auto
    ultimately show ?thesis
      using u Cons by (auto simp: show_pipes_def)
  qed
qed simp

lemma those_Some_nth:
  "those (map f xs) = Some ys \<Longrightarrow> length ys = length xs \<and> (\<forall>j<length xs. f (xs ! j) = Some (ys ! j))"
proof (induction xs arbitrary: ys)
  case (Cons x xs)
  then show ?case by (auto simp: nth_Cons split: option.splits nat.split)
qed simp

lemma print_view:
  assumes v: "view p = Some c" and ne: "cl_argvs c \<noteq> []"
  shows "print_parsed_command p = Some (show_line c)"
proof -
  have f: "file_at p (stdin_file p) = Some (cl_in c)" "file_at p (stdout_file p) = Some (cl_out c)"
    "those (map (stage_argv p) [0..<num_commands p]) = Some (cl_argvs c)"
    "is_background p = cl_background c" "is_file_append p = cl_append c"
    using v by (auto simp: view_def bind_eq_Some_conv)
  have n: "num_commands p = length (cl_argvs c)" "\<And>j. j < length (cl_argvs c) \<Longrightarrow> stage_argv p j = Some (cl_argvs c ! j)"
    using those_Some_nth [OF f(3)] by simp_all
  obtain out where "those (map (print_stage p) [0..<num_commands p]) = Some out" "concat out = show_body c"
    using print_stages [of "cl_argvs c" p 0 c] n ne f by (auto simp: show_body_def)
  then show ?thesis using f(4) by (simp add: print_parsed_command_def show_line_def)
qed

section \<open>Reading back\<close>

lemma lex_space_char [simp]: "lex (32 # s) = lex s"
  by (simp add: isspace_def)

lemma word_char_space [simp]: "\<not> word_char 32"
  by (simp add: word_char_def isspace_def)

lemma lex_show_word:
  assumes "valid_word w" shows "lex (w @ 32 # s) = Word w # lex s"
proof -
  have "takeWhile word_char (w @ 32 # s) = w" "dropWhile word_char (w @ 32 # s) = 32 # s"
    using assms by (auto simp: valid_word_def takeWhile_append2 dropWhile_append2)
  moreover have "w @ 32 # s \<noteq> []" "word_char (hd (w @ 32 # s))"
    using assms by (cases w; simp add: valid_word_def)+
  ultimately show ?thesis using lex_word [of "w @ 32 # s"] by (simp del: lex.simps(2))
qed

lemma lex_show_words: "\<forall>w\<in>set ws. valid_word w \<Longrightarrow> lex (show_words ws @ s) = map Word ws @ lex s"
  by (induction ws) (simp_all add: show_words_def lex_show_word)

lemma lex_show_pipes:
  "\<forall>a\<in>set as. \<forall>w\<in>set a. valid_word w \<Longrightarrow>
    lex (show_pipes as @ s) = concat (map (\<lambda>a. Pipe # map Word a) as) @ lex s"
proof (induction as)
  case (Cons a as)
  have "lex (ch_bar # 32 # t) = Pipe # lex t" for t by (simp add: isspace_def ch_defs)
  then show ?case using Cons lex_show_words [of a "show_pipes as @ s"] by (simp add: show_pipes_def)
qed (simp add: show_pipes_def)

lemma lex_show_in:
  "\<forall>w. cl_in c = Some w \<longrightarrow> valid_word w \<Longrightarrow>
    lex (show_in c @ s) = (case cl_in c of None \<Rightarrow> [] | Some f \<Rightarrow> [In, Word f]) @ lex s"
  by (auto simp: show_in_def lex_show_word isspace_def ch_defs split: option.split)

lemma lex_show_out:
  "\<forall>w. cl_out c = Some w \<longrightarrow> valid_word w \<Longrightarrow>
    lex (show_out c) = (case cl_out c of None \<Rightarrow> [] | Some f \<Rightarrow> [Out (cl_append c), Word f])"
  using lex_show_word [of _ "[]"] by (auto simp: show_out_def isspace_def ch_defs split: option.split)

lemma lex_show_body:
  assumes "wf_line c"
  shows "lex (show_body c) = map Word (hd (cl_argvs c)) @
    (case cl_in c of None \<Rightarrow> [] | Some f \<Rightarrow> [In, Word f]) @
    concat (map (\<lambda>a. Pipe # map Word a) (tl (cl_argvs c))) @
    (case cl_out c of None \<Rightarrow> [] | Some f \<Rightarrow> [Out (cl_append c), Word f])"
proof -
  have "\<forall>w\<in>set (hd (cl_argvs c)). valid_word w" "\<forall>a\<in>set (tl (cl_argvs c)). \<forall>w\<in>set a. valid_word w"
    using assms by (cases "cl_argvs c"; auto simp: wf_line_def)+
  then show ?thesis
    using assms by (simp add: show_body_def lex_show_words lex_show_in lex_show_pipes lex_show_out wf_line_def)
qed

lemma lex_snoc_space: "lex (s @ [32]) = lex s"
proof (induction "length s" arbitrary: s rule: less_induct)
  case less
  show ?case
  proof (cases s)
    case (Cons c cs)
    have IH: "lex (t @ [32]) = lex t" if "length t \<le> length cs" for t using less [of t] that Cons by simp
    have d: "takeWhile word_char (cs @ [32]) = takeWhile word_char cs"
      "dropWhile word_char (cs @ [32]) = dropWhile word_char cs @ [32]"
      by (induction cs) auto
    show ?thesis
      using IH [of cs] IH [of "tl cs"] IH [of "dropWhile word_char cs", OF length_dropWhile_le] d Cons
      by (cases cs) (auto simp: ch_defs)
  qed (simp add: isspace_def)
qed

lemma grammar_words: "grammar (map Word ws @ ts) g = grammar ts (g\<lparr>g_cur := g_cur g @ ws\<rparr>)"
  by (induction ws arbitrary: g) simp_all

lemma grammar_pipes:
  assumes "g_cur g \<noteq> []" "g_out g = None" "\<forall>a\<in>set as. a \<noteq> []"
  shows "\<exists>g'. grammar (concat (map (\<lambda>a. Pipe # map Word a) as) @ ts) g = grammar ts g' \<and>
    g_done g' @ [g_cur g'] = g_done g @ [g_cur g] @ as \<and> g_cur g' \<noteq> [] \<and>
    g_in g' = g_in g \<and> g_out g' = None \<and> g_append g' = g_append g"
  using assms
proof (induction as arbitrary: g)
  case (Cons a as)
  show ?case
    using Cons.IH [of "g\<lparr>g_done := g_done g @ [g_cur g], g_cur := a\<rparr>"] Cons.prems
    by (auto simp: grammar_words)
qed auto

lemma grammar_show:
  assumes "wf_line c"
  shows "\<exists>g. grammar (lex (show_body c)) g_init = Inr g \<and> g_done g @ [g_cur g] = cl_argvs c \<and> g_cur g \<noteq> [] \<and>
    g_in g = cl_in c \<and> g_out g = cl_out c \<and> g_append g = cl_append c"
proof -
  let ?a = "hd (cl_argvs c)" and ?as = "tl (cl_argvs c)"
  have ne: "?a \<noteq> []" "\<forall>a\<in>set ?as. a \<noteq> []" "cl_argvs c = ?a # ?as"
    using assms by (cases "cl_argvs c"; auto simp: wf_line_def)+
  let ?g = "g_init\<lparr>g_cur := ?a, g_in := cl_in c\<rparr>"
  let ?out = "case cl_out c of None \<Rightarrow> [] | Some f \<Rightarrow> [Out (cl_append c), Word f]"
  let ?pipes = "concat (map (\<lambda>a. Pipe # map Word a) ?as)"
  have "grammar ((case cl_in c of None \<Rightarrow> [] | Some f \<Rightarrow> [In, Word f]) @ ts) (g_init\<lparr>g_cur := ?a\<rparr>) = grammar ts ?g" for ts
    by (cases "cl_in c") (simp_all add: g_init_def filename_def)
  then have l: "grammar (lex (show_body c)) g_init = grammar (?pipes @ ?out) ?g"
    using lex_show_body [OF assms] by (simp add: grammar_words) (simp add: g_init_def)
  obtain g' where g': "grammar (?pipes @ ?out) ?g = grammar ?out g'" "g_done g' @ [g_cur g'] = ?a # ?as"
    "g_cur g' \<noteq> []" "g_in g' = cl_in c" "g_out g' = None" "g_append g' = False"
    using grammar_pipes [of ?g ?as ?out] ne(1,2) by (auto simp: g_init_def)
  then show ?thesis
    using l ne(3) assms by (cases "cl_out c") (auto simp: filename_def wf_line_def)
qed

text \<open>The printed line starts and ends with the character of a word, up to the final blanks.\<close>

lemma show_words_ends:
  assumes "ws \<noteq> []" "\<forall>w\<in>set ws. valid_word w"
  shows "\<exists>x d. show_words ws = x @ [d, 32] \<and> word_char d"
proof -
  obtain vs w where w: "ws = vs @ [w]" using assms(1) by (metis rev_exhaust)
  then obtain y d where "w = y @ [d]" "word_char d"
    using assms(2) by (cases w rule: rev_cases) (auto simp: valid_word_def)
  then show ?thesis using w by (auto simp: show_words_def)
qed

lemma valid_word_ends: "valid_word w \<Longrightarrow> \<exists>x d. w @ [32] = x @ [d, 32] \<and> word_char d"
  using show_words_ends [of "[w]"] by (simp add: show_words_def)

lemma show_body_ends:
  assumes "wf_line c"
  shows "\<exists>x d. show_body c = x @ [d, 32] \<and> word_char d"
proof (cases "cl_out c")
  case (Some f)
  then show ?thesis
    using assms valid_word_ends [of f] by (auto simp: show_body_def show_out_def wf_line_def)
next
  case None
  show ?thesis
  proof (cases "tl (cl_argvs c)" rule: rev_cases)
    case (snoc as a)
    then have "a \<in> set (cl_argvs c)" by (metis in_set_conv_decomp list.set_sel(2) tl_Nil)
    then show ?thesis
      using assms show_words_ends [of a] None snoc by (auto simp: show_body_def show_out_def show_pipes_def wf_line_def)
  next
    case Nil
    have "hd (cl_argvs c) \<in> set (cl_argvs c)" using assms by (simp add: wf_line_def)
    then obtain x d where h: "show_words (hd (cl_argvs c)) = x @ [d, 32]" "word_char d"
      using assms show_words_ends [of "hd (cl_argvs c)"] by (auto simp: wf_line_def)
    show ?thesis
    proof (cases "cl_in c")
      case (Some f)
      then obtain y d' where "f @ [32] = y @ [d', 32]" "word_char d'"
        using assms valid_word_ends [of f] by (auto simp: wf_line_def)
      then have "show_body c = (x @ [d, 32, ch_lt, 32] @ y) @ [d', 32]" "word_char d'"
        using Some None Nil h by (simp_all add: show_body_def show_out_def show_in_def show_pipes_def)
      then show ?thesis by blast
    qed (use None Nil h in \<open>simp add: show_body_def show_out_def show_in_def show_pipes_def\<close>)
  qed
qed

definition clean :: "byte list \<Rightarrow> bool" where
  "clean s \<longleftrightarrow> ch_hash \<notin> set s \<and> 0 \<notin> set s"

lemma clean_simps [simp]:
  "clean []" "clean (b # s) \<longleftrightarrow> b \<noteq> ch_hash \<and> b \<noteq> 0 \<and> clean s" "clean (s @ t) \<longleftrightarrow> clean s \<and> clean t"
  by (auto simp: clean_def)

lemma clean_chars [simp]:
  "ch_lt \<noteq> ch_hash" "ch_gt \<noteq> ch_hash" "ch_bar \<noteq> ch_hash" "ch_amp \<noteq> ch_hash" "32 \<noteq> ch_hash" "10 \<noteq> ch_hash"
  "ch_lt \<noteq> 0" "ch_gt \<noteq> 0" "ch_bar \<noteq> 0" "ch_amp \<noteq> 0"
  by (simp_all add: ch_defs)

lemma clean_word: "valid_word w \<Longrightarrow> clean w"
  by (auto simp: valid_word_def clean_def)

lemma clean_words: "\<forall>w\<in>set ws. valid_word w \<Longrightarrow> clean (show_words ws)"
  by (induction ws) (auto simp: show_words_def clean_word)

lemma clean_pipes: "\<forall>a\<in>set as. \<forall>w\<in>set a. valid_word w \<Longrightarrow> clean (show_pipes as)"
  by (induction as) (auto simp: show_pipes_def clean_words)

lemma clean_show_line:
  assumes "wf_line c" shows "clean (show_line c)"
proof -
  have "hd (cl_argvs c) \<in> set (cl_argvs c)" using assms by (simp add: wf_line_def)
  moreover have "set (tl (cl_argvs c)) \<subseteq> set (cl_argvs c)" by (cases "cl_argvs c") auto
  ultimately have w: "clean (show_words (hd (cl_argvs c)))" "clean (show_pipes (tl (cl_argvs c)))"
    using assms by (auto simp: wf_line_def intro!: clean_words clean_pipes)
  have "clean (show_in c)" "clean (show_out c)"
    using assms
    by (auto simp: show_in_def show_out_def wf_line_def clean_word split: option.split)
  then show ?thesis
    using w by (auto simp: show_line_def show_body_def)
qed

lemma trim_ends:
  assumes "s = h # t" "\<not> isspace h" "s = x @ [d]" "\<not> isspace d" "\<forall>b\<in>set sp. isspace b"
  shows "trim (s @ sp) = s"
proof -
  have "dropWhile isspace (s @ sp) = s @ sp" using assms(1,2) by simp
  moreover have "dropWhile isspace (rev sp @ rev s) = dropWhile isspace (rev s)"
    by (rule dropWhile_append2) (use assms(5) in simp)
  moreover have "dropWhile isspace (rev s) = rev s" using assms(3,4) by simp
  ultimately show ?thesis by (simp add: trim_def)
qed

lemma parse_show:
  assumes wf: "wf_line c"
  shows "parse_spec (show_line c) = Inr c"
proof -
  obtain x d where x: "show_body c = x @ [d, 32]" "word_char d" using show_body_ends [OF wf] by blast
  obtain h t where h: "show_body c = h # t" "word_char h"
  proof -
    have "hd (cl_argvs c) \<noteq> []" "\<forall>w\<in>set (hd (cl_argvs c)). valid_word w"
      using wf by (auto simp: wf_line_def)
    then obtain w ws where "hd (cl_argvs c) = w # ws" "valid_word w" by (cases "hd (cl_argvs c)") auto
    then show thesis using that by (cases w) (auto simp: show_body_def show_words_def valid_word_def)
  qed
  have sp: "\<not> isspace d" "\<not> isspace h" "\<not> isspace ch_amp" "isspace 32" "isspace 10" "d \<noteq> ch_amp"
    using x h by (auto simp: word_char_def isspace_def ch_defs)
  have tw: "takeWhile (\<lambda>c. c \<noteq> ch_hash) (show_line c) = show_line c"
    using clean_show_line [OF wf] by (auto simp: takeWhile_eq_all_conv clean_def)
  have tr: "trim (show_line c) = (if cl_background c then show_body c @ [ch_amp] else x @ [d])"
  proof (cases "cl_background c")
    case True
    then show ?thesis
      using trim_ends [of "show_body c @ [ch_amp]" h "t @ [ch_amp]" "show_body c" ch_amp "[10]"] h sp
      by (simp add: show_line_def)
  next
    case False
    obtain t' where t': "x @ [d] = h # t'" using x h by (cases x) auto
    have "trim ((x @ [d]) @ [32, 10]) = x @ [d]"
      by (rule trim_ends [OF t' sp(2) refl sp(1)]) (use sp in simp)
    moreover have "show_line c = (x @ [d]) @ [32, 10]" using x False by (simp add: show_line_def)
    ultimately show ?thesis using False by simp
  qed
  have l: "lex (x @ [d]) = lex (show_body c)" using lex_snoc_space [of "x @ [d]"] x(1) by simp
  obtain g where g: "grammar (lex (show_body c)) g_init = Inr g" "g_done g @ [g_cur g] = cl_argvs c"
    "g_cur g \<noteq> []" "g_in g = cl_in c" "g_out g = cl_out c" "g_append g = cl_append c"
    using grammar_show [OF wf] by blast
  show ?thesis
    unfolding parse_spec_def Let_def tw tr
    using l g sp(6) by (cases "cl_background c") simp_all
qed

section \<open>Properties\<close>

text \<open>
  C37: \<open>parse_command\<close> implements the specification. For every command line (its bytes before the
  terminator) it returns without leaving the memory it allocated; the code is the error of
  \<open>parse_spec\<close>, or 0 with a structure in memory whose strings are those of the specification.
\<close>

theorem parse_command_correct:
  assumes "0 \<notin> set line"
  shows "case parse_spec line of
      Inl err \<Rightarrow> parse_command True True line = Some (err, None)
    | Inr c \<Rightarrow> \<exists>p. parse_command True True line = Some (0, Some p) \<and> view p = Some c \<and>
        num_commands p = length (cl_argvs c)"
  using parse_command_spec [OF assms] by (auto simp: spec_result_def split: sum.splits)

theorem parse_command_correct_witness:
  "parse_command True True (ascii ''a |'') = Some (UNEXPECTED_PIPELINE, None)"
proof -
  have "0 \<notin> set (ascii ''a |'')" by (simp add: ascii_def)
  moreover have "parse_spec (ascii ''a |'') = Inl UNEXPECTED_PIPELINE"
    by (simp add: parse_spec_def ascii_def trim_def isspace_def ch_defs g_init_def word_char_def)
  ultimately show ?thesis using parse_command_correct [of "ascii ''a |''"] by simp
qed

text \<open>
  C38: Printing a parsed command and parsing what was printed gives a command with the same
  arguments, redirections and background mark.
\<close>

theorem parse_print_roundtrip:
  assumes "0 \<notin> set line" "parse_command True True line = Some (0, Some p)" "num_commands p > 0"
  shows "\<exists>out p'. print_parsed_command p = Some out \<and>
    parse_command True True out = Some (0, Some p') \<and> view p' = view p \<and> view p \<noteq> None"
proof -
  obtain c where c: "parse_spec line = Inr c" "view p = Some c" "cl_argvs c \<noteq> []"
    using parse_command_spec [OF assms(1)] assms(2,3) by (auto simp: spec_result_def split: sum.splits)
  have wf: "wf_line c" using parse_spec_wf [OF c(1,3) assms(1)] .
  have "0 \<notin> set (show_line c)" using clean_show_line [OF wf] by (simp add: clean_def)
  then obtain p' where "parse_command True True (show_line c) = Some (0, Some p')" "view p' = Some c"
    using parse_command_spec [of "show_line c"] parse_show [OF wf] by (auto simp: spec_result_def)
  then show ?thesis using print_view [OF c(2,3)] c(2) by auto
qed

theorem parse_print_roundtrip_witness:
  "\<exists>p out p'. parse_command True True (ascii ''ls > f&'') = Some (0, Some p) \<and>
     print_parsed_command p = Some out \<and> parse_command True True out = Some (0, Some p') \<and>
     view p' = Some \<lparr>cl_background = True, cl_append = False, cl_in = None, cl_out = Some (ascii ''f''),
       cl_argvs = [[ascii ''ls'']]\<rparr>"
proof -
  let ?c = "\<lparr>cl_background = True, cl_append = False, cl_in = None, cl_out = Some (ascii ''f''),
       cl_argvs = [[ascii ''ls'']]\<rparr>"
  have z: "0 \<notin> set (ascii ''ls > f&'')" by (simp add: ascii_def)
  have "parse_spec (ascii ''ls > f&'') = Inr ?c"
    by (simp add: parse_spec_def ascii_def trim_def isspace_def ch_defs g_init_def word_char_def filename_def)
  then obtain p where p: "parse_command True True (ascii ''ls > f&'') = Some (0, Some p)" "view p = Some ?c"
    "num_commands p = 1"
    using parse_command_spec [OF z] by (auto simp: spec_result_def)
  then show ?thesis using parse_print_roundtrip [OF z p(1)] by auto
qed

end
