(* ===== verification/Commands.thy ===== *)
theory Commands
  imports File_Syscalls Tokenizer
begin

unbundle bit_operations_syntax

text \<open>
  The programs of the shell (\<^verbatim>\<open>src/src/shell/commands.c\<close>), one definition per function: a run of the
  body of a thread on the system state, from its start to the point where the thread ends, spins or
  is suspended inside a system call (\<open>thread_result\<close>). A body that is suspended goes on in the
  definition with the suffix \<open>_resume\<close>.

  The vector of arguments is a list; reading the element behind its end is the null pointer, and
  reading further is outside the array, without a result, as is every use of a null pointer.
  The two debugging lines that the code prints with \<open>printf\<close> to the host are left out.
\<close>

section \<open>Outcomes and arguments\<close>

datatype thread_result = Exited | Returns | Spins | Sleeping | Waiting | Host_killed

definition arg_at :: "byte list list \<Rightarrow> nat \<Rightarrow> byte list option option" where
  "arg_at ctx i =
     (if i < length ctx then Some (Some (ctx ! i)) else if i = length ctx then Some None else None)"

text \<open>\<open>s_write\<close> of a whole string whose result is not used.\<close>

definition put :: "host \<Rightarrow> int \<Rightarrow> byte list \<Rightarrow> os \<Rightarrow> os option" where
  "put h fd msg s = map_option snd (s_write h fd msg (int (length msg)) s)"

text \<open>\<open>s_exit(status); return NULL;\<close>\<close>

definition finish :: "int \<Rightarrow> os \<Rightarrow> (thread_result \<times> os) option" where
  "finish status s = do {
     (r, s) \<leftarrow> on_kern (s_exit status) s;
     Some (case r of Thread_exited \<Rightarrow> Exited | Returned _ \<Rightarrow> Returns, s)
   }"

definition put_finish :: "host \<Rightarrow> byte list \<Rightarrow> int \<Rightarrow> os \<Rightarrow> (thread_result \<times> os) option" where
  "put_finish h msg status s = do { s \<leftarrow> put h 2 msg s; finish status s }"

text \<open>A message after which the body returns without \<open>s_exit\<close>.\<close>

definition put_return :: "host \<Rightarrow> byte list \<Rightarrow> os \<Rightarrow> (thread_result \<times> os) option" where
  "put_return h msg s = do { s \<leftarrow> put h 2 msg s; Some (Returns, s) }"

definition perror_finish :: "host \<Rightarrow> string \<Rightarrow> int \<Rightarrow> os \<Rightarrow> (thread_result \<times> os) option" where
  "perror_finish h str status s = do { s \<leftarrow> u_perror h (ascii str) s; finish status s }"

text \<open>\<open>atoi\<close>: the value of \<open>strtol\<close> converted to \<open>int\<close>.\<close>

definition atoi :: "byte list \<Rightarrow> int" where
  "atoi str = s32 (u32_of_int (fst (strtol str)))"

section \<open>Processes\<close>

definition ps :: "host \<Rightarrow> os \<Rightarrow> (thread_result \<times> os) option" where
  "ps h s = do { s \<leftarrow> s_get_process_info h s; finish 0 s }"

definition zombie_child :: "os \<Rightarrow> (thread_result \<times> os) option" where
  "zombie_child s = finish 0 s"

definition spawn_named :: "create_env \<Rightarrow> byte list \<Rightarrow> os \<Rightarrow> (int \<times> os) option" where
  "spawn_named m cmd_name s = on_kern (s_spawn m (Some [cmd_name]) 0 1 PRIORITY_MEDIUM) s"

definition zombify :: "create_env \<Rightarrow> os \<Rightarrow> (thread_result \<times> os) option" where
  "zombify m s = do { (_, s) \<leftarrow> spawn_named m (ascii ''zombie_child'') s; Some (Spins, s) }"

definition orphan_child :: "os \<Rightarrow> (thread_result \<times> os) option" where
  "orphan_child s = Some (Spins, s)"

definition orphanify :: "create_env \<Rightarrow> os \<Rightarrow> (thread_result \<times> os) option" where
  "orphanify m s = do { (_, s) \<leftarrow> spawn_named m (ascii ''orphan_child'') s; finish 0 s }"

definition invalid_priority :: "byte list" where
  "invalid_priority = ascii ''Invalid priority level. Use 0 (high), 1 (medium), or 2 (low)'' @ [10]"

definition busy :: "host \<Rightarrow> byte list \<Rightarrow> os \<Rightarrow> (thread_result \<times> os) option" where
  "busy h prio_arg s =
     (let priority_level = atoi prio_arg in
      if priority_level < 0 \<or> priority_level > 2 then put_finish h invalid_priority 1 s
      else case s_get_current_process (kern s) of
        None \<Rightarrow> put_finish h (ascii ''Busy: Could not get current process'' @ [10]) 1 s
      | Some cur \<Rightarrow> do {
          c \<leftarrow> pcbs (kern s) cur;
          (result, s) \<leftarrow> on_kern (s_nice (pid c) priority_level) s;
          if result \<noteq> 0 then perror_finish h ''busy (s_nice)'' 1 s else Some (Spins, s)
        })"

definition nice_pid_command ::
  "host \<Rightarrow> byte list option \<Rightarrow> byte list option \<Rightarrow> os \<Rightarrow> (thread_result \<times> os) option" where
  "nice_pid_command h pid_arg prio_arg s =
     (case (pid_arg, prio_arg) of
        (Some p, Some prio) \<Rightarrow>
          (let target_pid = atoi p; priority_level = atoi prio in
           if priority_level < 0 \<or> priority_level > 2 then put_return h invalid_priority s
           else do {
             (result, s) \<leftarrow> on_kern (s_nice target_pid priority_level) s;
             put_finish h
               (if result = 0
                then ascii ''Changed priority of process '' @ decimal target_pid @ ascii '' to '' @
                  decimal priority_level @ [10]
                else ascii ''Failed to change priority of process '' @ decimal target_pid @ [10]) 0 s
           })
      | _ \<Rightarrow> put_return h (ascii ''Usage: nice <pid> <priority_level>'' @ [10]) s)"

text \<open>The message is built in an array of 100 bytes.\<close>

definition nice_command :: "host \<Rightarrow> byte list list \<Rightarrow> byte list option \<Rightarrow> os \<Rightarrow> (thread_result \<times> os) option" where
  "nice_command h command_args prio_arg s =
     (case prio_arg of
        None \<Rightarrow> put_return h (ascii ''Usage: nice <priority_level>'' @ [10]) s
      | Some prio \<Rightarrow>
          if atoi prio < 0 \<or> atoi prio > 2 then put_return h invalid_priority s
          else do {
            arg \<leftarrow> arg_at command_args 2;
            call \<leftarrow> arg;
            let output_string = ascii ''call value: '' @ call @ [10];
            if length output_string \<ge> 100 then None else put_finish h output_string 0 s
          })"

definition sleep_after :: "host \<Rightarrow> int \<Rightarrow> os \<Rightarrow> (thread_result \<times> os) option" where
  "sleep_after h ret s = do {
     s \<leftarrow> (if ret \<noteq> 0 then u_perror h (ascii ''sleep'') s else Some s);
     finish 0 s
   }"

definition sleep_done :: "host \<Rightarrow> wait_result \<times> os \<Rightarrow> (thread_result \<times> os) option" where
  "sleep_done h = (\<lambda>(r, s). case r of Wait_suspend \<Rightarrow> Some (Sleeping, s) | Wait_return ret \<Rightarrow> sleep_after h ret s)"

definition sleep_command :: "host \<Rightarrow> byte list option \<Rightarrow> os \<Rightarrow> (thread_result \<times> os) option" where
  "sleep_command h time_arg s =
     (case time_arg of
        None \<Rightarrow> put_finish h (ascii ''Error: sleep command requires a number of ticks'' @ [10]) 1 s
      | Some t \<Rightarrow> do { r \<leftarrow> on_kern (s_sleep (u32_of_int (atoi t))) s; sleep_done h r })"

definition sleep_command_resume :: "host \<Rightarrow> addr \<Rightarrow> os \<Rightarrow> (thread_result \<times> os) option" where
  "sleep_command_resume h cur s = do { r \<leftarrow> on_kern (s_sleep_resume cur) s; sleep_done h r }"

definition kill_usage :: "byte list" where
  "kill_usage = ascii ''Usage: kill [-term|-stop|-cont] <pid> [pid...]'' @ [10]"

text \<open>The signals sent; the thread ends early when it signals itself.\<close>

fun kill_all :: "host \<Rightarrow> int \<Rightarrow> byte list list \<Rightarrow> os \<Rightarrow> (thread_result \<times> os) option" where
  "kill_all h signal [] s = finish 0 s"
| "kill_all h signal (p # pids) s = do {
     (r, s) \<leftarrow> on_kern (s_kill (atoi p) signal) s;
     case r of
       Thread_exited \<Rightarrow> Some (Exited, s)
     | Returned ret \<Rightarrow> do {
         s \<leftarrow> (if ret \<noteq> 0 then u_perror h (ascii ''kill'') s else Some s);
         kill_all h signal pids s
       }
   }"

definition kill_process_shell :: "host \<Rightarrow> byte list list \<Rightarrow> byte list option \<Rightarrow> os \<Rightarrow> (thread_result \<times> os) option" where
  "kill_process_shell h args first_term s =
     (case first_term of
        None \<Rightarrow> put_finish h (ascii ''Error: kill command requires a process ID'' @ [10]) 1 s
      | Some t \<Rightarrow>
          let flag = (t \<noteq> [] \<and> hd t = 45);
              signal = (if \<not> flag \<or> t = ascii ''-term'' then Some P_SIGTERM
                        else if t = ascii ''-stop'' then Some P_SIGSTOP
                        else if t = ascii ''-cont'' then Some P_SIGCONT else None);
              start_idx = (if flag then 2 else 1)
          in case signal of
               None \<Rightarrow> do {
                 s \<leftarrow> put h 2 (ascii ''Unknown signal flag'' @ [10]) s;
                 put_finish h kill_usage 1 s
               }
             | Some sig \<Rightarrow> do {
                 arg \<leftarrow> arg_at args start_idx;
                 case arg of
                   None \<Rightarrow> do {
                     s \<leftarrow> put h 2 (ascii ''Error: kill command requires at least one PID'' @ [10]) s;
                     put_finish h kill_usage 1 s
                   }
                 | Some _ \<Rightarrow> kill_all h sig (drop start_idx args) s
               })"

section \<open>The manual\<close>

text \<open>
  The lines with the number of bytes written of each: for two of them the length of a shorter
  string is passed.
\<close>

definition man_lines :: "(byte list \<times> nat) list" where
  "man_lines =
     map (\<lambda>l. (ascii l @ [10], length l + 1))
       [''Available commands:'' @ [CHR 0x0A],
        ''ps          - List all running processes and their states'',
        ''zombify     - Create a zombie process'',
        ''orphanify   - Create an orphan process'',
        ''busy        - Start a CPU-intensive process'',
        ''sleep <n>   - Sleep for n ticks'',
        ''nice_pid <pid> <priority>            - Change priority of process <pid> to <priority> (0-2)'',
        ''nice <priority> <command>   - spawns a process <command> with priority <priority>'',
        ''kill -term <pid> - Terminate process <pid>'',
        ''kill -stop <pid> - Stop process <pid>'',
        ''kill -cont <pid> - Continue process <pid>'',
        ''ls          - List all files in the current directory''] @
     map (\<lambda>l. (ascii l @ [10, 32, 32], length l + 1))
       [''bg <job_id> - brings job id to the background'',
        ''fg <job_id> - brings job id to the foreground''] @
     map (\<lambda>l. (ascii l @ [10], length l + 1))
       [''jobs        - List all jobs'',
        ''echo <message> - Print <message> to the shell'',
        ''touch <filename> - Create a new file with name <filename>'',
        ''rm <filename> - Delete the file <filename>'',
        ''cp <source> <destination> - Copy the file <source> to <destination>'',
        ''cat <filename> - Print the contents of the file <filename>'',
        ''chmod <mode> <filename> - Change the permissions of <filename> to <mode>'',
        ''mv <source> <destination> - Move the file <source> to <destination>'',
        ''logout - logs the user out of pennos'',
        ''man         - Show this help message'']"

fun put_lines :: "host \<Rightarrow> (byte list \<times> nat) list \<Rightarrow> os \<Rightarrow> os option" where
  "put_lines h [] s = Some s"
| "put_lines h ((str, n) # rows) s = do { (_, s) \<leftarrow> s_write h 2 str (int n) s; put_lines h rows s }"

definition man :: "host \<Rightarrow> os \<Rightarrow> (thread_result \<times> os) option" where
  "man h s = do { s \<leftarrow> put_lines h man_lines s; finish 0 s }"

section \<open>Files\<close>

definition ls :: "host \<Rightarrow> (nat \<Rightarrow> byte list) \<Rightarrow> byte list list \<Rightarrow> os \<Rightarrow> (thread_result \<times> os) option" where
  "ls h ft command_args s = do {
     arg \<leftarrow> arg_at command_args 1;
     (_, s) \<leftarrow> s_ls h ft arg s;
     finish 0 s
   }"

definition echo :: "host \<Rightarrow> byte list list \<Rightarrow> os \<Rightarrow> (thread_result \<times> os) option" where
  "echo h command_args s = do {
     arg \<leftarrow> arg_at command_args 1;
     str \<leftarrow> arg;
     (ret, s) \<leftarrow> s_write h 1 str (int (length str)) s;
     if ret < 0 then finish ret s
     else do {
       (ret2, s) \<leftarrow> s_write h 1 [10] 1 s;
       if ret2 < 0 then finish ret2 s else perror_finish h ''echo'' 0 s
     }
   }"

fun touch_all :: "host \<Rightarrow> byte list list \<Rightarrow> os \<Rightarrow> (thread_result \<times> os) option" where
  "touch_all h [] s = perror_finish h ''touch'' 0 s"
| "touch_all h (f # fnames) s = do {
     (fd, s) \<leftarrow> s_open h f F_APPEND s;
     if fd < 0 then perror_finish h ''touch'' fd s
     else do {
       (status, s) \<leftarrow> s_write h fd [] 0 s;
       if status < 0 then perror_finish h ''touch'' status s
       else do { (_, s) \<leftarrow> s_close h fd s; touch_all h fnames s }
     }
   }"

definition touch :: "host \<Rightarrow> byte list list \<Rightarrow> os \<Rightarrow> (thread_result \<times> os) option" where
  "touch h command_args s = do {
     arg \<leftarrow> arg_at command_args 1;
     if arg = None
     then put_return h (ascii ''touch got wrong number of arguments (expected at least 1 argument)'' @ [10]) s
     else touch_all h (tl command_args) s
   }"

fun rm_all :: "host \<Rightarrow> byte list list \<Rightarrow> os \<Rightarrow> (thread_result \<times> os) option" where
  "rm_all h [] s = perror_finish h ''rm'' 0 s"
| "rm_all h (f # fnames) s = do {
     (unlink_status, s) \<leftarrow> s_unlink h f s;
     if unlink_status < 0 then put_finish h (ascii ''rm: Error - failed to remove file'' @ [10]) unlink_status s
     else rm_all h fnames s
   }"

definition rm :: "host \<Rightarrow> byte list list \<Rightarrow> os \<Rightarrow> (thread_result \<times> os) option" where
  "rm h command_args s = do {
     arg \<leftarrow> arg_at command_args 1;
     if arg = None
     then put_return h (ascii ''rm got wrong number of arguments (expected at least 1 argument)'' @ [10]) s
     else rm_all h (tl command_args) s
   }"

text \<open>\<open>command[1] != NULL && command[2] != NULL && command[3] == NULL\<close>\<close>

definition two_args :: "byte list list \<Rightarrow> bool" where
  "two_args command_args \<longleftrightarrow> length command_args = 3"

text \<open>The loop of \<open>cp\<close>: whether every write succeeded.\<close>

partial_function (option) cp_loop :: "host \<Rightarrow> int \<Rightarrow> int \<Rightarrow> os \<Rightarrow> (bool \<times> os) option" where
  "cp_loop h src_fd dest_fd s = do {
     ((bytes_read, buffer), s) \<leftarrow> s_read h src_fd 1024 s;
     if bytes_read > 0 then do {
       (status, s) \<leftarrow> s_write h dest_fd buffer bytes_read s;
       if status < 0 then Some (False, s) else cp_loop h src_fd dest_fd s
     }
     else Some (True, s)
   }"

declare cp_loop.simps [code]

definition cp_opened :: "host \<Rightarrow> int \<Rightarrow> int \<Rightarrow> os \<Rightarrow> (thread_result \<times> os) option" where
  "cp_opened h src_fd dest_fd s = do {
     (ok, s) \<leftarrow> cp_loop h src_fd dest_fd s;
     if ok then do {
       (_, s) \<leftarrow> s_close h src_fd s;
       (_, s) \<leftarrow> s_close h dest_fd s;
       perror_finish h ''cp'' 0 s
     }
     else do {
       s \<leftarrow> u_perror h (ascii ''cp'') s;
       (_, s) \<leftarrow> s_close h src_fd s;
       (_, s) \<leftarrow> s_close h dest_fd s;
       finish dest_fd s
     }
   }"

definition cp :: "host \<Rightarrow> byte list list \<Rightarrow> os \<Rightarrow> (thread_result \<times> os) option" where
  "cp h command_args s =
     (if \<not> two_args command_args
      then put_return h (ascii ''cp got wrong number of arguments (expected at  2 arguments)'' @ [10]) s
      else do {
        (src_fd, s) \<leftarrow> s_open h (command_args ! 1) F_READ s;
        if src_fd < 0 then perror_finish h ''cp'' src_fd s
        else do {
          (dest_fd, s) \<leftarrow> s_open h (command_args ! 2) F_WRITE s;
          if dest_fd < 0 then do {
            s \<leftarrow> u_perror h (ascii ''cp'') s;
            (_, s) \<leftarrow> s_close h src_fd s;
            finish dest_fd s
          }
          else cp_opened h src_fd dest_fd s
        }
      })"

text \<open>
  The copy of a descriptor to the standard output. Each element of \<open>inp\<close> is what one read of the
  terminal returns, if the descriptor is the terminal; behind its end the input has ended.
\<close>

partial_function (option) pump :: "host \<Rightarrow> byte list option list \<Rightarrow> int \<Rightarrow> os \<Rightarrow> os option" where
  "pump h inp fd s = do {
     ((bytes_read, buffer), s) \<leftarrow>
       s_read (h\<lparr>h_terminal_in := (\<lambda>_. case inp of [] \<Rightarrow> Some [] | r # _ \<Rightarrow> r)\<rparr>) fd 1024 s;
     if bytes_read > 0 then do {
       (_, s) \<leftarrow> s_write h 1 buffer bytes_read s;
       pump h (tl inp) fd s
     }
     else Some s
   }"

declare pump.simps [code]

fun cat_all :: "host \<Rightarrow> byte list list \<Rightarrow> os \<Rightarrow> (thread_result \<times> os) option" where
  "cat_all h [] s = finish 0 s"
| "cat_all h (f # fnames) s = do {
     (fd, s) \<leftarrow> s_open h f F_READ s;
     if fd < 0 then perror_finish h ''cat'' (-1) s
     else do {
       s \<leftarrow> pump h [] fd s;
       (_, s) \<leftarrow> s_close h fd s;
       cat_all h fnames s
     }
   }"

definition cat :: "host \<Rightarrow> byte list option list \<Rightarrow> byte list list \<Rightarrow> os \<Rightarrow> (thread_result \<times> os) option" where
  "cat h inp command_args s = do {
     arg \<leftarrow> arg_at command_args 1;
     if arg = None then do { s \<leftarrow> pump h inp 0 s; perror_finish h ''cat'' 0 s }
     else cat_all h (tl command_args) s
   }"

abbreviation F_CHMOD_R :: nat where "F_CHMOD_R \<equiv> 4"
abbreviation F_CHMOD_W :: nat where "F_CHMOD_W \<equiv> 2"
abbreviation F_CHMOD_X :: nat where "F_CHMOD_X \<equiv> 1"

fun chmod_bits :: "byte list \<Rightarrow> nat \<Rightarrow> nat" where
  "chmod_bits [] permissions = permissions"
| "chmod_bits (c # cs) permissions =
     chmod_bits cs
       (if c = of_char CHR ''r'' then permissions OR F_CHMOD_R
        else if c = of_char CHR ''w'' then permissions OR F_CHMOD_W
        else if c = of_char CHR ''x'' then permissions OR F_CHMOD_X
        else permissions)"

definition chmod :: "host \<Rightarrow> byte list list \<Rightarrow> os \<Rightarrow> (thread_result \<times> os) option" where
  "chmod h command_args s =
     (if \<not> two_args command_args
      then put_finish h (ascii ''chmod got wrong number of arguments (expected 2 arguments)'' @ [10]) (-200) s
      else let permission_mode = command_args ! 1 in
        if length permission_mode < 2 \<or> length permission_mode > 4
        then put_finish h (ascii ''chmod: Error - invalid permission mode (must be 2-4 characters long including + or -)'' @ [10]) (-201) s
        else if hd permission_mode \<noteq> 43 \<and> hd permission_mode \<noteq> 45
        then put_finish h (ascii ''chmod: Error - invalid permission mode (must start with + or -)'' @ [10]) (-202) s
        else do {
          (_, s) \<leftarrow> s_chmod h (command_args ! 2) (chmod_bits (tl permission_mode) 0)
            (if hd permission_mode = 43 then F_CHMOD_ADD else F_CHMOD_REMOVE) s;
          perror_finish h ''chmod'' 0 s
        })"

definition mv :: "host \<Rightarrow> byte list list \<Rightarrow> os \<Rightarrow> (thread_result \<times> os) option" where
  "mv h command_args s =
     (if \<not> two_args command_args
      then put_finish h (ascii ''mv got wrong number of arguments (expected 2 arguments)'' @ [10]) (-200) s
      else do {
        (mv_status, s) \<leftarrow> s_mv h (command_args ! 1) (command_args ! 2) s;
        if mv_status < 0 then perror_finish h ''mv'' (-1) s else finish 0 s
      })"

definition hang_helper :: "os \<Rightarrow> (thread_result \<times> os) option" where
  "hang_helper s = finish 0 s"

definition logout :: "os \<Rightarrow> (thread_result \<times> os) option" where
  "logout s = finish 0 (s\<lparr>kern := s_logout (kern s)\<rparr>)"

end
