(* ===== verification/Jobs.thy ===== *)
theory Jobs
  imports File_Syscalls Parser Tokenizer
begin

text \<open>
  Job control of the shell (\<^verbatim>\<open>src/src/shell/jobs.c\<close>, \<^verbatim>\<open>Job.h\<close>, \<^verbatim>\<open>Job.c\<close>).

  The global list of jobs is a doubly linked list of nodes; a node points to a job and a job owns
  its parsed command. \<open>node_job\<close> and \<open>job_heap\<close> are the allocated nodes and jobs: following a
  pointer to freed memory gives \<^term>\<open>None\<close>. The addresses that \<open>malloc\<close> returns are arguments.

  A function that calls \<open>exit\<close> ends the whole program; its result is then \<open>Exits\<close>. A function that
  waits for a process may be suspended; the rest of it is its \<open>_resume\<close> definition.
\<close>

section \<open>State\<close>

datatype job_status = J_RUNNING_FG | J_RUNNING_BG | J_STOPPED

record job =
  job_id :: nat
  job_pid :: int
  job_status :: job_status
  job_cmd :: parsed_command

record shell =
  sys :: os
  job_ll :: llist
  job_links :: links
  node_job :: "addr \<Rightarrow> addr option"
  job_heap :: "addr \<Rightarrow> job option"

datatype control = Continues | Exits

definition on_sys :: "(os \<Rightarrow> ('a \<times> os) option) \<Rightarrow> shell \<Rightarrow> ('a \<times> shell) option" where
  "on_sys f sh = do { (r, s) \<leftarrow> f (sys sh); Some (r, sh\<lparr>sys := s\<rparr>) }"

text \<open>Formatted output on the standard error; the result is not checked.\<close>

definition say :: "host \<Rightarrow> byte list \<Rightarrow> shell \<Rightarrow> shell option" where
  "say h msg sh = map_option snd (on_sys (s_fprintf_short h 2 (Some msg)) sh)"

definition get_job :: "addr \<Rightarrow> shell \<Rightarrow> job option" where
  "get_job a sh = job_heap sh a"

definition upd_job :: "addr \<Rightarrow> (job \<Rightarrow> job) \<Rightarrow> shell \<Rightarrow> shell option" where
  "upd_job a f sh = do { j \<leftarrow> job_heap sh a; Some (sh\<lparr>job_heap := (job_heap sh)(a \<mapsto> f j)\<rparr>) }"

definition destroy_job :: "addr \<Rightarrow> shell \<Rightarrow> shell option" where
  "destroy_job a sh = do { _ \<leftarrow> job_heap sh a; Some (sh\<lparr>job_heap := (job_heap sh)(a := None)\<rparr>) }"

definition free_node :: "addr \<Rightarrow> shell \<Rightarrow> shell option" where
  "free_node n sh = do { _ \<leftarrow> node_job sh n; Some (sh\<lparr>node_job := (node_job sh)(n := None)\<rparr>) }"

definition unlink_node :: "addr \<Rightarrow> shell \<Rightarrow> shell" where
  "unlink_node n sh =
     (let (self, l) = linked_list_remove n (job_ll sh, job_links sh)
      in sh\<lparr>job_ll := self, job_links := l\<rparr>)"

section \<open>Printing\<close>

fun say_args :: "host \<Rightarrow> bool \<Rightarrow> byte list list \<Rightarrow> shell \<Rightarrow> shell option" where
  "say_args h first [] sh = Some sh"
| "say_args h first (a # args) sh = do {
     sh \<leftarrow> (if first then Some sh else say h [32] sh);
     sh \<leftarrow> say h a sh;
     say_args h False args sh
   }"

fun say_stages :: "host \<Rightarrow> parsed_command \<Rightarrow> nat list \<Rightarrow> shell \<Rightarrow> shell option" where
  "say_stages h cmd [] sh = Some sh"
| "say_stages h cmd (i # is) sh = do {
     sh \<leftarrow> (if i > 0 then say h [32, ch_bar, 32] sh else Some sh);
     argv \<leftarrow> stage_argv cmd i;
     sh \<leftarrow> say_args h True argv sh;
     say_stages h cmd is sh
   }"

definition print_job_command :: "host \<Rightarrow> addr \<Rightarrow> shell \<Rightarrow> shell option" where
  "print_job_command h a sh = do {
     j \<leftarrow> get_job a sh;
     say_stages h (job_cmd j) [0..<num_commands (job_cmd j)] sh
   }"

text \<open>A walk along the list from a node on, with an action for each job.\<close>

partial_function (option) each_job ::
  "(addr \<Rightarrow> shell \<Rightarrow> shell option) \<Rightarrow> addr option \<Rightarrow> shell \<Rightarrow> shell option" where
  "each_job f p sh =
     (case p of
        None \<Rightarrow> Some sh
      | Some n \<Rightarrow> do {
          a \<leftarrow> node_job sh n;
          sh \<leftarrow> f a sh;
          each_job f (l_next (job_links sh) n) sh
        })"

declare each_job.simps [code]

definition say_job :: "host \<Rightarrow> addr \<Rightarrow> shell \<Rightarrow> shell option" where
  "say_job h a sh = do {
     j \<leftarrow> get_job a sh;
     sh \<leftarrow> say h (91 # decimal (int (job_id j)) @ [93, 32] @
             (if job_status j = J_RUNNING_BG then ascii ''Running'' else ascii ''Stopped'') @ [32]) sh;
     sh \<leftarrow> print_job_command h a sh;
     say h [10] sh
   }"

definition handle_jobs :: "host \<Rightarrow> shell \<Rightarrow> shell option" where
  "handle_jobs h sh = each_job (say_job h) (ll_head (job_ll sh)) sh"

definition say_pid :: "host \<Rightarrow> addr \<Rightarrow> shell \<Rightarrow> shell option" where
  "say_pid h a sh = do {
     j \<leftarrow> get_job a sh;
     sh \<leftarrow> say h (91 # decimal (int (job_id j)) @ [93, 32]) sh;
     sh \<leftarrow> say h (decimal (job_pid j)) sh;
     say h [10] sh
   }"

definition print_all_jobs :: "host \<Rightarrow> shell \<Rightarrow> shell option" where
  "print_all_jobs h sh = each_job (say_pid h) (ll_head (job_ll sh)) sh"

definition print_job_list :: "host \<Rightarrow> shell \<Rightarrow> shell option" where
  "print_job_list h sh = each_job (print_job_command h) (ll_head (job_ll sh)) sh"

section \<open>The list of jobs\<close>

text \<open>The first node, in the direction of \<open>step\<close>, whose job satisfies \<open>P\<close>.\<close>

partial_function (option) find_node ::
  "(links \<Rightarrow> addr \<Rightarrow> addr option) \<Rightarrow> (addr \<Rightarrow> job \<Rightarrow> bool) \<Rightarrow> addr option \<Rightarrow> shell \<Rightarrow> addr option option" where
  "find_node step P p sh =
     (case p of
        None \<Rightarrow> Some None
      | Some n \<Rightarrow> do {
          a \<leftarrow> node_job sh n;
          j \<leftarrow> get_job a sh;
          if P a j then Some (Some n) else find_node step P (step (job_links sh) n) sh
        })"

declare find_node.simps [code]

definition find_job :: "(job \<Rightarrow> bool) \<Rightarrow> shell \<Rightarrow> addr option option" where
  "find_job P sh = do {
     node \<leftarrow> find_node l_next (\<lambda>_ j. P j) (ll_head (job_ll sh)) sh;
     case node of None \<Rightarrow> Some None | Some n \<Rightarrow> map_option Some (node_job sh n)
   }"

definition find_job_by_id :: "nat \<Rightarrow> shell \<Rightarrow> addr option option" where
  "find_job_by_id i = find_job (\<lambda>j. job_id j = i)"

definition find_job_by_pid :: "int \<Rightarrow> shell \<Rightarrow> addr option option" where
  "find_job_by_pid p = find_job (\<lambda>j. job_pid j > 0 \<and> job_pid j = p)"

definition enqueue_job :: "host \<Rightarrow> addr option \<Rightarrow> addr \<Rightarrow> shell \<Rightarrow> (control \<times> shell) option" where
  "enqueue_job h node a sh = do {
     j \<leftarrow> get_job a sh;
     if job_status j \<noteq> J_STOPPED \<and> job_status j \<noteq> J_RUNNING_BG then do {
       sh \<leftarrow> say h (ascii ''Cannot enqueue a job that is not stopped or running in the background (cannot enqueue foreground jobs).'' @ [10]) sh;
       Some (Exits, sh)
     }
     else case node of
       None \<Rightarrow> do {
         sh \<leftarrow> say h (ascii ''Failed to allocate job_ll_node'' @ [10]) sh;
         Some (Continues, sh)
       }
     | Some n \<Rightarrow> do {
         (self, l) \<leftarrow> linked_list_push_tail n
           (job_ll sh, set_next n None (set_prev n None (job_links sh)));
         Some (Continues, sh\<lparr>job_ll := self, job_links := l, node_job := (node_job sh)(n \<mapsto> a)\<rparr>)
       }
   }"

definition add_foreground_job :: "host \<Rightarrow> addr option \<Rightarrow> addr \<Rightarrow> shell \<Rightarrow> shell option" where
  "add_foreground_job h node a sh =
     (case node of
        None \<Rightarrow> say h (ascii ''Failed to allocate job_ll_node'' @ [10]) sh
      | Some n \<Rightarrow> do {
          (self, l) \<leftarrow> linked_list_push_head n
            (job_ll sh, set_next n None (set_prev n None (job_links sh)));
          Some (sh\<lparr>job_ll := self, job_links := l, node_job := (node_job sh)(n \<mapsto> a)\<rparr>)
        })"

definition remove_job_by_pid :: "int \<Rightarrow> shell \<Rightarrow> shell option" where
  "remove_job_by_pid p sh = do {
     node \<leftarrow> find_node l_next (\<lambda>_ j. job_pid j = p) (ll_head (job_ll sh)) sh;
     case node of
       None \<Rightarrow> Some sh
     | Some n \<Rightarrow> do {
         a \<leftarrow> node_job sh n;
         sh \<leftarrow> destroy_job a (unlink_node n sh);
         free_node n sh
       }
   }"

text \<open>
  \<open>remove_foreground_job\<close> compares the pointers of the jobs and does not look at the jobs
  themselves.
\<close>

partial_function (option) find_pointer :: "addr \<Rightarrow> addr option \<Rightarrow> shell \<Rightarrow> addr option option" where
  "find_pointer a p sh =
     (case p of
        None \<Rightarrow> Some None
      | Some n \<Rightarrow> do {
          b \<leftarrow> node_job sh n;
          if b = a then Some (Some n) else find_pointer a (l_next (job_links sh) n) sh
        })"

declare find_pointer.simps [code]

definition remove_foreground_job :: "addr \<Rightarrow> shell \<Rightarrow> shell option" where
  "remove_foreground_job a sh = do {
     node \<leftarrow> find_pointer a (ll_head (job_ll sh)) sh;
     case node of None \<Rightarrow> Some sh | Some n \<Rightarrow> free_node n (unlink_node n sh)
   }"

definition get_jobs_head :: "shell \<Rightarrow> addr option option" where
  "get_jobs_head sh =
     (case ll_head (job_ll sh) of None \<Rightarrow> Some None | Some n \<Rightarrow> map_option Some (node_job sh n))"

section \<open>fg and bg\<close>

definition u64_of_int :: "int \<Rightarrow> nat" where
  "u64_of_int i = nat (i mod 2 ^ 64)"

definition s64 :: "nat \<Rightarrow> int" where
  "s64 n = (if n < 2 ^ 63 then int n else int n - 2 ^ 64)"

text \<open>The node that \<open>fg\<close> and \<open>bg\<close> act on, searched from the end of the list.\<close>

definition target_node :: "host \<Rightarrow> byte list \<Rightarrow> parsed_command \<Rightarrow> shell \<Rightarrow> (addr option \<times> shell) option" where
  "target_node h none_msg cmd sh = do {
     argv \<leftarrow> stage_argv cmd 0;
     if length argv \<ge> 2 then do {
       let target_id = u64_of_int (fst (strtol (argv ! 1)));
       node \<leftarrow> find_node l_prev (\<lambda>_ j. job_id j = target_id) (ll_tail (job_ll sh)) sh;
       sh \<leftarrow> (if node = None
             then say h (ascii ''No job with id '' @ decimal (s64 target_id) @ [10]) sh else Some sh);
       Some (node, sh)
     }
     else if ll_tail (job_ll sh) = None then do { sh \<leftarrow> say h none_msg sh; Some (None, sh) }
     else Some (ll_tail (job_ll sh), sh)
   }"

text \<open>
  What follows the wait in \<open>handle_fg\<close> and in \<open>execute_job\<close>: a job whose process was stopped goes
  to the end of the list. \<open>status\<close> is the local variable passed to \<open>s_waitpid\<close>.
\<close>

definition after_wait :: "host \<Rightarrow> addr option \<Rightarrow> addr \<Rightarrow> int \<Rightarrow> shell \<Rightarrow> (control \<times> shell) option" where
  "after_wait h node a status sh =
     (if P_WIFSTOPPED status then do {
        sh \<leftarrow> upd_job a (\<lambda>j. j\<lparr>job_status := J_STOPPED\<rparr>) sh;
        sh \<leftarrow> remove_foreground_job a sh;
        enqueue_job h node a sh
      }
      else Some (Continues, sh))"

datatype wait_control = Waited control | Waits int

text \<open>The wait itself: \<open>Waits\<close> when the thread is suspended, with the value of \<open>status\<close>.\<close>

definition wait_for ::
  "host \<Rightarrow> addr option \<Rightarrow> addr \<Rightarrow> wait_result \<times> int option \<times> kernel \<Rightarrow> shell \<Rightarrow> (wait_control \<times> shell) option" where
  "wait_for h node a = (\<lambda>(r, w, k) sh. do {
     status \<leftarrow> w;
     let sh = sh\<lparr>sys := (sys sh)\<lparr>kern := k\<rparr>\<rparr>;
     case r of
       Wait_suspend \<Rightarrow> Some (Waits status, sh)
     | Wait_return _ \<Rightarrow> map_option (apfst Waited) (after_wait h node a status sh)
   })"

definition handle_fg ::
  "host \<Rightarrow> addr option \<Rightarrow> int \<Rightarrow> parsed_command \<Rightarrow> shell \<Rightarrow> (wait_control \<times> shell) option" where
  "handle_fg h node junk cmd sh = do {
     (target, sh) \<leftarrow> target_node h (ascii ''No jobs to fg'' @ [10]) cmd sh;
     case target of
       None \<Rightarrow> Some (Waited Continues, sh)
     | Some n \<Rightarrow> do {
         a \<leftarrow> node_job sh n;
         sh \<leftarrow> free_node n (unlink_node n sh);
         sh \<leftarrow> print_job_command h a sh;
         sh \<leftarrow> say h [10] sh;
         j \<leftarrow> get_job a sh;
         sh \<leftarrow> (if job_status j = J_STOPPED
               then map_option snd (on_sys (on_kern (s_kill (job_pid j) P_SIGCONT)) sh) else Some sh);
         sh \<leftarrow> upd_job a (\<lambda>j. j\<lparr>job_status := J_RUNNING_FG\<rparr>) sh;
         r \<leftarrow> s_waitpid (job_pid j) (Some junk) False (kern (sys sh));
         wait_for h node a r sh
       }
   }"

text \<open>The wait of \<open>handle_fg\<close> and of \<open>execute_job\<close> when the thread runs again.\<close>

definition wait_resume ::
  "host \<Rightarrow> addr option \<Rightarrow> addr \<Rightarrow> addr option \<Rightarrow> int \<Rightarrow> shell \<Rightarrow> (wait_control \<times> shell) option" where
  "wait_resume h node a child status sh = do {
     r \<leftarrow> s_waitpid_resume child (Some status) (kern (sys sh));
     wait_for h node a r sh
   }"

definition handle_bg :: "host \<Rightarrow> parsed_command \<Rightarrow> shell \<Rightarrow> shell option" where
  "handle_bg h cmd sh = do {
     (target, sh) \<leftarrow> target_node h (ascii ''No jobs to bg'' @ [10]) cmd sh;
     case target of
       None \<Rightarrow> Some sh
     | Some n \<Rightarrow> do {
         a \<leftarrow> node_job sh n;
         j \<leftarrow> get_job a sh;
         if job_status j = J_RUNNING_FG \<or> job_status j = J_RUNNING_BG
         then say h (ascii ''Job '' @ decimal (s64 (job_id j)) @
                ascii '' is already running in foreground or background'' @ [10]) sh
         else do {
           sh \<leftarrow> upd_job a (\<lambda>j. j\<lparr>job_status := J_RUNNING_BG\<rparr>) sh;
           sh \<leftarrow> map_option snd (on_sys (on_kern (s_kill (job_pid j) P_SIGCONT)) sh);
           sh \<leftarrow> say h (91 # decimal (int (job_id j)) @ [93, 32]) sh;
           sh \<leftarrow> print_job_command h a sh;
           say h [32, ch_amp, 10] sh
         }
       }
   }"

text \<open>\<^term>\<open>None\<close> as the first component: the command is not one of the three.\<close>

definition handle_jobs_commands ::
  "host \<Rightarrow> addr option \<Rightarrow> int \<Rightarrow> parsed_command \<Rightarrow> shell \<Rightarrow> (wait_control option \<times> shell) option" where
  "handle_jobs_commands h node junk cmd sh =
     (if num_commands cmd \<noteq> 1 then Some (None, sh)
      else do {
        argv \<leftarrow> stage_argv cmd 0;
        if argv = [] then None
        else if hd argv = ascii ''jobs''
        then map_option (\<lambda>sh. (Some (Waited Continues), sh)) (handle_jobs h sh)
        else if hd argv = ascii ''fg'' then map_option (apfst Some) (handle_fg h node junk cmd sh)
        else if hd argv = ascii ''bg''
        then map_option (\<lambda>sh. (Some (Waited Continues), sh)) (handle_bg h cmd sh)
        else Some (None, sh)
      })"

end
