(* ===== verification/Stress.thy ===== *)
theory Stress
  imports Commands Jobs
begin

text \<open>
  The stress programs (\<^verbatim>\<open>src/src/shell/stress.c\<close>) and the table of programs \<open>execute_command\<close>
  (\<^verbatim>\<open>src/src/shell/commands.c\<close>).

  A thread that is suspended in \<open>s_waitpid\<close> or \<open>s_sleep\<close> goes on with the definitions
  \<open>spawn_resume_wait\<close>, \<open>spawn_resume_sleep\<close>, \<open>spawn_r_resume_sleep\<close> and \<open>spawn_r_resume_wait\<close>, whose
  arguments are its local variables. The static counter of \<open>spawn_r\<close> is passed and returned.
\<close>

section \<open>Nappers\<close>

definition nap :: "os \<Rightarrow> (thread_result \<times> os) option" where
  "nap s = do {
     (r, s) \<leftarrow> on_kern (s_sleep 1) s;
     case r of Wait_suspend \<Rightarrow> Some (Sleeping, s) | Wait_return _ \<Rightarrow> finish 0 s
   }"

definition nap_resume :: "addr \<Rightarrow> os \<Rightarrow> (thread_result \<times> os) option" where
  "nap_resume cur s = do {
     (r, s) \<leftarrow> on_kern (s_sleep_resume cur) s;
     case r of Wait_suspend \<Rightarrow> Some (Sleeping, s) | Wait_return _ \<Rightarrow> finish 0 s
   }"

text \<open>The loop that starts the children, one outcome of the allocators for each.\<close>

definition child_name :: "nat \<Rightarrow> byte list" where
  "child_name i = ascii ''child_'' @ [48 + of_nat i]"

fun spawn_children :: "host \<Rightarrow> nat \<Rightarrow> create_env list \<Rightarrow> int \<Rightarrow> os \<Rightarrow> (int \<times> os) option" where
  "spawn_children h i [] first s = Some (first, s)"
| "spawn_children h i (m # ms) first s = do {
     (new_id, s) \<leftarrow> spawn_named m (child_name i) s;
     s \<leftarrow> put h 2 (child_name i) s;
     s \<leftarrow> put h 2 (ascii '' was spawned'' @ [10]) s;
     spawn_children h (Suc i) ms (if i = 0 then new_id else first) s
   }"

text \<open>
  The report on a child: \<open>snprintf\<close> keeps three characters of the number, and the first write
  passes the length of a longer string, so that the terminator is written too.
\<close>

definition report_reaped :: "host \<Rightarrow> int \<Rightarrow> os \<Rightarrow> os option" where
  "report_reaped h n s = do {
     (_, s) \<leftarrow> s_write h 2 (ascii ''child_'' @ [0]) 7 s;
     s \<leftarrow> put h 2 (take 3 (decimal n)) s;
     put h 2 (ascii '' was reaped'' @ [10]) s
   }"

text \<open>\<open>s_exit(0)\<close> of the caller, which is reached only if the \<open>s_exit\<close> of the callee returns.\<close>

definition then_exit :: "thread_result \<times> os \<Rightarrow> (thread_result \<times> os) option" where
  "then_exit = (\<lambda>(t, s). if t = Returns then finish 0 s else Some (t, s))"

text \<open>The loop from the result of a wait on; \<open>junk\<close> is the uninitialised \<open>wstatus\<close>.\<close>

partial_function (option) reap_loop ::
  "host \<Rightarrow> bool \<Rightarrow> int \<Rightarrow> int \<Rightarrow> wait_result \<times> int option \<times> kernel \<Rightarrow> os \<Rightarrow> (thread_result \<times> os) option" where
  "reap_loop h nohang junk first res s =
     (let s = s\<lparr>kern := snd (snd res)\<rparr> in
      case fst res of
        Wait_suspend \<Rightarrow> Some (Waiting, s)
      | Wait_return cpid \<Rightarrow>
          if cpid < 0 then finish 0 s
          else if nohang \<and> cpid = 0 then do {
            (r, s) \<leftarrow> on_kern (s_sleep 9) s;
            case r of
              Wait_suspend \<Rightarrow> Some (Sleeping, s)
            | Wait_return _ \<Rightarrow> do {
                res \<leftarrow> s_waitpid (-1) (Some junk) nohang (kern s);
                reap_loop h nohang junk first res s
              }
          }
          else do {
            s \<leftarrow> report_reaped h (cpid - first) s;
            res \<leftarrow> s_waitpid (-1) (Some junk) nohang (kern s);
            reap_loop h nohang junk first res s
          })"

declare reap_loop.simps [code]

definition spawn :: "host \<Rightarrow> bool \<Rightarrow> int \<Rightarrow> create_env list \<Rightarrow> os \<Rightarrow> (thread_result \<times> os) option" where
  "spawn h nohang junk ms s = do {
     (first, s) \<leftarrow> spawn_children h 0 ms 0 s;
     res \<leftarrow> s_waitpid (-1) (Some junk) nohang (kern s);
     reap_loop h nohang junk first res s
   }"

definition spawn_resume_wait ::
  "host \<Rightarrow> bool \<Rightarrow> int \<Rightarrow> int \<Rightarrow> addr option \<Rightarrow> os \<Rightarrow> (thread_result \<times> os) option" where
  "spawn_resume_wait h nohang junk first child s = do {
     res \<leftarrow> s_waitpid_resume child (Some junk) (kern s);
     reap_loop h nohang junk first res s
   }"

definition spawn_resume_sleep :: "host \<Rightarrow> bool \<Rightarrow> int \<Rightarrow> int \<Rightarrow> addr \<Rightarrow> os \<Rightarrow> (thread_result \<times> os) option" where
  "spawn_resume_sleep h nohang junk first cur s = do {
     (r, s) \<leftarrow> on_kern (s_sleep_resume cur) s;
     case r of
       Wait_suspend \<Rightarrow> Some (Sleeping, s)
     | Wait_return _ \<Rightarrow> do {
         res \<leftarrow> s_waitpid (-1) (Some junk) nohang (kern s);
         reap_loop h nohang junk first res s
       }
   }"

definition hang :: "host \<Rightarrow> int \<Rightarrow> create_env list \<Rightarrow> os \<Rightarrow> (thread_result \<times> os) option" where
  "hang h junk ms s = (if length ms = 10 then do { r \<leftarrow> spawn h False junk ms s; then_exit r } else None)"

definition nohang :: "host \<Rightarrow> int \<Rightarrow> create_env list \<Rightarrow> os \<Rightarrow> (thread_result \<times> os) option" where
  "nohang h junk ms s = (if length ms = 10 then do { r \<leftarrow> spawn h True junk ms s; then_exit r } else None)"

section \<open>Generations\<close>

definition gen_name :: "nat \<Rightarrow> byte list" where
  "gen_name i = ascii ''Gen_'' @ [65 + of_nat i]"

text \<open>The wait at the end: its result is compared with the identifier waited for.\<close>

definition spawn_r_waited ::
  "host \<Rightarrow> int \<Rightarrow> byte list \<Rightarrow> wait_result \<times> int option \<times> kernel \<Rightarrow> os \<Rightarrow> (thread_result \<times> os) option" where
  "spawn_r_waited h p gen res s =
     (let s = s\<lparr>kern := snd (snd res)\<rparr> in
      case fst res of
        Wait_suspend \<Rightarrow> Some (Waiting, s)
      | Wait_return r \<Rightarrow> do {
          s \<leftarrow> (if p = r then do { s \<leftarrow> put h 2 gen s; put h 2 (ascii '' was reaped'' @ [10]) s } else Some s);
          finish 0 s
        })"

definition spawn_r_wait :: "host \<Rightarrow> int \<Rightarrow> int \<Rightarrow> byte list \<Rightarrow> os \<Rightarrow> (thread_result \<times> os) option" where
  "spawn_r_wait h junk p gen s =
     (if p > 0 then do {
        res \<leftarrow> s_waitpid p (Some junk) False (kern s);
        spawn_r_waited h p gen res s
      }
      else finish 0 s)"

definition spawn_r ::
  "host \<Rightarrow> int \<Rightarrow> create_env \<Rightarrow> nat \<Rightarrow> os \<Rightarrow> (thread_result \<times> int \<times> nat \<times> os) option" where
  "spawn_r h junk m i s =
     (if i < 26 then do {
        (p, s) \<leftarrow> spawn_named m (gen_name i) s;
        s \<leftarrow> put h 2 (gen_name i) s;
        s \<leftarrow> put h 2 (ascii '' was spawned'' @ [10]) s;
        (r, s) \<leftarrow> on_kern (s_sleep 1) s;
        case r of
          Wait_suspend \<Rightarrow> Some (Sleeping, p, Suc i, s)
        | Wait_return _ \<Rightarrow> do { (t, s) \<leftarrow> spawn_r_wait h junk p (gen_name i) s; Some (t, p, Suc i, s) }
      }
      else do { (t, s) \<leftarrow> spawn_r_wait h junk 0 (gen_name 0) s; Some (t, 0, i, s) })"

definition spawn_r_resume_sleep ::
  "host \<Rightarrow> int \<Rightarrow> int \<Rightarrow> byte list \<Rightarrow> addr \<Rightarrow> os \<Rightarrow> (thread_result \<times> os) option" where
  "spawn_r_resume_sleep h junk p gen cur s = do {
     (r, s) \<leftarrow> on_kern (s_sleep_resume cur) s;
     case r of Wait_suspend \<Rightarrow> Some (Sleeping, s) | Wait_return _ \<Rightarrow> spawn_r_wait h junk p gen s
   }"

definition spawn_r_resume_wait ::
  "host \<Rightarrow> int \<Rightarrow> int \<Rightarrow> byte list \<Rightarrow> addr option \<Rightarrow> os \<Rightarrow> (thread_result \<times> os) option" where
  "spawn_r_resume_wait h junk p gen child s = do {
     res \<leftarrow> s_waitpid_resume child (Some junk) (kern s);
     spawn_r_waited h p gen res s
   }"

definition recur ::
  "host \<Rightarrow> int \<Rightarrow> create_env \<Rightarrow> nat \<Rightarrow> os \<Rightarrow> (thread_result \<times> int \<times> nat \<times> os) option" where
  "recur h junk m i s = do {
     (t, p, i, s) \<leftarrow> spawn_r h junk m i s;
     (t, s) \<leftarrow> then_exit (t, s);
     Some (t, p, i, s)
   }"

section \<open>Crash\<close>

text \<open>The pattern is eight times the host's \<open>rand()\<close>; the allocation is not checked.\<close>

definition gen_pattern_str :: "nat list \<Rightarrow> bool \<Rightarrow> byte list option" where
  "gen_pattern_str rands malloc_ok =
     (if length rands = 8 \<and> malloc_ok
      then Some (concat (replicate 685 (map (\<lambda>r. of_nat (r mod 95 + 32)) rands)))
      else None)"

definition crash_main :: "host \<Rightarrow> nat list \<Rightarrow> bool \<Rightarrow> os \<Rightarrow> os option" where
  "crash_main h rands malloc_ok s = do {
     (_, s) \<leftarrow> s_unlink h (ascii ''CRASHING.txt'') s;
     (fd, s) \<leftarrow> s_open h (ascii ''CRASHING.txt'') F_WRITE s;
     str \<leftarrow> gen_pattern_str rands malloc_ok;
     s \<leftarrow> put h 2 (ascii ''writing a string that consists of the following pattern 685 times to CRASHING.txt: '') s;
     (_, s) \<leftarrow> s_write h 2 str 8 s;
     s \<leftarrow> put h 2 [10] s;
     (_, s) \<leftarrow> s_write h fd str 5480 s;
     s \<leftarrow> put h 2 (ascii ''crashing pennos. Our write should be safe in the file system.'') s;
     put h 2 (ascii ''We should see this file and this message in a hexdump of the fs'' @ [10]) s
   }"

text \<open>The signal ends the host process, and with it PennOS.\<close>

definition crash :: "host \<Rightarrow> nat list \<Rightarrow> bool \<Rightarrow> os \<Rightarrow> (thread_result \<times> os) option" where
  "crash h rands malloc_ok s = do { s \<leftarrow> crash_main h rands malloc_ok s; Some (Host_killed, s) }"

section \<open>The table of programs\<close>

definition jobs_command :: "host \<Rightarrow> shell \<Rightarrow> (thread_result \<times> shell) option" where
  "jobs_command h sh = do { sh \<leftarrow> print_all_jobs h sh; on_sys (finish 0) sh }"

text \<open>What the program gets from the host: its terminal input, the allocators, the clock.\<close>

record cmd_env =
  cm_host :: host
  cm_input :: "byte list option list"
  cm_time :: "nat \<Rightarrow> byte list"
  cm_create :: create_env
  cm_creates :: "create_env list"
  cm_junk :: int
  cm_rands :: "nat list"
  cm_malloc :: bool
  cm_gen :: nat

definition execute_command ::
  "cmd_env \<Rightarrow> byte list list option \<Rightarrow> shell \<Rightarrow> (thread_result \<times> shell) option" where
  "execute_command env arg sh =
     (case arg of None \<Rightarrow> Some (Returns, sh) | Some [] \<Rightarrow> Some (Returns, sh)
      | Some ctx \<Rightarrow>
        (let h = cm_host env; c = hd ctx in
         if c = ascii ''ps'' then on_sys (ps h) sh
         else if c = ascii ''zombify'' then on_sys (zombify (cm_create env)) sh
         else if c = ascii ''orphanify'' then on_sys (orphanify (cm_create env)) sh
         else if c = ascii ''ls'' then on_sys (ls h (cm_time env) ctx) sh
         else if c = ascii ''echo'' then on_sys (echo h ctx) sh
         else if c = ascii ''touch'' then on_sys (touch h ctx) sh
         else if c = ascii ''cp'' then on_sys (cp h ctx) sh
         else if c = ascii ''rm'' then on_sys (rm h ctx) sh
         else if c = ascii ''chmod'' then on_sys (chmod h ctx) sh
         else if c = ascii ''cat'' then on_sys (cat h (cm_input env) ctx) sh
         else if c = ascii ''mv'' then on_sys (mv h ctx) sh
         else if c = ascii ''busy'' then do {
           a \<leftarrow> arg_at ctx 1;
           on_sys (busy h (case a of None \<Rightarrow> ascii ''1'' | Some p \<Rightarrow> p)) sh
         }
         else if c = ascii ''sleep'' then do { a \<leftarrow> arg_at ctx 1; on_sys (sleep_command h a) sh }
         else if c = ascii ''nice_pid'' then do {
           a \<leftarrow> arg_at ctx 1;
           b \<leftarrow> arg_at ctx 2;
           on_sys (nice_pid_command h a b) sh
         }
         else if c = ascii ''nice'' then do { a \<leftarrow> arg_at ctx 1; on_sys (nice_command h ctx a) sh }
         else if c = ascii ''man'' then on_sys (man h) sh
         else if c = ascii ''kill'' then do { a \<leftarrow> arg_at ctx 1; on_sys (kill_process_shell h ctx a) sh }
         else if c = ascii ''jobs'' then jobs_command h sh
         else if c = ascii ''hang'' then on_sys (hang h (cm_junk env) (cm_creates env)) sh
         else if c = ascii ''nohang'' then on_sys (nohang h (cm_junk env) (cm_creates env)) sh
         else if c = ascii ''recur''
         then on_sys (\<lambda>s. map_option (\<lambda>(t, _, _, s). (t, s)) (recur h (cm_junk env) (cm_create env) (cm_gen env) s)) sh
         else if c = ascii ''crash'' then on_sys (crash h (cm_rands env) (cm_malloc env)) sh
         else if c = ascii ''logout'' then on_sys logout sh
         else on_sys (finish 0) sh))"

end
