(* ===== verification/Shell_Loop.thy ===== *)
theory Shell_Loop
  imports Stress
begin

text \<open>
  The shell: reading a command (\<^verbatim>\<open>src/src/shell/shell_porcelain.c\<close>), its check
  (\<^verbatim>\<open>valid_input.c\<close>), running a job (\<^verbatim>\<open>command_execution.c\<close>), the main loop, \<open>init\<close> and the start of
  the system (\<^verbatim>\<open>penn-shell.c\<close>), and the handler of the host's signals (\<^verbatim>\<open>signals.c\<close>).

  \<open>shell_round\<close> is one round of the loop of \<open>shell_loop\<close> up to its end or to the point where the
  shell is suspended because it waits for a foreground job; \<open>execute_job_resume\<close>,
  \<open>wait_resume\<close> and \<open>round_end\<close> are what follows when it runs again. The results of the
  allocator and the value of uninitialised variables (\<open>junk\<close>) are arguments.
\<close>

section \<open>Reading a command\<close>

text \<open>Whether the check prints its message.\<close>

definition first_arg :: "parsed_command \<Rightarrow> nat \<Rightarrow> byte list option" where
  "first_arg cmd i = do { vec \<leftarrow> stage_argv cmd i; if vec = [] then None else Some (hd vec) }"

definition validate_command :: "parsed_command \<Rightarrow> bool option" where
  "validate_command cmd = do {
     cmds \<leftarrow> those (map (first_arg cmd) [0..<num_commands cmd]);
     let is_pipe = list_ex (\<lambda>c. c = [ch_bar]) cmds;
     let is_redirect = list_ex (\<lambda>c. c = [ch_gt] \<or> c = [ch_lt]) cmds;
     Some (is_pipe \<and> is_redirect)
   }"

definition put_sh :: "host \<Rightarrow> byte list \<Rightarrow> shell \<Rightarrow> shell option" where
  "put_sh h msg sh = map_option snd (on_sys (\<lambda>s. map_option (\<lambda>s. ((), s)) (put h 2 msg s)) sh)"

definition display_prompt :: "host \<Rightarrow> shell \<Rightarrow> shell option" where
  "display_prompt h sh = put_sh h (ascii ''$ '') sh"

abbreviation MAX_LINE_LENGTH :: int where "MAX_LINE_LENGTH \<equiv> 4096"

text \<open>The code and the command; \<^term>\<open>None\<close> when the failed read ends the program.\<close>

definition read_command ::
  "host \<Rightarrow> bool \<Rightarrow> bool \<Rightarrow> shell \<Rightarrow> ((int \<times> parsed_command option) option \<times> shell) option" where
  "read_command h calloc_ok realloc_ok sh = do {
     ((num_bytes, buf), sh) \<leftarrow> on_sys (s_read h 0 MAX_LINE_LENGTH) sh;
     if num_bytes < 0 then do {
       (_, sh) \<leftarrow> on_sys (\<lambda>s. map_option (\<lambda>s. ((), s)) (u_perror h (ascii ''Failed to read command from stdin'') s)) sh;
       Some (None, sh)
     }
     else if num_bytes = 0 then do { sh \<leftarrow> put_sh h [10] sh; Some (Some (-1, None), sh) }
     else do {
       sh \<leftarrow> (if buf ! nat (num_bytes - 1) \<noteq> 10 then put_sh h [10] sh else Some sh);
       (err_code, cmd) \<leftarrow> parse_command calloc_ok realloc_ok (takeWhile (\<lambda>b. b \<noteq> 0) (take (nat num_bytes) buf));
       if err_code > 0 then do {
         sh \<leftarrow> put_sh h (ascii ''Unparseable command'' @ [10]) sh;
         Some (Some (1, None), sh)
       }
       else if err_code = -1 then do {
         sh \<leftarrow> put_sh h (ascii ''Failed to parse command due to system call error'' @ [10]) sh;
         Some (Some (1, None), sh)
       }
       else Some (Some (0, cmd), sh)
     }
   }"

section \<open>Running a job\<close>

text \<open>The end of a job, or its wait with the values of \<open>status\<close>, \<open>stdin_fd\<close> and \<open>stdout_fd\<close>.\<close>

datatype exec = Job_done control | Job_waits int int int

definition open_redirect ::
  "host \<Rightarrow> parsed_command \<Rightarrow> nat option \<Rightarrow> int \<Rightarrow> int \<Rightarrow> shell \<Rightarrow> (int \<times> shell) option" where
  "open_redirect h cmd off mode std_fd sh =
     (case off of
        None \<Rightarrow> Some (std_fd, sh)
      | Some i \<Rightarrow> do {
          fname \<leftarrow> c_string (drop i (original_string cmd));
          on_sys (s_open h fname mode) sh
        })"

definition close_redirect :: "host \<Rightarrow> nat option \<Rightarrow> int \<Rightarrow> shell \<Rightarrow> shell option" where
  "close_redirect h off fd sh =
     (case off of None \<Rightarrow> Some sh | Some _ \<Rightarrow> map_option snd (on_sys (s_close h fd) sh))"

definition close_redirects ::
  "host \<Rightarrow> parsed_command \<Rightarrow> int \<Rightarrow> int \<Rightarrow> shell \<Rightarrow> (exec \<times> shell) option" where
  "close_redirects h cmd stdin_fd stdout_fd sh = do {
     sh \<leftarrow> close_redirect h (stdin_file cmd) stdin_fd sh;
     sh \<leftarrow> close_redirect h (stdout_file cmd) stdout_fd sh;
     Some (Job_done Continues, sh)
   }"

definition job_waited ::
  "host \<Rightarrow> parsed_command \<Rightarrow> int \<Rightarrow> int \<Rightarrow> wait_control \<times> shell \<Rightarrow> (exec \<times> shell) option" where
  "job_waited h cmd stdin_fd stdout_fd = (\<lambda>(w, sh).
     case w of
       Waits status \<Rightarrow> Some (Job_waits status stdin_fd stdout_fd, sh)
     | Waited Exits \<Rightarrow> Some (Job_done Exits, sh)
     | Waited Continues \<Rightarrow> close_redirects h cmd stdin_fd stdout_fd sh)"

text \<open>From the call of \<open>s_spawn\<close> on.\<close>

definition spawn_job ::
  "host \<Rightarrow> create_env \<Rightarrow> addr option \<Rightarrow> int \<Rightarrow> addr \<Rightarrow> parsed_command \<Rightarrow> byte list list \<Rightarrow> int \<Rightarrow> int \<Rightarrow>
   shell \<Rightarrow> (exec \<times> shell) option" where
  "spawn_job h m node junk a cmd vec stdin_fd stdout_fd sh = do {
     (p, sh) \<leftarrow> on_sys (on_kern (s_spawn m (Some vec) stdin_fd stdout_fd PRIORITY_MEDIUM)) sh;
     sh \<leftarrow> upd_job a (\<lambda>j. j\<lparr>job_pid := p\<rparr>) sh;
     sh \<leftarrow> (if p < 0 then put_sh h (ascii ''Failed to spawn command'' @ [10]) sh else Some sh);
     j \<leftarrow> get_job a sh;
     case job_status j of
       J_RUNNING_FG \<Rightarrow> do {
         r \<leftarrow> s_waitpid p (Some junk) False (kern (sys sh));
         w \<leftarrow> wait_for h node a r sh;
         job_waited h cmd stdin_fd stdout_fd w
       }
     | J_RUNNING_BG \<Rightarrow> Some (Job_done Continues, sh)
     | J_STOPPED \<Rightarrow> close_redirects h cmd stdin_fd stdout_fd sh
   }"

definition execute_job ::
  "host \<Rightarrow> create_env \<Rightarrow> addr option \<Rightarrow> int \<Rightarrow> addr \<Rightarrow> shell \<Rightarrow> (exec \<times> shell) option" where
  "execute_job h m node junk a sh = do {
     j \<leftarrow> get_job a sh;
     let cmd = job_cmd j;
     _ \<leftarrow> validate_command cmd;
     vec \<leftarrow> stage_argv cmd 0;
     (stdin_fd, sh) \<leftarrow> open_redirect h cmd (stdin_file cmd) F_READ 0 sh;
     if stdin_fd < 0 then do {
       sh \<leftarrow> put_sh h (ascii ''Failed to open stdin file'' @ [10]) sh;
       Some (Job_done Continues, sh)
     }
     else do {
       (stdout_fd, sh) \<leftarrow> open_redirect h cmd (stdout_file cmd) (if is_file_append cmd then F_APPEND else F_WRITE) 1 sh;
       if stdout_fd < 0 then do {
         sh \<leftarrow> put_sh h (ascii ''Failed to open stdout file'' @ [10]) sh;
         Some (Job_done Continues, sh)
       }
       else spawn_job h m node junk a cmd vec stdin_fd stdout_fd sh
     }
   }"

definition execute_job_resume ::
  "host \<Rightarrow> addr option \<Rightarrow> addr \<Rightarrow> addr option \<Rightarrow> exec \<Rightarrow> shell \<Rightarrow> (exec \<times> shell) option" where
  "execute_job_resume h node a child e sh =
     (case e of
        Job_done c \<Rightarrow> Some (Job_done c, sh)
      | Job_waits status stdin_fd stdout_fd \<Rightarrow> do {
          j \<leftarrow> get_job a sh;
          w \<leftarrow> wait_resume h node a child status sh;
          job_waited h (job_cmd j) stdin_fd stdout_fd w
        })"

definition continue_job ::
  "host \<Rightarrow> create_env \<Rightarrow> addr option \<Rightarrow> int \<Rightarrow> addr \<Rightarrow> shell \<Rightarrow> (exec \<times> shell) option" where
  "continue_job h m node junk a sh = do {
     sh \<leftarrow> upd_job a (\<lambda>j. j\<lparr>job_status := J_RUNNING_FG\<rparr>) sh;
     execute_job h m node junk a sh
   }"

section \<open>The main loop\<close>

text \<open>What the loop does for a child that it has waited for.\<close>

definition reap_job :: "host \<Rightarrow> addr option \<Rightarrow> int \<Rightarrow> int \<Rightarrow> shell \<Rightarrow> (control \<times> shell) option" where
  "reap_job h node status p sh = do {
     found \<leftarrow> find_job_by_pid p sh;
     case found of
       None \<Rightarrow> Some (Continues, sh)
     | Some a \<Rightarrow>
         if P_WIFSTOPPED status then do {
           sh \<leftarrow> upd_job a (\<lambda>j. j\<lparr>job_status := J_STOPPED\<rparr>) sh;
           sh \<leftarrow> remove_job_by_pid p sh;
           enqueue_job h node a sh
         }
         else do {
           j \<leftarrow> get_job a sh;
           sh \<leftarrow> say h (91 # decimal (int (job_id j)) @ ascii ''] Done '') sh;
           sh \<leftarrow> print_job_command h a sh;
           sh \<leftarrow> say h [10] sh;
           sh \<leftarrow> remove_job_by_pid p sh;
           Some (Continues, sh)
         }
   }"

text \<open>A wait that does not hang never suspends the shell, so that case has no result.\<close>

partial_function (option) shell_reap ::
  "host \<Rightarrow> addr option \<Rightarrow> int \<Rightarrow> shell \<Rightarrow> (control \<times> shell) option" where
  "shell_reap h node status sh = do {
     (r, w, k) \<leftarrow> s_waitpid (-1) (Some status) True (kern (sys sh));
     status \<leftarrow> w;
     let sh = sh\<lparr>sys := (sys sh)\<lparr>kern := k\<rparr>\<rparr>;
     case r of
       Wait_suspend \<Rightarrow> None
     | Wait_return p \<Rightarrow>
         if p > 0 then do {
           (c, sh) \<leftarrow> reap_job h node status p sh;
           if c = Exits then Some (Exits, sh) else shell_reap h node status sh
         }
         else Some (Continues, sh)
   }"

declare shell_reap.simps [code]

record shell_env =
  se_host :: host
  se_calloc :: bool
  se_realloc :: bool
  se_job :: "addr option"
  se_node :: "addr option"
  se_node2 :: "addr option"
  se_create :: create_env
  se_junk :: int

text \<open>
  The end of a round: the next round, the end of the program, or a wait inside \<open>execute_job\<close> (of
  the job at the address) or inside \<open>handle_fg\<close>.
\<close>

datatype round = Next | Program_exits | Waits_job addr exec | Waits_fg int

definition round_of :: "control \<Rightarrow> round" where
  "round_of c = (case c of Continues \<Rightarrow> Next | Exits \<Rightarrow> Program_exits)"

text \<open>After a foreground job: only a job that was not stopped is removed and freed.\<close>

definition round_end :: "addr \<Rightarrow> exec \<times> shell \<Rightarrow> (round \<times> shell) option" where
  "round_end a = (\<lambda>(e, sh).
     case e of
       Job_waits x y z \<Rightarrow> Some (Waits_job a (Job_waits x y z), sh)
     | Job_done Exits \<Rightarrow> Some (Program_exits, sh)
     | Job_done Continues \<Rightarrow> do {
         j \<leftarrow> get_job a sh;
         if job_status j \<noteq> J_STOPPED then do {
           sh \<leftarrow> remove_foreground_job a sh;
           sh \<leftarrow> destroy_job a sh;
           Some (Next, sh)
         }
         else Some (Next, sh)
       })"

definition background_round :: "shell_env \<Rightarrow> addr \<Rightarrow> shell \<Rightarrow> (round \<times> shell) option" where
  "background_round env a sh = do {
     (e, sh) \<leftarrow> execute_job (se_host env) (se_create env) (se_node2 env) (se_junk env) a sh;
     case e of
       Job_waits _ _ _ \<Rightarrow> None
     | Job_done Exits \<Rightarrow> Some (Program_exits, sh)
     | Job_done Continues \<Rightarrow> do {
         j \<leftarrow> get_job a sh;
         sh \<leftarrow> (if job_pid j > 0
               then say (se_host env) (91 # decimal (int (job_id j)) @ [93, 32] @ decimal (job_pid j) @ [10]) sh
               else Some sh);
         (c, sh) \<leftarrow> enqueue_job (se_host env) (se_node env) a sh;
         Some (round_of c, sh)
       }
   }"

definition foreground_round :: "shell_env \<Rightarrow> addr \<Rightarrow> shell \<Rightarrow> (round \<times> shell) option" where
  "foreground_round env a sh = do {
     sh \<leftarrow> add_foreground_job (se_host env) (se_node env) a sh;
     r \<leftarrow> execute_job (se_host env) (se_create env) (se_node2 env) (se_junk env) a sh;
     round_end a r
   }"

text \<open>A new job; \<open>job_id\<close> is the global counter of the shell.\<close>

definition new_job :: "shell_env \<Rightarrow> parsed_command \<Rightarrow> nat \<Rightarrow> shell \<Rightarrow> (round \<times> nat \<times> shell) option" where
  "new_job env cmd counter sh =
     (case se_job env of
        None \<Rightarrow> do {
          sh \<leftarrow> say (se_host env) (ascii ''Failed to allocate job'' @ [10]) sh;
          Some (Next, counter, sh)
        }
      | Some a \<Rightarrow> do {
          let counter = (counter + 1) mod 2 ^ 64;
          let sh = sh\<lparr>job_heap := (job_heap sh)(a \<mapsto>
            \<lparr>job_id = counter, job_pid = -1,
             job_status = (if is_background cmd then J_RUNNING_BG else J_RUNNING_FG), job_cmd = cmd\<rparr>)\<rparr>;
          (r, sh) \<leftarrow> (if is_background cmd then background_round env a sh else foreground_round env a sh);
          Some (r, counter, sh)
        })"

definition run_line :: "shell_env \<Rightarrow> parsed_command \<Rightarrow> nat \<Rightarrow> shell \<Rightarrow> (round \<times> nat \<times> shell) option" where
  "run_line env cmd counter sh =
     (if num_commands cmd = 0 then Some (Next, counter, sh)
      else do {
        vec \<leftarrow> stage_argv cmd 0;
        if vec = [] then Some (Next, counter, sh)
        else do {
          (r, sh) \<leftarrow> handle_jobs_commands (se_host env) (se_node env) (se_junk env) cmd sh;
          case r of
            Some (Waited c) \<Rightarrow> Some (round_of c, counter, sh)
          | Some (Waits status) \<Rightarrow> Some (Waits_fg status, counter, sh)
          | None \<Rightarrow> new_job env cmd counter sh
        }
      })"

definition shell_round :: "shell_env \<Rightarrow> nat \<Rightarrow> shell \<Rightarrow> (round \<times> nat \<times> shell) option" where
  "shell_round env counter sh = do {
     (c, sh) \<leftarrow> shell_reap (se_host env) (se_node env) (se_junk env) sh;
     if c = Exits then Some (Program_exits, counter, sh)
     else do {
       sh \<leftarrow> display_prompt (se_host env) sh;
       (res, sh) \<leftarrow> read_command (se_host env) (se_calloc env) (se_realloc env) sh;
       case res of
         None \<Rightarrow> Some (Program_exits, counter, sh)
       | Some (ret, cmd) \<Rightarrow>
           if ret < 0 then Some (Next, counter, sh\<lparr>sys := (sys sh)\<lparr>kern := s_logout (kern (sys sh))\<rparr>\<rparr>)
           else (case cmd of
                   None \<Rightarrow> Some (Next, counter, sh)
                 | Some cmd \<Rightarrow> run_line env cmd counter sh)
     }
   }"

definition shell_start :: "kernel \<Rightarrow> kernel option" where
  "shell_start k = do {
     (_, k) \<leftarrow> s_ignore_sigint True k;
     (_, k) \<leftarrow> s_ignore_sigtstp True k;
     Some k
   }"

section \<open>init and the start of the system\<close>

definition init_process_start :: "create_env \<Rightarrow> kernel \<Rightarrow> kernel option" where
  "init_process_start m k = do {
     (p, k) \<leftarrow> s_spawn m (Some [ascii ''shell'']) 0 1 PRIORITY_HIGH k;
     (_, k) \<leftarrow> s_tcsetpid p k;
     Some k
   }"

text \<open>The inner loop of \<open>init\<close>, which it repeats forever.\<close>

partial_function (option) init_reap :: "int \<Rightarrow> kernel \<Rightarrow> kernel option" where
  "init_reap wstatus k = do {
     (r, w, k) \<leftarrow> s_waitpid (-1) (Some wstatus) True k;
     wstatus \<leftarrow> w;
     case r of
       Wait_suspend \<Rightarrow> None
     | Wait_return result \<Rightarrow> if result > 0 then init_reap wstatus k else Some k
   }"

declare init_reap.simps [code]

text \<open>
  \<open>main\<close> up to the call of the scheduler: the status of an early exit, or the state the scheduler
  starts with. The number of arguments, the image, the allocation of the scheduler's state and of
  the process are given.
\<close>

definition pennos_main ::
  "nat \<Rightarrow> mount_host \<Rightarrow> (addr option \<times> addr option \<times> nat) option \<Rightarrow> create_env \<Rightarrow> os \<Rightarrow> (int + os) option" where
  "pennos_main argc mh sched m s =
     (if argc < 2 \<or> argc > 3 then Some (Inl 1)
      else do {
        (mount_status, s) \<leftarrow> on_fsys (mount mh) s;
        if mount_status \<noteq> 0 then Some (Inl mount_status)
        else let (r, k) = init_scheduler sched (kern s) in
          if r = -1 then Some (Inl 1)
          else do {
            (p, k) \<leftarrow> s_spawn m (Some [ascii ''init'']) 0 1 PRIORITY_HIGH k;
            k \<leftarrow> k_tcsetpid p k;
            Some (Inr (s\<lparr>kern := k\<rparr>))
          }
      })"

abbreviation SIGINT :: int where "SIGINT \<equiv> 2"
abbreviation SIGTSTP :: int where "SIGTSTP \<equiv> 20"

definition pennos_signal_handler :: "int \<Rightarrow> kernel \<Rightarrow> (call_result \<times> kernel) option" where
  "pennos_signal_handler sig k =
     (if sig = SIGTSTP then s_kill (terminal_controlling_pid k) P_SIGTSTP k
      else if sig = SIGINT then s_kill (terminal_controlling_pid k) P_SIGINT k
      else Some (Returned 0, k))"

end
