(* ===== verification/Job_Props.thy ===== *)
theory Job_Props
  imports Jobs Kernel_Example
begin

text \<open>
  The list of jobs: the operations on its nodes refine operations on a list of jobs. The shell
  relies on this interface only, stated as the locale \<open>job_store\<close>.
\<close>

section \<open>Abstraction\<close>

definition jobs_inv :: "shell \<Rightarrow> addr list \<Rightarrow> bool" where
  "jobs_inv sh ns \<longleftrightarrow> dll (job_ll sh, job_links sh) ns \<and>
     (\<forall>n\<in>set ns. \<exists>a j. node_job sh n = Some a \<and> job_heap sh a = Some j) \<and> inj_on (node_job sh) (set ns)"

definition job_at :: "shell \<Rightarrow> addr \<Rightarrow> addr" where
  "job_at sh n = the (node_job sh n)"

definition jobs_of :: "shell \<Rightarrow> addr list \<Rightarrow> (addr \<times> job) list" where
  "jobs_of sh ns = map (\<lambda>n. (job_at sh n, the (job_heap sh (job_at sh n)))) ns"

fun drop_first :: "('a \<Rightarrow> bool) \<Rightarrow> 'a list \<Rightarrow> 'a list" where
  "drop_first P [] = []"
| "drop_first P (x # xs) = (if P x then xs else x # drop_first P xs)"

lemma jobs_of_simps [simp]:
  "jobs_of sh [] = []" "jobs_of sh (n # ns) = (job_at sh n, the (job_heap sh (job_at sh n))) # jobs_of sh ns"
  "jobs_of sh (ns @ ms) = jobs_of sh ns @ jobs_of sh ms"
  by (simp_all add: jobs_of_def)

lemma jobs_inv_node:
  assumes "jobs_inv sh ns" "n \<in> set ns"
  obtains a j where "node_job sh n = Some a" "job_heap sh a = Some j" "job_at sh n = a"
  using assms by (auto simp: jobs_inv_def job_at_def)

section \<open>Searching\<close>

lemma find_node_simps:
  "find_node step P None sh = Some None"
  by (subst find_node.simps) simp

lemma find_node_forward:
  assumes "dseg (job_links sh) p ns None" "\<forall>n\<in>set ns. \<exists>a j. node_job sh n = Some a \<and> job_heap sh a = Some j"
  shows "find_node l_next P (hd_opt ns None) sh =
    Some (find (\<lambda>n. P (job_at sh n) (the (job_heap sh (job_at sh n)))) ns)"
  using assms
proof (induction ns arbitrary: p)
  case (Cons n ns)
  then obtain a j where "node_job sh n = Some a" "job_heap sh a = Some j" by auto
  then show ?case
    using Cons by (subst find_node.simps) (auto simp: get_job_def job_at_def)
qed (simp add: find_node_simps)

lemma find_node_backward:
  assumes "dseg (job_links sh) None ns p" "\<forall>n\<in>set ns. \<exists>a j. node_job sh n = Some a \<and> job_heap sh a = Some j"
  shows "find_node l_prev P (last_opt ns None) sh =
    Some (find (\<lambda>n. P (job_at sh n) (the (job_heap sh (job_at sh n)))) (rev ns))"
  using assms
proof (induction ns arbitrary: p rule: rev_induct)
  case (snoc n ns)
  then obtain a j where "node_job sh n = Some a" "job_heap sh a = Some j" by auto
  then show ?case
    using snoc by (subst find_node.simps) (auto simp: get_job_def job_at_def)
qed (simp add: find_node_simps)

lemma jobs_inv_dll:
  assumes "jobs_inv sh ns"
  shows "ll_head (job_ll sh) = hd_opt ns None" "ll_tail (job_ll sh) = last_opt ns None"
    "dseg (job_links sh) None ns None" "distinct ns"
  using assms by (auto simp: jobs_inv_def dll_def)

lemma find_first:
  assumes "jobs_inv sh ns"
  shows "find_node l_next P (ll_head (job_ll sh)) sh =
    Some (find (\<lambda>n. P (job_at sh n) (the (job_heap sh (job_at sh n)))) ns)"
  using find_node_forward [OF jobs_inv_dll(3) [OF assms]] jobs_inv_dll(1) [OF assms] assms
  by (simp add: jobs_inv_def)

lemma find_last:
  assumes "jobs_inv sh ns"
  shows "find_node l_prev P (ll_tail (job_ll sh)) sh =
    Some (find (\<lambda>n. P (job_at sh n) (the (job_heap sh (job_at sh n)))) (rev ns))"
  using find_node_backward [OF jobs_inv_dll(3) [OF assms]] jobs_inv_dll(2) [OF assms] assms
  by (simp add: jobs_inv_def)

lemma find_jobs_of:
  "find P (jobs_of sh ns) = map_option (\<lambda>n. (job_at sh n, the (job_heap sh (job_at sh n))))
     (find (\<lambda>n. P (job_at sh n, the (job_heap sh (job_at sh n)))) ns)"
  by (induction ns) auto

lemma find_job_ok:
  assumes "jobs_inv sh ns"
  shows "find_job P sh = Some (map_option fst (find (\<lambda>(a, j). P j) (jobs_of sh ns)))"
proof -
  let ?f = "find (\<lambda>n. P (the (job_heap sh (job_at sh n)))) ns"
  have "?f = Some n \<Longrightarrow> node_job sh n = Some (job_at sh n)" for n
    using assms find_SomeD [of _ ns n] by (auto elim: jobs_inv_node)
  then show ?thesis
    using find_first [OF assms, of "\<lambda>_. P"] find_jobs_of [of "\<lambda>(a, j). P j" sh ns]
    by (cases ?f) (auto simp: find_job_def)
qed

section \<open>Adding and removing\<close>

text \<open>Two states whose list, heap and system state agree.\<close>

definition holds_jobs :: "shell \<Rightarrow> (addr \<times> job) list \<Rightarrow> bool" where
  "holds_jobs sh js \<longleftrightarrow> (\<exists>ns. jobs_inv sh ns \<and> jobs_of sh ns = js)"

definition fresh_for :: "addr \<Rightarrow> shell \<Rightarrow> bool" where
  "fresh_for n sh \<longleftrightarrow> node_job sh n = None"

lemma fresh_not_in: "jobs_inv sh ns \<Longrightarrow> fresh_for n sh \<Longrightarrow> n \<notin> set ns"
  by (auto simp: fresh_for_def elim: jobs_inv_node)

lemma dll_fresh_links:
  assumes "dll (self, l) ns" "n \<notin> set ns"
  shows "dll (self, set_next n None (set_prev n None l)) ns"
  using assms dll_frame [of ns l "set_next n None (set_prev n None l)" self]
  by (auto simp: same_links_def)

lemma linked_node:
  assumes inv: "jobs_inv sh ns" and n: "n \<notin> set ns" and j: "job_heap sh a = Some j" and a: "a \<notin> job_at sh ` set ns"
    and d: "dll (self, l) ms" "set ms = insert n (set ns)"
  defines "sh' \<equiv> sh\<lparr>job_ll := self, job_links := l, node_job := (node_job sh)(n \<mapsto> a)\<rparr>"
  shows "jobs_inv sh' ms" "jobs_of sh' ns = jobs_of sh ns" "job_at sh' n = a"
proof -
  have at: "node_job sh m = Some (job_at sh m)" "\<exists>j. job_heap sh (job_at sh m) = Some j" if "m \<in> set ns" for m
    using inv that by (auto elim: jobs_inv_node)
  have "inj_on (node_job sh') (insert n (set ns))"
    using inv n a at by (fastforce simp: inj_on_def jobs_inv_def sh'_def)
  then show "jobs_inv sh' ms" using d n j at by (auto simp: jobs_inv_def sh'_def)
  show "jobs_of sh' ns = jobs_of sh ns" using n by (auto simp: jobs_of_def job_at_def sh'_def)
  show "job_at sh' n = a" by (simp add: job_at_def sh'_def)
qed

lemma image_fst_jobs_of: "fst ` set (jobs_of sh ns) = job_at sh ` set ns"
  by (auto simp: jobs_of_def image_image)

lemma enqueue_job_ok:
  assumes js: "holds_jobs sh js" and n: "fresh_for n sh" and j: "job_heap sh a = Some j"
    and a: "a \<notin> fst ` set js" and s: "job_status j \<noteq> J_RUNNING_FG"
  shows "\<exists>sh'. enqueue_job h (Some n) a sh = Some (Continues, sh') \<and> holds_jobs sh' (js @ [(a, j)]) \<and>
    sys sh' = sys sh \<and> job_heap sh' = job_heap sh \<and> node_job sh' = (node_job sh)(n \<mapsto> a)"
proof -
  obtain ns where ns: "jobs_inv sh ns" "jobs_of sh ns = js" using js by (auto simp: holds_jobs_def)
  note nn = fresh_not_in [OF ns(1) n]
  have a': "a \<notin> job_at sh ` set ns" using a ns(2) image_fst_jobs_of by metis
  have d: "dll (job_ll sh, set_next n None (set_prev n None (job_links sh))) ns"
    using dll_fresh_links [OF _ nn] ns(1) by (simp add: jobs_inv_def)
  obtain self l where p: "linked_list_push_tail n (job_ll sh, set_next n None (set_prev n None (job_links sh))) = Some (self, l)"
    "dll (self, l) (ns @ [n])"
    using macro.push_law [OF d nn] by blast
  let ?sh = "sh\<lparr>job_ll := self, job_links := l, node_job := (node_job sh)(n \<mapsto> a)\<rparr>"
  note k = linked_node [OF ns(1) nn j a' p(2)]
  have "holds_jobs ?sh (js @ [(a, j)])"
    unfolding holds_jobs_def using k j ns(2) by (intro exI [of _ "ns @ [n]"]) simp
  then show ?thesis using p(1) j s by (cases "job_status j") (auto simp: enqueue_job_def get_job_def)
qed

lemma add_foreground_job_ok:
  assumes js: "holds_jobs sh js" and n: "fresh_for n sh" and j: "job_heap sh a = Some j" and a: "a \<notin> fst ` set js"
  shows "\<exists>sh'. add_foreground_job h (Some n) a sh = Some sh' \<and> holds_jobs sh' ((a, j) # js) \<and>
    sys sh' = sys sh \<and> job_heap sh' = job_heap sh"
proof -
  obtain ns where ns: "jobs_inv sh ns" "jobs_of sh ns = js" using js by (auto simp: holds_jobs_def)
  note nn = fresh_not_in [OF ns(1) n]
  have a': "a \<notin> job_at sh ` set ns" using a ns(2) image_fst_jobs_of by metis
  have d: "dll (job_ll sh, set_next n None (set_prev n None (job_links sh))) ns"
    using dll_fresh_links [OF _ nn] ns(1) by (simp add: jobs_inv_def)
  obtain self l where p: "linked_list_push_head n (job_ll sh, set_next n None (set_prev n None (job_links sh))) = Some (self, l)"
    "dll (self, l) (n # ns)"
    using push_head_refines [OF d nn] by blast
  let ?sh = "sh\<lparr>job_ll := self, job_links := l, node_job := (node_job sh)(n \<mapsto> a)\<rparr>"
  have "set (n # ns) = insert n (set ns)" by simp
  note k = linked_node [OF ns(1) nn j a' p(2) this]
  have "holds_jobs ?sh ((a, j) # js)"
    unfolding holds_jobs_def using k j ns(2) by (intro exI [of _ "n # ns"]) simp
  then show ?thesis using p(1) by (auto simp: add_foreground_job_def)
qed

text \<open>Unlinking a node of the list and freeing it; the job itself may be freed as well.\<close>

lemma unlink_node_ok:
  assumes inv: "jobs_inv sh ns" and n: "n \<in> set ns"
    and hp: "hp = job_heap sh \<or> hp = (job_heap sh)(job_at sh n := None)"
  defines "sh' \<equiv> (unlink_node n sh)\<lparr>job_heap := hp, node_job := (node_job sh)(n := None)\<rparr>"
  shows "jobs_inv sh' (remove1 n ns)" "jobs_of sh' (remove1 n ns) = jobs_of sh (remove1 n ns)" "sys sh' = sys sh"
proof -
  have d: "dll (job_ll sh, job_links sh) ns" using inv by (simp add: jobs_inv_def)
  obtain self l where r: "linked_list_remove n (job_ll sh, job_links sh) = (self, l)" "dll (self, l) (remove1 n ns)"
    using macro.unlink_law [OF d n] by blast
  have s: "set (remove1 n ns) = set ns - {n}" using jobs_inv_dll(4) [OF inv] by simp
  have at: "node_job sh m = Some (job_at sh m)" "\<exists>j. job_heap sh (job_at sh m) = Some j" if "m \<in> set ns" for m
    using inv that by (auto elim: jobs_inv_node)
  have ne: "job_at sh m \<noteq> job_at sh n" if "m \<in> set ns - {n}" for m
    using inv that at(1) n by (metis DiffD1 DiffD2 inj_onD jobs_inv_def singletonI)
  have sh': "job_ll sh' = self" "job_links sh' = l" "node_job sh' = (node_job sh)(n := None)" "job_heap sh' = hp"
    "sys sh' = sys sh"
    using r(1) by (simp_all add: sh'_def unlink_node_def)
  then show "sys sh' = sys sh" by simp
  have at': "job_at sh' m = job_at sh m" "hp (job_at sh m) = job_heap sh (job_at sh m)" if "m \<in> set ns - {n}" for m
    using that sh' ne [OF that] hp by (auto simp: job_at_def)
  have "inj_on (node_job sh') (set (remove1 n ns))"
    using inv s sh'(3) by (auto simp: inj_on_def jobs_inv_def)
  then show "jobs_inv sh' (remove1 n ns)" using r(2) s sh' at at' by (auto simp: jobs_inv_def)
  show "jobs_of sh' (remove1 n ns) = jobs_of sh (remove1 n ns)" using s at' sh' by (auto simp: jobs_of_def)
qed

lemma jobs_of_remove:
  "find (\<lambda>n. P (job_at sh n, the (job_heap sh (job_at sh n)))) ns = Some n \<Longrightarrow>
    jobs_of sh (remove1 n ns) = drop_first P (jobs_of sh ns)"
proof (induction ns)
  case (Cons m ns)
  then show ?case using find_SomeD [of _ ns n] by (auto split: if_split_asm)
qed simp

lemma drop_first_none: "find P xs = None \<Longrightarrow> drop_first P xs = xs"
  by (induction xs) (auto split: if_split_asm)

lemma remove_job_by_pid_ok:
  assumes js: "holds_jobs sh js"
  shows "\<exists>sh'. remove_job_by_pid p sh = Some sh' \<and> holds_jobs sh' (drop_first (\<lambda>(a, j). job_pid j = p) js) \<and>
    sys sh' = sys sh \<and>
    job_heap sh' = (case find (\<lambda>(a, j). job_pid j = p) js of None \<Rightarrow> job_heap sh | Some (a, _) \<Rightarrow> (job_heap sh)(a := None))"
proof -
  obtain ns where ns: "jobs_inv sh ns" "jobs_of sh ns = js" using js by (auto simp: holds_jobs_def)
  let ?f = "find (\<lambda>n. job_pid (the (job_heap sh (job_at sh n))) = p) ns"
  note f = find_first [OF ns(1), of "\<lambda>_ j. job_pid j = p"]
  have fj: "find (\<lambda>(a, j). job_pid j = p) js = map_option (\<lambda>n. (job_at sh n, the (job_heap sh (job_at sh n)))) ?f"
    using find_jobs_of [of "\<lambda>(a, j). job_pid j = p" sh ns] ns(2) by simp
  show ?thesis
  proof (cases ?f)
    case None
    then have "drop_first (\<lambda>(a, j). job_pid j = p) js = js" using fj by (intro drop_first_none) simp
    then show ?thesis using None f js fj by (auto simp: remove_job_by_pid_def)
  next
    case (Some n)
    have n: "n \<in> set ns" using find_SomeD [OF Some] by simp
    obtain a j where aj: "node_job sh n = Some a" "job_heap sh a = Some j" "job_at sh n = a"
      using jobs_inv_node [OF ns(1) n] by blast
    let ?sh = "(unlink_node n sh)\<lparr>job_heap := (job_heap sh)(a := None), node_job := (node_job sh)(n := None)\<rparr>"
    have un: "node_job (unlink_node n sh) = node_job sh" "job_heap (unlink_node n sh) = job_heap sh"
      by (simp_all add: unlink_node_def case_prod_beta)
    have e: "remove_job_by_pid p sh = Some ?sh"
      using f Some aj un by (simp add: remove_job_by_pid_def destroy_job_def free_node_def)
    note u = unlink_node_ok [OF ns(1) n, of "(job_heap sh)(a := None)", unfolded aj(3), OF disjI2 [OF refl]]
    have "jobs_of ?sh (remove1 n ns) = drop_first (\<lambda>(a, j). job_pid j = p) js"
      using u(2) jobs_of_remove [of "\<lambda>(a, j). job_pid j = p" sh ns n] Some ns(2) by simp
    then have "holds_jobs ?sh (drop_first (\<lambda>(a, j). job_pid j = p) js)" using u(1) by (auto simp: holds_jobs_def)
    then show ?thesis using e u(3) fj Some aj by auto
  qed
qed

lemma find_pointer_forward:
  assumes "dseg (job_links sh) p ns None" "\<forall>n\<in>set ns. \<exists>a j. node_job sh n = Some a \<and> job_heap sh a = Some j"
  shows "find_pointer a (hd_opt ns None) sh = Some (find (\<lambda>n. job_at sh n = a) ns)"
  using assms
proof (induction ns arbitrary: p)
  case Nil
  then show ?case by (subst find_pointer.simps) simp
next
  case (Cons n ns)
  then obtain b where "node_job sh n = Some b" by auto
  then show ?case using Cons by (subst find_pointer.simps) (auto simp: job_at_def)
qed

lemma remove_foreground_job_ok:
  assumes js: "holds_jobs sh js"
  shows "\<exists>sh'. remove_foreground_job a sh = Some sh' \<and> holds_jobs sh' (drop_first (\<lambda>(b, j). b = a) js) \<and>
    sys sh' = sys sh \<and> job_heap sh' = job_heap sh"
proof -
  obtain ns where ns: "jobs_inv sh ns" "jobs_of sh ns = js" using js by (auto simp: holds_jobs_def)
  let ?f = "find (\<lambda>n. job_at sh n = a) ns"
  have f: "find_pointer a (ll_head (job_ll sh)) sh = Some ?f"
    using find_pointer_forward [OF jobs_inv_dll(3) [OF ns(1)]] jobs_inv_dll(1) [OF ns(1)] ns(1)
    by (simp add: jobs_inv_def)
  show ?thesis
  proof (cases ?f)
    case None
    then have "find (\<lambda>(b, j). b = a) js = None"
      using find_jobs_of [of "\<lambda>(b, j). b = a" sh ns] ns(2) by simp
    then show ?thesis using None f js drop_first_none [of _ js] by (auto simp: remove_foreground_job_def)
  next
    case (Some n)
    have n: "n \<in> set ns" using find_SomeD [OF Some] by simp
    obtain b where b: "node_job sh n = Some b" using jobs_inv_node [OF ns(1) n] by blast
    let ?sh = "(unlink_node n sh)\<lparr>job_heap := job_heap sh, node_job := (node_job sh)(n := None)\<rparr>"
    have un: "node_job (unlink_node n sh) = node_job sh" "job_heap (unlink_node n sh) = job_heap sh"
      by (simp_all add: unlink_node_def case_prod_beta)
    have e: "remove_foreground_job a sh = Some ?sh"
      using f Some b un by (simp add: remove_foreground_job_def free_node_def)
    note u = unlink_node_ok [OF ns(1) n disjI1 [OF refl]]
    have "jobs_of ?sh (remove1 n ns) = drop_first (\<lambda>(b, j). b = a) js"
      using u(2) jobs_of_remove [of "\<lambda>(b, j). b = a" sh ns n] Some ns(2) by simp
    then have "holds_jobs ?sh (drop_first (\<lambda>(b, j). b = a) js)" using u(1) by (auto simp: holds_jobs_def)
    then show ?thesis using e u(3) by auto
  qed
qed


text \<open>Writing a field of a job, wherever the job is.\<close>

definition mark :: "addr \<Rightarrow> (job \<Rightarrow> job) \<Rightarrow> (addr \<times> job) list \<Rightarrow> (addr \<times> job) list" where
  "mark a f js = map (\<lambda>(b, j). (b, if b = a then f j else j)) js"

lemma mark_simps [simp]:
  "mark a f [] = []" "mark a f ((b, j) # js) = (b, if b = a then f j else j) # mark a f js"
  by (simp_all add: mark_def)

lemma fst_mark [simp]: "fst ` set (mark a f js) = fst ` set js"
  by (force simp: mark_def)

lemma mark_other: "a \<notin> fst ` set js \<Longrightarrow> mark a f js = js"
  by (induction js) auto

lemma upd_job_ok:
  assumes js: "holds_jobs sh js" and j: "job_heap sh a = Some j"
  shows "\<exists>sh'. upd_job a f sh = Some sh' \<and> holds_jobs sh' (mark a f js) \<and> sys sh' = sys sh \<and>
    job_heap sh' = (job_heap sh)(a \<mapsto> f j) \<and> node_job sh' = node_job sh"
proof -
  obtain ns where ns: "jobs_inv sh ns" "jobs_of sh ns = js" using js by (auto simp: holds_jobs_def)
  let ?sh = "sh\<lparr>job_heap := (job_heap sh)(a \<mapsto> f j)\<rparr>"
  have at: "job_at ?sh = job_at sh" by (simp add: fun_eq_iff job_at_def)
  have "jobs_inv ?sh ns" using ns(1) by (fastforce simp: jobs_inv_def)
  moreover have "jobs_of ?sh ns = mark a f js"
    unfolding ns(2) [symmetric] using j at by (auto simp: jobs_of_def mark_def)
  ultimately show ?thesis using j by (auto simp: upd_job_def holds_jobs_def)
qed

lemma drop_first_absent: "\<forall>x\<in>set xs. \<not> P x \<Longrightarrow> drop_first P xs = xs"
  by (induction xs) auto

section \<open>The interface of the list\<close>

text \<open>
  What the shell relies on: jobs are put at the front or the back, taken out and marked. \<open>rest\<close> is
  the part of the state that none of this changes; \<open>unused\<close> says that a node is not in use.
\<close>

locale job_store =
  fixes holds :: "'s \<Rightarrow> (addr \<times> job) list \<Rightarrow> bool"
    and job_mem :: "'s \<Rightarrow> addr \<Rightarrow> job option"
    and unused :: "addr \<Rightarrow> 's \<Rightarrow> bool"
    and rest :: "'s \<Rightarrow> 'r"
    and put_front :: "addr \<Rightarrow> addr \<Rightarrow> 's \<Rightarrow> 's option"
    and put_back :: "addr \<Rightarrow> addr \<Rightarrow> 's \<Rightarrow> (control \<times> 's) option"
    and take_out :: "addr \<Rightarrow> 's \<Rightarrow> 's option"
    and set_job :: "addr \<Rightarrow> (job \<Rightarrow> job) \<Rightarrow> 's \<Rightarrow> 's option"
  assumes front_law: "holds s js \<Longrightarrow> unused n s \<Longrightarrow> job_mem s a = Some j \<Longrightarrow> a \<notin> fst ` set js \<Longrightarrow>
      \<exists>s'. put_front n a s = Some s' \<and> holds s' ((a, j) # js) \<and> rest s' = rest s \<and> job_mem s' = job_mem s"
    and back_law: "holds s js \<Longrightarrow> unused n s \<Longrightarrow> job_mem s a = Some j \<Longrightarrow> a \<notin> fst ` set js \<Longrightarrow>
      job_status j \<noteq> J_RUNNING_FG \<Longrightarrow>
      \<exists>s'. put_back n a s = Some (Continues, s') \<and> holds s' (js @ [(a, j)]) \<and> rest s' = rest s \<and> job_mem s' = job_mem s"
    and take_law: "holds s js \<Longrightarrow>
      \<exists>s'. take_out a s = Some s' \<and> holds s' (drop_first (\<lambda>(b, j). b = a) js) \<and> rest s' = rest s \<and>
        job_mem s' = job_mem s \<and> (\<forall>n. unused n s \<longrightarrow> unused n s')"
    and set_law: "holds s js \<Longrightarrow> job_mem s a = Some j \<Longrightarrow>
      \<exists>s'. set_job a f s = Some s' \<and> holds s' (mark a f js) \<and> rest s' = rest s \<and>
        job_mem s' = (job_mem s)(a \<mapsto> f j) \<and> (\<forall>n. unused n s \<longrightarrow> unused n s')"
begin

text \<open>A job that stops leaves its place, wherever it is, and goes to the back.\<close>

lemma stop_moves_back:
  assumes s: "holds s js" and n: "unused n s" and j: "job_mem s a = Some j" and d: "distinct (map fst js)"
  shows "\<exists>s1 s2 s3. set_job a (\<lambda>j. j\<lparr>job_status := J_STOPPED\<rparr>) s = Some s1 \<and> take_out a s1 = Some s2 \<and>
    put_back n a s2 = Some (Continues, s3) \<and> rest s3 = rest s \<and>
    holds s3 (drop_first (\<lambda>(b, j). b = a) js @ [(a, j\<lparr>job_status := J_STOPPED\<rparr>)]) \<and>
    job_mem s3 = (job_mem s)(a \<mapsto> j\<lparr>job_status := J_STOPPED\<rparr>)"
proof -
  let ?f = "\<lambda>j. j\<lparr>job_status := J_STOPPED\<rparr>" and ?d = "drop_first (\<lambda>(b, j). b = a)"
  have out: "a \<notin> fst ` set (?d js)" using d by (induction js) (auto split: if_split_asm, force)
  have same: "?d (mark a ?f js) = ?d js" using d
  proof (induction js)
    case (Cons x js)
    then show ?case using mark_other [of a js ?f] by (cases x) auto
  qed simp
  from set_law [OF s j, of ?f] obtain s1 where s1: "set_job a ?f s = Some s1" "holds s1 (mark a ?f js)"
    "rest s1 = rest s" "job_mem s1 = (job_mem s)(a \<mapsto> ?f j)" "unused n s1" using n by blast
  from take_law [OF s1(2), of a] obtain s2 where s2: "take_out a s1 = Some s2" "holds s2 (?d js)"
    "rest s2 = rest s1" "job_mem s2 = job_mem s1" "unused n s2" using s1(5) same by auto
  have "job_mem s2 a = Some (?f j)" using s1(4) s2(4) by simp
  from back_law [OF s2(2,5) this out] obtain s3 where "put_back n a s2 = Some (Continues, s3)"
    "holds s3 (?d js @ [(a, ?f j)])" "rest s3 = rest s2" "job_mem s3 = job_mem s2" by auto
  then show ?thesis using s1 s2 by auto
qed

end

lemma remove_foreground_unused:
  assumes "remove_foreground_job a sh = Some sh'" "fresh_for n sh"
  shows "fresh_for n sh'"
  using assms
  by (auto simp: remove_foreground_job_def free_node_def fresh_for_def unlink_node_def case_prod_beta
      split: option.splits bind_splits if_split_asm)

interpretation jl: job_store holds_jobs job_heap fresh_for sys
  "\<lambda>n a. add_foreground_job h (Some n) a" "\<lambda>n a. enqueue_job h (Some n) a" remove_foreground_job upd_job
  for h
proof (unfold_locales, goal_cases)
  case (1 s js n a j)
  then show ?case using add_foreground_job_ok by blast
next
  case (2 s js n a j)
  then show ?case using enqueue_job_ok by blast
next
  case (3 s js a)
  then show ?case using remove_foreground_job_ok [OF 3, of a] remove_foreground_unused by blast
next
  case (4 s js a j f)
  then show ?case using upd_job_ok [OF 4, of f] by (auto simp: fresh_for_def)
qed

section \<open>Properties\<close>

lemma find_job_holds:
  assumes "holds_jobs sh js"
  shows "find_job P sh = Some (map_option fst (find (\<lambda>(a, j). P j) js))"
  using assms find_job_ok by (auto simp: holds_jobs_def)

text \<open>
  C39: The list of jobs refines a list: looking up a job by its number, removing a job by its
  process or by its address, and adding a job at the front (foreground) or at the back (background
  and stopped jobs) all return and act on the doubly linked nodes as the list operations do, and
  leave the system alone.
\<close>

theorem job_list_refines:
  assumes "holds_jobs sh js"
  shows "find_job_by_id i sh = Some (map_option fst (find (\<lambda>(a, j). job_id j = i) js)) \<and>
    (\<exists>sh'. remove_job_by_pid p sh = Some sh' \<and> holds_jobs sh' (drop_first (\<lambda>(a, j). job_pid j = p) js) \<and>
       sys sh' = sys sh) \<and>
    (\<exists>sh'. remove_foreground_job a sh = Some sh' \<and> holds_jobs sh' (drop_first (\<lambda>(b, j). b = a) js) \<and>
       sys sh' = sys sh) \<and>
    (fresh_for n sh \<and> job_heap sh a = Some j \<and> a \<notin> fst ` set js \<longrightarrow>
       (\<exists>sh'. add_foreground_job h (Some n) a sh = Some sh' \<and> holds_jobs sh' ((a, j) # js) \<and> sys sh' = sys sh) \<and>
       (job_status j \<noteq> J_RUNNING_FG \<longrightarrow>
          (\<exists>sh'. enqueue_job h (Some n) a sh = Some (Continues, sh') \<and> holds_jobs sh' (js @ [(a, j)]) \<and>
             sys sh' = sys sh)))"
  using remove_job_by_pid_ok [OF assms] jl.take_law [OF assms] jl.front_law [OF assms] jl.back_law [OF assms]
    find_job_holds [OF assms]
  unfolding find_job_by_id_def by (intro conjI impI) metis+

definition job_example :: "nat \<Rightarrow> int \<Rightarrow> job_status \<Rightarrow> job" where
  "job_example i p st = \<lparr>job_id = i, job_pid = p, job_status = st, job_cmd = empty_command\<rparr>"

definition shell_example :: shell where
  "shell_example =
     \<lparr>sys = \<lparr>kern = demo, fsys = initial_fs\<rparr>, job_ll = \<lparr>ll_head = Some 11, ll_tail = Some 12, ele_dtor = False\<rparr>,
      job_links = \<lparr>l_prev = [12 \<mapsto> 11], l_next = [11 \<mapsto> 12], destroyed = []\<rparr>,
      node_job = [11 \<mapsto> 21, 12 \<mapsto> 22],
      job_heap = [21 \<mapsto> job_example 1 3 J_RUNNING_BG, 22 \<mapsto> job_example 2 5 J_STOPPED, 23 \<mapsto> job_example 3 6 J_RUNNING_BG]\<rparr>"

lemma shell_example_holds:
  "holds_jobs shell_example [(21, job_example 1 3 J_RUNNING_BG), (22, job_example 2 5 J_STOPPED)]"
  unfolding holds_jobs_def
  by (intro exI [of _ "[11, 12]"])
    (simp add: jobs_inv_def dll_def shell_example_def job_at_def inj_on_def)

theorem job_list_refines_witness:
  "(\<exists>sh'. enqueue_job host_example (Some 13) 23 shell_example = Some (Continues, sh') \<and>
      holds_jobs sh' [(21, job_example 1 3 J_RUNNING_BG), (22, job_example 2 5 J_STOPPED), (23, job_example 3 6 J_RUNNING_BG)])
   \<and> find_job_by_id 2 shell_example = Some (Some 22)"
proof -
  have "fresh_for 13 shell_example" "job_heap shell_example 23 = Some (job_example 3 6 J_RUNNING_BG)"
    by (simp_all add: fresh_for_def shell_example_def)
  then show ?thesis
    using job_list_refines [OF shell_example_holds, of 2 0 23 13 "job_example 3 6 J_RUNNING_BG" host_example]
    by (auto simp: job_example_def)
qed

end
