(* ===== verification/Shell_Props.thy ===== *)
theory Shell_Props
  imports Shell_Loop Job_Props Sys_Inv
begin

text \<open>
  Properties of the shell, over the kernel invariant and the list of jobs: what becomes of a
  foreground job when the shell runs again after its wait, and what the reaping loops do.
\<close>

section \<open>The list of jobs and the rest of the state\<close>

lemma jobs_inv_sys [simp]: "jobs_inv (sh\<lparr>sys := x\<rparr>) ns = jobs_inv sh ns"
  by (simp add: jobs_inv_def)

lemma jobs_of_sys [simp]: "jobs_of (sh\<lparr>sys := x\<rparr>) ns = jobs_of sh ns"
  by (simp add: jobs_of_def job_at_def)

lemma holds_jobs_sys [simp]: "holds_jobs (sh\<lparr>sys := x\<rparr>) js = holds_jobs sh js"
  by (simp add: holds_jobs_def)

lemma holds_jobs_distinct:
  assumes "holds_jobs sh js"
  shows "distinct (map fst js)"
proof -
  obtain ns where ns: "jobs_inv sh ns" "jobs_of sh ns = js" using assms by (auto simp: holds_jobs_def)
  have "map fst js = map (job_at sh) ns" using ns(2) by (auto simp: jobs_of_def)
  moreover have "inj_on (job_at sh) (set ns)"
    using ns(1) unfolding jobs_inv_def inj_on_def job_at_def by (metis option.sel)
  ultimately show ?thesis using jobs_inv_dll(4) [OF ns(1)] by (simp add: distinct_map)
qed

lemma holds_jobs_heap: "holds_jobs sh js \<Longrightarrow> (a, j) \<in> set js \<Longrightarrow> job_heap sh a = Some j"
  unfolding holds_jobs_def jobs_of_def by (auto, metis jobs_inv_node option.sel)

lemma destroy_job_ok:
  assumes js: "holds_jobs sh js" and a: "a \<notin> fst ` set js" and j: "job_heap sh a = Some j"
  shows "\<exists>sh'. destroy_job a sh = Some sh' \<and> holds_jobs sh' js \<and> sys sh' = sys sh \<and> job_heap sh' a = None"
proof -
  obtain ns where ns: "jobs_inv sh ns" "jobs_of sh ns = js" using js by (auto simp: holds_jobs_def)
  let ?sh = "sh\<lparr>job_heap := (job_heap sh)(a := None)\<rparr>"
  have at: "job_at ?sh = job_at sh" by (simp add: fun_eq_iff job_at_def)
  have out: "job_at sh n \<noteq> a" if "n \<in> set ns" for n
    using a that image_fst_jobs_of [of sh ns] ns(2) by auto
  then have "jobs_of ?sh ns = js" using ns(2) at by (auto simp: jobs_of_def)
  moreover have "jobs_inv ?sh ns"
    using ns(1) out unfolding jobs_inv_def job_at_def by (fastforce split: if_split_asm)
  ultimately show ?thesis using j by (auto simp: destroy_job_def holds_jobs_def)
qed

section \<open>Waiting\<close>

lemma lookup_child:
  assumes k: "kinv s Q C i" and b: "b \<in> queued Q" "pcbs s b = Some d" and u: "current_process s = Some u" "u \<in> queued Q"
  shows "k_get_process_by_pid (pid d) s = Some (Some b)" "1 \<le> pid d"
proof -
  obtain r where r: "k_get_process_by_pid (pid d) s = Some r"
    "case r of None \<Rightarrow> \<forall>a\<in>queued Q. pid_at s a \<noteq> Some (pid d)
     | Some a \<Rightarrow> pid_at s a = Some (pid d) \<and> (a \<in> queued Q \<or> current_process s = Some a)"
    using k_get_process_by_pid_ok [OF k] by blast
  have pb: "pid_at s b = Some (pid d)" using b(2) by (simp add: pid_at_def)
  have inj: "inj_on (pid_at s) (queued Q)" using kinvD(1) [OF k] by (simp add: sched_inv_def)
  show "k_get_process_by_pid (pid d) s = Some (Some b)"
  proof (cases r)
    case None
    then show ?thesis using r(2) b(1) pb by auto
  next
    case (Some a)
    then have "pid_at s a = pid_at s b" "a \<in> queued Q" using r(2) pb u by auto
    then have "a = b" using inj_onD [OF inj _ _ b(1), of a] by simp
    then show ?thesis using r(1) Some by simp
  qed
  have "\<exists>p. ident s b = Some (p, True) \<and> 1 \<le> p" using k b(1) unfolding kinv_def by blast
  then show "1 \<le> pid d" using b(2) by (auto simp: ident_def)
qed

text \<open>The end of a wait for a given child, on every branch.\<close>

lemma resumed_wait:
  assumes k: "kinv s Q C i" and u: "current_process s = Some u" and c: "pcbs s u = Some c" "state c = PROCESS_RUNNING"
    and b: "b \<in> queued Q" "pcbs s b = Some d" and p: "ppid d = pid c"
  shows "\<exists>r w s'. s_waitpid_resume (Some b) (Some st) s = Some (r, Some w, s') \<and>
    (if state d = PROCESS_ZOMBIED
     then r = Wait_return 0 \<and> w = W_EXITED \<and>
       (\<exists>n\<in>set (C u). cprocess s n = b \<and> kinv s' (Q(Zombie := remove1 b (Q Zombie))) (C(u := remove1 n (C u))) i)
     else w = exit_status d \<and>
       (if state d = PROCESS_STOPPED then r = Wait_return 0 \<and> kinv s' Q C i
        else r = Wait_suspend \<and> kinv s' (moveq u (Ready (priority c)) Blocked Q) C i))"
proof -
  note ru = running_ready [OF k u c]
  note l = lookup_child [OF k b u ru(3)]
  have cur: "k_get_current_process s = Some u" using kinv_get_current [OF k] u by simp
  obtain r w' s' where w: "wait_pid u (pid d) (Some (exit_status d)) False s = Some (r, w', s')"
    "wait_pid_outcome u (Some b) (Some (exit_status d)) False s Q C i r w' s'"
    using wait_pid_ok [OF k u c l(1)] by blast
  have e: "s_waitpid_resume (Some b) (Some st) s = wait_done (r, w', s')"
    using w(1) b(2) cur l(2) by (simp add: s_waitpid_resume_def k_waitpid_resume_def k_waitpid_def set_wstatus_def)
  show ?thesis
    using w(2) b(2) c(1) p l(2) unfolding e
    by (cases "state d") (auto simp: wait_pid_outcome_def wait_done_def set_wstatus_def)
qed

section \<open>The foreground job\<close>

lemma unredirected:
  "stdin_file cmd = None \<Longrightarrow> stdout_file cmd = None \<Longrightarrow> close_redirects h cmd x y sh = Some (Job_done Continues, sh)"
  by (simp add: close_redirects_def close_redirect_def)

text \<open>The job at the front of the list is taken out and freed.\<close>

lemma round_end_frees:
  assumes js: "holds_jobs sh ((a, j) # js)" and st: "job_status j \<noteq> J_STOPPED"
  shows "\<exists>sh'. round_end a (Job_done Continues, sh) = Some (Next, sh') \<and> holds_jobs sh' js \<and>
    job_heap sh' a = None \<and> sys sh' = sys sh"
proof -
  have j: "job_heap sh a = Some j" using holds_jobs_heap [OF js] by simp
  obtain sh1 where sh1: "remove_foreground_job a sh = Some sh1" "holds_jobs sh1 js" "sys sh1 = sys sh"
    "job_heap sh1 = job_heap sh"
    using jl.take_law [OF js, of a] by auto
  have "a \<notin> fst ` set js" using holds_jobs_distinct [OF js] by simp
  from destroy_job_ok [OF sh1(2) this] obtain sh2 where "destroy_job a sh1 = Some sh2" "holds_jobs sh2 js"
    "sys sh2 = sys sh1" "job_heap sh2 a = None" using j sh1(4) by auto
  then show ?thesis using j st sh1 by (auto simp: round_end_def get_job_def)
qed

text \<open>A wait that reports a stop: the job leaves its place and goes to the back of the list.\<close>

lemma after_wait_stopped:
  assumes js: "holds_jobs sh js" and n: "fresh_for n sh" and j: "job_heap sh a = Some j" and st: "P_WIFSTOPPED st"
  shows "\<exists>sh'. after_wait h (Some n) a st sh = Some (Continues, sh') \<and> sys sh' = sys sh \<and>
    holds_jobs sh' (drop_first (\<lambda>(b, j). b = a) js @ [(a, j\<lparr>job_status := J_STOPPED\<rparr>)])"
  using jl.stop_moves_back [OF js n j holds_jobs_distinct [OF js], of h] st by (auto simp: after_wait_def)

text \<open>
  C19: When the shell runs again while it waits for its foreground job, a job without redirections at the
  front of its list, whose process is its child: if the process has exited it is reaped, the job is taken off the list and
  freed, and the loop goes on; while the process is active the shell blocks again and keeps the
  job. If the process has been stopped, the wait does not report the stop: the job is freed like a
  finished one although its process is still in the stopped queue. The state satisfies the two
  invariants that every reachable kernel state has: the kernel invariant, and that a process that has not exited
  has exit status 0 (\<open>k_stop_process\<close> stores no status).
\<close>

theorem foreground_job_outcome:
  assumes k: "kinv (kern (sys sh)) Q C i" and u: "current_process (kern (sys sh)) = Some u"
    and c: "pcbs (kern (sys sh)) u = Some c" "state c = PROCESS_RUNNING"
    and b: "b \<in> queued Q" "pcbs (kern (sys sh)) b = Some d" "ppid d = pid c"
    and ok: "status_ok (kern (sys sh))"
    and js: "holds_jobs sh ((a, j) # js)" "job_status j \<noteq> J_STOPPED"
    and files: "stdin_file (job_cmd j) = None" "stdout_file (job_cmd j) = None"
  shows "\<exists>e sh1. execute_job_resume h node a (Some b) (Job_waits st 0 1) sh = Some (e, sh1) \<and>
    (if state d = PROCESS_ZOMBIED
     then \<exists>sh' n. round_end a (e, sh1) = Some (Next, sh') \<and> holds_jobs sh' js \<and> job_heap sh' a = None \<and>
       n \<in> set (C u) \<and> cprocess (kern (sys sh)) n = b \<and>
       kinv (kern (sys sh')) (Q(Zombie := remove1 b (Q Zombie))) (C(u := remove1 n (C u))) i
     else if state d = PROCESS_STOPPED
     then \<exists>sh'. round_end a (e, sh1) = Some (Next, sh') \<and> holds_jobs sh' js \<and> job_heap sh' a = None \<and>
       kinv (kern (sys sh')) Q C i
     else round_end a (e, sh1) = Some (Waits_job a (Job_waits 0 0 1), sh1) \<and>
       holds_jobs sh1 ((a, j) # js) \<and>
       kinv (kern (sys sh1)) (moveq u (Ready (priority c)) Blocked Q) C i)"
proof -
  have d: "state d = PROCESS_ZOMBIED \<or> exit_status d = 0" using ok b(2) by (auto simp: status_ok_def)
  obtain r w k' where w: "s_waitpid_resume (Some b) (Some st) (kern (sys sh)) = Some (r, Some w, k')"
    and out: "if state d = PROCESS_ZOMBIED
     then r = Wait_return 0 \<and> w = W_EXITED \<and>
       (\<exists>n\<in>set (C u). cprocess (kern (sys sh)) n = b \<and>
          kinv k' (Q(Zombie := remove1 b (Q Zombie))) (C(u := remove1 n (C u))) i)
     else w = exit_status d \<and>
       (if state d = PROCESS_STOPPED then r = Wait_return 0 \<and> kinv k' Q C i
        else r = Wait_suspend \<and> kinv k' (moveq u (Ready (priority c)) Blocked Q) C i)"
    using resumed_wait [OF k u c b, of st] by blast
  let ?sh = "sh\<lparr>sys := (sys sh)\<lparr>kern := k'\<rparr>\<rparr>"
  have j: "get_job a sh = Some j" using holds_jobs_heap [OF js(1)] by (simp add: get_job_def)
  have js': "holds_jobs ?sh ((a, j) # js)" using js(1) by simp
  show ?thesis
  proof (cases r)
    case Wait_suspend
    then have "execute_job_resume h node a (Some b) (Job_waits st 0 1) sh = Some (Job_waits w 0 1, ?sh)"
      using w j by (simp add: execute_job_resume_def wait_resume_def wait_for_def job_waited_def)
    then show ?thesis using out d Wait_suspend js' by (auto simp: round_end_def split: if_split_asm)
  next
    case (Wait_return v)
    have "\<not> P_WIFSTOPPED w" using out d by (auto simp: P_WIFSTOPPED_def split: if_split_asm)
    then have "execute_job_resume h node a (Some b) (Job_waits st 0 1) sh = Some (Job_done Continues, ?sh)"
      using w j Wait_return unredirected [OF files]
      by (simp add: execute_job_resume_def wait_resume_def wait_for_def job_waited_def after_wait_def)
    moreover obtain sh' where "round_end a (Job_done Continues, ?sh) = Some (Next, sh')" "holds_jobs sh' js"
      "job_heap sh' a = None" "sys sh' = sys ?sh"
      using round_end_frees [OF js' js(2)] by blast
    ultimately show ?thesis using out Wait_return by (auto split: if_split_asm)
  qed
qed

definition fg_example :: shell where
  "fg_example = shell_example\<lparr>job_heap :=
     [21 \<mapsto> job_example 3 5 J_RUNNING_FG, 22 \<mapsto> job_example 2 3 J_RUNNING_BG]\<rparr>"

lemma fg_example_holds:
  "holds_jobs fg_example [(21, job_example 3 5 J_RUNNING_FG), (22, job_example 2 3 J_RUNNING_BG)]"
  unfolding holds_jobs_def
  by (intro exI [of _ "[11, 12]"])
    (simp add: jobs_inv_def dll_def fg_example_def shell_example_def job_at_def inj_on_def)

lemma demo_status: "status_ok demo"
  by (auto simp: status_ok_def demo_defs split: if_split_asm)

theorem foreground_job_outcome_witness:
  "\<exists>e sh1 sh'. execute_job_resume host_example None 21 (Some 5) (Job_waits 7 0 1) fg_example = Some (e, sh1) \<and>
     round_end 21 (e, sh1) = Some (Next, sh') \<and> job_heap sh' 21 = None \<and>
     holds_jobs sh' [(22, job_example 2 3 J_RUNNING_BG)]"
proof -
  have s: "kern (sys fg_example) = demo" by (simp add: fg_example_def shell_example_def)
  show ?thesis
    using foreground_job_outcome [OF _ _ _ _ _ _ _ _ fg_example_holds,
        of demo_q demo_c 1 2 "the (pcbs demo 2)" 5 "the (pcbs demo 5)" host_example None 7]
      demo_inv demo_current demo_queued demo_pcbs(2,5) demo_status
    unfolding s by (auto simp: demo_pcb_def job_example_def empty_command_def)
qed

section \<open>Reaping\<close>

text \<open>A wait for any child that does not hang.\<close>

lemma poll_wait:
  assumes k: "kinv s Q C i" and u: "current_process s = Some u" and c: "pcbs s u = Some c" "state c = PROCESS_RUNNING"
  shows "\<exists>v w s'. s_waitpid (-1) (Some st) True s = Some (Wait_return v, Some w, s') \<and> v \<le> 0 \<and>
    (case find (ended s) (C u) of
       None \<Rightarrow> kinv s' Q C i
     | Some n \<Rightarrow> \<exists>d. pcbs s (cprocess s n) = Some d \<and>
         (if state d = PROCESS_ZOMBIED
          then kinv s' (Q(Zombie := remove1 (cprocess s n) (Q Zombie))) (C(u := remove1 n (C u))) i
          else kinv s' Q C i))"
proof -
  have cur: "k_get_current_process s = Some u" using kinv_get_current [OF k] u by simp
  obtain r w' s1 where w: "wait_any u (Some st) True s = Some (r, w', s1)"
    "wait_any_outcome u (Some st) True s Q C i r w' s1"
    using wait_any_ok [OF k u c] by blast
  have u1: "current_process s1 = Some u" using wait_any_cur [OF w(1)] u by (simp add: kcur_def)
  have e: "s_waitpid (-1) (Some st) True s = wait_done (r, w', s1)"
    using w(1) cur by (simp add: s_waitpid_def k_waitpid_def)
  obtain v where v: "r = Wait_return v" "\<exists>x. w' = Some x"
    using w(2) by (auto simp: wait_any_outcome_def set_wstatus_def split: option.split_asm if_split_asm)
  have fin: "\<exists>v w s'. s_waitpid (-1) (Some st) True s = Some (Wait_return v, Some w, s') \<and> v \<le> 0 \<and> kinv s' Q' C' i"
    if "kinv s1 Q' C' i" for Q' C'
    using fail_ok [OF that u1, of v] that v unfolding e by (auto simp: wait_done_def)
  show ?thesis
  proof (cases "find (ended s) (C u)")
    case None
    then have "kinv s1 Q C i" using w(2) by (auto simp: wait_any_outcome_def split: if_split_asm)
    then show ?thesis using fin None by simp
  next
    case (Some n)
    then obtain d where d: "pcbs s (cprocess s n) = Some d"
      "kinv s1 (if state d = PROCESS_ZOMBIED then Q(Zombie := remove1 (cprocess s n) (Q Zombie)) else Q)
         (if state d = PROCESS_ZOMBIED then C(u := remove1 n (C u)) else C) i"
      using w(2) by (auto simp: wait_any_outcome_def simp del: fun_upd_apply split: if_split_asm)
    then show ?thesis using fin [OF d(2)] Some by (cases "state d = PROCESS_ZOMBIED") auto
  qed
qed

text \<open>
  C20: The loops in which the shell and \<open>init\<close> collect their children make a single wait: \<open>s_waitpid\<close>
  never returns the identifier of a child. The first child in the list that has exited or
  stopped decides: if it has exited it is reaped without a word and its job, if it has one, stays in
  the list; if it is stopped nothing is reaped, even when children behind it have exited.
\<close>

theorem reaping_loops_run_once:
  assumes k: "kinv (kern (sys sh)) Q C i" and u: "current_process (kern (sys sh)) = Some u"
    and c: "pcbs (kern (sys sh)) u = Some c" "state c = PROCESS_RUNNING"
  shows "\<exists>k'. shell_reap h node st sh = Some (Continues, sh\<lparr>sys := (sys sh)\<lparr>kern := k'\<rparr>\<rparr>) \<and>
    init_reap st (kern (sys sh)) = Some k' \<and>
    (case find (ended (kern (sys sh))) (C u) of
       None \<Rightarrow> kinv k' Q C i
     | Some n \<Rightarrow> \<exists>d. pcbs (kern (sys sh)) (cprocess (kern (sys sh)) n) = Some d \<and>
         (if state d = PROCESS_ZOMBIED
          then kinv k' (Q(Zombie := remove1 (cprocess (kern (sys sh)) n) (Q Zombie))) (C(u := remove1 n (C u))) i
          else kinv k' Q C i))"
proof -
  obtain v w k' where w: "s_waitpid (-1) (Some st) True (kern (sys sh)) = Some (Wait_return v, Some w, k')" "v \<le> 0"
    and out: "case find (ended (kern (sys sh))) (C u) of
       None \<Rightarrow> kinv k' Q C i
     | Some n \<Rightarrow> \<exists>d. pcbs (kern (sys sh)) (cprocess (kern (sys sh)) n) = Some d \<and>
         (if state d = PROCESS_ZOMBIED
          then kinv k' (Q(Zombie := remove1 (cprocess (kern (sys sh)) n) (Q Zombie))) (C(u := remove1 n (C u))) i
          else kinv k' Q C i)"
    using poll_wait [OF assms, of st] by blast
  have "shell_reap h node st sh = Some (Continues, sh\<lparr>sys := (sys sh)\<lparr>kern := k'\<rparr>\<rparr>)"
    using w by (subst shell_reap.simps) simp
  moreover have "init_reap st (kern (sys sh)) = Some k'"
    using w by (subst init_reap.simps) simp
  ultimately show ?thesis using out by blast
qed

lemma demo_first_ended: "find (ended demo) (demo_c 2) = Some 104"
  by (simp add: demo_c_def ended_def demo_defs)

theorem reaping_loops_run_once_witness:
  "\<exists>k'. shell_reap host_example None 0 shell_example = Some (Continues, shell_example\<lparr>sys := (sys shell_example)\<lparr>kern := k'\<rparr>\<rparr>) \<and>
     kinv k' (demo_q(Zombie := [])) (demo_c(2 := [103, 105, 106])) 1"
proof -
  have s: "kern (sys shell_example) = demo" by (simp add: shell_example_def)
  have n: "cprocess demo 104 = 4" "remove1 4 (demo_q Zombie) = []" "remove1 104 (demo_c 2) = [103, 105, 106]"
    by (simp_all add: demo_def demo_c_def)
  have c: "state (the (pcbs demo 2)) = PROCESS_RUNNING" "state (the (pcbs demo 4)) = PROCESS_ZOMBIED"
    by (simp_all add: demo_defs)
  show ?thesis
    using reaping_loops_run_once [of shell_example demo_q demo_c 1 2 "the (pcbs demo 2)" host_example None 0]
      demo_inv demo_current demo_pcbs(2,4) c
    unfolding s demo_first_ended option.case n by (auto simp del: fun_upd_apply)
qed

section \<open>The terminal\<close>

lemma tc_frames:
  "upd_pcb a f s = Some s' \<Longrightarrow> terminal_controlling_pid s' = terminal_controlling_pid s"
  "q_remove q a s = Some s' \<Longrightarrow> terminal_controlling_pid s' = terminal_controlling_pid s"
  "remove_child u n s = Some s' \<Longrightarrow> terminal_controlling_pid s' = terminal_controlling_pid s"
  by (auto simp: upd_pcb_def q_remove_def remove_child_def bind_eq_Some_conv Let_def case_prod_beta split: option.split_asm,
      cases q, auto)

lemma remove_from_children_list_tc:
  "remove_from_children_list u a s = Some s' \<Longrightarrow> terminal_controlling_pid s' = terminal_controlling_pid s"
  by (auto simp: remove_from_children_list_def bind_eq_Some_conv simp del: child_search_simps
      split: option.split_asm dest!: tc_frames(3))

lemma wait_pid_tc:
  assumes w: "wait_pid u p w nh s = Some (Wait_return v, w', s')"
  shows "terminal_controlling_pid s' = terminal_controlling_pid s"
proof -
  obtain child s1 where c: "k_get_process_by_pid p s = Some child"
    "upd_pcb u (\<lambda>c. c\<lparr>waited_child := p\<rparr>) s = Some s1"
    using w unfolding wait_pid_def bind_eq_Some_conv by blast
  have "terminal_controlling_pid s' = terminal_controlling_pid s1"
    using w c
    by (auto simp: wait_pid_def Let_def log_defs log_at_def bind_eq_Some_conv
        split: option.split_asm if_split_asm dest!: remove_from_children_list_tc tc_frames(2))
  then show ?thesis using tc_frames(1) [OF c(2)] by simp
qed

text \<open>
  C21: A process that has the terminal and waits, without \<open>nohang\<close>, for a child of its own that has
  already exited or stopped returns from the wait without the terminal: control has been passed to
  the child and nothing gives it back, because it is only handed back when a child ends or stops
  while it is waited for.
\<close>

theorem wait_gives_terminal_away:
  assumes k: "kinv s Q C i" and u: "current_process s = Some u" and c: "pcbs s u = Some c" "state c = PROCESS_RUNNING"
    and t: "terminal_controlling_pid s = pid c"
    and b: "b \<in> queued Q" "pcbs s b = Some d" "ppid d = pid c" and d: "state d = PROCESS_ZOMBIED \<or> state d = PROCESS_STOPPED"
  shows "\<exists>w s'. s_waitpid (pid d) (Some st) False s = Some (Wait_return 0, Some w, s') \<and> kernel_inv s' \<and>
    terminal_controlling_pid s' = pid d \<and> pid d \<noteq> pid c"
proof -
  note ru = running_ready [OF k u c]
  have live: "sched_live s" using kinv_live [OF k] .
  let ?s = "s\<lparr>terminal_controlling_pid := pid d\<rparr>"
  have tc: "s_tcsetpid (pid d) s = Some (0, ?s)"
    using live u c t kinv_get_current [OF k] by (simp add: s_tcsetpid_def k_tcgetpid_def k_tcsetpid_def)
  have k': "kinv ?s Q C i" using s_tcsetpid_inv [OF k u, of "pid d"] tc by auto
  have s': "current_process ?s = Some u" "pcbs ?s u = Some c" "pcbs ?s b = Some d" using u c b by simp_all
  note l = lookup_child [OF k' b(1) s'(3) s'(1) ru(3)]
  obtain r w s2 where w: "wait_pid u (pid d) (Some st) False ?s = Some (r, w, s2)"
    "wait_pid_outcome u (Some b) (Some st) False ?s Q C i r w s2"
    using wait_pid_ok [OF k' s'(1,2) c(2) l(1)] by blast
  obtain v x where v: "r = Wait_return v" "v \<ge> 0" "w = Some x" "kernel_inv s2"
    using w(2) b d c(1) l(2) by (auto simp: wait_pid_outcome_def set_wstatus_def split: if_split_asm dest: kernel_invI)
  have "terminal_controlling_pid s2 = pid d" using wait_pid_tc w(1) v(1) by fastforce
  moreover have "s_waitpid (pid d) (Some st) False s = wait_done (Wait_return v, Some x, s2)"
    using tc w(1) v l(2) s'(1) kinv_get_current [OF k'] by (simp add: s_waitpid_def k_waitpid_def)
  moreover have "pid d \<noteq> pid c"
  proof
    assume "pid d = pid c"
    then have "b = u" using l(1) lookup_child(1) [OF k' ru(3) s'(2) s'(1) ru(3)] by simp
    then show False using b(2) c d by auto
  qed
  ultimately show ?thesis using v by (simp add: wait_done_def)
qed

theorem wait_gives_terminal_away_witness:
  "\<exists>w s'. s_waitpid 4 (Some 0) False demo = Some (Wait_return 0, Some w, s') \<and> terminal_controlling_pid s' = 4"
proof -
  have d: "pid (the (pcbs demo 4)) = 4" "ppid (the (pcbs demo 4)) = 2" "state (the (pcbs demo 4)) = PROCESS_ZOMBIED"
    "pid (the (pcbs demo 2)) = 2" "state (the (pcbs demo 2)) = PROCESS_RUNNING" "terminal_controlling_pid demo = 2"
    by (simp_all add: demo_defs)
  show ?thesis
    using wait_gives_terminal_away [OF demo_inv demo_current, of "the (pcbs demo 2)" 4 "the (pcbs demo 4)" 0]
      demo_pcbs(2,4) demo_queued d
    by auto
qed

end
