(* ===== verification/Spthread.thy ===== *)
theory Spthread
  imports Prelude
begin

text \<open>
  Suspendable threads (\<^verbatim>\<open>src/src/scheduler/spthread.c\<close>): a host thread that another thread suspends and
  continues by a signal \<open>SIGPTHD\<close>, whose handler acknowledges it and sleeps in \<open>sigsuspend\<close>.

  The state holds one such thread and the calls that the scheduler makes on it. The control of
  the thread is a stack of frames, the innermost first: a signal that is delivered pushes a frame
  for the handler. Of the host it models what the code relies on: \<open>SIGPTHD\<close> is \<open>SIGUSR1\<close>, so at
  most one is pending; it is blocked while its handler runs, because the handler is
  installed without \<open>SA_NODEFER\<close>; \<open>sigsuspend\<close> unblocks it, waits for a delivery, runs the
  handler and returns. Sending to a thread that has ended gives \<open>ESRCH\<close>; what the host does between
  the last statement of a thread and its end is part of that statement's step.

  The pointer that the signal carries is the number of the call whose argument structure it points
  to; the structure lives on the stack of the caller and is gone when the call returns. A step
  that follows such a pointer afterwards is a \<open>Fault\<close>. A step that has to wait is \<open>Blocked\<close>.
\<close>

section \<open>State\<close>

datatype sp_state = SPTHREAD_RUNNING_STATE | SPTHREAD_SUSPENDED_STATE | SPTHREAD_TERMINATED_STATE

datatype sp_signal = SPTHREAD_SIG_SUSPEND | SPTHREAD_SIG_CONTINUE

text \<open>Who holds the mutex of the argument structure.\<close>

datatype holder = Nobody | Sender | Receiver

record spthread_signal_args =
  sa_signal :: sp_signal
  ack :: bool
  shutup_mutex :: holder

text \<open>
  The loop \<open>do sigsuspend while (state is suspended)\<close> occurs at the start of a thread, in
  \<open>spthread_suspend_self\<close> and in the handler; it is followed by the routine, the caller, or the
  interrupted code.
\<close>

datatype resume = To_routine | To_caller | To_interrupted

datatype frame =
  Suspend_top resume | Suspend_wait resume | Suspend_test resume
| Routine
| Exit_mask | Exit_state | Exited
| Handler nat | Handler_locked nat

text \<open>Where the sender is in the loop that waits for the acknowledgement.\<close>

datatype sender = Send_idle | Send_lock | Send_test | Send_nap | Send_check

record spthread =
  meta_state :: sp_state
  frames :: "frame list"
  sig_blocked :: bool
  sig_pending :: "nat option"
  sender :: sender
  call :: nat
  args :: "spthread_signal_args option"
  returned :: "(sp_signal \<times> int) option"

datatype sp_result = Blocked | Fault | Next spthread

abbreviation ESRCH :: int where "ESRCH \<equiv> 3"
abbreviation EAGAIN :: int where "EAGAIN \<equiv> 11"

section \<open>Creation\<close>

text \<open>
  The state when the new thread has released its creator: the handler is installed, \<open>SIGPTHD\<close> is not
  blocked, the thread is about to sleep.
\<close>

definition spthread_start :: spthread where
  "spthread_start = \<lparr>meta_state = SPTHREAD_SUSPENDED_STATE, frames = [Suspend_top To_routine],
     sig_blocked = False, sig_pending = None, sender = Send_idle, call = 0, args = None, returned = None\<rparr>"

record create_host =
  ch_malloc_meta :: bool
  ch_malloc_args :: bool
  ch_mutex_init :: bool
  ch_cond_init :: bool
  ch_pthread_create :: int

text \<open>
  \<^term>\<open>None\<close> is a call that does not return: when \<open>pthread_create\<close> fails there is no thread that would
  set \<open>setup_done\<close>, and the loop on the condition variable never ends.
\<close>

definition spthread_create :: "create_host \<Rightarrow> (int \<times> spthread option) option" where
  "spthread_create h =
     (if \<not> ch_malloc_meta h then Some (EAGAIN, None)
      else if \<not> ch_malloc_args h then Some (EAGAIN, None)
      else if \<not> ch_mutex_init h then Some (EAGAIN, None)
      else if \<not> ch_cond_init h then Some (EAGAIN, None)
      else if ch_pthread_create h \<noteq> 0 then None
      else Some (0, Some spthread_start))"

section \<open>The sender\<close>

definition set_args :: "(spthread_signal_args \<Rightarrow> spthread_signal_args) \<Rightarrow> spthread \<Rightarrow> spthread" where
  "set_args f s = s\<lparr>args := map_option f (args s)\<rparr>"

definition mutex_free :: "spthread \<Rightarrow> bool" where
  "mutex_free s = (case args s of None \<Rightarrow> False | Some a \<Rightarrow> shutup_mutex a = Nobody)"

definition lock :: "holder \<Rightarrow> spthread \<Rightarrow> spthread" where
  "lock w = set_args (\<lambda>a. a\<lparr>shutup_mutex := w\<rparr>)"

definition ended :: "spthread \<Rightarrow> bool" where
  "ended s \<longleftrightarrow> frames s = [Exited]"

text \<open>
  \<open>spthread_suspend\<close> and \<open>spthread_continue\<close> by another thread, up to the waiting loop. They differ in the
  signal, and in that the first sleeps before it looks for the acknowledgement.
\<close>

definition send :: "sp_signal \<Rightarrow> spthread \<Rightarrow> spthread option" where
  "send sig s =
     (if sender s \<noteq> Send_idle then None
      else if ended s then Some (s\<lparr>returned := Some (sig, ESRCH)\<rparr>)
      else Some (s\<lparr>call := call s + 1,
                   args := Some \<lparr>sa_signal = sig, ack = False, shutup_mutex = Nobody\<rparr>,
                   sig_pending := (case sig_pending s of None \<Rightarrow> Some (call s + 1) | Some n \<Rightarrow> Some n),
                   sender := Send_lock\<rparr>))"

definition spthread_suspend :: "spthread \<Rightarrow> spthread option" where
  "spthread_suspend = send SPTHREAD_SIG_SUSPEND"

definition spthread_continue :: "spthread \<Rightarrow> spthread option" where
  "spthread_continue = send SPTHREAD_SIG_CONTINUE"

text \<open>The end of the call: the argument structure is destroyed and 0 returned.\<close>

definition send_return :: "spthread \<Rightarrow> spthread" where
  "send_return s = s\<lparr>sender := Send_idle, args := None,
     returned := (case args s of None \<Rightarrow> None | Some a \<Rightarrow> Some (sa_signal a, 0))\<rparr>"

definition send_step :: "spthread \<Rightarrow> sp_result" where
  "send_step s =
     (case sender s of
        Send_idle \<Rightarrow> Blocked
      | Send_lock \<Rightarrow> if mutex_free s then Next (lock Sender (s\<lparr>sender := Send_test\<rparr>)) else Blocked
      | Send_test \<Rightarrow>
          (case args s of
             None \<Rightarrow> Fault
           | Some a \<Rightarrow> if ack a then Next (send_return s) else Next (lock Nobody (s\<lparr>sender := Send_nap\<rparr>)))
      | Send_nap \<Rightarrow> if mutex_free s then Next (lock Sender (s\<lparr>sender := Send_check\<rparr>)) else Blocked
      | Send_check \<Rightarrow>
          if meta_state s = SPTHREAD_TERMINATED_STATE then Next (send_return s)
          else Next (s\<lparr>sender := Send_test\<rparr>))"

section \<open>The thread\<close>

definition sig_masked :: "spthread \<Rightarrow> bool" where
  "sig_masked s =
     (case frames s of
        [] \<Rightarrow> True
      | f # _ \<Rightarrow> (case f of
          Suspend_wait _ \<Rightarrow> False
        | Suspend_top To_interrupted \<Rightarrow> True
        | Suspend_test To_interrupted \<Rightarrow> True
        | Handler _ \<Rightarrow> True
        | Handler_locked _ \<Rightarrow> True
        | Exited \<Rightarrow> True
        | _ \<Rightarrow> sig_blocked s))"

text \<open>Delivery of the pending signal; \<open>sigsuspend\<close> returns after the handler.\<close>

definition deliver :: "spthread \<Rightarrow> spthread option" where
  "deliver s =
     (case sig_pending s of
        None \<Rightarrow> None
      | Some n \<Rightarrow>
          if sig_masked s then None
          else Some (s\<lparr>sig_pending := None,
                       frames := Handler n # (case frames s of Suspend_wait r # fs \<Rightarrow> Suspend_test r # fs | fs \<Rightarrow> fs)\<rparr>))"

text \<open>What the routine of the thread may do.\<close>

datatype sp_action = Compute | Suspend_self | Continue_self | Disable_interrupts | Enable_interrupts | Finish

definition spthread_suspend_self :: "spthread \<Rightarrow> spthread" where
  "spthread_suspend_self s = s\<lparr>meta_state := SPTHREAD_SUSPENDED_STATE, frames := Suspend_top To_caller # frames s\<rparr>"

definition spthread_disable_interrupts_self :: "spthread \<Rightarrow> spthread" where
  "spthread_disable_interrupts_self s = s\<lparr>sig_blocked := True\<rparr>"

definition spthread_enable_interrupts_self :: "spthread \<Rightarrow> spthread" where
  "spthread_enable_interrupts_self s = s\<lparr>sig_blocked := False\<rparr>"

fun routine_step :: "sp_action \<Rightarrow> spthread \<Rightarrow> spthread" where
  "routine_step Compute s = s"
| "routine_step Suspend_self s = spthread_suspend_self s"
| "routine_step Continue_self s = s\<lparr>meta_state := SPTHREAD_RUNNING_STATE\<rparr>"
| "routine_step Disable_interrupts s = spthread_disable_interrupts_self s"
| "routine_step Enable_interrupts s = spthread_enable_interrupts_self s"
| "routine_step Finish s = s\<lparr>frames := [Exit_mask]\<rparr>"

text \<open>The three parts of the suspension loop.\<close>

definition suspend_loop :: "frame \<Rightarrow> frame list \<Rightarrow> spthread \<Rightarrow> sp_result" where
  "suspend_loop f fs s =
     (case f of
        Suspend_top r \<Rightarrow> Next (s\<lparr>frames := Suspend_wait r # fs\<rparr>)
      | Suspend_test r \<Rightarrow>
          if meta_state s = SPTHREAD_SUSPENDED_STATE then Next (s\<lparr>frames := Suspend_top r # fs\<rparr>)
          else Next (s\<lparr>frames := (if r = To_routine then Routine # fs else fs)\<rparr>)
      | _ \<Rightarrow> Blocked)"

definition sigpthd_handler :: "nat \<Rightarrow> frame list \<Rightarrow> spthread \<Rightarrow> sp_result" where
  "sigpthd_handler n fs s =
     (if args s = None \<or> call s \<noteq> n then Fault
      else if mutex_free s then Next (lock Receiver (s\<lparr>frames := Handler_locked n # fs\<rparr>)) else Blocked)"

definition sigpthd_handler_locked :: "nat \<Rightarrow> frame list \<Rightarrow> spthread \<Rightarrow> sp_result" where
  "sigpthd_handler_locked n fs s =
     (case args s of
        None \<Rightarrow> Fault
      | Some a \<Rightarrow>
          if call s \<noteq> n then Fault
          else if sa_signal a = SPTHREAD_SIG_SUSPEND then
            Next (set_args (\<lambda>a. a\<lparr>ack := True, shutup_mutex := Nobody\<rparr>)
              (s\<lparr>meta_state := SPTHREAD_SUSPENDED_STATE, frames := Suspend_top To_interrupted # fs\<rparr>))
          else
            Next (set_args (\<lambda>a. a\<lparr>ack := True, shutup_mutex := Nobody\<rparr>)
              (s\<lparr>meta_state := SPTHREAD_RUNNING_STATE, frames := fs\<rparr>)))"

text \<open>The clean-up routine at the end of a thread: block the signal, then set the state.\<close>

definition mark_self_terminated :: "frame \<Rightarrow> spthread \<Rightarrow> sp_result" where
  "mark_self_terminated f s =
     (case f of
        Exit_mask \<Rightarrow> Next (s\<lparr>sig_blocked := True, frames := [Exit_state]\<rparr>)
      | Exit_state \<Rightarrow> Next (s\<lparr>meta_state := SPTHREAD_TERMINATED_STATE, frames := [Exited]\<rparr>)
      | _ \<Rightarrow> Blocked)"

definition thread_step :: "sp_action \<Rightarrow> spthread \<Rightarrow> sp_result" where
  "thread_step act s =
     (case frames s of
        [] \<Rightarrow> Blocked
      | f # fs \<Rightarrow> (case f of
          Suspend_top _ \<Rightarrow> suspend_loop f fs s
        | Suspend_wait _ \<Rightarrow> Blocked
        | Suspend_test _ \<Rightarrow> suspend_loop f fs s
        | Routine \<Rightarrow> Next (routine_step act s)
        | Exit_mask \<Rightarrow> mark_self_terminated f s
        | Exit_state \<Rightarrow> mark_self_terminated f s
        | Exited \<Rightarrow> Blocked
        | Handler n \<Rightarrow> sigpthd_handler n fs s
        | Handler_locked n \<Rightarrow> sigpthd_handler_locked n fs s))"

section \<open>Steps\<close>

text \<open>The steps of a thread without its sender, and of both.\<close>

inductive sp_own :: "spthread \<Rightarrow> spthread \<Rightarrow> bool" where
  own: "thread_step act s = Next s' \<Longrightarrow> sp_own s s'"
| signal: "deliver s = Some s' \<Longrightarrow> sp_own s s'"

inductive sp_step :: "spthread \<Rightarrow> spthread \<Rightarrow> bool" where
  thread: "sp_own s s' \<Longrightarrow> sp_step s s'"
| send: "send sig s = Some s' \<Longrightarrow> sp_step s s'"
| wait: "send_step s = Next s' \<Longrightarrow> sp_step s s'"

inductive sp_reach :: "spthread \<Rightarrow> bool" where
  start: "sp_reach spthread_start"
| step: "sp_reach s \<Longrightarrow> sp_step s s' \<Longrightarrow> sp_reach s'"

text \<open>
  The scheduler with all threads: \<open>_run_next_process\<close> continues a thread, waits for the timer and
  suspends the thread, while every thread may take its own steps at any time.
\<close>

datatype turn = Choosing | Continuing nat | In_quantum nat | Suspending nat

record sp_system =
  threads :: "nat \<Rightarrow> spthread"
  turn :: turn

inductive system_step :: "sp_system \<Rightarrow> sp_system \<Rightarrow> bool" where
  any_thread: "sp_own (threads y t) s \<Longrightarrow> system_step y (y\<lparr>threads := (threads y)(t := s)\<rparr>)"
| choose: "turn y = Choosing \<Longrightarrow> spthread_continue (threads y t) = Some s \<Longrightarrow>
    system_step y (y\<lparr>threads := (threads y)(t := s), turn := Continuing t\<rparr>)"
| continuing: "turn y = Continuing t \<Longrightarrow> send_step (threads y t) = Next s \<Longrightarrow>
    system_step y (y\<lparr>threads := (threads y)(t := s)\<rparr>)"
| continued: "turn y = Continuing t \<Longrightarrow> sender (threads y t) = Send_idle \<Longrightarrow>
    system_step y (y\<lparr>turn := In_quantum t\<rparr>)"
| alarm: "turn y = In_quantum t \<Longrightarrow> spthread_suspend (threads y t) = Some s \<Longrightarrow>
    system_step y (y\<lparr>threads := (threads y)(t := s), turn := Suspending t\<rparr>)"
| suspending: "turn y = Suspending t \<Longrightarrow> send_step (threads y t) = Next s \<Longrightarrow>
    system_step y (y\<lparr>threads := (threads y)(t := s)\<rparr>)"
| suspended: "turn y = Suspending t \<Longrightarrow> sender (threads y t) = Send_idle \<Longrightarrow>
    system_step y (y\<lparr>turn := Choosing\<rparr>)"

definition system_start :: sp_system where
  "system_start = \<lparr>threads = (\<lambda>_. spthread_start), turn = Choosing\<rparr>"

inductive system_reach :: "sp_system \<Rightarrow> bool" where
  sys_start: "system_reach system_start"
| sys_step: "system_reach y \<Longrightarrow> system_step y y' \<Longrightarrow> system_reach y'"

end
