(* ===== verification/Spthread_Props.thy ===== *)
theory Spthread_Props
  imports Spthread
begin

text \<open>
  The handshake of the suspendable threads: an invariant of a thread with its sender, and what the
  scheduler relies on.
\<close>

section \<open>The invariant\<close>

fun in_handler :: "frame \<Rightarrow> nat option" where
  "in_handler (Handler n) = Some n"
| "in_handler (Handler_locked n) = Some n"
| "in_handler f = None"

fun waits :: "frame \<Rightarrow> bool" where
  "waits (Suspend_wait r) = True"
| "waits f = False"

fun returns :: "frame \<Rightarrow> bool" where
  "returns (Suspend_top r) = (r \<noteq> To_routine)"
| "returns (Suspend_wait r) = (r \<noteq> To_routine)"
| "returns (Suspend_test r) = (r \<noteq> To_routine)"
| "returns f = (in_handler f \<noteq> None)"

text \<open>
  Only the innermost frame is in a handler or in \<open>sigsuspend\<close>; the outermost one does not return;
  a thread that is ending has no other frame.
\<close>

definition stack_inv :: "frame list \<Rightarrow> bool" where
  "stack_inv fs \<longleftrightarrow> fs \<noteq> [] \<and> \<not> returns (last fs) \<and>
     (\<forall>f\<in>set (tl fs). in_handler f = None \<and> \<not> waits f \<and> f \<noteq> Exit_state \<and> f \<noteq> Exited)"

definition term_inv :: "spthread \<Rightarrow> bool" where
  "term_inv s \<longleftrightarrow> (Exit_state \<in> set (frames s) \<longrightarrow> sig_blocked s) \<and>
     (meta_state s = SPTHREAD_TERMINATED_STATE \<longleftrightarrow> ended s)"

text \<open>
  While a call is in progress its argument structure exists and the mutex is held by the one that
  is between locking and unlocking. Until it is acknowledged the signal is pending or being
  handled, and the handler has the pointer of this call.
\<close>

definition handled :: "spthread \<Rightarrow> nat option" where
  "handled s = in_handler (hd (frames s))"

definition call_inv :: "spthread \<Rightarrow> bool" where
  "call_inv s \<longleftrightarrow>
     (case args s of
        None \<Rightarrow> sender s = Send_idle \<and> handled s = None \<and> (sig_pending s = None \<or> ended s)
      | Some a \<Rightarrow>
          sender s \<noteq> Send_idle \<and>
          (shutup_mutex a = Sender \<longleftrightarrow> sender s = Send_test \<or> sender s = Send_check) \<and>
          (shutup_mutex a = Receiver \<longleftrightarrow> hd (frames s) = Handler_locked (call s)) \<and>
          (handled s = None \<or> handled s = Some (call s) \<and> \<not> ack a \<and> sig_pending s = None) \<and>
          (sig_pending s = None \<or> sig_pending s = Some (call s) \<and> \<not> ack a) \<and>
          (ack a \<or> sig_pending s = Some (call s) \<or> handled s = Some (call s)))"

text \<open>The thread is suspended: it is in the loop, and no step of its own leads out of it.\<close>

definition parked :: "spthread \<Rightarrow> bool" where
  "parked s \<longleftrightarrow> meta_state s = SPTHREAD_SUSPENDED_STATE \<and>
     (\<exists>r. hd (frames s) = Suspend_top r \<or> hd (frames s) = Suspend_wait r)"

definition suspend_done :: "spthread \<Rightarrow> bool" where
  "suspend_done s \<longleftrightarrow>
     (case args s of
        None \<Rightarrow> returned s = None \<or> (\<exists>r. returned s = Some (SPTHREAD_SIG_SUSPEND, r))
      | Some a \<Rightarrow> ack a \<and> sa_signal a = SPTHREAD_SIG_SUSPEND)"

definition sp_inv :: "spthread \<Rightarrow> bool" where
  "sp_inv s \<longleftrightarrow> stack_inv (frames s) \<and> term_inv s \<and> call_inv s \<and> (suspend_done s \<longrightarrow> parked s \<or> ended s)"

lemmas sp_defs = sp_inv_def stack_inv_def term_inv_def call_inv_def parked_def suspend_done_def handled_def ended_def

lemma sp_inv_start: "sp_inv spthread_start"
  by (simp add: sp_defs spthread_start_def)

lemma stack_inv_Cons: "stack_inv (f # g # fs) \<Longrightarrow> stack_inv (g # fs) \<and> in_handler g = None"
  by (auto simp: stack_inv_def)

lemma sp_invI: "stack_inv (frames s) \<Longrightarrow> term_inv s \<Longrightarrow> call_inv s \<Longrightarrow> (suspend_done s \<Longrightarrow> parked s \<or> ended s) \<Longrightarrow> sp_inv s"
  by (simp add: sp_inv_def)

lemma sp_invD:
  assumes "sp_inv s"
  shows "stack_inv (frames s)" "term_inv s" "call_inv s" "suspend_done s \<Longrightarrow> parked s \<or> ended s"
  using assms by (auto simp: sp_inv_def)

lemma idle_args: "call_inv s \<Longrightarrow> sender s = Send_idle \<longleftrightarrow> args s = None"
  by (cases "args s") (auto simp: call_inv_def)

lemma send_inv:
  assumes i: "sp_inv s" and s': "send sig s = Some s'"
  shows "sp_inv s'"
proof -
  note d = sp_invD [OF i]
  have a: "args s = None" using s' idle_args [OF d(3)] by (auto simp: send_def split: if_splits)
  show ?thesis
  proof (cases "ended s")
    case True
    then have "s' = s\<lparr>returned := Some (sig, ESRCH)\<rparr>" using s' by (simp add: send_def split: if_splits)
    then show ?thesis using d a True by (intro sp_invI) (simp_all add: term_inv_def call_inv_def handled_def ended_def)
  next
    case False
    then have n: "sig_pending s = None" "handled s = None" using d(3) a by (auto simp: call_inv_def)
    then have "s' = s\<lparr>call := call s + 1, args := Some \<lparr>sa_signal = sig, ack = False, shutup_mutex = Nobody\<rparr>,
        sig_pending := Some (call s + 1), sender := Send_lock\<rparr>"
      using s' False by (simp add: send_def split: if_splits)
    moreover have "hd (frames s) \<noteq> Handler_locked k" for k using n(2) by (auto simp: handled_def)
    ultimately show ?thesis
      using d n by (intro sp_invI) (simp_all add: term_inv_def call_inv_def handled_def ended_def suspend_done_def)
  qed
qed

text \<open>A step of the sender that only moves the mutex between the sender and nobody.\<close>

lemma sender_moves:
  assumes i: "sp_inv s" and a: "args s = Some a" and m: "shutup_mutex a \<noteq> Receiver"
    and p: "p \<noteq> Send_idle" "w = (if p = Send_test \<or> p = Send_check then Sender else Nobody)"
  shows "sp_inv (s\<lparr>sender := p, args := Some (a\<lparr>shutup_mutex := w\<rparr>)\<rparr>)"
proof -
  note d = sp_invD [OF i]
  have "hd (frames s) \<noteq> Handler_locked (call s)" "w \<noteq> Receiver" using d(3) a m p(2) by (auto simp: call_inv_def)
  moreover have "suspend_done (s\<lparr>sender := p, args := Some (a\<lparr>shutup_mutex := w\<rparr>)\<rparr>) = suspend_done s"
    using a by (simp add: suspend_done_def)
  ultimately show ?thesis
    using d a p by (intro sp_invI) (simp_all add: term_inv_def call_inv_def handled_def ended_def parked_def)
qed

lemma send_return_inv:
  assumes i: "sp_inv s" and a: "args s = Some a" and m: "shutup_mutex a = Sender" and r: "ack a \<or> ended s"
  shows "sp_inv (send_return s)"
proof -
  note d = sp_invD [OF i]
  have h: "handled s = None"
  proof (cases "ended s")
    case False
    then show ?thesis using d(3) a r by (auto simp: call_inv_def)
  qed (simp add: handled_def ended_def)
  have p: "sig_pending s = None \<or> ended s" using d(3) a r by (auto simp: call_inv_def)
  have "suspend_done s \<or> ended s" if "suspend_done (send_return s)"
    using that a r by (auto simp: suspend_done_def send_return_def)
  then show ?thesis
    using d h p a by (intro sp_invI) (auto simp: send_return_def term_inv_def call_inv_def handled_def ended_def parked_def)
qed

lemma send_step_inv:
  assumes i: "sp_inv s" and s': "send_step s = Next s'"
  shows "sp_inv s'"
proof -
  note d = sp_invD [OF i]
  obtain a where a: "args s = Some a"
    using s' idle_args [OF d(3)] by (cases "args s") (auto simp: send_step_def)
  have m: "shutup_mutex a = Sender \<longleftrightarrow> sender s = Send_test \<or> sender s = Send_check"
    "meta_state s = SPTHREAD_TERMINATED_STATE \<longleftrightarrow> ended s"
    using d(2,3) a by (auto simp: call_inv_def term_inv_def)
  have eq: "lock w (s\<lparr>sender := p\<rparr>) = s\<lparr>sender := p, args := Some (a\<lparr>shutup_mutex := w\<rparr>)\<rparr>" for w p
    using a by (simp add: lock_def set_args_def)
  have same: "s\<lparr>sender := Send_test\<rparr> = s\<lparr>sender := Send_test, args := Some (a\<lparr>shutup_mutex := Sender\<rparr>)\<rparr>"
    if "shutup_mutex a = Sender" using a that by (cases s; cases a) simp
  show ?thesis
  proof (cases "sender s")
    case Send_idle
    then show ?thesis using s' by (simp add: send_step_def)
  next
    case Send_lock
    then show ?thesis using s' a sender_moves [OF i a, of Send_test] by (auto simp: send_step_def mutex_free_def eq split: if_splits)
  next
    case Send_test
    then show ?thesis
      using s' a m sender_moves [OF i a, of Send_nap] send_return_inv [OF i a]
      by (auto simp: send_step_def eq split: if_splits)
  next
    case Send_nap
    then show ?thesis using s' a sender_moves [OF i a, of Send_check] by (auto simp: send_step_def mutex_free_def eq split: if_splits)
  next
    case Send_check
    then have sm: "shutup_mutex a = Sender" using m by simp
    have "sp_inv (s\<lparr>sender := Send_test, args := Some (a\<lparr>shutup_mutex := Sender\<rparr>)\<rparr>)"
      by (rule sender_moves [OF i a]) (simp_all add: sm)
    then have "sp_inv (s\<lparr>sender := Send_test\<rparr>)" by (simp only: same [OF sm, symmetric])
    then show ?thesis
      using s' Send_check sm m send_return_inv [OF i a] by (auto simp: send_step_def split: if_splits)
  qed
qed

section \<open>Steps of the thread\<close>

lemma call_inv_frames:
  assumes "call_inv s" "handled s = None" "in_handler (hd fs) = None" "ended s \<Longrightarrow> fs = [Exited]"
  shows "call_inv (s\<lparr>frames := fs\<rparr>)"
proof -
  have "hd (frames s) \<noteq> Handler_locked k" "hd fs \<noteq> Handler_locked k" for k
    using assms(2,3) by (auto simp: handled_def)
  then show ?thesis
    using assms by (cases "args s") (auto simp: call_inv_def handled_def ended_def)
qed

text \<open>A step outside the handler, by a thread that is not suspended by its sender.\<close>

lemma plain_step_inv:
  assumes i: "sp_inv s" and h: "handled s = None" "in_handler (hd fs) = None" and nd: "\<not> suspend_done s" and ne: "\<not> ended s"
    and fs: "stack_inv fs" "fs \<noteq> [Exited]" "Exit_state \<in> set fs \<Longrightarrow> b" and m: "m \<noteq> SPTHREAD_TERMINATED_STATE"
  shows "sp_inv (s\<lparr>frames := fs, meta_state := m, sig_blocked := b\<rparr>)"
proof -
  note d = sp_invD [OF i]
  have c: "call_inv (s\<lparr>frames := fs\<rparr>)" using call_inv_frames [OF d(3) h] ne by auto
  have "call_inv (s\<lparr>frames := fs, meta_state := m, sig_blocked := b\<rparr>)"
    using c by (simp add: call_inv_def handled_def ended_def cong: option.case_cong)
  moreover have "\<not> suspend_done (s\<lparr>frames := fs, meta_state := m, sig_blocked := b\<rparr>)"
    using nd by (simp add: suspend_done_def cong: option.case_cong)
  ultimately show ?thesis using fs m by (intro sp_invI) (simp_all add: term_inv_def ended_def)
qed

lemma suspend_top_inv:
  assumes i: "sp_inv s" and f: "frames s = Suspend_top r # fs"
  shows "sp_inv (s\<lparr>frames := Suspend_wait r # fs\<rparr>)"
proof -
  note d = sp_invD [OF i]
  have "stack_inv (Suspend_wait r # fs)" using d(1) f by (cases fs) (auto simp: stack_inv_def)
  moreover have "call_inv (s\<lparr>frames := Suspend_wait r # fs\<rparr>)"
    by (rule call_inv_frames [OF d(3)]) (simp_all add: handled_def ended_def f)
  moreover have "term_inv (s\<lparr>frames := Suspend_wait r # fs\<rparr>)" using d(2) f by (simp add: term_inv_def ended_def)
  moreover have "parked (s\<lparr>frames := Suspend_wait r # fs\<rparr>)" if "suspend_done (s\<lparr>frames := Suspend_wait r # fs\<rparr>)"
    using that d(4) f by (simp add: suspend_done_def parked_def ended_def cong: option.case_cong)
  ultimately show ?thesis by (intro sp_invI) auto
qed

text \<open>Outside the suspension loop the thread is not one whose suspension has been acknowledged.\<close>

lemma not_suspended:
  assumes "sp_inv s" "frames s = f # fs" "f \<noteq> Exited" "\<forall>r. f \<noteq> Suspend_top r \<and> f \<noteq> Suspend_wait r"
  shows "\<not> suspend_done s" "\<not> ended s" "meta_state s \<noteq> SPTHREAD_TERMINATED_STATE"
  using sp_invD(2,4) [OF assms(1)] assms(2-4) by (auto simp: parked_def ended_def term_inv_def)

lemma suspend_test_inv:
  assumes i: "sp_inv s" and f: "frames s = Suspend_test r # fs" and s': "suspend_loop (Suspend_test r) fs s = Next s'"
  shows "sp_inv s'"
proof -
  note d = sp_invD [OF i] and n = not_suspended [OF i f]
  have h: "handled s = None" using f by (simp add: handled_def)
  have st: "stack_inv (Suspend_top r # fs)" "stack_inv (if r = To_routine then Routine # fs else fs)"
    "in_handler (hd (if r = To_routine then Routine # fs else fs)) = None"
    "(if r = To_routine then Routine # fs else fs) \<noteq> [Exited]"
    "Exit_state \<notin> set (if r = To_routine then Routine # fs else fs)"
    using d(1) f by (cases fs; auto simp: stack_inv_def)+
  have same: "s\<lparr>frames := gs\<rparr> = s\<lparr>frames := gs, meta_state := meta_state s, sig_blocked := sig_blocked s\<rparr>" for gs by simp
  show ?thesis
  proof (cases "meta_state s = SPTHREAD_SUSPENDED_STATE")
    case True
    then have e: "s' = s\<lparr>frames := Suspend_top r # fs\<rparr>" using s' by (simp add: suspend_loop_def)
    show ?thesis
      unfolding e by (subst same, rule plain_step_inv [OF i h]) (use n st(1) d(1,2) f in \<open>auto simp: stack_inv_def\<close>)
  next
    case False
    then have e: "s' = s\<lparr>frames := (if r = To_routine then Routine # fs else fs)\<rparr>" using s' by (simp add: suspend_loop_def)
    show ?thesis
      unfolding e by (subst same, rule plain_step_inv [OF i h st(3) _ _ st(2,4)]) (use n st(5) in auto)
  qed
qed

lemma routine_inv:
  assumes i: "sp_inv s" and f: "frames s = Routine # fs"
  shows "sp_inv (routine_step act s)"
proof -
  note d = sp_invD [OF i] and n = not_suspended [OF i f, simplified]
  have h: "handled s = None" using f by (simp add: handled_def)
  have ex: "Exit_state \<notin> set (frames s)" using d(1) f by (auto simp: stack_inv_def)
  have st: "stack_inv (Suspend_top To_caller # frames s)" using d(1) f by (auto simp: stack_inv_def)
  note p = plain_step_inv [OF i h _ n(1,2)]
  show ?thesis
  proof (cases act)
    case Compute then show ?thesis using i by simp
  next
    case Suspend_self
    have eq: "s\<lparr>meta_state := SPTHREAD_SUSPENDED_STATE, frames := Suspend_top To_caller # frames s\<rparr> =
      s\<lparr>frames := Suspend_top To_caller # frames s, meta_state := SPTHREAD_SUSPENDED_STATE, sig_blocked := sig_blocked s\<rparr>" by simp
    show ?thesis
      unfolding Suspend_self routine_step.simps spthread_suspend_self_def
      by (subst eq, rule p [OF _ st]) (use ex in auto)
  next
    case Continue_self
    have eq: "s\<lparr>meta_state := SPTHREAD_RUNNING_STATE\<rparr> =
      s\<lparr>frames := frames s, meta_state := SPTHREAD_RUNNING_STATE, sig_blocked := sig_blocked s\<rparr>" by simp
    show ?thesis unfolding Continue_self routine_step.simps by (subst eq, rule p [OF _ d(1)]) (use ex f in auto)
  next
    case Disable_interrupts
    have eq: "s\<lparr>sig_blocked := True\<rparr> = s\<lparr>frames := frames s, meta_state := meta_state s, sig_blocked := True\<rparr>" by simp
    show ?thesis
      unfolding Disable_interrupts routine_step.simps spthread_disable_interrupts_self_def
      by (subst eq, rule p [OF _ d(1)]) (use f n(3) in auto)
  next
    case Enable_interrupts
    have eq: "s\<lparr>sig_blocked := False\<rparr> = s\<lparr>frames := frames s, meta_state := meta_state s, sig_blocked := False\<rparr>" by simp
    show ?thesis
      unfolding Enable_interrupts routine_step.simps spthread_enable_interrupts_self_def
      by (subst eq, rule p [OF _ d(1)]) (use ex f n(3) in auto)
  next
    case Finish
    have eq: "s\<lparr>frames := [Exit_mask]\<rparr> = s\<lparr>frames := [Exit_mask], meta_state := meta_state s, sig_blocked := sig_blocked s\<rparr>" by simp
    show ?thesis
      unfolding Finish routine_step.simps by (subst eq, rule p) (use n(3) in \<open>auto simp: stack_inv_def\<close>)
  qed
qed

lemma exit_inv:
  assumes i: "sp_inv s" and f: "frames s = f # fs" and s': "mark_self_terminated f s = Next s'"
  shows "sp_inv s'"
proof -
  note d = sp_invD [OF i]
  consider "f = Exit_mask" | "f = Exit_state" using s' by (cases f) (simp_all add: mark_self_terminated_def)
  then show ?thesis
  proof cases
    case 1
    have h: "handled s = None" using f 1 by (simp add: handled_def)
    note n = not_suspended [OF i f, unfolded 1, simplified]
    have e: "s' = s\<lparr>frames := [Exit_state], meta_state := meta_state s, sig_blocked := True\<rparr>"
      using s' 1 by (auto simp: mark_self_terminated_def)
    show ?thesis unfolding e by (rule plain_step_inv [OF i h]) (use n in \<open>auto simp: stack_inv_def\<close>)
  next
    case 2
    have "handled s = None" "\<And>k. hd (frames s) \<noteq> Handler_locked k" using f 2 by (auto simp: handled_def)
    then have "call_inv (s\<lparr>meta_state := SPTHREAD_TERMINATED_STATE, frames := [Exited]\<rparr>)"
      using d(3) by (cases "args s") (auto simp: call_inv_def handled_def ended_def)
    moreover have "s' = s\<lparr>meta_state := SPTHREAD_TERMINATED_STATE, frames := [Exited]\<rparr>"
      using s' 2 by (simp add: mark_self_terminated_def)
    ultimately show ?thesis
      by (intro sp_invI) (simp_all add: stack_inv_def term_inv_def ended_def)
  qed
qed

text \<open>The handler: its pointer is valid, and it leaves the thread parked or where it was.\<close>

lemma handler_args:
  assumes "sp_inv s" "handled s = Some n"
  shows "\<exists>a. args s = Some a \<and> n = call s \<and> \<not> ack a \<and> sig_pending s = None"
  using sp_invD(3) [OF assms(1)] assms(2) by (cases "args s") (auto simp: call_inv_def)

lemma handler_inv:
  assumes i: "sp_inv s" and f: "frames s = Handler n # fs" and s': "sigpthd_handler n fs s = Next s'"
  shows "sp_inv s'"
proof -
  note d = sp_invD [OF i] and n = not_suspended [OF i f, simplified]
  obtain a where a: "args s = Some a" "n = call s" "\<not> ack a" "sig_pending s = None"
    using handler_args [OF i, of n] f by (auto simp: handled_def)
  have m: "shutup_mutex a = Nobody" using s' a by (simp add: sigpthd_handler_def mutex_free_def split: if_splits)
  have e: "s' = s\<lparr>frames := Handler_locked n # fs, args := Some (a\<lparr>shutup_mutex := Receiver\<rparr>)\<rparr>"
    using s' a by (simp add: sigpthd_handler_def lock_def set_args_def split: if_splits)
  have "stack_inv (Handler_locked n # fs)" using d(1) f by (cases fs) (auto simp: stack_inv_def)
  then show ?thesis
    unfolding e using d a m n f
    by (intro sp_invI) (auto simp: term_inv_def call_inv_def handled_def ended_def suspend_done_def)
qed

lemma handler_locked_inv:
  assumes i: "sp_inv s" and f: "frames s = Handler_locked n # fs" and s': "sigpthd_handler_locked n fs s = Next s'"
  shows "sp_inv s'"
proof -
  note d = sp_invD [OF i] and n = not_suspended [OF i f, simplified]
  obtain a where a: "args s = Some a" "n = call s" "\<not> ack a" "sig_pending s = None"
    using handler_args [OF i, of n] f by (auto simp: handled_def)
  have c: "sender s \<noteq> Send_idle" "\<not> (sender s = Send_test \<or> sender s = Send_check)"
    using d(3) a f by (auto simp: call_inv_def)
  have st: "fs \<noteq> []" "stack_inv fs" "in_handler (hd fs) = None" "\<And>k. hd fs \<noteq> Handler_locked k" "fs \<noteq> [Exited]"
    "Exit_state \<notin> set fs" "stack_inv (Suspend_top To_interrupted # fs)"
    using d(1) f by (cases fs; auto simp: stack_inv_def)+
  let ?a = "a\<lparr>ack := True, shutup_mutex := Nobody\<rparr>"
  show ?thesis
  proof (cases "sa_signal a")
    case SPTHREAD_SIG_SUSPEND
    then have e: "s' = s\<lparr>meta_state := SPTHREAD_SUSPENDED_STATE, frames := Suspend_top To_interrupted # fs, args := Some ?a\<rparr>"
      using s' a by (simp add: sigpthd_handler_locked_def set_args_def)
    show ?thesis
      unfolding e using st a c
      by (intro sp_invI) (simp_all add: term_inv_def call_inv_def handled_def ended_def suspend_done_def parked_def)
  next
    case SPTHREAD_SIG_CONTINUE
    then have e: "s' = s\<lparr>meta_state := SPTHREAD_RUNNING_STATE, frames := fs, args := Some ?a\<rparr>"
      using s' a by (simp add: sigpthd_handler_locked_def set_args_def)
    show ?thesis
      unfolding e using st a c SPTHREAD_SIG_CONTINUE
      by (intro sp_invI) (simp_all add: term_inv_def call_inv_def handled_def ended_def suspend_done_def)
  qed
qed

lemma deliver_inv:
  assumes i: "sp_inv s" and s': "deliver s = Some s'"
  shows "sp_inv s'"
proof -
  note d = sp_invD [OF i]
  obtain f fs where f: "frames s = f # fs" using d(1) by (cases "frames s") (auto simp: stack_inv_def)
  let ?fs = "case frames s of Suspend_wait r # fs \<Rightarrow> Suspend_test r # fs | fs \<Rightarrow> fs"
  obtain n where p: "sig_pending s = Some n" "\<not> sig_masked s" "s' = s\<lparr>sig_pending := None, frames := Handler n # ?fs\<rparr>"
    using s' by (auto simp: deliver_def split: option.splits if_splits)
  have ne: "f \<noteq> Exited" "f \<noteq> Exit_state" "in_handler f = None"
    using p(2) d(2) f by (auto simp: sig_masked_def term_inv_def split: frame.splits)
  then have e: "\<not> ended s" "handled s = None" using f by (auto simp: ended_def handled_def)
  obtain a where a: "args s = Some a" "n = call s" "\<not> ack a" "shutup_mutex a \<noteq> Receiver"
    using d(3) p(1) e f ne by (cases "args s") (auto simp: call_inv_def)
  have st: "stack_inv (Handler n # ?fs)" using d(1) f ne by (cases f) (auto simp: stack_inv_def)
  have x: "Exit_state \<in> set (frames s) \<longleftrightarrow> Exit_state \<in> set ?fs" using f by (cases f) auto
  show ?thesis
    unfolding p(3) using st d a e p(1) x
    by (intro sp_invI) (simp_all add: term_inv_def call_inv_def handled_def ended_def suspend_done_def)
qed

lemma sp_own_inv: "sp_own s s' \<Longrightarrow> sp_inv s \<Longrightarrow> sp_inv s'"
proof (induction rule: sp_own.induct)
  case (own act s s')
  then obtain f fs where f: "frames s = f # fs" by (cases "frames s") (auto simp: thread_step_def)
  show ?case
  proof (cases f)
    case (Suspend_top r)
    then have "s' = s\<lparr>frames := Suspend_wait r # fs\<rparr>" using own(1) f by (auto simp: thread_step_def suspend_loop_def)
    then show ?thesis using suspend_top_inv own(2) f Suspend_top by simp
  next
    case (Suspend_test r)
    then show ?thesis using suspend_test_inv [OF own(2)] own(1) f by (simp add: thread_step_def)
  next
    case Routine
    then show ?thesis using routine_inv [OF own(2)] own(1) f by (auto simp: thread_step_def)
  next
    case (Handler n)
    then show ?thesis using handler_inv [OF own(2)] own(1) f by (simp add: thread_step_def)
  next
    case (Handler_locked n)
    then show ?thesis using handler_locked_inv [OF own(2)] own(1) f by (simp add: thread_step_def)
  qed (use exit_inv [OF own(2) f] own(1) f in \<open>simp_all add: thread_step_def\<close>)
next
  case (signal s s')
  then show ?case using deliver_inv by blast
qed

lemma sp_step_inv: "sp_step s s' \<Longrightarrow> sp_inv s \<Longrightarrow> sp_inv s'"
  by (induction rule: sp_step.induct) (auto intro: sp_own_inv send_inv send_step_inv)

lemma sp_reach_inv: "sp_reach s \<Longrightarrow> sp_inv s"
  by (induction rule: sp_reach.induct) (auto intro: sp_inv_start sp_step_inv)

section \<open>The scheduler and its threads\<close>

definition active :: "sp_system \<Rightarrow> nat \<Rightarrow> bool" where
  "active y t \<longleftrightarrow> turn y = Continuing t \<or> turn y = In_quantum t \<or> turn y = Suspending t"

text \<open>The call in progress, or the last one, is \<open>spthread_suspend\<close>.\<close>

definition call_suspends :: "spthread \<Rightarrow> bool" where
  "call_suspends s \<longleftrightarrow>
     (case args s of
        None \<Rightarrow> (\<exists>r. returned s = Some (SPTHREAD_SIG_SUSPEND, r))
      | Some a \<Rightarrow> sa_signal a = SPTHREAD_SIG_SUSPEND)"

definition system_inv :: "sp_system \<Rightarrow> bool" where
  "system_inv y \<longleftrightarrow> (\<forall>t. sp_inv (threads y t) \<and>
     (\<not> active y t \<longrightarrow> sender (threads y t) = Send_idle \<and> suspend_done (threads y t)) \<and>
     (turn y = In_quantum t \<longrightarrow> sender (threads y t) = Send_idle) \<and>
     (turn y = Suspending t \<longrightarrow> call_suspends (threads y t)))"

lemma sp_own_sender:
  assumes "sp_own s s'"
  shows "sender s' = sender s" "returned s' = returned s" "map_option sa_signal (args s') = map_option sa_signal (args s)"
proof -
  have "sender s' = sender s \<and> returned s' = returned s \<and> map_option sa_signal (args s') = map_option sa_signal (args s)"
    using assms
  proof (induction rule: sp_own.induct)
    case (own act s s')
    then show ?case
      by (cases act) (auto simp: thread_step_def suspend_loop_def sigpthd_handler_def sigpthd_handler_locked_def
        mark_self_terminated_def spthread_suspend_self_def spthread_disable_interrupts_self_def
        spthread_enable_interrupts_self_def lock_def set_args_def option.map_comp o_def
        split: list.splits frame.splits if_splits option.splits)
  next
    case (signal s s')
    then show ?case by (auto simp: deliver_def split: option.splits if_splits)
  qed
  then show "sender s' = sender s" "returned s' = returned s" "map_option sa_signal (args s') = map_option sa_signal (args s)"
    by auto
qed

lemma own_idle:
  assumes "sp_own s s'" "sp_inv s" "sender s = Send_idle"
  shows "suspend_done s' = suspend_done s"
proof -
  have "args s = None" using assms(3) idle_args [OF sp_invD(3) [OF assms(2)]] by simp
  then show ?thesis using sp_own_sender [OF assms(1)] by (simp add: suspend_done_def)
qed

lemma own_suspending: "sp_own s s' \<Longrightarrow> call_suspends s' = call_suspends s"
  using sp_own_sender(2,3) [of s s'] by (cases "args s"; cases "args s'") (auto simp: call_suspends_def)

lemma send_suspending: "send SPTHREAD_SIG_SUSPEND s = Some s' \<Longrightarrow> sp_inv s \<Longrightarrow> call_suspends s'"
  using idle_args [OF sp_invD(3), of s] by (auto simp: send_def call_suspends_def split: if_splits)

lemma send_step_suspending:
  assumes "send_step s = Next s'" "call_suspends s" "sp_inv s"
  shows "call_suspends s'"
  using assms(1,2) idle_args [OF sp_invD(3) [OF assms(3)]]
  by (cases "sender s"; cases "args s")
    (auto simp: send_step_def call_suspends_def send_return_def lock_def set_args_def split: if_splits)

lemma suspending_done: "sp_inv s \<Longrightarrow> call_suspends s \<Longrightarrow> sender s = Send_idle \<Longrightarrow> suspend_done s"
  using idle_args [OF sp_invD(3), of s] by (auto simp: call_suspends_def suspend_done_def)

lemma system_step_inv: "system_step y y' \<Longrightarrow> system_inv y \<Longrightarrow> system_inv y'"
proof (induction rule: system_step.induct)
  case (any_thread y t s)
  have i: "sp_inv (threads y t)" using any_thread(2) by (simp add: system_inv_def)
  note o = sp_own_inv [OF any_thread(1) i] sp_own_sender(1) [OF any_thread(1)] own_suspending [OF any_thread(1)]
  show ?case
    using any_thread(2) o own_idle [OF any_thread(1) i] by (auto simp: system_inv_def active_def)
next
  case (choose y t s)
  then show ?case using send_inv by (auto simp: system_inv_def active_def spthread_continue_def)
next
  case (continuing y t s)
  then show ?case using send_step_inv by (auto simp: system_inv_def active_def)
next
  case (continued y t)
  then show ?case by (auto simp: system_inv_def active_def)
next
  case (alarm y t s)
  then show ?case
    using send_inv [of "threads y t"] send_suspending [of "threads y t"]
    by (auto simp: system_inv_def active_def spthread_suspend_def)
next
  case (suspending y t s)
  then have i: "sp_inv (threads y t)" "call_suspends (threads y t)" by (simp_all add: system_inv_def)
  note u = send_step_inv [OF i(1) suspending(2)] send_step_suspending [OF suspending(2) i(2,1)]
  show ?case using suspending(1,3) u by (auto simp: system_inv_def active_def)
next
  case (suspended y t)
  then have "suspend_done (threads y t)" using suspending_done by (simp add: system_inv_def)
  then have "sender (threads y u) = Send_idle \<and> suspend_done (threads y u)" for u
    using suspended by (cases "u = t") (simp_all add: system_inv_def active_def)
  then show ?case using suspended(3) by (simp add: system_inv_def)
qed

lemma system_reach_inv: "system_reach y \<Longrightarrow> system_inv y"
proof (induction rule: system_reach.induct)
  case sys_start
  then show ?case using sp_inv_start
    by (simp add: system_inv_def system_start_def active_def suspend_done_def spthread_start_def)
next
  case (sys_step y y')
  then show ?case using system_step_inv by blast
qed

section \<open>Schedules\<close>

text \<open>A schedule lists who takes each step: the thread, the host that delivers, a new call, the waiting call.\<close>

datatype sp_label = By_thread sp_action | By_delivery | By_call sp_signal | By_sender

fun sp_label_step :: "sp_label \<Rightarrow> spthread \<Rightarrow> spthread option" where
  "sp_label_step (By_thread act) s = (case thread_step act s of Next s' \<Rightarrow> Some s' | _ \<Rightarrow> None)"
| "sp_label_step By_delivery s = deliver s"
| "sp_label_step (By_call sig) s = send sig s"
| "sp_label_step By_sender s = (case send_step s of Next s' \<Rightarrow> Some s' | _ \<Rightarrow> None)"

fun sp_run :: "sp_label list \<Rightarrow> spthread \<Rightarrow> spthread option" where
  "sp_run [] s = Some s"
| "sp_run (l # ls) s = (case sp_label_step l s of None \<Rightarrow> None | Some s' \<Rightarrow> sp_run ls s')"

lemma sp_label_step: "sp_label_step l s = Some s' \<Longrightarrow> sp_step s s'"
  by (cases l) (auto intro: sp_step.intros sp_own.intros split: sp_result.splits)

lemma sp_run_reach: "sp_run ls s = Some s' \<Longrightarrow> sp_reach s \<Longrightarrow> sp_reach s'"
proof (induction ls arbitrary: s)
  case (Cons l ls)
  then obtain u where u: "sp_label_step l s = Some u" "sp_run ls u = Some s'" by (auto split: option.splits)
  show ?case using Cons.IH [OF u(2)] sp_reach.step [OF Cons.prems(2) sp_label_step [OF u(1)]] by blast
qed simp

lemmas sp_exec = thread_step_def suspend_loop_def sigpthd_handler_def sigpthd_handler_locked_def mark_self_terminated_def
  deliver_def sig_masked_def send_def send_step_def send_return_def mutex_free_def lock_def set_args_def ended_def
  spthread_start_def

text \<open>A call is made, its signal is delivered and handled, and the sender finds the acknowledgement.\<close>

abbreviation handshake :: "sp_signal \<Rightarrow> sp_label list" where
  "handshake sig \<equiv> [By_call sig, By_delivery, By_thread Compute, By_thread Compute, By_sender, By_sender]"

section \<open>Properties\<close>

lemma no_fault:
  assumes i: "sp_inv s"
  shows "thread_step act s \<noteq> Fault" "send_step s \<noteq> Fault"
proof -
  obtain f fs where f: "frames s = f # fs" using sp_invD(1) [OF i] by (cases "frames s") (auto simp: stack_inv_def)
  have h: "\<exists>a. args s = Some a \<and> n = call s" if "f = Handler n \<or> f = Handler_locked n" for n
    using handler_args [OF i, of n] that f by (auto simp: handled_def)
  show "thread_step act s \<noteq> Fault"
  proof (cases f)
    case (Handler n)
    then show ?thesis using h f by (auto simp: thread_step_def sigpthd_handler_def)
  next
    case (Handler_locked n)
    then show ?thesis using h f by (auto simp: thread_step_def sigpthd_handler_locked_def split: if_splits)
  qed (simp_all add: f thread_step_def suspend_loop_def mark_self_terminated_def)
  show "send_step s \<noteq> Fault"
    using idle_args [OF sp_invD(3) [OF i]] by (auto simp: send_step_def split: sender.splits option.splits)
qed

lemma sender_progress:
  assumes i: "sp_inv s" and n: "sender s \<noteq> Send_idle" and b: "send_step s = Blocked"
  shows "\<exists>s'. thread_step act s = Next s'"
proof -
  obtain a where a: "args s = Some a" using n idle_args [OF sp_invD(3) [OF i]] by auto
  have "shutup_mutex a \<noteq> Nobody" "sender s = Send_lock \<or> sender s = Send_nap"
    using b n a by (auto simp: send_step_def mutex_free_def split: sender.splits if_splits)
  then have "hd (frames s) = Handler_locked (call s)"
    using sp_invD(3) [OF i] a by (cases "shutup_mutex a") (auto simp: call_inv_def)
  moreover have "frames s \<noteq> []" using sp_invD(1) [OF i] by (simp add: stack_inv_def)
  ultimately have "frames s = Handler_locked (call s) # tl (frames s)" by (metis list.collapse)
  then show ?thesis using a by (subst thread_step_def, cases "frames s") (auto simp: sigpthd_handler_locked_def)
qed

lemma suspended_stays:
  assumes "sp_own\<^sup>*\<^sup>* s s'" "sp_inv s" "sender s = Send_idle" "suspend_done s"
  shows "sp_inv s' \<and> sender s' = Send_idle \<and> suspend_done s'"
  using assms by (induction rule: rtranclp_induct) (auto simp: sp_own_sender(1) own_idle intro: sp_own_inv)

text \<open>
  C8: The handshake of \<open>spthread_suspend\<close> and \<open>spthread_continue\<close>, in every state that the steps of
  a thread, the host and the sender reach in any order. Neither side uses the argument structure of
  the caller after the call has returned. A sender that has to wait for the mutex waits for a handler
  that can take a step. When \<open>spthread_suspend\<close> has returned, the thread is asleep in the suspension loop
  or has ended, and stays so whatever steps of its own it takes.
\<close>

theorem spthread_handshake:
  assumes "sp_reach s"
  shows "thread_step act s \<noteq> Fault \<and> send_step s \<noteq> Fault \<and>
    (sender s \<noteq> Send_idle \<and> send_step s = Blocked \<longrightarrow> (\<exists>s'. thread_step act s = Next s')) \<and>
    (sender s = Send_idle \<and> returned s = Some (SPTHREAD_SIG_SUSPEND, r) \<and> sp_own\<^sup>*\<^sup>* s s' \<longrightarrow> parked s' \<or> ended s')"
proof -
  note i = sp_reach_inv [OF assms]
  have "parked s' \<or> ended s'"
    if h: "sender s = Send_idle" "returned s = Some (SPTHREAD_SIG_SUSPEND, r)" "sp_own\<^sup>*\<^sup>* s s'"
  proof -
    have "suspend_done s" using h(1,2) idle_args [OF sp_invD(3) [OF i]] by (simp add: suspend_done_def)
    then show ?thesis using suspended_stays [OF h(3) i h(1)] sp_invD(4) by blast
  qed
  then show ?thesis using no_fault [OF i] sender_progress [OF i] by blast
qed

text \<open>A thread that has been continued and then suspended in its routine.\<close>

definition suspended_example :: spthread where
  "suspended_example = \<lparr>meta_state = SPTHREAD_SUSPENDED_STATE, frames = [Suspend_top To_interrupted, Routine],
     sig_blocked = False, sig_pending = None, sender = Send_idle, call = 2, args = None,
     returned = Some (SPTHREAD_SIG_SUSPEND, 0)\<rparr>"

lemma suspended_example_reach: "sp_reach suspended_example"
proof (rule sp_run_reach [OF _ sp_reach.start])
  show "sp_run (By_thread Compute # handshake SPTHREAD_SIG_CONTINUE @ By_thread Compute # handshake SPTHREAD_SIG_SUSPEND)
      spthread_start = Some suspended_example"
    by (simp add: suspended_example_def sp_exec)
qed

theorem spthread_handshake_witness:
  "sp_reach suspended_example \<and> returned suspended_example = Some (SPTHREAD_SIG_SUSPEND, 0) \<and>
    thread_step Compute suspended_example \<noteq> Fault \<and> (parked suspended_example \<or> ended suspended_example)"
proof -
  have "sender suspended_example = Send_idle" "returned suspended_example = Some (SPTHREAD_SIG_SUSPEND, 0)"
    by (simp_all add: suspended_example_def)
  then show ?thesis
    using spthread_handshake [OF suspended_example_reach, of Compute 0 suspended_example] suspended_example_reach by blast
qed

text \<open>
  C7: One process runs at a time. In every state that the scheduler and the threads reach, in any
  interleaving of the steps of \<open>_run_next_process\<close> with those of the threads, every thread other than the
  one that the scheduler has continued is asleep in its suspension loop or has ended; in particular no
  thread runs while the scheduler chooses the next process, and no two threads are in their
  routines at once.
\<close>

theorem processes_run_one_at_a_time:
  assumes "system_reach y"
  shows "(\<forall>t. \<not> active y t \<longrightarrow> parked (threads y t) \<or> ended (threads y t)) \<and>
    (turn y = Choosing \<longrightarrow> (\<forall>t. parked (threads y t) \<or> ended (threads y t))) \<and>
    (\<forall>t u. hd (frames (threads y t)) = Routine \<and> hd (frames (threads y u)) = Routine \<longrightarrow> t = u)"
proof -
  note i = system_reach_inv [OF assms]
  have a: "parked (threads y t) \<or> ended (threads y t)" if "\<not> active y t" for t
    using i that sp_invD(4) [of "threads y t"] by (simp add: system_inv_def)
  have r: "active y t" if "hd (frames (threads y t)) = Routine" for t
    using a [of t] that by (force simp: parked_def ended_def)
  have "t = u" if "active y t" "active y u" for t u using that by (auto simp: active_def)
  then show ?thesis using a r by (auto simp: active_def)
qed

lemma system_own:
  assumes "system_reach y" "sp_own\<^sup>*\<^sup>* (threads y t) s"
  shows "system_reach (y\<lparr>threads := (threads y)(t := s)\<rparr>)"
  using assms(2)
proof (induction rule: rtranclp_induct)
  case base
  then show ?case using assms(1) by simp
next
  case (step s s')
  then have "sp_own (threads (y\<lparr>threads := (threads y)(t := s)\<rparr>) t) s'" by simp
  from sys_step [OF step.IH any_thread [OF this]] show ?case by (simp del: fun_upd_apply)
qed

lemma own_run:
  assumes "sp_run ls s = Some s'" "set ls \<subseteq> {By_thread Compute, By_delivery}"
  shows "sp_own\<^sup>*\<^sup>* s s'"
  using assms
proof (induction ls arbitrary: s)
  case (Cons l ls)
  then obtain u where u: "sp_label_step l s = Some u" "sp_run ls u = Some s'" by (auto split: option.splits)
  have "sp_own s u" using u(1) Cons.prems(2) by (auto intro: sp_own.intros split: sp_result.splits)
  then show ?case using Cons.IH [OF u(2)] Cons.prems(2) by (auto intro: converse_rtranclp_into_rtranclp)
qed simp

text \<open>The scheduler has continued the first thread, which runs its routine.\<close>

definition running_thread :: spthread where
  "running_thread = \<lparr>meta_state = SPTHREAD_RUNNING_STATE, frames = [Routine], sig_blocked = False, sig_pending = None,
     sender = Send_idle, call = 1, args = None, returned = Some (SPTHREAD_SIG_CONTINUE, 0)\<rparr>"

definition running_system :: sp_system where
  "running_system = \<lparr>threads = (\<lambda>_. spthread_start)(0 := running_thread), turn = In_quantum 0\<rparr>"

lemma running_system_reach: "system_reach running_system"
proof -
  let ?s = "\<lambda>n. the (sp_run (take n (By_thread Compute # handshake SPTHREAD_SIG_CONTINUE)) spthread_start)"
  let ?y = "\<lambda>s w. \<lparr>threads = (\<lambda>_. spthread_start)(0 := s), turn = w\<rparr>"
  have own: "system_reach (?y s w) \<Longrightarrow> sp_own\<^sup>*\<^sup>* s s' \<Longrightarrow> system_reach (?y s' w)" for s s' w
    using system_own [of "?y s w" 0 s'] by simp
  have "system_reach (?y spthread_start Choosing)" using sys_start by (simp add: system_start_def fun_upd_idem)
  then have "system_reach (?y (?s 1) Choosing)"
    by (rule own [OF _ own_run [of "[By_thread Compute]"]]) (simp_all add: sp_exec)
  from sys_step [OF this choose [of _ 0 "?s 2"]] have "system_reach (?y (?s 2) (Continuing 0))"
    by (simp add: spthread_continue_def sp_exec numeral_2_eq_2)
  then have "system_reach (?y (?s 5) (Continuing 0))"
    by (rule own [OF _ own_run [of "[By_delivery, By_thread Compute, By_thread Compute]"]]) (simp_all add: sp_exec)
  from sys_step [OF this continuing [of _ 0 "?s 6"]] have "system_reach (?y (?s 6) (Continuing 0))"
    by (simp add: sp_exec)
  from sys_step [OF this continuing [of _ 0 "?s 7"]] have "system_reach (?y (?s 7) (Continuing 0))"
    by (simp add: sp_exec)
  from sys_step [OF this continued [of _ 0]] have "system_reach (?y (?s 7) (In_quantum 0))"
    by (simp add: sp_exec)
  then show ?thesis
    unfolding running_system_def
    by (rule own [OF _ own_run [of "[By_thread Compute]"]]) (simp_all add: running_thread_def sp_exec)
qed

theorem processes_run_one_at_a_time_witness:
  "system_reach running_system \<and> hd (frames (threads running_system 0)) = Routine \<and>
    (parked (threads running_system 1) \<or> ended (threads running_system 1))"
proof -
  have "\<not> active running_system 1" by (simp add: active_def running_system_def)
  moreover have "hd (frames (threads running_system 0)) = Routine" by (simp add: running_system_def running_thread_def)
  ultimately show ?thesis using processes_run_one_at_a_time [OF running_system_reach] running_system_reach by blast
qed

text \<open>
  The way of a sleeping thread out of the suspension loop, counted in its own steps: asleep with the
  signal pending, before and inside the critical section of the handler, acknowledged, out.
\<close>

definition woken_frames :: "resume \<Rightarrow> frame list \<Rightarrow> frame list" where
  "woken_frames r fs = (if r = To_routine then Routine # fs else fs)"

definition waking :: "resume \<Rightarrow> frame list \<Rightarrow> bool \<Rightarrow> nat \<Rightarrow> spthread \<Rightarrow> bool" where
  "waking r fs b n t \<longleftrightarrow>
     sig_blocked t = b \<and> meta_state t \<noteq> SPTHREAD_TERMINATED_STATE \<and> (3 \<le> n \<longrightarrow> meta_state t = SPTHREAD_RUNNING_STATE) \<and>
     sig_pending t = (if n = 0 then Some (call t) else None) \<and>
     frames t = (if n = 0 then Suspend_wait r # fs else if n = 1 then Handler (call t) # Suspend_test r # fs
       else if n = 2 then Handler_locked (call t) # Suspend_test r # fs else if n = 3 then Suspend_test r # fs
       else woken_frames r fs) \<and>
     (case args t of
        None \<Rightarrow> 3 \<le> n \<and> sender t = Send_idle \<and> returned t = Some (SPTHREAD_SIG_CONTINUE, 0)
      | Some a \<Rightarrow> sa_signal a = SPTHREAD_SIG_CONTINUE \<and> ack a = (3 \<le> n) \<and> sender t \<noteq> Send_idle)"

lemma waking_own:
  assumes w: "waking r fs b n t" and n: "n < 4"
    and s: "thread_step act t = Next t' \<or> deliver t = Some t'"
  shows "waking r fs b (Suc n) t'"
proof -
  consider "n = 0" | "n = 1" | "n = 2" | "n = 3" using n by force
  then show ?thesis
    using w s
    by cases (auto simp: waking_def woken_frames_def thread_step_def deliver_def sig_masked_def sigpthd_handler_def
        sigpthd_handler_locked_def suspend_loop_def lock_def set_args_def split: option.splits if_splits)
qed

lemma waking_sender:
  assumes w: "waking r fs b n t" and s: "send_step t = Next t'"
  shows "waking r fs b n t'"
proof -
  obtain a where a: "args t = Some a" using w s by (cases "args t") (auto simp: waking_def send_step_def)
  then show ?thesis
    using w s
    by (auto simp: waking_def send_step_def send_return_def lock_def set_args_def split: sender.split_asm if_split_asm)
qed

definition own_count :: "sp_label list \<Rightarrow> nat" where
  "own_count ls = length (filter (\<lambda>l. l \<noteq> By_sender) ls)"

lemma waking_run:
  assumes "sp_run ls u = Some t" and "waking r fs b n u" and "\<And>sig. By_call sig \<notin> set ls" and "n + own_count ls \<le> 4"
  shows "waking r fs b (n + own_count ls) t"
  using assms
proof (induction ls arbitrary: u n)
  case (Cons l ls)
  obtain v where v: "sp_label_step l u = Some v" "sp_run ls v = Some t" using Cons.prems(1) by (auto split: option.splits)
  have nc: "By_call sig \<notin> set ls" "l \<noteq> By_call sig" for sig using Cons.prems(3) [of sig] by auto
  show ?case
  proof (cases "l = By_sender")
    case True
    then have "waking r fs b n v" using v(1) waking_sender [OF Cons.prems(2)] by (auto split: sp_result.split_asm)
    from Cons.IH [OF v(2) this nc(1)] show ?thesis using Cons.prems(4) True by (simp add: own_count_def)
  next
    case False
    have c: "own_count (l # ls) = Suc (own_count ls)" using False by (simp add: own_count_def)
    have "\<exists>act. thread_step act u = Next v \<or> deliver u = Some v"
      using v(1) False nc(2) by (cases l) (auto split: sp_result.split_asm)
    then have "waking r fs b (Suc n) v" using waking_own [OF Cons.prems(2)] Cons.prems(4) c by auto
    from Cons.IH [OF v(2) this nc(1)] show ?thesis using Cons.prems(4) c by simp
  qed
qed (simp add: own_count_def)

text \<open>The mutex, while a call is in progress.\<close>

lemma mutex_cases:
  assumes i: "sp_inv t" and a: "args t = Some a"
  shows "mutex_free t \<longleftrightarrow> sender t \<noteq> Send_test \<and> sender t \<noteq> Send_check \<and> hd (frames t) \<noteq> Handler_locked (call t)"
  using sp_invD(3) [OF i] a by (cases "shutup_mutex a") (auto simp: mutex_free_def call_inv_def)

text \<open>The thread can go on after at most two steps of the sender.\<close>

lemma waking_progress:
  assumes w: "waking r fs b n t" and n: "n < 4" and i: "sp_inv t"
  shows "\<exists>j t' t''. j \<le> 2 \<and> sp_run (replicate j By_sender) t = Some t' \<and> sp_own t' t''"
proof -
  have now: "\<exists>j t' t''. j \<le> 2 \<and> sp_run (replicate j By_sender) t = Some t' \<and> sp_own t' t''" if "sp_own t t''" for t''
    using that by (intro exI [of _ 0]) auto
  consider "n = 0" | "n = 1" | "n = 2" | "n = 3" using n by force
  then show ?thesis
  proof cases
    case 1
    then have "\<exists>t''. deliver t = Some t''" using w by (auto simp: waking_def deliver_def sig_masked_def)
    then show ?thesis using now sp_own.signal by blast
  next
    case 2
    then obtain a where a: "args t = Some a" "\<not> ack a" and f: "frames t = Handler (call t) # Suspend_test r # fs"
      using w by (cases "args t") (auto simp: waking_def)
    have go: "\<exists>t''. sp_own t' t''" if "frames t' = Handler (call t') # Suspend_test r # fs" "mutex_free t'" for t'
    proof -
      have "args t' \<noteq> None" using that(2) by (cases "args t'") (auto simp: mutex_free_def)
      then have "\<exists>t''. thread_step Compute t' = Next t''" using that by (auto simp: thread_step_def sigpthd_handler_def)
      then show ?thesis using sp_own.own by blast
    qed
    have nt: "meta_state t \<noteq> SPTHREAD_TERMINATED_STATE" using w by (simp add: waking_def)
    show ?thesis
    proof (cases "mutex_free t")
      case True
      then show ?thesis using go [OF f] now by blast
    next
      case False
      then consider "sender t = Send_test" | "sender t = Send_check" using mutex_cases [OF i a(1)] f by auto
      then show ?thesis
      proof cases
        case 1
        let ?t = "lock Nobody (t\<lparr>sender := Send_nap\<rparr>)"
        have "sp_run (replicate 1 By_sender) t = Some ?t" using 1 a by (simp add: send_step_def)
        moreover obtain t'' where "sp_own ?t t''"
          using go [of ?t] f a by (auto simp: lock_def set_args_def mutex_free_def)
        ultimately show ?thesis using one_le_numeral by blast
      next
        case 2
        let ?t = "lock Nobody (t\<lparr>sender := Send_nap\<rparr>)"
        have "sp_run (replicate 2 By_sender) t = Some ?t" using 2 a nt by (simp add: send_step_def numeral_2_eq_2)
        moreover obtain t'' where "sp_own ?t t''"
          using go [of ?t] f a by (auto simp: lock_def set_args_def mutex_free_def)
        ultimately show ?thesis by blast
      qed
    qed
  next
    case 3
    then have "\<exists>t''. thread_step Compute t = Next t''"
      using w by (auto simp: waking_def thread_step_def sigpthd_handler_locked_def split: option.split_asm)
    then show ?thesis using now sp_own.own by blast
  next
    case 4
    then have "\<exists>t''. thread_step Compute t = Next t''"
      using w by (auto simp: waking_def thread_step_def suspend_loop_def)
    then show ?thesis using now sp_own.own by blast
  qed
qed

text \<open>Once it is acknowledged the call returns after at most three steps of the sender.\<close>

lemma waking_returns:
  assumes w: "waking r fs b n t" and n: "3 \<le> n" and i: "sp_inv t"
  shows "\<exists>j t'. j \<le> 3 \<and> sp_run (replicate j By_sender) t = Some t' \<and> sender t' = Send_idle \<and>
    returned t' = Some (SPTHREAD_SIG_CONTINUE, 0)"
proof (cases "args t")
  case None
  then show ?thesis using w by (intro exI [of _ 0]) (auto simp: waking_def)
next
  case (Some a)
  have a: "ack a" "sa_signal a = SPTHREAD_SIG_CONTINUE" "sender t \<noteq> Send_idle" "meta_state t \<noteq> SPTHREAD_TERMINATED_STATE"
    using w n Some by (auto simp: waking_def)
  have "handled t = None" using sp_invD(3) [OF i] Some a(1) by (auto simp: call_inv_def)
  then have "hd (frames t) \<noteq> Handler_locked (call t)" by (auto simp: handled_def)
  then have free: "mutex_free t" if "sender t = Send_lock \<or> sender t = Send_nap" using mutex_cases [OF i Some] that by auto
  show ?thesis
  proof (cases "sender t")
    case Send_lock
    then show ?thesis using free a Some
      by (intro exI [of _ 2]) (simp add: numeral_2_eq_2 send_step_def lock_def set_args_def send_return_def)
  next
    case Send_test
    then show ?thesis using a Some by (intro exI [of _ 1]) (simp add: send_step_def send_return_def)
  next
    case Send_nap
    then show ?thesis using free a Some
      by (intro exI [of _ 3]) (simp add: numeral_3_eq_3 send_step_def lock_def set_args_def send_return_def)
  next
    case Send_check
    then show ?thesis using a Some
      by (intro exI [of _ 2]) (simp add: numeral_2_eq_2 send_step_def send_return_def)
  qed (use a in simp)
qed

text \<open>
  C9: A continued thread goes on where it was. A thread sleeps in \<open>sigsuspend\<close> and \<open>spthread_continue\<close> has sent
  its signal. Then, in every interleaving of the steps of the thread and the host with those of the
  waiting call: after four steps of its own the thread is out of the loop, with its
  state set to running, in the interrupted code, in the caller of \<open>spthread_suspend_self\<close>, or at the start
  of its routine. Before that it is never stuck: it can take its next step at
  once or after at most two steps of the call. The call does not return anything but 0, and it returns after at most three steps
  of its own once the thread has acknowledged, which is its third step.
\<close>

theorem continue_wakes:
  assumes "sp_reach s" "sender s = Send_idle" "frames s = Suspend_wait r # fs" "spthread_continue s = Some u"
    and "sp_run ls u = Some t" "\<And>sig. By_call sig \<notin> set ls" "own_count ls \<le> 4"
  shows "(own_count ls = 4 \<longrightarrow> meta_state t = SPTHREAD_RUNNING_STATE \<and> sig_blocked t = sig_blocked s \<and>
      frames t = (if r = To_routine then Routine # fs else fs)) \<and>
    (own_count ls < 4 \<longrightarrow> (\<exists>j t' t''. j \<le> 2 \<and> sp_run (replicate j By_sender) t = Some t' \<and> sp_own t' t'')) \<and>
    (sender t = Send_idle \<longrightarrow> returned t = Some (SPTHREAD_SIG_CONTINUE, 0)) \<and>
    (3 \<le> own_count ls \<longrightarrow> (\<exists>j t'. j \<le> 3 \<and> sp_run (replicate j By_sender) t = Some t' \<and> sender t' = Send_idle \<and>
      returned t' = Some (SPTHREAD_SIG_CONTINUE, 0)))"
proof -
  note i = sp_reach_inv [OF assms(1)]
  have ne: "\<not> ended s" using assms(3) by (simp add: ended_def)
  have nt: "meta_state s \<noteq> SPTHREAD_TERMINATED_STATE" using sp_invD(2) [OF i] ne by (simp add: term_inv_def)
  have "sig_pending s = None" using sp_invD(3) [OF i] assms(2) ne by (cases "args s") (auto simp: call_inv_def)
  then have u: "waking r fs (sig_blocked s) 0 u"
    using assms(2-4) ne nt by (auto simp: spthread_continue_def send_def waking_def)
  have w: "waking r fs (sig_blocked s) (own_count ls) t" using waking_run [OF assms(5) u assms(6)] assms(7) by simp
  have "sp_reach u" using assms(1,4) sp_reach.step sp_step.send by (auto simp: spthread_continue_def)
  then have it: "sp_inv t" using sp_run_reach [OF assms(5)] sp_reach_inv by blast
  have idle: "returned t = Some (SPTHREAD_SIG_CONTINUE, 0)" if "sender t = Send_idle"
    using w that by (cases "args t") (auto simp: waking_def)
  have out: "meta_state t = SPTHREAD_RUNNING_STATE \<and> sig_blocked t = sig_blocked s \<and> frames t = (if r = To_routine then Routine # fs else fs)"
    if "own_count ls = 4" using w that by (auto simp: waking_def woken_frames_def)
  show ?thesis
    by (intro conjI impI) (use out idle waking_progress [OF w _ it] waking_returns [OF w _ it] in blast)+
qed

text \<open>The suspended thread of the example, asleep; the call tests for the acknowledgement before the handler runs.\<close>

theorem continue_wakes_witness:
  "\<exists>s u t. sp_reach s \<and> frames s = [Suspend_wait To_interrupted, Routine] \<and> spthread_continue s = Some u \<and>
    sp_run [By_sender, By_delivery, By_sender, By_thread Compute, By_thread Compute, By_thread Compute] u = Some t \<and>
    frames t = [Routine] \<and> meta_state t = SPTHREAD_RUNNING_STATE"
proof -
  let ?s = "suspended_example\<lparr>frames := [Suspend_wait To_interrupted, Routine]\<rparr>"
  let ?ls = "[By_sender, By_delivery, By_sender, By_thread Compute, By_thread Compute, By_thread Compute]"
  have s: "sp_reach ?s"
    by (rule sp_run_reach [of "[By_thread Compute]", OF _ suspended_example_reach]) (simp add: suspended_example_def sp_exec)
  obtain u where u: "spthread_continue ?s = Some u" by (simp add: spthread_continue_def suspended_example_def sp_exec)
  then have "\<exists>t. sp_run ?ls u = Some t"
    by (auto simp: spthread_continue_def suspended_example_def sp_exec)
  then obtain t where t: "sp_run ?ls u = Some t" by blast
  have "frames t = [Routine] \<and> meta_state t = SPTHREAD_RUNNING_STATE"
    using continue_wakes [OF s _ _ u t, of To_interrupted "[Routine]"] by (simp add: suspended_example_def own_count_def)
  then show ?thesis using s u t by (intro exI [of _ ?s] exI [of _ u] exI [of _ t]) simp
qed

text \<open>
  C10: A wake-up can be lost. A new thread sets its state to suspended before it sleeps; when the
  signal of \<open>spthread_continue\<close> is handled in between, the call returns 0 and the state is running, but
  the thread then sleeps in \<open>sigsuspend\<close> and can take no step of its own. The next suspension and
  continuation let it out.
\<close>

theorem continue_can_be_lost:
  "\<exists>s s'. sp_reach s \<and> sender s = Send_idle \<and> returned s = Some (SPTHREAD_SIG_CONTINUE, 0) \<and>
    meta_state s = SPTHREAD_RUNNING_STATE \<and> frames s = [Suspend_wait To_routine] \<and> (\<nexists>u. sp_own s u) \<and>
    sp_run (handshake SPTHREAD_SIG_SUSPEND @ By_thread Compute # handshake SPTHREAD_SIG_CONTINUE @ [By_thread Compute, By_thread Compute]) s = Some s' \<and>
    frames s' = [Routine]"
proof -
  let ?s = "\<lparr>meta_state = SPTHREAD_RUNNING_STATE, frames = [Suspend_wait To_routine], sig_blocked = False,
    sig_pending = None, sender = Send_idle, call = 1, args = None, returned = Some (SPTHREAD_SIG_CONTINUE, 0)\<rparr>"
  have "sp_run (handshake SPTHREAD_SIG_CONTINUE @ [By_thread Compute]) spthread_start = Some ?s"
    by (simp add: sp_exec)
  then have "sp_reach ?s" by (rule sp_run_reach [OF _ sp_reach.start])
  moreover have "\<not> sp_own ?s u" for u by (simp add: sp_own.simps sp_exec)
  moreover have "\<exists>s'. sp_run (handshake SPTHREAD_SIG_SUSPEND @ By_thread Compute # handshake SPTHREAD_SIG_CONTINUE @
      [By_thread Compute, By_thread Compute]) ?s = Some s' \<and> frames s' = [Routine]"
    by (simp add: sp_exec)
  moreover have "sender ?s = Send_idle" "returned ?s = Some (SPTHREAD_SIG_CONTINUE, 0)"
    "meta_state ?s = SPTHREAD_RUNNING_STATE" "frames ?s = [Suspend_wait To_routine]" by simp_all
  ultimately show ?thesis by blast
qed

end
