(* ===== verification/Proc_Files.thy ===== *)
theory Proc_Files
  imports Commands Sys_Inv Fat_Session
begin

text \<open>
  Files as a process sees them: the system calls of \<^verbatim>\<open>fat_syscalls.c\<close> on the descriptors of the
  running process, composed from the kernel invariant and the sessions of \<open>Fat_Session\<close>. A
  descriptor has its own offset and mode; the offset in the global table is set before each read and
  write and belongs to nobody.
\<close>

section \<open>The running process\<close>

definition runs :: "os \<Rightarrow> addr \<Rightarrow> pcb \<Rightarrow> bool" where
  "runs s u c \<longleftrightarrow> (\<exists>Q C i. kinv (kern s) Q C i \<and> u \<noteq> i) \<and> current_process (kern s) = Some u \<and>
     pcbs (kern s) u = Some c \<and> state c = PROCESS_RUNNING \<and> length (process_fd_table c) = PROCESS_FD_TABLE_SIZE"

text \<open>Calls on files change the descriptor table of the process and the file system.\<close>

definition moved :: "os \<Rightarrow> addr \<Rightarrow> pcb \<Rightarrow> process_fd_entry list \<Rightarrow> fatfs \<Rightarrow> os" where
  "moved s u c t fs = s\<lparr>kern := (kern s)\<lparr>pcbs := (pcbs (kern s))(u \<mapsto> c\<lparr>process_fd_table := t\<rparr>)\<rparr>, fsys := fs\<rparr>"

lemma moved_fsys [simp]: "fsys (moved s u c t fs) = fs"
  by (simp add: moved_def)

lemma moved_moved [simp]: "moved (moved s u c t fs) u (c\<lparr>process_fd_table := t\<rparr>) t' fs' = moved s u c t' fs'"
  by (simp add: moved_def)

lemma moved_same: "runs s u c \<Longrightarrow> moved s u c (process_fd_table c) fs = s\<lparr>fsys := fs\<rparr>"
  by (cases "kern s") (simp add: moved_def runs_def fun_upd_idem)

lemma runs_moved:
  assumes r: "runs s u c" and l: "length t = PROCESS_FD_TABLE_SIZE"
  shows "runs (moved s u c t fs) u (c\<lparr>process_fd_table := t\<rparr>)"
proof -
  obtain Q C i where k: "kinv (kern s) Q C i" "u \<noteq> i" and p: "pcbs (kern s) u = Some c" using r by (auto simp: runs_def)
  have "kinv ((kern s)\<lparr>pcbs := (pcbs (kern s))(u \<mapsto> c\<lparr>process_fd_table := t\<rparr>)\<rparr>) Q C i"
    by (rule kinv_pcb [OF k(1) p]) simp_all
  then have "kinv (kern (moved s u c t fs)) Q C i" by (simp add: moved_def)
  then show ?thesis unfolding runs_def using k(2) r l by (auto simp: moved_def runs_def)
qed

lemma runs_fsys [simp]: "runs (s\<lparr>fsys := fs\<rparr>) u c = runs s u c"
  by (simp add: runs_def)

lemma runs_current:
  assumes "runs s u c"
  shows "current_pcb (kern s) = Some (u, c)" "k_get_current_process (kern s) = Some u" "sched_live (kern s)"
    "k_tcgetpid (kern s) = Some (terminal_controlling_pid (kern s))"
proof -
  obtain Q C i where k: "kinv (kern s) Q C i" using assms by (auto simp: runs_def)
  have c: "current_process (kern s) = Some u" "pcbs (kern s) u = Some c" using assms by (auto simp: runs_def)
  show g: "k_get_current_process (kern s) = Some u" using kinv_get_current [OF k] c(1) by simp
  then show "sched_live (kern s)" by (simp add: k_get_current_process_def split: if_splits)
  then show "k_tcgetpid (kern s) = Some (terminal_controlling_pid (kern s))" by (simp add: k_tcgetpid_def)
  show "current_pcb (kern s) = Some (u, c)" using g c(2) by (simp add: current_pcb_def)
qed

lemma upd_fd_entry_runs:
  assumes "runs s u c" "fd < PROCESS_FD_TABLE_SIZE"
  shows "\<exists>k. upd_fd_entry u (int fd) g (kern s) = Some k \<and>
    s\<lparr>kern := k, fsys := fs\<rparr> = moved s u c ((process_fd_table c)[fd := g (process_fd_table c ! fd)]) fs"
  using assms by (simp add: runs_def upd_fd_entry_def fd_entry_def set_fd_entry_def moved_def)

lemma fd_in_use_runs:
  assumes "runs s u c" "fd < PROCESS_FD_TABLE_SIZE" "pf_in_use (process_fd_table c ! fd)"
  shows "fd_in_use (int fd) c = Some (Some (process_fd_table c ! fd))"
  using assms by (simp add: runs_def fd_in_use_def fd_entry_def)

text \<open>The end of a thread.\<close>

lemma finish_runs:
  assumes "runs s u c"
  shows "\<exists>s'. finish status s = Some (Exited, s') \<and> fsys s' = fsys s \<and> kernel_inv (kern s')"
proof -
  obtain Q C i where k: "kinv (kern s) Q C i" "u \<noteq> i" "current_process (kern s) = Some u" "pcbs (kern s) u = Some c"
    "state c = PROCESS_RUNNING" using assms by (auto simp: runs_def)
  obtain k' where "s_exit status (kern s) = Some (Thread_exited, k')" "kernel_inv k'"
    using s_exit_inv [OF k(1,3,2,4,5)] by blast
  then show ?thesis by (simp add: finish_def on_kern_def)
qed

text \<open>Without an error number \<open>u_perror\<close> prints nothing.\<close>

lemma u_perror_silent: "runs s u c \<Longrightarrow> errnumber c = 0 \<Longrightarrow> u_perror h str s = Some s"
  using runs_current(2) [of s u c] by (simp add: u_perror_def s_get_errno_def runs_def)

section \<open>Opening and closing\<close>

lemma find_spot_from_ok:
  assumes "i \<le> j" "j < i + n" "i + n \<le> length t" "\<not> pf_in_use (t ! j)"
  shows "\<exists>k. find_spot_from t i n = Some k \<and> i \<le> k \<and> k < i + n \<and> \<not> pf_in_use (t ! k)"
  using assms
proof (induction n arbitrary: i)
  case (Suc n)
  show ?case
  proof (cases "pf_in_use (t ! i)")
    case True
    then have "Suc i \<le> j" using Suc.prems by (cases "i = j") auto
    then show ?thesis using Suc.IH [of "Suc i"] Suc.prems True by fastforce
  qed (use Suc.prems in auto)
qed simp

definition opened_fd :: "nat \<Rightarrow> int \<Rightarrow> process_fd_entry" where
  "opened_fd g mode = \<lparr>pf_global_fd = g, pf_offset = 0, pf_mode = u8_of_int mode, pf_in_use = True\<rparr>"

lemma s_open_runs:
  assumes r: "runs s u c" and j: "j < PROCESS_FD_TABLE_SIZE" "\<not> pf_in_use (process_fd_table c ! j)"
    and o: "k_open h f mode (fsys s) = Some (int g, fs)" "g < 65536"
  shows "\<exists>k<PROCESS_FD_TABLE_SIZE. \<not> pf_in_use (process_fd_table c ! k) \<and>
    s_open h f mode s = Some (int k, moved s u c ((process_fd_table c)[k := opened_fd g mode]) fs)"
proof -
  have l: "length (process_fd_table c) = PROCESS_FD_TABLE_SIZE" using r by (simp add: runs_def)
  obtain k where k: "find_spot_from (process_fd_table c) 0 PROCESS_FD_TABLE_SIZE = Some k" "k < PROCESS_FD_TABLE_SIZE"
    "\<not> pf_in_use (process_fd_table c ! k)"
    using find_spot_from_ok [of 0 j PROCESS_FD_TABLE_SIZE "process_fd_table c"] j l by auto
  have e: "e\<lparr>pf_global_fd := u16 (nat (int g)), pf_in_use := True, pf_offset := 0, pf_mode := u8_of_int mode\<rparr> =
    opened_fd g mode" for e :: process_fd_entry using o(2) by (cases e) (simp add: opened_fd_def)
  obtain k' where "upd_fd_entry u (int k) (\<lambda>e. e\<lparr>pf_global_fd := u16 (nat (int g)), pf_in_use := True, pf_offset := 0,
      pf_mode := u8_of_int mode\<rparr>) (kern s) = Some k'"
    "s\<lparr>kern := k', fsys := fs\<rparr> = moved s u c ((process_fd_table c)[k := opened_fd g mode]) fs"
    using upd_fd_entry_runs [OF r k(2), of "\<lambda>e. e\<lparr>pf_global_fd := u16 (nat (int g)), pf_in_use := True, pf_offset := 0,
      pf_mode := u8_of_int mode\<rparr>" fs] unfolding e by blast
  moreover have "s\<lparr>fsys := fs, kern := k'\<rparr> = s\<lparr>kern := k', fsys := fs\<rparr>" by simp
  ultimately show ?thesis
    using o k runs_current(1) [OF r]
    by (intro exI [of _ k]) (simp add: s_open_def on_fsys_def find_empty_spot_in_process_fd_table_def)
qed

lemma s_close_runs:
  assumes r: "runs s u c" and fd: "fd < PROCESS_FD_TABLE_SIZE" "process_fd_table c ! fd = e" "pf_in_use e"
    and cl: "k_close h (int (pf_global_fd e)) (fsys s) = Some (x, fs)"
  shows "s_close h (int fd) s = Some (0, moved s u c ((process_fd_table c)[fd := e\<lparr>pf_in_use := False\<rparr>]) fs)"
proof -
  obtain k where k: "upd_fd_entry u (int fd) (\<lambda>e. e\<lparr>pf_in_use := False\<rparr>) (kern s) = Some k"
    "s\<lparr>kern := k, fsys := fs\<rparr> = moved s u c ((process_fd_table c)[fd := e\<lparr>pf_in_use := False\<rparr>]) fs"
    using upd_fd_entry_runs [OF r fd(1)] fd(2) by blast
  moreover have "s\<lparr>fsys := fs, kern := k\<rparr> = s\<lparr>kern := k, fsys := fs\<rparr>" by simp
  ultimately show ?thesis
    using runs_current(1) [OF r] fd_in_use_runs [OF r fd(1)] fd(2,3) cl by (simp add: s_close_def on_fsys_def)
qed

section \<open>Reading and writing\<close>

text \<open>Changes of the offset and the mode in the global table.\<close>

definition fd_set :: "nat \<Rightarrow> nat \<Rightarrow> nat \<Rightarrow> fatfs \<Rightarrow> fatfs" where
  "fd_set g off m = fd_upd g (\<lambda>e. e\<lparr>fd_offset := off, write_locked := m\<rparr>)"

lemma on_file_fd_set:
  assumes on: "on_file h fs F g f cap"
  shows "on_file h (fd_set g off m fs) F g f cap" "others g f fs (fd_set g off m fs)"
proof -
  have s: "same_on fs (fd_set g off m fs) UNIV" by (simp add: fd_set_def fd_upd_def same_on_def)
  have d: "device_ok (h, fd_set g off m fs)" "ref_count (global_fd_table fs g) = 1"
    using on by (auto simp: on_file_def fd_set_def fd_upd_def)
  show "on_file h (fd_set g off m fs) F g f cap"
    by (rule on_file_same [OF on s d(1)]) (use d(2) in \<open>simp_all add: fd_set_def fd_upd_def fd_slot_def\<close>)
  show "others g f fs (fd_set g off m fs)"
    using keeps_same [OF s] by (simp add: others_def fd_set_def fd_upd_def)
qed

lemma on_file_fd:
  assumes "on_file h fs F g f cap" "F f = Some (perm, d)"
  shows "is_mounted fs" "3 \<le> g" "g < GLOBAL_FD_TABLE_SIZE" "ref_count (global_fd_table fs g) = 1"
    "\<exists>e. ptr_to_dir_entry (global_fd_table fs g) = Some e \<and> de_perm e = perm"
proof -
  obtain bs cf e where v: "device_ok (h, fs)" "3 \<le> g" "g < GLOBAL_FD_TABLE_SIZE" "ref_count (global_fd_table fs g) = 1"
    "files fs bs cf = F" "named fs bs f = Some (fd_slot fs g, e)" "ptr_to_dir_entry (global_fd_table fs g) = Some e"
    using assms(1) unfolding on_file_def by blast
  show "is_mounted fs" using device_okD(2) [OF v(1)] by (simp add: geometry_ok_def)
  show "3 \<le> g" "g < GLOBAL_FD_TABLE_SIZE" "ref_count (global_fd_table fs g) = 1" by fact+
  show "\<exists>e. ptr_to_dir_entry (global_fd_table fs g) = Some e \<and> de_perm e = perm"
    using filesD [of fs bs cf f] assms(2) v(5,6,7) by auto
qed

lemma seek_on:
  assumes on: "on_file h fs F g f cap" "F f = Some (perm, d)" "P_READ_ONLY_FILE_PERMISSION \<le> perm" and off: "off < 2 ^ 31"
  shows "k_lseek (int g) (s32 off) F_SEEK_SET fs = Some (int off, fd_set g off (write_locked (global_fd_table fs g)) fs)"
proof -
  note d = on_file_fd [OF on(1,2)]
  have "s32 off = int off" "u32_of_int (int off) = off" using off by (simp_all add: s32_def u32_of_int_def)
  then show ?thesis
    using d on(3) by (auto simp: k_lseek_def Let_def fd_set_def fd_upd_def)
qed

text \<open>
  A descriptor of the process on a file. A write appends when the mode is \<open>F_APPEND\<close> or the offset is
  the size.
\<close>

definition fd_on :: "process_fd_entry \<Rightarrow> nat \<Rightarrow> nat \<Rightarrow> nat \<Rightarrow> bool" where
  "fd_on e g off m \<longleftrightarrow> pf_in_use e \<and> pf_global_fd e = g \<and> pf_offset e = off \<and> pf_mode e = m"

lemma s_read_on:
  assumes r: "runs s u c" and fd: "fd < PROCESS_FD_TABLE_SIZE" "fd_on (process_fd_table c ! fd) g off m" "off < 2 ^ 31"
    and on: "on_file h (fsys s) F g f cap" "F f = Some (perm, d)" "P_READ_ONLY_FILE_PERMISSION \<le> perm" "length d < 2 ^ 31"
    and p: "p = take n (drop off d)"
  shows "\<exists>fs. s_read h (int fd) (int n) s = Some ((int (length p), p),
      moved s u c ((process_fd_table c)[fd := (process_fd_table c ! fd)\<lparr>pf_offset := off + length p\<rparr>]) fs) \<and>
    on_file h fs F g f cap \<and> others g f (fsys s) fs \<and>
    write_locked (global_fd_table fs g) = write_locked (global_fd_table (fsys s) g) \<and> console fs = console (fsys s) \<and>
    same_on (fsys s) fs UNIV"
proof -
  let ?e = "process_fd_table c ! fd" and ?fs = "fd_set g off (write_locked (global_fd_table (fsys s) g)) (fsys s)"
  note o = on_file_fd_set [OF on(1), of off "write_locked (global_fd_table (fsys s) g)"]
  have off: "fd_offset (global_fd_table ?fs g) = off" by (simp add: fd_set_def fd_upd_def)
  obtain buf where k: "length buf = block_size ?fs" "k_read h (int g) (int n) ?fs = Some ((int (length p), p), after_read g (off + length p) buf ?fs)"
    using read_on [OF o(1) on(2,3), of n] unfolding off p by blast
  let ?fs' = "after_read g (off + length p) buf ?fs"
  have l: "int (pf_offset ?e) + int (length p) < 2 ^ 32" using fd p on(4) by (auto simp: fd_on_def min_def)
  have a: "add_offset (int (length p)) ?e = ?e\<lparr>pf_offset := off + length p\<rparr>"
    using l fd(2) by (simp add: add_offset_def u32_of_int_def fd_on_def nat_add_distrib)
  obtain k' where k': "upd_fd_entry u (int fd) (add_offset (int (length p))) (kern s) = Some k'"
    "s\<lparr>kern := k', fsys := ?fs'\<rparr> = moved s u c ((process_fd_table c)[fd := ?e\<lparr>pf_offset := off + length p\<rparr>]) ?fs'"
    using upd_fd_entry_runs [OF r fd(1), of "add_offset (int (length p))" ?fs'] unfolding a by blast
  have t: "terminal_check h ''read from'' c ?e s = Some s"
    using runs_current(4) [OF r] on_file_fd(2) [OF on(1,2)] fd(2) by (simp add: terminal_check_def fd_on_def)
  have "s_read h (int fd) (int n) s = Some ((int (length p), p), s\<lparr>fsys := ?fs', kern := k'\<rparr>)"
    using runs_current(1) [OF r] fd_in_use_runs [OF r fd(1)] fd(2) t seek_on [OF on(1,2,3) fd(3)] k(2) k'(1)
    by (simp add: s_read_def on_fsys_def fd_on_def)
  moreover have "s\<lparr>fsys := ?fs', kern := k'\<rparr> = s\<lparr>kern := k', fsys := ?fs'\<rparr>" by simp
  moreover have "others g f ?fs ?fs'" using keeps_same [of ?fs ?fs'] by (simp add: others_def same_on_def)
  then have "others g f (fsys s) ?fs'" by (rule others_trans [OF o(2)])
  moreover have "write_locked (global_fd_table ?fs' g) = write_locked (global_fd_table (fsys s) g)" "console ?fs' = console (fsys s)"
    "same_on (fsys s) ?fs' UNIV"
    by (simp_all add: fd_set_def fd_upd_def after_read_def same_on_def)
  ultimately show ?thesis using k'(2) on_file_after_read [OF o(1) k(1)] by metis
qed

text \<open>The mode is set for the write and then set back.\<close>

lemma setmode_on:
  assumes "on_file h fs F g f cap" "F f = Some (perm, d)" "m \<le> 2"
  shows "k_setmode (int g) (int m) fs = Some (0, fd_set g (fd_offset (global_fd_table fs g)) m fs)"
proof -
  note d = on_file_fd [OF assms(1,2)]
  have "int m = F_READ \<or> int m = F_WRITE \<or> int m = F_APPEND" "u8_of_int (int m) = m"
    using assms(3) by (auto simp: u8_of_int_def)
  then show ?thesis using d by (auto simp: k_setmode_def fd_set_def fd_upd_def)
qed

lemma s_write_on:
  assumes r: "runs s u c" and fd: "fd < PROCESS_FD_TABLE_SIZE" "fd_on (process_fd_table c ! fd) g off m" "off < 2 ^ 31" "m \<le> 2"
    and on: "on_file h (fsys s) F g f cap" "F f = Some (perm, d)" "P_READ_ONLY_FILE_PERMISSION \<le> perm" "write_perm perm"
    and e: "m = 2 \<or> off = length d" and w: "write_locked (global_fd_table (fsys s) g) \<le> 2"
    and room: "length d + length str \<le> cap" "off + length str < 2 ^ 31"
  shows "\<exists>fs. s_write h (int fd) str (int (length str)) s = Some (int (length str),
      moved s u c ((process_fd_table c)[fd := (process_fd_table c ! fd)\<lparr>pf_offset := off + length str\<rparr>]) fs) \<and>
    on_file h fs (F(f \<mapsto> (perm, d @ str))) g f cap \<and> others g f (fsys s) fs \<and>
    write_locked (global_fd_table fs g) = write_locked (global_fd_table (fsys s) g)"
proof -
  let ?e = "process_fd_table c ! fd" and ?w = "write_locked (global_fd_table (fsys s) g)"
  let ?fs1 = "fd_set g off ?w (fsys s)" and ?fs2 = "fd_set g off m (fsys s)" and ?F = "F(f \<mapsto> (perm, d @ str))"
  have eq: "fd_set g (fd_offset (global_fd_table ?fs1 g)) m ?fs1 = ?fs2" "write_locked (global_fd_table ?fs1 g) = ?w"
    by (simp_all add: fd_set_def fd_upd_def)
  note o1 = on_file_fd_set [OF on(1), of off ?w] and o2 = on_file_fd_set [OF on(1), of off m]
  have "at_end g ?fs2 (length d)" using e by (auto simp: at_end_def fd_set_def fd_upd_def)
  then obtain fs3 where k: "k_write h (int g) str (int (length str)) ?fs2 = Some (int (length str), fs3)"
    "on_file h fs3 ?F g f cap" "others g f ?fs2 fs3"
    using write_on [OF o2(1) on(2,4) _ room(1)] by blast
  have f: "?F f = Some (perm, d @ str)" by simp
  let ?fs4 = "fd_set g (fd_offset (global_fd_table fs3 g)) ?w fs3"
  note o4 = on_file_fd_set [OF k(2), of "fd_offset (global_fd_table fs3 g)" ?w]
  have a: "add_offset (int (length str)) ?e = ?e\<lparr>pf_offset := off + length str\<rparr>"
    using fd(2) room(2) by (simp add: add_offset_def u32_of_int_def fd_on_def nat_add_distrib)
  obtain k' where k': "upd_fd_entry u (int fd) (add_offset (int (length str))) (kern s) = Some k'"
    "s\<lparr>kern := k', fsys := ?fs4\<rparr> = moved s u c ((process_fd_table c)[fd := ?e\<lparr>pf_offset := off + length str\<rparr>]) ?fs4"
    using upd_fd_entry_runs [OF r fd(1), of "add_offset (int (length str))" ?fs4] unfolding a by blast
  have t: "terminal_check h ''write to'' c ?e s = Some s"
    using runs_current(4) [OF r] on_file_fd(2) [OF on(1,2)] fd(2) by (simp add: terminal_check_def fd_on_def)
  have st: "s32 (u32_of_int (int off)) = int off" using fd(3) by (simp add: s32_def u32_of_int_def)
  have gm: "k_getmode (int g) ?fs1 = Some (int ?w)"
    using on_file_fd [OF o1(1) on(2)] eq(2) by (simp add: k_getmode_def)
  have "s_write h (int fd) str (int (length str)) s = Some (int (length str), s\<lparr>fsys := ?fs4, kern := k'\<rparr>)"
    using runs_current(1) [OF r] fd_in_use_runs [OF r fd(1)] fd(2) t seek_on [OF on(1,2,3) fd(3)] gm st
      setmode_on [OF o1(1) on(2) fd(4)] k(1) setmode_on [OF k(2) f w] k'(1)
    by (simp add: s_write_def on_fsys_def fd_on_def eq Let_def)
  moreover have "s\<lparr>fsys := ?fs4, kern := k'\<rparr> = s\<lparr>kern := k', fsys := ?fs4\<rparr>" by simp
  moreover have "others g f (fsys s) ?fs4" using others_trans [OF others_trans [OF o2(2) k(3)] o4(2)] .
  moreover have "write_locked (global_fd_table ?fs4 g) = ?w" by (simp add: fd_set_def fd_upd_def)
  ultimately show ?thesis using k'(2) o4(1) by metis
qed

text \<open>The same for a process whose table and file system have already changed.\<close>

lemma s_read_moved:
  assumes "runs s u c" "length t = PROCESS_FD_TABLE_SIZE" "fd < PROCESS_FD_TABLE_SIZE" "fd_on (t ! fd) g off m" "off < 2 ^ 31"
    "on_file h fs F g f cap" "F f = Some (perm, d)" "P_READ_ONLY_FILE_PERMISSION \<le> perm" "length d < 2 ^ 31"
  shows "\<exists>fs'. s_read h (int fd) (int n) (moved s u c t fs) = Some ((int (length (take n (drop off d))), take n (drop off d)),
      moved s u c (t[fd := (t ! fd)\<lparr>pf_offset := off + length (take n (drop off d))\<rparr>]) fs') \<and>
    on_file h fs' F g f cap \<and> others g f fs fs' \<and> console fs' = console fs \<and> same_on fs fs' UNIV"
proof -
  have "fd_on (process_fd_table (c\<lparr>process_fd_table := t\<rparr>) ! fd) g off m" "on_file h (fsys (moved s u c t fs)) F g f cap"
    using assms(4,6) by simp_all
  from s_read_on [OF runs_moved [OF assms(1,2)] assms(3) this(1) assms(5) this(2) assms(7,8,9) refl, of n]
  show ?thesis by auto
qed

lemma s_write_moved:
  assumes "runs s u c" "length t = PROCESS_FD_TABLE_SIZE" "fd < PROCESS_FD_TABLE_SIZE" "fd_on (t ! fd) g off m" "off < 2 ^ 31" "m \<le> 2"
    "on_file h fs F g f cap" "F f = Some (perm, d)" "P_READ_ONLY_FILE_PERMISSION \<le> perm" "write_perm perm"
    "m = 2 \<or> off = length d" "write_locked (global_fd_table fs g) \<le> 2" "length d + length str \<le> cap" "off + length str < 2 ^ 31"
  shows "\<exists>fs'. s_write h (int fd) str (int (length str)) (moved s u c t fs) = Some (int (length str),
      moved s u c (t[fd := (t ! fd)\<lparr>pf_offset := off + length str\<rparr>]) fs') \<and>
    on_file h fs' (F(f \<mapsto> (perm, d @ str))) g f cap \<and> others g f fs fs' \<and> write_locked (global_fd_table fs' g) \<le> 2"
proof -
  have "fd_on (process_fd_table (c\<lparr>process_fd_table := t\<rparr>) ! fd) g off m" "on_file h (fsys (moved s u c t fs)) F g f cap"
    "write_locked (global_fd_table (fsys (moved s u c t fs)) g) \<le> 2"
    using assms(4,7,12) by simp_all
  from s_write_on [OF runs_moved [OF assms(1,2)] assms(3) this(1) assms(5,6) this(2) assms(8-11) this(3) assms(13,14)] assms(12)
  show ?thesis by (auto simp del: fun_upd_apply)
qed

lemma s_open_moved:
  assumes r: "runs s u c" "length t = PROCESS_FD_TABLE_SIZE" and j: "j < PROCESS_FD_TABLE_SIZE" "\<not> pf_in_use (t ! j)"
    and o: "k_open h f mode fs = Some (int g, fs')" "g < GLOBAL_FD_TABLE_SIZE"
  shows "\<exists>k<PROCESS_FD_TABLE_SIZE. \<not> pf_in_use (t ! k) \<and>
    s_open h f mode (moved s u c t fs) = Some (int k, moved s u c (t[k := opened_fd g mode]) fs')"
  using s_open_runs [OF runs_moved [OF r, of fs], of j h f mode g fs'] j o by simp

lemma s_close_moved:
  assumes r: "runs s u c" "length t = PROCESS_FD_TABLE_SIZE" and fd: "fd < PROCESS_FD_TABLE_SIZE" "fd_on (t ! fd) g off m"
    and on: "on_file h fs F g f cap"
  shows "s_close h (int fd) (moved s u c t fs) = Some (0, moved s u c (t[fd := (t ! fd)\<lparr>pf_in_use := False\<rparr>]) (closed g fs))"
  using s_close_runs [OF runs_moved [OF r, of fs] fd(1), of "t ! fd" h 0 "closed g fs"] fd(2) close_on(1) [OF on]
  by (simp add: fd_on_def)

text \<open>The permissions with which a process can read and append to a file.\<close>

definition readable :: "nat \<Rightarrow> bool" where
  "readable perm \<longleftrightarrow> \<not> open_denied perm F_READ \<and> P_READ_ONLY_FILE_PERMISSION \<le> perm"

definition writable :: "nat \<Rightarrow> bool" where
  "writable perm \<longleftrightarrow> \<not> open_denied perm F_WRITE \<and> P_READ_ONLY_FILE_PERMISSION \<le> perm \<and> write_perm perm"

end
