(* ===== verification/Proc_Programs.thy ===== *)
theory Proc_Programs
  imports Proc_Files Kernel_Example
begin

text \<open>
  The programs of the shell that copy bytes, run as processes: \<open>cp\<close> from file to file, \<open>cat\<close> from a
  file to the terminal, \<open>echo\<close> to a file. The loops have one contract, the locale \<open>copier\<close>: reads
  return the source piece by piece, writes extend the sink. It is interpreted on the loop of \<open>cp\<close>
  and on the loop of \<open>cat\<close>.
\<close>

section \<open>A loop that copies\<close>

text \<open>\<open>st off w s\<close>: the source \<open>d\<close> has been read up to \<open>off\<close>, the sink has received \<open>w\<close>.\<close>

locale copier =
  fixes rd :: "'s \<Rightarrow> ((int \<times> byte list) \<times> 's) option"
    and wr :: "byte list \<Rightarrow> 's \<Rightarrow> (int \<times> 's) option"
    and loop :: "'s \<Rightarrow> 'r option"
    and result :: "'s \<Rightarrow> 'r"
    and size :: nat
    and st :: "byte list \<Rightarrow> nat \<Rightarrow> byte list \<Rightarrow> 's \<Rightarrow> bool"
  assumes size_pos: "0 < size"
    and rd_ok: "st d off w s \<Longrightarrow> \<exists>s'. rd s = Some ((int (length (take size (drop off d))), take size (drop off d)), s') \<and>
      st d (off + length (take size (drop off d))) w s'"
    and wr_ok: "st d off w s \<Longrightarrow> length (w @ bs) \<le> length d \<Longrightarrow> length bs \<le> size \<Longrightarrow>
      \<exists>s'. wr bs s = Some (int (length bs), s') \<and> st d off (w @ bs) s'"
    and loop_step: "rd s = Some ((n, bs), s') \<Longrightarrow> 0 < n \<Longrightarrow> n = int (length bs) \<Longrightarrow> wr bs s' = Some (n, s'') \<Longrightarrow> loop s = loop s''"
    and loop_end: "rd s = Some ((0, []), s') \<Longrightarrow> loop s = Some (result s')"
begin

lemma copies_from:
  assumes "st d off (take off d) s"
  shows "\<exists>s' off'. loop s = Some (result s') \<and> length d \<le> off' \<and> st d off' d s'"
  using assms
proof (induction "length d - off" arbitrary: off s rule: less_induct)
  case less
  let ?p = "take size (drop off d)"
  obtain s1 where r: "rd s = Some ((int (length ?p), ?p), s1)" "st d (off + length ?p) (take off d) s1"
    using rd_ok [OF less.prems] by blast
  show ?case
  proof (cases "?p = []")
    case True
    then have "length d \<le> off" using size_pos by auto
    then show ?thesis using r True loop_end [of s s1] by auto
  next
    case False
    have w: "take off d @ ?p = take (off + length ?p) d" by (simp add: take_add min_def)
    have "length (take off d @ ?p) \<le> length d" unfolding w by simp
    then obtain s2 where s2: "wr ?p s1 = Some (int (length ?p), s2)" "st d (off + length ?p) (take (off + length ?p) d) s2"
      using wr_ok [OF r(2), of ?p] unfolding w by auto
    have "length d - (off + length ?p) < length d - off" using False by auto
    from less.hyps [OF this s2(2)] loop_step [OF r(1) _ refl s2(1)] False show ?thesis by auto
  qed
qed

lemma copies: "st d 0 [] s \<Longrightarrow> \<exists>s' off'. loop s = Some (result s') \<and> length d \<le> off' \<and> st d off' d s'"
  using copies_from [of d 0] by simp

end

section \<open>cp\<close>

lemma on_file_reader:
  assumes on: "on_file h fs G sd g cap" and o: "others fd f fs fs'" "same_on fs fs' UNIV" and d: "device_ok (h, fs')" and ne: "sd \<noteq> fd"
  shows "on_file h fs' G sd g cap"
proof -
  have t: "global_fd_table fs' sd = global_fd_table fs sd" using o(1) ne by (simp add: others_def)
  show ?thesis
    by (rule on_file_same [OF on o(2) d]) (use on t in \<open>auto simp: on_file_def fd_slot_def\<close>)
qed

definition cp_state ::
  "host \<Rightarrow> os \<Rightarrow> addr \<Rightarrow> pcb \<Rightarrow> (byte list \<rightharpoonup> nat \<times> byte list) \<Rightarrow> byte list \<Rightarrow> byte list \<Rightarrow> nat \<Rightarrow> nat \<Rightarrow> nat \<Rightarrow> nat \<Rightarrow>
   nat \<Rightarrow> byte list \<Rightarrow> nat \<Rightarrow> byte list \<Rightarrow> os \<Rightarrow> bool" where
  "cp_state h s0 u c F src dst sd dd g1 g2 cap d off w s \<longleftrightarrow>
     runs s0 u c \<and> sd < PROCESS_FD_TABLE_SIZE \<and> dd < PROCESS_FD_TABLE_SIZE \<and> sd \<noteq> dd \<and> g1 \<noteq> g2 \<and> src \<noteq> dst \<and>
     length d < 2 ^ 31 \<and> length d \<le> cap \<and> off \<le> length d \<and>
     (\<exists>p1 p2 t fs. F src = Some (p1, d) \<and> P_READ_ONLY_FILE_PERMISSION \<le> p1 \<and>
        F dst = Some (p2, []) \<and> P_READ_ONLY_FILE_PERMISSION \<le> p2 \<and> write_perm p2 \<and>
        s = moved s0 u c t fs \<and> length t = PROCESS_FD_TABLE_SIZE \<and>
        fd_on (t ! sd) g1 off 0 \<and> fd_on (t ! dd) g2 (length w) 1 \<and>
        on_file h fs (F(dst \<mapsto> (p2, w))) g1 src 0 \<and> on_file h fs (F(dst \<mapsto> (p2, w))) g2 dst cap \<and>
        write_locked (global_fd_table fs g2) \<le> 2 \<and>
        (\<forall>i. i \<noteq> g1 \<and> i \<noteq> g2 \<longrightarrow> global_fd_table fs i = global_fd_table (fsys s0) i))"

lemma cp_state_rd:
  assumes st: "cp_state h s0 u c F src dst sd dd g1 g2 cap d off w s"
  shows "\<exists>s'. s_read h (int sd) 1024 s = Some ((int (length (take 1024 (drop off d))), take 1024 (drop off d)), s') \<and>
    cp_state h s0 u c F src dst sd dd g1 g2 cap d (off + length (take 1024 (drop off d))) w s'"
proof -
  let ?p = "take 1024 (drop off d)"
  obtain p1 p2 t fs where b: "runs s0 u c" "sd < PROCESS_FD_TABLE_SIZE" "dd < PROCESS_FD_TABLE_SIZE" "sd \<noteq> dd" "g1 \<noteq> g2" "src \<noteq> dst"
      "length d < 2 ^ 31" "length d \<le> cap" "off \<le> length d"
    and f: "F src = Some (p1, d)" "P_READ_ONLY_FILE_PERMISSION \<le> p1"
      "F dst = Some (p2, [])" "P_READ_ONLY_FILE_PERMISSION \<le> p2" "write_perm p2"
    and s: "s = moved s0 u c t fs" "length t = PROCESS_FD_TABLE_SIZE" "fd_on (t ! sd) g1 off 0" "fd_on (t ! dd) g2 (length w) 1"
    and on: "on_file h fs (F(dst \<mapsto> (p2, w))) g1 src 0" "on_file h fs (F(dst \<mapsto> (p2, w))) g2 dst cap"
      "write_locked (global_fd_table fs g2) \<le> 2"
      "\<forall>i. i \<noteq> g1 \<and> i \<noteq> g2 \<longrightarrow> global_fd_table fs i = global_fd_table (fsys s0) i"
    using st unfolding cp_state_def by blast
  let ?t = "t[sd := (t ! sd)\<lparr>pf_offset := off + length ?p\<rparr>]" and ?G = "F(dst \<mapsto> (p2, w))"
  have g: "?G src = Some (p1, d)" using f(1) b(6) by simp
  have off: "off < 2 ^ 31" using b(7,9) by simp
  obtain fs' where r: "s_read h (int sd) (int 1024) s = Some ((int (length ?p), ?p), moved s0 u c ?t fs')"
    "on_file h fs' ?G g1 src 0" "others g1 src fs fs'" "same_on fs fs' UNIV"
    using s_read_moved [OF b(1) s(2) b(2) s(3) off on(1) g f(2) b(7), of 1024] unfolding s(1) by blast
  have o2: "on_file h fs' ?G g2 dst cap"
    by (rule on_file_reader [OF on(2) r(3,4)]) (use r(2) b(5) in \<open>auto simp: on_file_def\<close>)
  have t: "global_fd_table fs' g2 = global_fd_table fs g2" using r(3) b(5) by (simp add: others_def)
  have fr: "\<forall>i. i \<noteq> g1 \<and> i \<noteq> g2 \<longrightarrow> global_fd_table fs' i = global_fd_table (fsys s0) i" "off + length ?p \<le> length d"
    using r(3) on(4) b(9) by (auto simp: others_def)
  have l: "length ?t = PROCESS_FD_TABLE_SIZE" using s(2) by simp
  have fd: "fd_on (?t ! sd) g1 (off + length ?p) 0" "fd_on (?t ! dd) g2 (length w) 1"
    using s(2,3,4) b(2,4) by (auto simp: fd_on_def)
  have "cp_state h s0 u c F src dst sd dd g1 g2 cap d (off + length ?p) w (moved s0 u c ?t fs')"
    unfolding cp_state_def using b f s(2) r(2) o2 on(3) t fd fr l
    by (intro conjI exI [of _ p1] exI [of _ p2] exI [of _ ?t] exI [of _ fs']) (simp_all del: fun_upd_apply)
  then show ?thesis using r(1) by auto
qed

lemma cp_state_wr:
  assumes st: "cp_state h s0 u c F src dst sd dd g1 g2 cap d off w s" and l: "length (w @ bs) \<le> length d"
  shows "\<exists>s'. s_write h (int dd) bs (int (length bs)) s = Some (int (length bs), s') \<and>
    cp_state h s0 u c F src dst sd dd g1 g2 cap d off (w @ bs) s'"
proof -
  obtain p1 p2 t fs where b: "runs s0 u c" "sd < PROCESS_FD_TABLE_SIZE" "dd < PROCESS_FD_TABLE_SIZE" "sd \<noteq> dd" "g1 \<noteq> g2" "src \<noteq> dst"
      "length d < 2 ^ 31" "length d \<le> cap" "off \<le> length d"
    and f: "F src = Some (p1, d)" "P_READ_ONLY_FILE_PERMISSION \<le> p1"
      "F dst = Some (p2, [])" "P_READ_ONLY_FILE_PERMISSION \<le> p2" "write_perm p2"
    and s: "s = moved s0 u c t fs" "length t = PROCESS_FD_TABLE_SIZE" "fd_on (t ! sd) g1 off 0" "fd_on (t ! dd) g2 (length w) 1"
    and on: "on_file h fs (F(dst \<mapsto> (p2, w))) g1 src 0" "on_file h fs (F(dst \<mapsto> (p2, w))) g2 dst cap"
      "write_locked (global_fd_table fs g2) \<le> 2"
      "\<forall>i. i \<noteq> g1 \<and> i \<noteq> g2 \<longrightarrow> global_fd_table fs i = global_fd_table (fsys s0) i"
    using st unfolding cp_state_def by blast
  let ?t = "t[dd := (t ! dd)\<lparr>pf_offset := length w + length bs\<rparr>]" and ?G = "F(dst \<mapsto> (p2, w))" and ?H = "F(dst \<mapsto> (p2, w @ bs))"
  have g: "?G dst = Some (p2, w)" by simp
  have n: "length w < 2 ^ 31" "length w + length bs \<le> cap" "length w + length bs < 2 ^ 31" "(1::nat) \<le> 2"
    "(1::nat) = 2 \<or> length w = length w" using b(7,8) l by auto
  obtain fs' where r: "s_write h (int dd) bs (int (length bs)) s = Some (int (length bs), moved s0 u c ?t fs')"
    "on_file h fs' (?G(dst \<mapsto> (p2, w @ bs))) g2 dst cap" "others g2 dst fs fs'" "write_locked (global_fd_table fs' g2) \<le> 2"
    using s_write_moved [OF b(1) s(2) b(3) s(4) n(1,4) on(2) g f(4,5) n(5) on(3) n(2,3)] unfolding s(1) by blast
  have H: "?G(dst \<mapsto> (p2, w @ bs)) = ?H" by simp
  have o1: "on_file h fs' ?H g1 src 0"
    by (rule on_file_other [OF on(1) r(3)]) (use on_file_holds [OF r(2)] H b(5,6) in auto)
  have fr: "\<forall>i. i \<noteq> g1 \<and> i \<noteq> g2 \<longrightarrow> global_fd_table fs' i = global_fd_table (fsys s0) i"
    using r(3) on(4) by (simp add: others_def)
  have fd: "fd_on (?t ! sd) g1 off 0" "fd_on (?t ! dd) g2 (length (w @ bs)) 1"
    using s(2,3,4) b(3,4) by (auto simp: fd_on_def)
  have "cp_state h s0 u c F src dst sd dd g1 g2 cap d off (w @ bs) (moved s0 u c ?t fs')"
    unfolding cp_state_def using b f s(2) r(2,4) o1 fd fr H
    by (intro conjI exI [of _ p1] exI [of _ p2] exI [of _ ?t] exI [of _ fs']) (simp_all del: fun_upd_apply)
  then show ?thesis using r(1) by auto
qed

interpretation cpl: copier "s_read h (int sd) 1024" "\<lambda>bs. s_write h (int dd) bs (int (length bs))" "cp_loop h (int sd) (int dd)"
  "Pair True" 1024 "cp_state h s0 u c F src dst sd dd g1 g2 cap"
  for h s0 u c F src dst sd dd g1 g2 cap
proof
  show "\<exists>s'. s_read h (int sd) 1024 s = Some ((int (length (take 1024 (drop off d))), take 1024 (drop off d)), s') \<and>
      cp_state h s0 u c F src dst sd dd g1 g2 cap d (off + length (take 1024 (drop off d))) w s'"
    if "cp_state h s0 u c F src dst sd dd g1 g2 cap d off w s" for d off w s
    by (rule cp_state_rd [OF that])
  show "\<exists>s'. s_write h (int dd) bs (int (length bs)) s = Some (int (length bs), s') \<and>
      cp_state h s0 u c F src dst sd dd g1 g2 cap d off (w @ bs) s'"
    if "cp_state h s0 u c F src dst sd dd g1 g2 cap d off w s" "length (w @ bs) \<le> length d" for d off w s bs
    by (rule cp_state_wr [OF that])
qed (simp_all add: cp_loop.simps)

lemma cp_state_open:
  assumes r: "runs s u c" and slots: "i < PROCESS_FD_TABLE_SIZE" "j < PROCESS_FD_TABLE_SIZE" "i \<noteq> j"
      "\<not> pf_in_use (process_fd_table c ! i)" "\<not> pf_in_use (process_fd_table c ! j)"
    and H: "holds h (fsys s) F" and src: "F src = Some (perm, d)" "readable perm" "unopened src (fsys s)"
    and dst: "is_valid_filename dst" "dst \<noteq> src" "writable (perm_of F dst)" "unopened dst (fsys s)"
    and fd: "free_fd (fsys s) a" "free_fd (fsys s) b" "a \<noteq> b"
    and room: "free_blocks (fsys s) \<noteq> {}" "length d \<le> (card (free_blocks (fsys s)) - 1) * block_size (fsys s)" "length d < 2 ^ 31"
  shows "\<exists>sd dd g1 g2 cap s1 s2. s_open h src F_READ s = Some (int sd, s1) \<and> s_open h dst F_WRITE s1 = Some (int dd, s2) \<and>
    cp_state h s u c (F(dst \<mapsto> (perm_of F dst, []))) src dst sd dd g1 g2 cap d 0 [] s2 \<and>
    ref_count (global_fd_table (fsys s) g1) = 0 \<and> ref_count (global_fd_table (fsys s) g2) = 0"
proof -
  let ?p = "perm_of F dst" and ?g1 = "find_empty_fd (fsys s)" and ?t = "process_fd_table c"
  let ?G = "F(dst \<mapsto> (?p, []))" and ?cap = "(card (free_blocks (fsys s)) - 1) * block_size (fsys s)"
  have pr: "\<not> open_denied perm F_READ" "P_READ_ONLY_FILE_PERMISSION \<le> perm" "\<not> open_denied ?p F_WRITE"
    "P_READ_ONLY_FILE_PERMISSION \<le> ?p" "write_perm ?p" using src(2) dst(3) by (auto simp: readable_def writable_def)
  obtain fs1 g2 fs2 where o: "k_open h src F_READ (fsys s) = Some (int ?g1, fs1)" "k_open h dst F_WRITE fs1 = Some (int g2, fs2)"
    "?g1 \<noteq> g2" "on_file h fs2 ?G ?g1 src 0" "on_file h fs2 ?G g2 dst ?cap" "write_locked (global_fd_table fs2 g2) \<le> 2"
    "\<forall>i. i \<noteq> ?g1 \<and> i \<noteq> g2 \<longrightarrow> global_fd_table fs2 i = global_fd_table (fsys s) i"
    "ref_count (global_fd_table (fsys s) ?g1) = 0" "ref_count (global_fd_table (fsys s) g2) = 0"
    using open_two [OF H src(1) pr(1) src(3) dst(1,2) pr(3) dst(4) fd room(1)] by blast
  have l: "length ?t = PROCESS_FD_TABLE_SIZE" using r by (simp add: runs_def)
  have s: "s = moved s u c ?t (fsys s)" using moved_same [OF r, of "fsys s"] by simp
  have g: "?g1 < GLOBAL_FD_TABLE_SIZE" "g2 < GLOBAL_FD_TABLE_SIZE" using o(4,5) by (auto simp: on_file_def)
  obtain sd where sd: "sd < PROCESS_FD_TABLE_SIZE" "\<not> pf_in_use (?t ! sd)"
    "s_open h src F_READ s = Some (int sd, moved s u c (?t[sd := opened_fd ?g1 F_READ]) fs1)"
    using s_open_moved [OF r l slots(1,4) o(1) g(1)] s by auto
  let ?t1 = "?t[sd := opened_fd ?g1 F_READ]"
  obtain k where k: "k < PROCESS_FD_TABLE_SIZE" "\<not> pf_in_use (?t1 ! k)"
    using slots sd(1) l by (cases "i = sd") (auto simp: nth_list_update)
  obtain dd where dd: "dd < PROCESS_FD_TABLE_SIZE" "\<not> pf_in_use (?t1 ! dd)"
    "s_open h dst F_WRITE (moved s u c ?t1 fs1) = Some (int dd, moved s u c (?t1[dd := opened_fd g2 F_WRITE]) fs2)"
    using s_open_moved [OF r _ k o(2) g(2)] l by auto
  have ne: "sd \<noteq> dd" using dd(2) sd(1) l by (auto simp: opened_fd_def)
  let ?t2 = "?t1[dd := opened_fd g2 F_WRITE]"
  have f: "fd_on (?t2 ! sd) ?g1 0 0" "fd_on (?t2 ! dd) g2 (length []) 1"
    using ne sd(1) dd(1) l by (auto simp: fd_on_def opened_fd_def u8_of_int_def)
  have G: "?G(dst \<mapsto> (?p, [])) = ?G" "?G src = Some (perm, d)" "?G dst = Some (?p, [])" using src(1) dst(2) by auto
  have "cp_state h s u c ?G src dst sd dd ?g1 g2 ?cap d 0 [] (moved s u c ?t2 fs2)"
    unfolding cp_state_def G(1) using r sd(1) dd(1) ne o(3-7) dst(2) room(2,3) G(2,3) pr l f
    by (intro conjI exI [of _ perm] exI [of _ ?p] exI [of _ ?t2] exI [of _ fs2]) (simp_all del: fun_upd_apply)
  then show ?thesis using sd(3) dd(3) o(8,9) by blast
qed

lemma cp_state_close:
  assumes st: "cp_state h s0 u c F src dst sd dd g1 g2 cap d off w s"
  shows "\<exists>p2 s1 t fs. F dst = Some (p2, []) \<and> s_close h (int sd) s = Some (0, s1) \<and> s_close h (int dd) s1 = Some (0, moved s0 u c t fs) \<and>
    length t = PROCESS_FD_TABLE_SIZE \<and> holds h fs (F(dst \<mapsto> (p2, w))) \<and>
    (\<forall>i. ref_count (global_fd_table fs i) = (if i = g1 \<or> i = g2 then 0 else ref_count (global_fd_table (fsys s0) i)))"
proof -
  obtain p1 p2 t fs where b: "runs s0 u c" "sd < PROCESS_FD_TABLE_SIZE" "dd < PROCESS_FD_TABLE_SIZE" "sd \<noteq> dd" "g1 \<noteq> g2" "src \<noteq> dst"
    and f: "F dst = Some (p2, [])"
    and s: "s = moved s0 u c t fs" "length t = PROCESS_FD_TABLE_SIZE" "fd_on (t ! sd) g1 off 0" "fd_on (t ! dd) g2 (length w) 1"
    and on: "on_file h fs (F(dst \<mapsto> (p2, w))) g1 src 0" "on_file h fs (F(dst \<mapsto> (p2, w))) g2 dst cap"
      "\<forall>i. i \<noteq> g1 \<and> i \<noteq> g2 \<longrightarrow> global_fd_table fs i = global_fd_table (fsys s0) i"
    using st unfolding cp_state_def by blast
  let ?t = "t[sd := (t ! sd)\<lparr>pf_in_use := False\<rparr>]" and ?fs = "closed g1 fs"
  note c1 = s_close_moved [OF b(1) s(2) b(2) s(3) on(1)] close_on [OF on(1)]
  have on2: "on_file h ?fs (F(dst \<mapsto> (p2, w))) g2 dst 0"
    by (rule on_file_other [OF on(2) c1(5,3)]) (use b(5,6) in auto)
  have t: "length ?t = PROCESS_FD_TABLE_SIZE" "fd_on (?t ! dd) g2 (length w) 1" using s(2,4) b(4) by auto
  note c2 = s_close_moved [OF b(1) t(1) b(3) t(2) on2] close_on [OF on2]
  have "\<forall>i. ref_count (global_fd_table (closed g2 ?fs) i) = (if i = g1 \<or> i = g2 then 0 else ref_count (global_fd_table (fsys s0) i))"
    using on(3) by (simp add: closed_table)
  then show ?thesis using f c1(1) c2(1,3) t(1) unfolding s(1) by (metis length_list_update)
qed

lemma cp_program:
  assumes "runs s u c" "errnumber c = 0" and "i < PROCESS_FD_TABLE_SIZE" "j < PROCESS_FD_TABLE_SIZE" "i \<noteq> j"
      "\<not> pf_in_use (process_fd_table c ! i)" "\<not> pf_in_use (process_fd_table c ! j)"
    and "holds h (fsys s) F" and "F src = Some (perm, d)" "readable perm" "unopened src (fsys s)"
    and "is_valid_filename dst" "dst \<noteq> src" "writable (perm_of F dst)" "unopened dst (fsys s)"
    and "free_fd (fsys s) a" "free_fd (fsys s) b" "a \<noteq> b"
    and "free_blocks (fsys s) \<noteq> {}" "length d \<le> (card (free_blocks (fsys s)) - 1) * block_size (fsys s)" "length d < 2 ^ 31"
  shows "\<exists>s'. cp h [name, src, dst] s = Some (Exited, s') \<and> holds h (fsys s') (F(dst \<mapsto> (perm_of F dst, d))) \<and>
    kernel_inv (kern s') \<and> (\<forall>i. ref_count (global_fd_table (fsys s') i) = ref_count (global_fd_table (fsys s) i))"
proof -
  let ?G = "F(dst \<mapsto> (perm_of F dst, []))"
  obtain sd dd g1 g2 cap s1 s2 where o: "s_open h src F_READ s = Some (int sd, s1)" "s_open h dst F_WRITE s1 = Some (int dd, s2)"
    "cp_state h s u c ?G src dst sd dd g1 g2 cap d 0 [] s2"
    "ref_count (global_fd_table (fsys s) g1) = 0" "ref_count (global_fd_table (fsys s) g2) = 0"
    using cp_state_open [OF assms(1,3-21)] by blast
  obtain s3 off where l: "cp_loop h (int sd) (int dd) s2 = Some (True, s3)" "cp_state h s u c ?G src dst sd dd g1 g2 cap d off d s3"
    using cpl.copies [OF o(3)] by blast
  obtain p2 s4 t fs where cl: "?G dst = Some (p2, [])" "s_close h (int sd) s3 = Some (0, s4)" "s_close h (int dd) s4 = Some (0, moved s u c t fs)"
    "length t = PROCESS_FD_TABLE_SIZE" "holds h fs (?G(dst \<mapsto> (p2, d)))"
    "\<forall>i. ref_count (global_fd_table fs i) = (if i = g1 \<or> i = g2 then 0 else ref_count (global_fd_table (fsys s) i))"
    using cp_state_close [OF l(2)] by blast
  note r = runs_moved [OF assms(1) cl(4), of fs]
  obtain s' where e: "finish 0 (moved s u c t fs) = Some (Exited, s')" "fsys s' = fs" "kernel_inv (kern s')"
    using finish_runs [OF r, of 0] by auto
  have "cp h [name, src, dst] s = Some (Exited, s')"
    using o(1,2) l(1) cl(2,3) e(1) u_perror_silent [OF r] assms(2)
    by (simp add: cp_def two_args_def cp_opened_def perror_finish_def)
  moreover have "?G(dst \<mapsto> (p2, d)) = F(dst \<mapsto> (perm_of F dst, d))" using cl(1) by simp
  ultimately show ?thesis using e(2,3) cl(5,6) o(4,5) by auto
qed

section \<open>cat\<close>

text \<open>The standard output of the process is the terminal, which takes whole pieces.\<close>

definition on_terminal :: "host \<Rightarrow> fatfs \<Rightarrow> process_fd_entry \<Rightarrow> bool" where
  "on_terminal h fs e \<longleftrightarrow> pf_in_use e \<and> pf_global_fd e = 1 \<and> pf_mode e \<le> 2 \<and> (\<exists>n\<ge>1024. h_terminal_out h 1 = Some n) \<and>
     is_mounted fs \<and> 0 < ref_count (global_fd_table fs 1) \<and> write_locked (global_fd_table fs 1) \<le> 2"

lemma setmode_terminal:
  assumes "0 < ref_count (global_fd_table fs 1)" "m \<le> 2"
  shows "k_setmode 1 (int m) fs = Some (0, fd_upd 1 (\<lambda>g. g\<lparr>write_locked := m\<rparr>) fs)"
proof -
  have "int m = F_READ \<or> int m = F_WRITE \<or> int m = F_APPEND" "u8_of_int (int m) = m"
    using assms(2) by (auto simp: u8_of_int_def)
  then show ?thesis using assms(1) by (auto simp: k_setmode_def)
qed

lemma s_write_terminal:
  assumes r: "runs s u c" "length t = PROCESS_FD_TABLE_SIZE" and t: "on_terminal h fs (t ! 1)" and l: "length str \<le> 1024"
  shows "\<exists>off. s_write h 1 str (int (length str)) (moved s u c t fs) =
    Some (int (length str), moved s u c (t[1 := (t ! 1)\<lparr>pf_offset := off\<rparr>]) (fs\<lparr>console := console fs @ [(1, str)]\<rparr>))"
proof -
  let ?s = "moved s u c t fs" and ?c = "c\<lparr>process_fd_table := t\<rparr>" and ?m = "pf_mode (t ! 1)" and ?w = "write_locked (global_fd_table fs 1)"
  let ?fs' = "fs\<lparr>console := console fs @ [(1, str)]\<rparr>" and ?n = "int (length str)"
  note r' = runs_moved [OF r, of fs]
  obtain n where n: "1024 \<le> n" "h_terminal_out h 1 = Some n" and d: "pf_in_use (t ! 1)" "pf_global_fd (t ! 1) = 1" "?m \<le> 2" "is_mounted fs"
    "0 < ref_count (global_fd_table fs 1)" "?w \<le> 2"
    using t by (auto simp: on_terminal_def)
  obtain k where k: "upd_fd_entry u 1 (add_offset ?n) (kern ?s) = Some k"
    "?s\<lparr>kern := k, fsys := ?fs'\<rparr> = moved ?s u ?c (t[1 := add_offset ?n (t ! 1)]) ?fs'"
    using upd_fd_entry_runs [OF r', of 1 "add_offset ?n" ?fs'] by auto
  let ?fs1 = "fd_upd 1 (\<lambda>g. g\<lparr>write_locked := ?m\<rparr>) fs"
  have tc: "terminal_check h ''write to'' ?c (t ! 1) ?s = Some ?s"
    using runs_current(4) [OF r'] d(2) by (simp add: terminal_check_def)
  have sk: "k_lseek 1 x F_SEEK_SET fs = Some (EK_LSEEK_SPECIAL_FD, fs)" for x using d(4) by (simp add: k_lseek_def)
  have st: "s32 (u32_of_int EK_LSEEK_SPECIAL_FD) = EK_LSEEK_SPECIAL_FD" by (simp add: s32_def u32_of_int_def)
  have w: "k_write h 1 str ?n ?fs1 = Some (?n, ?fs1\<lparr>console := console fs @ [(1, str)]\<rparr>)"
    using n l by (simp add: k_write_def Let_def size_t_of_int_def fd_upd_def)
  have sm: "k_setmode 1 (int ?w) (?fs1\<lparr>console := console fs @ [(1, str)]\<rparr>) = Some (0, ?fs')"
    using setmode_terminal [of "?fs1\<lparr>console := console fs @ [(1, str)]\<rparr>" ?w] d(5,6) by (simp add: fd_upd_def fun_upd_idem)
  have "s_write h 1 str ?n ?s = Some (?n, ?s\<lparr>fsys := ?fs', kern := k\<rparr>)"
    using runs_current(1) [OF r'] fd_in_use_runs [OF r', of 1] d(1,2) tc sk st setmode_terminal [OF d(5,3)] w sm k(1) d(5)
    by (simp add: s_write_def on_fsys_def k_getmode_def Let_def)
  moreover have "?s\<lparr>fsys := ?fs', kern := k\<rparr> = ?s\<lparr>kern := k, fsys := ?fs'\<rparr>" by simp
  ultimately show ?thesis using k(2) by (auto simp: add_offset_def)
qed

lemma device_terminal [simp]: "device_ok (h\<lparr>h_terminal_in := x\<rparr>, fs) = device_ok (h, fs)"
  by (simp add: device_ok_def host_ok_def)

lemma on_file_terminal [simp]: "on_file (h\<lparr>h_terminal_in := x\<rparr>) fs F g f cap = on_file h fs F g f cap"
  by (simp add: on_file_def)

text \<open>What the terminal has shown since the program began, in pieces of any size.\<close>

definition printed :: "fatfs \<Rightarrow> fatfs \<Rightarrow> byte list \<Rightarrow> bool" where
  "printed fs0 fs w \<longleftrightarrow> (\<exists>cs. console fs = console fs0 @ map (Pair 1) cs \<and> concat cs = w)"

lemma printed_Nil: "console fs = console fs0 \<Longrightarrow> printed fs0 fs []"
  by (auto simp: printed_def)

lemma printed_more: "printed fs0 fs w \<Longrightarrow> console fs' = console fs @ [(1, bs)] \<Longrightarrow> printed fs0 fs' (w @ bs)"
proof -
  assume "printed fs0 fs w" and c: "console fs' = console fs @ [(1, bs)]"
  then obtain cs where "console fs = console fs0 @ map (Pair 1) cs" "concat cs = w" by (auto simp: printed_def)
  then show ?thesis unfolding printed_def using c by (intro exI [of _ "cs @ [bs]"]) simp
qed

definition cat_state ::
  "host \<Rightarrow> os \<Rightarrow> addr \<Rightarrow> pcb \<Rightarrow> (byte list \<rightharpoonup> nat \<times> byte list) \<Rightarrow> byte list \<Rightarrow> nat \<Rightarrow> nat \<Rightarrow> byte list \<Rightarrow> nat \<Rightarrow> byte list \<Rightarrow>
   os \<Rightarrow> bool" where
  "cat_state h s0 u c F f fd g d off w s \<longleftrightarrow>
     runs s0 u c \<and> fd < PROCESS_FD_TABLE_SIZE \<and> fd \<noteq> 1 \<and> length d < 2 ^ 31 \<and> off \<le> length d \<and>
     (\<exists>perm t fs. F f = Some (perm, d) \<and> P_READ_ONLY_FILE_PERMISSION \<le> perm \<and>
        s = moved s0 u c t fs \<and> length t = PROCESS_FD_TABLE_SIZE \<and> fd_on (t ! fd) g off 0 \<and>
        on_file h fs F g f 0 \<and> on_terminal h fs (t ! 1) \<and> printed (fsys s0) fs w \<and>
        (\<forall>i. i \<noteq> g \<longrightarrow> global_fd_table fs i = global_fd_table (fsys s0) i))"

lemma cat_state_rd:
  assumes st: "cat_state h s0 u c F f fd g d off w s"
  shows "\<exists>s'. s_read (h\<lparr>h_terminal_in := x\<rparr>) (int fd) 1024 s =
      Some ((int (length (take 1024 (drop off d))), take 1024 (drop off d)), s') \<and>
    cat_state h s0 u c F f fd g d (off + length (take 1024 (drop off d))) w s'"
proof -
  let ?p = "take 1024 (drop off d)"
  obtain perm t fs where b: "runs s0 u c" "fd < PROCESS_FD_TABLE_SIZE" "fd \<noteq> 1" "length d < 2 ^ 31" "off \<le> length d"
    and s: "F f = Some (perm, d)" "P_READ_ONLY_FILE_PERMISSION \<le> perm" "s = moved s0 u c t fs" "length t = PROCESS_FD_TABLE_SIZE"
      "fd_on (t ! fd) g off 0" "on_file h fs F g f 0" "on_terminal h fs (t ! 1)" "printed (fsys s0) fs w"
      "\<forall>i. i \<noteq> g \<longrightarrow> global_fd_table fs i = global_fd_table (fsys s0) i"
    using st unfolding cat_state_def by blast
  let ?t = "t[fd := (t ! fd)\<lparr>pf_offset := off + length ?p\<rparr>]"
  have off: "off < 2 ^ 31" "off + length ?p \<le> length d" using b(4,5) by auto
  have on: "on_file (h\<lparr>h_terminal_in := x\<rparr>) fs F g f 0" using s(6) by simp
  obtain fs' where r: "s_read (h\<lparr>h_terminal_in := x\<rparr>) (int fd) (int 1024) s = Some ((int (length ?p), ?p), moved s0 u c ?t fs')"
    "on_file h fs' F g f 0" "others g f fs fs'" "console fs' = console fs"
    using s_read_moved [OF b(1) s(4) b(2) s(5) off(1) on s(1,2) b(4), of 1024] unfolding s(3) by auto
  have g: "3 \<le> g" "is_mounted fs'" using on_file_fd [OF r(2) s(1)] by auto
  have "fd_on (?t ! fd) g (off + length ?p) 0" "length ?t = PROCESS_FD_TABLE_SIZE" using s(4,5) b(2) by (auto simp: fd_on_def)
  moreover have "on_terminal h fs' (?t ! 1)" using s(7) r(3) g b(3) by (auto simp: on_terminal_def others_def)
  moreover have "printed (fsys s0) fs' w" using s(8) r(4) by (simp add: printed_def)
  moreover have "\<forall>i. i \<noteq> g \<longrightarrow> global_fd_table fs' i = global_fd_table (fsys s0) i" using s(9) r(3) by (simp add: others_def)
  ultimately have "cat_state h s0 u c F f fd g d (off + length ?p) w (moved s0 u c ?t fs')"
    unfolding cat_state_def using b off(2) s(1,2) r(2) by blast
  then show ?thesis using r(1) by auto
qed

lemma cat_state_wr:
  assumes st: "cat_state h s0 u c F f fd g d off w s" and l: "length bs \<le> 1024"
  shows "\<exists>s'. s_write h 1 bs (int (length bs)) s = Some (int (length bs), s') \<and> cat_state h s0 u c F f fd g d off (w @ bs) s'"
proof -
  obtain perm t fs where b: "runs s0 u c" "fd < PROCESS_FD_TABLE_SIZE" "fd \<noteq> 1" "length d < 2 ^ 31" "off \<le> length d"
    and s: "F f = Some (perm, d)" "P_READ_ONLY_FILE_PERMISSION \<le> perm" "s = moved s0 u c t fs" "length t = PROCESS_FD_TABLE_SIZE"
      "fd_on (t ! fd) g off 0" "on_file h fs F g f 0" "on_terminal h fs (t ! 1)" "printed (fsys s0) fs w"
      "\<forall>i. i \<noteq> g \<longrightarrow> global_fd_table fs i = global_fd_table (fsys s0) i"
    using st unfolding cat_state_def by blast
  let ?fs = "fs\<lparr>console := console fs @ [(1, bs)]\<rparr>"
  obtain k where w: "s_write h 1 bs (int (length bs)) s = Some (int (length bs), moved s0 u c (t[1 := (t ! 1)\<lparr>pf_offset := k\<rparr>]) ?fs)"
    using s_write_terminal [OF b(1) s(4,7) l] s(3) by blast
  let ?t = "t[1 := (t ! 1)\<lparr>pf_offset := k\<rparr>]"
  have "same_on fs ?fs UNIV" "device_ok (h, ?fs)" "ref_count (global_fd_table fs g) = 1"
    using s(6) by (auto simp: on_file_def same_on_def device_ok_def geometry_ok_def is_mounted_def blocks_complete_def max_block_def)
  then have "on_file h ?fs F g f 0" by (intro on_file_same [OF s(6)]) (auto simp: fd_slot_def)
  moreover have "fd_on (?t ! fd) g off 0" "length ?t = PROCESS_FD_TABLE_SIZE" "on_terminal h ?fs (?t ! 1)"
    using s(4,5,7) b(3) by (auto simp: on_terminal_def is_mounted_def)
  moreover have "printed (fsys s0) ?fs (w @ bs)" by (rule printed_more [OF s(8)]) simp
  ultimately have "cat_state h s0 u c F f fd g d off (w @ bs) (moved s0 u c ?t ?fs)"
    unfolding cat_state_def using b s(1,2,9) by (intro conjI exI [of _ perm] exI [of _ ?t] exI [of _ ?fs]) simp_all
  then show ?thesis using w by blast
qed

interpretation catl: copier "s_read (h\<lparr>h_terminal_in := \<lambda>_. Some []\<rparr>) (int fd) 1024" "\<lambda>bs. s_write h 1 bs (int (length bs))"
  "pump h [] (int fd)" "\<lambda>s. s" 1024 "cat_state h s0 u c F f fd g"
  for h s0 u c F f fd g
proof
  show "\<exists>s'. s_read (h\<lparr>h_terminal_in := \<lambda>_. Some []\<rparr>) (int fd) 1024 s =
      Some ((int (length (take 1024 (drop off d))), take 1024 (drop off d)), s') \<and>
      cat_state h s0 u c F f fd g d (off + length (take 1024 (drop off d))) w s'"
    if "cat_state h s0 u c F f fd g d off w s" for d off w s
    by (rule cat_state_rd [OF that])
  show "\<exists>s'. s_write h 1 bs (int (length bs)) s = Some (int (length bs), s') \<and> cat_state h s0 u c F f fd g d off (w @ bs) s'"
    if "cat_state h s0 u c F f fd g d off w s" "length bs \<le> 1024" for d off w s bs
    by (rule cat_state_wr [OF that])
qed (simp_all add: pump.simps)

text \<open>
  C27: The program \<open>cat\<close> with one file name, run as a process with the terminal as its standard output:
  the terminal receives exactly the bytes of the file, no file changes, the descriptor is
  closed and the process exits.
\<close>

theorem cat_program_prints:
  assumes "runs s u c" and "i < PROCESS_FD_TABLE_SIZE" "\<not> pf_in_use (process_fd_table c ! i)"
    and "on_terminal h (fsys s) (process_fd_table c ! 1)"
    and "holds h (fsys s) F" and "F f = Some (perm, d)" "readable perm" "unopened f (fsys s)" "free_fd (fsys s) a" "length d < 2 ^ 31"
  shows "\<exists>s'. cat h inp [name, f] s = Some (Exited, s') \<and> printed (fsys s) (fsys s') d \<and> holds h (fsys s') F \<and>
    kernel_inv (kern s') \<and> (\<forall>i. ref_count (global_fd_table (fsys s') i) = ref_count (global_fd_table (fsys s) i))"
proof -
  let ?g = "find_empty_fd (fsys s)" and ?t = "process_fd_table c"
  have pr: "\<not> open_denied perm F_READ" "P_READ_ONLY_FILE_PERMISSION \<le> perm" using assms(7) by (auto simp: readable_def)
  obtain fs1 where o: "k_open h f F_READ (fsys s) = Some (int ?g, fs1)" "on_file h fs1 F ?g f 0" "others ?g f (fsys s) fs1"
    "same_on (fsys s) fs1 UNIV" "console fs1 = console (fsys s)"
    using open_read [OF assms(5,6) pr(1) assms(8,9)] by blast
  have l: "length ?t = PROCESS_FD_TABLE_SIZE" using assms(1) by (simp add: runs_def)
  have s: "s = moved s u c ?t (fsys s)" using moved_same [OF assms(1), of "fsys s"] by simp
  have g: "?g < GLOBAL_FD_TABLE_SIZE" "3 \<le> ?g" using o(2) by (auto simp: on_file_def)
  obtain fd where fd: "fd < PROCESS_FD_TABLE_SIZE" "\<not> pf_in_use (?t ! fd)"
    "s_open h f F_READ s = Some (int fd, moved s u c (?t[fd := opened_fd ?g F_READ]) fs1)"
    using s_open_moved [OF assms(1) l assms(2,3) o(1) g(1)] s by auto
  let ?t1 = "?t[fd := opened_fd ?g F_READ]"
  have ne: "fd \<noteq> 1" using fd(2) assms(4) by (auto simp: on_terminal_def)
  have f: "fd_on (?t1 ! fd) ?g 0 0" "length ?t1 = PROCESS_FD_TABLE_SIZE" "on_terminal h fs1 (?t1 ! 1)"
    using fd(1) l assms(4) ne o(3) g(2) on_file_fd(1) [OF o(2) assms(6)]
    by (auto simp: fd_on_def opened_fd_def u8_of_int_def on_terminal_def others_def)
  have "cat_state h s u c F f fd ?g d 0 [] (moved s u c ?t1 fs1)"
    unfolding cat_state_def using assms(1,6,10) fd(1) ne pr(2) f o(2,3) printed_Nil [OF o(5)]
    by (intro conjI exI [of _ perm] exI [of _ ?t1] exI [of _ fs1]) (simp_all add: others_def)
  from catl.copies [OF this] obtain s2 off where p: "pump h [] (int fd) (moved s u c ?t1 fs1) = Some s2" "cat_state h s u c F f fd ?g d off d s2"
    by blast
  obtain t fs where st: "s2 = moved s u c t fs" "length t = PROCESS_FD_TABLE_SIZE" "fd_on (t ! fd) ?g off 0" "on_file h fs F ?g f 0"
    "printed (fsys s) fs d" "\<forall>i. i \<noteq> ?g \<longrightarrow> global_fd_table fs i = global_fd_table (fsys s) i"
    using p(2) unfolding cat_state_def by blast
  let ?t2 = "t[fd := (t ! fd)\<lparr>pf_in_use := False\<rparr>]"
  note c1 = s_close_moved [OF assms(1) st(2) fd(1) st(3,4)] close_on [OF st(4)]
  have "length ?t2 = PROCESS_FD_TABLE_SIZE" using st(2) by simp
  note r = runs_moved [OF assms(1) this, of "closed ?g fs"]
  obtain s' where e: "finish 0 (moved s u c ?t2 (closed ?g fs)) = Some (Exited, s')" "fsys s' = closed ?g fs" "kernel_inv (kern s')"
    using finish_runs [OF r, of 0] by auto
  have "cat h inp [name, f] s = Some (Exited, s')"
    using fd(3) p(1) st(1) c1(1) e(1) by (simp add: cat_def arg_at_def)
  moreover have "printed (fsys s) (closed ?g fs) d" using st(5) by (simp add: printed_def closed_def)
  moreover have "ref_count (global_fd_table (closed ?g fs) i) = ref_count (global_fd_table (fsys s) i)" for i
    using st(6) find_empty_fd_free(1) [OF assms(9)] by (simp add: closed_table free_fd_def)
  ultimately show ?thesis using e(2,3) c1(3) by auto
qed

section \<open>echo\<close>

text \<open>
  The program \<open>echo\<close> with its output redirected to a file, as the shell starts it: the first
  descriptor is open on the file, for appending or with its offset at the end. The file is extended by the
  argument and a newline, no other file changes, and the process exits.
\<close>

theorem echo_program_appends:
  assumes "runs s u c" "errnumber c = 0" and "fd_on (process_fd_table c ! 1) g off m" "m \<le> 2" "m = 2 \<or> off = length d"
    and "on_file h (fsys s) F g f cap" "F f = Some (perm, d)" "P_READ_ONLY_FILE_PERMISSION \<le> perm" "write_perm perm"
    and "write_locked (global_fd_table (fsys s) g) \<le> 2" "length d + length str + 1 \<le> cap" "off + length str + 1 < 2 ^ 31"
  shows "\<exists>s'. echo h [name, str] s = Some (Exited, s') \<and> holds h (fsys s') (F(f \<mapsto> (perm, d @ str @ [10]))) \<and> kernel_inv (kern s')"
proof -
  let ?t = "process_fd_table c" and ?F = "F(f \<mapsto> (perm, d @ str))"
  have l: "length ?t = PROCESS_FD_TABLE_SIZE" using assms(1) by (simp add: runs_def)
  have s: "s = moved s u c ?t (fsys s)" using moved_same [OF assms(1), of "fsys s"] by simp
  have n: "off < 2 ^ 31" "length d + length str \<le> cap" "off + length str < 2 ^ 31" using assms(11,12) by auto
  let ?t1 = "?t[1 := (?t ! 1)\<lparr>pf_offset := off + length str\<rparr>]"
  obtain fs1 where w: "s_write h (int 1) str (int (length str)) (moved s u c ?t (fsys s)) = Some (int (length str), moved s u c ?t1 fs1)"
    "on_file h fs1 ?F g f cap" "write_locked (global_fd_table fs1 g) \<le> 2"
    using s_write_moved [OF assms(1) l _ assms(3) n(1) assms(4,6-9,5,10) n(2,3)] by (auto simp del: fun_upd_apply)
  have l1: "length ?t1 = PROCESS_FD_TABLE_SIZE" "fd_on (?t1 ! 1) g (off + length str) m" "?F f = Some (perm, d @ str)"
    "m = 2 \<or> off + length str = length (d @ str)" using assms(3,5) l by (auto simp: fd_on_def)
  have n1: "length (d @ str) + length [10::byte] \<le> cap" "off + length str + length [10::byte] < 2 ^ 31" using assms(11,12) by auto
  obtain t2 fs2 where v: "s_write h (int 1) [10] (int (length [10::byte])) (moved s u c ?t1 fs1) = Some (1, moved s u c t2 fs2)"
    "length t2 = PROCESS_FD_TABLE_SIZE" "on_file h fs2 (?F(f \<mapsto> (perm, (d @ str) @ [10]))) g f cap"
    using s_write_moved [OF assms(1) l1(1) _ l1(2) n(3) assms(4) w(2) l1(3) assms(8,9) l1(4) w(3) n1] l1(1)
    by (auto simp del: fun_upd_apply)
  note r = runs_moved [OF assms(1) v(2), of fs2]
  obtain s' where e: "finish 0 (moved s u c t2 fs2) = Some (Exited, s')" "fsys s' = fs2" "kernel_inv (kern s')"
    using finish_runs [OF r, of 0] by auto
  have "s_write h 1 str (int (length str)) s = Some (int (length str), moved s u c ?t1 fs1)" using w(1) s by simp
  then have "echo h [name, str] s = Some (Exited, s')"
    using v(1) e(1) u_perror_silent [OF r] assms(2) by (simp add: echo_def arg_at_def perror_finish_def)
  then show ?thesis using on_file_holds [OF v(3)] e(2,3) by simp
qed

section \<open>rm, mv and touch\<close>

lemma status_call_ok: "f (fsys s) = Some (0, fs) \<Longrightarrow> status_call f s = Some (0, s\<lparr>fsys := fs\<rparr>)"
  by (simp add: status_call_def on_fsys_def)

lemma rm_all_ok:
  assumes "runs s u c" "errnumber c = 0" "holds h (fsys s) F" "distinct fnames"
    "\<forall>f\<in>set fnames. is_valid_filename f \<and> F f \<noteq> None \<and> unopened f (fsys s)"
  shows "\<exists>s'. rm_all h fnames s = Some (Exited, s') \<and> holds h (fsys s') (F |` (- set fnames)) \<and> kernel_inv (kern s') \<and>
    global_fd_table (fsys s') = global_fd_table (fsys s)"
  using assms
proof (induction fnames arbitrary: s F)
  case Nil
  then show ?case using finish_runs [OF Nil.prems(1), of 0] u_perror_silent [OF Nil.prems(1,2)] by (auto simp: perror_finish_def)
next
  case (Cons f fnames)
  obtain fs1 where k: "k_unlink h f (fsys s) = Some (0, fs1)" "holds h fs1 (F(f := None))" "global_fd_table fs1 = global_fd_table (fsys s)"
    using k_unlink_files [OF Cons.prems(3), of f] Cons.prems(5) by auto
  let ?s = "s\<lparr>fsys := fs1\<rparr>"
  have "\<forall>g\<in>set fnames. is_valid_filename g \<and> (F(f := None)) g \<noteq> None \<and> unopened g (fsys ?s)"
    using Cons.prems(4,5) unopened_table(1) [OF k(3)] by auto
  then obtain s' where s': "rm_all h fnames ?s = Some (Exited, s')" "holds h (fsys s') ((F(f := None)) |` (- set fnames))"
    "kernel_inv (kern s')" "global_fd_table (fsys s') = global_fd_table fs1"
    using Cons.IH [of ?s "F(f := None)"] Cons.prems(1,2,4) k(2) by (auto simp del: fun_upd_apply restrict_fun_upd)
  moreover have "(F(f := None)) |` (- set fnames) = F |` (- set (f # fnames))" by (auto simp: restrict_map_def fun_eq_iff)
  ultimately show ?case using status_call_ok [of "k_unlink h f" s fs1, OF k(1)] k(3) by (simp add: s_unlink_def)
qed

lemma on_file_size:
  assumes "on_file h fs F g f cap" "F f = Some (perm, d)"
  shows "on_file h fs F g f (length d)"
proof -
  obtain bs cf e where v: "device_ok (h, fs)" "volume fs bs cf" "files fs bs cf = F" "named fs bs f = Some (fd_slot fs g, e)"
    and g: "3 \<le> g" "g < GLOBAL_FD_TABLE_SIZE" "ref_count (global_fd_table fs g) = 1" "ptr_to_dir_entry (global_fd_table fs g) = Some e"
    using assms(1) unfolding on_file_def by blast
  have ok: "file_ok fs e (cf f)" using volumeD(2) [OF v(2,4)] by blast
  have "d = content fs e (cf f)" using filesD [of fs bs cf f] assms(2) v(3,4) by auto
  then have "length d = de_size e" using length_content [OF v(1) ok] by simp
  also have "\<dots> \<le> length (cf f) * block_size fs" by (rule file_ok_size [OF device_okD(2) [OF v(1)] ok])
  finally have "length d \<le> (length (cf f) + card (free_blocks fs)) * block_size fs" by (simp add: add_mult_distrib)
  then show ?thesis using v g unfolding on_file_def by blast
qed

lemma s_write_empty:
  assumes "runs s u c" "length t = PROCESS_FD_TABLE_SIZE" "fd < PROCESS_FD_TABLE_SIZE" "fd_on (t ! fd) g 0 2"
    "on_file h fs F g f 0" "F f = Some (perm, d)" "P_READ_ONLY_FILE_PERMISSION \<le> perm" "write_perm perm"
    "write_locked (global_fd_table fs g) \<le> 2"
  shows "\<exists>fs'. s_write h (int fd) [] 0 (moved s u c t fs) = Some (0, moved s u c t fs') \<and> on_file h fs' F g f 0 \<and> others g f fs fs'"
proof -
  have e: "(t ! fd)\<lparr>pf_offset := 0 + length ([]::byte list)\<rparr> = t ! fd" using assms(4) by (simp add: fd_on_def)
  have F: "F(f \<mapsto> (perm, d @ [])) = F" using assms(6) by (simp add: fun_upd_idem)
  have m: "(0::nat) < 2 ^ 31" "(2::nat) \<le> 2" "(2::nat) = 2 \<or> 0 = length d" "length d + length ([]::byte list) \<le> length d"
    "0 + length ([]::byte list) < 2 ^ 31" by simp_all
  from s_write_moved [OF assms(1-4) m(1,2) on_file_size [OF assms(5,6)] assms(6-8) m(3) assms(9) m(4,5)]
  obtain fs' where "s_write h (int fd) [] (int (length ([]::byte list))) (moved s u c t fs) = Some (int (length ([]::byte list)), moved s u c t fs')"
    "on_file h fs' F g f (length d)" "others g f fs fs'"
    unfolding e F by auto
  then show ?thesis using on_file_less [of h fs' F g f "length d" 0] by auto
qed

lemma touch_program:
  assumes r: "runs s u c" "errnumber c = 0" and slot: "i < PROCESS_FD_TABLE_SIZE" "\<not> pf_in_use (process_fd_table c ! i)"
    and H: "holds h (fsys s) F" "is_valid_filename f" "writable (perm_of F f)" "unopened f (fsys s)" "free_fd (fsys s) a"
    and room: "free_blocks (fsys s) \<noteq> {}"
  shows "\<exists>s'. touch h [name, f] s = Some (Exited, s') \<and> kernel_inv (kern s') \<and>
    holds h (fsys s') (F(f \<mapsto> (case F f of None \<Rightarrow> (P_READ_WRITE_FILE_PERMISSION, []) | Some x \<Rightarrow> x))) \<and>
    (\<forall>i. ref_count (global_fd_table (fsys s') i) = ref_count (global_fd_table (fsys s) i))"
proof -
  let ?g = "find_empty_fd (fsys s)" and ?t = "process_fd_table c"
  define G where "G = F(f \<mapsto> (case F f of None \<Rightarrow> (P_READ_WRITE_FILE_PERMISSION, []) | Some x \<Rightarrow> x))"
  have da: "\<not> open_denied (perm_of F f) F_APPEND" using H(3) by (auto simp: writable_def open_denied_def)
  obtain fs1 where o: "k_open h f F_APPEND (fsys s) = Some (int ?g, fs1)" "on_file h fs1 G ?g f 0" "others ?g f (fsys s) fs1"
    "write_locked (global_fd_table fs1 ?g) \<le> 2"
  proof (cases "F f")
    case None
    then show ?thesis
      using that open_create [OF H(1,2) None H(4,5) room, of F_APPEND] on_file_less [of h _ _ ?g f _ 0] by (fastforce simp: G_def)
  next
    case (Some x)
    then have "G = F" "F f = Some (fst x, snd x)" "\<not> open_denied (fst x) F_APPEND"
      using da by (auto simp: G_def perm_of_def fun_upd_idem split: prod.splits)
    then show ?thesis using that open_keep [OF H(1) _ _ H(4,5), of "fst x" "snd x" F_APPEND] by auto
  qed
  obtain perm d where g: "G f = Some (perm, d)" "P_READ_ONLY_FILE_PERMISSION \<le> perm" "write_perm perm"
    using H(3) by (cases "F f") (auto simp: G_def perm_of_def writable_def split: prod.splits)
  have l: "length ?t = PROCESS_FD_TABLE_SIZE" using r(1) by (simp add: runs_def)
  have s: "s = moved s u c ?t (fsys s)" using moved_same [OF r(1), of "fsys s"] by simp
  obtain fd where fd: "fd < PROCESS_FD_TABLE_SIZE"
    "s_open h f F_APPEND s = Some (int fd, moved s u c (?t[fd := opened_fd ?g F_APPEND]) fs1)"
    using s_open_moved [OF r(1) l slot o(1)] s o(2) by (auto simp: on_file_def)
  let ?t1 = "?t[fd := opened_fd ?g F_APPEND]"
  have t: "length ?t1 = PROCESS_FD_TABLE_SIZE" "fd_on (?t1 ! fd) ?g 0 2" using l fd(1) by (auto simp: fd_on_def opened_fd_def u8_of_int_def)
  have "\<exists>fs2. s_write h (int fd) [] 0 (moved s u c ?t1 fs1) = Some (0, moved s u c ?t1 fs2) \<and> on_file h fs2 G ?g f 0 \<and> others ?g f fs1 fs2"
    using s_write_empty [OF r(1) t(1) fd(1) t(2) o(2) g o(4)] .
  then obtain fs2 where w: "s_write h (int fd) [] 0 (moved s u c ?t1 fs1) = Some (0, moved s u c ?t1 fs2)"
    "on_file h fs2 G ?g f 0" "others ?g f fs1 fs2" by blast
  let ?t2 = "?t1[fd := (?t1 ! fd)\<lparr>pf_in_use := False\<rparr>]"
  note cl = s_close_moved [OF r(1) t(1) fd(1) t(2) w(2)] close_on [OF w(2)]
  have "length ?t2 = PROCESS_FD_TABLE_SIZE" using t(1) by simp
  note r' = runs_moved [OF r(1) this, of "closed ?g fs2"]
  obtain s' where e: "finish 0 (moved s u c ?t2 (closed ?g fs2)) = Some (Exited, s')" "fsys s' = closed ?g fs2" "kernel_inv (kern s')"
    using finish_runs [OF r', of 0] by auto
  have "touch h [name, f] s = Some (Exited, s')"
    using fd(2) w(1) cl(1) e(1) u_perror_silent [OF r'] r(2) by (simp add: touch_def arg_at_def perror_finish_def)
  moreover have "ref_count (global_fd_table (closed ?g fs2) i) = ref_count (global_fd_table (fsys s) i)" for i
    using o(3) w(3) find_empty_fd_free(1) [OF H(5)] by (simp add: closed_table others_def free_fd_def)
  ultimately show ?thesis using e(2,3) cl(3) unfolding G_def by auto
qed

section \<open>Programs as operations on the files\<close>

datatype program =
  P_cp "byte list" "byte list" | P_mv "byte list" "byte list" | P_rm "byte list list" | P_touch "byte list"

text \<open>The body that the thread of the process runs, with its argument vector.\<close>

fun program_body :: "host \<Rightarrow> program \<Rightarrow> os \<Rightarrow> (thread_result \<times> os) option" where
  "program_body h (P_cp src dst) = cp h [ascii ''cp'', src, dst]"
| "program_body h (P_mv src dst) = mv h [ascii ''mv'', src, dst]"
| "program_body h (P_rm fnames) = rm h (ascii ''rm'' # fnames)"
| "program_body h (P_touch f) = touch h [ascii ''touch'', f]"

fun program_effect :: "program \<Rightarrow> (byte list \<rightharpoonup> nat \<times> byte list) \<Rightarrow> byte list \<rightharpoonup> nat \<times> byte list" where
  "program_effect (P_cp src dst) F = F(dst := map_option (\<lambda>(_, d). (perm_of F dst, d)) (F src))"
| "program_effect (P_mv src dst) F = F(src := None, dst := F src)"
| "program_effect (P_rm fnames) F = F |` (- set fnames)"
| "program_effect (P_touch f) F = F(f \<mapsto> (case F f of None \<Rightarrow> (P_READ_WRITE_FILE_PERMISSION, []) | Some x \<Rightarrow> x))"

text \<open>No file that the program names is open, and there is room for what it writes.\<close>

definition room_left :: "nat \<Rightarrow> fatfs \<Rightarrow> bool" where
  "room_left n fs \<longleftrightarrow> free_blocks fs \<noteq> {} \<and> n \<le> (card (free_blocks fs) - 1) * block_size fs \<and> n < 2 ^ 31"

fun program_allowed :: "program \<Rightarrow> (byte list \<rightharpoonup> nat \<times> byte list) \<Rightarrow> fatfs \<Rightarrow> bool" where
  "program_allowed (P_cp src dst) F fs \<longleftrightarrow> is_valid_filename dst \<and> dst \<noteq> src \<and> writable (perm_of F dst) \<and>
     unopened src fs \<and> unopened dst fs \<and> (case F src of None \<Rightarrow> False | Some (perm, d) \<Rightarrow> readable perm \<and> room_left (length d) fs)"
| "program_allowed (P_mv src dst) F fs \<longleftrightarrow> is_valid_filename src \<and> is_valid_filename dst \<and> dst \<noteq> src \<and>
     unopened src fs \<and> unopened dst fs \<and> (case F src of None \<Rightarrow> False | Some (perm, d) \<Rightarrow> readable perm)"
| "program_allowed (P_rm fnames) F fs \<longleftrightarrow> fnames \<noteq> [] \<and> distinct fnames \<and>
     (\<forall>f\<in>set fnames. is_valid_filename f \<and> F f \<noteq> None \<and> unopened f fs)"
| "program_allowed (P_touch f) F fs \<longleftrightarrow> is_valid_filename f \<and> writable (perm_of F f) \<and> unopened f fs \<and> room_left 0 fs"

text \<open>A process at the start of its program: no error yet, two free descriptors of its own and two global ones.\<close>

definition starts :: "host \<Rightarrow> os \<Rightarrow> (byte list \<rightharpoonup> nat \<times> byte list) \<Rightarrow> bool" where
  "starts h s F \<longleftrightarrow> holds h (fsys s) F \<and> (\<exists>u c. runs s u c \<and> errnumber c = 0 \<and>
     (\<exists>i j. i < PROCESS_FD_TABLE_SIZE \<and> j < PROCESS_FD_TABLE_SIZE \<and> i \<noteq> j \<and>
        \<not> pf_in_use (process_fd_table c ! i) \<and> \<not> pf_in_use (process_fd_table c ! j))) \<and>
     (\<exists>a b. free_fd (fsys s) a \<and> free_fd (fsys s) b \<and> a \<noteq> b)"

text \<open>
  C26: The programs that change files, \<open>cp\<close>, \<open>mv\<close>, \<open>rm\<close> and \<open>touch\<close>, run as processes, refine operations on the
  map from names to permissions and contents: the program has exactly that effect on the volume, leaves no
  descriptor open and exits, and the kernel invariant holds afterwards. This holds where the program is
  allowed: the names are valid and no named file is open; \<open>cp\<close> and \<open>mv\<close> have an existing, readable source other
  than the destination; \<open>rm\<close> has one or more distinct existing names; \<open>touch\<close> has one name; a file that is written
  is writable and there is room for it. The process has no error yet and two free descriptors. This composes the program, the system calls,
  the descriptor table of the process, the kernel's exit and the file system.
\<close>

theorem programs_refine_files:
  assumes "starts h s F" and "program_allowed p F (fsys s)"
  shows "\<exists>s'. program_body h p s = Some (Exited, s') \<and> holds h (fsys s') (program_effect p F) \<and> kernel_inv (kern s') \<and>
    (\<forall>i. ref_count (global_fd_table (fsys s) i) = 0 \<longrightarrow> ref_count (global_fd_table (fsys s') i) = 0)"
proof -
  obtain u c i j a b where r: "holds h (fsys s) F" "runs s u c" "errnumber c = 0" "i < PROCESS_FD_TABLE_SIZE" "j < PROCESS_FD_TABLE_SIZE"
    "i \<noteq> j" "\<not> pf_in_use (process_fd_table c ! i)" "\<not> pf_in_use (process_fd_table c ! j)"
    "free_fd (fsys s) a" "free_fd (fsys s) b" "a \<noteq> b"
    using assms(1) unfolding starts_def by blast
  show ?thesis
  proof (cases p)
    case (P_cp src dst)
    then obtain perm d where f: "F src = Some (perm, d)" "readable perm" "room_left (length d) (fsys s)"
      using assms(2) by (auto split: option.splits)
    have e: "program_effect p F = F(dst \<mapsto> (perm_of F dst, d))" using f(1) P_cp by simp
    have "\<exists>s'. cp h [ascii ''cp'', src, dst] s = Some (Exited, s') \<and> holds h (fsys s') (F(dst \<mapsto> (perm_of F dst, d))) \<and>
        kernel_inv (kern s') \<and> (\<forall>i. ref_count (global_fd_table (fsys s') i) = ref_count (global_fd_table (fsys s) i))"
      by (rule cp_program [OF r(2-8,1) f(1,2) _ _ _ _ _ r(9-11)]) (use f(3) assms(2) P_cp in \<open>simp_all add: room_left_def\<close>)
    then show ?thesis unfolding e unfolding P_cp program_body.simps by auto
  next
    case (P_mv src dst)
    then obtain perm d where f: "F src = Some (perm, d)" "readable perm" using assms(2) by (auto split: option.splits)
    have "\<forall>perm d. F src = Some (perm, d) \<longrightarrow> \<not> open_denied perm F_READ" using f by (simp add: readable_def)
    from k_mv_files [OF r(1) _ _ _ _ r(9) this, of dst] obtain fs' where k: "k_mv h src dst (fsys s) = Some (0, fs')"
      "holds h fs' (F(src := None, dst := F src))"
      "\<forall>i. ref_count (global_fd_table (fsys s) i) = 0 \<longrightarrow> ref_count (global_fd_table fs' i) = 0"
      using assms(2) P_mv f(1) by auto
    obtain s' where e: "finish 0 (s\<lparr>fsys := fs'\<rparr>) = Some (Exited, s')" "fsys s' = fs'" "kernel_inv (kern s')"
      using finish_runs [of "s\<lparr>fsys := fs'\<rparr>" u c 0] r(2) by auto
    have "program_body h p s = Some (Exited, s')"
      using status_call_ok [of "k_mv h src dst" s fs', OF k(1)] e(1) P_mv by (simp add: mv_def two_args_def s_mv_def)
    then show ?thesis using k(2,3) e(2,3) P_mv by simp
  next
    case (P_rm fnames)
    then show ?thesis using rm_all_ok [OF r(2,3,1), of fnames] assms(2) by (auto simp: rm_def arg_at_def)
  next
    case (P_touch f)
    have "\<exists>s'. touch h [ascii ''touch'', f] s = Some (Exited, s') \<and> kernel_inv (kern s') \<and> holds h (fsys s') (program_effect p F) \<and>
        (\<forall>i. ref_count (global_fd_table (fsys s') i) = ref_count (global_fd_table (fsys s) i))"
      unfolding P_touch program_effect.simps
      by (rule touch_program [OF r(2,3,4,7,1) _ _ _ r(9)]) (use assms(2) P_touch in \<open>simp_all add: room_left_def\<close>)
    then show ?thesis unfolding P_touch program_body.simps by auto
  qed
qed

section \<open>Witnesses\<close>

text \<open>The shell of the example kernel on the image with one file \<open>a\<close>.\<close>

definition os_example :: os where
  "os_example = \<lparr>kern = demo, fsys = fs_file_example\<rparr>"

abbreviation pcb_example :: pcb where
  "pcb_example \<equiv> demo_pcb 2 1 (demo_list 103 106 False) PROCESS_RUNNING 0 0"

lemma runs_example: "runs os_example 2 pcb_example" "errnumber pcb_example = 0"
  "\<not> pf_in_use (process_fd_table pcb_example ! 3)" "\<not> pf_in_use (process_fd_table pcb_example ! 4)"
proof -
  show "runs os_example 2 pcb_example"
    unfolding runs_def os_example_def using demo_inv demo_current demo_pcbs(2)
    by (intro conjI exI [of _ demo_q] exI [of _ demo_c] exI [of _ 1]) (simp_all add: demo_pcb_def)
qed (simp_all add: demo_pcb_def nth_append)

lemma free_example: "free_fd fs_file_example 3" "free_fd fs_file_example 4" "room_left 2 fs_file_example" "room_left 0 fs_file_example"
proof -
  show "free_fd fs_file_example 3" "free_fd fs_file_example 4"
    by (simp_all add: free_fd_def fs_file_example_def fs_example_def put_entry_def Let_def empty_fd_entry_def)
  have z: "3 \<in> free_blocks fs_file_example" "4 \<in> free_blocks fs_file_example" "block_size fs_file_example = 256"
    by (simp_all add: free_blocks_def fs_file_example_def fs_example_def put_entry_def Let_def max_block_def)
  then have "card {3, 4::nat} \<le> card (free_blocks fs_file_example)" by (intro card_mono) auto
  then show "room_left 2 fs_file_example" "room_left 0 fs_file_example" using z by (auto simp: room_left_def)
qed

lemma starts_example: "starts host_example os_example [[97] \<mapsto> (6, [104, 105])]"
proof -
  have "(3::nat) < PROCESS_FD_TABLE_SIZE" "(4::nat) < PROCESS_FD_TABLE_SIZE" "(3::nat) \<noteq> 4" by simp_all
  then show ?thesis
    unfolding starts_def using holds_example runs_example free_example(1,2) by (fastforce simp: os_example_def)
qed

lemma perms_example: "readable 6" "writable 6"
  by (simp_all add: readable_def writable_def open_denied_def write_perm_def)

theorem programs_refine_files_witness:
  "\<exists>s'. program_body host_example (P_cp [97] [98]) os_example = Some (Exited, s') \<and>
    holds host_example (fsys s') [[97] \<mapsto> (6, [104, 105]), [98] \<mapsto> (6, [104, 105])]"
proof -
  have "program_allowed (P_cp [97] [98]) [[97] \<mapsto> (6, [104, 105])] (fsys os_example)"
    using source_example_facts(6) perms_example unopened_example(1) free_example(3)
    by (simp add: perm_of_def os_example_def numeral_2_eq_2)
  from programs_refine_files [OF starts_example this] show ?thesis by (auto simp: perm_of_def)
qed

theorem cat_program_prints_witness:
  "\<exists>s'. cat host_example [] [ascii ''cat'', [97]] os_example = Some (Exited, s') \<and> printed fs_file_example (fsys s') [104, 105]"
proof -
  have "on_terminal host_example fs_file_example (process_fd_table pcb_example ! 1)"
    by (simp add: on_terminal_def demo_pcb_def std_entry_def host_example_def fs_file_example_def fs_example_def put_entry_def Let_def
        stdio_entry_def is_mounted_def empty_fd_entry_def)
  then show ?thesis
    using cat_program_prints [of os_example 2 pcb_example 3 host_example _ "[97]" 6 "[104, 105]" 3 "[]" "ascii ''cat''"]
      runs_example holds_example perms_example(1) unopened_example(1) free_example(1)
    by (force simp: os_example_def)
qed

text \<open>The same process with its standard output open on the file, at its end.\<close>

definition echo_example :: os where
  "echo_example = moved os_example 2 pcb_example ((process_fd_table pcb_example)[1 := \<lparr>pf_global_fd = 3, pf_offset = 2, pf_mode = 1, pf_in_use = True\<rparr>])
     (the (map_option snd (k_open host_example [97] F_APPEND fs_file_example)))"

lemma on_file_room:
  assumes "on_file h fs F g f cap"
  shows "on_file h fs F g f (card (free_blocks fs) * block_size fs)"
  using assms unfolding on_file_def by (metis add_mult_distrib le_add2)

theorem echo_program_appends_witness:
  "\<exists>s'. echo host_example [ascii ''echo'', [111, 107]] echo_example = Some (Exited, s') \<and>
    holds host_example (fsys s') [[97] \<mapsto> (6, [104, 105, 111, 107, 10])]"
proof -
  let ?F = "[[97] \<mapsto> (6, [104, 105])] :: byte list \<rightharpoonup> nat \<times> byte list"
  let ?t = "(process_fd_table pcb_example)[1 := \<lparr>pf_global_fd = 3, pf_offset = 2, pf_mode = 1, pf_in_use = True\<rparr>]"
  have fd: "find_empty_fd fs_file_example = 3"
    using free_example(1) by (simp add: find_empty_fd_def find_empty_fd_from.simps [of fs_file_example 3] free_fd_def)
  have "\<not> open_denied 6 F_APPEND" by (simp add: open_denied_def)
  then obtain fs where o: "k_open host_example [97] F_APPEND fs_file_example = Some (3, fs)" "on_file host_example fs ?F 3 [97] 0"
    "write_locked (global_fd_table fs 3) = 2" "same_on fs_file_example fs UNIV"
    using open_keep [OF holds_example _ _ unopened_example(1) free_example(1), of "[97]" 6 "[104, 105]" F_APPEND] unfolding fd by auto
  have on: "on_file host_example fs ?F 3 [97] 5"
  proof (rule on_file_less [OF on_file_room [OF o(2)]])
    have "free_blocks fs = free_blocks fs_file_example" "block_size fs = block_size fs_file_example"
      using o(4) by (auto simp: same_on_def free_blocks_def)
    moreover have "2 \<le> (card (free_blocks fs_file_example) - 1) * block_size fs_file_example" "block_size fs_file_example = 256"
      using free_example(3) by (simp_all add: room_left_def fs_file_example_def fs_example_def put_entry_def Let_def)
    ultimately show "5 \<le> card (free_blocks fs) * block_size fs" by simp
  qed
  have s: "echo_example = moved os_example 2 pcb_example ?t fs" using o(1) by (simp add: echo_example_def)
  have l: "length ?t = PROCESS_FD_TABLE_SIZE" by (simp add: demo_pcb_def)
  have "fd_on (?t ! 1) 3 2 1" by (simp add: fd_on_def demo_pcb_def)
  then show ?thesis
    using echo_program_appends [OF runs_moved [OF runs_example(1) l, of fs], of 3 2 1 "[104, 105]" host_example ?F "[97]" 5 6 "[111, 107]"
      "ascii ''echo''"] on o(3) runs_example(2)
    unfolding s by (auto simp: write_perm_def)
qed

end
