(* ===== verification/Preemption.thy ===== *)
theory Preemption
  imports List_Walks
begin

text \<open>
  A kernel call runs on the thread of the process that makes it, and the scheduler may suspend that
  thread between any two of its memory accesses. The macro \<open>linked_list_push_tail\<close> as the sequence of
  its reads and writes, each a step; without an interruption the steps make up the macro. Between
  two steps the scheduler may rotate the queue, as \<open>_run_next_process\<close> does after every quantum.
\<close>

section \<open>Appending in steps\<close>

text \<open>
  The next access: the read of the head, then the accesses of one of the two branches. In the second
  one \<open>self->tail\<close> is read twice; the value read is part of the program counter until it is used.
\<close>

datatype push_pc =
  Push_test | Empty_head | Empty_tail | Empty_prev | Empty_next
| Full_read | Full_link "addr option" | Full_reread | Full_prev "addr option" | Full_next | Full_tail | Push_done

fun push_step :: "addr \<Rightarrow> push_pc \<times> llist \<times> links \<Rightarrow> (push_pc \<times> llist \<times> links) option" where
  "push_step ele (Push_test, self, h) = Some (if ll_head self = None then Empty_head else Full_read, self, h)"
| "push_step ele (Empty_head, self, h) = Some (Empty_tail, self\<lparr>ll_head := Some ele\<rparr>, h)"
| "push_step ele (Empty_tail, self, h) = Some (Empty_prev, self\<lparr>ll_tail := Some ele\<rparr>, h)"
| "push_step ele (Empty_prev, self, h) = Some (Empty_next, self, set_prev ele None h)"
| "push_step ele (Empty_next, self, h) = Some (Push_done, self, set_next ele None h)"
| "push_step ele (Full_read, self, h) = Some (Full_link (ll_tail self), self, h)"
| "push_step ele (Full_link p, self, h) =
     (case p of None \<Rightarrow> None | Some t \<Rightarrow> Some (Full_reread, self, set_next t (Some ele) h))"
| "push_step ele (Full_reread, self, h) = Some (Full_prev (ll_tail self), self, h)"
| "push_step ele (Full_prev p, self, h) = Some (Full_next, self, set_prev ele p h)"
| "push_step ele (Full_next, self, h) = Some (Full_tail, self, set_next ele None h)"
| "push_step ele (Full_tail, self, h) = Some (Push_done, self\<lparr>ll_tail := Some ele\<rparr>, h)"
| "push_step ele (Push_done, self, h) = Some (Push_done, self, h)"

primrec push_steps :: "addr \<Rightarrow> nat \<Rightarrow> push_pc \<times> llist \<times> links \<Rightarrow> (push_pc \<times> llist \<times> links) option" where
  "push_steps ele 0 s = Some s"
| "push_steps ele (Suc n) s = do { s \<leftarrow> push_step ele s; push_steps ele n s }"

text \<open>Without an interruption the steps are the macro; the longer branch has seven.\<close>

lemma push_uninterrupted: "push_steps ele 7 (Push_test, q) = map_option (Pair Push_done) (linked_list_push_tail ele q)"
  by (cases q; cases "ll_head (fst q)"; cases "ll_tail (fst q)") (simp_all add: numeral_eq_Suc linked_list_push_tail_def)

section \<open>The scheduler in between\<close>

text \<open>What the scheduler does with the queue after a quantum.\<close>

definition rotate_ready :: "llist \<times> links \<Rightarrow> (llist \<times> links) option" where
  "rotate_ready q =
     (case linked_list_pop_head q of
        (None, q) \<Rightarrow> Some q
      | (Some first, q) \<Rightarrow> linked_list_push_tail first q)"

text \<open>The append is interrupted after \<open>k\<close> accesses and goes on in a later quantum.\<close>

definition preempted_push :: "addr \<Rightarrow> nat \<Rightarrow> llist \<times> links \<Rightarrow> (llist \<times> links) option" where
  "preempted_push ele k q = do {
     (pc, q) \<leftarrow> push_steps ele k (Push_test, q);
     q \<leftarrow> rotate_ready q;
     (pc, q) \<leftarrow> push_steps ele (7 - k) (pc, q);
     Some q
   }"

lemma rotate_refines:
  assumes d: "dll (self, h) (a # xs)"
  shows "\<exists>self' h'. rotate_ready (self, h) = Some (self', h') \<and> dll (self', h') (xs @ [a]) \<and> same_links (- set (a # xs)) h h'"
proof -
  obtain s1 h1 where p: "linked_list_pop_head (self, h) = (Some a, s1, h1)" "dll (s1, h1) xs" "same_links (- set (a # xs)) h h1"
    using pop_head_refines [OF d] by blast
  have a: "a \<notin> set xs" using dll_distinct [OF d] by simp
  obtain s2 h2 where q: "linked_list_push_tail a (s1, h1) = Some (s2, h2)" "dll (s2, h2) (xs @ [a])" "same_links (- insert a (set xs)) h1 h2"
    using push_tail_refines [OF p(2) a] by blast
  have "same_links (- set (a # xs)) h h2" using same_links_trans [OF p(3)] q(3) by simp
  then show ?thesis using p(1) q(1,2) by (simp add: rotate_ready_def)
qed

text \<open>The assignments of the rotation, on any heap in which the first two elements and the tail are as in the queue.\<close>

definition rotated :: "bool \<Rightarrow> addr \<Rightarrow> addr \<Rightarrow> addr \<Rightarrow> links \<Rightarrow> links" where
  "rotated dtor a b t h =
     (let h = set_next a None (set_prev a None (set_prev b None h));
          h = (if dtor then h\<lparr>destroyed := destroyed h @ [a]\<rparr> else h)
      in set_next a None (set_prev a (Some t) (set_next t (Some a) h)))"

lemma rotate_compute:
  assumes "ll_head self = Some a" "ll_tail self = Some t" "l_next h a = Some b" "l_prev h a = None" "b \<noteq> a"
  shows "rotate_ready (self, h) = Some (self\<lparr>ll_head := Some b, ll_tail := Some a\<rparr>, rotated (ele_dtor self) a b t h)"
  using assms by (simp add: rotate_ready_def linked_list_pop_head_def linked_list_remove_def linked_list_push_tail_def rotated_def Let_def)

text \<open>The rotation overwrites the link of the last element and leaves a node outside the queue alone.\<close>

lemma rotated_frame:
  "t \<noteq> a \<Longrightarrow> rotated dtor a b t (set_next t v h) = rotated dtor a b t h"
  "ele \<notin> {a, b, t} \<Longrightarrow> rotated dtor a b t (set_prev ele v h) = set_prev ele v (rotated dtor a b t h)"
  "ele \<notin> {a, b, t} \<Longrightarrow> rotated dtor a b t (set_next ele v h) = set_next ele v (rotated dtor a b t h)"
  by (auto intro!: links.equality simp: rotated_def Let_def fun_eq_iff)

text \<open>The appended process is the last one of the header, but the walk from the head meets \<open>ys\<close>.\<close>

lemma linked_walk:
  assumes q: "dll (self, h) ys" and e: "ele \<notin> set ys"
  shows "walk (set_next ele None (set_prev ele v h)) (ll_head self) ys"
proof -
  have "l_next (set_next ele None (set_prev ele v h)) x = l_next h x" if "x \<in> set ys" for x using e that by auto
  from walk_cong [OF this] show ?thesis using dll_walk [OF q] by simp
qed

lemma tail_outside: "ll_tail self = Some ele \<Longrightarrow> ele \<notin> set ys \<Longrightarrow> ys \<noteq> [] \<Longrightarrow> \<not> dll (self, h) ys"
  using last_opt_in [of ys ele] by (auto simp: dll_def)

text \<open>An interruption after the third access: the rotation overwrites the new link, and the appended process is lost.\<close>

lemma preempted_late:
  assumes d: "dll (self, h) (a # b # zs)" and e: "ele \<notin> set (a # b # zs)" and k: "k \<in> {3, 4, 5, 6}"
  shows "\<exists>self' h'. preempted_push ele k (self, h) = Some (self', h') \<and> walk h' (ll_head self') (b # zs @ [a]) \<and>
    ll_tail self' = Some ele"
proof -
  define t where "t = last (b # zs)"
  have t: "t \<in> set (b # zs)" "last_opt (b # zs) None = Some t"
    using last_opt_last [of "b # zs" None] unfolding t_def by (simp_all del: last_opt.simps)
  have f: "ll_head self = Some a" "ll_tail self = Some t" "l_next h a = Some b" "l_prev h a = None" "b \<noteq> a" "t \<noteq> a" "ele \<notin> {a, b, t}"
    using d e t by (auto simp: dll_def)
  let ?s = "self\<lparr>ll_head := Some b, ll_tail := Some a\<rparr>" and ?h = "rotated (ele_dtor self) a b t h"
  have r: "rotate_ready (self, h) = Some (?s, ?h)" by (rule rotate_compute [OF f(1-5)])
  then have q: "dll (?s, ?h) (b # zs @ [a])" using rotate_refines [OF d] by auto
  have w: "walk (set_next ele None (set_prev ele v ?h)) (ll_head ?s) (b # zs @ [a])" for v
    by (rule linked_walk [OF q]) (use e in auto)
  have p: "rotate_ready (self, set_next t (Some ele) h) = Some (?s, ?h)"
    "rotate_ready (self, set_prev ele (Some t) (set_next t (Some ele) h)) = Some (?s, set_prev ele (Some t) ?h)"
    "rotate_ready (self, set_next ele None (set_prev ele (Some t) (set_next t (Some ele) h))) =
      Some (?s, set_next ele None (set_prev ele (Some t) ?h))"
    using f by (subst rotate_compute [of self a t _ b]; auto simp: rotated_frame)+
  have "\<exists>v. preempted_push ele k (self, h) = Some (?s\<lparr>ll_tail := Some ele\<rparr>, set_next ele None (set_prev ele v ?h))"
    using k f p by (elim insertE emptyE) (simp_all add: preempted_push_def numeral_eq_Suc, blast+)
  then show ?thesis using w by fastforce
qed

text \<open>
  An interruption between the read of the tail and the write of the link: the link is written into the
  element that is no longer the last one, and the process that has just run is lost.
\<close>

lemma preempted_early:
  assumes d: "dll (self, h) (a # b # zs)" and e: "ele \<notin> set (a # b # zs)"
  shows "\<exists>self' h'. preempted_push ele 2 (self, h) = Some (self', h') \<and> walk h' (ll_head self') (b # zs @ [ele]) \<and>
    l_prev h' ele = Some a"
proof -
  define t where "t = last (b # zs)"
  have t: "t \<in> set (b # zs)" "last_opt (b # zs) None = Some t"
    using last_opt_last [of "b # zs" None] unfolding t_def by (simp_all del: last_opt.simps)
  have f: "ll_head self = Some a" "ll_tail self = Some t" using d t by (auto simp: dll_def)
  obtain s1 h1 where r: "rotate_ready (self, h) = Some (s1, h1)" "dll (s1, h1) (b # zs @ [a])" using rotate_refines [OF d] by auto
  let ?h = "set_next ele None (set_prev ele (Some a) (set_next t (Some ele) h1))"
  have tail: "ll_tail s1 = Some a" "ll_head s1 = Some b" using r(2) by (auto simp: dll_def)
  have p: "preempted_push ele 2 (self, h) = Some (s1\<lparr>ll_tail := Some ele\<rparr>, ?h)"
    using f r(1) tail by (simp add: preempted_push_def numeral_eq_Suc)
  obtain ys where ys: "b # zs = ys @ [t]" unfolding t_def by (metis append_butlast_last_id list.distinct(1))
  have "dll (s1, h1) ((ys @ [t]) @ [a])" using r(2) ys [symmetric] by simp
  then have seg: "dseg h1 None (ys @ [t]) (Some a)" and "t \<notin> set ys" by (simp_all add: dll_def)
  moreover have "ele \<notin> set (ys @ [t])" unfolding ys [symmetric] using e by simp
  ultimately have dist: "t \<notin> set ys" "ele \<notin> set (ys @ [t])" by simp_all
  have "walk ?h (hd_opt (ys @ [t]) (Some a)) (ys @ t # [ele])"
  proof (rule dseg_walk_then [OF seg])
    show "walk ?h (l_next ?h t) [ele]" using dist by simp
    show "l_next ?h x = l_next h1 x" if "x \<in> set ys" for x using dist that by auto
  qed
  moreover have "hd_opt (ys @ [t]) (Some a) = Some b" using ys [symmetric] by simp
  moreover have "ys @ t # [ele] = b # zs @ [ele]" using ys by simp
  ultimately have "walk ?h (ll_head s1) (b # zs @ [ele])" using tail(2) by simp
  then show ?thesis using p e by auto
qed

text \<open>One process in the queue: its own link is the one that is written.\<close>

lemma preempted_single:
  assumes d: "dll (self, h) [a]" and e: "ele \<noteq> a"
  shows "\<exists>q. preempted_push ele 2 (self, h) = Some q \<and> dll q [a, ele]"
    and "k \<in> {3, 4, 5, 6} \<Longrightarrow> \<exists>self' h'. preempted_push ele k (self, h) = Some (self', h') \<and> walk h' (ll_head self') [ele]"
proof -
  have f: "ll_head self = Some a" "ll_tail self = Some a" "l_next h a = None" "l_prev h a = None"
    using d by (auto simp: dll_def)
  show "\<exists>q. preempted_push ele 2 (self, h) = Some q \<and> dll q [a, ele]"
    using f e by (simp add: preempted_push_def numeral_eq_Suc rotate_ready_def linked_list_pop_head_def
        linked_list_remove_def linked_list_push_tail_def dll_def Let_def)
  show "\<exists>self' h'. preempted_push ele k (self, h) = Some (self', h') \<and> walk h' (ll_head self') [ele]" if "k \<in> {3, 4, 5, 6}"
    using that f e by (elim insertE emptyE) (simp_all add: preempted_push_def numeral_eq_Suc rotate_ready_def linked_list_pop_head_def
        linked_list_remove_def linked_list_push_tail_def Let_def)
qed

lemma preempted_outside:
  assumes d: "dll (self, h) (a # zs)" and e: "ele \<notin> set (a # zs)" and k: "k \<in> {0, 1, 7}"
  shows "\<exists>q. preempted_push ele k (self, h) = Some q \<and> dll q (if k = 7 then zs @ [ele, a] else zs @ [a, ele])"
proof (cases "k = 7")
  case True
  obtain s1 h1 where p: "linked_list_push_tail ele (self, h) = Some (s1, h1)" "dll (s1, h1) (a # zs @ [ele])"
    using push_tail_refines [OF d e] by auto
  then show ?thesis
    using True rotate_refines [OF p(2)] by (auto simp: preempted_push_def push_uninterrupted simp del: push_steps.simps(2))
next
  case False
  obtain s1 h1 where r: "rotate_ready (self, h) = Some (s1, h1)" "dll (s1, h1) (zs @ [a])" using rotate_refines [OF d] by auto
  obtain q where p: "linked_list_push_tail ele (s1, h1) = Some q" "dll q (zs @ [a, ele])"
    using push_tail_refines [OF r(2), of ele] e by auto
  have h: "ll_head self = Some a" "ll_head s1 \<noteq> None" using d r(2) by (auto simp: dll_def)
  have all: "push_steps ele 7 (Push_test, s1, h1) = Some (Push_done, q)" using p(1) by (simp add: push_uninterrupted del: push_steps.simps)
  have "push_steps ele 7 (Push_test, s1, h1) = push_steps ele 6 (Full_read, s1, h1)" using h(2) by (auto simp: numeral_eq_Suc)
  then have "push_steps ele 6 (Full_read, s1, h1) = Some (Push_done, q)" using all by simp
  then have "preempted_push ele k (self, h) = Some q"
    using k False r(1) h(1) all by (auto simp: preempted_push_def simp del: push_steps.simps(2)) (simp add: push_steps.simps)
  then show ?thesis using p(2) False by auto
qed

section \<open>Property\<close>

text \<open>
  C22: A kernel call that is preempted can lose a process. The process \<open>ele\<close> is appended to a ready queue
  \<open>a # zs\<close> on the thread of the caller, by seven memory accesses; the scheduler suspends the thread after \<open>k\<close> of them, rotates the queue
  once, and later the call is completed. If the interruption is before the first read of the tail or after the last write, the
  result is the rotated queue with the new process. If it falls between the read of the tail and the write of
  the link (\<open>k = 2\<close>), a later walk of the queue meets the new process but no longer the process that has just run,
  unless that one was alone; if it falls later, the walk
  misses the new process, or, when the queue had one process, the old one. With at least two other processes no list describes
  the header and links that remain. Nothing in the code prevents such an interruption.
\<close>

theorem preempted_push_loses_process:
  assumes "dll q (a # zs)" and "ele \<notin> set (a # zs)" and "k \<le> 7"
  shows "\<exists>self' h'. preempted_push ele k q = Some (self', h') \<and>
    (if k \<le> 1 \<or> k = 2 \<and> zs = [] then dll (self', h') (zs @ [a, ele])
     else if k = 7 then dll (self', h') (zs @ [ele, a])
     else walk h' (ll_head self') (if k = 2 then zs @ [ele] else if zs = [] then [ele] else zs @ [a]) \<and>
       (zs \<noteq> [] \<longrightarrow> (\<nexists>ys. dll (self', h') ys)))"
proof -
  obtain self h where q: "q = (self, h)" by (cases q)
  consider "k \<in> {0, 1, 7}" | "k = 2" | "k \<in> {3, 4, 5, 6}" using assms(3) by force
  then show ?thesis
  proof cases
    case 1
    from preempted_outside [OF assms(1) [unfolded q] assms(2) this] obtain self' h' where
      "preempted_push ele k q = Some (self', h')" "dll (self', h') (if k = 7 then zs @ [ele, a] else zs @ [a, ele])" unfolding q by auto
    then show ?thesis using 1 by auto
  next
    case 2
    show ?thesis
    proof (cases zs)
      case Nil
      then show ?thesis using preempted_single(1) [of self h a ele] assms 2 q by auto
    next
      case (Cons b ys)
      obtain self' h' where p: "preempted_push ele 2 (self, h) = Some (self', h')" "walk h' (ll_head self') (zs @ [ele])" "l_prev h' ele = Some a"
        using preempted_early [of self h a b ys ele] assms q Cons by auto
      have "\<not> dll (self', h') (zs @ [ele])"
      proof
        assume "dll (self', h') (zs @ [ele])"
        then have "last_opt zs None = Some a" using p(3) by (simp add: dll_def)
        then show False using last_opt_in assms(1) q by (metis dll_distinct distinct.simps(2))
      qed
      then show ?thesis using p 2 Cons walk_no_list [OF p(2)] q by auto
    qed
  next
    case 3
    show ?thesis
    proof (cases zs)
      case Nil
      then show ?thesis using preempted_single(2) [of self h a ele k] assms 3 q by auto
    next
      case (Cons b ys)
      obtain self' h' where p: "preempted_push ele k (self, h) = Some (self', h')" "walk h' (ll_head self') (zs @ [a])" "ll_tail self' = Some ele"
        using preempted_late [of self h a b ys ele k] assms 3 q Cons by auto
      have "\<not> dll (self', h') (zs @ [a])" using tail_outside [OF p(3)] assms(2) by auto
      then show ?thesis using p 3 Cons walk_no_list [OF p(2)] q by auto
    qed
  qed
qed

text \<open>A queue of the processes 1 and 2, to which 3 is appended.\<close>

definition queue_example :: "llist \<times> links" where
  "queue_example = (\<lparr>ll_head = Some 1, ll_tail = Some 2, ele_dtor = False\<rparr>, \<lparr>l_prev = [2 \<mapsto> 1], l_next = [1 \<mapsto> 2], destroyed = []\<rparr>)"

theorem preempted_push_loses_process_witness:
  "\<exists>self' h'. preempted_push 3 3 queue_example = Some (self', h') \<and> walk h' (ll_head self') [2, 1]"
proof -
  have "dll queue_example [1, 2]" by (simp add: dll_def queue_example_def)
  then show ?thesis using preempted_push_loses_process [of queue_example 1 "[2]" 3 3] by auto
qed

end
