(* ===== verification/Host_Signals.thy ===== *)
theory Host_Signals
  imports Shell_Loop Sys_Inv Kernel_Example
begin

text \<open>
  The signals of the host: the dispositions that \<^verbatim>\<open>signals.c\<close>, \<open>_setup_sigalarm\<close> in \<^verbatim>\<open>scheduler.c\<close> and the
  stand-alone shell install, which thread takes a signal, and what the forwarded signal does there.
\<close>

section \<open>Dispositions\<close>

datatype disposition = SIG_DFL | SIG_IGN | Run_alarm_handler | Run_pennos_signal_handler

abbreviation SIGQUIT :: int where "SIGQUIT \<equiv> 3"
abbreviation SIGALRM :: int where "SIGALRM \<equiv> 14"
abbreviation SIGCHLD :: int where "SIGCHLD \<equiv> 17"
abbreviation SIGTTIN :: int where "SIGTTIN \<equiv> 21"
abbreviation SIGTTOU :: int where "SIGTTOU \<equiv> 22"

definition ignore_signals :: "(int \<Rightarrow> disposition) \<Rightarrow> int \<Rightarrow> disposition" where
  "ignore_signals a = a(SIGINT := SIG_IGN, SIGTSTP := SIG_IGN, SIGTTOU := SIG_IGN, SIGTTIN := SIG_IGN, SIGCHLD := SIG_DFL)"

definition ignore_sigint_actions :: "(int \<Rightarrow> disposition) \<Rightarrow> int \<Rightarrow> disposition" where
  "ignore_sigint_actions a = a(SIGINT := SIG_IGN, SIGTSTP := SIG_IGN, SIGTTOU := SIG_IGN)"

text \<open>\<open>ok sig\<close> says whether \<open>sigaction\<close> succeeds for that signal.\<close>

definition setup_job_control_handlers :: "(int \<Rightarrow> bool) \<Rightarrow> (int \<Rightarrow> disposition) \<Rightarrow> int \<times> (int \<Rightarrow> disposition)" where
  "setup_job_control_handlers ok a =
     (if \<not> ok SIGINT then (-1, a)
      else let a = a(SIGINT := Run_pennos_signal_handler) in
        if \<not> ok SIGTSTP then (-1, a)
        else (0, a(SIGTSTP := Run_pennos_signal_handler)))"

text \<open>\<open>exiting_set_signal_handler\<close> leaves the program with the code of \<open>exit\<close> when \<open>sigaction\<close> fails.\<close>

definition exiting_set_signal_handler :: "(int \<Rightarrow> bool) \<Rightarrow> int \<Rightarrow> disposition \<Rightarrow> (int \<Rightarrow> disposition) \<Rightarrow> int + (int \<Rightarrow> disposition)" where
  "exiting_set_signal_handler ok sig handler a = (if \<not> ok sig then Inl 1 else Inr (a(sig := handler)))"

text \<open>The set for \<open>sigsuspend\<close>, as the predicate of the signals it blocks, and the mask of the scheduler's thread.\<close>

record sig_state =
  sig_actions :: "int \<Rightarrow> disposition"
  thread_mask :: "int \<Rightarrow> bool"
  suspend_mask :: "int \<Rightarrow> bool"

definition setup_sigalarm :: "sig_state \<Rightarrow> sig_state" where
  "setup_sigalarm s = s\<lparr>suspend_mask := (\<lambda>sig. True)(SIGALRM := False),
     sig_actions := (sig_actions s)(SIGALRM := Run_alarm_handler),
     thread_mask := (thread_mask s)(SIGALRM := False)\<rparr>"

definition alarm_handler :: "kernel \<Rightarrow> kernel" where
  "alarm_handler k = k"

text \<open>The calls of \<open>main\<close> in \<^verbatim>\<open>penn-shell.c\<close>; the result of the last one is not looked at.\<close>

definition main_signals :: "(int \<Rightarrow> bool) \<Rightarrow> sig_state \<Rightarrow> sig_state" where
  "main_signals ok s =
     (let s = s\<lparr>sig_actions := ignore_signals (sig_actions s)\<rparr>;
          s = setup_sigalarm s
      in s\<lparr>sig_actions := snd (setup_job_control_handlers ok (sig_actions s))\<rparr>)"

definition pennfat_signals :: "(int \<Rightarrow> disposition) \<Rightarrow> int \<Rightarrow> disposition" where
  "pennfat_signals a = a(SIGINT := SIG_IGN, SIGQUIT := SIG_IGN, SIGTSTP := SIG_IGN)"

section \<open>Delivery\<close>

text \<open>
  The threads that can take a signal of the process: the scheduler's, which sleeps in \<open>sigsuspend\<close> during a
  quantum, and the one of the process that runs, which inherited the mask of the scheduler's thread. The other
  threads sleep with everything but \<open>SIGPTHD\<close> blocked.
\<close>

datatype host_thread = Scheduler_awake | Scheduler_asleep | Running_process

text \<open>The mask in force on a thread: \<open>sigsuspend\<close> replaces the mask of the scheduler's thread.\<close>

fun mask_of :: "sig_state \<Rightarrow> host_thread \<Rightarrow> int \<Rightarrow> bool" where
  "mask_of s Scheduler_asleep = suspend_mask s"
| "mask_of s _ = thread_mask s"

text \<open>
  What a signal that is directed at a thread leads to: it stays pending, or the thread runs its action, on
  its own stack, and goes on, or it ends inside the handler: \<open>spthread_exit\<close> and \<open>pthread_exit\<close> end the
  thread that calls them.
\<close>

datatype delivery = Pending | Goes_on host_thread | Ended host_thread

text \<open>\<^term>\<open>None\<close> stands for a bad access or the host's default action.\<close>

definition take_signal :: "sig_state \<Rightarrow> host_thread \<Rightarrow> int \<Rightarrow> kernel \<Rightarrow> (delivery \<times> kernel) option" where
  "take_signal s th sig k =
     (if mask_of s th sig then Some (Pending, k)
      else case sig_actions s sig of
        SIG_DFL \<Rightarrow> if sig = SIGCHLD then Some (Goes_on th, k) else None
      | SIG_IGN \<Rightarrow> Some (Goes_on th, k)
      | Run_alarm_handler \<Rightarrow> Some (Goes_on th, alarm_handler k)
      | Run_pennos_signal_handler \<Rightarrow> do {
          (r, k) \<leftarrow> pennos_signal_handler sig k;
          Some (case r of Thread_exited \<Rightarrow> Ended th | Returned _ \<Rightarrow> Goes_on th, k)
        })"

lemma main_signals_actions:
  assumes "\<And>sig. ok sig"
  shows "sig_actions (main_signals ok s) SIGINT = Run_pennos_signal_handler" "sig_actions (main_signals ok s) SIGTSTP = Run_pennos_signal_handler"
    "sig_actions (main_signals ok s) SIGALRM = Run_alarm_handler" "sig_actions (main_signals ok s) SIGTTOU = SIG_IGN"
    "sig_actions (main_signals ok s) SIGTTIN = SIG_IGN"
  using assms by (simp_all add: main_signals_def setup_job_control_handlers_def setup_sigalarm_def ignore_signals_def Let_def)

lemma main_signals_masks:
  "thread_mask (main_signals ok s) = (thread_mask s)(SIGALRM := False)" "suspend_mask (main_signals ok s) = (\<lambda>sig. True)(SIGALRM := False)"
  by (simp_all add: main_signals_def setup_sigalarm_def Let_def)

section \<open>Forwarding\<close>

lemma kill_current:
  assumes k: "kinv s Q C i" and u: "current_process s = Some u" "u \<noteq> i" and c: "pcbs s u = Some c" "state c = PROCESS_RUNNING" "\<not> ignore_sigint c"
  shows "\<exists>s'. s_kill (pid c) P_SIGINT s = Some (Thread_exited, s') \<and> kernel_inv s'"
proof -
  have q: "u \<in> active Q" "u \<in> queued Q" using running_ready(4) [OF k u(1) c(1,2)] active_sub by blast+
  obtain r where r: "k_get_process_by_pid (pid c) s = Some r"
    "case r of None \<Rightarrow> \<forall>a\<in>queued Q. pid_at s a \<noteq> Some (pid c) | Some a \<Rightarrow> pid_at s a = Some (pid c) \<and> (a \<in> queued Q \<or> current_process s = Some a)"
    using k_get_process_by_pid_ok [OF k, of "pid c"] by blast
  have pu: "pid_at s u = Some (pid c)" using c(1) by (simp add: pid_at_def)
  then obtain a where a: "r = Some a" "pid_at s a = Some (pid c)" "a \<in> queued Q" using r(2) q(2) u(1) by (cases r) auto
  have inj: "inj_on (pid_at s) (queued Q)" using kinvD(1) [OF k] by (simp add: sched_inv_def)
  then have "a = u" using a(2,3) q(2) pu by (metis inj_onD)
  then have l: "k_get_process_by_pid (pid c) s = Some (Some u)" using r(1) a(1) by simp
  have "i \<in> queued Q" "pid_at s i = Some 1" using treeD(3,4) [OF kinvD(2) [OF k]] active_sub by blast+
  then have p1: "pid c \<noteq> 1" using inj_onD [OF inj, of u i] q(2) pu u(2) by auto
  let ?l = "log_signaled (pid c) (int (priority c)) (command c) s"
  have kl: "kinv ?l Q C i" "current_process ?l = Some u" "pcbs ?l u = Some c" using k u(1) c(1) by (simp_all add: log_defs)
  obtain qq where qq: "valid_q qq" "qq \<noteq> Zombie" "u \<in> set (Q qq)" using activeE [OF q(1)] by blast
  obtain s' where s': "k_proc_exit (Some u) 1 ?l = Some (Thread_exited, s')"
    using k_proc_exit_ok [OF kinvD(1,2) [OF kl(1)] qq u(2) kl(3) kl(2) kl(3) refl refl, of 1] by auto
  then have "kernel_inv s'" using exit_kinv [OF kl(1) q(1) u(2) kl(3) kl(2), of 1] by (auto intro: kernel_invI)
  then show ?thesis using s' l p1 c(1,3) by (simp add: s_kill_def kill_switch_def kill_return_def kill_term_def Let_def)
qed

text \<open>
  C23: Where an interrupt from the keyboard goes, when the running process is the foreground process
  and does not ignore the signal (a job, not the shell, which ignores it). After the set-up of \<open>main\<close>
  a \<open>SIGINT\<close> at the scheduler's thread stays pending while that sleeps during a quantum, and on the
  thread of the running process it ends this thread inside the handler, as it should. But while it is awake
  between two quanta the scheduler's own thread runs the handler, the process that ran last is
  still the current one, and the same call ends the thread of the scheduler. (Every \<open>sigaction\<close>
  succeeds, and the program was not started with \<open>SIGINT\<close> blocked.)
\<close>

theorem interrupt_ends_thread:
  assumes "\<And>sig. ok sig" and "\<not> thread_mask sg SIGINT"
    and "kinv k Q C i" "current_process k = Some u" "u \<noteq> i" "pcbs k u = Some c" "state c = PROCESS_RUNNING"
    and "\<not> ignore_sigint c" "terminal_controlling_pid k = pid c"
  shows "\<exists>k'. take_signal (main_signals ok sg) Running_process SIGINT k = Some (Ended Running_process, k') \<and>
    take_signal (main_signals ok sg) Scheduler_awake SIGINT k = Some (Ended Scheduler_awake, k') \<and>
    take_signal (main_signals ok sg) Scheduler_asleep SIGINT k = Some (Pending, k) \<and> kernel_inv k'"
proof -
  obtain k' where "s_kill (pid c) P_SIGINT k = Some (Thread_exited, k')" "kernel_inv k'"
    using kill_current [OF assms(3-8)] by blast
  then have "pennos_signal_handler SIGINT k = Some (Thread_exited, k')" "kernel_inv k'"
    using assms(9) by (simp_all add: pennos_signal_handler_def)
  then show ?thesis
    using assms(2) main_signals_masks [of ok sg] main_signals_actions(1) [OF assms(1)] by (simp add: take_signal_def)
qed

definition started :: sig_state where
  "started = \<lparr>sig_actions = (\<lambda>_. SIG_DFL), thread_mask = (\<lambda>_. False), suspend_mask = (\<lambda>_. False)\<rparr>"

theorem interrupt_ends_thread_witness:
  "\<exists>k'. take_signal (main_signals (\<lambda>_. True) started) Scheduler_awake SIGINT demo = Some (Ended Scheduler_awake, k')"
proof -
  have c: "state (demo_pcb 2 1 (demo_list 103 106 False) PROCESS_RUNNING 0 0) = PROCESS_RUNNING"
    "\<not> ignore_sigint (demo_pcb 2 1 (demo_list 103 106 False) PROCESS_RUNNING 0 0)"
    "terminal_controlling_pid demo = pid (demo_pcb 2 1 (demo_list 103 106 False) PROCESS_RUNNING 0 0)"
    by (simp_all add: demo_pcb_def demo_def)
  show ?thesis
    using interrupt_ends_thread [OF _ _ demo_inv demo_current _ demo_pcbs(2) c, of "\<lambda>_. True" started]
    by (auto simp: started_def)
qed

end
