(* ===== verification/Spec2Isabelle.thy ===== *)
theory Spec2Isabelle
  imports Fat_Commands File_Props Parser_Props Shell_Props Spthread_Props Proc_Programs Preemption Host_Signals
begin

text \<open>
  A verification library for PennOS, an operating system that runs as one host process: a
  priority scheduler and process kernel, a FAT file system on a host file, and a shell with job
  control, written in C under \<^verbatim>\<open>src/src\<close>. The theories model the code function by function and prove
  what makes each part correct; where the code misbehaves the theorems state what it does.

  \<^bold>\<open>The program.\<close> The boot code mounts an image, creates \<open>init\<close> and enters the scheduler. A step of the
  scheduler wakes sleepers, picks a ready queue from a table of 19 turns, and lets the thread of the
  process at its head run for a quantum. The thread calls the system calls \<open>s_\<close>, which act on the
  kernel (\<open>k_\<close> functions on processes) and on the file system (\<open>k_\<close> functions on files) through
  the descriptor table of its process. The shell is a process that reads lines, parses them,
  keeps a list of jobs, spawns a process per command and waits for it. A second program, the
  stand-alone PennFAT shell, works on images without the kernel.

  \<^bold>\<open>Conventions\<close> (\<open>Prelude\<close>). Unsigned C integers are natural numbers with the casts written out, \<open>int\<close>
  is \<^typ>\<open>int\<close>, stored bytes are \<^typ>\<open>8 word\<close>s. State is passed explicitly. A function that may follow
  a bad pointer, leave an array or loop forever returns an option, and \<^term>\<open>None\<close> is that event;
  error codes are ordinary values. So a theorem that a call gives \<^term>\<open>Some\<close> says that it returns. Loops
  whose end is not structural are partial functions into options; nothing depends on fuel. The
  outcomes of host calls (allocation, reads and writes of the image, the clock, the terminal) and
  the contents of uninitialised memory are arguments of the definitions.

  \<^bold>\<open>Lists\<close> (\<open>Linked_List\<close>, \<^verbatim>\<open>src/lib/linked_list.h\<close>). The macros over a heap of links, with the hand-written
  unlinking of the scheduler. The locale \<open>queue_ops\<close> is the interface the kernel relies on;
  it is interpreted for both. \<open>List_Walks\<close> says what a walk from the head meets on lists that are not
  well formed.

  \<^bold>\<open>Error codes\<close> (\<open>Error_Codes\<close>, \<^verbatim>\<open>utils/error_codes.h\<close>, \<^verbatim>\<open>utils/errno.c\<close>): distinct, negative, each with a message
  that fits its buffer.

  \<^bold>\<open>File system\<close> (\<^verbatim>\<open>src/src/pennfat\<close>). \<open>Fat_Format\<close>: first FAT entry, \<open>mkfs\<close>, layout of directory entries.
  \<open>Fat_Blocks\<close>: mounting, the FAT, blocks of the image; the locale \<open>block_store\<close> is the block device
  with its read-over-write laws, interpreted on \<open>get_block\<close> and \<open>write_block\<close>. \<open>Fat_Dir\<close>: the root
  directory as a map from names to entries, with lookup and insertion shown to refine it. \<open>Fat_Open\<close>,
  \<open>Fat_IO\<close>, \<open>Fat_Ops\<close>: every \<open>k_\<close> call. \<open>Fat_Append\<close>: reading, seeking, and that writing at the end of a
  file extends it by exactly the bytes written. \<open>Fat_Volume\<close> has the invariant of the whole volume (the
  chains of the files have the right length and are apart from each other and from the directory)
  and the map of files it stands for; \<open>Fat_Session\<close> shows what opening, reading, writing, truncating, closing,
  unlinking, renaming and changing permissions do to that map. \<open>Tokenizer\<close> and \<open>Pennfat_Shell\<close>: the stand-alone
  shell (\<^verbatim>\<open>pennfat.c\<close>). \<open>Fat_Commands\<close> composes all of it: the copy, move, remove and touch commands of that
  shell refine operations on the map, from a fresh image on. Its locales \<open>command_refinement\<close> and
  \<open>file_store\<close>, interpreted on the commands, carry the result to sequences of commands. These theorems are
  about files that no descriptor has open; calls on files that are unlinked, moved or replaced
  while open are modelled, without such a theorem.

  \<^bold>\<open>Kernel\<close> (\<^verbatim>\<open>src/src/scheduler\<close>). \<open>Sched_State\<close>, \<open>Logger\<close>, \<open>Scheduler\<close>, \<open>Process_Ops\<close>, \<open>Proc_Kernel\<close> and
  \<open>Syscalls\<close> hold the state and one definition per function of \<^verbatim>\<open>scheduler.c\<close>, \<^verbatim>\<open>logger.c\<close>, \<^verbatim>\<open>kernel.c\<close> and \<^verbatim>\<open>sys.c\<close>.
  \<open>Doubles\<close> models the floating-point sleep counter. A call that suspends its thread returns a
  suspension, and its continuation is a definition of its own. The invariant is built up in
  \<open>Sched_Inv\<close> (six disjoint well-formed queues, each process where its state says),
  \<open>Sched_Moves\<close>, \<open>Proc_Tree\<close> (children lists and parents) and \<open>Kernel_Inv\<close>; \<open>Kernel_Frames\<close> has what the calls leave
  alone (current process, quantum, exit statuses), \<open>Kernel_Run\<close> the calls of a running process as the step
  relation \<open>kernel_step\<close>, a quantum as any finite sequence of such steps (\<open>makes_calls\<close>), and the scheduling
  step, \<open>Sys_Inv\<close> the system calls. \<open>Kernel_Props\<close>, \<open>Proc_Props\<close>, \<open>Sys_Props\<close> and
  \<open>Fairness\<close> state: every reachable state satisfies the invariant, and only zombies have an exit status;
  the calls and the scheduling steps return; the shares of the priorities over 19 steps are 9, 6 and 4;
  a ready process runs within 19 * (p + 1) steps while processes compute; what creating, exiting, waiting, stopping,
  continuing, sleeping do on every branch; what a terminating signal to a zombie breaks. Two calls are outside the step relation because they
  destroy the invariant: ending a zombie, and ending \<open>init\<close>, whose children would be appended to the
  list that is being walked. Booting takes the scheduler's memory as zeroed. \<open>Kernel_Example\<close> is the state on which the witnesses are evaluated.

  \<^bold>\<open>Files and processes together\<close> (\<open>File_Syscalls\<close>, \<open>File_Props\<close>; \<^verbatim>\<open>fat_syscalls.c\<close>, \<open>ps\<close>, \<open>u_perror\<close>).
  All system calls keep the kernel invariant.
  \<open>Proc_Files\<close> has what \<open>s_open\<close>, \<open>s_read\<close>, \<open>s_write\<close> and \<open>s_close\<close> do to the descriptor table of the running
  process and to the volume, and \<open>Proc_Programs\<close> composes the whole stack: the programs \<open>cp\<close>, \<open>mv\<close>, \<open>rm\<close> and \<open>touch\<close>, run as a
  process, refine operations on the map of files, \<open>cat\<close> prints a file and \<open>echo\<close> appends to one. The
  locale \<open>copier\<close> is a loop that reads pieces and writes them, interpreted on the loops of \<open>cp\<close> and \<open>cat\<close>.

  \<^bold>\<open>Shell\<close> (\<^verbatim>\<open>src/src/shell\<close>). \<open>Parser\<close> has both passes of \<^verbatim>\<open>parser.c\<close> with the block of memory they fill, and a
  specification as a lexer and a grammar; \<open>Parser_Scan\<close>, \<open>Parser_Fill\<close> and \<open>Parser_Props\<close> prove that the code
  meets it and that printing and parsing are inverse. \<open>Jobs\<close> (\<^verbatim>\<open>jobs.c\<close>) is the list of jobs on heap
  nodes and the built-ins \<open>jobs\<close>, \<open>fg\<close>, \<open>bg\<close>; \<open>Job_Props\<close> proves that it refines a list, with the locale
  \<open>job_store\<close> as the interface of the shell. \<open>Commands\<close> and \<open>Stress\<close> are the programs (\<^verbatim>\<open>commands.c\<close>,
  \<^verbatim>\<open>stress.c\<close>) as runs of a thread up to its end, an endless loop or a suspension. \<open>Shell_Loop\<close> is the
  main loop, \<open>init\<close> and \<open>main\<close> (\<^verbatim>\<open>penn-shell.c\<close>, \<^verbatim>\<open>command_execution.c\<close>, \<^verbatim>\<open>shell_porcelain.c\<close>,
  \<^verbatim>\<open>valid_input.c\<close>, \<^verbatim>\<open>signals.c\<close>). \<open>Shell_Props\<close> composes kernel and jobs: what becomes of a
  foreground job, of children that are not waited for, and of the terminal.

  \<^bold>\<open>Threads\<close> (\<^verbatim>\<open>scheduler/spthread.c\<close>). \<open>Spthread\<close> models a suspendable thread as a stack of frames, with the calls that
  suspend and continue it, the signal and its handler, as a step relation in which thread, sender
  and host interleave in any order; a second relation adds the scheduler and all threads. \<open>Spthread_Props\<close>
  proves by an invariant that the handshake is sound, that at most one process runs at a time, and that in
  every interleaving a thread that sleeps and is continued goes on; also that a wake-up at the wrong moment is lost. This is what the parameter
  \<open>run\<close> of the scheduling step (what the thread of the process does in its quantum) rests on.

  \<^bold>\<open>Interruptions.\<close> \<open>Preemption\<close> takes the append of the list macros apart into its reads and writes and shows for each
  point of suspension which process, if any, the scheduler's rotation of the queue loses. \<open>Host_Signals\<close>
  (\<^verbatim>\<open>signals.c\<close>, \<^verbatim>\<open>exiting_signal.c\<close>, the set-up in \<^verbatim>\<open>scheduler.c\<close>, \<^verbatim>\<open>penn-shell.c\<close> and \<^verbatim>\<open>pennfat.c\<close>) has the dispositions of the host's
  signals, the masks of the threads, and what a forwarded interrupt does on each thread.

  \<^bold>\<open>Not modelled.\<close> Cancelling and joining threads, which PennOS does not do. A program of the
  shell is modelled as an uninterrupted run; preemption between its system calls is covered
  at the kernel level, where \<open>run\<close> may be any sequence of kernel calls. The code lets a thread be suspended
  inside a kernel call too; of those states the model has the ones in the middle of an append to a
  queue (\<open>Preemption\<close>), and the theorems on the kernel are about calls that are not interrupted.
  The signals blocked while a handler runs, the start of the interval timer, diagnostic output of
  the kernel (\<open>k_log\<close>, \<open>k_get_processes_from_queue\<close>), the unused \<open>k_yield\<close>, the choice of the log file,
  and the demos and tests are left out.
\<close>

end
